(* ===== verification/Prelude.thy ===== *)
theory Prelude
  imports
    Main
    "HOL-Library.Sublist"
    "HOL-Library.Multiset"
    "HOL-Library.Word"
    "HOL-Library.AList"
    "HOL-Library.List_Lexorder"
    "HOL-Library.Char_ord"
    "HOL-Library.Product_Lexorder"
begin

text \<open>
  Shared vocabulary of the development: Python exceptions as a datatype, results as a sum,
  byte strings, the little-endian \<open>struct\<close> codes, the UTF-8 and CRC-32 routines of the
  standard library, and slices of byte strings. Every component theory imports this one.

  A Python \<open>str\<close> is modelled by the list of the bytes of its UTF-8 form (a HOL \<open>string\<close>):
  equality of strings is equality of those lists, and the code-point order that
  \<open>sorted\<close> uses is the lexicographic order of the lists. \<open>encode("utf-8")\<close> then reads
  the characters as bytes, and \<open>decode("utf-8")\<close> accepts exactly the well-formed byte
  sequences.
\<close>

unbundle bit_operations_syntax

named_theorems codec_simps \<open>lengths and round trips of the byte-level codecs\<close>
named_theorems read_simps \<open>what reading a byte string at an offset returns\<close>

section \<open>Exceptions and results\<close>

text \<open>
  \<open>CaracalError\<close> carries its diagnostic code; the message text is not modelled. The
  other constructors are the built-in exceptions the code can raise or let through.
\<close>

datatype py_error =
    CaracalError string
  | KeyError
  | ValueError
  | IndexError
  | TypeError
  | StructError
  | UnicodeDecodeError
  | AssertionError
  | AttributeError
  | StopIteration
  | ZeroDivisionError
  | RuntimeError
  | NotImplementedError
  | OSError

type_synonym 'a result = "py_error + 'a"

abbreviation raise_code :: "string \<Rightarrow> 'a result" where
  "raise_code c \<equiv> Inl (CaracalError c)"

definition rbind :: "'a result \<Rightarrow> ('a \<Rightarrow> 'b result) \<Rightarrow> 'b result" where
  "rbind r f = (case r of Inl e \<Rightarrow> Inl e | Inr x \<Rightarrow> f x)"

lemma rbind_simps [simp]:
  "rbind (Inl e) f = Inl e"
  "rbind (Inr x) f = f x"
  by (simp_all add: rbind_def)

lemma rbind_Inr_iff: "rbind r f = Inr y \<longleftrightarrow> (\<exists>x. r = Inr x \<and> f x = Inr y)"
  by (cases r) auto

lemma rbind_Inl_iff:
  "rbind r f = Inl e \<longleftrightarrow> r = Inl e \<or> (\<exists>x. r = Inr x \<and> f x = Inl e)"
  by (cases r) auto

text \<open>A comprehension whose body may raise: the first exception wins.\<close>

fun rmap :: "('a \<Rightarrow> 'b result) \<Rightarrow> 'a list \<Rightarrow> 'b list result" where
  "rmap f [] = Inr []"
| "rmap f (x # xs) = rbind (f x) (\<lambda>y. rbind (rmap f xs) (\<lambda>ys. Inr (y # ys)))"

lemma rmap_Inr_all: "(\<And>x. x \<in> set xs \<Longrightarrow> f (g x) = Inr (h x)) \<Longrightarrow> rmap f (map g xs) = Inr (map h xs)"
  by (induction xs) auto

lemma rmap_id: "(\<And>x. x \<in> set xs \<Longrightarrow> f (g x) = Inr x) \<Longrightarrow> rmap f (map g xs) = Inr xs"
  using rmap_Inr_all [of xs f g "\<lambda>x. x"] by simp

text \<open>A loop whose body updates a state and may raise.\<close>

fun rfold :: "('a \<Rightarrow> 's \<Rightarrow> 's result) \<Rightarrow> 'a list \<Rightarrow> 's \<Rightarrow> 's result" where
  "rfold f [] s = Inr s"
| "rfold f (x # xs) s = rbind (f x s) (rfold f xs)"

lemma rfold_cong [fundef_cong]:
  "xs = ys \<Longrightarrow> s = t \<Longrightarrow> (\<And>x u. x \<in> set ys \<Longrightarrow> f x u = g x u) \<Longrightarrow> rfold f xs s = rfold g ys t"
  by (induction ys arbitrary: xs s t) (auto simp: rbind_def split: sum.splits)

lemma rfold_append: "rfold f (xs @ ys) s = rbind (rfold f xs s) (rfold f ys)"
  by (induction xs arbitrary: s) (auto simp: rbind_def split: sum.splits)

lemma rfold_invariant:
  "rfold f xs s = Inr t \<Longrightarrow> P s \<Longrightarrow> (\<And>x u v. x \<in> set xs \<Longrightarrow> f x u = Inr v \<Longrightarrow> P u \<Longrightarrow> P v) \<Longrightarrow> P t"
proof (induction xs arbitrary: s)
  case (Cons x xs)
  then obtain u where "f x s = Inr u" "rfold f xs u = Inr t" by (auto simp: rbind_Inr_iff)
  with Cons show ?case by (metis list.set_intros)
qed simp

text \<open>A loop that collects results and threads a state.\<close>

fun rtraverse :: "('a \<Rightarrow> 's \<Rightarrow> ('b \<times> 's) result) \<Rightarrow> 'a list \<Rightarrow> 's \<Rightarrow> ('b list \<times> 's) result" where
  "rtraverse f [] s = Inr ([], s)"
| "rtraverse f (x # xs) s =
     rbind (f x s) (\<lambda>(y, s'). rbind (rtraverse f xs s') (\<lambda>(ys, s''). Inr (y # ys, s'')))"

lemma rtraverse_cong [fundef_cong]:
  "xs = ys \<Longrightarrow> s = t \<Longrightarrow> (\<And>x u. x \<in> set ys \<Longrightarrow> f x u = g x u) \<Longrightarrow> rtraverse f xs s = rtraverse g ys t"
  by (induction ys arbitrary: xs s t) (auto simp: rbind_def split: sum.splits)

lemma rmap_length: "rmap f xs = Inr ys \<Longrightarrow> length ys = length xs"
  by (induction xs arbitrary: ys) (auto simp: rbind_Inr_iff)

section \<open>Bytes\<close>

type_synonym byte = "8 word"
type_synonym bytes = "8 word list"

abbreviation byte_of_char :: "char \<Rightarrow> byte" where
  "byte_of_char c \<equiv> word_of_nat (of_char c)"

abbreviation char_of_byte :: "byte \<Rightarrow> char" where
  "char_of_byte b \<equiv> char_of (unat b)"

lemma unat_byte_less [simp]: "unat (b :: byte) < 256"
  using unsigned_less [of b, where ?'a = nat] by simp

lemma char_of_byte_of_char [simp]: "char_of_byte (byte_of_char c) = c"
  by (simp add: unat_of_nat)

lemma byte_of_char_of_byte [simp]: "byte_of_char (char_of_byte b) = b"
  by simp

text \<open>Python's py_slice \<open>b[i:j]\<close> for non-negative bounds: clipped at the end of the string.\<close>

definition py_slice :: "nat \<Rightarrow> nat \<Rightarrow> 'a list \<Rightarrow> 'a list" where
  "py_slice i j b = take (j - i) (drop i b)"

lemma length_py_slice [simp]: "length (py_slice i j b) = min (j - i) (length b - i)"
  by (simp add: py_slice_def)

lemma slice_append_skip [read_simps]:
  "py_slice (length p + i) (length p + j) (p @ b) = py_slice i j b"
  by (simp add: py_slice_def)

lemma slice_prefix [read_simps]: "n = length p \<Longrightarrow> py_slice 0 n (p @ b) = p"
  by (simp add: py_slice_def)

lemma slice_all: "length b \<le> n \<Longrightarrow> py_slice 0 n b = b"
  by (simp add: py_slice_def)

lemma slice_offset: "py_slice (n + i) (n + j) b = py_slice i j (drop n b)"
  by (simp add: py_slice_def add.commute)

lemma slice_append_left:
  "j \<le> length a \<Longrightarrow> py_slice i j (a @ b) = py_slice i j a"
  by (auto simp: py_slice_def)

subsection \<open>Little-endian unsigned integers (\<open>struct\<close> codes \<open><I\<close> and \<open><Q\<close>)\<close>

fun le_bytes :: "nat \<Rightarrow> nat \<Rightarrow> bytes" where
  "le_bytes 0 v = []"
| "le_bytes (Suc k) v = word_of_nat (v mod 256) # le_bytes k (v div 256)"

fun le_val :: "bytes \<Rightarrow> nat" where
  "le_val [] = 0"
| "le_val (b # bs) = unat b + 256 * le_val bs"

lemma length_le_bytes [simp, codec_simps]: "length (le_bytes k v) = k"
  by (induction k arbitrary: v) auto

lemma unat_byte_of_mod [simp]: "unat (word_of_nat (v mod 256) :: byte) = v mod 256"
  by (simp add: unat_of_nat)

lemma take_le_bytes: "j \<le> k \<Longrightarrow> take j (le_bytes k v) = le_bytes j v"
  by (induction k v arbitrary: j rule: le_bytes.induct) (auto simp: take_Cons split: nat.splits)

lemma drop_le_bytes: "drop j (le_bytes k v) = le_bytes (k - j) (v div 256 ^ j)"
proof (induction j arbitrary: k v)
  case (Suc j)
  then show ?case by (cases k) (simp_all add: div_mult2_eq)
qed simp

lemma le_val_le_bytes_mod: "le_val (le_bytes k v) = v mod 256 ^ k"
proof (induction k arbitrary: v)
  case 0
  then show ?case by simp
next
  case (Suc k)
  have "v mod (256 * 256 ^ k) = 256 * (v div 256 mod 256 ^ k) + v mod 256"
    by (rule mod_mult2_eq)
  with Suc show ?case by simp
qed

lemma le_val_le_bytes [codec_simps]: "v < 256 ^ k \<Longrightarrow> le_val (le_bytes k v) = v"
  by (simp add: le_val_le_bytes_mod)

lemma le_val_bound: "le_val bs < 256 ^ length bs"
proof (induction bs)
  case Nil
  then show ?case by simp
next
  case (Cons b bs)
  have "le_val (b # bs) < 256 * Suc (le_val bs)" by simp
  also from Cons have "Suc (le_val bs) \<le> 256 ^ length bs" by simp
  then have "256 * Suc (le_val bs) \<le> 256 ^ length (b # bs)" by simp
  finally show ?case .
qed

lemma le_bytes_le_val: "le_bytes (length bs) (le_val bs) = bs"
proof (induction bs)
  case Nil
  then show ?case by simp
next
  case (Cons b bs)
  have b: "unat b < 256" by simp
  then have "(unat b + 256 * le_val bs) mod 256 = unat b"
    and "(unat b + 256 * le_val bs) div 256 = le_val bs" by simp_all
  with Cons show ?case by simp
qed

text \<open>\<open>struct.pack\<close> of one unsigned field of \<open>k\<close> bytes: out-of-range values raise.\<close>

definition struct_pack :: "nat \<Rightarrow> nat \<Rightarrow> bytes result" where
  "struct_pack k v = (if v < 256 ^ k then Inr (le_bytes k v) else Inl StructError)"

lemma struct_pack_Inr [simp]:
  "struct_pack k v = Inr bs \<longleftrightarrow> v < 256 ^ k \<and> bs = le_bytes k v"
  by (auto simp: struct_pack_def)

abbreviation pack_u32 :: "nat \<Rightarrow> bytes result" where "pack_u32 \<equiv> struct_pack 4"
abbreviation pack_u64 :: "nat \<Rightarrow> bytes result" where "pack_u64 \<equiv> struct_pack 8"

subsection \<open>UTF-8\<close>

definition cont :: "byte \<Rightarrow> bool" where
  "cont b \<longleftrightarrow> 0x80 \<le> unat b \<and> unat b \<le> 0xBF"

text \<open>
  The well-formed byte sequences (RFC 3629), which is what Python's strict decoder accepts:
  no overlong forms, no surrogates, nothing above \<open>U+10FFFF\<close>.
\<close>

fun utf8_valid :: "bytes \<Rightarrow> bool" where
  "utf8_valid [] = True"
| "utf8_valid (b # bs) =
     (let n = unat b in
      if n < 0x80 then utf8_valid bs
      else if 0xC2 \<le> n \<and> n \<le> 0xDF then
        (case bs of c1 # r \<Rightarrow> cont c1 \<and> utf8_valid r | _ \<Rightarrow> False)
      else if 0xE0 \<le> n \<and> n \<le> 0xEF then
        (case bs of c1 # c2 # r \<Rightarrow>
           cont c1 \<and> cont c2 \<and> (n = 0xE0 \<longrightarrow> 0xA0 \<le> unat c1) \<and> (n = 0xED \<longrightarrow> unat c1 \<le> 0x9F)
           \<and> utf8_valid r
         | _ \<Rightarrow> False)
      else if 0xF0 \<le> n \<and> n \<le> 0xF4 then
        (case bs of c1 # c2 # c3 # r \<Rightarrow>
           cont c1 \<and> cont c2 \<and> cont c3 \<and> (n = 0xF0 \<longrightarrow> 0x90 \<le> unat c1)
           \<and> (n = 0xF4 \<longrightarrow> unat c1 \<le> 0x8F) \<and> utf8_valid r
         | _ \<Rightarrow> False)
      else False)"

definition utf8_encode :: "string \<Rightarrow> bytes" where
  "utf8_encode s = map byte_of_char s"

definition utf8_decode :: "bytes \<Rightarrow> string result" where
  "utf8_decode bs = (if utf8_valid bs then Inr (map char_of_byte bs) else Inl UnicodeDecodeError)"

text \<open>The lists of characters that are Python strings.\<close>

definition py_str :: "string \<Rightarrow> bool" where
  "py_str s \<longleftrightarrow> utf8_valid (utf8_encode s)"

lemma length_utf8_encode [simp, codec_simps]: "length (utf8_encode s) = length s"
  by (simp add: utf8_encode_def)

lemma utf8_decode_encode [codec_simps]: "py_str s \<Longrightarrow> utf8_decode (utf8_encode s) = Inr s"
  by (simp add: py_str_def utf8_decode_def utf8_encode_def comp_def)

lemma utf8_encode_decode: "utf8_decode bs = Inr s \<Longrightarrow> utf8_encode s = bs \<and> py_str s"
  by (auto simp: py_str_def utf8_decode_def utf8_encode_def comp_def split: if_splits)

lemma utf8_encode_inj: "utf8_encode s = utf8_encode t \<Longrightarrow> s = t"
  unfolding utf8_encode_def
  by (rule list.inj_map_strong [of s t "byte_of_char"]) (auto dest: arg_cong [where f = char_of_byte])

lemma utf8_valid_ascii: "(\<And>b. b \<in> set bs \<Longrightarrow> unat b < 0x80) \<Longrightarrow> utf8_valid bs"
  by (induction bs) (auto simp: Let_def)

lemma py_str_ascii: "list_all (\<lambda>c. of_char c < (128 :: nat)) s \<Longrightarrow> py_str s"
  unfolding py_str_def
  by (rule utf8_valid_ascii) (auto simp: utf8_encode_def list_all_iff unat_of_nat)

subsection \<open>CRC-32 (\<open>zlib.crc32\<close>)\<close>

text \<open>The reflected polynomial \<open>0xEDB88320\<close>, one bit at a time, with both complements.\<close>

definition crc32_step :: "32 word \<Rightarrow> 32 word" where
  "crc32_step c = (if bit c 0 then drop_bit 1 c XOR 0xEDB88320 else drop_bit 1 c)"

definition crc32_byte :: "32 word \<Rightarrow> byte \<Rightarrow> 32 word" where
  "crc32_byte c b = (crc32_step ^^ 8) (c XOR ucast b)"

definition crc32 :: "bytes \<Rightarrow> nat" where
  "crc32 bs = unat (NOT (foldl crc32_byte (NOT 0) bs))"

lemma crc32_bound [simp]: "crc32 bs < 4294967296"
  using unsigned_less [of "NOT (foldl crc32_byte (NOT 0) bs)", where ?'a = nat]
  by (simp add: crc32_def)

lemma crc32_round_trip [simp, codec_simps]: "le_val (le_bytes 4 (crc32 bs)) = crc32 bs"
  by (rule le_val_le_bytes) simp

subsection \<open>Decimal numerals\<close>

definition digit :: "nat \<Rightarrow> char" where
  "digit d = char_of (48 + d)"

fun decimal :: "nat \<Rightarrow> string" where
  "decimal n = (if n < 10 then [digit n] else decimal (n div 10) @ [digit (n mod 10)])"

declare decimal.simps [simp del]

definition int_str :: "int \<Rightarrow> string" where
  "int_str i = (if i < 0 then CHR ''-'' # decimal (nat (- i)) else decimal (nat i))"

lemma decimal_ascii: "list_all (\<lambda>c. of_char c < (128 :: nat)) (decimal n)"
  by (induction n rule: decimal.induct) (auto simp: decimal.simps [of n for n] digit_def)

lemma int_str_ascii: "list_all (\<lambda>c. of_char c < (128 :: nat)) (int_str i)"
  by (simp add: int_str_def decimal_ascii)

section \<open>Dictionaries\<close>

text \<open>
  A Python \<open>dict\<close> is an association list in insertion order with distinct keys: assigning
  to a present key keeps its place (\<open>AList.update\<close>), a new key goes to the end.
\<close>

type_synonym ('k, 'v) dict = "('k \<times> 'v) list"

abbreviation dict_keys :: "('k, 'v) dict \<Rightarrow> 'k list" where
  "dict_keys d \<equiv> map fst d"

definition dict_ok :: "('k, 'v) dict \<Rightarrow> bool" where
  "dict_ok d \<longleftrightarrow> distinct (dict_keys d)"

lemma dict_ok_Nil [simp]: "dict_ok []"
  by (simp add: dict_ok_def)

lemma dict_ok_update [simp]: "dict_ok d \<Longrightarrow> dict_ok (AList.update k v d)"
  by (simp add: dict_ok_def distinct_update)

lemma dict_ok_delete [simp]: "dict_ok d \<Longrightarrow> dict_ok (AList.delete k d)"
  by (simp add: dict_ok_def distinct_delete)

lemma dict_lookup_update: "map_of (AList.update k v d) k' = (if k' = k then Some v else map_of d k')"
  by (simp add: update_conv')

lemma dict_lookup_delete: "map_of (AList.delete k d) k' = (if k' = k then None else map_of d k')"
  by (simp add: delete_conv')

lemma dict_keys_update_set [simp]: "set (dict_keys (AList.update k v d)) = insert k (set (dict_keys d))"
  by (induction d) auto

lemma update_new: "i \<notin> fst ` set ds \<Longrightarrow> AList.update i v ds = ds @ [(i, v)]"
  by (induction ds) auto

lemma set_update_subset: "set (AList.update k v d) \<subseteq> insert (k, v) (set d)"
  by (induction d) auto

lemma set_delete_subset: "set (AList.delete k d) \<subseteq> set d"
  by (induction d) auto

text \<open>A dictionary filled from a list of entries with distinct keys keeps the order of the list.\<close>

lemma fold_update_distinct:
  "distinct (map key es) \<Longrightarrow> \<forall>e \<in> set es. key e \<notin> fst ` set d
    \<Longrightarrow> fold (\<lambda>e. AList.update (key e) (val e)) es d = d @ map (\<lambda>e. (key e, val e)) es"
proof (induction es arbitrary: d)
  case (Cons e es)
  from Cons.prems have "AList.update (key e) (val e) d = d @ [(key e, val e)]"
    by (intro update_new) simp
  moreover have "fold (\<lambda>e. AList.update (key e) (val e)) es (d @ [(key e, val e)])
      = (d @ [(key e, val e)]) @ map (\<lambda>e. (key e, val e)) es"
    by (rule Cons.IH) (use Cons.prems in \<open>auto simp: image_iff\<close>)
  ultimately show ?case by simp
qed simp

section \<open>Lists\<close>

lemma sorted_list_unique: "sorted xs \<Longrightarrow> distinct xs \<Longrightarrow> sorted_list_of_set (set xs) = xs"
  by (rule sorted_list_of_set.idem_if_sorted_distinct)

end
