(* ===== verification/Header.thy ===== *)
theory Header
  imports Prelude
begin

text \<open>
  The 24-byte header every CaracalDB file starts with (\<open>storage/header.py\<close>).
\<close>

definition MAGIC :: bytes where
  "MAGIC = map byte_of_char ''CRCL'' @ [0, 0, 0, 1]"

definition FORMAT_VERSION :: nat where "FORMAT_VERSION = 1"
definition DEFAULT_PAGE_SIZE :: nat where "DEFAULT_PAGE_SIZE = 16 * 1024"
definition HEADER_SIZE :: nat where "HEADER_SIZE = 24"

text \<open>The \<open>8s\<close> code of \<open>struct\<close>: cut or padded with zero bytes to eight.\<close>

definition pack_8s :: "bytes \<Rightarrow> bytes" where
  "pack_8s m = take 8 (m @ replicate 8 0)"

definition header_crc32 :: "bytes \<Rightarrow> nat \<Rightarrow> nat \<Rightarrow> nat \<Rightarrow> nat result" where
  "header_crc32 magic version page_size flags =
     rbind (pack_u32 version) (\<lambda>v.
     rbind (pack_u32 page_size) (\<lambda>p.
     rbind (pack_u32 flags) (\<lambda>f.
     Inr (crc32 (pack_8s magic @ v @ p @ f)))))"

definition pack_header :: "bytes \<Rightarrow> nat \<Rightarrow> nat \<Rightarrow> nat \<Rightarrow> bytes result" where
  "pack_header magic version page_size flags =
     rbind (header_crc32 magic version page_size flags) (\<lambda>crc.
     rbind (pack_u32 version) (\<lambda>v.
     rbind (pack_u32 page_size) (\<lambda>p.
     rbind (pack_u32 flags) (\<lambda>f.
     rbind (pack_u32 crc) (\<lambda>c.
     Inr (pack_8s magic @ v @ p @ f @ c))))))"

text \<open>\<open>pack_header()\<close> with its defaults: the header the writers of all file formats emit.\<close>

definition file_header :: bytes where
  "file_header = MAGIC @ le_bytes 4 FORMAT_VERSION @ le_bytes 4 DEFAULT_PAGE_SIZE @ le_bytes 4 0
     @ le_bytes 4 (crc32 (MAGIC @ le_bytes 4 FORMAT_VERSION @ le_bytes 4 DEFAULT_PAGE_SIZE
                          @ le_bytes 4 0))"

lemma length_MAGIC [simp, codec_simps]: "length MAGIC = 8"
  by (simp add: MAGIC_def)

lemma pack_8s_MAGIC [simp]: "pack_8s MAGIC = MAGIC"
  by (simp add: pack_8s_def)

lemma pack_header_default:
  "pack_header MAGIC FORMAT_VERSION DEFAULT_PAGE_SIZE 0 = Inr file_header"
  by (simp add: pack_header_def header_crc32_def struct_pack_def FORMAT_VERSION_def
      DEFAULT_PAGE_SIZE_def file_header_def)

lemma length_file_header [simp, codec_simps]: "length file_header = HEADER_SIZE"
  by (simp add: file_header_def HEADER_SIZE_def)

lemma file_header_magic [simp]: "take 8 file_header = MAGIC"
  by (simp add: file_header_def)

text \<open>A header is 24 bytes, starts with its magic and ends with the checksum of the rest.\<close>

lemma pack_header_layout:
  assumes "pack_header magic version page_size flags = Inr h"
  shows "length h = HEADER_SIZE \<and> take 8 h = pack_8s magic
    \<and> le_val (py_slice 8 12 h) = version \<and> le_val (py_slice 12 16 h) = page_size
    \<and> le_val (py_slice 16 20 h) = flags \<and> le_val (drop 20 h) = crc32 (take 20 h)"
proof -
  let ?m = "pack_8s magic" and ?v = "le_bytes 4 version" and ?p = "le_bytes 4 page_size"
    and ?f = "le_bytes 4 flags"
  have m: "length ?m = 8" by (simp add: pack_8s_def)
  have h: "h = ?m @ ?v @ ?p @ ?f @ le_bytes 4 (crc32 (?m @ ?v @ ?p @ ?f))"
    and b: "version < 256 ^ 4" "page_size < 256 ^ 4" "flags < 256 ^ 4"
    using assms by (auto simp: pack_header_def header_crc32_def rbind_Inr_iff)
  from b show ?thesis unfolding h
    by (simp add: m HEADER_SIZE_def py_slice_def le_val_le_bytes)
qed

end
