(* ===== verification/Wal.thy ===== *)
theory Wal
  imports Header
begin

text \<open>
  The append-only write-ahead log (\<open>storage/wal.py\<close>): the byte codec of a record, the
  rolling segment files of the log directory, and the operations of class \<open>Wal\<close>.

  The directory is an association list from segment number to file contents. An open
  segment carries the bytes written to its buffered file object that are not known to have
  reached the file; \<open>flush\<close> moves them there, and a crash keeps an arbitrary prefix of
  them.
\<close>

section \<open>Records\<close>

record wal_record =
  wr_lsn :: nat
  wr_prev_lsn :: nat
  wr_kind :: string
  wr_payload :: bytes

definition RECORD_HEAD_SIZE :: nat where "RECORD_HEAD_SIZE = 16"
definition DEFAULT_ROLL_SIZE :: nat where "DEFAULT_ROLL_SIZE = 64 * 1024 * 1024"

definition encode :: "wal_record \<Rightarrow> bytes result" where
  "encode r =
     (let kind_bytes = utf8_encode (wr_kind r) in
      rbind (pack_u64 (wr_lsn r)) (\<lambda>l.
      rbind (pack_u64 (wr_prev_lsn r)) (\<lambda>p.
      rbind (pack_u32 (length kind_bytes)) (\<lambda>kl.
      rbind (pack_u32 (length (wr_payload r))) (\<lambda>pl.
      let body = l @ p @ kl @ kind_bytes @ pl @ wr_payload r in
      rbind (pack_u32 (crc32 body)) (\<lambda>c. Inr (body @ c)))))))"

definition read_record :: "bytes \<Rightarrow> nat \<Rightarrow> (wal_record \<times> nat) option result" where
  "read_record buffer offset =
     (if offset + RECORD_HEAD_SIZE > length buffer then Inr None
      else
        let lsn = le_val (py_slice offset (offset + 8) buffer);
            prev_lsn = le_val (py_slice (offset + 8) (offset + RECORD_HEAD_SIZE) buffer);
            cursor = offset + RECORD_HEAD_SIZE
        in
        if cursor + 4 > length buffer then Inr None
        else
          let kind_len = le_val (py_slice cursor (cursor + 4) buffer); cursor = cursor + 4 in
          if cursor + kind_len + 4 > length buffer then Inr None
          else rbind (utf8_decode (py_slice cursor (cursor + kind_len) buffer)) (\<lambda>kind.
            let cursor = cursor + kind_len;
                payload_len = le_val (py_slice cursor (cursor + 4) buffer);
                cursor = cursor + 4
            in
            if cursor + payload_len + 4 > length buffer then Inr None
            else
              let payload = py_slice cursor (cursor + payload_len) buffer;
                  cursor = cursor + payload_len;
                  expected_crc = le_val (py_slice cursor (cursor + 4) buffer);
                  cursor = cursor + 4;
                  body = py_slice offset (cursor - 4) buffer
              in
              if crc32 body \<noteq> expected_crc then raise_code ''CDB-7052''
              else Inr (Some (\<lparr>wr_lsn = lsn, wr_prev_lsn = prev_lsn, wr_kind = kind,
                               wr_payload = payload\<rparr>, cursor))))"

lemma read_record_advances:
  "read_record buffer offset = Inr (Some (r, cursor)) \<Longrightarrow> offset < cursor \<and> cursor \<le> length buffer"
  by (auto simp: read_record_def rbind_Inr_iff Let_def RECORD_HEAD_SIZE_def split: if_splits)

section \<open>Reading segments\<close>

text \<open>
  A generator is the list of what it yields and the exception, if any, that ends it: the
  consumer has seen every yielded record by the time the exception reaches it.
\<close>

type_synonym 'a gen = "'a list \<times> py_error option"

function read_records :: "bytes \<Rightarrow> nat \<Rightarrow> wal_record gen" where
  "read_records data cursor =
     (if cursor < length data then
        (case read_record data cursor of
           Inl e \<Rightarrow> ([], Some e)
         | Inr None \<Rightarrow> ([], None)
         | Inr (Some (record, cursor')) \<Rightarrow>
             (case read_records data cursor' of (rs, e) \<Rightarrow> (record # rs, e)))
      else ([], None))"
  by pat_completeness auto
termination
  by (relation "measure (\<lambda>(data, cursor). length data - cursor)")
    (auto dest!: read_record_advances)

declare read_records.simps [simp del]

definition iter_segment_records :: "bytes \<Rightarrow> wal_record gen" where
  "iter_segment_records data =
     (if length data < HEADER_SIZE \<or> take (length MAGIC) data \<noteq> MAGIC
      then ([], Some (CaracalError ''CDB-7053''))
      else read_records data HEADER_SIZE)"

text \<open>\<open>yield from\<close> over the segments in the order given.\<close>

fun iter_segments :: "bytes list \<Rightarrow> wal_record gen" where
  "iter_segments [] = ([], None)"
| "iter_segments (d # ds) =
     (case iter_segment_records d of
        (rs, Some e) \<Rightarrow> (rs, Some e)
      | (rs, None) \<Rightarrow> (case iter_segments ds of (rs', e) \<Rightarrow> (rs @ rs', e)))"

subsection \<open>Segment file names\<close>

text \<open>
  A segment file is called \<open>f"{n:06d}.wal"\<close>, and \<open>sorted(directory.glob("*.wal"))\<close>
  orders the files by that name.
\<close>

definition zfill :: "nat \<Rightarrow> string \<Rightarrow> string" where
  "zfill w s = replicate (w - length s) (digit 0) @ s"

definition seg_name :: "nat \<Rightarrow> string" where
  "seg_name n = zfill 6 (decimal n) @ ''.wal''"

type_synonym wal_dir = "(nat \<times> bytes) list"

definition glob_sorted :: "wal_dir \<Rightarrow> wal_dir" where
  "glob_sorted dir = sort_key (\<lambda>f. seg_name (fst f)) dir"

definition iter_all_records :: "wal_dir \<Rightarrow> wal_record gen" where
  "iter_all_records dir = iter_segments (map snd (glob_sorted dir))"

definition segment_max_lsn :: "bytes \<Rightarrow> nat option result" where
  "segment_max_lsn data =
     (case iter_segment_records data of
        (rs, Some e) \<Rightarrow> Inl e
      | (rs, None) \<Rightarrow> Inr (if rs = [] then None else Some (wr_lsn (last rs))))"

section \<open>The log\<close>

datatype sync_mode = SyncOff | SyncGroup | SyncOn

record segment =
  seg_index :: nat
  seg_pending :: bytes
  seg_size :: nat

record wal_stats =
  st_last_lsn :: nat
  st_segments :: nat
  st_bytes_written :: nat
  st_flushes :: nat
  st_appends :: nat
  st_rolls :: nat

text \<open>\<open>w_fsync_ok\<close> is the environment: whether \<open>os.fsync\<close> succeeds.\<close>

record wal =
  w_dir :: wal_dir
  w_roll_size :: nat
  w_sync_mode :: sync_mode
  w_segment :: "segment option"
  w_last_lsn :: nat
  w_stats :: wal_stats
  w_fsync_ok :: bool

definition file_contents :: "wal_dir \<Rightarrow> nat \<Rightarrow> bytes" where
  "file_contents dir i = (case map_of dir i of None \<Rightarrow> [] | Some b \<Rightarrow> b)"

text \<open>\<open>self._segment.file.flush()\<close>: the buffered bytes reach the file.\<close>

definition file_flush :: "wal \<Rightarrow> wal" where
  "file_flush w =
     (case w_segment w of
        None \<Rightarrow> w
      | Some s \<Rightarrow>
          w\<lparr>w_dir := AList.update (seg_index s)
                      (file_contents (w_dir w) (seg_index s) @ seg_pending s) (w_dir w),
            w_segment := Some (s\<lparr>seg_pending := []\<rparr>)\<rparr>)"

definition wal_close :: "wal \<Rightarrow> wal" where
  "wal_close w = (file_flush w)\<lparr>w_segment := None\<rparr>"

definition create_new_segment :: "wal \<Rightarrow> wal" where
  "create_new_segment w =
     (let existing = glob_sorted (w_dir w);
          next_index = (if existing = [] then 1 else Suc (fst (last existing)))
      in w\<lparr>w_dir := AList.update next_index file_header (w_dir w),
           w_segment := Some \<lparr>seg_index = next_index, seg_pending = [], seg_size = HEADER_SIZE\<rparr>,
           w_stats := (w_stats w)\<lparr>st_segments := length existing + 1\<rparr>\<rparr>)"

definition resume_or_create :: "wal \<Rightarrow> wal" where
  "resume_or_create w =
     (let existing = glob_sorted (w_dir w) in
      if existing \<noteq> [] \<and> length (snd (last existing)) < w_roll_size w
      then w\<lparr>w_segment := Some \<lparr>seg_index = fst (last existing), seg_pending = [],
                               seg_size = length (snd (last existing))\<rparr>,
             w_stats := (w_stats w)\<lparr>st_segments := length existing\<rparr>\<rparr>
      else create_new_segment w)"

definition ensure_segment :: "wal \<Rightarrow> nat \<Rightarrow> wal" where
  "ensure_segment w extra_bytes =
     (let w1 = (if w_segment w = None then resume_or_create w else w) in
      case w_segment w1 of
        None \<Rightarrow> w1
      | Some s \<Rightarrow>
          if seg_size s + extra_bytes > w_roll_size w1 then
            let w2 = wal_close w1;
                w3 = w2\<lparr>w_stats := (w_stats w2)\<lparr>st_rolls := st_rolls (w_stats w2) + 1\<rparr>\<rparr>
            in create_new_segment w3
          else w1)"

definition flush_segment :: "wal \<Rightarrow> unit result \<times> wal" where
  "flush_segment w =
     (let w1 = file_flush w in
      if w_fsync_ok w1
      then (Inr (), w1\<lparr>w_stats := (w_stats w1)\<lparr>st_flushes := st_flushes (w_stats w1) + 1\<rparr>\<rparr>)
      else (raise_code ''CDB-7051'', w1))"

text \<open>\<open>segment.file.write(encoded); segment.size += len(encoded)\<close>.\<close>

definition segment_write :: "wal \<Rightarrow> bytes \<Rightarrow> wal" where
  "segment_write w bs =
     (case w_segment w of
        None \<Rightarrow> w
      | Some s \<Rightarrow> w\<lparr>w_segment := Some (s\<lparr>seg_pending := seg_pending s @ bs,
                                          seg_size := seg_size s + length bs\<rparr>)\<rparr>)"

definition wal_append :: "wal \<Rightarrow> string \<Rightarrow> bytes \<Rightarrow> nat result \<times> wal" where
  "wal_append w kind payload =
     (let prev = w_last_lsn w;
          next_lsn = prev + 1;
          record = \<lparr>wr_lsn = next_lsn, wr_prev_lsn = prev, wr_kind = kind, wr_payload = payload\<rparr>
      in
      case encode record of
        Inl e \<Rightarrow> (Inl e, w)
      | Inr encoded \<Rightarrow>
          let w1 = segment_write (ensure_segment w (length encoded)) encoded;
              w2 = w1\<lparr>w_last_lsn := next_lsn,
                      w_stats := (w_stats w1)
                        \<lparr>st_last_lsn := next_lsn,
                         st_bytes_written := st_bytes_written (w_stats w1) + length encoded,
                         st_appends := st_appends (w_stats w1) + 1\<rparr>\<rparr>
          in
          if w_sync_mode w = SyncOn then
            (case flush_segment w2 of
               (Inl e, w3) \<Rightarrow> (Inl e, w3)
             | (Inr _, w3) \<Rightarrow> (Inr next_lsn, w3))
          else (Inr next_lsn, w2))"

definition wal_flush :: "wal \<Rightarrow> unit result \<times> wal" where
  "wal_flush w =
     (if w_segment w = None \<or> w_sync_mode w = SyncOff then (Inr (), w) else flush_segment w)"

text \<open>The fields \<open>__init__\<close> sets, and the checks it makes first.\<close>

definition wal_init :: "wal_dir \<Rightarrow> nat \<Rightarrow> sync_mode \<Rightarrow> bool \<Rightarrow> nat \<Rightarrow> wal" where
  "wal_init dir roll_size sync fsync_ok l =
     \<lparr>w_dir = dir, w_roll_size = roll_size, w_sync_mode = sync, w_segment = None, w_last_lsn = l,
      w_stats = \<lparr>st_last_lsn = l, st_segments = 0, st_bytes_written = 0, st_flushes = 0,
                 st_appends = 0, st_rolls = 0\<rparr>,
      w_fsync_ok = fsync_ok\<rparr>"

definition wal_open :: "wal_dir \<Rightarrow> nat \<Rightarrow> sync_mode \<Rightarrow> bool \<Rightarrow> wal result" where
  "wal_open dir roll_size sync fsync_ok =
     (if roll_size \<le> HEADER_SIZE + 64 then raise_code ''CDB-7050''
      else
        (case iter_all_records dir of
           (rs, Some e) \<Rightarrow> Inl e
         | (rs, None) \<Rightarrow>
             Inr (wal_init dir roll_size sync fsync_ok (foldl max 0 (map wr_lsn rs)))))"

definition iter_since :: "wal \<Rightarrow> nat \<Rightarrow> wal_record gen \<times> wal" where
  "iter_since w lsn =
     (let w1 = file_flush w in
      case iter_all_records (w_dir w1) of
        (rs, e) \<Rightarrow> ((filter (\<lambda>r. lsn < wr_lsn r) rs, e), w1))"

text \<open>The loop of \<open>truncate_before\<close> over the sorted files, counting the deletions.\<close>

fun truncate_loop :: "wal \<Rightarrow> nat \<Rightarrow> wal_dir \<Rightarrow> nat \<Rightarrow> nat result \<times> wal" where
  "truncate_loop w lsn [] removed = (Inr removed, w)"
| "truncate_loop w lsn ((i, data) # rest) removed =
     (if (case w_segment w of None \<Rightarrow> False | Some s \<Rightarrow> seg_index s = i)
      then truncate_loop w lsn rest removed
      else
        (case segment_max_lsn data of
           Inl e \<Rightarrow> (Inl e, w)
         | Inr (Some m) \<Rightarrow>
             if m \<le> lsn
             then truncate_loop (w\<lparr>w_dir := AList.delete i (w_dir w)\<rparr>) lsn rest (removed + 1)
             else truncate_loop w lsn rest removed
         | Inr None \<Rightarrow> truncate_loop w lsn rest removed))"

definition truncate_before :: "wal \<Rightarrow> nat \<Rightarrow> nat result \<times> wal" where
  "truncate_before w lsn = truncate_loop w lsn (glob_sorted (w_dir w)) 0"

end
