(* ===== verification/Wal_Codec.thy ===== *)
theory Wal_Codec
  imports Wal
begin

text \<open>
  Correctness of the record codec of the write-ahead log: a record that is encoded is read
  back, wherever it stands in the buffer, and a record cut short is recognised as such.
\<close>

definition wf_record :: "wal_record \<Rightarrow> bool" where
  "wf_record r \<longleftrightarrow> wr_lsn r < 256 ^ 8 \<and> wr_prev_lsn r < 256 ^ 8 \<and> py_str (wr_kind r)
     \<and> length (wr_kind r) < 256 ^ 4 \<and> length (wr_payload r) < 256 ^ 4"

definition rec_body :: "wal_record \<Rightarrow> bytes" where
  "rec_body r = le_bytes 8 (wr_lsn r) @ le_bytes 8 (wr_prev_lsn r)
     @ le_bytes 4 (length (wr_kind r)) @ utf8_encode (wr_kind r)
     @ le_bytes 4 (length (wr_payload r)) @ wr_payload r"

definition rec_bytes :: "wal_record \<Rightarrow> bytes" where
  "rec_bytes r = rec_body r @ le_bytes 4 (crc32 (rec_body r))"

lemma length_rec_body [simp]:
  "length (rec_body r) = 24 + length (wr_kind r) + length (wr_payload r)"
  by (simp add: rec_body_def)

lemma length_rec_bytes [simp]:
  "length (rec_bytes r) = 28 + length (wr_kind r) + length (wr_payload r)"
  by (simp add: rec_bytes_def)

lemma encode_eq: "wf_record r \<Longrightarrow> encode r = Inr (rec_bytes r)"
  by (simp add: encode_def wf_record_def struct_pack_def rec_bytes_def rec_body_def Let_def)

lemma encode_Inr: "encode r = Inr bs \<Longrightarrow> py_str (wr_kind r) \<Longrightarrow> bs = rec_bytes r \<and> wf_record r"
  by (auto simp: encode_def wf_record_def rbind_Inr_iff Let_def rec_bytes_def rec_body_def)

text \<open>
  What \<open>read_record\<close> returns, given the two length fields it finds: the positions of the
  fields are absolute, so that the facts below about encoded records apply as they are.
\<close>

lemma read_record_fields:
  assumes "le_val (py_slice (n + 16) (n + 20) b) = k"
    and "le_val (py_slice (n + 20 + k) (n + 24 + k) b) = m"
  shows "read_record b n =
    (if length b < n + 20 \<or> length b < n + 24 + k then Inr None
     else rbind (utf8_decode (py_slice (n + 20) (n + 20 + k) b)) (\<lambda>kind.
       if length b < n + 28 + k + m then Inr None
       else if crc32 (py_slice n (n + 24 + k + m) b)
                 \<noteq> le_val (py_slice (n + 24 + k + m) (n + 28 + k + m) b)
       then raise_code ''CDB-7052''
       else Inr (Some (\<lparr>wr_lsn = le_val (py_slice n (n + 8) b),
                        wr_prev_lsn = le_val (py_slice (n + 8) (n + 16) b), wr_kind = kind,
                        wr_payload = py_slice (n + 24 + k) (n + 24 + k + m) b\<rparr>,
                       n + 28 + k + m))))"
proof -
  have e: "n + 16 + 4 = n + 20" "n + 20 + k + 4 = n + 24 + k" "n + 24 + k + m + 4 = n + 28 + k + m"
    "n + 28 + k + m - 4 = n + 24 + k + m"
    by simp_all
  show ?thesis
    unfolding read_record_def Let_def RECORD_HEAD_SIZE_def e assms
    by (auto intro: arg_cong [where f = "rbind _"])
qed

text \<open>The fields of an encoded record, by their place in the buffer.\<close>

lemma rec_slices:
  fixes pre r post
  defines "b \<equiv> pre @ rec_bytes r @ post" and "n \<equiv> length pre"
    and "k \<equiv> length (wr_kind r)" and "m \<equiv> length (wr_payload r)"
  shows "py_slice n (n + 8) b = le_bytes 8 (wr_lsn r)"
    and "py_slice (n + 8) (n + 16) b = le_bytes 8 (wr_prev_lsn r)"
    and "py_slice (n + 16) (n + 20) b = le_bytes 4 k"
    and "py_slice (n + 20) (n + 20 + k) b = utf8_encode (wr_kind r)"
    and "py_slice (n + 20 + k) (n + 24 + k) b = le_bytes 4 m"
    and "py_slice (n + 24 + k) (n + 24 + k + m) b = wr_payload r"
    and "py_slice (n + 24 + k + m) (n + 28 + k + m) b = le_bytes 4 (crc32 (rec_body r))"
    and "py_slice n (n + 24 + k + m) b = rec_body r"
  unfolding b_def n_def k_def m_def
  by (simp_all add: rec_bytes_def rec_body_def py_slice_def)

lemma rec_lengths_read:
  assumes "wf_record r"
  defines "b \<equiv> \<lambda>pre post. pre @ rec_bytes r @ post"
  shows "le_val (py_slice (length pre + 16) (length pre + 20) (b pre post)) = length (wr_kind r)"
    and "le_val (py_slice (length pre + 20 + length (wr_kind r)) (length pre + 24 + length (wr_kind r))
           (b pre post)) = length (wr_payload r)"
  using assms(1) by (simp_all add: b_def rec_slices wf_record_def le_val_le_bytes)

lemma read_record_encoded:
  assumes "wf_record r"
  shows "read_record (pre @ rec_bytes r @ post) (length pre)
    = Inr (Some (r, length pre + length (rec_bytes r)))"
  using assms
  by (simp add: read_record_fields [OF rec_lengths_read [OF assms]] rec_slices utf8_decode_encode
      wf_record_def le_val_le_bytes)

text \<open>A proper prefix of an encoded record is read as a truncated tail, never as an error.\<close>

lemma read_record_prefix:
  assumes wf: "wf_record r" and pq: "rec_bytes r = p @ q" and q: "q \<noteq> []"
  shows "read_record (pre @ p) (length pre) = Inr None"
proof -
  let ?n = "length pre" and ?k = "length (wr_kind r)" and ?m = "length (wr_payload r)"
  let ?b = "pre @ p" and ?B = "pre @ rec_bytes r @ []"
  note wfr = wf [unfolded wf_record_def]
  have "length p + length q = 28 + ?k + ?m"
    using length_rec_bytes [of r] by (simp add: pq)
  with q have len: "length p < 28 + ?k + ?m" by (cases q) auto
  have sl: "py_slice i j ?b = py_slice i j ?B" if "j \<le> length ?b" for i j
    using that slice_append_left [of j ?b i q] by (simp add: pq)
  show ?thesis
  proof (cases "length p < 20")
    case True
    then show ?thesis by (simp add: read_record_def Let_def RECORD_HEAD_SIZE_def)
  next
    case False
    then have kl: "le_val (py_slice (?n + 16) (?n + 20) ?b) = ?k"
      using rec_lengths_read(1) [OF wf, of pre "[]"] by (simp add: sl)
    show ?thesis
    proof (cases "length p < 24 + ?k")
      case True
      with read_record_fields [OF kl refl] show ?thesis by simp
    next
      case l: False
      then have ml: "le_val (py_slice (?n + 20 + ?k) (?n + 24 + ?k) ?b) = ?m"
        using rec_lengths_read(2) [OF wf, of pre "[]"] by (simp add: sl)
      have "py_slice (?n + 20) (?n + 20 + ?k) ?b = utf8_encode (wr_kind r)"
        using l rec_slices(4) [of pre r "[]"] by (simp add: sl)
      with read_record_fields [OF kl ml] l len wfr show ?thesis
        by (simp add: utf8_decode_encode)
    qed
  qed
qed

end
