(* ===== verification/Wal_Log.thy ===== *)
theory Wal_Log
  imports Wal_Codec
begin

text \<open>
  The log as a whole: reading segments of encoded records, the order of segment files, the
  invariant of class \<open>Wal\<close> with its abstraction to a list of records, and what every
  operation does to that list. The interface the clients of the log rely on is the locale
  \<open>append_log\<close>, interpreted here by the operations of \<open>Wal\<close>.
\<close>

section \<open>Reading a segment\<close>

definition seg_data :: "wal_record list \<Rightarrow> bytes" where
  "seg_data rs = file_header @ concat (map rec_bytes rs)"

text \<open>What an interrupted write can leave behind: a proper prefix of one encoded record.\<close>

definition torn_tail :: "bytes \<Rightarrow> bool" where
  "torn_tail t \<longleftrightarrow> (\<exists>r q. wf_record r \<and> rec_bytes r = t @ q \<and> q \<noteq> [])"

lemma rec_bytes_not_Nil [simp]: "rec_bytes r \<noteq> []"
  using length_rec_bytes [of r] by (metis add_is_0 list.size(3) zero_neq_numeral)

lemma torn_tail_Nil [simp]: "torn_tail []"
proof -
  have "wf_record \<lparr>wr_lsn = 0, wr_prev_lsn = 0, wr_kind = [], wr_payload = []\<rparr>"
    by (simp add: wf_record_def py_str_def utf8_encode_def)
  then show ?thesis unfolding torn_tail_def by (metis append_Nil rec_bytes_not_Nil)
qed

lemma read_records_end [simp]: "length data \<le> cursor \<Longrightarrow> read_records data cursor = ([], None)"
  by (simp add: read_records.simps)

lemma read_records_torn: "torn_tail t \<Longrightarrow> read_records (pre @ t) (length pre) = ([], None)"
  by (auto simp: torn_tail_def read_records.simps [of "pre @ t"] read_record_prefix)

lemma read_records_stop:
  assumes "list_all wf_record rs" and "read_records (pre @ concat (map rec_bytes rs) @ t)
      (length (pre @ concat (map rec_bytes rs))) = ([], None)"
  shows "read_records (pre @ concat (map rec_bytes rs) @ t) (length pre) = (rs, None)"
  using assms
proof (induction rs arbitrary: pre)
  case Nil
  then show ?case by simp
next
  case (Cons r rs)
  let ?data = "pre @ concat (map rec_bytes (r # rs)) @ t"
  have "read_record ?data (length pre) = Inr (Some (r, length (pre @ rec_bytes r)))"
    using Cons.prems read_record_encoded [of r pre "concat (map rec_bytes rs) @ t"] by simp
  moreover have "read_records ?data (length (pre @ rec_bytes r)) = (rs, None)"
    using Cons.prems Cons.IH [of "pre @ rec_bytes r"] by (simp add: add.assoc)
  moreover have "length pre < length ?data" by simp
  ultimately show ?case by (simp only: read_records.simps [of ?data "length pre"]) simp
qed

lemma iter_segment_records_stop:
  assumes "list_all wf_record rs" and "read_records (seg_data rs @ t) (length (seg_data rs)) = ([], None)"
  shows "iter_segment_records (seg_data rs @ t) = (rs, None)"
proof -
  have "read_records (file_header @ concat (map rec_bytes rs) @ t) HEADER_SIZE = (rs, None)"
    using read_records_stop [OF assms(1), of file_header t] assms(2) by (simp add: seg_data_def)
  then show ?thesis by (simp add: iter_segment_records_def seg_data_def HEADER_SIZE_def)
qed

lemma iter_segment_records_data:
  "list_all wf_record rs \<Longrightarrow> torn_tail t \<Longrightarrow> iter_segment_records (seg_data rs @ t) = (rs, None)"
  by (rule iter_segment_records_stop) (auto intro: read_records_torn)

lemma iter_segment_records_clean:
  "list_all wf_record rs \<Longrightarrow> iter_segment_records (seg_data rs) = (rs, None)"
  using iter_segment_records_data [of rs "[]"] by simp

lemma iter_segments_append:
  "iter_segments xs = (rs, None) \<Longrightarrow>
   iter_segments (xs @ ys) = (case iter_segments ys of (rs', e) \<Rightarrow> (rs @ rs', e))"
  by (induction xs arbitrary: rs) (auto split: prod.splits option.splits)

lemma iter_segments_clean:
  "list_all wf_record (concat rss) \<Longrightarrow> iter_segments (map seg_data rss) = (concat rss, None)"
  by (induction rss) (auto simp: iter_segment_records_clean)

lemma segment_max_lsn_data:
  "list_all wf_record rs \<Longrightarrow>
   segment_max_lsn (seg_data rs) = Inr (if rs = [] then None else Some (wr_lsn (last rs)))"
  by (simp add: segment_max_lsn_def iter_segment_records_clean)

section \<open>The order of segment files\<close>

text \<open>Decimal digits in a field of fixed width, the form file names below a million have.\<close>

fun digits :: "nat \<Rightarrow> nat \<Rightarrow> string" where
  "digits 0 n = []"
| "digits (Suc k) n = digits k (n div 10) @ [digit (n mod 10)]"

lemma length_digits [simp]: "length (digits k n) = k"
  by (induction k arbitrary: n) auto

lemma digit_less [simp]: "m < 10 \<Longrightarrow> n < 10 \<Longrightarrow> digit m < digit n \<longleftrightarrow> m < n"
  by (simp add: digit_def less_char_def)

lemma digit_eq [simp]: "m < 10 \<Longrightarrow> n < 10 \<Longrightarrow> digit m = digit n \<longleftrightarrow> m = n"
  by (metis digit_less linorder_neq_iff)

lemma digits_0 [simp]: "digits k 0 = replicate k (digit 0)"
  by (induction k) (simp_all add: replicate_append_same)

lemma zfill_decimal: "n < 10 ^ k \<Longrightarrow> 0 < k \<Longrightarrow> zfill k (decimal n) = digits k n"
proof (induction k arbitrary: n)
  case 0
  then show ?case by simp
next
  case (Suc k)
  show ?case
  proof (cases "n < 10")
    case True
    then show ?thesis by (simp add: decimal.simps zfill_def)
  next
    case False
    with Suc.prems have "0 < k" by (cases k) auto
    moreover from Suc.prems have "n div 10 < 10 ^ k" by (simp add: less_mult_imp_div_less mult.commute)
    ultimately have "zfill k (decimal (n div 10)) = digits k (n div 10)" by (intro Suc.IH)
    with False show ?thesis by (simp add: decimal.simps [of n] zfill_def)
  qed
qed

lemma list_less_snoc:
  "length xs = length ys \<Longrightarrow> xs @ [a] < ys @ [b] \<longleftrightarrow> xs < ys \<or> xs = ys \<and> (a :: 'a :: linorder) < b"
  by (induction xs ys rule: list_induct2) auto

lemma list_less_suffix:
  "length xs = length ys \<Longrightarrow> xs @ zs < ys @ zs \<longleftrightarrow> xs < (ys :: 'a :: linorder list)"
  by (induction xs ys rule: list_induct2) auto

lemma digits_eq: "m < 10 ^ k \<Longrightarrow> n < 10 ^ k \<Longrightarrow> digits k m = digits k n \<longleftrightarrow> m = n"
proof (induction k arbitrary: m n)
  case 0
  then show ?case by simp
next
  case (Suc k)
  then have "m div 10 < 10 ^ k" "n div 10 < 10 ^ k"
    by (simp_all add: less_mult_imp_div_less mult.commute)
  with Suc.IH have "digits k (m div 10) = digits k (n div 10) \<longleftrightarrow> m div 10 = n div 10" .
  moreover have "m = n \<longleftrightarrow> m div 10 = n div 10 \<and> m mod 10 = n mod 10"
    by (metis div_mod_decomp)
  ultimately show ?case by simp
qed

lemma dec_less:
  "r < 10 \<Longrightarrow> s < 10 \<Longrightarrow> 10 * q + r < 10 * p + s \<longleftrightarrow> q < p \<or> q = p \<and> r < (s :: nat)"
  by (cases q p rule: linorder_cases) auto

lemma digits_less: "m < 10 ^ k \<Longrightarrow> n < 10 ^ k \<Longrightarrow> digits k m < digits k n \<longleftrightarrow> m < n"
proof (induction k arbitrary: m n)
  case 0
  then show ?case by simp
next
  case (Suc k)
  then have b: "m div 10 < 10 ^ k" "n div 10 < 10 ^ k"
    by (simp_all add: less_mult_imp_div_less mult.commute)
  have "m < n \<longleftrightarrow> m div 10 < n div 10 \<or> m div 10 = n div 10 \<and> m mod 10 < n mod 10"
    using dec_less [of "m mod 10" "n mod 10" "m div 10" "n div 10"] by simp
  with Suc.IH [OF b] digits_eq [OF b] show ?case by (simp add: list_less_snoc)
qed

definition SEG_LIMIT :: nat where "SEG_LIMIT = 10 ^ 6"

lemma seg_name_less: "m < SEG_LIMIT \<Longrightarrow> n < SEG_LIMIT \<Longrightarrow> seg_name m < seg_name n \<longleftrightarrow> m < n"
  unfolding SEG_LIMIT_def seg_name_def
  by (subst (1 2) zfill_decimal) (simp_all only: list_less_suffix length_digits digits_less zero_less_numeral)

definition dir_ok :: "wal_dir \<Rightarrow> bool" where
  "dir_ok dir \<longleftrightarrow> sorted_wrt (<) (map fst dir) \<and> (\<forall>i \<in> fst ` set dir. i < SEG_LIMIT)"

lemma glob_sorted_id: "dir_ok dir \<Longrightarrow> glob_sorted dir = dir"
proof -
  assume ok: "dir_ok dir"
  then have "sorted_wrt (<) (map (\<lambda>f. seg_name (fst f)) dir)"
    unfolding dir_ok_def sorted_wrt_map
    by (auto simp: seg_name_less elim!: sorted_wrt_mono_rel [rotated])
  then have "sorted (map (\<lambda>f. seg_name (fst f)) dir)"
    by (rule strict_sorted_imp_sorted)
  then show ?thesis unfolding glob_sorted_def by (rule sort_key_id_if_sorted)
qed

end
