(* ===== verification/Wal_Inv.thy ===== *)
theory Wal_Inv
  imports Wal_Log
begin

text \<open>
  The invariant of class \<open>Wal\<close> and what each operation does to the list of records the log
  holds. The list splits into the records whose bytes have been flushed to their files and
  those still in the buffer of the open segment.
\<close>

section \<open>Invariant and abstraction\<close>

text \<open>Records numbered without gaps, each pointing at its predecessor.\<close>

fun chain :: "nat \<Rightarrow> wal_record list \<Rightarrow> nat \<Rightarrow> bool" where
  "chain a [] b \<longleftrightarrow> a = b"
| "chain a (r # rs) b \<longleftrightarrow> wr_prev_lsn r = a \<and> wr_lsn r = Suc a \<and> chain (Suc a) rs b"

lemma chain_append: "chain a (xs @ ys) c \<longleftrightarrow> (\<exists>b. chain a xs b \<and> chain b ys c)"
  by (induction xs arbitrary: a) auto

lemma chain_length: "chain a rs b \<Longrightarrow> b = a + length rs"
  by (induction rs arbitrary: a) fastforce+

lemma chain_lsns: "chain a rs b \<Longrightarrow> map wr_lsn rs = [Suc a..<Suc b]"
proof (induction rs arbitrary: a)
  case (Cons r rs)
  then have "a < b" using chain_length [of "Suc a" rs b] by simp
  with Cons show ?case by (simp add: upt_conv_Cons del: upt_Suc)
qed simp

lemma chain_bounds: "chain a rs b \<Longrightarrow> r \<in> set rs \<Longrightarrow> a < wr_lsn r \<and> wr_lsn r \<le> b"
proof -
  assume "chain a rs b" "r \<in> set rs"
  then have "wr_lsn r \<in> set [Suc a..<Suc b]" by (metis chain_lsns image_eqI set_map)
  then show ?thesis by auto
qed

lemma chain_last: "chain a rs b \<Longrightarrow> rs \<noteq> [] \<Longrightarrow> wr_lsn (last rs) = b"
  by (induction rs arbitrary: a) (auto split: if_splits)

definition wal_inv :: "wal \<Rightarrow> wal_record list list \<Rightarrow> wal_record list \<Rightarrow> bool" where
  "wal_inv w rss prs \<longleftrightarrow>
     map snd (w_dir w) = map seg_data rss
     \<and> list_all wf_record (concat rss @ prs)
     \<and> dir_ok (w_dir w)
     \<and> (case w_segment w of
          None \<Rightarrow> prs = []
        | Some s \<Rightarrow> w_dir w \<noteq> [] \<and> seg_index s = fst (last (w_dir w))
            \<and> seg_pending s = concat (map rec_bytes prs)
            \<and> seg_size s = length (snd (last (w_dir w))) + length (seg_pending s))
     \<and> (\<exists>a. chain a (concat rss @ prs) (w_last_lsn w))"

definition wal_ok :: "wal \<Rightarrow> bool" where
  "wal_ok w \<longleftrightarrow> (\<exists>rss prs. wal_inv w rss prs)"

text \<open>The flushed records, and all records: what \<open>iter_all_records\<close> reads before and after a flush.\<close>

definition wal_durable :: "wal \<Rightarrow> wal_record list" where
  "wal_durable w = fst (iter_all_records (w_dir w))"

definition wal_log :: "wal \<Rightarrow> wal_record list" where
  "wal_log w = fst (iter_all_records (w_dir (file_flush w)))"

lemma iter_all_records_inv:
  "wal_inv w rss prs \<Longrightarrow> iter_all_records (w_dir w) = (concat rss, None)"
  by (simp add: wal_inv_def iter_all_records_def glob_sorted_id iter_segments_clean)

lemma wal_durable_inv: "wal_inv w rss prs \<Longrightarrow> wal_durable w = concat rss"
  by (simp add: wal_durable_def iter_all_records_inv)

text \<open>The directory split at its last file.\<close>

lemma dir_split:
  assumes "wal_inv w rss prs" and "w_dir w \<noteq> []"
  obtains ds i rss' rs where "w_dir w = ds @ [(i, seg_data rs)]" and "rss = rss' @ [rs]"
    and "map snd ds = map seg_data rss'" and "i \<notin> fst ` set ds"
proof -
  from assms(2) obtain ds i d where d: "w_dir w = ds @ [(i, d)]"
    by (metis append_butlast_last_id surj_pair)
  with assms(1) have m: "map seg_data rss = map snd ds @ [d]"
    and so: "sorted_wrt (<) (map fst ds @ [i])"
    by (simp_all add: wal_inv_def dir_ok_def)
  then obtain rss' rs where r: "rss = rss' @ [rs]" "map seg_data rss' = map snd ds" "seg_data rs = d"
    by (metis (no_types, lifting) append_butlast_last_id last_map last_snoc list.map_disc_iff
        map_butlast butlast_snoc snoc_eq_iff_butlast)
  from so have "i \<notin> fst ` set ds" by (auto simp: sorted_wrt_append)
  with d r that show ?thesis by metis
qed

lemma update_snoc: "i \<notin> fst ` set ds \<Longrightarrow> AList.update i v (ds @ [(i, d)]) = ds @ [(i, v)]"
  by (induction ds) auto

lemma file_contents_snoc: "i \<notin> fst ` set ds \<Longrightarrow> file_contents (ds @ [(i, d)]) i = d"
  by (simp add: file_contents_def map_add_def dom_map_of_conv_image_fst split: option.splits)
    (metis (mono_tags, lifting) domI dom_map_of_conv_image_fst)

lemma seg_data_append: "seg_data rs @ concat (map rec_bytes prs) = seg_data (rs @ prs)"
  by (simp add: seg_data_def)

section \<open>Flushing and closing\<close>

text \<open>A flush moves the pending records to the last file and changes nothing else.\<close>

lemma file_flush_inv:
  assumes "wal_inv w rss prs"
  obtains rss' where "wal_inv (file_flush w) rss' []" and "concat rss' = concat rss @ prs"
proof (cases "w_segment w")
  case None
  with assms have "prs = []" by (simp add: wal_inv_def)
  with None assms that show ?thesis by (simp add: file_flush_def)
next
  case (Some s)
  with assms have ne: "w_dir w \<noteq> []" by (simp add: wal_inv_def)
  from dir_split [OF assms ne] obtain ds i rss' rs where
    d: "w_dir w = ds @ [(i, seg_data rs)]" "rss = rss' @ [rs]" "map snd ds = map seg_data rss'"
      "i \<notin> fst ` set ds" .
  have "wal_inv (file_flush w) (rss' @ [rs @ prs]) []"
    using assms Some d
    by (simp add: wal_inv_def file_flush_def file_contents_snoc update_snoc seg_data_append dir_ok_def)
      (auto simp: seg_data_def)
  with d that show ?thesis by simp
qed

lemma file_flush_segment:
  "w_segment (file_flush w) = map_option (\<lambda>s. s\<lparr>seg_pending := []\<rparr>) (w_segment w)"
  by (simp add: file_flush_def split: option.splits)

lemma file_flush_fields [simp]:
  "w_last_lsn (file_flush w) = w_last_lsn w" "w_sync_mode (file_flush w) = w_sync_mode w"
  "w_roll_size (file_flush w) = w_roll_size w" "w_fsync_ok (file_flush w) = w_fsync_ok w"
  by (simp_all add: file_flush_def split: option.splits)

lemma wal_log_inv:
  assumes "wal_inv w rss prs"
  shows "wal_log w = concat rss @ prs"
  using file_flush_inv [OF assms] by (metis iter_all_records_inv fst_conv wal_log_def)

lemma wal_close_inv:
  assumes "wal_inv w rss prs"
  obtains rss' where "wal_inv (wal_close w) rss' []" and "concat rss' = concat rss @ prs"
    and "w_segment (wal_close w) = None"
proof -
  from file_flush_inv [OF assms] obtain rss' where
    "wal_inv (file_flush w) rss' []" "concat rss' = concat rss @ prs" .
  with that show ?thesis by (simp add: wal_close_def wal_inv_def)
qed

section \<open>Opening a segment\<close>

text \<open>Room for \<open>n\<close> more segment files below the limit of the six-digit names.\<close>

definition seg_room :: "wal \<Rightarrow> nat \<Rightarrow> bool" where
  "seg_room w n \<longleftrightarrow> (\<forall>i \<in> insert 0 (fst ` set (w_dir w)). i + n < SEG_LIMIT)"

lemma seg_room_less: "seg_room w n \<Longrightarrow> m \<le> n \<Longrightarrow> seg_room w m"
  by (fastforce simp: seg_room_def)

lemma wal_inv_stats [simp]: "wal_inv (w\<lparr>w_stats := st\<rparr>) rss prs = wal_inv w rss prs"
  by (simp add: wal_inv_def cong: option.case_cong)

lemma seg_room_fields [simp]:
  "seg_room (w\<lparr>w_stats := st\<rparr>) n = seg_room w n" "seg_room (w\<lparr>w_last_lsn := l\<rparr>) n = seg_room w n"
  "seg_room (w\<lparr>w_segment := s\<rparr>) n = seg_room w n"
  by (simp_all add: seg_room_def)

lemma create_new_segment_inv:
  assumes inv: "wal_inv w rss []" and none: "w_segment w = None" and room: "seg_room w 1"
  shows "wal_inv (create_new_segment w) (rss @ [[]]) []"
    and "\<exists>s. w_segment (create_new_segment w) = Some s"
    and "seg_room w (Suc n) \<Longrightarrow> seg_room (create_new_segment w) n"
proof -
  let ?next = "if w_dir w = [] then 1 else Suc (fst (last (w_dir w)))"
  from inv have ok: "dir_ok (w_dir w)" by (simp add: wal_inv_def)
  have lt: "i < ?next" if "i \<in> fst ` set (w_dir w)" for i
  proof (cases "w_dir w" rule: rev_cases)
    case (snoc ds d)
    with ok that show ?thesis by (auto simp: dir_ok_def sorted_wrt_append less_Suc_eq)
  qed (use that in simp)
  have lim: "?next < SEG_LIMIT"
    using room by (auto simp: seg_room_def SEG_LIMIT_def)
  have nin: "?next \<notin> fst ` set (w_dir w)" using lt by blast
  have dir: "w_dir (create_new_segment w) = w_dir w @ [(?next, file_header)]"
    using nin by (simp add: create_new_segment_def glob_sorted_id [OF ok] update_new Let_def)
  have seg: "w_segment (create_new_segment w)
      = Some \<lparr>seg_index = ?next, seg_pending = [], seg_size = HEADER_SIZE\<rparr>"
    and last: "w_last_lsn (create_new_segment w) = w_last_lsn w"
    by (simp_all add: create_new_segment_def glob_sorted_id [OF ok] Let_def)
  show "wal_inv (create_new_segment w) (rss @ [[]]) []"
    using inv lt lim
    by (auto simp: wal_inv_def dir seg last dir_ok_def sorted_wrt_append seg_data_def)
  show "\<exists>s. w_segment (create_new_segment w) = Some s"
    by (simp add: create_new_segment_def Let_def)
  show "seg_room (create_new_segment w) n" if "seg_room w (Suc n)"
    using that seg_room_less [OF that, of n] by (auto simp: seg_room_def dir)
qed

lemma resume_or_create_inv:
  assumes inv: "wal_inv w rss []" and none: "w_segment w = None" and room: "seg_room w (Suc n)"
  obtains rss' s where "wal_inv (resume_or_create w) rss' []" and "concat rss' = concat rss"
    and "w_segment (resume_or_create w) = Some s" and "seg_room (resume_or_create w) n"
proof (cases "w_dir w \<noteq> [] \<and> length (snd (last (w_dir w))) < w_roll_size w")
  case True
  from inv have g: "glob_sorted (w_dir w) = w_dir w" by (simp add: wal_inv_def glob_sorted_id)
  with True have r: "resume_or_create w =
     w\<lparr>w_segment := Some \<lparr>seg_index = fst (last (w_dir w)), seg_pending = [],
                          seg_size = length (snd (last (w_dir w)))\<rparr>,
       w_stats := (w_stats w)\<lparr>st_segments := length (w_dir w)\<rparr>\<rparr>"
    by (simp add: resume_or_create_def Let_def)
  have "wal_inv (resume_or_create w) rss []"
    using inv True by (simp add: wal_inv_def r)
  then show ?thesis by (rule that) (use seg_room_less [OF room, of n] in \<open>simp_all add: r\<close>)
next
  case False
  from inv have "glob_sorted (w_dir w) = w_dir w" by (simp add: wal_inv_def glob_sorted_id)
  with False have r: "resume_or_create w = create_new_segment w"
    by (auto simp: resume_or_create_def Let_def)
  from room have "seg_room w 1" by (rule seg_room_less) simp
  note create = create_new_segment_inv [OF inv none this]
  from create(2) obtain s where s: "w_segment (create_new_segment w) = Some s" ..
  from create(1) create(3) [OF room] s show ?thesis
    by (intro that [of "rss @ [[]]" s]) (simp_all add: r)
qed

lemma seg_room_close: "wal_inv w rss prs \<Longrightarrow> seg_room w n \<Longrightarrow> seg_room (wal_close w) n"
proof (cases "w_segment w")
  case (Some s)
  assume inv: "wal_inv w rss prs" and room: "seg_room w n"
  from inv Some have "w_dir w \<noteq> []" by (simp add: wal_inv_def)
  from dir_split [OF inv this] obtain ds i rss' rs where d: "w_dir w = ds @ [(i, seg_data rs)]"
    and i: "i \<notin> fst ` set ds" by metis
  with inv room Some show ?thesis
    by (simp add: wal_inv_def wal_close_def file_flush_def seg_room_def update_snoc)
qed (simp add: wal_close_def file_flush_def seg_room_def)

text \<open>
  The segment the next record goes to: opened, resumed or rolled over, the log is the same,
  and records only move from the buffer to the files.
\<close>

lemma ensure_segment_inv:
  assumes inv: "wal_inv w rss prs" and room: "seg_room w (Suc (Suc n))"
  obtains rss' k s where "wal_inv (ensure_segment w b) rss' (drop k prs)"
    and "concat rss' = concat rss @ take k prs" and "w_segment (ensure_segment w b) = Some s"
    and "seg_room (ensure_segment w b) n"
proof -
  let ?w1 = "if w_segment w = None then resume_or_create w else w"
  obtain rss1 s where inv1: "wal_inv ?w1 rss1 prs" and c1: "concat rss1 = concat rss"
    and s1: "w_segment ?w1 = Some s" and room1: "seg_room ?w1 (Suc n)"
  proof (cases "w_segment w")
    case None
    with inv have p: "prs = []" by (simp add: wal_inv_def)
    from resume_or_create_inv [OF inv [unfolded p] None room] obtain rss' s where
      "wal_inv (resume_or_create w) rss' []" "concat rss' = concat rss"
      "w_segment (resume_or_create w) = Some s" "seg_room (resume_or_create w) (Suc n)" .
    with None p that show ?thesis by simp
  next
    case (Some s)
    have "seg_room w (Suc n)" using room by (rule seg_room_less) simp
    with Some inv show ?thesis by (intro that [of rss s]) simp_all
  qed
  show ?thesis
  proof (cases "seg_size s + b > w_roll_size ?w1")
    case True
    let ?w2 = "wal_close ?w1"
    let ?w3 = "?w2\<lparr>w_stats := (w_stats ?w2)\<lparr>st_rolls := st_rolls (w_stats ?w2) + 1\<rparr>\<rparr>"
    from wal_close_inv [OF inv1] obtain rss2 where
      "wal_inv ?w2 rss2 []" and c2: "concat rss2 = concat rss1 @ prs" and "w_segment ?w2 = None" .
    moreover have "seg_room ?w2 (Suc n)" by (rule seg_room_close [OF inv1 room1])
    moreover from this have "seg_room ?w2 1" by (rule seg_room_less) simp
    ultimately have w3: "wal_inv ?w3 rss2 []" "w_segment ?w3 = None" "seg_room ?w3 1"
      and room3: "seg_room ?w3 (Suc n)"
      by simp_all
    have e: "ensure_segment w b = create_new_segment ?w3"
      using True s1 by (simp add: ensure_segment_def Let_def)
    from create_new_segment_inv(2) [OF w3] obtain s' where "w_segment (create_new_segment ?w3) = Some s'" ..
    moreover have "wal_inv (create_new_segment ?w3) (rss2 @ [[]]) (drop (length prs) prs)"
      using create_new_segment_inv(1) [OF w3] by simp
    moreover have "concat (rss2 @ [[]]) = concat rss @ take (length prs) prs"
      by (simp add: c2 c1)
    ultimately show ?thesis
      using create_new_segment_inv(3) [OF w3 room3] unfolding e [symmetric] by (intro that)
  next
    case False
    then have e: "ensure_segment w b = ?w1" using s1 by (simp add: ensure_segment_def Let_def)
    show ?thesis
      by (rule that [of rss1 0 s])
        (use inv1 c1 s1 seg_room_less [OF room1, of n] in \<open>simp_all add: e\<close>)
  qed
qed

lemma segment_write_inv:
  assumes inv: "wal_inv w rss prs" and s: "w_segment w = Some s" and wf: "wf_record r"
    and r: "wr_prev_lsn r = w_last_lsn w" "wr_lsn r = Suc (w_last_lsn w)"
  shows "wal_inv (segment_write w (rec_bytes r)\<lparr>w_last_lsn := Suc (w_last_lsn w), w_stats := st\<rparr>)
           rss (prs @ [r])"
  using assms by (auto simp: wal_inv_def segment_write_def chain_append)

end
