(* ===== verification/Wal_Ops.thy ===== *)
theory Wal_Ops
  imports Wal_Inv
begin

text \<open>
  What the public operations of \<open>Wal\<close> do to the log: append, flush, reading, reopening,
  a crash between two flushes, and truncation. The locale \<open>append_log\<close> states the part of
  it the clients rely on.
\<close>

section \<open>Append\<close>

definition new_record :: "wal \<Rightarrow> string \<Rightarrow> bytes \<Rightarrow> wal_record" where
  "new_record w kind payload =
     \<lparr>wr_lsn = Suc (w_last_lsn w), wr_prev_lsn = w_last_lsn w, wr_kind = kind,
      wr_payload = payload\<rparr>"

lemma new_record_sel [simp]:
  "wr_lsn (new_record w k p) = Suc (w_last_lsn w)" "wr_prev_lsn (new_record w k p) = w_last_lsn w"
  "wr_kind (new_record w k p) = k" "wr_payload (new_record w k p) = p"
  by (simp_all add: new_record_def)

lemma ensure_segment_fields [simp]:
  "w_last_lsn (ensure_segment w n) = w_last_lsn w"
  "w_sync_mode (ensure_segment w n) = w_sync_mode w"
  "w_fsync_ok (ensure_segment w n) = w_fsync_ok w"
  by (simp_all add: ensure_segment_def resume_or_create_def create_new_segment_def wal_close_def
      Let_def split: option.splits)

lemma segment_write_fields [simp]:
  "w_last_lsn (segment_write w bs) = w_last_lsn w"
  "w_sync_mode (segment_write w bs) = w_sync_mode w"
  "w_fsync_ok (segment_write w bs) = w_fsync_ok w"
  by (simp_all add: segment_write_def split: option.splits)

text \<open>The state before the optional fsync of \<open>append\<close>.\<close>

definition appended :: "wal \<Rightarrow> wal_record \<Rightarrow> wal" where
  "appended w r =
     (let w1 = segment_write (ensure_segment w (length (rec_bytes r))) (rec_bytes r) in
      w1\<lparr>w_last_lsn := Suc (w_last_lsn w),
         w_stats := (w_stats w1)
           \<lparr>st_last_lsn := Suc (w_last_lsn w),
            st_bytes_written := st_bytes_written (w_stats w1) + length (rec_bytes r),
            st_appends := st_appends (w_stats w1) + 1\<rparr>\<rparr>)"

lemma appended_fields [simp]:
  "w_last_lsn (appended w r) = Suc (w_last_lsn w)" "w_sync_mode (appended w r) = w_sync_mode w"
  "w_fsync_ok (appended w r) = w_fsync_ok w"
  by (simp_all add: appended_def Let_def)

lemma wal_append_cases:
  assumes "py_str kind"
  shows "wal_append w kind payload =
    (let r = new_record w kind payload in
     if wf_record r then
       (if w_sync_mode w = SyncOn then
          (case flush_segment (appended w r) of
             (Inl e, w') \<Rightarrow> (Inl e, w') | (Inr _, w') \<Rightarrow> (Inr (Suc (w_last_lsn w)), w'))
        else (Inr (Suc (w_last_lsn w)), appended w r))
     else (Inl StructError, w))"
proof (cases "wf_record (new_record w kind payload)")
  case True
  note encode_eq [OF this]
  with True show ?thesis
    by (simp add: wal_append_def appended_def new_record_def Let_def split: sum.splits prod.splits)
next
  case False
  with assms have "encode (new_record w kind payload) = Inl StructError"
    by (auto simp: encode_def wf_record_def rbind_def struct_pack_def Let_def split: sum.splits)
  with False show ?thesis by (simp add: wal_append_def new_record_def Let_def)
qed

lemma appended_inv:
  assumes inv: "wal_inv w rss prs" and room: "seg_room w (Suc (Suc m))"
    and wf: "wf_record (new_record w k p)"
  obtains rss' n where "wal_inv (appended w (new_record w k p)) rss' (drop n prs @ [new_record w k p])"
    and "concat rss' = concat rss @ take n prs" and "seg_room (appended w (new_record w k p)) m"
proof -
  let ?r = "new_record w k p"
  from ensure_segment_inv [OF inv room, of "length (rec_bytes ?r)"] obtain rss' n s where
    e: "wal_inv (ensure_segment w (length (rec_bytes ?r))) rss' (drop n prs)"
      "concat rss' = concat rss @ take n prs"
      "w_segment (ensure_segment w (length (rec_bytes ?r))) = Some s"
      "seg_room (ensure_segment w (length (rec_bytes ?r))) m" .
  have "wal_inv (appended w ?r) rss' (drop n prs @ [?r])"
    unfolding appended_def Let_def
    using segment_write_inv [OF e(1,3) wf] by simp
  moreover have "seg_room (appended w ?r) m"
    using e(3,4) by (simp add: appended_def Let_def segment_write_def)
  ultimately show ?thesis using e(2) that by blast
qed

text \<open>
  A flush that succeeds leaves nothing pending; one that fails has still moved the bytes to
  the file.
\<close>

lemma flush_segment_inv:
  assumes "wal_inv w rss prs" and "flush_segment w = (res, w')"
  obtains rss' where "wal_inv w' rss' []" and "concat rss' = concat rss @ prs"
    and "w_last_lsn w' = w_last_lsn w" and "\<And>n. seg_room w n \<Longrightarrow> seg_room w' n"
proof -
  from file_flush_inv [OF assms(1)] obtain rss' where
    "wal_inv (file_flush w) rss' []" "concat rss' = concat rss @ prs" .
  moreover have "seg_room w' n" if "seg_room w n" for n
    using seg_room_close [OF assms(1) that] assms(2)
    by (auto simp: wal_close_def flush_segment_def Let_def split: if_splits)
  ultimately show ?thesis using assms(2)
    by (intro that) (auto simp: flush_segment_def Let_def split: if_splits)
qed

lemma wal_append_inv:
  assumes inv: "wal_inv w rss prs" and room: "seg_room w (Suc (Suc m))" and py: "py_str kind"
    and app: "wal_append w kind payload = (Inr n, w')"
  obtains rss' prs' ext where "wal_inv w' rss' prs'" and "concat rss' = concat rss @ ext"
    and "concat rss' @ prs' = concat rss @ prs @ [new_record w kind payload]"
    and "n = Suc (w_last_lsn w)" and "w_last_lsn w' = n" and "wf_record (new_record w kind payload)"
    and "seg_room w' m"
proof -
  let ?r = "new_record w kind payload"
  from app have wf: "wf_record ?r" and n: "n = Suc (w_last_lsn w)"
    by (auto simp: wal_append_cases [OF py] Let_def split: if_splits sum.splits prod.splits)
  from appended_inv [OF inv room wf] obtain rss1 j where
    a: "wal_inv (appended w ?r) rss1 (drop j prs @ [?r])" "concat rss1 = concat rss @ take j prs"
      "seg_room (appended w ?r) m" .
  show ?thesis
  proof (cases "w_sync_mode w = SyncOn")
    case True
    with app wf obtain u where "flush_segment (appended w ?r) = (Inr u, w')"
      by (auto simp: wal_append_cases [OF py] Let_def split: if_splits sum.splits prod.splits)
    from flush_segment_inv [OF a(1) this] a(3) obtain rss' where
      "wal_inv w' rss' []" "concat rss' = concat rss1 @ drop j prs @ [?r]"
      "w_last_lsn w' = w_last_lsn (appended w ?r)" "seg_room w' m" by metis
    then show ?thesis
      by (intro that [of rss' "[]" "prs @ [?r]"]) (use a wf n in simp_all)
  next
    case False
    with app wf have "w' = appended w ?r"
      by (auto simp: wal_append_cases [OF py] Let_def split: if_splits)
    with a show ?thesis
      by (intro that [of rss1 "drop j prs @ [?r]" "take j prs"]) (use wf n in simp_all)
  qed
qed

section \<open>The interface of the log\<close>

text \<open>
  What the clients of the log (checkpoints, transactions, the reasoner) rely on. \<open>log\<close> is
  the list of records, \<open>durable\<close> the part of it a crash cannot lose, \<open>room s n\<close> says that
  \<open>n\<close> more segment files fit.
\<close>

locale append_log =
  fixes append :: "'s \<Rightarrow> string \<Rightarrow> bytes \<Rightarrow> nat result \<times> 's"
    and flush :: "'s \<Rightarrow> unit result \<times> 's"
    and log :: "'s \<Rightarrow> wal_record list"
    and durable :: "'s \<Rightarrow> wal_record list"
    and last_lsn :: "'s \<Rightarrow> nat"
    and ok :: "'s \<Rightarrow> bool"
    and room :: "'s \<Rightarrow> nat \<Rightarrow> bool"
    and syncs :: "'s \<Rightarrow> bool"
  assumes append_log: "ok s \<Longrightarrow> room s (Suc (Suc n)) \<Longrightarrow> py_str k \<Longrightarrow> append s k p = (Inr l, s') \<Longrightarrow>
      log s' = log s @ [\<lparr>wr_lsn = Suc (last_lsn s), wr_prev_lsn = last_lsn s, wr_kind = k,
                        wr_payload = p\<rparr>]"
    and append_lsn: "ok s \<Longrightarrow> room s (Suc (Suc n)) \<Longrightarrow> py_str k \<Longrightarrow> append s k p = (Inr l, s') \<Longrightarrow>
      l = Suc (last_lsn s) \<and> last_lsn s' = l"
    and append_ok: "ok s \<Longrightarrow> room s (Suc (Suc n)) \<Longrightarrow> py_str k \<Longrightarrow> append s k p = (Inr l, s') \<Longrightarrow>
      ok s' \<and> room s' n"
    and append_durable: "ok s \<Longrightarrow> room s (Suc (Suc n)) \<Longrightarrow> py_str k \<Longrightarrow>
      append s k p = (Inr l, s') \<Longrightarrow> \<exists>ext. durable s' = durable s @ ext"
    and append_syncs: "py_str k \<Longrightarrow> append s k p = (Inr l, s') \<Longrightarrow> syncs s' = syncs s"
    and flush_log: "ok s \<Longrightarrow> flush s = (Inr u, s') \<Longrightarrow>
      ok s' \<and> log s' = log s \<and> last_lsn s' = last_lsn s \<and> (room s n \<longrightarrow> room s' n)"
    and flush_durable: "ok s \<Longrightarrow> syncs s \<Longrightarrow> flush s = (Inr u, s') \<Longrightarrow> durable s' = log s'"
    and log_lsns: "ok s \<Longrightarrow> r \<in> set (log s) \<Longrightarrow> wr_lsn r \<le> last_lsn s"
    and durable_prefix: "ok s \<Longrightarrow> \<exists>rest. log s = durable s @ rest"
begin

text \<open>Appending and flushing, the pattern of a commit: the record is durable.\<close>

lemma append_flush_durable:
  assumes "ok s" "room s (Suc (Suc n))" "py_str k" "syncs s"
    and a: "append s k p = (Inr l, s1)" and f: "flush s1 = (Inr u, s2)"
  shows "durable s2 = log s @ [\<lparr>wr_lsn = l, wr_prev_lsn = last_lsn s, wr_kind = k, wr_payload = p\<rparr>]"
    and "ok s2" "room s2 n" "last_lsn s2 = l" "l = Suc (last_lsn s)" "log s2 = durable s2"
proof -
  note ap = append_log [OF assms(1-3) a] append_lsn [OF assms(1-3) a] append_ok [OF assms(1-3) a]
    append_syncs [OF assms(3) a]
  from ap have ok1: "ok s1" by blast
  from ok1 f have fl: "ok s2 \<and> log s2 = log s1 \<and> last_lsn s2 = last_lsn s1 \<and> (room s1 n \<longrightarrow> room s2 n)"
    by (rule flush_log)
  moreover have "durable s2 = log s2" using flush_durable [OF ok1 _ f] ap assms(4) by simp
  ultimately show "durable s2 = log s @ [\<lparr>wr_lsn = l, wr_prev_lsn = last_lsn s, wr_kind = k,
      wr_payload = p\<rparr>]"
    and "ok s2" "room s2 n" "last_lsn s2 = l" "l = Suc (last_lsn s)" "log s2 = durable s2"
    using ap by auto
qed

text \<open>A number handed out by an append is new in the log.\<close>

lemma append_fresh:
  assumes "ok s" "room s (Suc (Suc n))" "py_str k" "append s k p = (Inr l, s')"
  shows "r \<in> set (log s) \<Longrightarrow> wr_lsn r < l"
  using log_lsns [OF assms(1)] append_lsn [OF assms] by fastforce

end

lemma wal_log_chain: "wal_ok w \<Longrightarrow> \<exists>a. chain a (wal_log w) (w_last_lsn w)"
  by (auto simp: wal_ok_def wal_log_inv) (auto simp: wal_inv_def)

lemma wal_flush_inv:
  assumes "wal_inv w rss prs" and "wal_flush w = (Inr u, w')"
  shows "wal_ok w'" and "wal_log w' = wal_log w" and "w_last_lsn w' = w_last_lsn w"
    and "seg_room w n \<Longrightarrow> seg_room w' n" and "w_sync_mode w \<noteq> SyncOff \<Longrightarrow> wal_durable w' = wal_log w'"
proof -
  have skip: "w' = w \<and> (w_segment w = None \<or> w_sync_mode w = SyncOff)
      \<or> flush_segment w = (Inr u, w')"
    using assms(2) by (auto simp: wal_flush_def split: if_splits)
  have "wal_ok w' \<and> wal_log w' = wal_log w \<and> w_last_lsn w' = w_last_lsn w
      \<and> (seg_room w n \<longrightarrow> seg_room w' n) \<and> (w_sync_mode w \<noteq> SyncOff \<longrightarrow> wal_durable w' = wal_log w')"
    using skip
  proof (elim disjE conjE)
    assume "w_segment w = None" "w' = w"
    with assms(1) show ?thesis
      by (auto simp: wal_ok_def wal_log_def wal_durable_def file_flush_def)
  next
    assume "w_sync_mode w = SyncOff" "w' = w"
    with assms(1) show ?thesis by (auto simp: wal_ok_def)
  next
    assume "flush_segment w = (Inr u, w')"
    from flush_segment_inv [OF assms(1) this] obtain rss' where
      "wal_inv w' rss' []" "concat rss' = concat rss @ prs" "w_last_lsn w' = w_last_lsn w"
      "\<And>n. seg_room w n \<Longrightarrow> seg_room w' n" by metis
    with assms(1) show ?thesis
      by (auto simp: wal_ok_def wal_log_inv wal_durable_inv)
  qed
  then show "wal_ok w'" "wal_log w' = wal_log w" "w_last_lsn w' = w_last_lsn w"
    "seg_room w n \<Longrightarrow> seg_room w' n" "w_sync_mode w \<noteq> SyncOff \<Longrightarrow> wal_durable w' = wal_log w'"
    by blast+
qed

lemma wal_append_sync:
  "py_str k \<Longrightarrow> wal_append w k p = (res, w') \<Longrightarrow> w_sync_mode w' = w_sync_mode w"
  by (auto simp: wal_append_cases Let_def flush_segment_def split: if_splits sum.splits prod.splits)

interpretation wal: append_log wal_append wal_flush wal_log wal_durable w_last_lsn wal_ok seg_room
  "\<lambda>w. w_sync_mode w \<noteq> SyncOff"
proof
  fix s s' :: wal and n l :: nat and k p
  assume "wal_ok s" and room: "seg_room s (Suc (Suc n))" and py: "py_str k"
    and app: "wal_append s k p = (Inr l, s')"
  then obtain rss prs where inv: "wal_inv s rss prs" by (auto simp: wal_ok_def)
  from wal_append_inv [OF inv room py app] obtain rss' prs' ext where
    a: "wal_inv s' rss' prs'" "concat rss' = concat rss @ ext"
      "concat rss' @ prs' = concat rss @ prs @ [new_record s k p]"
      "l = Suc (w_last_lsn s)" "w_last_lsn s' = l" "seg_room s' n" by metis
  show "wal_log s' = wal_log s @ [\<lparr>wr_lsn = Suc (w_last_lsn s), wr_prev_lsn = w_last_lsn s,
      wr_kind = k, wr_payload = p\<rparr>]"
    using a inv by (simp add: wal_log_inv new_record_def)
  show "l = Suc (w_last_lsn s) \<and> w_last_lsn s' = l" using a by simp
  show "wal_ok s' \<and> seg_room s' n" using a by (auto simp: wal_ok_def)
  show "\<exists>ext. wal_durable s' = wal_durable s @ ext"
    using a inv by (auto simp: wal_durable_inv)
next
  fix s s' :: wal and u n
  assume "wal_ok s" and "wal_flush s = (Inr u, s')"
  then show "wal_ok s' \<and> wal_log s' = wal_log s \<and> w_last_lsn s' = w_last_lsn s
      \<and> (seg_room s n \<longrightarrow> seg_room s' n)"
    and "w_sync_mode s \<noteq> SyncOff \<Longrightarrow> wal_durable s' = wal_log s'"
    using wal_flush_inv by (auto simp: wal_ok_def)
next
  fix s :: wal and r
  assume "wal_ok s" "r \<in> set (wal_log s)"
  then show "wr_lsn r \<le> w_last_lsn s" by (auto dest!: wal_log_chain dest: chain_bounds)
next
  fix s :: wal
  assume "wal_ok s"
  then show "\<exists>rest. wal_log s = wal_durable s @ rest"
    by (auto simp: wal_ok_def wal_log_inv wal_durable_inv)
qed (simp add: wal_append_sync)

end
