(* ===== verification/Wal_Durability.thy ===== *)
theory Wal_Durability
  imports Wal_Ops
begin

text \<open>
  Opening a log, crashes and truncation: which records a reader finds after each of them,
  and what happens to a record appended behind a torn tail.
\<close>

section \<open>Opening a log\<close>

lemma foldl_max_chain: "chain a rs b \<Longrightarrow> m \<le> a \<Longrightarrow> rs \<noteq> [] \<Longrightarrow> foldl max m (map wr_lsn rs) = b"
proof (induction rs arbitrary: a m)
  case (Cons r rs)
  show ?case
  proof (cases "rs = []")
    case False
    with Cons.prems show ?thesis by (intro trans [OF _ Cons.IH [of "Suc a" "Suc a"]]) (auto simp: max_def)
  qed (use Cons.prems in auto)
qed simp

lemma wal_init_sel [simp]:
  "w_dir (wal_init d r s f l) = d" "w_roll_size (wal_init d r s f l) = r"
  "w_sync_mode (wal_init d r s f l) = s" "w_segment (wal_init d r s f l) = None"
  "w_last_lsn (wal_init d r s f l) = l" "w_fsync_ok (wal_init d r s f l) = f"
  by (simp_all add: wal_init_def)

lemma wal_open_inv:
  assumes inv: "wal_inv w rss []" and roll: "HEADER_SIZE + 64 < roll_size"
  obtains l where "wal_open (w_dir w) roll_size sync fs = Inr (wal_init (w_dir w) roll_size sync fs l)"
    and "wal_inv (wal_init (w_dir w) roll_size sync fs l) rss []"
    and "concat rss \<noteq> [] \<Longrightarrow> l = w_last_lsn w"
proof -
  let ?l = "foldl max 0 (map wr_lsn (concat rss))"
  from inv obtain a where ch: "chain a (concat rss) (w_last_lsn w)" by (auto simp: wal_inv_def)
  then have l: "concat rss \<noteq> [] \<Longrightarrow> ?l = w_last_lsn w" by (rule foldl_max_chain) auto
  have "\<exists>a. chain a (concat rss) ?l"
  proof (cases "concat rss = []")
    case True
    show ?thesis unfolding True by simp
  qed (use l ch in auto)
  with inv have "wal_inv (wal_init (w_dir w) roll_size sync fs ?l) rss []"
    by (simp add: wal_inv_def)
  with roll l that show ?thesis by (simp add: wal_open_def iter_all_records_inv [OF inv])
qed

text \<open>A log in an empty directory.\<close>

lemma wal_open_empty:
  assumes "HEADER_SIZE + 64 < roll_size"
  shows "wal_open [] roll_size sync fs = Inr (wal_init [] roll_size sync fs 0)"
  using assms by (simp add: wal_open_def iter_all_records_def glob_sorted_def)

lemma wal_init_empty:
  "wal_inv (wal_init [] roll_size sync fs 0) [] []" "wal_ok (wal_init [] roll_size sync fs 0)"
  "wal_log (wal_init [] roll_size sync fs 0) = []"
  "n < SEG_LIMIT \<Longrightarrow> seg_room (wal_init [] roll_size sync fs 0) n"
proof -
  show inv: "wal_inv (wal_init [] roll_size sync fs 0) [] []"
    by (simp add: wal_inv_def dir_ok_def)
  then show "wal_ok (wal_init [] roll_size sync fs 0)"
    and "wal_log (wal_init [] roll_size sync fs 0) = []"
    by (auto simp: wal_ok_def wal_log_inv)
qed (simp add: seg_room_def)

section \<open>Crashes\<close>

text \<open>
  A crash of the process keeps the files and the first \<open>n\<close> bytes of what was written to the
  open segment since its last flush, for some \<open>n\<close>.
\<close>

definition crash :: "wal \<Rightarrow> nat \<Rightarrow> wal_dir" where
  "crash w n =
     (case w_segment w of
        None \<Rightarrow> w_dir w
      | Some s \<Rightarrow> AList.update (seg_index s)
                    (file_contents (w_dir w) (seg_index s) @ take n (seg_pending s)) (w_dir w))"

text \<open>A prefix of encoded records is some whole records and a torn one.\<close>

lemma take_records:
  assumes "list_all wf_record rs"
  obtains k t where "take n (concat (map rec_bytes rs)) = concat (map rec_bytes (take k rs)) @ t"
    and "torn_tail t"
  using assms
proof (induction rs arbitrary: n thesis)
  case Nil
  then show ?case by simp
next
  case (Cons r rs)
  show ?case
  proof (cases "length (rec_bytes r) \<le> n")
    case True
    from Cons.prems(2) have "list_all wf_record rs" by simp
    from Cons.IH [OF _ this] obtain k t where
      "take (n - length (rec_bytes r)) (concat (map rec_bytes rs)) = concat (map rec_bytes (take k rs)) @ t"
      "torn_tail t" by metis
    with True show ?thesis by (intro Cons.prems(1) [of "Suc k" t]) simp_all
  next
    case False
    then have "torn_tail (take n (rec_bytes r))"
      using Cons.prems(2) unfolding torn_tail_def
      by (intro exI [of _ r] exI [of _ "drop n (rec_bytes r)"]) simp
    with False show ?thesis by (intro Cons.prems(1) [of 0 "take n (rec_bytes r)"]) simp_all
  qed
qed

lemma crash_records:
  assumes inv: "wal_inv w rss prs"
  shows "\<exists>k. iter_all_records (crash w n) = (concat rss @ take k prs, None)"
proof (cases "w_segment w")
  case None
  with inv show ?thesis by (auto simp: crash_def iter_all_records_inv intro!: exI [of _ 0])
next
  case (Some s)
  with inv have "w_dir w \<noteq> []" by (simp add: wal_inv_def)
  from dir_split [OF inv this] obtain ds i rss' rs where
    d: "w_dir w = ds @ [(i, seg_data rs)]" "rss = rss' @ [rs]" "map snd ds = map seg_data rss'"
      "i \<notin> fst ` set ds" .
  from inv d have wf: "list_all wf_record prs" "list_all wf_record (concat rss')"
    "list_all wf_record rs" by (simp_all add: wal_inv_def)
  from take_records [OF wf(1), of n] obtain k t where
    t: "take n (concat (map rec_bytes prs)) = concat (map rec_bytes (take k prs)) @ t" "torn_tail t" .
  have ok: "dir_ok (ds @ [(i, seg_data (rs @ take k prs) @ t)])"
    using inv d(1) by (simp add: wal_inv_def dir_ok_def)
  have "crash w n = ds @ [(i, seg_data (rs @ take k prs) @ t)]"
    using Some inv d by (simp add: crash_def wal_inv_def file_contents_snoc update_snoc t seg_data_def)
  moreover have "list_all wf_record (rs @ take k prs)"
    using wf by (auto simp: list_all_iff dest: in_set_takeD)
  ultimately have "iter_all_records (crash w n) = (concat rss' @ rs @ take k prs, None)"
    using d wf iter_segment_records_data [OF _ t(2)]
    by (simp add: iter_all_records_def glob_sorted_id [OF ok] iter_segments_append
        [OF iter_segments_clean])
  with d show ?thesis by auto
qed

section \<open>Truncation\<close>

text \<open>Whether \<open>truncate_before\<close> deletes a segment that is not open.\<close>

definition seg_dead :: "nat \<Rightarrow> wal_record list \<Rightarrow> bool" where
  "seg_dead lsn rs \<longleftrightarrow> rs \<noteq> [] \<and> wr_lsn (last rs) \<le> lsn"

definition open_index :: "wal \<Rightarrow> nat option" where
  "open_index w = map_option seg_index (w_segment w)"

lemma truncate_loop_eq:
  assumes "map snd fs = map seg_data rss" and "list_all wf_record (concat rss)"
  shows "truncate_loop w lsn fs n =
    (let dead = map (\<lambda>(f, rs). fst f) (filter (\<lambda>(f, rs). open_index w \<noteq> Some (fst f) \<and> seg_dead lsn rs)
           (zip fs rss))
     in (Inr (n + length dead), w\<lparr>w_dir := fold AList.delete dead (w_dir w)\<rparr>))"
  using assms
proof (induction fs arbitrary: rss w n)
  case Nil
  then show ?case by simp
next
  case (Cons f fs)
  then obtain rs rss' where rss: "rss = rs # rss'" "snd f = seg_data rs" "map snd fs = map seg_data rss'"
    by (cases rss) auto
  obtain i d where f: "f = (i, d)" by (cases f)
  with Cons.prems rss have wf: "list_all wf_record rs" "list_all wf_record (concat rss')" by simp_all
  have IH: "truncate_loop v lsn fs m = (let dead = map (\<lambda>(f, rs). fst f)
      (filter (\<lambda>(f, rs). open_index v \<noteq> Some (fst f) \<and> seg_dead lsn rs) (zip fs rss'))
     in (Inr (m + length dead), v\<lparr>w_dir := fold AList.delete dead (w_dir v)\<rparr>))" for v m
    using Cons.IH rss wf by blast
  show ?case using rss f
    by (auto simp: IH segment_max_lsn_data [OF wf(1)] seg_dead_def open_index_def Let_def
        split: option.splits)
qed

lemma fold_delete: "fold AList.delete ks d = filter (\<lambda>f. fst f \<notin> set ks) d"
  by (induction ks arbitrary: d) (auto simp: AList.delete_eq intro: filter_cong)

text \<open>The dead segments of an ordered log are a prefix of it, up to empty segments.\<close>

lemma chain_drop_dead:
  assumes "chain a (concat rss @ rs) b"
  shows "\<exists>a'. chain a' (concat (filter (\<lambda>rs. \<not> seg_dead lsn rs) rss) @ rs) b"
  using assms
proof (induction rss arbitrary: a)
  case Nil
  then show ?case by auto
next
  case (Cons r rss)
  then obtain c where c: "chain a r c" "chain c (concat rss @ rs) b"
    by (auto simp: chain_append)
  show ?case
  proof (cases "r = [] \<or> seg_dead lsn r")
    case True
    with Cons.IH [OF c(2)] show ?thesis by (auto simp: seg_dead_def)
  next
    case False
    with c have "lsn < c" using chain_last [OF c(1)] by (auto simp: seg_dead_def)
    have "\<not> seg_dead lsn x" if "x \<in> set rss" for x
    proof (cases "x = []")
      case False
      with that have "last x \<in> set (concat rss @ rs)" by (auto intro!: bexI [of _ x])
      with chain_bounds [OF c(2)] \<open>lsn < c\<close> have "lsn < wr_lsn (last x)" by fastforce
      then show ?thesis by (simp add: seg_dead_def)
    qed (simp add: seg_dead_def)
    then have "filter (\<lambda>rs. \<not> seg_dead lsn rs) rss = rss" by simp
    with False Cons.prems show ?thesis by auto
  qed
qed

lemma filter_above_dead:
  assumes "chain a (concat rss @ rs) b"
  shows "filter (\<lambda>r. lsn < wr_lsn r) (concat (filter (\<lambda>rs. \<not> seg_dead lsn rs) rss) @ rs)
    = filter (\<lambda>r. lsn < wr_lsn r) (concat rss @ rs)"
  using assms
proof (induction rss arbitrary: a)
  case (Cons r rss)
  then obtain c where c: "chain a r c" "chain c (concat rss @ rs) b"
    by (auto simp: chain_append)
  have "filter (\<lambda>x. lsn < wr_lsn x) r = []" if "seg_dead lsn r"
    using that chain_last [OF c(1)] chain_bounds [OF c(1)]
    by (fastforce simp: seg_dead_def filter_empty_conv)
  with Cons.IH [OF c(2)] show ?case by simp
qed simp

lemma filter_keys_zip:
  assumes "length fs = length rss" and "distinct (map fst fs)"
  shows "filter (\<lambda>f. fst f \<notin> set (map (\<lambda>(f, rs). fst f) (filter P (zip fs rss)))) fs
    = map fst (filter (\<lambda>x. \<not> P x) (zip fs rss))"
  using assms
proof (induction fs rss rule: list_induct2)
  case (Cons f fs r rss)
  have nin: "fst f \<notin> set (map (\<lambda>(f, rs). fst f) (filter P (zip fs rss)))"
    using Cons.prems by (force dest: set_zip_leftD)
  have "filter (\<lambda>g. fst g \<noteq> fst f \<and> fst g \<notin> A) fs = filter (\<lambda>g. fst g \<notin> A) fs" for A
    using Cons.prems by (intro filter_cong) (force simp: image_iff)+
  with Cons nin show ?case by (auto simp: case_prod_unfold)
qed simp

lemma zip_filter_data:
  assumes "map snd fs = map seg_data rss"
  shows "map snd (map fst (filter (\<lambda>x. Q (snd x)) (zip fs rss))) = map seg_data (filter Q rss)"
  using assms
proof (induction fs arbitrary: rss)
  case (Cons f fs)
  then show ?case by (cases rss) auto
qed simp

definition dead_files :: "wal \<Rightarrow> nat \<Rightarrow> wal_record list list \<Rightarrow> nat list" where
  "dead_files w lsn rss = map (\<lambda>(f, rs). fst f)
     (filter (\<lambda>(f, rs). open_index w \<noteq> Some (fst f) \<and> seg_dead lsn rs) (zip (w_dir w) rss))"

lemma truncated_dir:
  assumes inv: "wal_inv w rss prs"
    and fs: "fs = fold AList.delete (dead_files w lsn rss) (w_dir w)"
  obtains rss' where "map snd fs = map seg_data rss'"
    and "\<exists>a. chain a (concat rss' @ prs) (w_last_lsn w)"
    and "filter (\<lambda>r. lsn < wr_lsn r) (concat rss' @ prs) = filter (\<lambda>r. lsn < wr_lsn r) (concat rss @ prs)"
    and "set rss' \<subseteq> set rss"
    and "w_segment w \<noteq> None \<Longrightarrow> fs \<noteq> [] \<and> last fs = last (w_dir w)"
proof -
  from inv obtain a where ch: "chain a (concat rss @ prs) (w_last_lsn w)" by (auto simp: wal_inv_def)
  from inv have len: "length (w_dir w) = length rss" and dist: "distinct (map fst (w_dir w))"
    by (auto simp: wal_inv_def dir_ok_def strict_sorted_iff dest: map_eq_imp_length_eq)
  let ?P = "\<lambda>(f, rs). open_index w \<noteq> Some (fst f) \<and> seg_dead lsn rs"
  have del: "fs = map fst (filter (\<lambda>x. \<not> ?P x) (zip (w_dir w) rss))"
    by (simp only: fs dead_files_def fold_delete filter_keys_zip [OF len dist])
  show ?thesis
  proof (cases "w_segment w")
    case None
    with inv have "prs = []" by (simp add: wal_inv_def)
    have P: "?P = (\<lambda>x. seg_dead lsn (snd x))" using None by (auto simp: open_index_def)
    show ?thesis
    proof (rule that [of "filter (\<lambda>rs. \<not> seg_dead lsn rs) rss"])
      show "map snd fs = map seg_data (filter (\<lambda>rs. \<not> seg_dead lsn rs) rss)"
        unfolding del P using inv by (intro zip_filter_data) (simp add: wal_inv_def)
    qed (use chain_drop_dead [OF ch] filter_above_dead [OF ch] None in auto)
  next
    case (Some s)
    with inv have "w_dir w \<noteq> []" by (simp add: wal_inv_def)
    from dir_split [OF inv this] obtain ds i rss' rs where
      d: "w_dir w = ds @ [(i, seg_data rs)]" "rss = rss' @ [rs]" "map snd ds = map seg_data rss'"
        "i \<notin> fst ` set ds" .
    then have l: "length ds = length rss'" by (metis length_map)
    have i: "open_index w = Some i" using inv Some d(1) by (simp add: wal_inv_def open_index_def)
    have "filter (\<lambda>x. \<not> ?P x) (zip ds rss') = filter (\<lambda>x. \<not> seg_dead lsn (snd x)) (zip ds rss')"
      using d(4) i by (intro filter_cong) (auto dest!: set_zip_leftD)
    then have del': "fs
        = map fst (filter (\<lambda>x. \<not> seg_dead lsn (snd x)) (zip ds rss')) @ [(i, seg_data rs)]"
      unfolding del using d l i by simp
    have ch': "chain a (concat rss' @ rs @ prs) (w_last_lsn w)" using ch d by simp
    show ?thesis
    proof (rule that [of "filter (\<lambda>rs. \<not> seg_dead lsn rs) rss' @ [rs]"])
      show "map snd fs = map seg_data (filter (\<lambda>rs. \<not> seg_dead lsn rs) rss' @ [rs])"
        unfolding del' using zip_filter_data [OF d(3)] by simp
    qed (use chain_drop_dead [OF ch'] filter_above_dead [OF ch'] d del' in auto)
  qed
qed

lemma truncate_before_inv:
  assumes inv: "wal_inv w rss prs"
  obtains n w' rss' where "truncate_before w lsn = (Inr n, w')" and "wal_inv w' rss' prs"
    and "filter (\<lambda>r. lsn < wr_lsn r) (concat rss' @ prs) = filter (\<lambda>r. lsn < wr_lsn r) (concat rss @ prs)"
    and "w_segment w' = w_segment w" and "w_last_lsn w' = w_last_lsn w"
    and "w_sync_mode w' = w_sync_mode w" and "set (w_dir w') \<subseteq> set (w_dir w)"
proof -
  let ?dead = "dead_files w lsn rss"
  let ?w = "w\<lparr>w_dir := fold AList.delete ?dead (w_dir w)\<rparr>"
  from truncated_dir [OF inv refl, of lsn] obtain rss' where
    t: "map snd (fold AList.delete ?dead (w_dir w)) = map seg_data rss'"
      "\<exists>a. chain a (concat rss' @ prs) (w_last_lsn w)"
      "filter (\<lambda>r. lsn < wr_lsn r) (concat rss' @ prs) = filter (\<lambda>r. lsn < wr_lsn r) (concat rss @ prs)"
      "set rss' \<subseteq> set rss"
      "w_segment w \<noteq> None \<Longrightarrow> fold AList.delete ?dead (w_dir w) \<noteq> []
         \<and> last (fold AList.delete ?dead (w_dir w)) = last (w_dir w)" by metis
  have e: "truncate_before w lsn = (Inr (length ?dead), ?w)"
    using inv truncate_loop_eq [of "w_dir w" rss w lsn 0]
    by (simp add: truncate_before_def wal_inv_def glob_sorted_id Let_def dead_files_def)
  have sub: "set (fold AList.delete ?dead (w_dir w)) \<subseteq> set (w_dir w)" by (auto simp: fold_delete)
  have "dir_ok (fold AList.delete ?dead (w_dir w))"
    using inv by (auto simp: wal_inv_def dir_ok_def fold_delete sorted_wrt_map sorted_wrt_filter)
  moreover have "list_all wf_record (concat rss')"
    using inv t(4) by (auto simp: wal_inv_def list_all_iff)
  ultimately have "wal_inv ?w rss' prs"
    using inv t by (auto simp: wal_inv_def split: option.splits)
  with e t(3) sub show ?thesis by (intro that [of "length ?dead" ?w rss']) simp_all
qed

end
