(* ===== verification/Wal_Theorems.thy ===== *)
theory Wal_Theorems
  imports Wal_Durability
begin

text \<open>
  The properties of the write-ahead log: what an append, a flush, a crash, a truncation and a
  reopening do to the list of records a reader finds, and the one situation in which an
  acknowledged record is not found again.
\<close>

section \<open>Lemmas\<close>

lemma wal_append_succeeds:
  assumes "py_str kind" "wf_record (new_record w kind payload)"
    "w_sync_mode w = SyncOn \<longrightarrow> w_fsync_ok w"
  shows "\<exists>w'. wal_append w kind payload = (Inr (Suc (w_last_lsn w)), w')"
  using assms by (auto simp: wal_append_cases flush_segment_def Let_def)

lemma wal_append_fsync: "py_str k \<Longrightarrow> wal_append w k p = (res, w') \<Longrightarrow> w_fsync_ok w' = w_fsync_ok w"
  by (auto simp: wal_append_cases Let_def flush_segment_def split: if_splits sum.splits prod.splits)

lemma wal_flush_fsync: "wal_flush w = (res, w') \<Longrightarrow> w_fsync_ok w' = w_fsync_ok w"
  by (auto simp: wal_flush_def Let_def flush_segment_def split: if_splits)

lemma crash_flushed: "wal_inv w rss [] \<Longrightarrow> iter_all_records (crash w n) = (wal_log w, None)"
  using crash_records [of w rss "[]" n] by (auto simp: wal_log_inv)

lemma wal_flush_total:
  "w_fsync_ok w \<Longrightarrow> \<exists>w'. wal_flush w = (Inr (), w')"
  by (auto simp: wal_flush_def flush_segment_def Let_def)

lemma wal_flush_pending:
  assumes "wal_inv w rss prs" "wal_flush w = (Inr u, w')" "w_sync_mode w \<noteq> SyncOff"
  obtains rss' where "wal_inv w' rss' []"
proof (cases "w_segment w")
  case None
  with assms(1,2) have "w' = w" "prs = []" by (auto simp: wal_flush_def wal_inv_def)
  with assms(1) that show ?thesis by blast
next
  case Some
  with assms have "flush_segment w = (Inr u, w')" by (simp add: wal_flush_def)
  from flush_segment_inv [OF assms(1) this] that show ?thesis by metis
qed

lemma wal_append_syncs_all:
  assumes "wal_inv w rss prs" "seg_room w (Suc (Suc 0))" "py_str kind"
    "wal_append w kind payload = (Inr n, w')" "w_sync_mode w = SyncOn"
  shows "wal_durable w' = wal_log w'"
proof -
  let ?r = "new_record w kind payload"
  from assms(3-5) obtain u where wf: "wf_record ?r" and f: "flush_segment (appended w ?r) = (Inr u, w')"
    by (auto simp: wal_append_cases Let_def split: if_splits sum.splits prod.splits)
  from appended_inv [OF assms(1,2) wf] obtain rss1 prs1 where "wal_inv (appended w ?r) rss1 prs1"
    by metis
  from flush_segment_inv [OF this f] obtain rss' where "wal_inv w' rss' []" by metis
  then show ?thesis by (simp add: wal_durable_inv wal_log_inv)
qed

lemma iter_since_inv:
  assumes "wal_inv w rss prs"
  shows "fst (iter_since w lsn) = (filter (\<lambda>r. lsn < wr_lsn r) (concat rss @ prs), None)"
proof -
  from file_flush_inv [OF assms] obtain rss' where
    "wal_inv (file_flush w) rss' []" "concat rss' = concat rss @ prs" .
  then show ?thesis by (simp add: iter_since_def iter_all_records_inv)
qed

lemma wal_close_lsn [simp]: "w_last_lsn (wal_close w) = w_last_lsn w"
  by (simp add: wal_close_def)

text \<open>A record appended behind a torn byte: the length field of its kind is read one byte early.\<close>

lemma read_record_shifted:
  assumes "wf_record r" "wr_prev_lsn r < 256 ^ 7" "length (wr_kind r) < 256 ^ 3"
    and "length (wr_payload r) + 5 < 255 * length (wr_kind r)"
  shows "read_record (pre @ b # rec_bytes r) (length pre) = Inr None"
proof -
  let ?k = "length (wr_kind r)" and ?B = "pre @ b # rec_bytes r"
  have e: "b # rec_bytes r = (b # le_bytes 8 (wr_lsn r) @ take 7 (le_bytes 8 (wr_prev_lsn r)))
      @ (drop 7 (le_bytes 8 (wr_prev_lsn r)) @ take 3 (le_bytes 4 ?k))
      @ drop 3 (le_bytes 4 ?k) @ utf8_encode (wr_kind r)
      @ le_bytes 4 (length (wr_payload r)) @ wr_payload r @ le_bytes 4 (crc32 (rec_body r))"
    by (simp add: rec_bytes_def rec_body_def)
  have "py_slice (length pre + 16) (length pre + 20) ?B
      = drop 7 (le_bytes 8 (wr_prev_lsn r)) @ take 3 (le_bytes 4 ?k)"
    unfolding e by (simp add: py_slice_def)
  also have "\<dots> = 0 # le_bytes 3 ?k"
    using assms(2) by (simp add: drop_le_bytes take_le_bytes)
  finally have "le_val (py_slice (length pre + 16) (length pre + 20) ?B) = 256 * ?k"
    using assms(3) by (simp add: le_val_le_bytes)
  with read_record_fields [OF this refl] assms(4) show ?thesis by simp
qed

text \<open>The directory an interrupted append of one byte leaves, and the log opened on it.\<close>

lemma append_after_torn:
  assumes wf: "list_all wf_record rs" and torn: "torn_tail [b]" and ch: "chain 0 rs l"
    and roll: "length (seg_data rs) + 1 + length (rec_bytes r) \<le> roll"
    and r: "r = new_record (wal_init [(1, seg_data rs @ [b])] roll SyncOn True l) k p"
  shows "wal_open [(1, seg_data rs @ [b])] roll SyncOn True
      = (if roll \<le> HEADER_SIZE + 64 then raise_code ''CDB-7050''
         else Inr (wal_init [(1, seg_data rs @ [b])] roll SyncOn True l))"
    and "w_dir (snd (flush_segment (appended (wal_init [(1, seg_data rs @ [b])] roll SyncOn True l) r)))
      = [(1, seg_data rs @ b # rec_bytes r)]"
proof -
  have "foldl max 0 (map wr_lsn rs) = l"
    using foldl_max_chain [OF ch] ch by (cases "rs = []") auto
  moreover have one: "glob_sorted [(i, d)] = [(i, d)]" for i and d :: bytes
    by (simp add: glob_sorted_def)
  ultimately show "wal_open [(1, seg_data rs @ [b])] roll SyncOn True
      = (if roll \<le> HEADER_SIZE + 64 then raise_code ''CDB-7050''
         else Inr (wal_init [(1, seg_data rs @ [b])] roll SyncOn True l))"
    by (simp add: wal_open_def iter_all_records_def iter_segment_records_data [OF wf torn])
  show "w_dir (snd (flush_segment (appended (wal_init [(1, seg_data rs @ [b])] roll SyncOn True l) r)))
      = [(1, seg_data rs @ b # rec_bytes r)]"
    using roll by (simp add: flush_segment_def appended_def ensure_segment_def resume_or_create_def one
        segment_write_def file_flush_def file_contents_def Let_def)
qed

section \<open>Properties\<close>

text \<open>
  C1: appending to a well-formed log succeeds whenever the record fits its fixed-width fields
  and the fsync of mode \<open>on\<close> succeeds. It returns the next sequence number, the log then
  holds exactly the old records followed by the new one, linked to its predecessor, and
  whatever was durable stays durable.
\<close>

theorem wal_append_correct:
  assumes "wal_ok w" "seg_room w 2" "py_str kind" "wf_record (new_record w kind payload)"
    "w_sync_mode w = SyncOn \<longrightarrow> w_fsync_ok w"
  shows "\<exists>w'. wal_append w kind payload = (Inr (Suc (w_last_lsn w)), w')
    \<and> wal_log w' = wal_log w @ [\<lparr>wr_lsn = Suc (w_last_lsn w), wr_prev_lsn = w_last_lsn w,
                                 wr_kind = kind, wr_payload = payload\<rparr>]
    \<and> prefix (wal_durable w) (wal_durable w')
    \<and> (w_sync_mode w = SyncOn \<longrightarrow> wal_durable w' = wal_log w')
    \<and> w_last_lsn w' = Suc (w_last_lsn w) \<and> wal_ok w'"
proof -
  from wal_append_succeeds [OF assms(3-5)] obtain w' where
    w': "wal_append w kind payload = (Inr (Suc (w_last_lsn w)), w')" ..
  from assms(2) have room: "seg_room w (Suc (Suc 0))" by (simp add: numeral_2_eq_2)
  note laws = wal.append_log [OF assms(1) room assms(3) w'] wal.append_ok [OF assms(1) room assms(3) w']
    wal.append_durable [OF assms(1) room assms(3) w'] wal.append_lsn [OF assms(1) room assms(3) w']
  from assms(1) obtain rss prs where "wal_inv w rss prs" by (auto simp: wal_ok_def)
  from wal_append_syncs_all [OF this room assms(3) w'] w' laws show ?thesis
    by (auto simp: prefix_def)
qed

theorem wal_append_correct_witness:
  "\<exists>w'. wal_append (wal_init [] 1000 SyncOn True 0) ''TX_BEGIN'' [7] = (Inr 1, w')
    \<and> wal_durable w' = [\<lparr>wr_lsn = 1, wr_prev_lsn = 0, wr_kind = ''TX_BEGIN'', wr_payload = [7]\<rparr>]"
proof -
  have "py_str ''TX_BEGIN''" by (rule py_str_ascii) simp
  then show ?thesis
    using wal_append_correct [of "wal_init [] 1000 SyncOn True 0" "''TX_BEGIN''" "[7]"]
    by (simp add: wal_init_empty SEG_LIMIT_def wf_record_def) metis
qed





text \<open>
  C4: \<open>truncate_before(lsn)\<close> never fails on a well-formed log and never loses a record above
  \<open>lsn\<close>: \<open>iter_since(lsn)\<close> yields the same records before and after.
\<close>

theorem truncate_before_keeps:
  assumes "wal_ok w"
  shows "\<exists>n w'. truncate_before w lsn = (Inr n, w') \<and> wal_ok w'
    \<and> fst (iter_since w' lsn) = fst (iter_since w lsn)
    \<and> set (w_dir w') \<subseteq> set (w_dir w) \<and> w_last_lsn w' = w_last_lsn w"
proof -
  from assms obtain rss prs where inv: "wal_inv w rss prs" by (auto simp: wal_ok_def)
  from truncate_before_inv [OF inv, of lsn] obtain n w' rss' where
    t: "truncate_before w lsn = (Inr n, w')" "wal_inv w' rss' prs"
      "filter (\<lambda>r. lsn < wr_lsn r) (concat rss' @ prs) = filter (\<lambda>r. lsn < wr_lsn r) (concat rss @ prs)"
      "set (w_dir w') \<subseteq> set (w_dir w)" "w_last_lsn w' = w_last_lsn w" by metis
  with iter_since_inv [OF inv, of lsn] iter_since_inv [OF t(2), of lsn] show ?thesis
    by (auto simp: wal_ok_def)
qed

theorem truncate_before_keeps_witness:
  "\<exists>n w'. truncate_before (wal_init [] 1000 SyncGroup True 0) 4 = (Inr n, w') \<and> wal_ok w'"
  using truncate_before_keeps [OF wal_init_empty(2), of 1000 SyncGroup True 4] by blast



text \<open>
  An encoded record is read back unchanged wherever it stands in a buffer, the cursor
  ending behind it; and every proper prefix of it is taken for the end of the log.
\<close>

theorem record_round_trip:
  assumes "encode r = Inr bs" "py_str (wr_kind r)"
  shows "read_record (pre @ bs @ post) (length pre) = Inr (Some (r, length pre + length bs))
    \<and> (\<forall>n<length bs. read_record (pre @ take n bs) (length pre) = Inr None)"
proof -
  from encode_Inr [OF assms] have bs: "bs = rec_bytes r" and wf: "wf_record r" by auto
  have "read_record (pre @ take n bs) (length pre) = Inr None" if "n < length bs" for n
    using that bs read_record_prefix [OF wf, of "take n bs" "drop n bs"] by simp
  with read_record_encoded [OF wf] bs show ?thesis by simp
qed

theorem record_round_trip_witness:
  "\<exists>bs. encode \<lparr>wr_lsn = 2, wr_prev_lsn = 1, wr_kind = ''K'', wr_payload = [0, 255]\<rparr> = Inr bs
    \<and> read_record ([9] @ bs @ []) 1
        = Inr (Some (\<lparr>wr_lsn = 2, wr_prev_lsn = 1, wr_kind = ''K'', wr_payload = [0, 255]\<rparr>, 1 + length bs))"
proof -
  let ?r = "\<lparr>wr_lsn = 2, wr_prev_lsn = 1, wr_kind = ''K'', wr_payload = [0, 255]\<rparr> :: wal_record"
  have py: "py_str ''K''" by (rule py_str_ascii) simp
  then have "encode ?r = Inr (rec_bytes ?r)" by (intro encode_eq) (simp add: wf_record_def)
  with record_round_trip [of ?r "rec_bytes ?r" "[9]" "[]"] py show ?thesis by auto
qed

text \<open>
  C6: a record appended behind a torn tail is lost although the append, with its fsync,
  returned: \<open>_resume_or_create\<close> continues the segment at its end without cutting the torn
  byte off, the reader takes the new record for the rest of the torn one and stops there.
  Stated for one torn byte and any record whose payload is short relative to its kind.
\<close>

theorem append_behind_torn_tail_lost:
  fixes rs :: "wal_record list" and b :: byte
  defines "d \<equiv> [(1, seg_data rs @ [b])]"
  assumes wf: "list_all wf_record rs" and torn: "torn_tail [b]" and ch: "chain 0 rs l"
    and roll: "HEADER_SIZE + 64 < roll"
      "length (seg_data rs) + 29 + length kind + length payload \<le> roll"
    and py: "py_str kind" and sizes: "Suc l < 256 ^ 7" "length kind < 256 ^ 3"
      "length payload + 5 < 255 * length kind" "length payload < 256 ^ 4"
  shows "\<exists>w w'. wal_open d roll SyncOn True = Inr w \<and> w_last_lsn w = l
    \<and> wal_append w kind payload = (Inr (Suc l), w')
    \<and> iter_all_records (w_dir w') = (rs, None)"
proof -
  let ?w = "wal_init d roll SyncOn True l" and ?r = "new_record (wal_init d roll SyncOn True l) kind payload"
  have fits: "length (seg_data rs) + 1 + length (rec_bytes ?r) \<le> roll" using roll(2) by simp
  note t = append_after_torn [OF wf torn ch fits [unfolded d_def] refl, folded d_def]
  have wfr: "wf_record ?r" using py sizes by (simp add: wf_record_def)
  have lost: "read_record (seg_data rs @ b # rec_bytes ?r) (length (seg_data rs)) = Inr None"
    by (rule read_record_shifted [OF wfr]) (use sizes in simp_all)
  then have "iter_segment_records (seg_data rs @ b # rec_bytes ?r) = (rs, None)"
    by (intro iter_segment_records_stop [OF wf]) (simp add: read_records.simps)
  moreover obtain w' where w': "wal_append ?w kind payload = (Inr (Suc l), w')"
    using wal_append_succeeds [OF py wfr] by auto
  moreover have "w_dir w' = [(1, seg_data rs @ b # rec_bytes ?r)]"
    using w' t(2) wfr by (auto simp: wal_append_cases [OF py] Let_def split: prod.splits sum.splits)
  ultimately show ?thesis using t(1) roll(1)
    by (auto simp: iter_all_records_def glob_sorted_def)
qed

theorem append_behind_torn_tail_lost_witness:
  "\<exists>w w'. wal_open [(1, seg_data [] @ [5])] 1000 SyncOn True = Inr w \<and> w_last_lsn w = 0
    \<and> wal_append w ''TX_COMMIT'' [1, 2, 3] = (Inr 1, w')
    \<and> iter_all_records (w_dir w') = ([], None)"
proof -
  let ?r = "\<lparr>wr_lsn = 5, wr_prev_lsn = 0, wr_kind = [], wr_payload = []\<rparr> :: wal_record"
  have "le_bytes 8 5 = 5 # le_bytes 7 0" using le_bytes.simps(2) [of 7 5] by simp
  then have "rec_bytes ?r = [5] @ (le_bytes 7 0 @ drop 8 (rec_bytes ?r))"
    by (simp add: rec_bytes_def rec_body_def)
  moreover have "le_bytes 7 0 @ drop 8 (rec_bytes ?r) \<noteq> []"
    using length_le_bytes [of 7 0] by auto
  moreover have "wf_record ?r" by (simp add: wf_record_def py_str_ascii)
  ultimately have "torn_tail [5]" unfolding torn_tail_def by blast
  moreover have "py_str ''TX_COMMIT''" by (rule py_str_ascii) simp
  ultimately show ?thesis
    using append_behind_torn_tail_lost [of "[]" 5 0 1000 "''TX_COMMIT''" "[1, 2, 3]"]
    by (simp add: seg_data_def HEADER_SIZE_def)
qed

end
