(* ===== verification/Json.thy ===== *)
theory Json
  imports Prelude
begin

text \<open>
  JSON values as \<open>json.loads\<close> returns them and the accesses the metadata codecs make on
  them: \<open>value[key]\<close>, \<open>value.get(key, default)\<close>, iteration, \<open>int(...)\<close>, \<open>str(...)\<close> and
  \<open>bool(...)\<close>, each with the exception it raises on a value of another shape. A metadata
  file is modelled by the JSON value its text denotes; \<open>json.dumps(..., sort_keys=True)\<close>
  followed by \<open>json.loads\<close> sorts the keys of every object.
\<close>

datatype json =
    JNull
  | JBool bool
  | JInt int
  | JStr string
  | JArr "json list"
  | JObj "(string \<times> json) list"

fun sort_keys :: "json \<Rightarrow> json" where
  "sort_keys (JArr vs) = JArr (map sort_keys vs)"
| "sort_keys (JObj kvs) = JObj (sort_key fst (map (\<lambda>(k, v). (k, sort_keys v)) kvs))"
| "sort_keys v = v"

section \<open>Conversions\<close>

text \<open>
  \<open>int(s)\<close> of a string: surrounding white space, an optional sign, decimal digits with
  single underscores between them.
\<close>

definition py_space :: "char \<Rightarrow> bool" where
  "py_space c \<longleftrightarrow> c \<in> set [CHR '' '', CHR 0x09, CHR 0x0A, CHR 0x0B, CHR 0x0C, CHR 0x0D]"

definition py_strip :: "string \<Rightarrow> string" where
  "py_strip s = rev (dropWhile py_space (rev (dropWhile py_space s)))"

definition digit_val :: "char \<Rightarrow> nat option" where
  "digit_val c = (let n = of_char c in if 48 \<le> n \<and> n \<le> (57 :: nat) then Some (n - 48) else None)"

fun digits_val :: "nat \<Rightarrow> bool \<Rightarrow> string \<Rightarrow> nat option" where
  "digits_val acc after_digit [] = (if after_digit then Some acc else None)"
| "digits_val acc after_digit (c # cs) =
     (case digit_val c of
        Some d \<Rightarrow> digits_val (10 * acc + d) True cs
      | None \<Rightarrow> if c = CHR ''_'' \<and> after_digit then digits_val acc False cs else None)"

definition int_of_str :: "string \<Rightarrow> int result" where
  "int_of_str s =
     (let t = py_strip s;
          (sign, ds) = (case t of
             c # r \<Rightarrow> if c = CHR ''-'' then (-1, r) else if c = CHR ''+'' then (1, r) else (1, t)
           | [] \<Rightarrow> (1, t))
      in case digits_val 0 False ds of None \<Rightarrow> Inl ValueError | Some n \<Rightarrow> Inr (sign * int n))"

fun json_int :: "json \<Rightarrow> int result" where
  "json_int (JInt i) = Inr i"
| "json_int (JBool b) = Inr (if b then 1 else 0)"
| "json_int (JStr s) = int_of_str s"
| "json_int _ = Inl TypeError"

fun json_bool :: "json \<Rightarrow> bool" where
  "json_bool JNull = False"
| "json_bool (JBool b) = b"
| "json_bool (JInt i) = (i \<noteq> 0)"
| "json_bool (JStr s) = (s \<noteq> [])"
| "json_bool (JArr vs) = (vs \<noteq> [])"
| "json_bool (JObj kvs) = (kvs \<noteq> [])"

text \<open>
  \<open>str(v)\<close>: the text of a string, the \<open>repr\<close> of anything else. In the \<open>repr\<close> of a nested
  string every byte above 0x7F is kept, as for a printable character.
\<close>

definition hex_digit :: "nat \<Rightarrow> char" where
  "hex_digit n = (if n < 10 then char_of (48 + n) else char_of (87 + n))"

definition repr_char :: "char \<Rightarrow> char \<Rightarrow> string" where
  "repr_char q c =
     (let n = of_char c :: nat in
      if c = q \<or> c = CHR 0x5C then [CHR 0x5C, c]
      else if c = CHR 0x0A then [CHR 0x5C, CHR ''n'']
      else if c = CHR 0x0D then [CHR 0x5C, CHR ''r'']
      else if c = CHR 0x09 then [CHR 0x5C, CHR ''t'']
      else if n < 32 \<or> n = 127 then [CHR 0x5C, CHR ''x'', hex_digit (n div 16), hex_digit (n mod 16)]
      else [c])"

definition repr_str :: "string \<Rightarrow> string" where
  "repr_str s =
     (let q = (if CHR 0x27 \<in> set s \<and> CHR 0x22 \<notin> set s then CHR 0x22 else CHR 0x27)
      in q # concat (map (repr_char q) s) @ [q])"

fun py_join :: "string \<Rightarrow> string list \<Rightarrow> string" where
  "py_join sep [] = []"
| "py_join sep [s] = s"
| "py_join sep (s # t # ts) = s @ sep @ py_join sep (t # ts)"

fun json_repr :: "json \<Rightarrow> string" where
  "json_repr JNull = ''None''"
| "json_repr (JBool b) = (if b then ''True'' else ''False'')"
| "json_repr (JInt i) = int_str i"
| "json_repr (JStr s) = repr_str s"
| "json_repr (JArr vs) = ''['' @ py_join '', '' (map json_repr vs) @ '']''"
| "json_repr (JObj kvs) =
     ''{'' @ py_join '', '' (map (\<lambda>(k, v). repr_str k @ '': '' @ json_repr v) kvs) @ ''}''"

definition json_str :: "json \<Rightarrow> string" where
  "json_str v = (case v of JStr s \<Rightarrow> s | _ \<Rightarrow> json_repr v)"

section \<open>Access\<close>

definition json_item :: "json \<Rightarrow> string \<Rightarrow> json result" where
  "json_item v k = (case v of
     JObj kvs \<Rightarrow> (case map_of kvs k of None \<Rightarrow> Inl KeyError | Some x \<Rightarrow> Inr x)
   | _ \<Rightarrow> Inl TypeError)"

definition json_get :: "json \<Rightarrow> string \<Rightarrow> json \<Rightarrow> json result" where
  "json_get v k d = (case v of
     JObj kvs \<Rightarrow> Inr (case map_of kvs k of None \<Rightarrow> d | Some x \<Rightarrow> x)
   | _ \<Rightarrow> Inl AttributeError)"

text \<open>The characters of a string: a lead byte with its continuation bytes.\<close>

fun str_chars :: "string \<Rightarrow> string list" where
  "str_chars [] = []"
| "str_chars (c # cs) =
     (case str_chars cs of
        [] \<Rightarrow> [[c]]
      | s # ss \<Rightarrow> (case s of
          d # _ \<Rightarrow> if 128 \<le> (of_char d :: nat) \<and> (of_char d :: nat) < 192
                   then (c # s) # ss else [c] # s # ss
        | [] \<Rightarrow> [c] # ss))"

definition json_iter :: "json \<Rightarrow> json list result" where
  "json_iter v = (case v of
     JArr vs \<Rightarrow> Inr vs
   | JStr s \<Rightarrow> Inr (map JStr (str_chars s))
   | JObj kvs \<Rightarrow> Inr (map (\<lambda>(k, _). JStr k) kvs)
   | _ \<Rightarrow> Inl TypeError)"

named_theorems json_simps \<open>evaluation of the accesses on values of the expected shape\<close>

lemma json_access [json_simps]:
  "json_item (JObj kvs) k = (case map_of kvs k of None \<Rightarrow> Inl KeyError | Some x \<Rightarrow> Inr x)"
  "json_get (JObj kvs) k d = Inr (case map_of kvs k of None \<Rightarrow> d | Some x \<Rightarrow> x)"
  "json_iter (JArr vs) = Inr vs" "json_str (JStr s) = s"
  by (simp_all add: json_item_def json_get_def json_iter_def json_str_def)

text \<open>
  Sorting the keys of an object does not change what its accesses return, as long as the keys
  are distinct; \<open>json_wf\<close> says so of every object inside.
\<close>

fun json_wf :: "json \<Rightarrow> bool" where
  "json_wf (JArr vs) = list_all json_wf vs"
| "json_wf (JObj kvs) = (distinct (map fst kvs) \<and> list_all (\<lambda>(k, v). json_wf v) kvs)"
| "json_wf v = True"

lemma map_of_sort_key:
  assumes "distinct (map fst kvs)"
  shows "map_of (sort_key fst kvs) = map_of kvs"
proof -
  have "mset (map fst (sort_key fst kvs)) = mset (map fst kvs)" by simp
  with assms have "distinct (map fst (sort_key fst kvs))" by (metis mset_eq_imp_distinct_iff)
  with assms show ?thesis by (simp add: map_of_inject_set)
qed

lemma map_of_sort_keys [json_simps]:
  assumes "distinct (map fst kvs)"
  shows "map_of (sort_key fst (map (\<lambda>(k, v). (k, sort_keys v)) kvs)) k = map_option sort_keys (map_of kvs k)"
proof -
  have "distinct (map fst (map (\<lambda>(k, v). (k, sort_keys v)) kvs))"
    using assms by (simp add: comp_def case_prod_unfold)
  then show ?thesis by (simp add: map_of_sort_key map_of_map)
qed

lemma sort_keys_item:
  "json_wf (JObj kvs) \<Longrightarrow> json_item (sort_keys (JObj kvs)) k
    = (case map_of kvs k of None \<Rightarrow> Inl KeyError | Some x \<Rightarrow> Inr (sort_keys x))"
  "json_wf (JObj kvs) \<Longrightarrow> json_get (sort_keys (JObj kvs)) k d
    = Inr (case map_of kvs k of None \<Rightarrow> d | Some x \<Rightarrow> sort_keys x)"
  by (auto simp: json_simps split: option.splits)

declare sort_keys_item [json_simps] sort_keys.simps(2) [simp del]

section \<open>Fields of a codec\<close>

text \<open>The accesses the \<open>from_dict\<close> methods are made of.\<close>

definition optional_str :: "json \<Rightarrow> string option" where
  "optional_str v = (case v of JNull \<Rightarrow> None | _ \<Rightarrow> Some (json_str v))"

definition opt_json :: "string option \<Rightarrow> json" where
  "opt_json s = (case s of None \<Rightarrow> JNull | Some t \<Rightarrow> JStr t)"

abbreviation strs_json :: "string list \<Rightarrow> json" where
  "strs_json ss \<equiv> JArr (map JStr ss)"

definition item_int :: "json \<Rightarrow> string \<Rightarrow> int result" where
  "item_int v k = rbind (json_item v k) json_int"

definition item_str :: "json \<Rightarrow> string \<Rightarrow> string result" where
  "item_str v k = rbind (json_item v k) (\<lambda>x. Inr (json_str x))"

definition get_int :: "json \<Rightarrow> string \<Rightarrow> int \<Rightarrow> int result" where
  "get_int v k d = rbind (json_get v k (JInt d)) json_int"

definition get_opt_str :: "json \<Rightarrow> string \<Rightarrow> string option result" where
  "get_opt_str v k = rbind (json_get v k JNull) (\<lambda>x. Inr (optional_str x))"

definition get_bool :: "json \<Rightarrow> string \<Rightarrow> bool \<Rightarrow> bool result" where
  "get_bool v k d = rbind (json_get v k (JBool d)) (\<lambda>x. Inr (json_bool x))"

definition get_items :: "json \<Rightarrow> string \<Rightarrow> json list result" where
  "get_items v k = rbind (json_get v k (JArr [])) json_iter"

definition get_strs :: "json \<Rightarrow> string \<Rightarrow> string list result" where
  "get_strs v k = rbind (get_items v k) (\<lambda>xs. Inr (map json_str xs))"

definition get_list :: "(json \<Rightarrow> 'a result) \<Rightarrow> json \<Rightarrow> string \<Rightarrow> 'a list result" where
  "get_list dec v k = rbind (get_items v k) (rmap dec)"

lemmas field_defs = item_int_def item_str_def get_int_def get_opt_str_def get_bool_def get_items_def
  get_strs_def get_list_def

lemma opt_json_simps [simp, json_simps]:
  "sort_keys (opt_json s) = opt_json s" "json_wf (opt_json s)" "optional_str (opt_json s) = s"
  by (simp_all add: opt_json_def optional_str_def json_str_def split: option.splits)

text \<open>
  A pair of an encoder and a decoder: what is written is read back, also after the keys have
  been sorted. Lists of such values then round-trip as well.
\<close>

locale json_codec =
  fixes enc :: "'a \<Rightarrow> json" and dec :: "json \<Rightarrow> 'a result"
  assumes round_trip: "dec (sort_keys (enc x)) = Inr x"
    and wf: "json_wf (enc x)"
begin

lemma list_round_trip: "rmap dec (map (\<lambda>x. sort_keys (enc x)) xs) = Inr xs"
  by (rule rmap_id) (rule round_trip)

lemma list_wf: "json_wf (JArr (map enc xs))"
  by (simp add: list_all_iff wf)

end

end
