(* ===== verification/Manifest.thy ===== *)
theory Manifest
  imports Json Header
begin

text \<open>
  The file system as far as the bundle code uses it, the manifest (\<open>storage/manifest.py\<close>) and
  its atomic replacement on disk.
\<close>

section \<open>Files\<close>

text \<open>
  A metadata file holds the JSON value of its text, alone or behind the eight magic bytes; any
  other content is bytes. Reading bytes as JSON raises a subclass of \<open>ValueError\<close>.
\<close>

datatype entry = Dir | JsonFile json | MagicFile json | BinFile bytes

type_synonym path = "string list"
type_synonym fs = "path \<Rightarrow> entry option"

definition is_dir :: "fs \<Rightarrow> path \<Rightarrow> bool" where
  "is_dir fs p \<longleftrightarrow> p = [] \<or> fs p = Some Dir"

definition is_file :: "fs \<Rightarrow> path \<Rightarrow> bool" where
  "is_file fs p \<longleftrightarrow> fs p \<noteq> None \<and> fs p \<noteq> Some Dir"

definition path_exists :: "fs \<Rightarrow> path \<Rightarrow> bool" where
  "path_exists fs p \<longleftrightarrow> p = [] \<or> fs p \<noteq> None"

text \<open>\<open>mkdir(parents=True, exist_ok=True)\<close>, component by component.\<close>

fun mkdirs :: "fs \<Rightarrow> path \<Rightarrow> path \<Rightarrow> fs result" where
  "mkdirs fs pre [] = Inr fs"
| "mkdirs fs pre (n # ns) =
     (case fs (pre @ [n]) of
        None \<Rightarrow> mkdirs (fs(pre @ [n] \<mapsto> Dir)) (pre @ [n]) ns
      | Some Dir \<Rightarrow> mkdirs fs (pre @ [n]) ns
      | Some _ \<Rightarrow> Inl OSError)"

definition read_json :: "fs \<Rightarrow> path \<Rightarrow> json result" where
  "read_json fs p =
     (case fs p of
        Some (JsonFile v) \<Rightarrow> Inr v
      | Some (MagicFile _) \<Rightarrow> Inl ValueError
      | Some (BinFile _) \<Rightarrow> Inl ValueError
      | _ \<Rightarrow> Inl OSError)"

definition tmp_path :: "path \<Rightarrow> path" where
  "tmp_path p = butlast p @ [last p @ ''.tmp'']"

text \<open>
  Write a temporary file, then rename it over the target. \<open>os.replace\<close> fails on a
  directory and leaves the temporary file behind.
\<close>

definition write_file_atomic :: "entry \<Rightarrow> fs \<Rightarrow> path \<Rightarrow> unit result \<times> fs" where
  "write_file_atomic c fs p =
     (case mkdirs fs [] (butlast p) of
        Inl e \<Rightarrow> (Inl e, fs)
      | Inr fs1 \<Rightarrow>
          if fs1 (tmp_path p) = Some Dir then (Inl OSError, fs1)
          else
            let fs2 = fs1(tmp_path p \<mapsto> c) in
            if fs2 p = Some Dir then (Inl OSError, fs2)
            else (Inr (), fs2(p \<mapsto> c, tmp_path p := None)))"

abbreviation write_json_atomic :: "json \<Rightarrow> fs \<Rightarrow> path \<Rightarrow> unit result \<times> fs" where
  "write_json_atomic v \<equiv> write_file_atomic (JsonFile (sort_keys v))"

text \<open>
  The states a process that is stopped during the write can leave: before the temporary file
  is opened, with any part of it written, complete, and after the rename.
\<close>

definition write_states :: "json \<Rightarrow> fs \<Rightarrow> path \<Rightarrow> bytes \<Rightarrow> fs list" where
  "write_states v fs p part =
     (case mkdirs fs [] (butlast p) of
        Inl e \<Rightarrow> [fs]
      | Inr fs1 \<Rightarrow>
          if fs1 (tmp_path p) = Some Dir then [fs, fs1]
          else [fs, fs1, fs1(tmp_path p \<mapsto> BinFile part), fs1(tmp_path p \<mapsto> JsonFile (sort_keys v)),
                snd (write_json_atomic v fs p)])"

lemma tmp_path_neq [simp]: "p \<noteq> [] \<Longrightarrow> tmp_path p \<noteq> p"
proof
  assume "p \<noteq> []" "tmp_path p = p"
  then have "length (last p @ ''.tmp'') = length (last p)" by (metis tmp_path_def last_snoc)
  then show False by simp
qed

lemma tmp_path_neq2 [simp]: "p \<noteq> [] \<Longrightarrow> p \<noteq> tmp_path p"
  using tmp_path_neq by metis

lemma mkdirs_mono: "mkdirs fs pre ns = Inr fs' \<Longrightarrow> fs p = Some x \<Longrightarrow> fs' p = Some x"
proof (induction fs pre ns rule: mkdirs.induct)
  case (2 fs pre n ns)
  then show ?case
    by (cases "p = pre @ [n]")
      (auto split: option.splits entry.splits simp del: fun_upd_apply simp: fun_upd_other)
qed simp

lemma mkdirs_only: "mkdirs fs pre ns = Inr fs' \<Longrightarrow> length pre + length ns < length p \<Longrightarrow> fs' p = fs p"
proof (induction fs pre ns rule: mkdirs.induct)
  case (2 fs pre n ns)
  then have "p \<noteq> pre @ [n]" by auto
  with 2 show ?case
    by (auto split: option.splits entry.splits simp del: fun_upd_apply simp: fun_upd_other)
qed simp

lemma mkdirs_idem: "mkdirs fs pre ns = Inr fs' \<Longrightarrow> mkdirs fs' pre ns = Inr fs'"
proof (induction fs pre ns rule: mkdirs.induct)
  case (2 fs pre n ns)
  have "\<exists>fs1. fs1 (pre @ [n]) = Some Dir \<and> mkdirs fs1 (pre @ [n]) ns = Inr fs'"
    using 2(3) by (cases "fs (pre @ [n])") (auto split: entry.splits intro: exI [of _ "fs(pre @ [n] \<mapsto> Dir)"])
  then have "fs' (pre @ [n]) = Some Dir" by (blast intro: mkdirs_mono)
  moreover have "mkdirs fs' (pre @ [n]) ns = Inr fs'"
    using 2 by (auto split: option.splits entry.splits simp del: fun_upd_apply)
  ultimately show ?case by simp
qed simp

lemma mkdirs_parent:
  "mkdirs fs [] (butlast p) = Inr fs' \<Longrightarrow> p \<noteq> [] \<Longrightarrow> length q = length p \<Longrightarrow> fs' q = fs q"
  by (erule mkdirs_only) simp

lemma length_tmp_path [simp]: "p \<noteq> [] \<Longrightarrow> length (tmp_path p) = length p"
  by (simp add: tmp_path_def)

text \<open>A completed write reads back; an interrupted one leaves the old file or the new one.\<close>

lemma write_file_atomic_read:
  "write_file_atomic c fs p = (Inr (), fs') \<Longrightarrow> p \<noteq> [] \<Longrightarrow> fs' p = Some c"
  by (auto simp: write_file_atomic_def Let_def split: sum.splits if_splits)

lemma write_states_read:
  assumes "fs' \<in> set (write_states v fs p part)" "p \<noteq> []"
  shows "fs' p = fs p \<or> fs' p = Some (JsonFile (sort_keys v))"
  using assms by (auto simp: write_states_def write_file_atomic_def Let_def mkdirs_parent
      split: sum.splits if_splits)

lemma write_file_atomic_other:
  assumes "snd (write_file_atomic c fs p) = fs'" "p \<noteq> []" "length q = length p" "q \<noteq> p" "q \<noteq> tmp_path p"
  shows "fs' q = fs q"
  using assms by (auto simp: write_file_atomic_def Let_def mkdirs_parent split: sum.splits if_splits)

text \<open>When the write succeeds: no file is in the way of the directory, no directory of the file.\<close>

definition writable :: "fs \<Rightarrow> path \<Rightarrow> bool" where
  "writable fs p \<longleftrightarrow> p \<noteq> [] \<and> fs (tmp_path p) \<noteq> Some Dir \<and> fs p \<noteq> Some Dir
     \<and> (\<exists>fs1. mkdirs fs [] (butlast p) = Inr fs1)"

lemma writable_write:
  "writable fs p \<Longrightarrow> \<exists>fs'. write_file_atomic c fs p = (Inr (), fs')"
  by (auto simp: writable_def write_file_atomic_def Let_def mkdirs_parent)

section \<open>The manifest\<close>

definition MANIFEST_NAME :: string where "MANIFEST_NAME = ''MANIFEST''"

record manifest_file =
  mf_path :: string
  mf_size :: int
  mf_crc32 :: int

definition manifest_file_from_json :: "json \<Rightarrow> manifest_file result" where
  "manifest_file_from_json v =
     rbind (json_item v ''path'') (\<lambda>p.
     rbind (json_item v ''size'') (\<lambda>s. rbind (json_int s) (\<lambda>size.
     rbind (json_item v ''crc32'') (\<lambda>c. rbind (json_int c) (\<lambda>crc.
     Inr \<lparr>mf_path = json_str p, mf_size = size, mf_crc32 = crc\<rparr>)))))"

definition manifest_file_to_json :: "manifest_file \<Rightarrow> json" where
  "manifest_file_to_json f =
     JObj [(''path'', JStr (mf_path f)), (''size'', JInt (mf_size f)), (''crc32'', JInt (mf_crc32 f))]"

text \<open>\<open>current_snapshot\<close> is kept as it was read, \<open>JNull\<close> for \<open>None\<close>.\<close>

record manifest =
  format_version :: int
  created_at :: string
  last_lsn :: int
  checkpoint_lsn :: int
  current_snapshot :: json
  catalog_file :: string
  files :: "manifest_file list"
  snapshots :: "string list"

text \<open>\<open>now\<close> is the value of \<open>utc_now_iso()\<close>.\<close>

definition manifest_empty :: "string \<Rightarrow> manifest" where
  "manifest_empty now =
     \<lparr>format_version = int FORMAT_VERSION, created_at = now, last_lsn = 0, checkpoint_lsn = 0,
      current_snapshot = JNull, catalog_file = ''catalog.fb'', files = [], snapshots = []\<rparr>"

definition manifest_from_json :: "json \<Rightarrow> manifest result" where
  "manifest_from_json v =
     rbind (json_item v ''format_version'') (\<lambda>fv. rbind (json_int fv) (\<lambda>version.
     rbind (json_item v ''created_at'') (\<lambda>created.
     rbind (json_get v ''last_lsn'' (JInt 0)) (\<lambda>l. rbind (json_int l) (\<lambda>last.
     rbind (json_get v ''checkpoint_lsn'' (JInt 0)) (\<lambda>c. rbind (json_int c) (\<lambda>ckpt.
     rbind (json_get v ''current_snapshot'' JNull) (\<lambda>cur.
     rbind (json_get v ''catalog_file'' (JStr ''catalog.fb'')) (\<lambda>cat.
     rbind (json_get v ''files'' (JArr [])) (\<lambda>fl. rbind (json_iter fl) (\<lambda>items.
     rbind (rmap manifest_file_from_json items) (\<lambda>fs.
     rbind (json_get v ''snapshots'' (JArr [])) (\<lambda>sl. rbind (json_iter sl) (\<lambda>snaps.
     Inr \<lparr>format_version = version, created_at = json_str created, last_lsn = last,
          checkpoint_lsn = ckpt, current_snapshot = cur, catalog_file = json_str cat,
          files = fs, snapshots = map json_str snaps\<rparr>))))))))))))))"

definition manifest_to_json :: "manifest \<Rightarrow> json" where
  "manifest_to_json m =
     JObj ([(''format_version'', JInt (format_version m)),
            (''created_at'', JStr (created_at m)),
            (''last_lsn'', JInt (last_lsn m)),
            (''checkpoint_lsn'', JInt (checkpoint_lsn m)),
            (''catalog_file'', JStr (catalog_file m)),
            (''files'', JArr (map manifest_file_to_json (files m))),
            (''snapshots'', JArr (map JStr (snapshots m)))]
           @ (if current_snapshot m \<noteq> JNull then [(''current_snapshot'', current_snapshot m)] else []))"

definition manifest_read :: "fs \<Rightarrow> path \<Rightarrow> manifest result" where
  "manifest_read fs p = rbind (read_json fs p) manifest_from_json"

definition manifest_write_atomic :: "manifest \<Rightarrow> fs \<Rightarrow> path \<Rightarrow> unit result \<times> fs" where
  "manifest_write_atomic m fs p = write_json_atomic (manifest_to_json m) fs p"

text \<open>The value of \<open>current_snapshot\<close> is a name or \<open>None\<close>.\<close>

definition manifest_ok :: "manifest \<Rightarrow> bool" where
  "manifest_ok m \<longleftrightarrow> (case current_snapshot m of JNull \<Rightarrow> True | JStr _ \<Rightarrow> True | _ \<Rightarrow> False)"

lemma manifest_file_round_trip: "manifest_file_from_json (sort_keys (manifest_file_to_json f)) = Inr f"
  by (simp add: manifest_file_from_json_def manifest_file_to_json_def json_simps)

lemma manifest_file_to_json_wf [simp]: "json_wf (manifest_file_to_json f)"
  by (simp add: manifest_file_to_json_def)

lemma manifest_to_json_wf [simp]: "manifest_ok m \<Longrightarrow> json_wf (manifest_to_json m)"
  by (auto simp: manifest_to_json_def manifest_ok_def list_all_iff split: json.splits)

lemma manifest_round_trip_aux:
  assumes "manifest_ok m"
  shows "manifest_from_json (sort_keys (manifest_to_json m)) = Inr m"
proof -
  have fs: "rmap manifest_file_from_json (map (\<lambda>f. sort_keys (manifest_file_to_json f)) (files m))
      = Inr (files m)"
    by (rule rmap_id) (simp add: manifest_file_round_trip)
  have "sort_keys (current_snapshot m) = current_snapshot m"
    using assms by (auto simp: manifest_ok_def split: json.splits)
  with manifest_to_json_wf [OF assms] show ?thesis
    by (simp add: manifest_from_json_def manifest_to_json_def json_simps comp_def fs)
qed

end
