(* ===== verification/Bundle.thy ===== *)
theory Bundle
  imports Manifest
begin

text \<open>
  Bundle directories (\<open>storage/bundle.py\<close>): normalising a bundle path, creating a bundle and
  opening one, with the checks that reject a path that is not a complete bundle.
\<close>

definition BUNDLE_SUFFIX :: string where "BUNDLE_SUFFIX = ''.crcl''"

definition BUNDLE_DIRS :: "string list" where
  "BUNDLE_DIRS = [''dict'', ''nodes'', ''edges'', ''vec'', ''closure'', ''wal'', ''snapshots'']"

record crcl_bundle =
  b_path :: path
  b_manifest :: manifest

definition manifest_path :: "crcl_bundle \<Rightarrow> path" where
  "manifest_path b = b_path b @ [MANIFEST_NAME]"

definition bundle_child :: "crcl_bundle \<Rightarrow> path \<Rightarrow> path" where
  "bundle_child b parts = b_path b @ parts"

text \<open>\<open>PurePath.suffix\<close>: from the last dot, unless it is the first or the last character.\<close>

definition rfind_dot :: "string \<Rightarrow> nat option" where
  "rfind_dot s = (let t = takeWhile (\<lambda>c. c \<noteq> CHR ''.'') (rev s) in
     if length t = length s then None else Some (length s - 1 - length t))"

definition path_suffix :: "string \<Rightarrow> string" where
  "path_suffix name = (case rfind_dot name of
     None \<Rightarrow> [] | Some i \<Rightarrow> if 0 < i \<and> i < length name - 1 then drop i name else [])"

definition with_suffix :: "string \<Rightarrow> string \<Rightarrow> string" where
  "with_suffix name sfx = take (length name - length (path_suffix name)) name @ sfx"

definition normalize_bundle_path :: "path \<Rightarrow> path result" where
  "normalize_bundle_path p =
     (if (if p = [] then [] else path_suffix (last p)) \<noteq> BUNDLE_SUFFIX
      then (if p = [] then Inl ValueError else Inr (butlast p @ [with_suffix (last p) BUNDLE_SUFFIX]))
      else Inr p)"

text \<open>The loop over \<open>BUNDLE_DIRS\<close>: \<open>(root / name).mkdir(exist_ok=True)\<close>.\<close>

fun make_dirs :: "fs \<Rightarrow> path \<Rightarrow> string list \<Rightarrow> unit result \<times> fs" where
  "make_dirs fs root [] = (Inr (), fs)"
| "make_dirs fs root (n # ns) =
     (case fs (root @ [n]) of
        None \<Rightarrow> make_dirs (fs(root @ [n] \<mapsto> Dir)) root ns
      | Some Dir \<Rightarrow> make_dirs fs root ns
      | Some _ \<Rightarrow> (Inl OSError, fs))"

definition create_bundle :: "fs \<Rightarrow> string \<Rightarrow> path \<Rightarrow> bool \<Rightarrow> crcl_bundle result \<times> fs" where
  "create_bundle fs now p exist_ok =
     (case normalize_bundle_path p of
        Inl e \<Rightarrow> (Inl e, fs)
      | Inr root \<Rightarrow>
          if path_exists fs root \<and> \<not> exist_ok then (raise_code ''CDB-9001'', fs)
          else if path_exists fs root \<and> \<not> is_dir fs root then (raise_code ''CDB-9002'', fs)
          else
            (case mkdirs fs [] root of
               Inl e \<Rightarrow> (Inl e, fs)
             | Inr fs1 \<Rightarrow>
                 (case make_dirs fs1 root BUNDLE_DIRS of
                    (Inl e, fs2) \<Rightarrow> (Inl e, fs2)
                  | (Inr _, fs2) \<Rightarrow>
                      let mp = root @ [MANIFEST_NAME] in
                      if path_exists fs2 mp then
                        (rbind (manifest_read fs2 mp) (\<lambda>m. Inr \<lparr>b_path = root, b_manifest = m\<rparr>), fs2)
                      else
                        let m = manifest_empty now in
                        (case manifest_write_atomic m fs2 mp of
                           (Inl e, fs3) \<Rightarrow> (Inl e, fs3)
                         | (Inr _, fs3) \<Rightarrow> (Inr \<lparr>b_path = root, b_manifest = m\<rparr>, fs3)))))"

definition open_bundle_at :: "fs \<Rightarrow> path \<Rightarrow> crcl_bundle result" where
  "open_bundle_at fs p =
     rbind (normalize_bundle_path p) (\<lambda>root.
       if \<not> is_dir fs root then raise_code ''CDB-9003''
       else if \<not> is_file fs (root @ [MANIFEST_NAME]) then raise_code ''CDB-9004''
       else if filter (\<lambda>name. \<not> is_dir fs (root @ [name])) BUNDLE_DIRS \<noteq> [] then raise_code ''CDB-9005''
       else rbind (manifest_read fs (root @ [MANIFEST_NAME])) (\<lambda>m. Inr \<lparr>b_path = root, b_manifest = m\<rparr>))"

section \<open>Lemmas\<close>

lemma rfind_dot_crcl: "s \<noteq> [] \<Longrightarrow> path_suffix (s @ BUNDLE_SUFFIX) = BUNDLE_SUFFIX"
  by (simp add: path_suffix_def rfind_dot_def BUNDLE_SUFFIX_def)

lemma path_suffix_short: "name \<noteq> [] \<Longrightarrow> length (path_suffix name) < length name"
  by (auto simp: path_suffix_def split: option.splits)

text \<open>A normalised path names a bundle, and normalising it again changes nothing.\<close>

lemma normalize_bundle_path_suffix:
  assumes "normalize_bundle_path p = Inr root" "\<forall>n \<in> set p. n \<noteq> []"
  shows "root \<noteq> []" "path_suffix (last root) = BUNDLE_SUFFIX" "normalize_bundle_path root = Inr root"
proof -
  have "p \<noteq> []" using assms(1) by (auto simp: normalize_bundle_path_def BUNDLE_SUFFIX_def)
  have "path_suffix (with_suffix (last p) BUNDLE_SUFFIX) = BUNDLE_SUFFIX"
    unfolding with_suffix_def
    by (rule rfind_dot_crcl) (use assms(2) \<open>p \<noteq> []\<close> path_suffix_short [of "last p"] in auto)
  with \<open>p \<noteq> []\<close> assms(1) show r: "root \<noteq> []" "path_suffix (last root) = BUNDLE_SUFFIX"
    by (auto simp: normalize_bundle_path_def split: if_splits)
  then show "normalize_bundle_path root = Inr root" by (simp add: normalize_bundle_path_def)
qed

lemma mkdirs_dirs:
  "mkdirs fs pre ns = Inr fs' \<Longrightarrow> ns \<noteq> [] \<Longrightarrow> fs' (pre @ ns) = Some Dir"
proof (induction fs pre ns rule: mkdirs.induct)
  case (2 fs pre n ns)
  show ?case
  proof (cases "ns = []")
    case True
    with 2 show ?thesis by (auto split: option.splits entry.splits)
  next
    case False
    with 2 show ?thesis by (auto split: option.splits entry.splits simp del: fun_upd_apply)
  qed
qed simp

lemma make_dirs_other: "make_dirs fs root ns = (r, fs') \<Longrightarrow> p \<notin> (\<lambda>n. root @ [n]) ` set ns \<Longrightarrow> fs' p = fs p"
  by (induction fs root ns rule: make_dirs.induct)
    (auto split: option.splits entry.splits simp del: fun_upd_apply simp: fun_upd_other)

lemma make_dirs_dirs: "make_dirs fs root ns = (Inr u, fs') \<Longrightarrow> n \<in> set ns \<Longrightarrow> fs' (root @ [n]) = Some Dir"
proof (induction fs root ns rule: make_dirs.induct)
  case (2 fs root k ks)
  have keep: "make_dirs fs root ns = (Inr u, fs') \<Longrightarrow> fs p = Some Dir \<Longrightarrow> fs' p = Some Dir" for fs fs' p ns
    by (induction fs root ns rule: make_dirs.induct)
      (auto split: option.splits entry.splits if_splits simp: fun_upd_def)
  from 2 show ?case
    by (auto split: option.splits entry.splits simp del: fun_upd_apply)
      (auto intro: keep)
qed simp

lemma write_file_atomic_dir:
  assumes "write_file_atomic c fs p = (Inr u, fs')" "fs q = Some Dir" "p \<noteq> []"
  shows "fs' q = Some Dir"
  using assms mkdirs_mono by (fastforce simp: write_file_atomic_def Let_def split: sum.splits if_splits)

lemma MANIFEST_not_dir: "MANIFEST_NAME \<notin> set BUNDLE_DIRS"
  by (simp add: MANIFEST_NAME_def BUNDLE_DIRS_def)

lemma open_bundle_at_Inr:
  assumes "normalize_bundle_path p = Inr root" "fs root = Some Dir"
    "\<forall>n \<in> set BUNDLE_DIRS. fs (root @ [n]) = Some Dir"
    "manifest_read fs (root @ [MANIFEST_NAME]) = Inr m"
  shows "open_bundle_at fs p = Inr \<lparr>b_path = root, b_manifest = m\<rparr>"
proof -
  have "is_file fs (root @ [MANIFEST_NAME])"
    using assms(4) by (auto simp: manifest_read_def read_json_def is_file_def split: option.splits entry.splits)
  with assms show ?thesis
    by (auto simp: open_bundle_at_def is_dir_def filter_empty_conv)
qed

lemma create_bundle_open:
  assumes names: "\<forall>n \<in> set p. n \<noteq> []" and c: "create_bundle fs now p exist_ok = (Inr b, fs')"
  shows "open_bundle_at fs' p = Inr b"
proof -
  from c obtain root fs1 u fs2 where
    r: "normalize_bundle_path p = Inr root" "mkdirs fs [] root = Inr fs1"
      "make_dirs fs1 root BUNDLE_DIRS = (Inr u, fs2)"
    by (auto simp: create_bundle_def Let_def split: sum.splits if_splits prod.splits)
  let ?mp = "root @ [MANIFEST_NAME]"
  note root = normalize_bundle_path_suffix [OF r(1) names]
  have "fs1 root = Some Dir" using mkdirs_dirs [OF r(2)] root by simp
  then have d: "fs2 root = Some Dir" "\<forall>n \<in> set BUNDLE_DIRS. fs2 (root @ [n]) = Some Dir"
    using make_dirs_dirs [OF r(3)] make_dirs_other [OF r(3), of root] by auto
  show ?thesis
  proof (cases "path_exists fs2 ?mp")
    case True
    with c have "rbind (manifest_read fs2 ?mp) (\<lambda>m. Inr \<lparr>b_path = root, b_manifest = m\<rparr>) = Inr b \<and> fs2 = fs'"
      by (simp add: create_bundle_def r Let_def split: if_splits) blast
    then show ?thesis using open_bundle_at_Inr [OF r(1) d]
      by (cases "manifest_read fs2 ?mp") auto
  next
    case False
    let ?m = "manifest_empty now"
    from False c have "(case write_json_atomic (manifest_to_json ?m) fs2 ?mp of
        (Inl e, fs3) \<Rightarrow> (Inl e, fs3) | (Inr _, fs3) \<Rightarrow> (Inr \<lparr>b_path = root, b_manifest = ?m\<rparr>, fs3)) = (Inr b, fs')"
      by (simp add: create_bundle_def r Let_def manifest_write_atomic_def split: if_splits)
    then obtain v where w: "write_json_atomic (manifest_to_json ?m) fs2 ?mp = (Inr v, fs')"
      "b = \<lparr>b_path = root, b_manifest = ?m\<rparr>"
      by (auto split: prod.splits sum.splits)
    then have "manifest_read fs' ?mp = manifest_from_json (sort_keys (manifest_to_json ?m))"
      by (simp add: manifest_read_def read_json_def write_file_atomic_read)
    also have "\<dots> = Inr ?m" by (rule manifest_round_trip_aux) (simp add: manifest_ok_def manifest_empty_def)
    finally show ?thesis using open_bundle_at_Inr [OF r(1)] write_file_atomic_dir [OF w(1)] d w(2) by simp
  qed
qed

section \<open>Properties\<close>



text \<open>
  A bundle that \<open>create_bundle\<close> returned is complete: opening the same path on the
  resulting files returns the same bundle, whether it was new or reused.
\<close>

theorem create_then_open:
  assumes "\<forall>n \<in> set p. n \<noteq> []" "create_bundle fs now p exist_ok = (Inr b, fs')"
  shows "open_bundle_at fs' p = Inr b \<and> path_suffix (last (b_path b)) = BUNDLE_SUFFIX"
proof -
  note o = create_bundle_open [OF assms]
  then have "normalize_bundle_path p = Inr (b_path b)"
    by (auto simp: open_bundle_at_def rbind_Inr_iff split: if_splits)
  with normalize_bundle_path_suffix [OF _ assms(1)] o show ?thesis by simp
qed

theorem create_then_open_witness:
  "\<exists>b fs'. create_bundle (\<lambda>_. None) ''t'' [''g''] False = (Inr b, fs')
    \<and> b_path b = [''g.crcl''] \<and> open_bundle_at fs' [''g''] = Inr b"
proof -
  have n: "normalize_bundle_path [''g''] = Inr [''g.crcl'']"
    by (simp add: normalize_bundle_path_def path_suffix_def rfind_dot_def with_suffix_def BUNDLE_SUFFIX_def)
  have "\<exists>fs'. create_bundle (\<lambda>_. None) ''t'' [''g''] False
      = (Inr \<lparr>b_path = [''g.crcl''], b_manifest = manifest_empty ''t''\<rparr>, fs')"
    by (simp add: create_bundle_def n path_exists_def BUNDLE_DIRS_def MANIFEST_NAME_def
        manifest_write_atomic_def write_file_atomic_def tmp_path_def Let_def)
  then show ?thesis using create_then_open [of "[''g'']"] by fastforce
qed

end
