(* ===== verification/Recovery.thy ===== *)
theory Recovery
  imports Bundle Wal_Theorems
begin

text \<open>
  Checkpoints (\<open>storage/checkpoint.py\<close>) and crash recovery (\<open>storage/recovery.py\<close>): the two
  clients that connect the bundle's manifest with its write-ahead log. The log directory
  \<open>bundle.path / "wal"\<close> is the \<open>w_dir\<close> of the log.
\<close>

section \<open>Checkpoint\<close>

definition CHECKPOINT_KIND :: string where "CHECKPOINT_KIND = ''CHECKPOINT''"

record checkpoint_result =
  cr_checkpoint_lsn :: nat
  cr_wal_segments_removed :: nat
  cr_manifest_path :: path
  cr_timestamp :: string

text \<open>The files, the bundle object and the log the operations work on.\<close>

record store =
  s_fs :: fs
  s_bundle :: crcl_bundle
  s_wal :: wal

definition checkpoint :: "store \<Rightarrow> string \<Rightarrow> checkpoint_result result \<times> store" where
  "checkpoint s now =
     (let m = b_manifest (s_bundle s) in
      if int (w_last_lsn (s_wal s)) < checkpoint_lsn m then (raise_code ''CDB-7060'', s)
      else
        (case wal_append (s_wal s) CHECKPOINT_KIND [] of
           (Inl e, w1) \<Rightarrow> (Inl e, s\<lparr>s_wal := w1\<rparr>)
         | (Inr marker_lsn, w1) \<Rightarrow>
             (case wal_flush w1 of
                (Inl e, w2) \<Rightarrow> (Inl e, s\<lparr>s_wal := w2\<rparr>)
              | (Inr _, w2) \<Rightarrow>
                  let m' = m\<lparr>last_lsn := int marker_lsn, checkpoint_lsn := int marker_lsn\<rparr>;
                      mp = manifest_path (s_bundle s)
                  in
                  (case manifest_write_atomic m' (s_fs s) mp of
                     (Inl e, fs') \<Rightarrow> (Inl e, s\<lparr>s_fs := fs', s_wal := w2\<rparr>)
                   | (Inr _, fs') \<Rightarrow>
                       let s' = s\<lparr>s_fs := fs', s_bundle := (s_bundle s)\<lparr>b_manifest := m'\<rparr>\<rparr> in
                       (case truncate_before w2 marker_lsn of
                          (Inl e, w3) \<Rightarrow> (Inl e, s'\<lparr>s_wal := w3\<rparr>)
                        | (Inr removed, w3) \<Rightarrow>
                            (Inr \<lparr>cr_checkpoint_lsn = marker_lsn, cr_wal_segments_removed = removed,
                                  cr_manifest_path = mp, cr_timestamp = now\<rparr>,
                             s'\<lparr>s_wal := w3\<rparr>))))))"

definition latest_checkpoint_lsn :: "crcl_bundle \<Rightarrow> int" where
  "latest_checkpoint_lsn b = checkpoint_lsn (b_manifest b)"

definition reload_manifest :: "fs \<Rightarrow> crcl_bundle \<Rightarrow> manifest result \<times> crcl_bundle" where
  "reload_manifest fs b =
     (case manifest_read fs (manifest_path b) of
        Inl e \<Rightarrow> (Inl e, b)
      | Inr m \<Rightarrow> (Inr m, b\<lparr>b_manifest := m\<rparr>))"

section \<open>Recovery\<close>

record recovery_report =
  rr_replayed :: nat
  rr_skipped_pre_checkpoint :: nat
  rr_last_lsn :: int
  rr_checkpoint_lsn :: int
  rr_handler_invocations :: "(string, nat) dict"

text \<open>
  A redo handler works on the state \<open>'a\<close> of the application and may raise; the loop wraps
  whatever it raises in \<open>CDB-7070\<close>.
\<close>

type_synonym 'a redo_handler = "wal_record \<Rightarrow> 'a \<Rightarrow> unit result \<times> 'a"

record 'a recovery_state =
  rs_report :: recovery_report
  rs_last_seen :: int
  rs_boundary :: int
  rs_app :: 'a

definition count_record :: "string \<Rightarrow> recovery_report \<Rightarrow> recovery_report" where
  "count_record kind r =
     r\<lparr>rr_handler_invocations :=
         AList.update kind
           ((case map_of (rr_handler_invocations r) kind of None \<Rightarrow> 0 | Some n \<Rightarrow> n) + 1)
           (rr_handler_invocations r),
       rr_replayed := rr_replayed r + 1\<rparr>"

text \<open>The body of the loop for one record.\<close>

definition replay_record ::
  "(string, 'a redo_handler) dict \<Rightarrow> wal_record \<Rightarrow> 'a recovery_state \<Rightarrow> unit result \<times> 'a recovery_state"
where
  "replay_record handlers record s0 =
     (let s = s0\<lparr>rs_last_seen := max (rs_last_seen s0) (int (wr_lsn record))\<rparr> in
      if int (wr_lsn record) \<le> rs_boundary s then
        (Inr (), s\<lparr>rs_report := (rs_report s)
           \<lparr>rr_skipped_pre_checkpoint := rr_skipped_pre_checkpoint (rs_report s) + 1\<rparr>\<rparr>)
      else if wr_kind record = CHECKPOINT_KIND then
        (Inr (), if rs_boundary s < int (wr_lsn record)
                 then s\<lparr>rs_boundary := int (wr_lsn record)\<rparr> else s)
      else
        (case map_of handlers (wr_kind record) of
           None \<Rightarrow> (Inr (), s\<lparr>rs_report := count_record (wr_kind record) (rs_report s)\<rparr>)
         | Some handler \<Rightarrow>
             (case handler record (rs_app s) of
                (Inl _, a) \<Rightarrow> (raise_code ''CDB-7070'', s\<lparr>rs_app := a\<rparr>)
              | (Inr _, a) \<Rightarrow>
                  (Inr (), s\<lparr>rs_app := a, rs_report := count_record (wr_kind record) (rs_report s)\<rparr>))))"

fun replay_loop ::
  "(string, 'a redo_handler) dict \<Rightarrow> wal_record list \<Rightarrow> 'a recovery_state \<Rightarrow> unit result \<times> 'a recovery_state"
where
  "replay_loop handlers [] s = (Inr (), s)"
| "replay_loop handlers (r # rs) s =
     (case replay_record handlers r s of
        (Inl e, s') \<Rightarrow> (Inl e, s')
      | (Inr _, s') \<Rightarrow> replay_loop handlers rs s')"

text \<open>
  The manifest is rewritten only when a number changed. \<open>Wal(...)\<close> is opened with its default
  roll size and mode; iterating it writes nothing, so the directory stays as it is.
\<close>

definition recover ::
  "(string, 'a redo_handler) dict \<Rightarrow> fs \<Rightarrow> crcl_bundle \<Rightarrow> wal_dir \<Rightarrow> 'a
     \<Rightarrow> recovery_report result \<times> fs \<times> crcl_bundle \<times> 'a"
where
  "recover handlers fs b dir app =
     (let m = b_manifest b;
          report = \<lparr>rr_replayed = 0, rr_skipped_pre_checkpoint = 0, rr_last_lsn = 0,
                    rr_checkpoint_lsn = checkpoint_lsn m, rr_handler_invocations = []\<rparr>;
          s0 = \<lparr>rs_report = report, rs_last_seen = last_lsn m, rs_boundary = checkpoint_lsn m,
                rs_app = app\<rparr>
      in
      case wal_open dir DEFAULT_ROLL_SIZE SyncGroup True of
        Inl e \<Rightarrow> (Inl e, fs, b, app)
      | Inr w \<Rightarrow>
          (case fst (iter_since w 0) of
             (records, exc) \<Rightarrow>
               (case replay_loop handlers records s0 of
                  (Inl e, s) \<Rightarrow> (Inl e, fs, b, rs_app s)
                | (Inr _, s) \<Rightarrow>
                    (case exc of
                       Some e \<Rightarrow> (Inl e, fs, b, rs_app s)
                     | None \<Rightarrow>
                         let report' = (rs_report s)\<lparr>rr_last_lsn := rs_last_seen s,
                                                     rr_checkpoint_lsn := rs_boundary s\<rparr>
                         in
                         if rs_last_seen s \<noteq> last_lsn m \<or> rs_boundary s \<noteq> checkpoint_lsn m then
                           let m' = m\<lparr>last_lsn := rs_last_seen s, checkpoint_lsn := rs_boundary s\<rparr> in
                           (case manifest_write_atomic m' fs (manifest_path b) of
                              (Inl e, fs') \<Rightarrow> (Inl e, fs', b, rs_app s)
                            | (Inr _, fs') \<Rightarrow> (Inr report', fs', b\<lparr>b_manifest := m'\<rparr>, rs_app s))
                         else (Inr report', fs, b, rs_app s)))))"

end
