(* ===== verification/Recovery_Theorems.thy ===== *)
theory Recovery_Theorems
  imports Recovery
begin

text \<open>
  What recovery replays, stated against the list of records a reader of the log finds, and the
  interplay of checkpoint, crash and recovery.
\<close>

section \<open>The replay loop\<close>

text \<open>The records to replay: above the checkpoint, markers left out; and their handlers in order.\<close>

definition redo_records :: "int \<Rightarrow> wal_record list \<Rightarrow> wal_record list" where
  "redo_records ckpt rs = filter (\<lambda>r. ckpt < int (wr_lsn r) \<and> wr_kind r \<noteq> CHECKPOINT_KIND) rs"

fun run_handlers :: "(string, 'a redo_handler) dict \<Rightarrow> wal_record list \<Rightarrow> 'a \<Rightarrow> unit result \<times> 'a" where
  "run_handlers handlers [] a = (Inr (), a)"
| "run_handlers handlers (r # rs) a =
     (case map_of handlers (wr_kind r) of
        None \<Rightarrow> run_handlers handlers rs a
      | Some h \<Rightarrow>
          (case h r a of
             (Inl _, a') \<Rightarrow> (raise_code ''CDB-7070'', a')
           | (Inr _, a') \<Rightarrow> run_handlers handlers rs a'))"

definition marker_lsns :: "wal_record list \<Rightarrow> int list" where
  "marker_lsns rs = map (\<lambda>r. int (wr_lsn r)) (filter (\<lambda>r. wr_kind r = CHECKPOINT_KIND) rs)"

lemma redo_records_mono:
  "\<forall>r \<in> set rs. c < int (wr_lsn r) \<Longrightarrow> b \<le> c \<Longrightarrow> redo_records c rs = redo_records b rs"
  by (auto simp: redo_records_def intro!: filter_cong)

lemma count_record_replayed [simp]:
  "rr_replayed (count_record k r) = rr_replayed r + 1"
  "rr_skipped_pre_checkpoint (count_record k r) = rr_skipped_pre_checkpoint r"
  by (simp_all add: count_record_def)

text \<open>What the loop does, from the state \<open>s\<close> before it to the state \<open>s'\<close> after it.\<close>

definition replay_result ::
  "(string, 'a redo_handler) dict \<Rightarrow> wal_record list \<Rightarrow> 'a recovery_state \<Rightarrow> unit result
     \<Rightarrow> 'a recovery_state \<Rightarrow> bool"
where
  "replay_result handlers rs s res s' \<longleftrightarrow>
     run_handlers handlers (redo_records (rs_boundary s) rs) (rs_app s) = (res, rs_app s')
     \<and> (res = Inr () \<longrightarrow>
          rr_replayed (rs_report s') = rr_replayed (rs_report s) + length (redo_records (rs_boundary s) rs)
          \<and> rs_boundary s' = foldl max (rs_boundary s) (marker_lsns rs)
          \<and> rs_last_seen s' = foldl max (rs_last_seen s) (map (\<lambda>r. int (wr_lsn r)) rs))"

lemma replay_loop_redo:
  assumes "sorted_wrt (<) (map wr_lsn rs)" and "replay_loop handlers rs s = (res, s')"
  shows "replay_result handlers rs s res s'"
  using assms
proof (induction rs arbitrary: s)
  case (Cons r rs)
  from Cons.prems have srt: "sorted_wrt (<) (map wr_lsn rs)" and above: "\<forall>x \<in> set rs. wr_lsn r < wr_lsn x"
    by auto
  obtain res1 s1 where st: "replay_record handlers r s = (res1, s1)" by fastforce
  note IH = Cons.IH [OF srt, unfolded replay_result_def]
  note defs = replay_result_def replay_record_def Let_def redo_records_def marker_lsns_def
  let ?ls = "int (wr_lsn r)"
  consider (skip) "?ls \<le> rs_boundary s" | (mark) "rs_boundary s < ?ls" "wr_kind r = CHECKPOINT_KIND"
    | (redo) "rs_boundary s < ?ls" "wr_kind r \<noteq> CHECKPOINT_KIND" by linarith
  then show ?case
  proof cases
    case skip
    with Cons.prems(2) IH [of s1] st show ?thesis by (auto simp: defs max_def)
  next
    case mark
    have "redo_records ?ls rs = redo_records (rs_boundary s) rs"
      using above mark by (intro redo_records_mono) auto
    with mark Cons.prems(2) IH [of s1] st show ?thesis by (auto simp: defs max_def)
  next
    case redo
    then show ?thesis
    proof (cases "map_of handlers (wr_kind r)")
      case None
      with redo Cons.prems(2) IH [of s1] st show ?thesis by (auto simp: defs)
    next
      case (Some h)
      with redo Cons.prems(2) IH [of s1] st show ?thesis
        by (auto simp: defs split: prod.splits sum.splits)
    qed
  qed
qed (simp add: replay_result_def redo_records_def marker_lsns_def)

section \<open>Recovery of a readable log\<close>

lemma wal_open_readable:
  assumes "iter_all_records dir = (rs, None)"
  obtains l where "wal_open dir DEFAULT_ROLL_SIZE SyncGroup True
      = Inr (wal_init dir DEFAULT_ROLL_SIZE SyncGroup True l)"
    and "fst (iter_since (wal_init dir DEFAULT_ROLL_SIZE SyncGroup True l) 0)
      = (filter (\<lambda>r. 0 < wr_lsn r) rs, None)"
proof (rule that)
  show "wal_open dir DEFAULT_ROLL_SIZE SyncGroup True
      = Inr (wal_init dir DEFAULT_ROLL_SIZE SyncGroup True (foldl max 0 (map wr_lsn rs)))"
    using assms by (simp add: wal_open_def DEFAULT_ROLL_SIZE_def HEADER_SIZE_def)
  show "fst (iter_since (wal_init dir DEFAULT_ROLL_SIZE SyncGroup True (foldl max 0 (map wr_lsn rs))) 0)
      = (filter (\<lambda>r. 0 < wr_lsn r) rs, None)"
    using assms by (simp add: iter_since_def file_flush_def wal_init_def)
qed

definition initial_recovery :: "manifest \<Rightarrow> 'a \<Rightarrow> 'a recovery_state" where
  "initial_recovery m app =
     \<lparr>rs_report = \<lparr>rr_replayed = 0, rr_skipped_pre_checkpoint = 0, rr_last_lsn = 0,
                   rr_checkpoint_lsn = checkpoint_lsn m, rr_handler_invocations = []\<rparr>,
      rs_last_seen = last_lsn m, rs_boundary = checkpoint_lsn m, rs_app = app\<rparr>"

lemma chain_readable:
  assumes "chain a rs b"
  shows "filter (\<lambda>r. 0 < wr_lsn r) rs = rs" "sorted_wrt (<) (map wr_lsn rs)"
proof -
  show "filter (\<lambda>r. 0 < wr_lsn r) rs = rs"
    using chain_bounds [OF assms] by (fastforce intro!: filter_True)
  show "sorted_wrt (<) (map wr_lsn rs)"
    unfolding chain_lsns [OF assms] by (rule sorted_wrt_upt)
qed

lemma recover_chain:
  fixes b :: crcl_bundle and app :: 'a
  assumes log: "iter_all_records dir = (rs, None)" "chain x rs y"
    and rec: "recover handlers fs b dir app = (res, fs', b', app')"
  obtains r s where "replay_result handlers rs (initial_recovery (b_manifest b) app) r s"
    and "app' = rs_app s" and "\<And>e. r = Inl e \<Longrightarrow> res = Inl e"
    and "r = Inr () \<Longrightarrow> writable fs (manifest_path b) \<Longrightarrow> \<exists>rep. res = Inr rep"
    and "\<And>rep. res = Inr rep \<Longrightarrow> r = Inr () \<and> rep = (rs_report s)\<lparr>rr_last_lsn := rs_last_seen s,
           rr_checkpoint_lsn := rs_boundary s\<rparr>
         \<and> b_manifest b' = (b_manifest b)\<lparr>last_lsn := rs_last_seen s, checkpoint_lsn := rs_boundary s\<rparr>"
proof -
  from wal_open_readable [OF log(1)] obtain l where
    o: "wal_open dir DEFAULT_ROLL_SIZE SyncGroup True
        = Inr (wal_init dir DEFAULT_ROLL_SIZE SyncGroup True l)"
      "fst (iter_since (wal_init dir DEFAULT_ROLL_SIZE SyncGroup True l) 0) = (rs, None)"
    using chain_readable [OF log(2)] by metis
  obtain r s where loop: "replay_loop handlers rs (initial_recovery (b_manifest b) app) = (r, s)"
    by fastforce
  note rr = replay_loop_redo [OF chain_readable(2) [OF log(2)] loop]
  show ?thesis
  proof (rule that [OF rr])
    show "app' = rs_app s" "\<And>e. r = Inl e \<Longrightarrow> res = Inl e"
      using rec loop o by (auto simp: recover_def Let_def initial_recovery_def
          split: sum.splits prod.splits if_splits)
    show "\<exists>rep. res = Inr rep" if "r = Inr ()" "writable fs (manifest_path b)"
    proof -
      let ?m = "(b_manifest b)\<lparr>last_lsn := rs_last_seen s, checkpoint_lsn := rs_boundary s\<rparr>"
      from writable_write [OF that(2)] obtain fs3 where
        "manifest_write_atomic ?m fs (manifest_path b) = (Inr (), fs3)"
        unfolding manifest_write_atomic_def by blast
      with rec loop o that(1) show ?thesis
        by (auto simp: recover_def Let_def initial_recovery_def split: if_splits)
    qed
    show "r = Inr () \<and> rep = (rs_report s)\<lparr>rr_last_lsn := rs_last_seen s, rr_checkpoint_lsn := rs_boundary s\<rparr>
         \<and> b_manifest b' = (b_manifest b)\<lparr>last_lsn := rs_last_seen s, checkpoint_lsn := rs_boundary s\<rparr>"
      if "res = Inr rep" for rep
      using rec loop o that by (auto simp: recover_def Let_def initial_recovery_def
          split: sum.splits prod.splits if_splits)
  qed
qed

section \<open>Checkpoints\<close>

definition checkpoint_pre :: "store \<Rightarrow> bool" where
  "checkpoint_pre s \<longleftrightarrow> wal_ok (s_wal s) \<and> seg_room (s_wal s) 2 \<and> w_sync_mode (s_wal s) \<noteq> SyncOff
     \<and> w_fsync_ok (s_wal s) \<and> Suc (w_last_lsn (s_wal s)) < 256 ^ 8
     \<and> checkpoint_lsn (b_manifest (s_bundle s)) \<le> int (w_last_lsn (s_wal s))
     \<and> manifest_ok (b_manifest (s_bundle s)) \<and> writable (s_fs s) (manifest_path (s_bundle s))"

lemma py_str_CHECKPOINT [simp]: "py_str CHECKPOINT_KIND"
  unfolding CHECKPOINT_KIND_def by (rule py_str_ascii) simp

lemma wal_flush_inv_pending:
  assumes "wal_ok w" "wal_flush w = (Inr u, w')" "w_sync_mode w \<noteq> SyncOff"
  obtains rss where "wal_inv w' rss []" "concat rss = wal_log w"
proof -
  from assms(1) obtain rss prs where inv: "wal_inv w rss prs" by (auto simp: wal_ok_def)
  from wal_flush_pending [OF inv assms(2,3)] obtain rss' where r: "wal_inv w' rss' []" .
  moreover have "wal_log w' = wal_log w" using wal.flush_log [OF assms(1,2)] by simp
  ultimately show ?thesis using that by (simp add: wal_log_inv)
qed

text \<open>The state a successful checkpoint leaves.\<close>

lemma checkpoint_result:
  assumes pre: "checkpoint_pre s"
  obtains r s' rss a where "checkpoint s now = (Inr r, s')"
    and "cr_checkpoint_lsn r = Suc (w_last_lsn (s_wal s))"
    and "b_manifest (s_bundle s') = (b_manifest (s_bundle s))
      \<lparr>last_lsn := int (cr_checkpoint_lsn r), checkpoint_lsn := int (cr_checkpoint_lsn r)\<rparr>"
    and "b_path (s_bundle s') = b_path (s_bundle s)"
    and "manifest_read (s_fs s') (manifest_path (s_bundle s')) = Inr (b_manifest (s_bundle s'))"
    and "wal_inv (s_wal s') rss []" and "chain a (concat rss) (cr_checkpoint_lsn r)"
proof -
  let ?w = "s_wal s" and ?m = "b_manifest (s_bundle s)" and ?mp = "manifest_path (s_bundle s)"
  let ?l = "Suc (w_last_lsn ?w)"
  let ?m' = "?m\<lparr>last_lsn := int ?l, checkpoint_lsn := int ?l\<rparr>"
  from pre have p: "wal_ok ?w" "seg_room ?w (Suc (Suc 0))" "w_sync_mode ?w \<noteq> SyncOff" "w_fsync_ok ?w"
    "manifest_ok ?m" "writable (s_fs s) ?mp" by (simp_all add: checkpoint_pre_def numeral_2_eq_2)
  have "wf_record (new_record ?w CHECKPOINT_KIND [])"
    using pre by (simp add: checkpoint_pre_def wf_record_def) (simp add: CHECKPOINT_KIND_def)
  from wal_append_succeeds [OF _ this] p(4) obtain w1 where
    a: "wal_append ?w CHECKPOINT_KIND [] = (Inr ?l, w1)" by auto
  note a' = wal.append_ok [OF p(1,2) _ a] wal.append_lsn [OF p(1,2) _ a] wal_append_sync [OF _ a]
    wal_append_fsync [OF _ a]
  from wal_flush_total a' p(4) obtain w2 where f: "wal_flush w1 = (Inr (), w2)" by auto
  from a' p(3) have w1: "wal_ok w1" "w_sync_mode w1 \<noteq> SyncOff" by auto
  from wal_flush_inv_pending [OF w1(1) f w1(2)] obtain rss where
    inv: "wal_inv w2 rss []" "concat rss = wal_log w1" by metis
  from writable_write [OF p(6)] obtain fs' where
    wr: "manifest_write_atomic ?m' (s_fs s) ?mp = (Inr (), fs')"
    unfolding manifest_write_atomic_def by blast
  from truncate_before_inv [OF inv(1), of ?l] obtain n w3 rss' where
    t: "truncate_before w2 ?l = (Inr n, w3)" "wal_inv w3 rss' []" "w_last_lsn w3 = w_last_lsn w2" by metis
  have l3: "w_last_lsn w3 = ?l" using t(3) wal.flush_log [OF w1(1) f] a' by simp
  have c: "checkpoint s now = (Inr \<lparr>cr_checkpoint_lsn = ?l, cr_wal_segments_removed = n,
        cr_manifest_path = ?mp, cr_timestamp = now\<rparr>,
      s\<lparr>s_fs := fs', s_bundle := (s_bundle s)\<lparr>b_manifest := ?m'\<rparr>, s_wal := w3\<rparr>)"
    using pre a f wr t(1) by (simp add: checkpoint_def checkpoint_pre_def Let_def)
  have "manifest_read fs' ?mp = manifest_from_json (sort_keys (manifest_to_json ?m'))"
    using wr by (simp add: manifest_read_def read_json_def manifest_write_atomic_def manifest_path_def
        write_file_atomic_read)
  also have "\<dots> = Inr ?m'"
    by (rule manifest_round_trip_aux) (use p(5) in \<open>simp add: manifest_ok_def\<close>)
  finally have rd: "manifest_read fs' ?mp = Inr ?m'" .
  from t(2) l3 obtain x where "chain x (concat rss') ?l" by (auto simp: wal_inv_def)
  with c rd t(2) show ?thesis by (intro that [OF c, of rss' x]) (simp_all add: manifest_path_def)
qed

section \<open>Properties\<close>

lemma foldl_max_below: "\<forall>x \<in> set xs. x \<le> m \<Longrightarrow> foldl max m xs = (m :: int)"
  by (induction xs arbitrary: m) auto

lemma crash_chain:
  assumes "wal_ok w"
  obtains rs x y where "iter_all_records (crash w n) = (rs, None)" "prefix (wal_durable w) rs"
    "prefix rs (wal_log w)" "chain x rs y"
proof -
  from assms obtain rss prs where inv: "wal_inv w rss prs" by (auto simp: wal_ok_def)
  from crash_records [OF inv, of n] obtain k where
    k: "iter_all_records (crash w n) = (concat rss @ take k prs, None)" ..
  from inv obtain a where "chain a ((concat rss @ take k prs) @ drop k prs) (w_last_lsn w)"
    by (auto simp: wal_inv_def)
  then obtain y where "chain a (concat rss @ take k prs) y" unfolding chain_append [of a "_ @ _"] by blast
  with k inv that show ?thesis by (simp add: wal_durable_inv wal_log_inv take_is_prefix)
qed


definition example_fs :: fs where
  "example_fs = [[''g.crcl''] \<mapsto> Dir]"

definition example_bundle :: crcl_bundle where
  "example_bundle = \<lparr>b_path = [''g.crcl''], b_manifest = manifest_empty ''2024-01-01T00:00:00Z''\<rparr>"

lemma example_writable: "writable example_fs (manifest_path example_bundle)"
  by (simp add: writable_def example_fs_def example_bundle_def manifest_path_def MANIFEST_NAME_def
      tmp_path_def)


text \<open>
  C8: a checkpoint of a well-formed store succeeds, writes a manifest that reads back with the
  marker as its checkpoint, and leaves nothing to replay: recovery after a crash at that point
  runs no handler, reports zero replayed records and changes neither files nor manifest.
\<close>

theorem checkpoint_then_recover:
  assumes "checkpoint_pre s"
  shows "\<exists>r s' rep. checkpoint s now = (Inr r, s')
    \<and> cr_checkpoint_lsn r = Suc (w_last_lsn (s_wal s))
    \<and> manifest_read (s_fs s') (manifest_path (s_bundle s')) = Inr (b_manifest (s_bundle s'))
    \<and> checkpoint_lsn (b_manifest (s_bundle s')) = int (cr_checkpoint_lsn r)
    \<and> recover handlers (s_fs s') (s_bundle s') (crash (s_wal s') n) app
        = (Inr rep, s_fs s', s_bundle s', app)
    \<and> rr_replayed rep = 0"
proof -
  from checkpoint_result [OF assms] obtain r s' rss a where
    c: "checkpoint s now = (Inr r, s')" "cr_checkpoint_lsn r = Suc (w_last_lsn (s_wal s))"
      "b_manifest (s_bundle s') = (b_manifest (s_bundle s))
        \<lparr>last_lsn := int (cr_checkpoint_lsn r), checkpoint_lsn := int (cr_checkpoint_lsn r)\<rparr>"
      "manifest_read (s_fs s') (manifest_path (s_bundle s')) = Inr (b_manifest (s_bundle s'))"
      "wal_inv (s_wal s') rss []" "chain a (concat rss) (cr_checkpoint_lsn r)" by metis
  let ?rs = "concat rss" and ?l = "int (cr_checkpoint_lsn r)"
  have rd: "iter_all_records (crash (s_wal s') n) = (?rs, None)"
    using crash_flushed [OF c(5)] wal_log_inv [OF c(5)] by simp
  from wal_open_readable [OF rd] obtain l where
    o: "wal_open (crash (s_wal s') n) DEFAULT_ROLL_SIZE SyncGroup True
        = Inr (wal_init (crash (s_wal s') n) DEFAULT_ROLL_SIZE SyncGroup True l)"
      "fst (iter_since (wal_init (crash (s_wal s') n) DEFAULT_ROLL_SIZE SyncGroup True l) 0) = (?rs, None)"
    using chain_readable [OF c(6)] by metis
  have below: "\<forall>x \<in> set ?rs. int (wr_lsn x) \<le> ?l" using chain_bounds [OF c(6)] by auto
  let ?s0 = "initial_recovery (b_manifest (s_bundle s')) app"
  obtain x s1 where loop: "replay_loop handlers ?rs ?s0 = (x, s1)" by fastforce
  have none: "redo_records ?l ?rs = []" using below by (fastforce simp: redo_records_def filter_empty_conv)
  have "foldl max ?l (marker_lsns ?rs) = ?l" "foldl max ?l (map (\<lambda>r. int (wr_lsn r)) ?rs) = ?l"
    using below by (auto intro!: foldl_max_below simp: marker_lsns_def)
  with replay_loop_redo [OF chain_readable(2) [OF c(6)] loop] c(3) none
  have x: "x = Inr ()" "rs_app s1 = app" "rr_replayed (rs_report s1) = 0" "rs_boundary s1 = ?l"
    "rs_last_seen s1 = ?l" by (auto simp: replay_result_def initial_recovery_def)
  have "recover handlers (s_fs s') (s_bundle s') (crash (s_wal s') n) app
      = (Inr ((rs_report s1)\<lparr>rr_last_lsn := ?l, rr_checkpoint_lsn := ?l\<rparr>), s_fs s', s_bundle s', app)"
    using o loop x c(3) by (simp add: recover_def Let_def initial_recovery_def)
  with c x show ?thesis by (intro exI [of _ r] exI [of _ s']) auto
qed

theorem checkpoint_then_recover_witness:
  "\<exists>r s'. checkpoint \<lparr>s_fs = example_fs, s_bundle = example_bundle,
        s_wal = wal_init [] 1000 SyncGroup True 0\<rparr> ''now'' = (Inr r, s')
    \<and> cr_checkpoint_lsn r = 1"
proof -
  let ?s = "\<lparr>s_fs = example_fs, s_bundle = example_bundle, s_wal = wal_init [] 1000 SyncGroup True 0\<rparr>"
  have "b_manifest example_bundle = manifest_empty ''2024-01-01T00:00:00Z''"
    by (simp add: example_bundle_def)
  then have "checkpoint_pre ?s" using example_writable
    by (simp add: checkpoint_pre_def wal_init_empty SEG_LIMIT_def manifest_ok_def manifest_empty_def)
  from checkpoint_then_recover [OF this, of "''now''"] show ?thesis by fastforce
qed

end
