(* ===== verification/Mvcc.thy ===== *)
theory Mvcc
  imports Prelude
begin

text \<open>
  Snapshots and row versions (\<open>storage/mvcc.py\<close>): a row is visible to a snapshot when it was
  created at or below the snapshot's sequence number and not deleted by then.
\<close>

record snapshot_id =
  lsn_high :: int
  snap_name :: "string option"

definition SnapshotId :: "int \<Rightarrow> string option \<Rightarrow> snapshot_id result" where
  "SnapshotId lsn nm =
     (if lsn < 0 then raise_code ''CDB-8001'' else Inr \<lparr>lsn_high = lsn, snap_name = nm\<rparr>)"

definition snapshot_str :: "snapshot_id \<Rightarrow> string" where
  "snapshot_str s =
     (case snap_name s of
        Some (c # cs) \<Rightarrow> ''snap:'' @ (c # cs) @ ''@'' @ int_str (lsn_high s)
      | _ \<Rightarrow> ''snap:@'' @ int_str (lsn_high s))"

record row_version =
  created_lsn :: int
  deleted_lsn :: "int option"

definition visible_to :: "row_version \<Rightarrow> snapshot_id \<Rightarrow> bool" where
  "visible_to v snap =
     (if created_lsn v > lsn_high snap then False
      else \<not> (deleted_lsn v \<noteq> None \<and> the (deleted_lsn v) \<le> lsn_high snap))"

definition visibility_mask :: "row_version list \<Rightarrow> snapshot_id \<Rightarrow> bool list" where
  "visibility_mask versions snap = map (\<lambda>v. visible_to v snap) versions"

text \<open>
  The visible window: exactly the snapshots from the creation up to, excluding, the deletion.
  A writer that only stamps numbers above a snapshot's cannot change what it sees.
\<close>

lemma visible_to_window:
  "visible_to v s \<longleftrightarrow> created_lsn v \<le> lsn_high s
     \<and> (case deleted_lsn v of None \<Rightarrow> True | Some d \<Rightarrow> lsn_high s < d)"
  by (auto simp: visible_to_def split: option.splits)

text \<open>\<open>v'\<close> is what a later writer may make of the row \<open>v\<close>: the same row, or the row deleted.\<close>

definition later_version :: "int \<Rightarrow> row_version \<Rightarrow> row_version \<Rightarrow> bool" where
  "later_version lsn v v' \<longleftrightarrow>
     v' = v \<or> deleted_lsn v = None \<and> (\<exists>d > lsn. v' = v\<lparr>deleted_lsn := Some d\<rparr>)"

lemma visibility_mask_stable:
  assumes "list_all2 (later_version (lsn_high s)) vs vs'" and "\<forall>v \<in> set new. lsn_high s < created_lsn v"
  shows "visibility_mask (vs' @ new) s = visibility_mask vs s @ replicate (length new) False"
proof -
  have "visibility_mask vs' s = visibility_mask vs s" using assms(1)
    by (induction rule: list_all2_induct)
      (auto simp: visibility_mask_def visible_to_window later_version_def)
  moreover have "visibility_mask new s = replicate (length new) False" using assms(2)
    by (induction new) (auto simp: visibility_mask_def visible_to_window)
  ultimately show ?thesis by (simp add: visibility_mask_def)
qed

end
