(* ===== verification/Tx.thy ===== *)
theory Tx
  imports Wal_Theorems Mvcc
begin

text \<open>
  Transactions (\<open>tx/manager.py\<close>): BEGIN, COMMIT and ROLLBACK over the write-ahead log with
  write-write conflict detection. The key of a write is of any type. The set of writes of a
  transaction is a list without duplicates. The lock makes each operation one step.
\<close>

definition BEGIN_KIND :: string where "BEGIN_KIND = ''TX_BEGIN''"
definition COMMIT_KIND :: string where "COMMIT_KIND = ''TX_COMMIT''"
definition ROLLBACK_KIND :: string where "ROLLBACK_KIND = ''TX_ABORT''"

text \<open>\<open>json.dumps\<close> of a flat dictionary of integers.\<close>

fun dumps_items :: "(string \<times> int) list \<Rightarrow> string" where
  "dumps_items [] = []"
| "dumps_items [(k, v)] = [CHR 0x22] @ k @ [CHR 0x22] @ '': '' @ int_str v"
| "dumps_items ((k, v) # kv # kvs) = [CHR 0x22] @ k @ [CHR 0x22] @ '': '' @ int_str v @ '', '' @ dumps_items (kv # kvs)"

definition dumps_ints :: "(string \<times> int) list \<Rightarrow> bytes" where
  "dumps_ints kvs = utf8_encode (''{'' @ dumps_items kvs @ ''}'')"

record 'k transaction =
  tx_id :: nat
  tx_snapshot :: snapshot_id
  tx_writes :: "(string \<times> 'k) list"
  tx_committed_lsn :: "nat option"

definition record_write :: "'k transaction \<Rightarrow> string \<Rightarrow> 'k \<Rightarrow> 'k transaction" where
  "record_write tx table key =
     tx\<lparr>tx_writes := (if (table, key) \<in> set (tx_writes tx) then tx_writes tx
                      else tx_writes tx @ [(table, key)])\<rparr>"

record 'k tx_manager =
  tm_wal :: wal
  tm_next_tx :: nat
  tm_committed_writes :: "(string \<times> 'k, nat) dict"

definition manager_init :: "wal \<Rightarrow> 'k tx_manager" where
  "manager_init w = \<lparr>tm_wal = w, tm_next_tx = 1, tm_committed_writes = []\<rparr>"

definition tx_begin :: "'k tx_manager \<Rightarrow> snapshot_id option \<Rightarrow> 'k transaction result \<times> 'k tx_manager" where
  "tx_begin m snapshot =
     (let id = tm_next_tx m;
          m1 = m\<lparr>tm_next_tx := tm_next_tx m + 1\<rparr>
      in
      case (case snapshot of Some s \<Rightarrow> Inr s | None \<Rightarrow> SnapshotId (int (w_last_lsn (tm_wal m))) None) of
        Inl e \<Rightarrow> (Inl e, m1)
      | Inr snap \<Rightarrow>
          (case wal_append (tm_wal m1) BEGIN_KIND
                  (dumps_ints [(''tx_id'', int id), (''snapshot_lsn'', lsn_high snap)]) of
             (Inl e, w) \<Rightarrow> (Inl e, m1\<lparr>tm_wal := w\<rparr>)
           | (Inr _, w) \<Rightarrow>
               (Inr \<lparr>tx_id = id, tx_snapshot = snap, tx_writes = [], tx_committed_lsn = None\<rparr>,
                m1\<lparr>tm_wal := w\<rparr>)))"

definition conflicting :: "'k tx_manager \<Rightarrow> 'k transaction \<Rightarrow> string \<times> 'k \<Rightarrow> bool" where
  "conflicting m tx key =
     (case map_of (tm_committed_writes m) key of
        None \<Rightarrow> False
      | Some last_committed \<Rightarrow> lsn_high (tx_snapshot tx) < int last_committed)"

definition tx_commit :: "'k tx_manager \<Rightarrow> 'k transaction \<Rightarrow> nat result \<times> 'k tx_manager \<times> 'k transaction" where
  "tx_commit m tx =
     (if list_ex (conflicting m tx) (tx_writes tx) then (raise_code ''CDB-8002'', m, tx)
      else
        (case wal_append (tm_wal m) COMMIT_KIND
                (dumps_ints [(''tx_id'', int (tx_id tx)), (''writes'', int (length (tx_writes tx)))]) of
           (Inl e, w) \<Rightarrow> (Inl e, m\<lparr>tm_wal := w\<rparr>, tx)
         | (Inr commit_lsn, w) \<Rightarrow>
             let tx' = tx\<lparr>tx_committed_lsn := Some commit_lsn\<rparr>;
                 m1 = m\<lparr>tm_wal := w,
                        tm_committed_writes :=
                          fold (\<lambda>key. AList.update key commit_lsn) (tx_writes tx) (tm_committed_writes m)\<rparr>
             in
             (case wal_flush (tm_wal m1) of
                (Inl e, w') \<Rightarrow> (Inl e, m1\<lparr>tm_wal := w'\<rparr>, tx')
              | (Inr _, w') \<Rightarrow> (Inr commit_lsn, m1\<lparr>tm_wal := w'\<rparr>, tx'))))"

definition tx_rollback :: "'k tx_manager \<Rightarrow> 'k transaction \<Rightarrow> nat result \<times> 'k tx_manager \<times> 'k transaction" where
  "tx_rollback m tx =
     (let tx' = tx\<lparr>tx_writes := []\<rparr> in
      case wal_append (tm_wal m) ROLLBACK_KIND (dumps_ints [(''tx_id'', int (tx_id tx))]) of
        (Inl e, w) \<Rightarrow> (Inl e, m\<lparr>tm_wal := w\<rparr>, tx')
      | (Inr lsn, w) \<Rightarrow>
          (case wal_flush w of
             (Inl e, w') \<Rightarrow> (Inl e, m\<lparr>tm_wal := w'\<rparr>, tx')
           | (Inr _, w') \<Rightarrow> (Inr lsn, m\<lparr>tm_wal := w'\<rparr>, tx')))"

text \<open>
  The context manager: the body of the \<open>with\<close> statement works on the manager and the
  transaction and may end in an exception.
\<close>

definition tx_transaction ::
  "'k tx_manager \<Rightarrow> snapshot_id option
     \<Rightarrow> ('k tx_manager \<Rightarrow> 'k transaction \<Rightarrow> 'k tx_manager \<times> 'k transaction \<times> py_error option)
     \<Rightarrow> unit result \<times> 'k tx_manager"
where
  "tx_transaction m snapshot body =
     (case tx_begin m snapshot of
        (Inl e, m1) \<Rightarrow> (Inl e, m1)
      | (Inr tx, m1) \<Rightarrow>
          (case body m1 tx of
             (m2, tx', Some exc) \<Rightarrow>
               (case tx_rollback m2 tx' of
                  (Inl e, m3, _) \<Rightarrow> (Inl e, m3)
                | (Inr _, m3, _) \<Rightarrow> (Inl exc, m3))
           | (m2, tx', None) \<Rightarrow>
               (case tx_commit m2 tx' of
                  (Inl e, m3, _) \<Rightarrow> (Inl e, m3)
                | (Inr _, m3, _) \<Rightarrow> (Inr (), m3))))"

section \<open>Histories\<close>

text \<open>
  A run of the manager: begins, commits, rollbacks and other appends to the same log, in any
  order, failing or not. The history lists the committed transactions, oldest first, with
  their snapshot, their writes and their commit number.
\<close>

type_synonym 'k commit_entry = "int \<times> (string \<times> 'k) list \<times> nat"

inductive tx_run :: "wal \<Rightarrow> 'k tx_manager \<Rightarrow> 'k commit_entry list \<Rightarrow> bool" for w0 :: wal where
  start: "tx_run w0 (manager_init w0) []"
| begin_step: "tx_run w0 m h \<Longrightarrow> tx_begin m snap = (r, m') \<Longrightarrow> tx_run w0 m' h"
| commit_step: "tx_run w0 m h \<Longrightarrow> tx_commit m tx = (Inr l, m', tx')
    \<Longrightarrow> tx_run w0 m' (h @ [(lsn_high (tx_snapshot tx), tx_writes tx, l)])"
| commit_fail: "tx_run w0 m h \<Longrightarrow> tx_commit m tx = (Inl e, m', tx') \<Longrightarrow> tx_run w0 m' h"
| rollback_step: "tx_run w0 m h \<Longrightarrow> tx_rollback m tx = (r, m', tx') \<Longrightarrow> tx_run w0 m' h"
| other_append: "tx_run w0 m h \<Longrightarrow> wal_append (tm_wal m) k p = (r, w) \<Longrightarrow> tx_run w0 (m\<lparr>tm_wal := w\<rparr>) h"

lemma flush_lsn: "wal_flush w = (r, w') \<Longrightarrow> w_last_lsn w' = w_last_lsn w"
  by (auto simp: wal_flush_def flush_segment_def Let_def split: if_splits)

lemma append_lsn_any:
  "wal_append w k p = (r, w') \<Longrightarrow> w_last_lsn w \<le> w_last_lsn w'
    \<and> (\<forall>n. r = Inr n \<longrightarrow> n = Suc (w_last_lsn w) \<and> w_last_lsn w' = n)"
  by (auto simp: wal_append_def flush_segment_def Let_def split: sum.splits if_splits prod.splits)

definition tx_inv :: "'k tx_manager \<Rightarrow> 'k commit_entry list \<Rightarrow> bool" where
  "tx_inv m h \<longleftrightarrow>
     (\<forall>key l. map_of (tm_committed_writes m) key = Some l \<longrightarrow> l \<le> w_last_lsn (tm_wal m))
     \<and> (\<forall>(s, ks, l) \<in> set h. l \<le> w_last_lsn (tm_wal m)
          \<and> (\<forall>key \<in> set ks. \<exists>l'. map_of (tm_committed_writes m) key = Some l' \<and> l \<le> l'))
     \<and> sorted_wrt (\<lambda>(s1, ks1, l1) (s2, ks2, l2). l1 < l2 \<and> (set ks1 \<inter> set ks2 \<noteq> {} \<longrightarrow> int l1 \<le> s2)) h"

lemma tx_invD:
  "tx_inv m h \<Longrightarrow> map_of (tm_committed_writes m) key = Some l \<Longrightarrow> l \<le> w_last_lsn (tm_wal m)"
  "tx_inv m h \<Longrightarrow> (s, ks, l) \<in> set h \<Longrightarrow> l \<le> w_last_lsn (tm_wal m)"
  "tx_inv m h \<Longrightarrow> (s, ks, l) \<in> set h \<Longrightarrow> key \<in> set ks
    \<Longrightarrow> \<exists>l'. map_of (tm_committed_writes m) key = Some l' \<and> l \<le> l'"
  by (cases key; auto simp: tx_inv_def)+

lemma fold_update_lookup:
  "map_of (fold (\<lambda>key. AList.update key l) ks d) key = (if key \<in> set ks then Some l else map_of d key)"
  by (induction ks arbitrary: d) (auto simp: dict_lookup_update)

lemma tx_inv_wal: "tx_inv m h \<Longrightarrow> w_last_lsn (tm_wal m) \<le> w_last_lsn w \<Longrightarrow> tx_inv (m\<lparr>tm_wal := w\<rparr>) h"
  unfolding tx_inv_def by (simp add: case_prod_unfold) (meson order_trans)

lemma tx_inv_next [simp]: "tx_inv (m\<lparr>tm_next_tx := n\<rparr>) h = tx_inv m h"
  by (simp add: tx_inv_def)

text \<open>What a commit that gets past the conflict check does.\<close>

lemma tx_inv_commit:
  assumes inv: "tx_inv m h" and free: "\<not> list_ex (conflicting m tx) (tx_writes tx)"
    and lsn: "l = Suc (w_last_lsn (tm_wal m))" "w_last_lsn w = l"
  defines "m' \<equiv> m\<lparr>tm_wal := w, tm_committed_writes :=
      fold (\<lambda>key. AList.update key l) (tx_writes tx) (tm_committed_writes m)\<rparr>"
  shows "tx_inv m' h" and "tx_inv m' (h @ [(lsn_high (tx_snapshot tx), tx_writes tx, l)])"
proof -
  let ?s = "lsn_high (tx_snapshot tx)" and ?ks = "tx_writes tx"
  have below: "l' \<le> l" if "map_of (tm_committed_writes m) key = Some l'" for key l'
    using tx_invD(1) [OF inv that] lsn by simp
  have old: "l1 < l \<and> (set ks1 \<inter> set ?ks \<noteq> {} \<longrightarrow> int l1 \<le> ?s)" if "(s1, ks1, l1) \<in> set h" for s1 ks1 l1
  proof (intro conjI impI)
    show "l1 < l" using tx_invD(2) [OF inv that] lsn by simp
    assume "set ks1 \<inter> set ?ks \<noteq> {}"
    then obtain key where key: "key \<in> set ks1" "key \<in> set ?ks" by blast
    with tx_invD(3) [OF inv that] obtain l' where
      "map_of (tm_committed_writes m) key = Some l'" "l1 \<le> l'" by blast
    with free key show "int l1 \<le> ?s" by (fastforce simp: list_ex_iff conflicting_def)
  qed
  show 1: "tx_inv m' h"
    using inv lsn below unfolding tx_inv_def m'_def
    by (auto simp: fold_update_lookup)
  show "tx_inv m' (h @ [(?s, ?ks, l)])"
    using 1 old lsn unfolding tx_inv_def m'_def
    by (auto simp: sorted_wrt_append fold_update_lookup)
qed

lemma tx_commit_cases:
  assumes "tx_commit m tx = (r, m', tx')"
  obtains (conflict) "r = raise_code ''CDB-8002''" "m' = m"
  | (not_logged) e w where "r = Inl e" "m' = m\<lparr>tm_wal := w\<rparr>" "w_last_lsn (tm_wal m) \<le> w_last_lsn w"
  | (logged) l w where "\<not> list_ex (conflicting m tx) (tx_writes tx)"
      "l = Suc (w_last_lsn (tm_wal m))" "w_last_lsn w = l" "\<And>n. r = Inr n \<Longrightarrow> n = l"
      "m' = m\<lparr>tm_wal := w, tm_committed_writes :=
        fold (\<lambda>key. AList.update key l) (tx_writes tx) (tm_committed_writes m)\<rparr>"
proof (cases "list_ex (conflicting m tx) (tx_writes tx)")
  case True
  with assms conflict show ?thesis by (simp add: tx_commit_def)
next
  case False
  obtain ra w where a: "wal_append (tm_wal m) COMMIT_KIND
      (dumps_ints [(''tx_id'', int (tx_id tx)), (''writes'', int (length (tx_writes tx)))]) = (ra, w)"
    by fastforce
  obtain rf w' where f: "wal_flush w = (rf, w')" by fastforce
  show ?thesis
  proof (cases ra)
    case (Inl e)
    with False a assms append_lsn_any [OF a] show ?thesis
      by (intro not_logged [of e w]) (auto simp: tx_commit_def)
  next
    case (Inr l)
    with False a f assms append_lsn_any [OF a] flush_lsn [OF f] show ?thesis
      by (intro logged [of l w']) (auto simp: tx_commit_def Let_def split: sum.splits)
  qed
qed

lemma tx_run_inv: "tx_run w0 m h \<Longrightarrow> tx_inv m h"
proof (induction rule: tx_run.induct)
  case start
  show ?case by (simp add: tx_inv_def manager_init_def)
next
  case (begin_step m h snap r m')
  then show ?case
    by (auto simp: tx_begin_def Let_def dest!: append_lsn_any intro: tx_inv_wal
        split: sum.splits prod.splits option.splits)
next
  case (commit_step m h tx l m' tx')
  from commit_step.hyps(2) show ?case
    by (cases rule: tx_commit_cases) (use tx_inv_commit(2) [OF commit_step.IH] in auto)
next
  case (commit_fail m h tx e m' tx')
  from commit_fail.hyps(2) show ?case
    by (cases rule: tx_commit_cases)
      (use commit_fail.IH tx_inv_commit(1) [OF commit_fail.IH] tx_inv_wal [OF commit_fail.IH] in auto)
next
  case (rollback_step m h tx r m' tx')
  then show ?case
    by (auto simp: tx_rollback_def Let_def dest!: append_lsn_any flush_lsn intro!: tx_inv_wal
        split: sum.splits prod.splits)
next
  case (other_append m h k p r w)
  then show ?case by (auto dest!: append_lsn_any intro: tx_inv_wal)
qed

section \<open>Durability of a commit\<close>

lemma py_str_kinds [simp]: "py_str BEGIN_KIND" "py_str COMMIT_KIND" "py_str ROLLBACK_KIND"
  unfolding BEGIN_KIND_def COMMIT_KIND_def ROLLBACK_KIND_def by (rule py_str_ascii, simp)+

definition commit_record :: "nat \<Rightarrow> 'k transaction \<Rightarrow> wal_record" where
  "commit_record l tx =
     \<lparr>wr_lsn = l, wr_prev_lsn = l - 1, wr_kind = COMMIT_KIND,
      wr_payload = dumps_ints [(''tx_id'', int (tx_id tx)), (''writes'', int (length (tx_writes tx)))]\<rparr>"

lemma tx_commit_Inr:
  assumes "tx_commit m tx = (Inr l, m', tx')"
  obtains w where "wal_append (tm_wal m) COMMIT_KIND
      (dumps_ints [(''tx_id'', int (tx_id tx)), (''writes'', int (length (tx_writes tx)))]) = (Inr l, w)"
    and "wal_flush w = (Inr (), tm_wal m')"
  using assms by (auto simp: tx_commit_def Let_def split: if_splits sum.splits prod.splits)

lemma tx_commit_total:
  assumes ok: "w_fsync_ok (tm_wal m)" and free: "\<not> list_ex (conflicting m tx) (tx_writes tx)"
    and wf: "wf_record (commit_record (Suc (w_last_lsn (tm_wal m))) tx)"
  shows "\<exists>m' tx'. tx_commit m tx = (Inr (Suc (w_last_lsn (tm_wal m))), m', tx')"
proof -
  let ?p = "dumps_ints [(''tx_id'', int (tx_id tx)), (''writes'', int (length (tx_writes tx)))]"
  have "wf_record (new_record (tm_wal m) COMMIT_KIND ?p)"
    using wf by (simp add: commit_record_def new_record_def)
  from wal_append_succeeds [OF _ this] ok obtain w where
    a: "wal_append (tm_wal m) COMMIT_KIND ?p = (Inr (Suc (w_last_lsn (tm_wal m))), w)" by auto
  have "w_fsync_ok w" using wal_append_fsync [OF _ a] ok by simp
  from wal_flush_total [OF this] obtain w' where "wal_flush w = (Inr (), w')" ..
  with a free show ?thesis by (simp add: tx_commit_def Let_def)
qed

section \<open>Properties\<close>

text \<open>
  C10: first committer wins. In every run of the manager, with begins, commits, rollbacks and
  other log appends interleaved in any way, two committed transactions that wrote a common key
  do not overlap: the earlier one's commit number is visible in the snapshot of the later one.
  Commit numbers increase in commit order.
\<close>

theorem no_lost_updates:
  assumes "tx_run w0 m h" "i < j" "j < length h"
    and "h ! i = (si, ksi, li)" "h ! j = (sj, ksj, lj)"
  shows "li < lj \<and> (set ksi \<inter> set ksj \<noteq> {} \<longrightarrow> int li \<le> sj)"
proof -
  from tx_run_inv [OF assms(1)] have
    "sorted_wrt (\<lambda>(s1, ks1, l1) (s2, ks2, l2). l1 < l2 \<and> (set ks1 \<inter> set ks2 \<noteq> {} \<longrightarrow> int l1 \<le> s2)) h"
    by (simp add: tx_inv_def)
  from sorted_wrt_nth_less [OF this assms(2,3)] assms(4,5) show ?thesis by simp
qed

definition example_tx :: "nat \<Rightarrow> int \<Rightarrow> nat transaction" where
  "example_tx i s = \<lparr>tx_id = i, tx_snapshot = \<lparr>lsn_high = s, snap_name = None\<rparr>,
     tx_writes = [(''t'', 7)], tx_committed_lsn = None\<rparr>"

lemma example_commit_wf:
  "l < 1000 \<Longrightarrow> i < 10 \<Longrightarrow> wf_record (commit_record l (example_tx i s))"
  by (simp add: commit_record_def wf_record_def example_tx_def dumps_ints_def int_str_def decimal.simps)
    (simp add: COMMIT_KIND_def)

lemma tx_commit_fields:
  assumes "tx_commit m tx = (Inr l, m', tx')"
  shows "w_last_lsn (tm_wal m') = l" "w_fsync_ok (tm_wal m') = w_fsync_ok (tm_wal m)"
    "tm_committed_writes m' = fold (\<lambda>key. AList.update key l) (tx_writes tx) (tm_committed_writes m)"
proof -
  from tx_commit_Inr [OF assms] obtain w where
    w: "wal_append (tm_wal m) COMMIT_KIND
      (dumps_ints [(''tx_id'', int (tx_id tx)), (''writes'', int (length (tx_writes tx)))]) = (Inr l, w)"
      "wal_flush w = (Inr (), tm_wal m')" .
  show "w_last_lsn (tm_wal m') = l" using flush_lsn [OF w(2)] append_lsn_any [OF w(1)] by simp
  show "w_fsync_ok (tm_wal m') = w_fsync_ok (tm_wal m)" 
    using wal_append_fsync [OF _ w(1)] wal_flush_fsync [OF w(2)] by simp
  show "tm_committed_writes m' = fold (\<lambda>key. AList.update key l) (tx_writes tx) (tm_committed_writes m)"
    using assms by (auto simp: tx_commit_def Let_def split: if_splits sum.splits prod.splits)
qed

theorem no_lost_updates_witness:
  "\<exists>m h. tx_run (wal_init [] 1000 SyncGroup True 0) (m :: nat tx_manager) h
    \<and> map (snd \<circ> snd) h = [1, 2] \<and> (1 :: int) \<le> fst (h ! 1)"
proof -
  let ?w = "wal_init [] 1000 SyncGroup True 0" and ?m0 = "manager_init (wal_init [] 1000 SyncGroup True 0) :: nat tx_manager"
  let ?t1 = "example_tx 1 0" and ?t2 = "example_tx 2 1"
  have "\<exists>m' tx'. tx_commit ?m0 ?t1 = (Inr (Suc (w_last_lsn (tm_wal ?m0))), m', tx')"
    by (rule tx_commit_total) (simp_all add: manager_init_def conflicting_def example_commit_wf list_ex_iff)
  then obtain m1 tx1 where 1: "tx_commit ?m0 ?t1 = (Inr 1, m1, tx1)" by (auto simp: manager_init_def)
  note f = tx_commit_fields [OF 1]
  have "\<exists>m' tx'. tx_commit m1 ?t2 = (Inr (Suc (w_last_lsn (tm_wal m1))), m', tx')"
    by (rule tx_commit_total)
      (simp_all add: f conflicting_def example_commit_wf list_ex_iff manager_init_def,
       simp add: example_tx_def)
  then obtain m2 tx2 where 2: "tx_commit m1 ?t2 = (Inr 2, m2, tx2)" by (auto simp: f)
  let ?h = "[(0, tx_writes ?t1, 1), (1, tx_writes ?t2, 2)]"
  from commit_step [OF start 1] have r1: "tx_run ?w m1 [(0, tx_writes ?t1, 1)]"
    by (simp add: example_tx_def)
  from commit_step [OF r1 2] have r: "tx_run ?w m2 ?h" by (simp add: example_tx_def)
  from no_lost_updates [OF r, of 0 1 0 "tx_writes ?t1" 1 1 "tx_writes ?t2" 2]
  have "(1 :: int) \<le> 1" by (simp add: example_tx_def)
  with r show ?thesis by (intro exI [of _ m2] exI [of _ ?h]) simp
qed

text \<open>
  A commit that returns is durable. When the log synchronises, after any crash the commit
  record is the last one a reader finds, and everything logged before it is there too.
\<close>

theorem commit_durable:
  assumes "wal_ok (tm_wal m)" "seg_room (tm_wal m) 2" "w_sync_mode (tm_wal m) \<noteq> SyncOff"
    and "tx_commit m tx = (Inr l, m', tx')"
  shows "iter_all_records (crash (tm_wal m') n) = (wal_log (tm_wal m) @ [commit_record l tx], None)
    \<and> tx_committed_lsn tx' = Some l \<and> wal_ok (tm_wal m')"
proof -
  from tx_commit_Inr [OF assms(4)] obtain w where
    a: "wal_append (tm_wal m) COMMIT_KIND
      (dumps_ints [(''tx_id'', int (tx_id tx)), (''writes'', int (length (tx_writes tx)))]) = (Inr l, w)"
      and f: "wal_flush w = (Inr (), tm_wal m')" .
  have room: "seg_room (tm_wal m) (Suc (Suc 0))" using assms(2) by (simp add: numeral_2_eq_2)
  note d = wal.append_flush_durable [OF assms(1) room _ assms(3) a f]
  have "wal_log (tm_wal m') = wal_log (tm_wal m) @ [commit_record l tx]"
    using d by (simp add: commit_record_def)
  moreover obtain rss where "wal_inv (tm_wal m') rss []"
  proof -
    from wal.append_ok [OF assms(1) room _ a] obtain rss prs where "wal_inv w rss prs"
      by (auto simp: wal_ok_def)
    from wal_flush_pending [OF this f] wal_append_sync [OF _ a] assms(3) that show ?thesis by auto
  qed
  moreover have "tx_committed_lsn tx' = Some l"
    using assms(4) by (auto simp: tx_commit_def Let_def split: if_splits sum.splits prod.splits)
  ultimately show ?thesis using d crash_flushed by auto
qed

theorem commit_durable_witness:
  "\<exists>m' tx'. tx_commit (manager_init (wal_init [] 1000 SyncGroup True 0)) (example_tx 1 0) = (Inr 1, m', tx')
    \<and> iter_all_records (crash (tm_wal m') 9) = ([commit_record 1 (example_tx 1 0)], None)"
proof -
  let ?m0 = "manager_init (wal_init [] 1000 SyncGroup True 0) :: nat tx_manager"
  have "\<exists>m' tx'. tx_commit ?m0 (example_tx 1 0) = (Inr (Suc (w_last_lsn (tm_wal ?m0))), m', tx')"
    by (rule tx_commit_total) (simp_all add: manager_init_def conflicting_def example_commit_wf list_ex_iff)
  then obtain m1 tx1 where 1: "tx_commit ?m0 (example_tx 1 0) = (Inr 1, m1, tx1)" by (auto simp: manager_init_def)
  have "wal_ok (tm_wal ?m0)" "seg_room (tm_wal ?m0) 2" "w_sync_mode (tm_wal ?m0) \<noteq> SyncOff"
    "wal_log (tm_wal ?m0) = []"
    by (simp_all add: manager_init_def wal_init_empty SEG_LIMIT_def)
  with commit_durable [OF _ _ _ 1, of 9] 1 show ?thesis by auto
qed

end
