(* ===== verification/Snapshot.thy ===== *)
theory Snapshot
  imports Bundle Mvcc
begin

text \<open>
  The catalogue of named snapshots (\<open>storage/snapshot.py\<close>) and the resolution of
  \<open>AS_OF\<close> clauses (\<open>exec/as_of.py\<close>). The registry lives in a JSON file of the bundle and is
  read and rewritten by every operation.
\<close>

section \<open>The registry\<close>

record snapshot_entry =
  se_name :: string
  se_lsn_high :: int
  se_created_at :: string
  se_refcount :: int

type_synonym registry = "(string, snapshot_entry) dict"

definition entry_to_json :: "snapshot_entry \<Rightarrow> json" where
  "entry_to_json e =
     JObj [(''name'', JStr (se_name e)), (''lsn_high'', JInt (se_lsn_high e)),
           (''created_at'', JStr (se_created_at e)), (''refcount'', JInt (se_refcount e))]"

definition registry_to_json :: "registry \<Rightarrow> json" where
  "registry_to_json reg = JObj [(''entries'', JArr (map (\<lambda>(_, e). entry_to_json e) reg))]"

definition entry_from_json :: "json \<Rightarrow> snapshot_entry result" where
  "entry_from_json raw =
     rbind (json_item raw ''name'') (\<lambda>n.
     rbind (json_item raw ''lsn_high'') (\<lambda>l. rbind (json_int l) (\<lambda>lsn.
     rbind (json_item raw ''created_at'') (\<lambda>c.
     rbind (json_get raw ''refcount'' (JInt 1)) (\<lambda>r. rbind (json_int r) (\<lambda>refs.
     Inr \<lparr>se_name = json_str n, se_lsn_high = lsn, se_created_at = json_str c, se_refcount = refs\<rparr>))))))"

definition registry_from_json :: "json \<Rightarrow> registry result" where
  "registry_from_json v =
     rbind (json_get v ''entries'' (JArr [])) (\<lambda>es.
     rbind (json_iter es) (\<lambda>raws.
     rbind (rmap entry_from_json raws) (\<lambda>entries.
     Inr (fold (\<lambda>e. AList.update (se_name e) e) entries []))))"

definition registry_path :: "crcl_bundle \<Rightarrow> path" where
  "registry_path b = b_path b @ [''snapshots'', ''_registry.json'']"

definition load_registry :: "fs \<Rightarrow> crcl_bundle \<Rightarrow> registry result" where
  "load_registry fs b =
     (if \<not> is_file fs (registry_path b) then Inr []
      else rbind (read_json fs (registry_path b)) registry_from_json)"

definition save_registry :: "fs \<Rightarrow> crcl_bundle \<Rightarrow> registry \<Rightarrow> unit result \<times> fs" where
  "save_registry fs b reg = write_json_atomic (registry_to_json reg) fs (registry_path b)"

section \<open>Operations\<close>

text \<open>Rewriting the manifest's list of snapshot names, shared by create and release.\<close>

definition mirror_snapshots :: "fs \<Rightarrow> crcl_bundle \<Rightarrow> registry \<Rightarrow> unit result \<times> fs \<times> crcl_bundle" where
  "mirror_snapshots fs b reg =
     (let m = (b_manifest b)\<lparr>snapshots := sort (dict_keys reg)\<rparr> in
      case manifest_write_atomic m fs (manifest_path b) of
        (Inl e, fs') \<Rightarrow> (Inl e, fs', b)
      | (Inr _, fs') \<Rightarrow> (Inr (), fs', b\<lparr>b_manifest := m\<rparr>))"

definition create_snapshot ::
  "fs \<Rightarrow> crcl_bundle \<Rightarrow> string \<Rightarrow> string \<Rightarrow> int option \<Rightarrow> snapshot_id result \<times> fs \<times> crcl_bundle"
where
  "create_snapshot fs b now name lsn_opt =
     (if name = [] then (raise_code ''CDB-8011'', fs, b)
      else
        (case load_registry fs b of
           Inl e \<Rightarrow> (Inl e, fs, b)
         | Inr reg \<Rightarrow>
             if map_of reg name \<noteq> None then (raise_code ''CDB-8012'', fs, b)
             else
               let lsn = (case lsn_opt of None \<Rightarrow> last_lsn (b_manifest b) | Some l \<Rightarrow> l);
                   entry = \<lparr>se_name = name, se_lsn_high = lsn, se_created_at = now, se_refcount = 1\<rparr>;
                   reg' = AList.update name entry reg
               in
               (case save_registry fs b reg' of
                  (Inl e, fs1) \<Rightarrow> (Inl e, fs1, b)
                | (Inr _, fs1) \<Rightarrow>
                    (case mirror_snapshots fs1 b reg' of
                       (Inl e, fs2, b2) \<Rightarrow> (Inl e, fs2, b2)
                     | (Inr _, fs2, b2) \<Rightarrow> (SnapshotId lsn (Some name), fs2, b2)))))"

definition peek_snapshot :: "fs \<Rightarrow> crcl_bundle \<Rightarrow> string \<Rightarrow> snapshot_id result" where
  "peek_snapshot fs b name =
     rbind (load_registry fs b) (\<lambda>reg.
       case map_of reg name of
         None \<Rightarrow> raise_code ''CDB-8013''
       | Some entry \<Rightarrow> SnapshotId (se_lsn_high entry) (Some name))"

definition open_snapshot :: "fs \<Rightarrow> crcl_bundle \<Rightarrow> string \<Rightarrow> snapshot_id result \<times> fs" where
  "open_snapshot fs b name =
     (case load_registry fs b of
        Inl e \<Rightarrow> (Inl e, fs)
      | Inr reg \<Rightarrow>
          (case map_of reg name of
             None \<Rightarrow> (raise_code ''CDB-8013'', fs)
           | Some entry \<Rightarrow>
               (case save_registry fs b
                       (AList.update name (entry\<lparr>se_refcount := se_refcount entry + 1\<rparr>) reg) of
                  (Inl e, fs') \<Rightarrow> (Inl e, fs')
                | (Inr _, fs') \<Rightarrow> (SnapshotId (se_lsn_high entry) (Some name), fs'))))"

definition release_snapshot :: "fs \<Rightarrow> crcl_bundle \<Rightarrow> string \<Rightarrow> bool result \<times> fs \<times> crcl_bundle" where
  "release_snapshot fs b name =
     (case load_registry fs b of
        Inl e \<Rightarrow> (Inl e, fs, b)
      | Inr reg \<Rightarrow>
          (case map_of reg name of
             None \<Rightarrow> (raise_code ''CDB-8013'', fs, b)
           | Some entry \<Rightarrow>
               let entry' = entry\<lparr>se_refcount := se_refcount entry - 1\<rparr> in
               if se_refcount entry' \<le> 0 then
                 let reg' = AList.delete name reg in
                 (case save_registry fs b reg' of
                    (Inl e, fs1) \<Rightarrow> (Inl e, fs1, b)
                  | (Inr _, fs1) \<Rightarrow>
                      (case mirror_snapshots fs1 b reg' of
                         (Inl e, fs2, b2) \<Rightarrow> (Inl e, fs2, b2)
                       | (Inr _, fs2, b2) \<Rightarrow> (Inr True, fs2, b2)))
               else
                 (case save_registry fs b (AList.update name entry' reg) of
                    (Inl e, fs1) \<Rightarrow> (Inl e, fs1, b)
                  | (Inr _, fs1) \<Rightarrow> (Inr False, fs1, b))))"

definition list_snapshots :: "fs \<Rightarrow> crcl_bundle \<Rightarrow> snapshot_entry list result" where
  "list_snapshots fs b =
     rbind (load_registry fs b) (\<lambda>reg. Inr (sort_key (\<lambda>e. (se_lsn_high e, se_name e)) (map snd reg)))"

section \<open>\<open>AS_OF\<close>\<close>

record as_of =
  as_of_kind :: "string option"
  as_of_value :: string

text \<open>\<open>str.upper\<close> on ASCII letters; the two kinds it is compared with are ASCII.\<close>

definition ascii_upper :: "string \<Rightarrow> string" where
  "ascii_upper s = map (\<lambda>c. if 97 \<le> (of_char c :: nat) \<and> (of_char c :: nat) \<le> 122
                             then char_of (of_char c - 32 :: nat) else c) s"

definition resolve_as_of :: "fs \<Rightarrow> crcl_bundle \<Rightarrow> as_of option \<Rightarrow> snapshot_id option result" where
  "resolve_as_of fs b node =
     (case node of
        None \<Rightarrow> Inr None
      | Some n \<Rightarrow>
          let kind = ascii_upper (case as_of_kind n of None \<Rightarrow> [] | Some k \<Rightarrow> k) in
          if kind = ''SNAPSHOT'' then rbind (peek_snapshot fs b (as_of_value n)) (\<lambda>s. Inr (Some s))
          else raise_code ''CDB-6021'')"

section \<open>Lemmas\<close>

text \<open>A registry as the operations build it: keyed by name.\<close>

definition registry_ok :: "registry \<Rightarrow> bool" where
  "registry_ok reg \<longleftrightarrow> distinct (dict_keys reg) \<and> (\<forall>(k, e) \<in> set reg. se_name e = k)"

lemma registry_ok_update: "registry_ok reg \<Longrightarrow> se_name e = k \<Longrightarrow> registry_ok (AList.update k e reg)"
  using set_update_subset [of k e reg] by (auto simp: registry_ok_def distinct_update)

lemma registry_ok_delete: "registry_ok reg \<Longrightarrow> registry_ok (AList.delete k reg)"
  using set_delete_subset [of k reg] by (auto simp: registry_ok_def distinct_delete)

lemma entry_round_trip: "entry_from_json (sort_keys (entry_to_json e)) = Inr e"
  by (simp add: entry_from_json_def entry_to_json_def json_simps)

lemma entry_to_json_wf [simp]: "json_wf (entry_to_json e)"
  by (simp add: entry_to_json_def)

lemma registry_entries:
  assumes "registry_ok reg"
  shows "map (\<lambda>e. (se_name e, e)) (map snd reg) = reg"
proof -
  have "map (\<lambda>p. (se_name (snd p), snd p)) reg = reg"
    using assms by (intro map_idI) (auto simp: registry_ok_def)
  then show ?thesis by (simp add: comp_def)
qed

lemma registry_round_trip:
  assumes ok: "registry_ok reg"
  shows "registry_from_json (sort_keys (registry_to_json reg)) = Inr reg"
proof -
  let ?es = "map snd reg"
  have "rmap entry_from_json (map (\<lambda>e. sort_keys (entry_to_json e)) ?es) = Inr ?es"
    by (rule rmap_id) (simp add: entry_round_trip)
  moreover have "map se_name ?es = dict_keys reg"
    using arg_cong [OF registry_entries [OF ok], of "map fst"] by (simp add: comp_def)
  then have "distinct (map se_name ?es)" using ok by (simp only: registry_ok_def)
  then have "fold (\<lambda>e. AList.update (se_name e) e) ?es [] = [] @ map (\<lambda>e. (se_name e, e)) ?es"
    by (rule fold_update_distinct) simp
  then have "fold (\<lambda>e. AList.update (se_name e) e) ?es [] = reg"
    by (simp only: registry_entries [OF ok] append_Nil)
  ultimately show ?thesis
    by (simp add: registry_from_json_def registry_to_json_def json_simps comp_def case_prod_unfold list_all_iff)
qed

section \<open>The catalogue as a map\<close>

text \<open>
  The bundle's directories exist and no directory stands in the way of its metadata files.
\<close>

definition dirs_ok :: "fs \<Rightarrow> path \<Rightarrow> bool" where
  "dirs_ok fs p \<longleftrightarrow> (\<forall>k. 0 < k \<and> k \<le> length p \<longrightarrow> fs (take k p) = Some Dir)"

lemma mkdirs_dirs_ok: "dirs_ok fs (pre @ ns) \<Longrightarrow> mkdirs fs pre ns = Inr fs"
proof (induction ns arbitrary: pre)
  case (Cons n ns)
  then have "fs (take (Suc (length pre)) (pre @ n # ns)) = Some Dir"
    unfolding dirs_ok_def by (metis length_append length_Cons less_eq_Suc_le less_add_same_cancel1 zero_less_Suc)
  with Cons.IH [of "pre @ [n]"] Cons.prems show ?case by simp
qed simp

lemma dirs_ok_butlast: "dirs_ok fs (p @ [n]) \<Longrightarrow> dirs_ok fs p"
  unfolding dirs_ok_def by (metis append_Nil2 diff_is_0_eq le_SucI length_append_singleton take0 take_append)

lemma dirs_ok_upd:
  assumes "dirs_ok fs p" "\<not> prefix q p"
  shows "dirs_ok (fs(q := x)) p"
  using assms by (auto simp: dirs_ok_def take_is_prefix)

lemma write_file_atomic_ready:
  assumes "dirs_ok fs (butlast p)" "p \<noteq> []" "fs p \<noteq> Some Dir" "fs (tmp_path p) \<noteq> Some Dir"
  shows "write_file_atomic c fs p = (Inr (), fs(p \<mapsto> c, tmp_path p := None))"
  using assms mkdirs_dirs_ok [of fs "[]" "butlast p"]
  by (auto simp: write_file_atomic_def Let_def fun_eq_iff)

definition bundle_ready :: "fs \<Rightarrow> crcl_bundle \<Rightarrow> bool" where
  "bundle_ready fs b \<longleftrightarrow> dirs_ok fs (b_path b @ [''snapshots''])
     \<and> fs (registry_path b) \<noteq> Some Dir \<and> fs (tmp_path (registry_path b)) \<noteq> Some Dir
     \<and> fs (manifest_path b) \<noteq> Some Dir \<and> fs (tmp_path (manifest_path b)) \<noteq> Some Dir"

lemma registry_paths:
  "butlast (registry_path b) = b_path b @ [''snapshots'']" "butlast (manifest_path b) = b_path b"
  "registry_path b \<noteq> []" "manifest_path b \<noteq> []"
  "\<not> prefix (registry_path b) (b_path b @ [''snapshots''])"
  "\<not> prefix (tmp_path (registry_path b)) (b_path b @ [''snapshots''])"
  "\<not> prefix (manifest_path b) (b_path b @ [''snapshots''])"
  "\<not> prefix (tmp_path (manifest_path b)) (b_path b @ [''snapshots''])"
  "manifest_path b \<noteq> registry_path b" "tmp_path (manifest_path b) \<noteq> registry_path b"
  "manifest_path b \<noteq> tmp_path (registry_path b)" "tmp_path (manifest_path b) \<noteq> tmp_path (registry_path b)"
  by (simp_all add: registry_path_def manifest_path_def tmp_path_def MANIFEST_NAME_def butlast_append)

text \<open>The catalogue: the number and the reference count of every named snapshot.\<close>

type_synonym catalogue = "string \<rightharpoonup> int \<times> int"

definition reg_view :: "registry \<Rightarrow> catalogue" where
  "reg_view reg name = map_option (\<lambda>e. (se_lsn_high e, se_refcount e)) (map_of reg name)"

text \<open>What the files hold: a well-formed registry with this view.\<close>

definition represents :: "fs \<Rightarrow> crcl_bundle \<Rightarrow> catalogue \<Rightarrow> bool" where
  "represents fs b c \<longleftrightarrow> bundle_ready fs b
     \<and> (\<exists>reg. load_registry fs b = Inr reg \<and> registry_ok reg \<and> reg_view reg = c)"

lemma save_registry_ready:
  assumes ready: "bundle_ready fs b" and ok: "registry_ok reg"
  obtains fs' where "save_registry fs b reg = (Inr (), fs')" "load_registry fs' b = Inr reg" "bundle_ready fs' b"
proof -
  let ?p = "registry_path b"
  let ?fs = "fs(?p \<mapsto> JsonFile (sort_keys (registry_to_json reg)), tmp_path ?p := None)"
  have s: "save_registry fs b reg = (Inr (), ?fs)"
    unfolding save_registry_def
    by (rule write_file_atomic_ready) (use ready in \<open>simp_all add: bundle_ready_def registry_paths\<close>)
  have "load_registry ?fs b = Inr reg"
    by (simp add: load_registry_def is_file_def read_json_def registry_round_trip [OF ok] registry_paths)
  moreover have "bundle_ready ?fs b"
    using ready by (auto simp: bundle_ready_def registry_paths intro!: dirs_ok_upd simp del: prefix_snoc)
  ultimately show ?thesis using s that by blast
qed

lemma mirror_snapshots_ready:
  assumes ready: "bundle_ready fs b"
  obtains fs' b' where "mirror_snapshots fs b reg = (Inr (), fs', b')"
    "load_registry fs' b' = load_registry fs b" "bundle_ready fs' b'" "b_path b' = b_path b"
    "snapshots (b_manifest b') = sort (dict_keys reg)"
proof -
  let ?p = "manifest_path b" and ?m = "(b_manifest b)\<lparr>snapshots := sort (dict_keys reg)\<rparr>"
  let ?fs = "fs(?p \<mapsto> JsonFile (sort_keys (manifest_to_json ?m)), tmp_path ?p := None)"
  let ?b = "b\<lparr>b_manifest := ?m\<rparr>"
  have paths: "registry_path ?b = registry_path b" "manifest_path ?b = manifest_path b"
    by (simp_all add: registry_path_def manifest_path_def)
  have "manifest_write_atomic ?m fs ?p = (Inr (), ?fs)"
    unfolding manifest_write_atomic_def
    by (rule write_file_atomic_ready)
      (use ready in \<open>auto simp: bundle_ready_def registry_paths dest: dirs_ok_butlast\<close>)
  then have "mirror_snapshots fs b reg = (Inr (), ?fs, ?b)"
    by (simp add: mirror_snapshots_def Let_def)
  moreover have "?fs (registry_path b) = fs (registry_path b)"
    using registry_paths(9,10) [of b] by (metis fun_upd_other)
  then have "load_registry ?fs ?b = load_registry fs b"
    by (simp add: load_registry_def is_file_def read_json_def paths)
  moreover have "bundle_ready ?fs ?b"
    using ready by (auto simp: bundle_ready_def registry_paths paths registry_paths(9-12) [symmetric]
        intro!: dirs_ok_upd simp del: prefix_snoc)
  ultimately show ?thesis using that by simp
qed

text \<open>The abstract operations and the concrete ones, for a sequence of requests.\<close>

datatype snap_op = Create string int | Open string | Release string

fun abs_step :: "snap_op \<Rightarrow> catalogue \<Rightarrow> catalogue" where
  "abs_step (Create n l) c = (if n = [] \<or> c n \<noteq> None then c else c(n \<mapsto> (l, 1)))"
| "abs_step (Open n) c = (case c n of None \<Rightarrow> c | Some (l, r) \<Rightarrow> c(n \<mapsto> (l, r + 1)))"
| "abs_step (Release n) c =
     (case c n of None \<Rightarrow> c | Some (l, r) \<Rightarrow> if r \<le> 1 then c(n := None) else c(n \<mapsto> (l, r - 1)))"

fun conc_step :: "string \<Rightarrow> snap_op \<Rightarrow> fs \<times> crcl_bundle \<Rightarrow> fs \<times> crcl_bundle" where
  "conc_step now (Create n l) (fs, b) = snd (create_snapshot fs b now n (Some l))"
| "conc_step now (Open n) (fs, b) = (snd (open_snapshot fs b n), b)"
| "conc_step now (Release n) (fs, b) = snd (release_snapshot fs b n)"

lemma reg_view_update: "reg_view (AList.update n e reg) = (reg_view reg)(n \<mapsto> (se_lsn_high e, se_refcount e))"
  by (auto simp: reg_view_def dict_lookup_update)

lemma reg_view_delete: "reg_view (AList.delete n reg) = (reg_view reg)(n := None)"
  by (auto simp: reg_view_def dict_lookup_delete)

lemma reg_view_None [simp]: "reg_view reg n = None \<longleftrightarrow> map_of reg n = None"
  by (simp add: reg_view_def)

lemma registry_ok_name: "registry_ok reg \<Longrightarrow> map_of reg n = Some e \<Longrightarrow> se_name e = n"
  by (auto simp: registry_ok_def dest!: map_of_SomeD)

lemma conc_step_represents:
  assumes "represents fs b c" and "conc_step now op (fs, b) = (fs', b')"
  shows "represents fs' b' (abs_step op c) \<and> b_path b' = b_path b"
proof -
  from assms(1) obtain reg where
    r: "bundle_ready fs b" "load_registry fs b = Inr reg" "registry_ok reg" "reg_view reg = c"
    by (auto simp: represents_def)
  show ?thesis
  proof (cases op)
    case (Create n l)
    let ?reg = "AList.update n \<lparr>se_name = n, se_lsn_high = l, se_created_at = now, se_refcount = 1\<rparr> reg"
    have ok: "registry_ok ?reg" using r(3) by (rule registry_ok_update) simp
    from save_registry_ready [OF r(1) ok] obtain fs1 where
      s: "save_registry fs b ?reg = (Inr (), fs1)" "load_registry fs1 b = Inr ?reg" "bundle_ready fs1 b" .
    from mirror_snapshots_ready [OF s(3), of ?reg] obtain fs2 b2 where
      m: "mirror_snapshots fs1 b ?reg = (Inr (), fs2, b2)" "load_registry fs2 b2 = load_registry fs1 b"
        "bundle_ready fs2 b2" "b_path b2 = b_path b" by metis
    show ?thesis
    proof (cases "n = [] \<or> map_of reg n \<noteq> None")
      case True
      with assms(2) r(2) Create have "fs' = fs" "b' = b"
        by (auto simp: create_snapshot_def split: if_splits)
      with True assms(1) r(4) Create show ?thesis by (auto simp: reg_view_def)
    next
      case False
      with assms(2) r(2) s(1) m(1) Create have "fs' = fs2" "b' = b2"
        by (auto simp: create_snapshot_def Let_def)
      with False r(4) s(2) m ok Create show ?thesis
        by (auto simp: represents_def reg_view_update reg_view_def [of reg])
    qed
  next
    case (Open n)
    show ?thesis
    proof (cases "map_of reg n")
      case None
      with assms r Open show ?thesis by (auto simp: open_snapshot_def reg_view_def)
    next
      case (Some e)
      let ?reg = "AList.update n (e\<lparr>se_refcount := se_refcount e + 1\<rparr>) reg"
      have ok: "registry_ok ?reg"
        using r(3) by (rule registry_ok_update) (simp add: registry_ok_name [OF r(3) Some])
      from save_registry_ready [OF r(1) ok] obtain fs1 where
        s: "save_registry fs b ?reg = (Inr (), fs1)" "load_registry fs1 b = Inr ?reg" "bundle_ready fs1 b" .
      show ?thesis using assms r s Open ok Some
        by (auto simp: represents_def open_snapshot_def reg_view_update reg_view_def [of reg])
    qed
  next
    case (Release n)
    show ?thesis
    proof (cases "map_of reg n")
      case None
      with assms r Release show ?thesis by (auto simp: release_snapshot_def reg_view_def)
    next
      case (Some e)
      let ?up = "AList.update n (e\<lparr>se_refcount := se_refcount e - 1\<rparr>) reg" and ?del = "AList.delete n reg"
      have up: "registry_ok ?up"
        using r(3) by (rule registry_ok_update) (simp add: registry_ok_name [OF r(3) Some])
      have del: "registry_ok ?del" using r(3) by (rule registry_ok_delete)
      from save_registry_ready [OF r(1) up] obtain fs1 where
        s: "save_registry fs b ?up = (Inr (), fs1)" "load_registry fs1 b = Inr ?up" "bundle_ready fs1 b" .
      from save_registry_ready [OF r(1) del] obtain fs2 where
        t: "save_registry fs b ?del = (Inr (), fs2)" "load_registry fs2 b = Inr ?del" "bundle_ready fs2 b" .
      from mirror_snapshots_ready [OF t(3), of ?del] obtain fs3 b3 where
        m: "mirror_snapshots fs2 b ?del = (Inr (), fs3, b3)" "load_registry fs3 b3 = load_registry fs2 b"
          "bundle_ready fs3 b3" "b_path b3 = b_path b" by metis
      show ?thesis using assms r s t m Release up del Some
        by (auto simp: represents_def release_snapshot_def reg_view_update reg_view_delete reg_view_def [of reg]
            Let_def split: if_splits)
    qed
  qed
qed

lemma peek_snapshot_represents:
  assumes "represents fs b c"
  shows "peek_snapshot fs b name =
    (case c name of None \<Rightarrow> raise_code ''CDB-8013'' | Some (l, _) \<Rightarrow> SnapshotId l (Some name))"
  using assms by (auto simp: represents_def peek_snapshot_def reg_view_def split: option.splits)

lemma conc_steps_represent:
  "represents fs b c \<Longrightarrow> fold (conc_step now) ops (fs, b) = (fs', b') \<Longrightarrow> represents fs' b' (fold abs_step ops c)"
proof (induction ops arbitrary: fs b c)
  case (Cons op ops)
  obtain fs1 b1 where "conc_step now op (fs, b) = (fs1, b1)" by fastforce
  with conc_step_represents [OF Cons.prems(1) this] Cons.prems(2) Cons.IH [of fs1 b1] show ?case by simp
qed simp

section \<open>Properties\<close>

text \<open>
  C11: the snapshot files implement a catalogue of reference-counted names. For every sequence
  of create, open and release requests, including rejected ones, the registry on disk stands
  for the map the abstract operations give, and resolving a name in an \<open>AS_OF SNAPSHOT\<close> clause
  returns the sequence number stored there, unchanged since the snapshot was created, or
  CDB-8013 when the last reference is gone.
\<close>

theorem snapshot_catalogue_refines:
  assumes "represents fs b c" "fold (conc_step now) ops (fs, b) = (fs', b')"
  shows "represents fs' b' (fold abs_step ops c)
    \<and> resolve_as_of fs' b' (Some \<lparr>as_of_kind = Some ''snapshot'', as_of_value = name\<rparr>)
        = (case fold abs_step ops c name of
             None \<Rightarrow> raise_code ''CDB-8013''
           | Some (l, _) \<Rightarrow> rbind (SnapshotId l (Some name)) (\<lambda>s. Inr (Some s)))"
proof -
  have "ascii_upper ''snapshot'' = ''SNAPSHOT''" by code_simp
  with conc_steps_represent [OF assms] peek_snapshot_represents [OF conc_steps_represent [OF assms]]
  show ?thesis by (auto simp: resolve_as_of_def split: option.splits)
qed

theorem snapshot_catalogue_refines_witness:
  fixes fs defines "fs \<equiv> [[''g.crcl''] \<mapsto> Dir, [''g.crcl'', ''snapshots''] \<mapsto> Dir]"
  shows "\<exists>fs' b'. fold (conc_step ''now'') [Create ''v1'' 42, Open ''v1'', Release ''v1'', Create ''v1'' 7]
        (fs, \<lparr>b_path = [''g.crcl''], b_manifest = manifest_empty ''t''\<rparr>) = (fs', b')
    \<and> resolve_as_of fs' b' (Some \<lparr>as_of_kind = Some ''snapshot'', as_of_value = ''v1''\<rparr>)
        = Inr (Some \<lparr>lsn_high = 42, snap_name = Some ''v1''\<rparr>)"
proof -
  let ?b = "\<lparr>b_path = [''g.crcl''], b_manifest = manifest_empty ''t''\<rparr>"
  let ?ops = "[Create ''v1'' 42, Open ''v1'', Release ''v1'', Create ''v1'' 7]"
  have "dirs_ok fs [''g.crcl'', ''snapshots'']"
    by (auto simp: dirs_ok_def fs_def le_Suc_eq take_Cons split: nat.splits)
  then have rep: "represents fs ?b Map.empty"
    by (auto simp: represents_def bundle_ready_def registry_path_def manifest_path_def MANIFEST_NAME_def
        tmp_path_def fs_def load_registry_def is_file_def registry_ok_def reg_view_def)
  obtain fs' b' where run: "fold (conc_step ''now'') ?ops (fs, ?b) = (fs', b')" by fastforce
  from snapshot_catalogue_refines [OF rep run, of "''v1''"] run show ?thesis
    by (auto simp: SnapshotId_def)
qed

end
