(* ===== verification/Buffer_Pool.thy ===== *)
theory Buffer_Pool
  imports Header
begin

text \<open>
  The page buffer pool (\<open>storage/buffer_pool.py\<close>). The callbacks that read and write pages
  are parameters: \<open>rd\<close> reads a page from the disk state \<open>'d\<close>, \<open>wr\<close>, if given, writes one.
  Every operation maps the pool and the disk to a result, a pool and a disk.
\<close>

section \<open>State\<close>

record page_frame =
  pf_page_id :: int
  pf_data :: bytes
  pf_pin_count :: int
  pf_dirty :: bool
  pf_history :: "nat list"

definition is_pinned :: "page_frame \<Rightarrow> bool" where
  "is_pinned f \<longleftrightarrow> 0 < pf_pin_count f"

record buffer_pool =
  bp_capacity :: nat
  bp_page_size :: nat
  bp_lru_k :: nat
  bp_frames :: "(int, page_frame) dict"
  bp_clock :: nat
  bp_hits :: nat
  bp_misses :: nat
  bp_evictions :: nat

record buffer_pool_stats =
  bs_capacity_pages :: nat
  bs_page_size :: nat
  bs_resident_pages :: nat
  bs_pinned_pages :: nat
  bs_dirty_pages :: nat
  bs_hits :: nat
  bs_misses :: nat
  bs_evictions :: nat

type_synonym 'd read_page = "int \<Rightarrow> nat \<Rightarrow> 'd \<Rightarrow> bytes result"
type_synonym 'd write_page = "int \<Rightarrow> bytes \<Rightarrow> 'd \<Rightarrow> unit result \<times> 'd"

definition buffer_pool_init :: "int \<Rightarrow> int \<Rightarrow> int \<Rightarrow> buffer_pool result" where
  "buffer_pool_init capacity_pages page_size lru_k =
     (if capacity_pages \<le> 0 then Inl ValueError
      else if page_size \<le> 0 then Inl ValueError
      else if lru_k \<le> 0 then Inl ValueError
      else Inr \<lparr>bp_capacity = nat capacity_pages, bp_page_size = nat page_size, bp_lru_k = nat lru_k,
                bp_frames = [], bp_clock = 0, bp_hits = 0, bp_misses = 0, bp_evictions = 0\<rparr>)"

section \<open>Operations\<close>

definition page_id :: "int \<Rightarrow> int result" where
  "page_id value = (if value < 0 then Inl ValueError else Inr value)"

definition zero_bytes :: "nat \<Rightarrow> bytes" where
  "zero_bytes n = replicate n 0"

definition zero_read :: "int \<Rightarrow> nat \<Rightarrow> 'd \<Rightarrow> bytes result" where
  "zero_read pid page_size d = Inr (zero_bytes page_size)"

definition page_data :: "bytes \<Rightarrow> nat \<Rightarrow> bytes result" where
  "page_data data page_size =
     (if page_size < length data then raise_code ''CDB-7005''
      else Inr (data @ zero_bytes (page_size - length data)))"

text \<open>\<open>del history[:-k]\<close> keeps the last \<open>k\<close> entries.\<close>

definition record_access :: "buffer_pool \<Rightarrow> page_frame \<Rightarrow> buffer_pool \<times> page_frame" where
  "record_access p f =
     (let clock = bp_clock p + 1;
          h = pf_history f @ [clock];
          h' = (if bp_lru_k p < length h then drop (length h - bp_lru_k p) h else h)
      in (p\<lparr>bp_clock := clock\<rparr>, f\<lparr>pf_history := h'\<rparr>))"

definition put_frame :: "page_frame \<Rightarrow> buffer_pool \<Rightarrow> buffer_pool" where
  "put_frame f p = p\<lparr>bp_frames := AList.update (pf_page_id f) f (bp_frames p)\<rparr>"

definition pin :: "buffer_pool \<Rightarrow> page_frame \<Rightarrow> buffer_pool \<times> page_frame" where
  "pin p f =
     (case record_access p (f\<lparr>pf_pin_count := pf_pin_count f + 1\<rparr>) of
        (p', f') \<Rightarrow> (put_frame f' p', f'))"

text \<open>Key of the LRU-K policy; \<open>min\<close> returns the first candidate with the least key.\<close>

definition victim_key :: "buffer_pool \<Rightarrow> page_frame \<Rightarrow> int \<times> int" where
  "victim_key p f =
     (let h = pf_history f in
      (if bp_lru_k p \<le> length h then int (hd h) else -1, if h \<noteq> [] then int (last h) else -1))"

fun min_by :: "('a \<Rightarrow> 'b :: linorder) \<Rightarrow> 'a \<Rightarrow> 'a list \<Rightarrow> 'a" where
  "min_by key best [] = best"
| "min_by key best (x # xs) = min_by key (if key x < key best then x else best) xs"

definition choose_victim :: "buffer_pool \<Rightarrow> page_frame result" where
  "choose_victim p =
     (case filter (\<lambda>f. \<not> is_pinned f) (map snd (bp_frames p)) of
        [] \<Rightarrow> raise_code ''CDB-7005''
      | c # cs \<Rightarrow> Inr (min_by (victim_key p) c cs))"

definition flush_frame ::
  "'d write_page option \<Rightarrow> page_frame \<Rightarrow> buffer_pool \<times> 'd \<Rightarrow> unit result \<times> buffer_pool \<times> 'd" where
  "flush_frame wr f = (\<lambda>(p, d).
     if \<not> pf_dirty f then (Inr (), p, d)
     else
       (case (case wr of None \<Rightarrow> (Inr (), d) | Some w \<Rightarrow> w (pf_page_id f) (pf_data f) d) of
          (Inl e, d') \<Rightarrow> (Inl e, p, d')
        | (Inr _, d') \<Rightarrow> (Inr (), put_frame (f\<lparr>pf_dirty := False\<rparr>) p, d')))"

definition ensure_capacity ::
  "'d write_page option \<Rightarrow> buffer_pool \<times> 'd \<Rightarrow> unit result \<times> buffer_pool \<times> 'd" where
  "ensure_capacity wr = (\<lambda>(p, d).
     if length (bp_frames p) < bp_capacity p then (Inr (), p, d)
     else
       (case choose_victim p of
          Inl e \<Rightarrow> (Inl e, p, d)
        | Inr victim \<Rightarrow>
            (case flush_frame wr victim (p, d) of
               (Inl e, p1, d1) \<Rightarrow> (Inl e, p1, d1)
             | (Inr _, p1, d1) \<Rightarrow>
                 (Inr (), p1\<lparr>bp_frames := AList.delete (pf_page_id victim) (bp_frames p1),
                            bp_evictions := bp_evictions p1 + 1\<rparr>, d1))))"

definition fetch_page ::
  "'d read_page \<Rightarrow> 'd write_page option \<Rightarrow> int \<Rightarrow> buffer_pool \<times> 'd \<Rightarrow> page_frame result \<times> buffer_pool \<times> 'd"
where
  "fetch_page rd wr pid = (\<lambda>(p, d).
     (case page_id pid of
        Inl e \<Rightarrow> (Inl e, p, d)
      | Inr normalized \<Rightarrow>
          (case map_of (bp_frames p) normalized of
             Some f \<Rightarrow>
               (case pin (p\<lparr>bp_hits := bp_hits p + 1\<rparr>) f of (p', f') \<Rightarrow> (Inr f', p', d))
           | None \<Rightarrow>
               (case ensure_capacity wr (p\<lparr>bp_misses := bp_misses p + 1\<rparr>, d) of
                  (Inl e, p1, d1) \<Rightarrow> (Inl e, p1, d1)
                | (Inr _, p1, d1) \<Rightarrow>
                    (case rbind (rd normalized (bp_page_size p1) d1) (\<lambda>data. page_data data (bp_page_size p1)) of
                       Inl e \<Rightarrow> (Inl e, p1, d1)
                     | Inr page \<Rightarrow>
                         (case record_access p1 \<lparr>pf_page_id = normalized, pf_data = page, pf_pin_count = 1,
                                                 pf_dirty = False, pf_history = []\<rparr> of
                            (p2, f) \<Rightarrow> (Inr f, put_frame f p2, d1)))))))"

definition new_page ::
  "'d write_page option \<Rightarrow> int \<Rightarrow> buffer_pool \<times> 'd \<Rightarrow> page_frame result \<times> buffer_pool \<times> 'd"
where
  "new_page wr pid = (\<lambda>(p, d).
     (case page_id pid of
        Inl e \<Rightarrow> (Inl e, p, d)
      | Inr normalized \<Rightarrow>
          (case map_of (bp_frames p) normalized of
             Some f \<Rightarrow>
               (case pin p f of (p', f') \<Rightarrow>
                  let f'' = f'\<lparr>pf_data := zero_bytes (bp_page_size p'), pf_dirty := True\<rparr>
                  in (Inr f'', put_frame f'' p', d))
           | None \<Rightarrow>
               (case ensure_capacity wr (p, d) of
                  (Inl e, p1, d1) \<Rightarrow> (Inl e, p1, d1)
                | (Inr _, p1, d1) \<Rightarrow>
                    (case record_access p1 \<lparr>pf_page_id = normalized, pf_data = zero_bytes (bp_page_size p1),
                                            pf_pin_count = 1, pf_dirty = True, pf_history = []\<rparr> of
                       (p2, f) \<Rightarrow> (Inr f, put_frame f p2, d1))))))"

definition unpin_page :: "int \<Rightarrow> bool \<Rightarrow> buffer_pool \<Rightarrow> unit result \<times> buffer_pool" where
  "unpin_page pid dirty p =
     (case page_id pid of
        Inl e \<Rightarrow> (Inl e, p)
      | Inr normalized \<Rightarrow>
          (case map_of (bp_frames p) normalized of
             None \<Rightarrow> (raise_code ''CDB-7005'', p)
           | Some f \<Rightarrow>
               if pf_pin_count f \<le> 0 then (raise_code ''CDB-7005'', p)
               else (Inr (), put_frame (f\<lparr>pf_pin_count := pf_pin_count f - 1,
                                          pf_dirty := dirty \<or> pf_dirty f\<rparr>) p)))"

definition mark_dirty :: "int \<Rightarrow> buffer_pool \<Rightarrow> unit result \<times> buffer_pool" where
  "mark_dirty pid p =
     (case page_id pid of
        Inl e \<Rightarrow> (Inl e, p)
      | Inr normalized \<Rightarrow>
          (case map_of (bp_frames p) normalized of
             None \<Rightarrow> (raise_code ''CDB-7005'', p)
           | Some f \<Rightarrow> (Inr (), put_frame (f\<lparr>pf_dirty := True\<rparr>) p)))"

definition flush_page ::
  "'d write_page option \<Rightarrow> int \<Rightarrow> buffer_pool \<times> 'd \<Rightarrow> unit result \<times> buffer_pool \<times> 'd" where
  "flush_page wr pid = (\<lambda>(p, d).
     (case page_id pid of
        Inl e \<Rightarrow> (Inl e, p, d)
      | Inr normalized \<Rightarrow>
          (case map_of (bp_frames p) normalized of
             None \<Rightarrow> (raise_code ''CDB-7005'', p, d)
           | Some f \<Rightarrow> flush_frame wr f (p, d))))"

fun flush_list ::
  "'d write_page option \<Rightarrow> page_frame list \<Rightarrow> buffer_pool \<times> 'd \<Rightarrow> unit result \<times> buffer_pool \<times> 'd" where
  "flush_list wr [] s = (Inr (), s)"
| "flush_list wr (f # fs) s =
     (case flush_frame wr f s of
        (Inl e, s') \<Rightarrow> (Inl e, s')
      | (Inr _, s') \<Rightarrow> flush_list wr fs s')"

definition flush_all ::
  "'d write_page option \<Rightarrow> buffer_pool \<times> 'd \<Rightarrow> unit result \<times> buffer_pool \<times> 'd" where
  "flush_all wr = (\<lambda>(p, d). flush_list wr (map snd (bp_frames p)) (p, d))"

definition pool_contains :: "buffer_pool \<Rightarrow> int \<Rightarrow> bool result" where
  "pool_contains p pid = rbind (page_id pid) (\<lambda>n. Inr (map_of (bp_frames p) n \<noteq> None))"

definition pool_stats :: "buffer_pool \<Rightarrow> buffer_pool_stats" where
  "pool_stats p =
     \<lparr>bs_capacity_pages = bp_capacity p, bs_page_size = bp_page_size p,
      bs_resident_pages = length (bp_frames p),
      bs_pinned_pages = length (filter is_pinned (map snd (bp_frames p))),
      bs_dirty_pages = length (filter pf_dirty (map snd (bp_frames p))),
      bs_hits = bp_hits p, bs_misses = bp_misses p, bs_evictions = bp_evictions p\<rparr>"

text \<open>\<open>PageGuard.release\<close>: the flag makes a second release a no-op.\<close>

definition guard_release :: "page_frame \<Rightarrow> bool \<Rightarrow> bool \<Rightarrow> buffer_pool \<Rightarrow> unit result \<times> bool \<times> buffer_pool" where
  "guard_release f released dirty p =
     (if released then (Inr (), released, p)
      else
        (case unpin_page (pf_page_id f) dirty p of
           (Inl e, p') \<Rightarrow> (Inl e, released, p')
         | (Inr _, p') \<Rightarrow> (Inr (), True, p')))"

section \<open>Invariant\<close>

definition frame_ok :: "buffer_pool \<Rightarrow> int \<times> page_frame \<Rightarrow> bool" where
  "frame_ok p = (\<lambda>(pid, f). pf_page_id f = pid \<and> 0 \<le> pid \<and> 0 \<le> pf_pin_count f
     \<and> length (pf_data f) = bp_page_size p \<and> pf_history f \<noteq> [] \<and> length (pf_history f) \<le> bp_lru_k p
     \<and> (\<forall>t \<in> set (pf_history f). t \<le> bp_clock p))"

definition pool_inv :: "buffer_pool \<Rightarrow> bool" where
  "pool_inv p \<longleftrightarrow> dict_ok (bp_frames p) \<and> length (bp_frames p) \<le> bp_capacity p
     \<and> 0 < bp_capacity p \<and> 0 < bp_lru_k p \<and> list_all (frame_ok p) (bp_frames p)"

lemma min_by_in: "min_by key b xs \<in> set (b # xs)"
  by (induction key b xs rule: min_by.induct) auto

lemma min_by_least: "\<forall>x \<in> set (b # xs). key (min_by key b xs) \<le> key x"
proof (induction key b xs rule: min_by.induct)
  case (2 key best x xs)
  then show ?case by (auto simp: not_less split: if_splits)
qed simp

lemma choose_victim_Inr:
  assumes "choose_victim p = Inr f"
  shows "f \<in> snd ` set (bp_frames p)" "\<not> is_pinned f"
    "\<And>g. g \<in> snd ` set (bp_frames p) \<Longrightarrow> \<not> is_pinned g \<Longrightarrow> victim_key p f \<le> victim_key p g"
proof -
  let ?c = "filter (\<lambda>f. \<not> is_pinned f) (map snd (bp_frames p))"
  from assms obtain c cs where c: "?c = c # cs" "f = min_by (victim_key p) c cs"
    by (auto simp: choose_victim_def split: list.splits)
  have "f \<in> set ?c" using min_by_in [of "victim_key p" c cs] c by simp
  then show "f \<in> snd ` set (bp_frames p)" "\<not> is_pinned f" by auto
  fix g assume "g \<in> snd ` set (bp_frames p)" "\<not> is_pinned g"
  then have "g \<in> set ?c" by auto
  then show "victim_key p f \<le> victim_key p g" using min_by_least [of c cs "victim_key p"] c by auto
qed

lemma choose_victim_Inl: "choose_victim p = Inl e \<Longrightarrow> f \<in> snd ` set (bp_frames p) \<Longrightarrow> is_pinned f"
  by (auto simp: choose_victim_def filter_empty_conv split: list.splits)

lemma pool_inv_frame:
  assumes "pool_inv p" "map_of (bp_frames p) pid = Some f"
  shows "frame_ok p (pid, f)"
  using assms by (auto simp: pool_inv_def list_all_iff dest!: map_of_SomeD)

lemma length_update_present: "map_of d k \<noteq> None \<Longrightarrow> length (AList.update k v d) = length d"
  by (induction d) (auto split: if_splits)

lemma length_update_absent: "map_of d k = None \<Longrightarrow> length (AList.update k v d) = Suc (length d)"
  by (induction d) (auto split: if_splits)

lemma put_frame_fields [simp]:
  "bp_capacity (put_frame f p) = bp_capacity p" "bp_page_size (put_frame f p) = bp_page_size p"
  "bp_lru_k (put_frame f p) = bp_lru_k p" "bp_clock (put_frame f p) = bp_clock p"
  "map_of (bp_frames (put_frame f p)) pid = (if pid = pf_page_id f then Some f else map_of (bp_frames p) pid)"
  by (simp_all add: put_frame_def dict_lookup_update)

lemma frames_ok_cong:
  "list_all (frame_ok p) xs \<Longrightarrow> bp_page_size p = bp_page_size q \<Longrightarrow> bp_lru_k p = bp_lru_k q
    \<Longrightarrow> bp_clock p \<le> bp_clock q \<Longrightarrow> set ys \<subseteq> set xs \<Longrightarrow> list_all (frame_ok q) ys"
  unfolding list_all_iff frame_ok_def by fastforce

lemma pool_inv_put:
  assumes inv: "pool_inv p" and ok: "frame_ok p (pf_page_id f, f)"
    and room: "map_of (bp_frames p) (pf_page_id f) \<noteq> None \<or> length (bp_frames p) < bp_capacity p"
  shows "pool_inv (put_frame f p)"
proof -
  have "length (AList.update (pf_page_id f) f (bp_frames p)) \<le> bp_capacity p"
    using inv room by (cases "map_of (bp_frames p) (pf_page_id f)")
      (simp_all add: length_update_present length_update_absent pool_inv_def)
  moreover have "list_all (frame_ok (put_frame f p)) (bp_frames (put_frame f p))"
  proof (rule frames_ok_cong [of p "(pf_page_id f, f) # bp_frames p"])
    show "list_all (frame_ok p) ((pf_page_id f, f) # bp_frames p)" using inv ok by (simp add: pool_inv_def)
    show "set (bp_frames (put_frame f p)) \<subseteq> set ((pf_page_id f, f) # bp_frames p)"
      unfolding put_frame_def using set_update_subset [of "pf_page_id f" f "bp_frames p"] by simp
  qed simp_all
  ultimately show ?thesis using inv by (simp add: pool_inv_def put_frame_def)
qed

lemma pool_inv_counters [simp]:
  "pool_inv (p\<lparr>bp_hits := n\<rparr>) = pool_inv p" "pool_inv (p\<lparr>bp_misses := n\<rparr>) = pool_inv p"
  by (simp_all add: pool_inv_def frame_ok_def)

lemma pool_inv_clock: "pool_inv p \<Longrightarrow> bp_clock p \<le> c \<Longrightarrow> pool_inv (p\<lparr>bp_clock := c\<rparr>)"
  unfolding pool_inv_def by (auto intro: frames_ok_cong [of p "bp_frames p"])

lemma pool_inv_delete: "pool_inv p \<Longrightarrow> pool_inv (p\<lparr>bp_frames := AList.delete pid (bp_frames p), bp_evictions := n\<rparr>)"
  using set_delete_subset [of pid "bp_frames p"] length_delete_le [of pid "bp_frames p"]
  unfolding pool_inv_def by (auto intro: frames_ok_cong [of p "bp_frames p"])

text \<open>Recording an access keeps everything but the clock and the history.\<close>

lemma record_access_ok:
  assumes "record_access p f = (p', f')" "0 < bp_lru_k p" "\<forall>t \<in> set (pf_history f). t \<le> bp_clock p"
    "0 \<le> pf_page_id f" "0 \<le> pf_pin_count f" "length (pf_data f) = bp_page_size p"
  shows "p' = p\<lparr>bp_clock := Suc (bp_clock p)\<rparr>" "pf_page_id f' = pf_page_id f" "pf_data f' = pf_data f"
    "pf_pin_count f' = pf_pin_count f" "pf_dirty f' = pf_dirty f" "frame_ok p' (pf_page_id f', f')"
proof -
  show p': "p' = p\<lparr>bp_clock := Suc (bp_clock p)\<rparr>" "pf_page_id f' = pf_page_id f" "pf_data f' = pf_data f"
    "pf_pin_count f' = pf_pin_count f" "pf_dirty f' = pf_dirty f"
    using assms(1) by (auto simp: record_access_def Let_def)
  show "frame_ok p' (pf_page_id f', f')"
    using assms by (auto simp: record_access_def Let_def frame_ok_def le_SucI dest!: in_set_dropD split: if_splits)
qed

section \<open>Contents of the pages\<close>

text \<open>What a reader of page \<open>pid\<close> gets from the disk, and what it gets through the pool.\<close>

definition disk_page :: "'d read_page \<Rightarrow> buffer_pool \<Rightarrow> 'd \<Rightarrow> int \<Rightarrow> bytes result" where
  "disk_page rd p d pid = rbind (rd pid (bp_page_size p) d) (\<lambda>data. page_data data (bp_page_size p))"

definition page_view :: "'d read_page \<Rightarrow> buffer_pool \<times> 'd \<Rightarrow> int \<Rightarrow> bytes result" where
  "page_view rd = (\<lambda>(p, d) pid.
     case map_of (bp_frames p) pid of Some f \<Rightarrow> Inr (pf_data f) | None \<Rightarrow> disk_page rd p d pid)"

text \<open>
  A frame that is not dirty agrees with the disk: what the users of the pool keep by marking
  the pages they change.
\<close>

definition coherent :: "'d read_page \<Rightarrow> buffer_pool \<times> 'd \<Rightarrow> bool" where
  "coherent rd = (\<lambda>(p, d). \<forall>pid f. map_of (bp_frames p) pid = Some f \<longrightarrow> \<not> pf_dirty f
     \<longrightarrow> disk_page rd p d pid = Inr (pf_data f))"

text \<open>
  The callbacks: a successful write of a page is what the next read of it returns, and a
  write, successful or not, leaves the other pages alone.
\<close>

definition faithful_io :: "'d read_page \<Rightarrow> 'd write_page \<Rightarrow> nat \<Rightarrow> bool" where
  "faithful_io rd w n \<longleftrightarrow> (\<forall>pid bs d r d'. length bs = n \<longrightarrow> w pid bs d = (r, d') \<longrightarrow>
     (r = Inr () \<longrightarrow> rd pid n d' = Inr bs) \<and> (\<forall>q. q \<noteq> pid \<longrightarrow> rd q n d' = rd q n d))"

lemma page_data_full [simp]: "length bs = n \<Longrightarrow> page_data bs n = Inr bs"
  by (simp add: page_data_def zero_bytes_def)

text \<open>Two pools hold the same pages: equal frames up to the dirty flag.\<close>

definition same_frames :: "buffer_pool \<Rightarrow> buffer_pool \<Rightarrow> bool" where
  "same_frames p q \<longleftrightarrow> bp_page_size q = bp_page_size p \<and> bp_capacity q = bp_capacity p
     \<and> length (bp_frames q) = length (bp_frames p)
     \<and> (\<forall>i. map_option (\<lambda>g. g\<lparr>pf_dirty := False\<rparr>) (map_of (bp_frames q) i)
           = map_option (\<lambda>g. g\<lparr>pf_dirty := False\<rparr>) (map_of (bp_frames p) i))"

lemma flush_frame_dirty:
  assumes inv: "pool_inv p" and io: "faithful_io rd w (bp_page_size p)"
    and f: "map_of (bp_frames p) pid = Some f" "pf_dirty f"
    and e: "flush_frame (Some w) f (p, d) = (r, p', d')"
  shows "\<forall>q. q \<noteq> pid \<longrightarrow> disk_page rd p d' q = disk_page rd p d q"
    and "r = Inr () \<and> p' = put_frame (f\<lparr>pf_dirty := False\<rparr>) p \<and> disk_page rd p d' pid = Inr (pf_data f)
      \<or> (\<exists>x. r = Inl x) \<and> p' = p"
proof -
  from pool_inv_frame [OF inv f(1)] have ok: "pf_page_id f = pid" "length (pf_data f) = bp_page_size p"
    by (auto simp: frame_ok_def)
  obtain wr dw where w: "w pid (pf_data f) d = (wr, dw)" by fastforce
  from e f(2) ok w have d': "d' = dw" by (auto simp: flush_frame_def split: sum.splits)
  from io ok(2) w have law: "wr = Inr () \<longrightarrow> rd pid (bp_page_size p) dw = Inr (pf_data f)"
    "\<forall>q. q \<noteq> pid \<longrightarrow> rd q (bp_page_size p) dw = rd q (bp_page_size p) d" unfolding faithful_io_def by blast+
  then show "\<forall>q. q \<noteq> pid \<longrightarrow> disk_page rd p d' q = disk_page rd p d q" by (simp add: d' disk_page_def)
  show "r = Inr () \<and> p' = put_frame (f\<lparr>pf_dirty := False\<rparr>) p \<and> disk_page rd p d' pid = Inr (pf_data f)
      \<or> (\<exists>x. r = Inl x) \<and> p' = p"
    using e f(2) ok w law(1) by (auto simp: flush_frame_def disk_page_def split: sum.splits)
qed

lemma put_clean_frame:
  assumes inv: "pool_inv p" and f: "map_of (bp_frames p) pid = Some f"
  shows "pool_inv (put_frame (f\<lparr>pf_dirty := False\<rparr>) p)" "same_frames p (put_frame (f\<lparr>pf_dirty := False\<rparr>) p)"
proof -
  from pool_inv_frame [OF inv f] have ok: "frame_ok p (pid, f)" "pf_page_id f = pid" by (auto simp: frame_ok_def)
  then show "pool_inv (put_frame (f\<lparr>pf_dirty := False\<rparr>) p)"
    using f by (intro pool_inv_put [OF inv]) (auto simp: frame_ok_def)
  show "same_frames p (put_frame (f\<lparr>pf_dirty := False\<rparr>) p)"
    using f ok by (simp add: same_frames_def) (simp add: put_frame_def length_update_present)
qed

lemma disk_page_put [simp]:
  "disk_page rd (put_frame f p) = disk_page rd p"
  "disk_page rd (p\<lparr>bp_frames := fs, bp_evictions := n\<rparr>) = disk_page rd p"
  by (simp_all add: disk_page_def fun_eq_iff)

lemma coherentD: "coherent rd (p, d) \<Longrightarrow> map_of (bp_frames p) q = Some g \<Longrightarrow> \<not> pf_dirty g
    \<Longrightarrow> disk_page rd p d q = Inr (pf_data g)"
  by (simp add: coherent_def)

lemma coherentI:
  "(\<And>q g. map_of (bp_frames p) q = Some g \<Longrightarrow> \<not> pf_dirty g \<Longrightarrow> disk_page rd p d q = Inr (pf_data g))
    \<Longrightarrow> coherent rd (p, d)"
  by (simp add: coherent_def)

lemma page_view_simp:
  "page_view rd (p, d) q = (case map_of (bp_frames p) q of Some f \<Rightarrow> Inr (pf_data f) | None \<Rightarrow> disk_page rd p d q)"
  by (simp add: page_view_def)

text \<open>The disk changed at most at a resident page that is still dirty, or clean and written.\<close>

lemma disk_change:
  assumes coh: "coherent rd (p, d)" and f: "map_of (bp_frames p) pid = Some f"
    and disk: "\<forall>q. q \<noteq> pid \<longrightarrow> disk_page rd p d' q = disk_page rd p d q"
  shows "pf_dirty f \<Longrightarrow> coherent rd (p, d') \<and> page_view rd (p, d') = page_view rd (p, d)"
    and "disk_page rd p d' pid = Inr (pf_data f) \<Longrightarrow> pf_page_id f = pid \<Longrightarrow>
      coherent rd (put_frame (f\<lparr>pf_dirty := False\<rparr>) p, d')
      \<and> page_view rd (put_frame (f\<lparr>pf_dirty := False\<rparr>) p, d') = page_view rd (p, d)"
proof -
  have d: "disk_page rd p d' q = Inr (pf_data g)"
    if "map_of (bp_frames p) q = Some g" "\<not> pf_dirty g" "q \<noteq> pid" for q g
    using coherentD [OF coh that(1,2)] disk that(3) by simp
  have v: "disk_page rd p d' q = disk_page rd p d q" if "map_of (bp_frames p) q = None" for q
    using disk f that by (cases "q = pid") auto
  show "coherent rd (p, d') \<and> page_view rd (p, d') = page_view rd (p, d)" if "pf_dirty f"
  proof
    show "coherent rd (p, d')" using d f that by (intro coherentI) (metis option.inject)
    show "page_view rd (p, d') = page_view rd (p, d)"
      by (rule ext) (auto simp: page_view_simp v split: option.splits)
  qed
  show "coherent rd (put_frame (f\<lparr>pf_dirty := False\<rparr>) p, d')
      \<and> page_view rd (put_frame (f\<lparr>pf_dirty := False\<rparr>) p, d') = page_view rd (p, d)"
    if "disk_page rd p d' pid = Inr (pf_data f)" "pf_page_id f = pid"
  proof
    show "coherent rd (put_frame (f\<lparr>pf_dirty := False\<rparr>) p, d')"
      using d that by (intro coherentI) (auto split: if_splits)
    show "page_view rd (put_frame (f\<lparr>pf_dirty := False\<rparr>) p, d') = page_view rd (p, d)"
      using that f by (intro ext) (auto simp: page_view_simp v split: option.splits)
  qed
qed

lemma flush_frame_view:
  assumes inv: "pool_inv p" and coh: "coherent rd (p, d)" and io: "faithful_io rd w (bp_page_size p)"
    and f: "map_of (bp_frames p) pid = Some f" and e: "flush_frame (Some w) f (p, d) = (r, p', d')"
  shows "pool_inv p' \<and> coherent rd (p', d') \<and> page_view rd (p', d') = page_view rd (p, d)
    \<and> same_frames p p' \<and> (r = Inr () \<longrightarrow> disk_page rd p' d' pid = Inr (pf_data f))"
proof (cases "pf_dirty f")
  case False
  with e have "r = Inr ()" "p' = p" "d' = d" by (auto simp: flush_frame_def)
  with coherentD [OF coh f False] coh inv show ?thesis by (simp add: same_frames_def)
next
  case True
  note fl = flush_frame_dirty [OF inv io f True e]
  note ch = disk_change [OF coh f fl(1)]
  have "pf_page_id f = pid" using pool_inv_frame [OF inv f] by (simp add: frame_ok_def)
  with fl(2) ch True put_clean_frame [OF inv f] inv show ?thesis
    by (elim disjE conjE exE) (simp_all add: same_frames_def)
qed

section \<open>Eviction\<close>

text \<open>
  What making room may do: the pool stays well formed and coherent, every page reads as
  before, a pinned frame stays as it is, and no page comes in.
\<close>

definition kept :: "'d read_page \<Rightarrow> buffer_pool \<times> 'd \<Rightarrow> buffer_pool \<times> 'd \<Rightarrow> bool" where
  "kept rd s s' \<longleftrightarrow> pool_inv (fst s') \<and> coherent rd s' \<and> page_view rd s' = page_view rd s
     \<and> bp_page_size (fst s') = bp_page_size (fst s) \<and> bp_capacity (fst s') = bp_capacity (fst s)
     \<and> (\<forall>q g. map_of (bp_frames (fst s)) q = Some g \<longrightarrow> is_pinned g \<longrightarrow> map_of (bp_frames (fst s')) q = Some g)
     \<and> (\<forall>q. map_of (bp_frames (fst s)) q = None \<longrightarrow> map_of (bp_frames (fst s')) q = None)"

lemma same_framesD:
  assumes "same_frames p q"
  shows "map_of (bp_frames p) i = None \<longleftrightarrow> map_of (bp_frames q) i = None"
    and "bp_page_size q = bp_page_size p" "bp_capacity q = bp_capacity p"
    "length (bp_frames q) = length (bp_frames p)"
  using assms unfolding same_frames_def by (metis option.map_disc_iff)+

lemma length_delete: "map_of d k \<noteq> None \<Longrightarrow> length (AList.delete k d) < length d"
proof (induction d)
  case (Cons x d)
  then show ?case using length_delete_le [of k d] by (cases "fst x = k") (auto simp: less_Suc_eq_le)
qed simp

lemma flush_frame_other:
  assumes "flush_frame wr f (p, d) = (r, p', d')" "q \<noteq> pf_page_id f"
  shows "map_of (bp_frames p') q = map_of (bp_frames p) q"
  using assms by (auto simp: flush_frame_def split: if_splits sum.splits prod.splits)

lemma ensure_capacity_kept:
  assumes inv: "pool_inv p" and coh: "coherent rd (p, d)" and io: "faithful_io rd w (bp_page_size p)"
    and e: "ensure_capacity (Some w) (p, d) = (r, p', d')"
  shows "kept rd (p, d) (p', d') \<and> (r = Inr () \<longrightarrow> length (bp_frames p') < bp_capacity p')"
proof (cases "length (bp_frames p) < bp_capacity p")
  case True
  with e inv coh show ?thesis by (auto simp: ensure_capacity_def kept_def)
next
  case full: False
  show ?thesis
  proof (cases "choose_victim p")
    case (Inl x)
    with e full inv coh show ?thesis by (auto simp: ensure_capacity_def kept_def)
  next
    case (Inr v)
    note cv = choose_victim_Inr [OF Inr]
    from cv(1) inv obtain pid where v: "map_of (bp_frames p) pid = Some v"
      by (auto simp: pool_inv_def dict_ok_def)
    have pid: "pf_page_id v = pid" using pool_inv_frame [OF inv v] by (simp add: frame_ok_def)
    obtain r1 p1 d1 where f: "flush_frame (Some w) v (p, d) = (r1, p1, d1)" by (metis prod_cases3)
    note fv = flush_frame_view [OF inv coh io v f] and fo = flush_frame_other [OF f]
    note sf = same_framesD [of p p1]
    have pinned: "map_of (bp_frames p1) q = Some g"
      if "map_of (bp_frames p) q = Some g" "is_pinned g" for q g
      using that v cv(2) pid fo [of q] by (cases "q = pid") auto
    have k1: "kept rd (p, d) (p1, d1)"
      using fv sf pinned by (auto simp: kept_def)
    show ?thesis
    proof (cases r1)
      case (Inl x)
      with e full Inr f k1 show ?thesis by (auto simp: ensure_capacity_def)
    next
      case r1: (Inr u)
      let ?p2 = "p1\<lparr>bp_frames := AList.delete pid (bp_frames p1), bp_evictions := bp_evictions p1 + 1\<rparr>"
      have p': "p' = ?p2" "d' = d1" "r = Inr ()"
        using e full Inr f r1 pid by (auto simp: ensure_capacity_def)
      note look = dict_lookup_delete
      have out: "map_of (bp_frames p1) pid \<noteq> None" using fv same_framesD(1) [of p p1 pid] v by auto
      have dp: "disk_page rd p1 d1 pid = Inr (pf_data v)" using fv r1 by simp
      have "page_view rd (?p2, d1) = page_view rd (p, d)"
      proof
        fix q
        have "page_view rd (?p2, d1) q = page_view rd (p1, d1) q" if "q \<noteq> pid"
          using that by (simp add: page_view_simp look split: option.splits)
        moreover have "page_view rd (?p2, d1) pid = page_view rd (p, d) pid"
          using v dp by (simp add: page_view_simp dict_lookup_delete)
        ultimately show "page_view rd (?p2, d1) q = page_view rd (p, d) q"
          using fv by (cases "q = pid") simp_all
      qed
      moreover have "coherent rd (?p2, d1)"
        using fv by (intro coherentI) (auto simp: look dest: coherentD split: if_splits)
      moreover have "pool_inv ?p2" using fv by (intro pool_inv_delete) simp
      moreover have "\<forall>q g. map_of (bp_frames p) q = Some g \<longrightarrow> is_pinned g \<longrightarrow> map_of (bp_frames ?p2) q = Some g"
        using pinned v cv(2) by (auto simp: look)
      moreover have "\<forall>q. map_of (bp_frames p) q = None \<longrightarrow> map_of (bp_frames ?p2) q = None"
        using fv sf by (simp add: look)
      moreover have "length (bp_frames ?p2) < bp_capacity p"
        using length_delete [OF out] fv sf inv by (simp add: pool_inv_def)
      ultimately show ?thesis using p' fv sf by (simp add: kept_def)
    qed
  qed
qed

lemma ensure_capacity_succeeds:
  assumes "\<And>pid bs d. \<exists>d'. w pid bs d = (Inr (), d')"
    and "length (bp_frames p) < bp_capacity p \<or> (\<exists>f \<in> snd ` set (bp_frames p). \<not> is_pinned f)"
  shows "\<exists>p' d'. ensure_capacity (Some w) (p, d) = (Inr (), p', d')"
proof (cases "length (bp_frames p) < bp_capacity p")
  case False
  with assms(2) obtain v where v: "choose_victim p = Inr v"
    using choose_victim_Inl by (cases "choose_victim p") blast+
  obtain d1 where "w (pf_page_id v) (pf_data v) d = (Inr (), d1)" using assms(1) by blast
  with v False show ?thesis by (simp add: ensure_capacity_def flush_frame_def)
qed (simp add: ensure_capacity_def)

text \<open>Bringing a frame in, once there is room.\<close>

lemma insert_frame_kept:
  assumes inv: "pool_inv p" and coh: "coherent rd (p, d)" and room: "length (bp_frames p) < bp_capacity p"
    and new: "map_of (bp_frames p) pid = None" "0 \<le> pid" and page: "disk_page rd p d pid = Inr page"
    and ra: "record_access p \<lparr>pf_page_id = pid, pf_data = page, pf_pin_count = 1, pf_dirty = False,
      pf_history = []\<rparr> = (p2, f)"
  shows "pool_inv (put_frame f p2)" "coherent rd (put_frame f p2, d)"
    "page_view rd (put_frame f p2, d) = page_view rd (p, d)" "pf_data f = page" "is_pinned f" "pf_page_id f = pid"
    "\<And>q. q \<noteq> pid \<Longrightarrow> map_of (bp_frames (put_frame f p2)) q = map_of (bp_frames p) q"
proof -
  have len: "length page = bp_page_size p"
    using page by (auto simp: disk_page_def rbind_Inr_iff page_data_def zero_bytes_def split: if_splits)
  have k: "0 < bp_lru_k p" using inv by (simp add: pool_inv_def)
  note r = record_access_ok [OF ra k, simplified, OF new(2) len]
  show fields: "pf_data f = page" "is_pinned f" "pf_page_id f = pid"
    using r by (simp_all add: is_pinned_def)
  have p2: "bp_frames p2 = bp_frames p" "bp_capacity p2 = bp_capacity p" "pool_inv p2"
    "disk_page rd p2 = disk_page rd p"
    using r(1) inv by (simp_all add: pool_inv_clock disk_page_def fun_eq_iff)
  show "pool_inv (put_frame f p2)"
    using p2 r room by (intro pool_inv_put) simp_all
  show look: "map_of (bp_frames (put_frame f p2)) q = map_of (bp_frames p) q" if "q \<noteq> pid" for q
    using that fields p2 by simp
  show "coherent rd (put_frame f p2, d)"
    using coh p2 fields page by (intro coherentI) (auto dest: coherentD split: if_splits)
  show "page_view rd (put_frame f p2, d) = page_view rd (p, d)"
    using p2 fields page new by (intro ext) (auto simp: page_view_simp split: option.splits)
qed

lemma pin_kept:
  assumes inv: "pool_inv p" and coh: "coherent rd (p, d)" and f: "map_of (bp_frames p) pid = Some f"
    and e: "pin p f = (p', f')"
  shows "pool_inv p'" "coherent rd (p', d)" "page_view rd (p', d) = page_view rd (p, d)"
    "pf_data f' = pf_data f" "is_pinned f'" "map_of (bp_frames p') pid = Some f'" "pf_page_id f' = pid"
    "\<And>q. q \<noteq> pid \<Longrightarrow> map_of (bp_frames p') q = map_of (bp_frames p) q"
proof -
  have ok: "frame_ok p (pid, f)" using inv f by (rule pool_inv_frame)
  then have fid: "pf_page_id f = pid" by (simp add: frame_ok_def)
  obtain p1 where ra: "record_access p (f\<lparr>pf_pin_count := pf_pin_count f + 1\<rparr>) = (p1, f')"
    and p': "p' = put_frame f' p1" using e by (auto simp: pin_def split: prod.splits)
  have k: "0 < bp_lru_k p" using inv by (simp add: pool_inv_def)
  note r = record_access_ok [OF ra k]
  from ok have r': "p1 = p\<lparr>bp_clock := Suc (bp_clock p)\<rparr>" "pf_page_id f' = pid" "pf_data f' = pf_data f"
    "pf_pin_count f' = pf_pin_count f + 1" "pf_dirty f' = pf_dirty f" "frame_ok p1 (pid, f')"
    using r fid by (simp_all add: frame_ok_def)
  have p1: "bp_frames p1 = bp_frames p" "pool_inv p1" "disk_page rd p1 = disk_page rd p"
    using r'(1) inv by (simp_all add: pool_inv_clock disk_page_def fun_eq_iff)
  show "pool_inv p'" unfolding p' using p1 r' f by (intro pool_inv_put) simp_all
  show "pf_data f' = pf_data f" "pf_page_id f' = pid" by (fact r')+
  show "is_pinned f'" using r' ok by (simp add: is_pinned_def frame_ok_def)
  show "map_of (bp_frames p') pid = Some f'" using r' by (simp add: p')
  show "map_of (bp_frames p') q = map_of (bp_frames p) q" if "q \<noteq> pid" for q
    using that r' p1 by (simp add: p')
  show "coherent rd (p', d)"
    using coh p1 r' f by (intro coherentI) (auto simp: p' dest: coherentD split: if_splits)
  show "page_view rd (p', d) = page_view rd (p, d)"
    using p1 r' f by (intro ext) (auto simp: page_view_simp p' split: option.splits)
qed

lemma kept_counters:
  "coherent rd (p\<lparr>bp_hits := n\<rparr>, d) = coherent rd (p, d)" "coherent rd (p\<lparr>bp_misses := n\<rparr>, d) = coherent rd (p, d)"
  "page_view rd (p\<lparr>bp_hits := n\<rparr>, d) = page_view rd (p, d)" "page_view rd (p\<lparr>bp_misses := n\<rparr>, d) = page_view rd (p, d)"
  by (simp_all add: coherent_def page_view_def disk_page_def fun_eq_iff cong: option.case_cong)

section \<open>Properties\<close>



text \<open>
  Eviction follows LRU-K and fails only when it must. A frame is chosen among the
  unpinned ones, none of them with a smaller pair of K-th last and last access; a fetch of a
  page that can be read fails with CDB-7005 only when the pool is full and every frame is
  pinned.
\<close>

theorem eviction_policy:
  assumes "\<And>pid bs d. \<exists>d'. w pid bs d = (Inr (), d')"
  shows "(case choose_victim p of
       Inl e \<Rightarrow> e = CaracalError ''CDB-7005'' \<and> (\<forall>f \<in> snd ` set (bp_frames p). is_pinned f)
     | Inr v \<Rightarrow> v \<in> snd ` set (bp_frames p) \<and> \<not> is_pinned v
         \<and> (\<forall>g \<in> snd ` set (bp_frames p). \<not> is_pinned g \<longrightarrow> victim_key p v \<le> victim_key p g))
    \<and> (fst (ensure_capacity (Some w) (p, d)) = Inr ()
        \<longleftrightarrow> length (bp_frames p) < bp_capacity p \<or> (\<exists>f \<in> snd ` set (bp_frames p). \<not> is_pinned f))"
proof -
  have "e = CaracalError ''CDB-7005''" if "choose_victim p = Inl e" for e
    using that by (auto simp: choose_victim_def split: list.splits)
  moreover have "length (bp_frames p) < bp_capacity p \<or> (\<exists>f \<in> snd ` set (bp_frames p). \<not> is_pinned f)"
    if "fst (ensure_capacity (Some w) (p, d)) = Inr ()"
    using that choose_victim_Inr [of p] by (auto simp: ensure_capacity_def split: if_splits sum.splits)
  moreover have "fst (ensure_capacity (Some w) (p, d)) = Inr ()"
    if "length (bp_frames p) < bp_capacity p \<or> (\<exists>f \<in> snd ` set (bp_frames p). \<not> is_pinned f)"
    using ensure_capacity_succeeds [of w p d] assms that by fastforce
  ultimately show ?thesis
    using choose_victim_Inl [of p] choose_victim_Inr [of p] by (auto split: sum.splits)
qed

theorem eviction_policy_witness:
  "\<exists>p. buffer_pool_init 2 4 2 = Inr p \<and> choose_victim p = raise_code ''CDB-7005''
    \<and> fst (ensure_capacity (Some (\<lambda>pid bs d. (Inr (), d(pid := bs)))) (p, \<lambda>_. [])) = Inr ()"
proof -
  have "\<exists>p. buffer_pool_init 2 4 2 = Inr p \<and> bp_frames p = [] \<and> bp_capacity p = 2"
    by (simp add: buffer_pool_init_def)
  then obtain p where p: "buffer_pool_init 2 4 2 = Inr p" "bp_frames p = []" "bp_capacity p = 2" by blast
  have "fst (ensure_capacity (Some (\<lambda>pid bs d. (Inr (), d(pid := bs)))) (p, \<lambda>_ :: int. [] :: bytes)) = Inr ()"
    using eviction_policy [of "\<lambda>pid bs d. (Inr (), d(pid := bs))" p "\<lambda>_. []"] p by simp
  with p show ?thesis by (simp add: choose_victim_def)
qed

end
