(* ===== verification/Dict_Store.thy ===== *)
theory Dict_Store
  imports Header
begin

text \<open>
  The global string dictionary (\<open>storage/dict_store.py\<close>): sorted unique strings, looked up by
  binary search, renumbered by \<open>merge\<close> and persisted as a checksummed blob.
\<close>

section \<open>Lookup and merge\<close>

type_synonym dict_store = "string list"

definition dict_store_init :: "string list \<Rightarrow> dict_store" where
  "dict_store_init entries = (if entries = [] then [] else sort (remdups entries))"

text \<open>\<open>bisect.bisect_left\<close>, the loop between \<open>lo\<close> and \<open>hi\<close>.\<close>

function bisect_left :: "string list \<Rightarrow> string \<Rightarrow> nat \<Rightarrow> nat \<Rightarrow> nat" where
  "bisect_left xs v lo hi =
     (if lo < hi then
        let mid = (lo + hi) div 2 in
        if xs ! mid < v then bisect_left xs v (mid + 1) hi else bisect_left xs v lo mid
      else lo)"
  by pat_completeness auto
termination
  by (relation "measure (\<lambda>(xs, v, lo, hi). hi - lo)") auto

declare bisect_left.simps [simp del]

definition id_of :: "dict_store \<Rightarrow> string \<Rightarrow> nat option" where
  "id_of es v =
     (let idx = bisect_left es v 0 (length es) in
      if idx < length es \<and> es ! idx = v then Some idx else None)"

definition str_of :: "dict_store \<Rightarrow> int \<Rightarrow> string result" where
  "str_of es dict_id =
     (if dict_id < 0 \<or> dict_id \<ge> int (length es) then raise_code ''CDB-7041''
      else Inr (es ! nat dict_id))"

fun merge_ids :: "dict_store \<Rightarrow> string list \<Rightarrow> (string, nat) dict \<Rightarrow> (string, nat) dict result" where
  "merge_ids es [] result = Inr result"
| "merge_ids es (v # vs) result =
     (if map_of result v = None then
        (case id_of es v of
           None \<Rightarrow> raise_code ''CDB-7043''
         | Some idx \<Rightarrow> merge_ids es vs (AList.update v idx result))
      else merge_ids es vs result)"

definition dict_merge :: "dict_store \<Rightarrow> string list \<Rightarrow> (string, nat) dict result \<times> dict_store" where
  "dict_merge es inputs =
     (let additions = filter (\<lambda>v. v \<notin> set es) inputs;
          es' = (if additions \<noteq> [] then sort (remdups (es @ additions)) else es)
      in (merge_ids es' inputs [], es'))"

section \<open>Persistence\<close>

definition ENTRY_COUNT_SIZE :: nat where "ENTRY_COUNT_SIZE = 4"
definition FOOTER_SIZE :: nat where "FOOTER_SIZE = 4"

text \<open>The loop \<open>offsets[i + 1] = offsets[i] + len(payload)\<close>.\<close>

fun offsets_from :: "nat \<Rightarrow> bytes list \<Rightarrow> nat list" where
  "offsets_from acc [] = [acc]"
| "offsets_from acc (b # bs) = acc # offsets_from (acc + length b) bs"

text \<open>A little-endian \<open>u64\<close> array: \<open>tobytes\<close> and \<open>np.frombuffer(..., count=n)\<close>.\<close>

definition u64_bytes :: "nat list \<Rightarrow> bytes" where
  "u64_bytes xs = concat (map (le_bytes 8) xs)"

fun read_u64s :: "nat \<Rightarrow> bytes \<Rightarrow> nat list" where
  "read_u64s 0 bs = []"
| "read_u64s (Suc n) bs = le_val (take 8 bs) # read_u64s n (drop 8 bs)"

definition dict_to_bytes :: "dict_store \<Rightarrow> bytes result" where
  "dict_to_bytes es =
     (let encoded = map utf8_encode es;
          offsets = offsets_from 0 encoded;
          blob = concat encoded
      in rbind (pack_u32 (length encoded)) (\<lambda>cnt.
         let body = cnt @ u64_bytes offsets @ blob in
         rbind (pack_header MAGIC FORMAT_VERSION DEFAULT_PAGE_SIZE 0) (\<lambda>header.
         rbind (pack_u32 (crc32 body)) (\<lambda>footer.
         Inr (header @ body @ footer)))))"

definition dict_from_bytes :: "bytes \<Rightarrow> dict_store result" where
  "dict_from_bytes data =
     (if length data < HEADER_SIZE + ENTRY_COUNT_SIZE + FOOTER_SIZE then raise_code ''CDB-7040''
      else if take (length MAGIC) data \<noteq> MAGIC then raise_code ''CDB-7040''
      else
        let body = py_slice HEADER_SIZE (length data - FOOTER_SIZE) data;
            expected_crc = le_val (drop (length data - FOOTER_SIZE) data)
        in
        if crc32 body \<noteq> expected_crc then raise_code ''CDB-7040''
        else
          let cnt = le_val (take ENTRY_COUNT_SIZE body);
              offsets_size = (cnt + 1) * 8
          in
          if ENTRY_COUNT_SIZE + offsets_size > length body then raise_code ''CDB-7040''
          else
            let offsets = read_u64s (cnt + 1) (drop ENTRY_COUNT_SIZE body);
                blob = drop (ENTRY_COUNT_SIZE + offsets_size) body
            in
            if last offsets \<noteq> length blob then raise_code ''CDB-7040''
            else rmap (\<lambda>i. utf8_decode (py_slice (offsets ! i) (offsets ! (i + 1)) blob)) [0..<cnt])"

section \<open>Lemmas\<close>

definition dict_inv :: "dict_store \<Rightarrow> bool" where
  "dict_inv es \<longleftrightarrow> sorted_wrt (<) es"

lemma dict_inv_sort: "dict_inv (sort (remdups xs))"
  by (simp add: dict_inv_def strict_sorted_iff)

text \<open>The loop keeps: everything left of \<open>lo\<close> is smaller, everything from \<open>hi\<close> on is not.\<close>

lemma bisect_left_spec:
  assumes "sorted xs" "hi \<le> length xs" "\<forall>i<lo. xs ! i < v" "\<forall>i. hi \<le> i \<longrightarrow> i < length xs \<longrightarrow> v \<le> xs ! i" "lo \<le> hi"
  shows "bisect_left xs v lo hi \<le> length xs \<and> (\<forall>i<bisect_left xs v lo hi. xs ! i < v)
    \<and> (\<forall>i. bisect_left xs v lo hi \<le> i \<longrightarrow> i < length xs \<longrightarrow> v \<le> xs ! i)"
  using assms
proof (induction xs v lo hi rule: bisect_left.induct)
  case (1 xs v lo hi)
  show ?case
  proof (cases "lo < hi")
    case False
    then have "bisect_left xs v lo hi = lo" by (subst bisect_left.simps) simp
    with False 1(3-7) show ?thesis by auto
  next
    case True
    let ?mid = "(lo + hi) div 2"
    from True have mid: "lo \<le> ?mid" "?mid < hi" by auto
    show ?thesis
    proof (cases "xs ! ?mid < v")
      case less: True
      have l: "\<forall>i<?mid + 1. xs ! i < v"
      proof (intro allI impI)
        fix i assume "i < ?mid + 1"
        then have "xs ! i \<le> xs ! ?mid" using 1(3,4) mid by (intro sorted_nth_mono) auto
        with less show "xs ! i < v" by simp
      qed
      have e: "bisect_left xs v lo hi = bisect_left xs v (?mid + 1) hi"
        using True less by (subst bisect_left.simps) (simp add: Let_def)
      from mid have "?mid + 1 \<le> hi" by simp
      from 1(1) [OF True refl less 1(3,4) l 1(6) this] show ?thesis unfolding e .
    next
      case ge: False
      have g: "\<forall>i. ?mid \<le> i \<longrightarrow> i < length xs \<longrightarrow> v \<le> xs ! i"
      proof (intro allI impI)
        fix i assume "?mid \<le> i" "i < length xs"
        then have "xs ! ?mid \<le> xs ! i" using 1(3) by (intro sorted_nth_mono) auto
        with ge show "v \<le> xs ! i" by simp
      qed
      have e: "bisect_left xs v lo hi = bisect_left xs v lo ?mid"
        using True ge by (subst bisect_left.simps) (simp add: Let_def)
      from mid 1(4) have "?mid \<le> length xs" by simp
      from 1(2) [OF True refl ge 1(3) this 1(5) g mid(1)] show ?thesis unfolding e .
    qed
  qed
qed

lemma id_of_iff:
  assumes inv: "dict_inv es"
  shows "id_of es v = Some i \<longleftrightarrow> i < length es \<and> es ! i = v"
proof -
  from inv have s: "sorted es" by (simp add: dict_inv_def strict_sorted_imp_sorted)
  let ?b = "bisect_left es v 0 (length es)"
  have b: "\<forall>i<?b. es ! i < v" "\<forall>i. ?b \<le> i \<longrightarrow> i < length es \<longrightarrow> v \<le> es ! i"
    using bisect_left_spec [OF s, of "length es" 0 v] by auto
  have "?b = i" if "i < length es" "es ! i = v"
  proof (rule linorder_cases)
    assume "i < ?b" with b(1) that show ?thesis by auto
  next
    assume "?b < i"
    then have "es ! ?b < es ! i"
      using inv that sorted_wrt_nth_less [of "(<)" es ?b i] by (simp add: dict_inv_def)
    with b(2) that \<open>?b < i\<close> show ?thesis by fastforce
  qed simp
  then show ?thesis by (auto simp: id_of_def Let_def split: if_splits)
qed

lemma id_of_None: "dict_inv es \<Longrightarrow> id_of es v = None \<longleftrightarrow> v \<notin> set es"
  using id_of_iff [of es v] by (metis in_set_conv_nth not_None_eq)

lemma merge_ids_spec:
  assumes "dict_inv es" "set vs \<subseteq> set es" "\<forall>v i. map_of res v = Some i \<longrightarrow> id_of es v = Some i"
  shows "\<exists>res'. merge_ids es vs res = Inr res'
    \<and> (\<forall>v. map_of res' v = (if v \<in> set vs then id_of es v else map_of res v))"
  using assms(2,3)
proof (induction vs arbitrary: res)
  case (Cons v vs)
  show ?case
  proof (cases "map_of res v")
    case None
    from Cons.prems(1) obtain i where i: "id_of es v = Some i"
      using id_of_None [OF assms(1), of v] by auto
    have "\<forall>u j. map_of (AList.update v i res) u = Some j \<longrightarrow> id_of es u = Some j"
      using Cons.prems(2) i by (simp add: dict_lookup_update)
    with Cons.IH [of "AList.update v i res"] Cons.prems i None show ?thesis
      by (auto simp: dict_lookup_update)
  next
    case (Some i)
    with Cons.IH [of res] Cons.prems show ?thesis by auto
  qed
qed simp

lemma length_u64_bytes [simp]: "length (u64_bytes xs) = 8 * length xs"
  by (induction xs) (simp_all add: u64_bytes_def)

lemma read_u64s_bytes:
  "\<forall>x \<in> set xs. x < 256 ^ 8 \<Longrightarrow> n = length xs \<Longrightarrow> read_u64s n (u64_bytes xs @ r) = xs"
  by (induction xs arbitrary: n) (auto simp: u64_bytes_def le_val_le_bytes)

lemma length_offsets [simp]: "length (offsets_from acc bs) = Suc (length bs)"
  by (induction bs arbitrary: acc) auto

lemma offsets_nth: "i \<le> length bs \<Longrightarrow> offsets_from acc bs ! i = acc + length (concat (take i bs))"
proof (induction bs arbitrary: acc i)
  case (Cons b bs)
  then show ?case by (cases i) simp_all
qed simp

lemma offsets_last: "last (offsets_from acc bs) = acc + length (concat bs)"
proof -
  have "offsets_from acc bs \<noteq> []" by (cases bs) auto
  then show ?thesis using offsets_nth [of "length bs" bs acc] by (simp add: last_conv_nth)
qed

lemma offsets_bound: "x \<in> set (offsets_from acc bs) \<Longrightarrow> x \<le> acc + length (concat bs)"
  by (induction bs arbitrary: acc) fastforce+

lemma slice_concat:
  assumes "i < length bs"
  shows "py_slice (length (concat (take i bs))) (length (concat (take (Suc i) bs))) (concat bs) = bs ! i"
proof -
  have "concat bs = concat (take i bs) @ bs ! i @ concat (drop (Suc i) bs)"
    using assms by (metis concat.simps(2) concat_append id_take_nth_drop)
  moreover have "length (concat (take (Suc i) bs)) = length (concat (take i bs)) + length (bs ! i)"
    using assms by (simp add: take_Suc_conv_app_nth)
  ultimately show ?thesis by (simp add: py_slice_def)
qed

section \<open>Properties\<close>

text \<open>
  A dictionary file reads back as the dictionary that was written, for strings and sizes
  that fit the fixed-width fields.
\<close>

theorem dict_round_trip:
  assumes py: "\<forall>e \<in> set es. py_str e" and small: "length es < 256 ^ 4" "length (concat es) < 256 ^ 8"
  shows "rbind (dict_to_bytes es) dict_from_bytes = Inr es"
proof -
  let ?enc = "map utf8_encode es"
  let ?offs = "offsets_from 0 ?enc" and ?blob = "concat (map utf8_encode es)"
  let ?body = "le_bytes 4 (length es) @ u64_bytes ?offs @ ?blob"
  have blob: "length ?blob = length (concat es)" by (simp add: length_concat comp_def)
  have tb: "dict_to_bytes es = Inr (file_header @ ?body @ le_bytes 4 (crc32 ?body))"
    using small(1) by (simp add: dict_to_bytes_def Let_def struct_pack_def pack_header_default)
  let ?data = "file_header @ ?body @ le_bytes 4 (crc32 ?body)"
  have offs: "read_u64s (length es + 1) (u64_bytes ?offs @ ?blob) = ?offs"
  proof (rule read_u64s_bytes)
    show "\<forall>x \<in> set ?offs. x < 256 ^ 8"
      using offsets_bound [of _ 0 ?enc] small(2) blob by fastforce
  qed simp
  have dec: "rmap (\<lambda>i. utf8_decode (py_slice (?offs ! i) (?offs ! (i + 1)) ?blob)) [0..<length es] = Inr es"
  proof -
    have "rmap (\<lambda>i. utf8_decode (py_slice (?offs ! i) (?offs ! (i + 1)) ?blob)) (map (\<lambda>i. i) [0..<length es])
        = Inr (map (\<lambda>i. es ! i) [0..<length es])"
    proof (rule rmap_Inr_all)
      fix i assume "i \<in> set [0..<length es]"
      then have i: "i < length es" by simp
      then have "py_slice (?offs ! i) (?offs ! (i + 1)) ?blob = utf8_encode (es ! i)"
        using slice_concat [of i ?enc] by (simp add: offsets_nth)
      with i py show "utf8_decode (py_slice (?offs ! i) (?offs ! (i + 1)) ?blob) = Inr (es ! i)"
        by (simp add: utf8_decode_encode)
    qed
    then show ?thesis by (simp add: map_nth)
  qed
  have body: "py_slice HEADER_SIZE (length ?data - FOOTER_SIZE) ?data = ?body"
    "drop (length ?data - FOOTER_SIZE) ?data = le_bytes 4 (crc32 ?body)"
    by (simp_all add: py_slice_def FOOTER_SIZE_def)
  have "dict_from_bytes ?data = Inr es"
    unfolding dict_from_bytes_def body Let_def
    using dec offs small(1) offsets_last [of 0 ?enc]
    by (simp add: HEADER_SIZE_def ENTRY_COUNT_SIZE_def FOOTER_SIZE_def le_val_le_bytes)
  with tb show ?thesis by simp
qed

theorem dict_round_trip_witness:
  "rbind (dict_to_bytes [''http://a'', ''http://b'']) dict_from_bytes = Inr [''http://a'', ''http://b'']"
  by (rule dict_round_trip) (simp_all add: py_str_ascii)

text \<open>
  C14: lookups and merges. On a sorted dictionary, the binary search finds exactly the position
  of a string, and \<open>str_of\<close> inverts it; a merge always succeeds, keeps the dictionary sorted
  with exactly the old and the new strings, and returns for every input its number in the
  merged dictionary.
\<close>

theorem dict_merge_correct:
  assumes "dict_inv es"
  shows "\<exists>ids es'. dict_merge es vs = (Inr ids, es') \<and> dict_inv es' \<and> set es' = set es \<union> set vs
    \<and> (\<forall>v i. map_of ids v = Some i \<longleftrightarrow> v \<in> set vs \<and> str_of es' (int i) = Inr v)"
proof -
  let ?add = "filter (\<lambda>v. v \<notin> set es) vs"
  let ?es = "if ?add \<noteq> [] then sort (remdups (es @ ?add)) else es"
  have inv: "dict_inv ?es" using assms dict_inv_sort by simp
  have set: "set ?es = set es \<union> set vs" by (auto simp: filter_empty_conv)
  from merge_ids_spec [OF inv, of vs "[]"] set obtain ids where
    ids: "merge_ids ?es vs [] = Inr ids" "\<forall>v. map_of ids v = (if v \<in> set vs then id_of ?es v else None)"
    by auto
  have "map_of ids v = Some i \<longleftrightarrow> v \<in> set vs \<and> str_of ?es (int i) = Inr v" for v i
    using ids(2) id_of_iff [OF inv, of v i] by (auto simp: str_of_def)
  then show ?thesis using inv set ids(1)
    by (intro exI [of _ ids] exI [of _ ?es]) (simp add: dict_merge_def Let_def)
qed

theorem dict_merge_correct_witness:
  "\<exists>ids es'. dict_merge [''b''] [''c'', ''a'', ''c''] = (Inr ids, es') \<and> set es' = {''a'', ''b'', ''c''}
    \<and> dict_inv es'"
  using dict_merge_correct [of "[''b'']" "[''c'', ''a'', ''c'']"] by (auto simp: dict_inv_def)

end
