(* ===== verification/Catalog_Defs.thy ===== *)
theory Catalog_Defs
  imports Json
begin

text \<open>
  The definitions a catalogue is made of (\<open>onto/catalog.py\<close>, the enumerations and dataclasses)
  with their \<open>to_dict\<close> and \<open>from_dict\<close> methods. Each pair is an interpretation of
  \<open>json_codec\<close>.
\<close>

section \<open>Enumerations\<close>

text \<open>
  The members of an \<open>IntEnum\<close> are numbered from 0 in the order of their declaration; calling
  the class with another number raises \<open>ValueError\<close>.
\<close>

fun enum_index :: "'a \<Rightarrow> 'a list \<Rightarrow> int" where
  "enum_index k [] = 0"
| "enum_index k (x # xs) = (if k = x then 0 else 1 + enum_index k xs)"

definition enum_of :: "int \<Rightarrow> 'a list \<Rightarrow> 'a result" where
  "enum_of i xs = (if 0 \<le> i \<and> i < int (length xs) then Inr (xs ! nat i) else Inl ValueError)"

lemma enum_index_bounds: "0 \<le> enum_index k xs"
  by (induction xs) auto

lemma enum_round: "k \<in> set xs \<Longrightarrow> distinct xs \<Longrightarrow> enum_of (enum_index k xs) xs = Inr k"
proof (induction xs)
  case (Cons x xs)
  have "nat (1 + enum_index k xs) = Suc (nat (enum_index k xs))"
    using enum_index_bounds [of k xs] by simp
  with Cons enum_index_bounds [of k xs] show ?case
    by (auto simp: enum_of_def split: if_splits)
qed simp

datatype type_kind =
    TK_UNKNOWN | TK_BOOL | TK_INT8 | TK_INT16 | TK_INT32 | TK_INT64 | TK_UINT8 | TK_UINT16
    | TK_UINT32 | TK_UINT64 | TK_FLOAT32 | TK_FLOAT64 | TK_DECIMAL | TK_STRING | TK_BYTES
    | TK_DATE | TK_TIME | TK_DATETIME | TK_DURATION | TK_IRI | TK_UUID | TK_NODE | TK_EDGE
    | TK_TRIPLE | TK_PATH | TK_SUBGRAPH | TK_CLASS | TK_PROPERTY | TK_EMBEDDING |
    TK_ADJACENCY | TK_LIST | TK_MAP | TK_STRUCT | TK_UNION | TK_VECTOR | TK_MATRIX

definition type_kinds :: "type_kind list" where
  "type_kinds =
     [TK_UNKNOWN, TK_BOOL, TK_INT8, TK_INT16, TK_INT32, TK_INT64, TK_UINT8, TK_UINT16,
      TK_UINT32, TK_UINT64, TK_FLOAT32, TK_FLOAT64, TK_DECIMAL, TK_STRING, TK_BYTES,
      TK_DATE, TK_TIME, TK_DATETIME, TK_DURATION, TK_IRI, TK_UUID, TK_NODE, TK_EDGE,
      TK_TRIPLE, TK_PATH, TK_SUBGRAPH, TK_CLASS, TK_PROPERTY, TK_EMBEDDING, TK_ADJACENCY,
      TK_LIST, TK_MAP, TK_STRUCT, TK_UNION, TK_VECTOR, TK_MATRIX]"

definition type_kind_int :: "type_kind \<Rightarrow> int" where
  "type_kind_int k = enum_index k type_kinds"

definition type_kind_of :: "int \<Rightarrow> type_kind result" where
  "type_kind_of i = enum_of i type_kinds"

lemma type_kind_round [simp]: "type_kind_of (type_kind_int k) = Inr k"
proof -
  have "k \<in> set type_kinds" by (cases k) (simp_all add: type_kinds_def)
  moreover have "distinct type_kinds" by (simp add: type_kinds_def)
  ultimately show ?thesis unfolding type_kind_of_def type_kind_int_def by (rule enum_round)
qed

datatype property_kind =
    PK_OBJECT | PK_DATATYPE

definition property_kinds :: "property_kind list" where
  "property_kinds =
     [PK_OBJECT, PK_DATATYPE]"

definition property_kind_int :: "property_kind \<Rightarrow> int" where
  "property_kind_int k = enum_index k property_kinds"

definition property_kind_of :: "int \<Rightarrow> property_kind result" where
  "property_kind_of i = enum_of i property_kinds"

lemma property_kind_round [simp]: "property_kind_of (property_kind_int k) = Inr k"
proof -
  have "k \<in> set property_kinds" by (cases k) (simp_all add: property_kinds_def)
  moreover have "distinct property_kinds" by (simp add: property_kinds_def)
  ultimately show ?thesis unfolding property_kind_of_def property_kind_int_def by (rule enum_round)
qed

datatype property_characteristic =
    PC_SYMMETRIC | PC_TRANSITIVE | PC_REFLEXIVE | PC_INVERSE | PC_FUNCTIONAL

definition property_characteristics :: "property_characteristic list" where
  "property_characteristics =
     [PC_SYMMETRIC, PC_TRANSITIVE, PC_REFLEXIVE, PC_INVERSE, PC_FUNCTIONAL]"

definition property_characteristic_int :: "property_characteristic \<Rightarrow> int" where
  "property_characteristic_int k = enum_index k property_characteristics"

definition property_characteristic_of :: "int \<Rightarrow> property_characteristic result" where
  "property_characteristic_of i = enum_of i property_characteristics"

lemma property_characteristic_round [simp]: "property_characteristic_of (property_characteristic_int k) = Inr k"
proof -
  have "k \<in> set property_characteristics" by (cases k) (simp_all add: property_characteristics_def)
  moreover have "distinct property_characteristics" by (simp add: property_characteristics_def)
  ultimately show ?thesis unfolding property_characteristic_of_def property_characteristic_int_def by (rule enum_round)
qed

datatype constraint_kind =
    CK_REQUIRED | CK_UNIQUE | CK_CHECK | CK_DEFAULT

definition constraint_kinds :: "constraint_kind list" where
  "constraint_kinds =
     [CK_REQUIRED, CK_UNIQUE, CK_CHECK, CK_DEFAULT]"

definition constraint_kind_int :: "constraint_kind \<Rightarrow> int" where
  "constraint_kind_int k = enum_index k constraint_kinds"

definition constraint_kind_of :: "int \<Rightarrow> constraint_kind result" where
  "constraint_kind_of i = enum_of i constraint_kinds"

lemma constraint_kind_round [simp]: "constraint_kind_of (constraint_kind_int k) = Inr k"
proof -
  have "k \<in> set constraint_kinds" by (cases k) (simp_all add: constraint_kinds_def)
  moreover have "distinct constraint_kinds" by (simp add: constraint_kinds_def)
  ultimately show ?thesis unfolding constraint_kind_of_def constraint_kind_int_def by (rule enum_round)
qed

datatype index_kind =
    IK_CSR | IK_CSC | IK_HNSW | IK_IVF | IK_BTREE | IK_HASH | IK_BITMAP | IK_ZONE_MAP

definition index_kinds :: "index_kind list" where
  "index_kinds =
     [IK_CSR, IK_CSC, IK_HNSW, IK_IVF, IK_BTREE, IK_HASH, IK_BITMAP, IK_ZONE_MAP]"

definition index_kind_int :: "index_kind \<Rightarrow> int" where
  "index_kind_int k = enum_index k index_kinds"

definition index_kind_of :: "int \<Rightarrow> index_kind result" where
  "index_kind_of i = enum_of i index_kinds"

lemma index_kind_round [simp]: "index_kind_of (index_kind_int k) = Inr k"
proof -
  have "k \<in> set index_kinds" by (cases k) (simp_all add: index_kinds_def)
  moreover have "distinct index_kinds" by (simp add: index_kinds_def)
  ultimately show ?thesis unfolding index_kind_of_def index_kind_int_def by (rule enum_round)
qed

datatype sort_direction =
    SD_NONE | SD_ASC | SD_DESC

definition sort_directions :: "sort_direction list" where
  "sort_directions =
     [SD_NONE, SD_ASC, SD_DESC]"

definition sort_direction_int :: "sort_direction \<Rightarrow> int" where
  "sort_direction_int k = enum_index k sort_directions"

definition sort_direction_of :: "int \<Rightarrow> sort_direction result" where
  "sort_direction_of i = enum_of i sort_directions"

lemma sort_direction_round [simp]: "sort_direction_of (sort_direction_int k) = Inr k"
proof -
  have "k \<in> set sort_directions" by (cases k) (simp_all add: sort_directions_def)
  moreover have "distinct sort_directions" by (simp add: sort_directions_def)
  ultimately show ?thesis unfolding sort_direction_of_def sort_direction_int_def by (rule enum_round)
qed

section \<open>Types\<close>

datatype type_ref = TypeRef
  (tr_kind: type_kind) (tr_name: "string option") (tr_params: "type_ref list")
  (tr_int_params: "int list") (tr_precision: int) (tr_scale: int) (tr_nullable: bool)

text \<open>The nesting depth of a value bounds the recursion of \<open>from_dict\<close>.\<close>

fun json_depth :: "json \<Rightarrow> nat" where
  "json_depth (JArr vs) = Suc (foldr max (map json_depth vs) 0)"
| "json_depth (JObj kvs) = Suc (foldr max (map (\<lambda>(k, v). json_depth v) kvs) 0)"
| "json_depth v = 0"

lemma foldr_max_ge: "x \<in> set xs \<Longrightarrow> x \<le> foldr max xs (0 :: nat)"
  by (induction xs) auto

lemma depth_items:
  assumes "get_items v k = Inr items" "x \<in> set items"
  shows "json_depth x < json_depth v"
proof -
  from assms(1) obtain kvs u where v: "v = JObj kvs"
    and u: "u = (case map_of kvs k of None \<Rightarrow> JArr [] | Some y \<Rightarrow> y)" "json_iter u = Inr items"
    by (auto simp: get_items_def json_get_def rbind_Inr_iff split: json.splits)
  have "json_depth x < json_depth u \<or> json_depth x = 0"
    using u(2) assms(2) foldr_max_ge [of "json_depth x"]
    by (auto simp: json_iter_def less_Suc_eq_le split: json.splits)
  moreover have "map_of kvs k = Some u \<or> items = []"
    using u by (auto simp: json_iter_def split: option.splits)
  then have "json_depth u < json_depth v"
    using assms(2) foldr_max_ge [of "json_depth u" "map (\<lambda>(k, v). json_depth v) kvs"] v
    by (auto simp: less_Suc_eq_le dest!: map_of_SomeD) force
  ultimately show ?thesis by auto
qed

lemma rbind_cong [fundef_cong]:
  "r = r' \<Longrightarrow> (\<And>x. r' = Inr x \<Longrightarrow> f x = f' x) \<Longrightarrow> rbind r f = rbind r' f'"
  by (cases r') auto

lemma rmap_cong [fundef_cong]: "xs = ys \<Longrightarrow> (\<And>x. x \<in> set ys \<Longrightarrow> f x = g x) \<Longrightarrow> rmap f xs = rmap g ys"
  by (induction ys arbitrary: xs) auto

function type_ref_from_dict :: "json \<Rightarrow> type_ref result" where
  "type_ref_from_dict v =
     rbind (get_int v ''kind'' 0) (\<lambda>ki. rbind (type_kind_of ki) (\<lambda>kind.
     rbind (get_opt_str v ''name'') (\<lambda>name.
     rbind (get_items v ''params'') (\<lambda>items. rbind (rmap type_ref_from_dict items) (\<lambda>params.
     rbind (get_list json_int v ''int_params'') (\<lambda>int_params.
     rbind (get_int v ''precision'' 0) (\<lambda>precision.
     rbind (get_int v ''scale'' 0) (\<lambda>scale.
     rbind (get_bool v ''nullable'' True) (\<lambda>nullable.
     Inr (TypeRef kind name params int_params precision scale nullable))))))))))"
  by pat_completeness auto
termination
  by (relation "measure json_depth") (auto intro: depth_items)

declare type_ref_from_dict.simps [simp del]

fun type_ref_to_dict :: "type_ref \<Rightarrow> json" where
  "type_ref_to_dict (TypeRef kind name params int_params precision scale nullable) =
     JObj [(''kind'', JInt (type_kind_int kind)), (''name'', opt_json name),
           (''params'', JArr (map type_ref_to_dict params)),
           (''int_params'', JArr (map JInt int_params)), (''precision'', JInt precision),
           (''scale'', JInt scale), (''nullable'', JBool nullable)]"

lemma rmap_json_int [simp]: "rmap json_int (map JInt xs) = Inr xs"
  by (rule rmap_id) simp

lemma type_ref_wf [simp]: "json_wf (type_ref_to_dict t)"
  by (induction t) (simp add: list_all_iff)

lemma type_ref_round: "type_ref_from_dict (sort_keys (type_ref_to_dict t)) = Inr t"
proof (induction t)
  case (TypeRef kind name params int_params precision scale nullable)
  have "rmap type_ref_from_dict (map (\<lambda>t. sort_keys (type_ref_to_dict t)) params) = Inr params"
    by (rule rmap_id) (rule TypeRef.IH)
  then show ?case
    by (subst type_ref_from_dict.simps) (simp add: field_defs json_simps comp_def list_all_iff)
qed

lemma type_ref_not_null [simp]: "sort_keys (type_ref_to_dict t) \<noteq> JNull"
  by (cases t) (simp add: sort_keys.simps(2))

interpretation type_ref: json_codec type_ref_to_dict type_ref_from_dict
  by unfold_locales (auto simp: type_ref_round)

lemma rmap_characteristics [simp]:
  "rmap (\<lambda>x. rbind (json_int x) property_characteristic_of)
     (map (\<lambda>x. JInt (property_characteristic_int x)) cs) = Inr cs"
  by (rule rmap_id) simp

section \<open>Definitions\<close>

record constraint_def =
  co_kind :: constraint_kind
  co_expr :: "string option"

definition constraint_def_to_dict :: "constraint_def \<Rightarrow> json" where
  "constraint_def_to_dict d =
     JObj [(''kind'', JInt (constraint_kind_int (co_kind d))),
           (''expr'', opt_json (co_expr d))]"

definition constraint_def_from_dict :: "json \<Rightarrow> constraint_def result" where
  "constraint_def_from_dict v =
     rbind (rbind (item_int v ''kind'') constraint_kind_of) (\<lambda>kind.
     rbind (get_opt_str v ''expr'') (\<lambda>expr.
     Inr \<lparr>co_kind = kind, co_expr = expr\<rparr>))"

interpretation constraint_def: json_codec constraint_def_to_dict constraint_def_from_dict
  by unfold_locales
    (auto simp: constraint_def_to_dict_def constraint_def_from_dict_def field_defs json_simps comp_def list_all_iff
       split: option.splits)

record field_def =
  fd_name :: string
  fd_type :: type_ref
  fd_constraints :: "constraint_def list"
  fd_default_expr :: "string option"
  fd_doc :: "string option"

definition field_def_to_dict :: "field_def \<Rightarrow> json" where
  "field_def_to_dict d =
     JObj [(''name'', JStr (fd_name d)),
           (''type'', type_ref_to_dict (fd_type d)),
           (''constraints'', JArr (map constraint_def_to_dict (fd_constraints d))),
           (''default_expr'', opt_json (fd_default_expr d)),
           (''doc'', opt_json (fd_doc d))]"

definition field_def_from_dict :: "json \<Rightarrow> field_def result" where
  "field_def_from_dict v =
     rbind (item_str v ''name'') (\<lambda>name.
     rbind (rbind (json_item v ''type'') type_ref_from_dict) (\<lambda>ty.
     rbind (get_list constraint_def_from_dict v ''constraints'') (\<lambda>constraints.
     rbind (get_opt_str v ''default_expr'') (\<lambda>default_expr.
     rbind (get_opt_str v ''doc'') (\<lambda>doc.
     Inr \<lparr>fd_name = name, fd_type = ty, fd_constraints = constraints, fd_default_expr =
          default_expr, fd_doc = doc\<rparr>)))))"

interpretation field_def: json_codec field_def_to_dict field_def_from_dict
  by unfold_locales
    (auto simp: field_def_to_dict_def field_def_from_dict_def field_defs json_simps comp_def list_all_iff
      constraint_def.round_trip constraint_def.wf constraint_def.list_round_trip type_ref.round_trip type_ref.wf type_ref.list_round_trip split: option.splits)

record class_def =
  cd_cid :: int
  cd_iri :: string
  cd_local_name :: "string option"
  cd_superclass_iris :: "string list"
  cd_fields :: "field_def list"
  cd_doc :: "string option"

definition class_def_to_dict :: "class_def \<Rightarrow> json" where
  "class_def_to_dict d =
     JObj [(''cid'', JInt (cd_cid d)),
           (''iri'', JStr (cd_iri d)),
           (''local_name'', opt_json (cd_local_name d)),
           (''superclass_iris'', strs_json (cd_superclass_iris d)),
           (''fields'', JArr (map field_def_to_dict (cd_fields d))),
           (''doc'', opt_json (cd_doc d))]"

definition class_def_from_dict :: "json \<Rightarrow> class_def result" where
  "class_def_from_dict v =
     rbind (item_int v ''cid'') (\<lambda>cid.
     rbind (item_str v ''iri'') (\<lambda>iri.
     rbind (get_opt_str v ''local_name'') (\<lambda>local_name.
     rbind (get_strs v ''superclass_iris'') (\<lambda>superclass_iris.
     rbind (get_list field_def_from_dict v ''fields'') (\<lambda>fields.
     rbind (get_opt_str v ''doc'') (\<lambda>doc.
     Inr \<lparr>cd_cid = cid, cd_iri = iri, cd_local_name = local_name, cd_superclass_iris =
          superclass_iris, cd_fields = fields, cd_doc = doc\<rparr>))))))"

interpretation class_def: json_codec class_def_to_dict class_def_from_dict
  by unfold_locales
    (auto simp: class_def_to_dict_def class_def_from_dict_def field_defs json_simps comp_def list_all_iff
      field_def.round_trip field_def.wf field_def.list_round_trip split: option.splits)

record property_def =
  pd_pid :: int
  pd_iri :: string
  pd_local_name :: "string option"
  pd_kind :: property_kind
  pd_superproperty_iris :: "string list"
  pd_domain_iris :: "string list"
  pd_range_type :: "type_ref option"
  pd_range_iris :: "string list"
  pd_characteristics :: "property_characteristic list"
  pd_fields :: "field_def list"
  pd_inverse_iri :: "string option"
  pd_doc :: "string option"

definition property_def_to_dict :: "property_def \<Rightarrow> json" where
  "property_def_to_dict d =
     JObj [(''pid'', JInt (pd_pid d)),
           (''iri'', JStr (pd_iri d)),
           (''local_name'', opt_json (pd_local_name d)),
           (''kind'', JInt (property_kind_int (pd_kind d))),
           (''superproperty_iris'', strs_json (pd_superproperty_iris d)),
           (''domain_iris'', strs_json (pd_domain_iris d)),
           (''range_type'', (case pd_range_type d of None \<Rightarrow> JNull | Some t \<Rightarrow> type_ref_to_dict t)),
           (''range_iris'', strs_json (pd_range_iris d)),
           (''characteristics'', JArr (map (\<lambda>x. JInt (property_characteristic_int x)) (pd_characteristics d))),
           (''fields'', JArr (map field_def_to_dict (pd_fields d))),
           (''inverse_iri'', opt_json (pd_inverse_iri d)),
           (''doc'', opt_json (pd_doc d))]"

definition property_def_from_dict :: "json \<Rightarrow> property_def result" where
  "property_def_from_dict v =
     rbind (json_get v ''range_type'' JNull) (\<lambda>range_json.
     rbind (item_int v ''pid'') (\<lambda>pid.
     rbind (item_str v ''iri'') (\<lambda>iri.
     rbind (get_opt_str v ''local_name'') (\<lambda>local_name.
     rbind (rbind (get_int v ''kind'' 0) property_kind_of) (\<lambda>kind.
     rbind (get_strs v ''superproperty_iris'') (\<lambda>superproperty_iris.
     rbind (get_strs v ''domain_iris'') (\<lambda>domain_iris.
     rbind (if range_json = JNull then Inr None else rbind (type_ref_from_dict range_json) (\<lambda>t. Inr (Some t))) (\<lambda>range_type.
     rbind (get_strs v ''range_iris'') (\<lambda>range_iris.
     rbind (get_list (\<lambda>x. rbind (json_int x) property_characteristic_of) v ''characteristics'') (\<lambda>characteristics.
     rbind (get_list field_def_from_dict v ''fields'') (\<lambda>fields.
     rbind (get_opt_str v ''inverse_iri'') (\<lambda>inverse_iri.
     rbind (get_opt_str v ''doc'') (\<lambda>doc.
     Inr \<lparr>pd_pid = pid, pd_iri = iri, pd_local_name = local_name, pd_kind = kind,
          pd_superproperty_iris = superproperty_iris, pd_domain_iris = domain_iris,
          pd_range_type = range_type, pd_range_iris = range_iris, pd_characteristics =
          characteristics, pd_fields = fields, pd_inverse_iri = inverse_iri, pd_doc =
          doc\<rparr>)))))))))))))"

interpretation property_def: json_codec property_def_to_dict property_def_from_dict
  by unfold_locales
    (auto simp: property_def_to_dict_def property_def_from_dict_def field_defs json_simps comp_def list_all_iff
      field_def.round_trip field_def.wf field_def.list_round_trip type_ref.round_trip type_ref.wf type_ref.list_round_trip split: option.splits)

record graph_def =
  gd_gid :: int
  gd_name :: string
  gd_ontology_iris :: "string list"
  gd_class_iris :: "string list"
  gd_property_iris :: "string list"
  gd_doc :: "string option"

definition graph_def_to_dict :: "graph_def \<Rightarrow> json" where
  "graph_def_to_dict d =
     JObj [(''gid'', JInt (gd_gid d)),
           (''name'', JStr (gd_name d)),
           (''ontology_iris'', strs_json (gd_ontology_iris d)),
           (''class_iris'', strs_json (gd_class_iris d)),
           (''property_iris'', strs_json (gd_property_iris d)),
           (''doc'', opt_json (gd_doc d))]"

definition graph_def_from_dict :: "json \<Rightarrow> graph_def result" where
  "graph_def_from_dict v =
     rbind (item_int v ''gid'') (\<lambda>gid.
     rbind (item_str v ''name'') (\<lambda>name.
     rbind (get_strs v ''ontology_iris'') (\<lambda>ontology_iris.
     rbind (get_strs v ''class_iris'') (\<lambda>class_iris.
     rbind (get_strs v ''property_iris'') (\<lambda>property_iris.
     rbind (get_opt_str v ''doc'') (\<lambda>doc.
     Inr \<lparr>gd_gid = gid, gd_name = name, gd_ontology_iris = ontology_iris, gd_class_iris =
          class_iris, gd_property_iris = property_iris, gd_doc = doc\<rparr>))))))"

interpretation graph_def: json_codec graph_def_to_dict graph_def_from_dict
  by unfold_locales
    (auto simp: graph_def_to_dict_def graph_def_from_dict_def field_defs json_simps comp_def list_all_iff
       split: option.splits)

record index_option_def =
  io_key :: string
  io_value :: "string option"

definition index_option_def_to_dict :: "index_option_def \<Rightarrow> json" where
  "index_option_def_to_dict d =
     JObj [(''key'', JStr (io_key d)),
           (''value'', opt_json (io_value d))]"

definition index_option_def_from_dict :: "json \<Rightarrow> index_option_def result" where
  "index_option_def_from_dict v =
     rbind (item_str v ''key'') (\<lambda>key.
     rbind (get_opt_str v ''value'') (\<lambda>val.
     Inr \<lparr>io_key = key, io_value = val\<rparr>))"

interpretation index_option_def: json_codec index_option_def_to_dict index_option_def_from_dict
  by unfold_locales
    (auto simp: index_option_def_to_dict_def index_option_def_from_dict_def field_defs json_simps comp_def list_all_iff
       split: option.splits)

record index_def =
  id_iid :: int
  id_name :: string
  id_kind :: index_kind
  id_target_class_iri :: "string option"
  id_target_property_iri :: "string option"
  id_fields :: "string list"
  id_sort :: sort_direction
  id_options :: "index_option_def list"
  id_unique :: bool

definition index_def_to_dict :: "index_def \<Rightarrow> json" where
  "index_def_to_dict d =
     JObj [(''iid'', JInt (id_iid d)),
           (''name'', JStr (id_name d)),
           (''kind'', JInt (index_kind_int (id_kind d))),
           (''target_class_iri'', opt_json (id_target_class_iri d)),
           (''target_property_iri'', opt_json (id_target_property_iri d)),
           (''fields'', strs_json (id_fields d)),
           (''sort'', JInt (sort_direction_int (id_sort d))),
           (''options'', JArr (map index_option_def_to_dict (id_options d))),
           (''unique'', JBool (id_unique d))]"

definition index_def_from_dict :: "json \<Rightarrow> index_def result" where
  "index_def_from_dict v =
     rbind (item_int v ''iid'') (\<lambda>iid.
     rbind (item_str v ''name'') (\<lambda>name.
     rbind (rbind (item_int v ''kind'') index_kind_of) (\<lambda>kind.
     rbind (get_opt_str v ''target_class_iri'') (\<lambda>target_class_iri.
     rbind (get_opt_str v ''target_property_iri'') (\<lambda>target_property_iri.
     rbind (get_strs v ''fields'') (\<lambda>fields.
     rbind (rbind (get_int v ''sort'' 0) sort_direction_of) (\<lambda>srt.
     rbind (get_list index_option_def_from_dict v ''options'') (\<lambda>options.
     rbind (get_bool v ''unique'' False) (\<lambda>unique.
     Inr \<lparr>id_iid = iid, id_name = name, id_kind = kind, id_target_class_iri = target_class_iri,
          id_target_property_iri = target_property_iri, id_fields = fields, id_sort =
          srt, id_options = options, id_unique = unique\<rparr>)))))))))"

interpretation index_def: json_codec index_def_to_dict index_def_from_dict
  by unfold_locales
    (auto simp: index_def_to_dict_def index_def_from_dict_def field_defs json_simps comp_def list_all_iff
      index_option_def.round_trip index_option_def.wf index_option_def.list_round_trip split: option.splits)

record prefix_def =
  xd_prefix :: string
  xd_iri :: string

definition prefix_def_to_dict :: "prefix_def \<Rightarrow> json" where
  "prefix_def_to_dict d =
     JObj [(''prefix'', JStr (xd_prefix d)),
           (''iri'', JStr (xd_iri d))]"

definition prefix_def_from_dict :: "json \<Rightarrow> prefix_def result" where
  "prefix_def_from_dict v =
     rbind (item_str v ''prefix'') (\<lambda>pre.
     rbind (item_str v ''iri'') (\<lambda>iri.
     Inr \<lparr>xd_prefix = pre, xd_iri = iri\<rparr>))"

interpretation prefix_def: json_codec prefix_def_to_dict prefix_def_from_dict
  by unfold_locales
    (auto simp: prefix_def_to_dict_def prefix_def_from_dict_def field_defs json_simps comp_def list_all_iff
       split: option.splits)

record ontology_def =
  od_iri :: string
  od_base_iri :: "string option"
  od_prefixes :: "prefix_def list"
  od_class_iris :: "string list"
  od_property_iris :: "string list"
  od_imported_iris :: "string list"
  od_doc :: "string option"

definition ontology_def_to_dict :: "ontology_def \<Rightarrow> json" where
  "ontology_def_to_dict d =
     JObj [(''iri'', JStr (od_iri d)),
           (''base_iri'', opt_json (od_base_iri d)),
           (''prefixes'', JArr (map prefix_def_to_dict (od_prefixes d))),
           (''class_iris'', strs_json (od_class_iris d)),
           (''property_iris'', strs_json (od_property_iris d)),
           (''imported_iris'', strs_json (od_imported_iris d)),
           (''doc'', opt_json (od_doc d))]"

definition ontology_def_from_dict :: "json \<Rightarrow> ontology_def result" where
  "ontology_def_from_dict v =
     rbind (item_str v ''iri'') (\<lambda>iri.
     rbind (get_opt_str v ''base_iri'') (\<lambda>base_iri.
     rbind (get_list prefix_def_from_dict v ''prefixes'') (\<lambda>prefixes.
     rbind (get_strs v ''class_iris'') (\<lambda>class_iris.
     rbind (get_strs v ''property_iris'') (\<lambda>property_iris.
     rbind (get_strs v ''imported_iris'') (\<lambda>imported_iris.
     rbind (get_opt_str v ''doc'') (\<lambda>doc.
     Inr \<lparr>od_iri = iri, od_base_iri = base_iri, od_prefixes = prefixes, od_class_iris =
          class_iris, od_property_iris = property_iris, od_imported_iris =
          imported_iris, od_doc = doc\<rparr>)))))))"

interpretation ontology_def: json_codec ontology_def_to_dict ontology_def_from_dict
  by unfold_locales
    (auto simp: ontology_def_to_dict_def ontology_def_from_dict_def field_defs json_simps comp_def list_all_iff
      prefix_def.round_trip prefix_def.wf prefix_def.list_round_trip split: option.splits)

end
