(* ===== verification/Catalog.thy ===== *)
theory Catalog
  imports Catalog_Defs Bundle
begin

text \<open>
  The catalogue of a bundle (\<open>onto/catalog.py\<close>, class \<open>Catalog\<close> and the loader): registering
  classes, properties, graphs and indexes, and the catalogue file. \<open>now\<close> stands for
  \<open>utc_now_iso()\<close>. The manifest's \<open>catalog_file\<close> is taken as one path component.
\<close>

section \<open>State\<close>

definition CATALOG_ENCODING :: string where "CATALOG_ENCODING = ''caracal.catalog.v1+json''"

record catalog =
  c_format_version :: int
  c_catalog_id :: "string option"
  c_created_at :: string
  c_updated_at :: string
  c_ontologies :: "ontology_def list"
  c_classes :: "class_def list"
  c_properties :: "property_def list"
  c_graphs :: "graph_def list"
  c_indexes :: "index_def list"

definition catalog_empty :: "string \<Rightarrow> string option \<Rightarrow> catalog" where
  "catalog_empty now catalog_id =
     \<lparr>c_format_version = int FORMAT_VERSION, c_catalog_id = catalog_id, c_created_at = now,
      c_updated_at = now, c_ontologies = [], c_classes = [], c_properties = [], c_graphs = [],
      c_indexes = []\<rparr>"

definition catalog_to_dict :: "catalog \<Rightarrow> json" where
  "catalog_to_dict c =
     JObj [(''format_version'', JInt (c_format_version c)),
           (''catalog_id'', opt_json (c_catalog_id c)),
           (''created_at'', JStr (c_created_at c)),
           (''updated_at'', JStr (c_updated_at c)),
           (''ontologies'', JArr (map ontology_def_to_dict (c_ontologies c))),
           (''classes'', JArr (map class_def_to_dict (c_classes c))),
           (''properties'', JArr (map property_def_to_dict (c_properties c))),
           (''graphs'', JArr (map graph_def_to_dict (c_graphs c))),
           (''indexes'', JArr (map index_def_to_dict (c_indexes c)))]"

definition catalog_from_dict :: "string \<Rightarrow> json \<Rightarrow> catalog result" where
  "catalog_from_dict now v =
     rbind (get_int v ''format_version'' (int FORMAT_VERSION)) (\<lambda>version.
     rbind (get_opt_str v ''catalog_id'') (\<lambda>cat_id.
     rbind (json_get v ''created_at'' (JStr now)) (\<lambda>created.
     rbind (json_get v ''updated_at'' (JStr now)) (\<lambda>updated.
     rbind (get_list ontology_def_from_dict v ''ontologies'') (\<lambda>ontologies.
     rbind (get_list class_def_from_dict v ''classes'') (\<lambda>classes.
     rbind (get_list property_def_from_dict v ''properties'') (\<lambda>properties.
     rbind (get_list graph_def_from_dict v ''graphs'') (\<lambda>graphs.
     rbind (get_list index_def_from_dict v ''indexes'') (\<lambda>indexes.
     Inr \<lparr>c_format_version = version, c_catalog_id = cat_id, c_created_at = json_str created,
          c_updated_at = json_str updated, c_ontologies = ontologies, c_classes = classes,
          c_properties = properties, c_graphs = graphs, c_indexes = indexes\<rparr>)))))))))"

text \<open>
  The file: the magic bytes and the JSON text of the envelope. Text without the magic bytes is
  rejected with CDB-9501, bytes behind the magic that are not JSON with a \<open>ValueError\<close>.
\<close>

definition catalog_to_file :: "catalog \<Rightarrow> entry" where
  "catalog_to_file c =
     MagicFile (sort_keys (JObj [(''encoding'', JStr CATALOG_ENCODING), (''catalog'', catalog_to_dict c)]))"

definition catalog_from_file :: "string \<Rightarrow> entry \<Rightarrow> catalog result" where
  "catalog_from_file now data =
     (case data of
        MagicFile payload \<Rightarrow>
          rbind (json_get payload ''encoding'' JNull) (\<lambda>enc.
            if enc \<noteq> JStr CATALOG_ENCODING then raise_code ''CDB-9501''
            else rbind (json_item payload ''catalog'') (catalog_from_dict now))
      | BinFile bs \<Rightarrow> if take (length MAGIC) bs = MAGIC then Inl ValueError else raise_code ''CDB-9501''
      | JsonFile _ \<Rightarrow> raise_code ''CDB-9501''
      | Dir \<Rightarrow> Inl OSError)"

definition catalog_read :: "string \<Rightarrow> fs \<Rightarrow> path \<Rightarrow> catalog result" where
  "catalog_read now fs p =
     (if \<not> is_file fs p then raise_code ''CDB-9502''
      else (case fs p of Some data \<Rightarrow> catalog_from_file now data | None \<Rightarrow> raise_code ''CDB-9502''))"

definition catalog_write_atomic :: "catalog \<Rightarrow> fs \<Rightarrow> path \<Rightarrow> unit result \<times> fs" where
  "catalog_write_atomic c fs p = write_file_atomic (catalog_to_file c) fs p"

definition path_stem :: "string \<Rightarrow> string" where
  "path_stem name = take (length name - length (path_suffix name)) name"

definition load_catalog :: "string \<Rightarrow> fs \<Rightarrow> crcl_bundle \<Rightarrow> catalog result" where
  "load_catalog now fs b =
     (let p = bundle_child b [catalog_file (b_manifest b)] in
      if \<not> path_exists fs p then Inr (catalog_empty now (Some (path_stem (last (b_path b)))))
      else catalog_read now fs p)"

definition save_catalog :: "catalog \<Rightarrow> fs \<Rightarrow> crcl_bundle \<Rightarrow> path result \<times> fs" where
  "save_catalog c fs b =
     (let p = bundle_child b [catalog_file (b_manifest b)] in
      case catalog_write_atomic c fs p of (Inl e, fs') \<Rightarrow> (Inl e, fs') | (Inr _, fs') \<Rightarrow> (Inr p, fs'))"

section \<open>Registration\<close>

fun find_by_attr :: "('a \<Rightarrow> string) \<Rightarrow> string \<Rightarrow> 'a list \<Rightarrow> 'a option" where
  "find_by_attr attr v [] = None"
| "find_by_attr attr v (x # xs) = (if attr x = v then Some x else find_by_attr attr v xs)"

definition next_id :: "int list \<Rightarrow> int" where
  "next_id values = (case values of [] \<Rightarrow> 0 | x # xs \<Rightarrow> foldl max x xs) + 1"

definition rstrip :: "char list \<Rightarrow> string \<Rightarrow> string" where
  "rstrip cs s = rev (dropWhile (\<lambda>c. c \<in> set cs) (rev s))"

definition after_last :: "char \<Rightarrow> string \<Rightarrow> string" where
  "after_last sep s = rev (takeWhile (\<lambda>c. c \<noteq> sep) (rev s))"

definition local_name_of :: "string \<Rightarrow> string" where
  "local_name_of iri =
     after_last (CHR '':'') (after_last (CHR 0x23) (after_last (CHR ''/'')
       (rstrip [CHR ''/'', CHR 0x23] iri)))"

text \<open>\<open>local_name or _local_name(iri)\<close>: an empty name counts as none.\<close>

definition pick_local_name :: "string option \<Rightarrow> string \<Rightarrow> string option" where
  "pick_local_name local_name iri =
     (case local_name of Some (c # cs) \<Rightarrow> Some (c # cs) | _ \<Rightarrow> Some (local_name_of iri))"

definition register_class ::
  "catalog \<Rightarrow> string \<Rightarrow> string \<Rightarrow> string option \<Rightarrow> string list \<Rightarrow> field_def list \<Rightarrow> string option
     \<Rightarrow> class_def result \<times> catalog"
where
  "register_class c now iri local_name superclass_iris flds doc =
     (if find_by_attr cd_iri iri (c_classes c) \<noteq> None then (raise_code ''CDB-9503'', c)
      else
        let d = \<lparr>cd_cid = next_id (map cd_cid (c_classes c)), cd_iri = iri,
                 cd_local_name = pick_local_name local_name iri,
                 cd_superclass_iris = superclass_iris, cd_fields = flds, cd_doc = doc\<rparr>
        in (Inr d, c\<lparr>c_classes := c_classes c @ [d], c_updated_at := now\<rparr>))"

definition register_property ::
  "catalog \<Rightarrow> string \<Rightarrow> string \<Rightarrow> string option \<Rightarrow> property_kind \<Rightarrow> string list \<Rightarrow> string list
     \<Rightarrow> type_ref option \<Rightarrow> string list \<Rightarrow> property_characteristic list \<Rightarrow> field_def list
     \<Rightarrow> string option \<Rightarrow> string option \<Rightarrow> property_def result \<times> catalog"
where
  "register_property c now iri local_name kind superproperty_iris domain_iris range_type range_iris
       characteristics flds inverse_iri doc =
     (if find_by_attr pd_iri iri (c_properties c) \<noteq> None then (raise_code ''CDB-9503'', c)
      else
        let d = \<lparr>pd_pid = next_id (map pd_pid (c_properties c)), pd_iri = iri,
                 pd_local_name = pick_local_name local_name iri, pd_kind = kind,
                 pd_superproperty_iris = superproperty_iris, pd_domain_iris = domain_iris,
                 pd_range_type = range_type, pd_range_iris = range_iris,
                 pd_characteristics = characteristics, pd_fields = flds,
                 pd_inverse_iri = inverse_iri, pd_doc = doc\<rparr>
        in (Inr d, c\<lparr>c_properties := c_properties c @ [d], c_updated_at := now\<rparr>))"

definition register_graph ::
  "catalog \<Rightarrow> string \<Rightarrow> string \<Rightarrow> string list \<Rightarrow> string list \<Rightarrow> string list \<Rightarrow> string option
     \<Rightarrow> graph_def result \<times> catalog"
where
  "register_graph c now name ontology_iris class_iris property_iris doc =
     (if find_by_attr gd_name name (c_graphs c) \<noteq> None then (raise_code ''CDB-9503'', c)
      else
        let d = \<lparr>gd_gid = next_id (map gd_gid (c_graphs c)), gd_name = name,
                 gd_ontology_iris = ontology_iris, gd_class_iris = class_iris,
                 gd_property_iris = property_iris, gd_doc = doc\<rparr>
        in (Inr d, c\<lparr>c_graphs := c_graphs c @ [d], c_updated_at := now\<rparr>))"

definition register_index ::
  "catalog \<Rightarrow> string \<Rightarrow> string \<Rightarrow> index_kind \<Rightarrow> string option \<Rightarrow> string option \<Rightarrow> string list
     \<Rightarrow> sort_direction \<Rightarrow> index_option_def list \<Rightarrow> bool \<Rightarrow> index_def result \<times> catalog"
where
  "register_index c now name kind target_class_iri target_property_iri flds srt options unique =
     (if find_by_attr id_name name (c_indexes c) \<noteq> None then (raise_code ''CDB-9503'', c)
      else
        let d = \<lparr>id_iid = next_id (map id_iid (c_indexes c)), id_name = name, id_kind = kind,
                 id_target_class_iri = target_class_iri, id_target_property_iri = target_property_iri,
                 id_fields = flds, id_sort = srt, id_options = options, id_unique = unique\<rparr>
        in (Inr d, c\<lparr>c_indexes := c_indexes c @ [d], c_updated_at := now\<rparr>))"

definition class_by_iri :: "catalog \<Rightarrow> string \<Rightarrow> class_def option" where
  "class_by_iri c iri = find_by_attr cd_iri iri (c_classes c)"

definition property_by_iri :: "catalog \<Rightarrow> string \<Rightarrow> property_def option" where
  "property_by_iri c iri = find_by_attr pd_iri iri (c_properties c)"

definition graph_by_name :: "catalog \<Rightarrow> string \<Rightarrow> graph_def option" where
  "graph_by_name c name = find_by_attr gd_name name (c_graphs c)"

section \<open>The contract of a catalogue section\<close>

lemma find_by_attr_None: "find_by_attr attr v xs = None \<longleftrightarrow> v \<notin> attr ` set xs"
  by (induction xs) auto

lemma find_by_attr_append:
  "find_by_attr attr v (xs @ ys) = (case find_by_attr attr v xs of None \<Rightarrow> find_by_attr attr v ys | Some x \<Rightarrow> Some x)"
  by (induction xs) auto

lemma foldl_max_ge: "x \<le> foldl max x xs" "y \<in> set xs \<Longrightarrow> y \<le> foldl max (x :: int) xs"
proof (induction xs arbitrary: x)
  case (Cons z zs)
  { case 1 show ?case using Cons.IH(1) [of "max x z"] by simp }
  { case 2 then show ?case using Cons.IH(1) [of "max x z"] Cons.IH(2) [of "max x z"] by auto }
qed simp_all

lemma next_id_fresh: "x \<in> set xs \<Longrightarrow> x < next_id xs"
  using foldl_max_ge by (cases xs) (fastforce simp: next_id_def)+

text \<open>
  What the four registrations share: a new key gets an entry with the next number at the end
  of its section, a key that is taken is rejected and nothing changes.
\<close>

locale catalog_section =
  fixes items :: "catalog \<Rightarrow> 'a list" and key :: "'a \<Rightarrow> string" and ident :: "'a \<Rightarrow> int"
    and register :: "catalog \<Rightarrow> string \<Rightarrow> 'a result \<times> catalog"
  assumes register_new: "k \<notin> key ` set (items c) \<Longrightarrow> \<exists>x c'. register c k = (Inr x, c')
      \<and> items c' = items c @ [x] \<and> key x = k \<and> ident x = next_id (map ident (items c))"
    and register_taken: "k \<in> key ` set (items c) \<Longrightarrow> register c k = (raise_code ''CDB-9503'', c)"
begin

definition section_ok :: "catalog \<Rightarrow> bool" where
  "section_ok c \<longleftrightarrow> distinct (map key (items c)) \<and> sorted_wrt (<) (map ident (items c))"

lemma register_ok:
  assumes "section_ok c" "register c k = (r, c')"
  shows "section_ok c'"
proof (cases "k \<in> key ` set (items c)")
  case True
  with assms register_taken show ?thesis by simp
next
  case False
  from register_new [OF this] assms(2) obtain x where
    x: "items c' = items c @ [x]" "key x = k" "ident x = next_id (map ident (items c))" by auto
  have "\<forall>y \<in> set (items c). ident y < ident x" using next_id_fresh [of _ "map ident (items c)"] x(3) by auto
  with assms(1) False x show ?thesis by (auto simp: section_ok_def sorted_wrt_append)
qed

lemma register_lookup:
  assumes "register c k = (Inr x, c')"
  shows "find_by_attr key j (items c') = (if j = k then Some x else find_by_attr key j (items c))"
proof -
  have new: "k \<notin> key ` set (items c)" using register_taken [of k c] assms by auto
  from register_new [OF this] assms have x: "items c' = items c @ [x]" "key x = k" by auto
  have "find_by_attr key k (items c) = None" using new by (simp only: find_by_attr_None not_False_eq_True)
  with x show ?thesis by (auto simp: find_by_attr_append split: option.splits)
qed

lemma register_cases:
  assumes "register c k = (r, c')"
  obtains (taken) "r = raise_code ''CDB-9503''" "c' = c" "find_by_attr key k (items c) \<noteq> None"
  | (new) x where "r = Inr x" "find_by_attr key k (items c) = None"
proof (cases "k \<in> key ` set (items c)")
  case True
  then have "find_by_attr key k (items c) \<noteq> None" by (simp only: find_by_attr_None not_not)
  with register_taken [OF True] assms taken show ?thesis by simp
next
  case False
  then have "find_by_attr key k (items c) = None" by (simp only: find_by_attr_None not_False_eq_True)
  with register_new [OF False] assms new show ?thesis by auto
qed

end

interpretation classes: catalog_section c_classes cd_iri cd_cid
  "\<lambda>c iri. register_class c now iri local_name sups flds doc" for now local_name sups flds doc
  by unfold_locales (auto simp: register_class_def Let_def find_by_attr_None)

interpretation properties: catalog_section c_properties pd_iri pd_pid
  "\<lambda>c iri. register_property c now iri local_name kind sups doms rt ris chars flds inv_iri doc"
  for now local_name kind sups doms rt ris chars flds inv_iri doc
  by unfold_locales (auto simp: register_property_def Let_def find_by_attr_None)

interpretation graphs: catalog_section c_graphs gd_name gd_gid
  "\<lambda>c name. register_graph c now name onts classes props doc" for now onts classes props doc
  by unfold_locales (auto simp: register_graph_def Let_def find_by_attr_None)

interpretation indexes: catalog_section c_indexes id_name id_iid
  "\<lambda>c name. register_index c now name kind tc tp flds srt opts uniq" for now kind tc tp flds srt opts uniq
  by unfold_locales (auto simp: register_index_def Let_def find_by_attr_None)

interpretation catalog: json_codec catalog_to_dict "catalog_from_dict now" for now
  by unfold_locales
    (auto simp: catalog_to_dict_def catalog_from_dict_def field_defs json_simps comp_def list_all_iff
      ontology_def.list_round_trip ontology_def.wf class_def.list_round_trip class_def.wf
      property_def.list_round_trip property_def.wf graph_def.list_round_trip graph_def.wf
      index_def.list_round_trip index_def.wf)

section \<open>Well-formed catalogues\<close>

text \<open>
  Names are unique in their section and numbers increase in registration order, so they are
  unique too. \<open>catalog_built\<close> holds of what any sequence of registrations, accepted or not,
  makes of a new catalogue.
\<close>

definition catalog_ok :: "catalog \<Rightarrow> bool" where
  "catalog_ok c \<longleftrightarrow>
     distinct (map cd_iri (c_classes c)) \<and> sorted_wrt (<) (map cd_cid (c_classes c))
     \<and> distinct (map pd_iri (c_properties c)) \<and> sorted_wrt (<) (map pd_pid (c_properties c))
     \<and> distinct (map gd_name (c_graphs c)) \<and> sorted_wrt (<) (map gd_gid (c_graphs c))
     \<and> distinct (map id_name (c_indexes c)) \<and> sorted_wrt (<) (map id_iid (c_indexes c))"

datatype catalog_op =
    RegClass string string "string option" "string list" "field_def list" "string option"
  | RegProperty string string "string option" property_kind "string list" "string list" "type_ref option"
      "string list" "property_characteristic list" "field_def list" "string option" "string option"
  | RegGraph string string "string list" "string list" "string list" "string option"
  | RegIndex string string index_kind "string option" "string option" "string list" sort_direction
      "index_option_def list" bool

fun catalog_step :: "catalog_op \<Rightarrow> catalog \<Rightarrow> catalog" where
  "catalog_step (RegClass now iri ln sups flds doc) c = snd (register_class c now iri ln sups flds doc)"
| "catalog_step (RegProperty now iri ln kind sups doms rt ris chars flds inv_iri doc) c =
     snd (register_property c now iri ln kind sups doms rt ris chars flds inv_iri doc)"
| "catalog_step (RegGraph now name onts clss props doc) c = snd (register_graph c now name onts clss props doc)"
| "catalog_step (RegIndex now name kind tc tp flds srt opts uniq) c =
     snd (register_index c now name kind tc tp flds srt opts uniq)"

definition catalog_built :: "catalog \<Rightarrow> bool" where
  "catalog_built c \<longleftrightarrow> (\<exists>now cat_id ops. c = fold catalog_step ops (catalog_empty now cat_id))"

lemma catalog_ok_sections:
  "catalog_ok c \<longleftrightarrow> classes.section_ok c \<and> properties.section_ok c \<and> graphs.section_ok c \<and> indexes.section_ok c"
  by (auto simp: catalog_ok_def classes.section_ok_def properties.section_ok_def graphs.section_ok_def
      indexes.section_ok_def)

lemma register_other_sections:
  "register_class c now iri ln sups flds doc = (r, c') \<Longrightarrow>
     c_properties c' = c_properties c \<and> c_graphs c' = c_graphs c \<and> c_indexes c' = c_indexes c"
  "register_property c now iri ln kind sups doms rt ris chars flds inv_iri doc = (rp, c') \<Longrightarrow>
     c_classes c' = c_classes c \<and> c_graphs c' = c_graphs c \<and> c_indexes c' = c_indexes c"
  "register_graph c now name onts classes props doc = (rg, c') \<Longrightarrow>
     c_classes c' = c_classes c \<and> c_properties c' = c_properties c \<and> c_indexes c' = c_indexes c"
  "register_index c now name ik tc tp fnames srt opts uniq = (ri, c') \<Longrightarrow>
     c_classes c' = c_classes c \<and> c_properties c' = c_properties c \<and> c_graphs c' = c_graphs c"
  by (auto simp: register_class_def register_property_def register_graph_def register_index_def Let_def
      split: if_splits)

lemmas section_ok_defs = classes.section_ok_def properties.section_ok_def graphs.section_ok_def
  indexes.section_ok_def

lemma catalog_step_ok:
  assumes "catalog_ok c"
  shows "catalog_ok (catalog_step op c)"
proof (cases op)
  case (RegClass now iri ln sups flds doc)
  obtain r c' where e: "register_class c now iri ln sups flds doc = (r, c')" by fastforce
  show ?thesis using assms RegClass e unfolding catalog_ok_sections
    using classes.register_ok [OF _ e] register_other_sections(1) [OF e] by (simp add: section_ok_defs)
next
  case (RegProperty now iri ln kind sups doms rt ris chars flds inv_iri doc)
  obtain r c' where e: "register_property c now iri ln kind sups doms rt ris chars flds inv_iri doc = (r, c')"
    by fastforce
  show ?thesis using assms RegProperty e unfolding catalog_ok_sections
    using properties.register_ok [OF _ e] register_other_sections(2) [OF e] by (simp add: section_ok_defs)
next
  case (RegGraph now name onts clss props doc)
  obtain r c' where e: "register_graph c now name onts clss props doc = (r, c')" by fastforce
  show ?thesis using assms RegGraph e unfolding catalog_ok_sections
    using graphs.register_ok [OF _ e] register_other_sections(3) [OF e] by (simp add: section_ok_defs)
next
  case (RegIndex now name kind tc tp flds srt opts uniq)
  obtain r c' where e: "register_index c now name kind tc tp flds srt opts uniq = (r, c')" by fastforce
  show ?thesis using assms RegIndex e unfolding catalog_ok_sections
    using indexes.register_ok [OF _ e] register_other_sections(4) [OF e] by (simp add: section_ok_defs)
qed

lemma catalog_built_ok: "catalog_built c \<Longrightarrow> catalog_ok c"
proof -
  have "catalog_ok c0 \<Longrightarrow> catalog_ok (fold catalog_step ops c0)" for c0 ops
    by (induction ops arbitrary: c0) (simp_all add: catalog_step_ok)
  moreover have "catalog_ok (catalog_empty now cat_id)" for now cat_id
    by (simp add: catalog_ok_def catalog_empty_def)
  moreover assume "catalog_built c"
  ultimately show ?thesis unfolding catalog_built_def by blast
qed

section \<open>Properties\<close>

text \<open>
  A catalogue saved to its bundle is loaded back unchanged, with every class, property,
  graph, index, nested type and option, whatever they contain.
\<close>

theorem catalog_save_load:
  assumes "writable fs (bundle_child b [catalog_file (b_manifest b)])"
  shows "\<exists>fs'. save_catalog c fs b = (Inr (bundle_child b [catalog_file (b_manifest b)]), fs')
    \<and> load_catalog now fs' b = Inr c"
proof -
  let ?p = "bundle_child b [catalog_file (b_manifest b)]"
  from writable_write [OF assms] obtain fs' where
    w: "write_file_atomic (catalog_to_file c) fs ?p = (Inr (), fs')" by blast
  have content: "fs' ?p = Some (catalog_to_file c)"
    using write_file_atomic_read [OF w] by (simp add: bundle_child_def)
  have "catalog_from_file now (catalog_to_file c) = Inr c"
    using catalog.wf [of c]
    by (simp add: catalog_from_file_def catalog_to_file_def json_simps catalog.round_trip)
  with content have "load_catalog now fs' b = Inr c"
    by (simp add: load_catalog_def Let_def path_exists_def catalog_read_def is_file_def)
      (simp add: catalog_to_file_def)
  with w show ?thesis by (simp add: save_catalog_def catalog_write_atomic_def Let_def)
qed

theorem catalog_save_load_witness:
  fixes b defines "b \<equiv> \<lparr>b_path = [''g.crcl''], b_manifest = manifest_empty ''t''\<rparr>"
  shows "\<exists>c d fs'. register_class (catalog_empty ''t'' None) ''t'' ''http://x/Person'' None [] [] None = (Inr d, c)
    \<and> cd_local_name d = Some ''Person''
    \<and> save_catalog c (\<lambda>_. None) b = (Inr [''g.crcl'', ''catalog.fb''], fs')
    \<and> load_catalog ''t'' fs' b = Inr c"
proof -
  have p: "bundle_child b [catalog_file (b_manifest b)] = [''g.crcl'', ''catalog.fb'']"
    by (simp add: b_def bundle_child_def manifest_empty_def)
  have "writable (\<lambda>_. None) (bundle_child b [catalog_file (b_manifest b)])"
    by (simp add: p writable_def)
  note sl = catalog_save_load [OF this, unfolded p]
  have "local_name_of ''http://x/Person'' = ''Person''"
    by (simp add: local_name_of_def after_last_def rstrip_def)
  then have "\<exists>d c. register_class (catalog_empty ''t'' None) ''t'' ''http://x/Person'' None [] [] None = (Inr d, c)
      \<and> cd_local_name d = Some ''Person''"
    by (simp add: register_class_def catalog_empty_def pick_local_name_def Let_def)
  with sl show ?thesis by blast
qed

text \<open>
  C15: every catalogue built by registrations has unique names and strictly increasing, hence
  unique, numbers in each section; a registration that returns can be looked up and leaves all
  other lookups as they were, and one whose name is taken raises CDB-9503 and changes nothing.
\<close>

theorem catalog_registration:
  assumes "catalog_built c"
  shows "catalog_ok c
    \<and> (case register_class c now iri ln sups flds doc of
         (Inr d, c') \<Rightarrow> class_by_iri c iri = None \<and> catalog_ok c'
           \<and> (\<forall>j. class_by_iri c' j = (if j = iri then Some d else class_by_iri c j))
       | (Inl e, c') \<Rightarrow> e = CaracalError ''CDB-9503'' \<and> class_by_iri c iri \<noteq> None \<and> c' = c)
    \<and> (case register_property c now iri ln kind sups doms rt ris chars flds inv_iri doc of
         (Inr d, c') \<Rightarrow> property_by_iri c iri = None \<and> catalog_ok c'
           \<and> (\<forall>j. property_by_iri c' j = (if j = iri then Some d else property_by_iri c j))
       | (Inl e, c') \<Rightarrow> e = CaracalError ''CDB-9503'' \<and> property_by_iri c iri \<noteq> None \<and> c' = c)"
proof -
  obtain r c' where rc: "register_class c now iri ln sups flds doc = (r, c')" by fastforce
  obtain rp cp where rp: "register_property c now iri ln kind sups doms rt ris chars flds inv_iri doc = (rp, cp)"
    by fastforce
  have "catalog_ok c" using assms by (rule catalog_built_ok)
  then have ok: "catalog_ok c'" "catalog_ok cp" "catalog_ok c"
    using catalog_step_ok [of c "RegClass now iri ln sups flds doc"] rc
      catalog_step_ok [of c "RegProperty now iri ln kind sups doms rt ris chars flds inv_iri doc"] rp by simp_all
  have cls: "case (r, c') of (Inr d, c') \<Rightarrow> class_by_iri c iri = None
           \<and> (\<forall>j. class_by_iri c' j = (if j = iri then Some d else class_by_iri c j))
       | (Inl e, c') \<Rightarrow> e = CaracalError ''CDB-9503'' \<and> class_by_iri c iri \<noteq> None \<and> c' = c"
    unfolding class_by_iri_def using rc
    by (rule classes.register_cases) (use classes.register_lookup rc in auto)
  have prp: "case (rp, cp) of (Inr d, c') \<Rightarrow> property_by_iri c iri = None
           \<and> (\<forall>j. property_by_iri c' j = (if j = iri then Some d else property_by_iri c j))
       | (Inl e, c') \<Rightarrow> e = CaracalError ''CDB-9503'' \<and> property_by_iri c iri \<noteq> None \<and> c' = c"
    unfolding property_by_iri_def using rp
    by (rule properties.register_cases) (use properties.register_lookup rp in auto)
  show ?thesis unfolding rc rp using ok cls prp by (auto split: sum.splits)
qed

theorem catalog_registration_witness:
  "\<exists>d c. register_class (catalog_empty ''t'' None) ''t'' ''urn:A'' None [] [] None = (Inr d, c)
    \<and> class_by_iri c ''urn:A'' = Some d \<and> catalog_ok c"
proof -
  have built: "catalog_built (catalog_empty ''t'' None)"
    unfolding catalog_built_def by (metis fold_simps(1))
  have "\<exists>d c. register_class (catalog_empty ''t'' None) ''t'' ''urn:A'' None [] [] None = (Inr d, c)"
    by (simp add: register_class_def catalog_empty_def Let_def)
  then obtain d c where dc: "register_class (catalog_empty ''t'' None) ''t'' ''urn:A'' None [] [] None = (Inr d, c)"
    by blast
  from catalog_registration [OF built, where now = "''t''" and iri = "''urn:A''" and ln = None and sups = "[]"
      and flds = "[]" and doc = None] dc
  show ?thesis by auto
qed

end
