(* ===== verification/Hierarchy.thy ===== *)
theory Hierarchy
  imports Catalog
begin

text \<open>
  The class and property hierarchies (\<open>onto/hierarchy.py\<close>): building the DAG with Kahn's
  algorithm and collecting ancestors and descendants by depth-first search. The recursion
  limit of the interpreter is not modelled.
\<close>

section \<open>Building\<close>

record hierarchy_dag =
  h_nodes :: "string list"
  h_parents :: "(string, string list) dict"
  h_children :: "(string, string list) dict"
  h_order :: "string list"

text \<open>\<open>{node: x for node in nodes}\<close> and \<open>d[k]\<close> for a key the code has put there.\<close>

definition dict_init :: "string list \<Rightarrow> 'v \<Rightarrow> (string, 'v) dict" where
  "dict_init nodes x = fold (\<lambda>n. AList.update n x) nodes []"

definition dict_at :: "'v \<Rightarrow> (string, 'v) dict \<Rightarrow> string \<Rightarrow> 'v" where
  "dict_at x d k = (case map_of d k of Some v \<Rightarrow> v | None \<Rightarrow> x)"

definition fromkeys :: "string list \<Rightarrow> string list" where
  "fromkeys xs = fold (\<lambda>x acc. if x \<in> set acc then acc else acc @ [x]) xs []"

type_synonym link_state = "(string, string list) dict \<times> (string, int) dict"

text \<open>The loop over the parents of one child.\<close>

fun link_parents :: "string list \<Rightarrow> string \<Rightarrow> string list \<Rightarrow> link_state \<Rightarrow> link_state result" where
  "link_parents nodes child [] st = Inr st"
| "link_parents nodes child (p # ps) (children, indegree) =
     (if p \<notin> set nodes then raise_code ''CDB-9504''
      else link_parents nodes child ps
        (AList.update p (dict_at [] children p @ [child]) children,
         AList.update child (dict_at 0 indegree child + 1) indegree))"

fun link_edges ::
  "string list \<Rightarrow> (string, string list) dict \<Rightarrow> (string, string list) dict \<Rightarrow> link_state
     \<Rightarrow> ((string, string list) dict \<times> link_state) result"
where
  "link_edges nodes [] parents st = Inr (parents, st)"
| "link_edges nodes ((child, ps) # rest) parents st =
     (if child \<notin> set nodes then raise_code ''CDB-9504''
      else
        let deduped = fromkeys ps in
        rbind (link_parents nodes child deduped st) (\<lambda>st'.
          link_edges nodes rest (AList.update child deduped parents) st'))"

text \<open>The inner loop of Kahn's algorithm, then the loop over the queue.\<close>

fun relax :: "string list \<Rightarrow> (string, int) dict \<Rightarrow> string list \<Rightarrow> (string, int) dict \<times> string list" where
  "relax [] indegree queue = (indegree, queue)"
| "relax (c # cs) indegree queue =
     (let indegree' = AList.update c (dict_at 0 indegree c - 1) indegree in
      relax cs indegree' (if dict_at 0 indegree' c = 0 then queue @ [c] else queue))"

definition positive_count :: "(string, int) dict \<Rightarrow> nat" where
  "positive_count indegree = card {k. 0 < dict_at 0 indegree k}"

lemma positive_finite: "finite {k. 0 < dict_at 0 (indegree :: (string, int) dict) k}"
proof (rule finite_subset)
  show "{k. 0 < dict_at 0 indegree k} \<subseteq> fst ` set indegree"
  proof
    fix k assume "k \<in> {k. 0 < dict_at 0 indegree k}"
    then have "map_of indegree k \<noteq> None" by (auto simp: dict_at_def split: option.splits)
    then show "k \<in> fst ` set indegree" by (simp add: map_of_eq_None_iff)
  qed
qed simp

lemma dict_at_update [simp]: "dict_at x (AList.update k v d) j = (if j = k then v else dict_at x d j)"
  by (simp add: dict_at_def dict_lookup_update)

lemma relax_measure:
  "relax cs indegree queue = (indegree', queue')
    \<Longrightarrow> positive_count indegree' + length queue' \<le> positive_count indegree + length queue"
proof (induction cs indegree queue rule: relax.induct)
  case (2 c cs indegree queue)
  let ?i = "AList.update c (dict_at 0 indegree c - 1) indegree"
  have sub: "{k. 0 < dict_at 0 ?i k} \<subseteq> {k. 0 < dict_at 0 indegree k}" by auto
  have "positive_count ?i + (if dict_at 0 ?i c = 0 then 1 else 0) \<le> positive_count indegree"
  proof (cases "dict_at 0 ?i c = 0")
    case True
    then have "c \<in> {k. 0 < dict_at 0 indegree k}" "c \<notin> {k. 0 < dict_at 0 ?i k}" by auto
    then have "{k. 0 < dict_at 0 ?i k} \<subset> {k. 0 < dict_at 0 indegree k}" using sub by blast
    from psubset_card_mono [OF positive_finite this] have "positive_count ?i < positive_count indegree"
      by (simp only: positive_count_def)
    with True show ?thesis by simp
  next
    case False
    then show ?thesis using card_mono [OF positive_finite sub] by (simp add: positive_count_def)
  qed
  with 2 show ?case by (auto simp: Let_def split: if_splits)
qed simp

function kahn :: "(string, string list) dict \<Rightarrow> (string, int) dict \<Rightarrow> string list \<Rightarrow> string list \<Rightarrow> string list" where
  "kahn children indegree [] ordered = ordered"
| "kahn children indegree (n # queue) ordered =
     (case relax (dict_at [] children n) indegree queue of
        (indegree', queue') \<Rightarrow> kahn children indegree' queue' (ordered @ [n]))"
  by pat_completeness auto
termination
  by (relation "measure (\<lambda>(children, indegree, queue, ordered). positive_count indegree + length queue)")
    (auto dest!: sym [THEN relax_measure])

definition from_edges :: "string list \<Rightarrow> (string, string list) dict \<Rightarrow> hierarchy_dag result" where
  "from_edges nodes parents_by_child =
     rbind (link_edges nodes parents_by_child (dict_init nodes []) (dict_init nodes [], dict_init nodes 0))
       (\<lambda>(parents, children, indegree).
          let queue = filter (\<lambda>n. dict_at 0 indegree n = 0) nodes;
              ordered = kahn children indegree queue []
          in
          if length ordered \<noteq> length nodes then raise_code ''CDB-9505''
          else Inr \<lparr>h_nodes = nodes, h_parents = parents,
                    h_children = fold (\<lambda>n. AList.update n (dict_at [] children n)) nodes [],
                    h_order = ordered\<rparr>)"

section \<open>Queries\<close>

definition require_node :: "hierarchy_dag \<Rightarrow> string \<Rightarrow> unit result" where
  "require_node h iri = (if map_of (h_parents h) iri = None then raise_code ''CDB-9504'' else Inr ())"

definition h_parents_of :: "hierarchy_dag \<Rightarrow> string \<Rightarrow> string list result" where
  "h_parents_of h iri = rbind (require_node h iri) (\<lambda>_. Inr (dict_at [] (h_parents h) iri))"

definition h_children_of :: "hierarchy_dag \<Rightarrow> string \<Rightarrow> string list result" where
  "h_children_of h iri = rbind (require_node h iri) (\<lambda>_. Inr (dict_at [] (h_children h) iri))"

text \<open>
  \<open>_collect_up\<close> and \<open>_collect_down\<close>: the loop over the neighbours still to visit, with the
  recursive call for each one not seen. \<open>None\<close> would be a recursion that does not end.
\<close>

partial_function (option) collect ::
  "(string, string list) dict \<Rightarrow> string list \<Rightarrow> string set \<Rightarrow> string list \<Rightarrow> (string set \<times> string list) option"
where
  "collect adj todo seen ordered =
     (case todo of
        [] \<Rightarrow> Some (seen, ordered)
      | x # xs \<Rightarrow>
          if x \<in> seen then collect adj xs seen ordered
          else Option.bind (collect adj (dict_at [] adj x) (insert x seen) (ordered @ [x]))
                 (\<lambda>(seen', ordered'). collect adj xs seen' ordered'))"

definition walk :: "(string, string list) dict \<Rightarrow> string \<Rightarrow> bool \<Rightarrow> string list option" where
  "walk adj iri include_self =
     map_option snd
       (if include_self then collect adj (dict_at [] adj iri) {iri} [iri]
        else collect adj (dict_at [] adj iri) {} [])"

definition ancestors :: "hierarchy_dag \<Rightarrow> string \<Rightarrow> bool \<Rightarrow> string list option result" where
  "ancestors h iri include_self = rbind (require_node h iri) (\<lambda>_. Inr (walk (h_parents h) iri include_self))"

definition descendants :: "hierarchy_dag \<Rightarrow> string \<Rightarrow> bool \<Rightarrow> string list option result" where
  "descendants h iri include_self = rbind (require_node h iri) (\<lambda>_. Inr (walk (h_children h) iri include_self))"

definition is_subtype :: "hierarchy_dag \<Rightarrow> string \<Rightarrow> string \<Rightarrow> bool \<Rightarrow> bool option result" where
  "is_subtype h child_iri parent_iri reflexive =
     rbind (require_node h child_iri) (\<lambda>_.
     rbind (require_node h parent_iri) (\<lambda>_.
       if reflexive \<and> child_iri = parent_iri then Inr (Some True)
       else rbind (ancestors h child_iri False) (\<lambda>as. Inr (map_option (\<lambda>xs. parent_iri \<in> set xs) as))))"

record ontology_hierarchy =
  oh_classes :: hierarchy_dag
  oh_properties :: hierarchy_dag

text \<open>\<open>{item.iri: ... for item in items}\<close>: a later item with the same key wins.\<close>

definition ontology_hierarchy_from_catalog :: "catalog \<Rightarrow> ontology_hierarchy result" where
  "ontology_hierarchy_from_catalog c =
     rbind (from_edges (map cd_iri (c_classes c))
              (fold (\<lambda>d. AList.update (cd_iri d) (cd_superclass_iris d)) (c_classes c) [])) (\<lambda>cls.
     rbind (from_edges (map pd_iri (c_properties c))
              (fold (\<lambda>d. AList.update (pd_iri d) (pd_superproperty_iris d)) (c_properties c) [])) (\<lambda>props.
     Inr \<lparr>oh_classes = cls, oh_properties = props\<rparr>))"

end
