(* ===== verification/Hierarchy_Theorems.thy ===== *)
theory Hierarchy_Theorems
  imports Hierarchy
begin

text \<open>
  Correctness of the hierarchies: Kahn's algorithm accepts exactly the acyclic graphs over
  known nodes, and the depth-first collections are the reachable nodes.
\<close>

section \<open>Linking the edges\<close>

lemma fromkeys_aux:
  "distinct acc \<Longrightarrow> distinct (fold (\<lambda>x acc. if x \<in> set acc then acc else acc @ [x]) xs acc)
    \<and> set (fold (\<lambda>x acc. if x \<in> set acc then acc else acc @ [x]) xs acc) = set acc \<union> set xs"
  by (induction xs arbitrary: acc) auto

lemma fromkeys [simp]: "distinct (fromkeys xs)" "set (fromkeys xs) = set xs"
  using fromkeys_aux [of "[]" xs] by (simp_all add: fromkeys_def)

lemma dict_at_fold_update:
  "dict_at x (fold (\<lambda>n. AList.update n (f n)) ns d) k = (if k \<in> set ns then f k else dict_at x d k)"
  by (induction ns arbitrary: d) auto

lemma dict_init_at [simp]: "dict_at x (dict_init ns x) k = x"
  by (simp add: dict_init_def dict_at_fold_update) (simp add: dict_at_def)

lemma link_parents_spec:
  assumes "distinct ps"
  shows "if set ps \<subseteq> set nodes
    then \<exists>ch' ind'. link_parents nodes c ps (ch, ind) = Inr (ch', ind')
      \<and> (\<forall>q. dict_at [] ch' q = dict_at [] ch q @ (if q \<in> set ps then [c] else []))
      \<and> (\<forall>k. dict_at 0 ind' k = dict_at 0 ind k + (if k = c then int (length ps) else 0))
    else link_parents nodes c ps (ch, ind) = raise_code ''CDB-9504''"
  using assms
proof (induction ps arbitrary: ch ind)
  case (Cons p ps)
  let ?ch = "AList.update p (dict_at [] ch p @ [c]) ch" and ?ind = "AList.update c (dict_at 0 ind c + 1) ind"
  show ?case
  proof (cases "p \<in> set nodes \<and> set ps \<subseteq> set nodes")
    case True
    with Cons.IH [of ?ch ?ind] Cons.prems obtain ch' ind' where
      "link_parents nodes c ps (?ch, ?ind) = Inr (ch', ind')"
      "\<forall>q. dict_at [] ch' q = dict_at [] ?ch q @ (if q \<in> set ps then [c] else [])"
      "\<forall>k. dict_at 0 ind' k = dict_at 0 ?ind k + (if k = c then int (length ps) else 0)" by auto
    with True Cons.prems show ?thesis by auto
  next
    case False
    with Cons.IH [of ?ch ?ind] Cons.prems show ?thesis by (auto split: if_splits)
  qed
qed simp

definition known_edges :: "string list \<Rightarrow> (string, string list) dict \<Rightarrow> bool" where
  "known_edges nodes pbc \<longleftrightarrow> (\<forall>(c, ps) \<in> set pbc. c \<in> set nodes \<and> set ps \<subseteq> set nodes)"

text \<open>The children of a node, in the order of the dictionary.\<close>

definition child_list :: "(string, string list) dict \<Rightarrow> string \<Rightarrow> string list" where
  "child_list pbc p = map fst (filter (\<lambda>(c, ps). p \<in> set ps) pbc)"

lemma link_edges_spec:
  assumes "dict_ok pbc"
  shows "if known_edges nodes pbc
    then \<exists>par' ch' ind'. link_edges nodes pbc par (ch, ind) = Inr (par', ch', ind')
      \<and> (\<forall>k. dict_at [] par' k = (case map_of pbc k of Some ps \<Rightarrow> fromkeys ps | None \<Rightarrow> dict_at [] par k))
      \<and> (\<forall>q. dict_at [] ch' q = dict_at [] ch q @ child_list pbc q)
      \<and> (\<forall>k. dict_at 0 ind' k = dict_at 0 ind k
            + (case map_of pbc k of Some ps \<Rightarrow> int (length (fromkeys ps)) | None \<Rightarrow> 0))
      \<and> (\<forall>k. map_of par' k = None \<longleftrightarrow> map_of par k = None \<and> map_of pbc k = None)
    else link_edges nodes pbc par (ch, ind) = raise_code ''CDB-9504''"
  using assms
proof (induction pbc arbitrary: par ch ind)
  case Nil
  show ?case by (simp add: known_edges_def child_list_def)
next
  case (Cons e pbc)
  obtain c ps where e: "e = (c, ps)" by fastforce
  from Cons.prems e have ok: "dict_ok pbc" "map_of pbc c = None"
    by (auto simp: dict_ok_def map_of_eq_None_iff)
  note lp = link_parents_spec [of "fromkeys ps" nodes c ch ind, simplified]
  show ?case
  proof (cases "c \<in> set nodes \<and> set ps \<subseteq> set nodes")
    case True
    with lp obtain ch1 ind1 where
      l: "link_parents nodes c (fromkeys ps) (ch, ind) = Inr (ch1, ind1)"
        "\<forall>q. dict_at [] ch1 q = dict_at [] ch q @ (if q \<in> set ps then [c] else [])"
        "\<forall>k. dict_at 0 ind1 k = dict_at 0 ind k + (if k = c then int (length (fromkeys ps)) else 0)" by auto
    show ?thesis
    proof (cases "known_edges nodes pbc")
      case known: True
      with Cons.IH [OF ok(1), of "AList.update c (fromkeys ps) par" ch1 ind1] obtain par' ch' ind' where
        "link_edges nodes pbc (AList.update c (fromkeys ps) par) (ch1, ind1) = Inr (par', ch', ind')"
        "\<forall>k. dict_at [] par' k = (case map_of pbc k of Some ps \<Rightarrow> fromkeys ps
           | None \<Rightarrow> dict_at [] (AList.update c (fromkeys ps) par) k)"
        "\<forall>q. dict_at [] ch' q = dict_at [] ch1 q @ child_list pbc q"
        "\<forall>k. dict_at 0 ind' k = dict_at 0 ind1 k
            + (case map_of pbc k of Some ps \<Rightarrow> int (length (fromkeys ps)) | None \<Rightarrow> 0)"
        "\<forall>k. map_of par' k = None \<longleftrightarrow> map_of (AList.update c (fromkeys ps) par) k = None \<and> map_of pbc k = None"
        by auto
      moreover have "known_edges nodes (e # pbc)" using known True e by (simp add: known_edges_def)
      ultimately show ?thesis using l True e ok(2)
        by (auto simp: child_list_def dict_lookup_update split: option.splits)
    next
      case False
      then have "\<not> known_edges nodes (e # pbc)" by (simp add: known_edges_def)
      with False Cons.IH [OF ok(1)] l True e show ?thesis by (simp add: Let_def)
    qed
  next
    case False
    then have "\<not> known_edges nodes (e # pbc)" using e by (auto simp: known_edges_def)
    with False lp e show ?thesis by (auto simp: Let_def split: if_splits)
  qed
qed

section \<open>Kahn's algorithm\<close>

text \<open>
  The graph the loop works on: \<open>par\<close> gives the parents of a node, \<open>ch\<close> is the dictionary of
  children.
\<close>

definition kahn_graph :: "string set \<Rightarrow> (string \<Rightarrow> string list) \<Rightarrow> (string, string list) dict \<Rightarrow> bool" where
  "kahn_graph N par ch \<longleftrightarrow> finite N \<and> (\<forall>c. distinct (par c) \<and> set (par c) \<subseteq> N \<and> (par c \<noteq> [] \<longrightarrow> c \<in> N))
     \<and> (\<forall>p. distinct (dict_at [] ch p) \<and> set (dict_at [] ch p) = {c. p \<in> set (par c)})"

definition parent_rel :: "(string \<Rightarrow> string list) \<Rightarrow> (string \<times> string) set" where
  "parent_rel par = {(c, p). p \<in> set (par c)}"

text \<open>Every node of the list comes after its parents.\<close>

fun topo_ok :: "(string \<Rightarrow> string list) \<Rightarrow> string set \<Rightarrow> string list \<Rightarrow> bool" where
  "topo_ok par S [] = True"
| "topo_ok par S (x # xs) = (set (par x) \<subseteq> S \<and> topo_ok par (insert x S) xs)"

lemma topo_ok_append: "topo_ok par S (xs @ ys) \<longleftrightarrow> topo_ok par S xs \<and> topo_ok par (S \<union> set xs) ys"
  by (induction xs arbitrary: S) auto

lemma topo_ok_free: "(\<And>x. x \<in> set xs \<Longrightarrow> set (par x) \<subseteq> S) \<Longrightarrow> topo_ok par S xs"
  by (induction xs arbitrary: S) (auto simp: subset_insertI2)

definition kahn_inv ::
  "string set \<Rightarrow> (string \<Rightarrow> string list) \<Rightarrow> string list \<Rightarrow> string list \<Rightarrow> (string, int) dict \<Rightarrow> bool" where
  "kahn_inv N par ordered queue ind \<longleftrightarrow> distinct (ordered @ queue)
     \<and> set (ordered @ queue) = {c \<in> N. dict_at 0 ind c = 0}
     \<and> (\<forall>c. dict_at 0 ind c = int (card (set (par c) - set ordered)))
     \<and> topo_ok par {} (ordered @ queue)"

lemma kahn_invD:
  assumes "kahn_inv N par ordered queue ind"
  shows "distinct (ordered @ queue)" "set (ordered @ queue) \<subseteq> N"
    "\<And>c. c \<in> N \<Longrightarrow> dict_at 0 ind c = 0 \<Longrightarrow> c \<in> set (ordered @ queue)"
    "\<And>c. dict_at 0 ind c = int (card (set (par c) - set ordered))" "topo_ok par {} (ordered @ queue)"
  using assms unfolding kahn_inv_def by blast+

lemma relax_spec:
  assumes "distinct cs" "relax cs ind queue = (ind', queue')"
  shows "queue' = queue @ filter (\<lambda>c. dict_at 0 ind c = 1) cs
    \<and> (\<forall>k. dict_at 0 ind' k = dict_at 0 ind k - (if k \<in> set cs then 1 else 0))"
  using assms
proof (induction cs arbitrary: ind queue)
  case (Cons c cs)
  let ?ind = "AList.update c (dict_at 0 ind c - 1) ind"
  have eq: "filter (\<lambda>x. dict_at 0 ?ind x = 1) cs = filter (\<lambda>x. dict_at 0 ind x = 1) cs"
    using Cons.prems(1) by (intro filter_cong) auto
  show ?case
    using Cons.IH [of ?ind "if dict_at 0 ?ind c = 0 then queue @ [c] else queue"] Cons.prems
    unfolding eq by (auto simp: Let_def split: if_splits)
qed simp

lemma kahn_inv_step:
  assumes g: "kahn_graph N par ch" and inv: "kahn_inv N par ordered (n # queue) ind"
    and r: "relax (dict_at [] ch n) ind queue = (ind', queue')"
  shows "kahn_inv N par (ordered @ [n]) queue' ind'"
proof -
  let ?cs = "dict_at [] ch n" and ?new = "filter (\<lambda>c. dict_at 0 ind c = 1) (dict_at [] ch n)"
  from g have cs: "distinct ?cs" "set ?cs = {c. n \<in> set (par c)}" by (auto simp: kahn_graph_def)
  from relax_spec [OF cs(1) r] have q: "queue' = queue @ ?new"
    and i: "\<forall>k. dict_at 0 ind' k = dict_at 0 ind k - (if k \<in> set ?cs then 1 else 0)" by auto
  from inv have d: "distinct (ordered @ n # queue)" and z: "set (ordered @ n # queue) = {c \<in> N. dict_at 0 ind c = 0}"
    and cnt: "\<And>c. dict_at 0 ind c = int (card (set (par c) - set ordered))"
    and t: "topo_ok par {} (ordered @ n # queue)" by (auto simp: kahn_inv_def)
  have n: "n \<notin> set ordered" using d by simp
  have cnt': "dict_at 0 ind' c = int (card (set (par c) - set (ordered @ [n])))" for c
  proof (cases "n \<in> set (par c)")
    case True
    then have "set (par c) - set (ordered @ [n]) = (set (par c) - set ordered) - {n}" by auto
    moreover have "n \<in> set (par c) - set ordered" using True n by simp
    then have "0 < card (set (par c) - set ordered)"
      "card ((set (par c) - set ordered) - {n}) = card (set (par c) - set ordered) - 1"
      by (auto simp: card_gt_0_iff)
    ultimately show ?thesis using i cs(2) cnt [of c] True by (simp add: of_nat_diff)
  next
    case False
    then have "set (par c) - set (ordered @ [n]) = set (par c) - set ordered" by auto
    then show ?thesis using i cs(2) cnt [of c] False by simp
  qed
  have pos: "1 \<le> dict_at 0 ind c" if "c \<in> set ?cs" for c
  proof -
    have "n \<in> set (par c) - set ordered" using that cs(2) n by simp
    then have "card (set (par c) - set ordered) \<noteq> 0" by (auto simp: card_eq_0_iff)
    then show ?thesis using cnt [of c] by linarith
  qed
  have inN: "c \<in> N" if "c \<in> set ?cs" for c
  proof -
    have "par c \<noteq> []" using that cs(2) by auto
    with g show ?thesis by (simp add: kahn_graph_def)
  qed
  have "set ((ordered @ [n]) @ queue') = {c \<in> N. dict_at 0 ind' c = 0}"
  proof -
    have "set ((ordered @ [n]) @ queue') = {c \<in> N. dict_at 0 ind c = 0} \<union> set ?new" using z q by auto
    also have "\<dots> = {c \<in> N. dict_at 0 ind' c = 0}" using i pos inN by fastforce
    finally show ?thesis .
  qed
  moreover have "distinct ((ordered @ [n]) @ queue')"
  proof -
    have "set ?new \<inter> set (ordered @ n # queue) = {}" unfolding z by auto
    with d cs(1) q show ?thesis by auto
  qed
  moreover have "topo_ok par (set (ordered @ n # queue)) ?new"
  proof (rule topo_ok_free)
    fix c assume "c \<in> set ?new"
    then have "dict_at 0 ind' c = 0" using i by simp
    with cnt' [of c] have "set (par c) - set (ordered @ [n]) = {}" by simp
    then show "set (par c) \<subseteq> set (ordered @ n # queue)" by auto
  qed
  with t q have "topo_ok par {} ((ordered @ [n]) @ queue')"
    using topo_ok_append [of par "{}" "ordered @ n # queue" ?new] by simp
  ultimately show ?thesis using cnt' by (simp add: kahn_inv_def)
qed

lemma kahn_result:
  "kahn_graph N par ch \<Longrightarrow> kahn_inv N par ordered queue ind
    \<Longrightarrow> \<exists>ind'. kahn_inv N par (kahn ch ind queue ordered) [] ind'"
proof (induction ch ind queue ordered rule: kahn.induct)
  case (2 children ind n queue ordered)
  obtain ind' queue' where r: "relax (dict_at [] children n) ind queue = (ind', queue')" by fastforce
  from 2(1) [OF r [symmetric] 2(2) kahn_inv_step [OF 2(2,3) r]] r show ?case by simp
qed auto

lemma topo_rank:
  assumes "topo_ok par {} xs" "c \<in> set xs" "p \<in> set (par c)"
  shows "length (takeWhile (\<lambda>x. x \<noteq> p) xs) < length (takeWhile (\<lambda>x. x \<noteq> c) xs)"
proof -
  from split_list_first [OF assms(2)] obtain ys zs where xs: "xs = ys @ c # zs" "c \<notin> set ys" by blast
  with assms(1,3) have "p \<in> set ys" by (auto simp: topo_ok_append)
  then have "length (takeWhile (\<lambda>x. x \<noteq> p) (ys @ c # zs)) < length ys"
    by (induction ys) auto
  moreover have "takeWhile (\<lambda>x. x \<noteq> c) xs = ys" using xs by (simp add: takeWhile_tail takeWhile_append)
  ultimately show ?thesis using xs(1) by simp
qed

lemma topo_acyclic:
  assumes "topo_ok par {} xs" "\<And>c. par c \<noteq> [] \<Longrightarrow> c \<in> set xs"
  shows "acyclic (parent_rel par)"
proof -
  let ?rank = "\<lambda>c. length (takeWhile (\<lambda>x. x \<noteq> c) xs)"
  have "(parent_rel par)\<inverse> \<subseteq> measure ?rank"
  proof (rule subrelI)
    fix p c assume "(p, c) \<in> (parent_rel par)\<inverse>"
    then have p: "p \<in> set (par c)" by (simp add: parent_rel_def)
    then have "par c \<noteq> []" by auto
    from topo_rank [OF assms(1) assms(2) [OF this] p] show "(p, c) \<in> measure ?rank" by simp
  qed
  then have "wf ((parent_rel par)\<inverse>)" by (rule wf_subset [rotated]) simp
  then show ?thesis using wf_acyclic by fastforce
qed

text \<open>The loop consumes all nodes exactly if there is no cycle.\<close>

lemma kahn_complete:
  assumes g: "kahn_graph N par ch" and inv: "kahn_inv N par ordered [] ind"
  shows "set ordered = N \<longleftrightarrow> acyclic (parent_rel par)"
proof
  assume "set ordered = N"
  with g show "acyclic (parent_rel par)"
    using kahn_invD(5) [OF inv] by (intro topo_acyclic [of par ordered]) (auto simp: kahn_graph_def)
next
  assume acyc: "acyclic (parent_rel par)"
  have "parent_rel par \<subseteq> N \<times> N"
  proof (rule subrelI)
    fix c p assume "(c, p) \<in> parent_rel par"
    then have "p \<in> set (par c)" by (simp add: parent_rel_def)
    moreover from this have "par c \<noteq> []" by auto
    ultimately show "(c, p) \<in> N \<times> N" using g by (auto simp: kahn_graph_def)
  qed
  moreover have "finite (N \<times> N)" using g by (simp add: kahn_graph_def)
  ultimately have "finite (parent_rel par)" by (rule finite_subset)
  then have wf: "wf ((parent_rel par)\<inverse>)" using acyc by (rule finite_acyclic_wf_converse)
  have sub: "set ordered \<subseteq> N" using kahn_invD(2) [OF inv] by simp
  show "set ordered = N"
  proof (rule ccontr)
    assume "set ordered \<noteq> N"
    with sub obtain x where "x \<in> N - set ordered" by blast
    from wfE_min [OF wf this] obtain z where
      z: "z \<in> N - set ordered" "\<And>y. (y, z) \<in> (parent_rel par)\<inverse> \<Longrightarrow> y \<notin> N - set ordered" by blast
    then have "set (par z) - set ordered = {}" using g by (auto simp: parent_rel_def kahn_graph_def)
    then have "dict_at 0 ind z = 0" using kahn_invD(4) [OF inv, of z] by simp
    with kahn_invD(3) [OF inv, of z] z(1) show False by simp
  qed
qed

section \<open>Building a hierarchy\<close>

definition parents_fun :: "(string, string list) dict \<Rightarrow> string \<Rightarrow> string list" where
  "parents_fun pbc c = (case map_of pbc c of Some ps \<Rightarrow> fromkeys ps | None \<Rightarrow> [])"

lemma child_list_props:
  assumes "dict_ok pbc"
  shows "distinct (child_list pbc p)" "set (child_list pbc p) = {c. p \<in> set (parents_fun pbc c)}"
proof -
  show "distinct (child_list pbc p)"
    using assms by (simp add: child_list_def dict_ok_def distinct_map_filter)
  show "set (child_list pbc p) = {c. p \<in> set (parents_fun pbc c)}"
    using assms by (auto simp: child_list_def parents_fun_def dict_ok_def image_iff split: option.splits
        dest: map_of_SomeD)
qed

text \<open>What \<open>from_edges\<close> returns, on every branch.\<close>

lemma from_edges_cases:
  assumes nodes: "distinct nodes" and ok: "dict_ok pbc"
  shows "if \<not> known_edges nodes pbc then from_edges nodes pbc = raise_code ''CDB-9504''
    else if \<not> acyclic (parent_rel (parents_fun pbc)) then from_edges nodes pbc = raise_code ''CDB-9505''
    else \<exists>h. from_edges nodes pbc = Inr h \<and> h_nodes h = nodes
      \<and> (\<forall>c. dict_at [] (h_parents h) c = parents_fun pbc c)
      \<and> (\<forall>c. map_of (h_parents h) c \<noteq> None \<longleftrightarrow> c \<in> set nodes)
      \<and> (\<forall>p. set (dict_at [] (h_children h) p) = {c. p \<in> set (parents_fun pbc c)})
      \<and> distinct (h_order h) \<and> set (h_order h) = set nodes \<and> topo_ok (parents_fun pbc) {} (h_order h)"
proof (cases "known_edges nodes pbc")
  case False
  with link_edges_spec [OF ok, of nodes "dict_init nodes []" "dict_init nodes []" "dict_init nodes 0"]
  show ?thesis by (simp add: from_edges_def)
next
  case known: True
  let ?par = "parents_fun pbc"
  from link_edges_spec [OF ok, of nodes "dict_init nodes []" "dict_init nodes []" "dict_init nodes 0"] known
  obtain par ch ind where
    r: "link_edges nodes pbc (dict_init nodes []) (dict_init nodes [], dict_init nodes 0) = Inr (par, ch, ind)"
      "\<forall>k. dict_at [] par k = (case map_of pbc k of Some ps \<Rightarrow> fromkeys ps | None \<Rightarrow> dict_at [] (dict_init nodes []) k)"
      "\<forall>q. dict_at [] ch q = dict_at [] (dict_init nodes []) q @ child_list pbc q"
      "\<forall>k. dict_at 0 ind k = dict_at 0 (dict_init nodes 0) k
            + (case map_of pbc k of Some ps \<Rightarrow> int (length (fromkeys ps)) | None \<Rightarrow> 0)"
      "\<forall>k. map_of par k = None \<longleftrightarrow> map_of (dict_init nodes ([] :: string list)) k = None \<and> map_of pbc k = None"
    by auto
  have l: "\<And>k. dict_at [] par k = ?par k" "\<And>q. dict_at [] ch q = child_list pbc q"
    "\<And>k. dict_at 0 ind k = int (length (?par k))"
    using r(2-4) by (simp_all add: parents_fun_def split: option.splits)
  have inN: "c \<in> set nodes" "set (?par c) \<subseteq> set nodes" if "map_of pbc c = Some ps" for c ps
    using known map_of_SomeD [OF that] that by (auto simp: known_edges_def parents_fun_def)
  have g: "kahn_graph (set nodes) ?par ch"
  proof -
    have "set (?par c) \<subseteq> set nodes \<and> (?par c \<noteq> [] \<longrightarrow> c \<in> set nodes) \<and> distinct (?par c)" for c
      using inN [of c] by (cases "map_of pbc c") (simp_all add: parents_fun_def)
    with l(2) child_list_props [OF ok] show ?thesis by (simp add: kahn_graph_def)
  qed
  let ?q = "filter (\<lambda>n. dict_at 0 ind n = 0) nodes"
  have "dict_at 0 ind c = int (card (set (?par c)))" for c
    using l(3) [of c] g by (simp add: kahn_graph_def distinct_card)
  then have "kahn_inv (set nodes) ?par [] ?q ind"
    using nodes by (auto simp: kahn_inv_def intro!: topo_ok_free)
  from kahn_result [OF g this] obtain ind' where k: "kahn_inv (set nodes) ?par (kahn ch ind ?q []) [] ind'" ..
  let ?o = "kahn ch ind ?q []"
  have o: "distinct ?o" "set ?o \<subseteq> set nodes" "topo_ok ?par {} ?o" using kahn_invD [OF k] by simp_all
  have len: "length ?o = length nodes \<longleftrightarrow> set ?o = set nodes"
    using o nodes by (metis card_subset_eq distinct_card finite_set)
  have keys: "map_of par c \<noteq> None \<longleftrightarrow> c \<in> set nodes" for c
  proof -
    have "map_of (dict_init ns x) c \<noteq> None \<longleftrightarrow> c \<in> set ns" for ns and x :: "string list"
      unfolding dict_init_def by (induction ns rule: rev_induct) (auto simp: dict_lookup_update)
    then show ?thesis using r(5) inN(1) [of c] by (cases "map_of pbc c") auto
  qed
  have ch: "set (dict_at [] (fold (\<lambda>n. AList.update n (dict_at [] ch n)) nodes []) p) = {c. p \<in> set (?par c)}" for p
  proof (cases "p \<in> set nodes")
    case True
    then show ?thesis
      using dict_at_fold_update [of "[]" "dict_at [] ch" nodes "[]" p] l(2) child_list_props [OF ok] by simp
  next
    case False
    have "p \<notin> set (?par c)" for c
      using False g by (auto simp: kahn_graph_def)
    moreover have "dict_at [] ([] :: (string, string list) dict) p = []" by (simp add: dict_at_def)
    ultimately show ?thesis
      using False dict_at_fold_update [of "[]" "dict_at [] ch" nodes "[]" p] by simp
  qed
  show ?thesis
    using known r(1) l(1) len kahn_complete [OF g k] o keys ch
    by (auto simp: from_edges_def Let_def)
qed

section \<open>Depth-first collection\<close>

definition adj_rel :: "(string, string list) dict \<Rightarrow> (string \<times> string) set" where
  "adj_rel adj = {(x, y). y \<in> set (dict_at [] adj x)}"

lemma finite_adj_rel: "finite (Range (adj_rel adj))"
proof (rule finite_subset)
  show "Range (adj_rel adj) \<subseteq> (\<Union>e \<in> set adj. set (snd e))"
  proof
    fix y assume "y \<in> Range (adj_rel adj)"
    then obtain x where "y \<in> set (dict_at [] adj x)" by (auto simp: adj_rel_def)
    then obtain ys where "map_of adj x = Some ys" "y \<in> set ys"
      by (cases "map_of adj x") (simp_all add: dict_at_def)
    then show "y \<in> (\<Union>e \<in> set adj. set (snd e))"
      by (intro UN_I [of "(x, ys)"]) (auto dest: map_of_SomeD)
  qed
qed simp

text \<open>
  The search always ends; it appends, without repetition, nodes it had not seen, all of them
  reachable from the ones to visit, and leaves no neighbour of them unseen.
\<close>

lemma collect_total:
  assumes "finite U" "Range (adj_rel adj) \<subseteq> U" "set todo \<subseteq> U"
  shows "\<exists>new. collect adj todo seen ordered = Some (seen \<union> set new, ordered @ new) \<and> distinct new
    \<and> set new \<inter> seen = {} \<and> set todo \<subseteq> seen \<union> set new \<and> set new \<subseteq> (adj_rel adj)\<^sup>* `` set todo
    \<and> adj_rel adj `` set new \<subseteq> seen \<union> set new"
  using assms
proof (induction "(card (U - seen), length todo)" arbitrary: todo seen ordered
    rule: wf_induct_rule [OF wf_lex_prod [OF wf_less wf_less]])
  case 1
  show ?case
  proof (cases todo)
    case Nil
    then show ?thesis by (subst collect.simps) simp
  next
    case todo: (Cons x xs)
    show ?thesis
    proof (cases "x \<in> seen")
      case True
      with 1(1) [of seen xs ordered] 1(2-4) todo obtain new where
        "collect adj xs seen ordered = Some (seen \<union> set new, ordered @ new)" "distinct new"
        "set new \<inter> seen = {}" "set xs \<subseteq> seen \<union> set new" "set new \<subseteq> (adj_rel adj)\<^sup>* `` set xs"
        "adj_rel adj `` set new \<subseteq> seen \<union> set new" by auto
      with True todo show ?thesis by (subst collect.simps) (auto intro!: exI [of _ new])
    next
      case False
      let ?s = "insert x seen" and ?as = "dict_at [] adj x"
      have xU: "x \<in> U - seen" using False todo 1(4) by simp
      have dec: "card (U - T) < card (U - seen)" if "?s \<subseteq> T" for T
        using that xU 1(2) by (intro psubset_card_mono) auto
      have "set ?as \<subseteq> U" using 1(3) by (auto simp: adj_rel_def)
      with 1(1) [of ?s ?as "ordered @ [x]"] 1(2-3) dec [OF subset_refl] obtain n1 where
        n1: "collect adj ?as ?s (ordered @ [x]) = Some (?s \<union> set n1, (ordered @ [x]) @ n1)" "distinct n1"
        "set n1 \<inter> ?s = {}" "set ?as \<subseteq> ?s \<union> set n1" "set n1 \<subseteq> (adj_rel adj)\<^sup>* `` set ?as"
        "adj_rel adj `` set n1 \<subseteq> ?s \<union> set n1" by auto
      let ?t = "?s \<union> set n1"
      have "set xs \<subseteq> U" "card (U - ?t) < card (U - seen)" using 1(4) todo dec [of ?t] by auto
      with 1(1) [of ?t xs "(ordered @ [x]) @ n1"] 1(2-3) obtain n2 where
        n2: "collect adj xs ?t ((ordered @ [x]) @ n1) = Some (?t \<union> set n2, ((ordered @ [x]) @ n1) @ n2)"
        "distinct n2" "set n2 \<inter> ?t = {}" "set xs \<subseteq> ?t \<union> set n2" "set n2 \<subseteq> (adj_rel adj)\<^sup>* `` set xs"
        "adj_rel adj `` set n2 \<subseteq> ?t \<union> set n2" by auto
      have step: "(adj_rel adj)\<^sup>* `` set ?as \<subseteq> (adj_rel adj)\<^sup>* `` {x}"
        by (auto simp: adj_rel_def intro: converse_rtrancl_into_rtrancl)
      have x: "adj_rel adj `` {x} = set ?as" by (auto simp: adj_rel_def)
      let ?new = "x # n1 @ n2"
      have r: "collect adj todo seen ordered = Some (seen \<union> set ?new, ordered @ ?new)"
        using False todo n1(1) n2(1) by (subst collect.simps) (simp add: Un_assoc)
      have d: "distinct ?new" "set ?new \<inter> seen = {}" "set todo \<subseteq> seen \<union> set ?new"
        using False todo n1(2,3) n2(2-4) by auto
      have c: "adj_rel adj `` set ?new \<subseteq> seen \<union> set ?new"
        using x n1(4,6) n2(6) by (auto simp: Image_iff)
      have q: "set ?new \<subseteq> (adj_rel adj)\<^sup>* `` set todo"
      proof -
        have "(adj_rel adj)\<^sup>* `` {x} \<subseteq> (adj_rel adj)\<^sup>* `` set todo"
          "(adj_rel adj)\<^sup>* `` set xs \<subseteq> (adj_rel adj)\<^sup>* `` set todo" using todo by auto
        with n1(5) n2(5) step have "set n1 \<subseteq> (adj_rel adj)\<^sup>* `` set todo" "set n2 \<subseteq> (adj_rel adj)\<^sup>* `` set todo"
          by (meson subset_trans)+
        moreover have "x \<in> (adj_rel adj)\<^sup>* `` set todo" using todo by auto
        ultimately show ?thesis by simp
      qed
      show ?thesis using r d q c by blast
    qed
  qed
qed

lemma closed_reach:
  assumes "R `` S \<subseteq> S" "x \<in> S" "(x, y) \<in> R\<^sup>*"
  shows "y \<in> S"
  using assms(3) by (induction rule: rtrancl_induct) (use assms(1,2) in blast)+

lemma walk_correct:
  "\<exists>xs. walk adj iri include_self = Some xs \<and> distinct xs
    \<and> set xs = (if include_self then (adj_rel adj)\<^sup>* else (adj_rel adj)\<^sup>+) `` {iri}"
proof -
  let ?as = "dict_at [] adj iri" and ?s = "if include_self then {iri} else {}"
    and ?o = "if include_self then [iri] else []"
  have as: "set ?as = adj_rel adj `` {iri}" by (auto simp: adj_rel_def)
  from collect_total [of "Range (adj_rel adj)" adj ?as ?s ?o] obtain new where
    n: "collect adj ?as ?s ?o = Some (?s \<union> set new, ?o @ new)" "distinct new" "set new \<inter> ?s = {}"
      "set ?as \<subseteq> ?s \<union> set new" "set new \<subseteq> (adj_rel adj)\<^sup>* `` set ?as"
      "adj_rel adj `` set new \<subseteq> ?s \<union> set new"
    using finite_adj_rel as by blast
  have tr: "(adj_rel adj)\<^sup>* `` set ?as = (adj_rel adj)\<^sup>+ `` {iri}"
    by (auto simp: as trancl_unfold_left relcomp_unfold)
  have w: "walk adj iri include_self = Some (?o @ new)" "distinct (?o @ new)"
    using n(1-3) by (auto simp: walk_def)
  have eq: "set (?o @ new) = ?s \<union> set new" by simp
  show ?thesis
  proof (cases include_self)
    case True
    have "adj_rel adj `` (?s \<union> set new) \<subseteq> ?s \<union> set new" using True n(4,6) as by auto
    then have "(adj_rel adj)\<^sup>* `` {iri} \<subseteq> ?s \<union> set new"
      using closed_reach [of "adj_rel adj" "?s \<union> set new" iri] True by auto
    moreover have "?s \<union> set new \<subseteq> (adj_rel adj)\<^sup>* `` {iri}"
      using True n(5) tr by (auto simp: rtrancl_eq_or_trancl)
    ultimately show ?thesis using w eq True by auto
  next
    case False
    then have "(adj_rel adj)\<^sup>* `` set ?as \<subseteq> set new"
      using closed_reach [of "adj_rel adj" "set new"] n(4,6) by auto
    then show ?thesis using w eq tr n(5) False by auto
  qed
qed

section \<open>Properties\<close>

text \<open>The relation the input describes: a child and one of its parents.\<close>

definition edge_rel :: "(string, string list) dict \<Rightarrow> (string \<times> string) set" where
  "edge_rel pbc = {(c, p). \<exists>ps. map_of pbc c = Some ps \<and> p \<in> set ps}"

lemma parent_rel_parents_fun [simp]: "parent_rel (parents_fun pbc) = edge_rel pbc"
proof (rule set_eqI)
  fix e :: "string \<times> string"
  show "e \<in> parent_rel (parents_fun pbc) \<longleftrightarrow> e \<in> edge_rel pbc"
    by (cases e; cases "map_of pbc (fst e)") (auto simp: parent_rel_def edge_rel_def parents_fun_def)
qed

lemma topo_ok_nth:
  assumes "topo_ok par {} xs" "distinct xs" "i < length xs" "j < length xs" "xs ! i \<in> set (par (xs ! j))"
  shows "i < j"
proof -
  have "xs = take j xs @ xs ! j # drop (Suc j) xs" using assms(4) by (rule id_take_nth_drop)
  with assms(1) have "topo_ok par {} (take j xs @ xs ! j # drop (Suc j) xs)" by simp
  then have "set (par (xs ! j)) \<subseteq> set (take j xs)" by (simp add: topo_ok_append)
  with assms(5) obtain k where "k < j" "k < length xs" "xs ! i = xs ! k"
    by (auto simp: in_set_conv_nth subset_iff)
  with assms(2,3) show ?thesis by (simp add: nth_eq_iff_index_eq)
qed

lemma parents_fun_edge: "p \<in> set (parents_fun pbc c) \<longleftrightarrow> (c, p) \<in> edge_rel pbc"
  by (simp add: parent_rel_parents_fun [symmetric] parent_rel_def)

lemma parents_fun_distinct: "distinct (parents_fun pbc c)"
  by (simp add: parents_fun_def split: option.splits)

text \<open>
  C16: \<open>HierarchyDAG.from_edges\<close> accepts exactly the acyclic graphs over known nodes. An edge
  with an unknown endpoint is \<open>CDB-9504\<close>, a cycle is \<open>CDB-9505\<close>, and otherwise the result
  has the given nodes and their parents with duplicates removed, and its order lists every
  node once, each one after all of its parents.
\<close>

theorem from_edges_correct:
  assumes nodes: "distinct nodes" and ok: "dict_ok parents_by_child"
  shows "if \<not> known_edges nodes parents_by_child
    then from_edges nodes parents_by_child = raise_code ''CDB-9504''
    else if \<not> acyclic (edge_rel parents_by_child)
    then from_edges nodes parents_by_child = raise_code ''CDB-9505''
    else \<exists>h. from_edges nodes parents_by_child = Inr h \<and> h_nodes h = nodes
        \<and> (\<forall>c. distinct (dict_at [] (h_parents h) c)
             \<and> set (dict_at [] (h_parents h) c) = {p. (c, p) \<in> edge_rel parents_by_child})
        \<and> distinct (h_order h) \<and> set (h_order h) = set nodes
        \<and> (\<forall>i j. i < length nodes \<longrightarrow> j < length nodes
             \<longrightarrow> (h_order h ! j, h_order h ! i) \<in> edge_rel parents_by_child \<longrightarrow> i < j)"
proof -
  have len: "length xs = length nodes" if "distinct xs" "set xs = set nodes" for xs
    using that nodes by (metis distinct_card)
  have ord: "i < j" if "topo_ok (parents_fun parents_by_child) {} xs" "distinct xs" "set xs = set nodes"
    "i < length nodes" "j < length nodes" "(xs ! j, xs ! i) \<in> edge_rel parents_by_child" for xs i j
    using that len [of xs] topo_ok_nth [of "parents_fun parents_by_child" xs i j]
    by (simp add: parents_fun_edge)
  from from_edges_cases [OF assms] show ?thesis
    using ord parents_fun_distinct [of parents_by_child] by (simp split: if_splits) (auto simp: parents_fun_edge)
qed

theorem from_edges_correct_witness:
  "from_edges [''A'', ''B'', ''C''] [(''B'', [''A'', ''A'']), (''C'', [''B'', ''A''])]
     = Inr \<lparr>h_nodes = [''A'', ''B'', ''C''],
            h_parents = [(''A'', []), (''B'', [''A'']), (''C'', [''B'', ''A''])],
            h_children = [(''A'', [''B'', ''C'']), (''B'', [''C'']), (''C'', [])],
            h_order = [''A'', ''B'', ''C'']\<rparr>
   \<and> acyclic (edge_rel [(''B'', [''A'', ''A'']), (''C'', [''B'', ''A''])])
   \<and> from_edges [''A'', ''B''] [(''A'', [''B'']), (''B'', [''A''])] = raise_code ''CDB-9505''
   \<and> \<not> acyclic (edge_rel [(''A'', [''B'']), (''B'', [''A''])])"
proof -
  let ?n = "[''A'', ''B'', ''C'']" and ?p = "[(''B'', [''A'', ''A'']), (''C'', [''B'', ''A''])]"
  let ?m = "[''A'', ''B'']" and ?c = "[(''A'', [''B'']), (''B'', [''A''])]"
  have e: "from_edges ?n ?p
     = Inr \<lparr>h_nodes = [''A'', ''B'', ''C''],
            h_parents = [(''A'', []), (''B'', [''A'']), (''C'', [''B'', ''A''])],
            h_children = [(''A'', [''B'', ''C'']), (''B'', [''C'']), (''C'', [])],
            h_order = [''A'', ''B'', ''C'']\<rparr>" by code_simp
  have c: "from_edges ?m ?c = raise_code ''CDB-9505''" by code_simp
  have k: "known_edges ?n ?p" "known_edges ?m ?c" by (simp_all add: known_edges_def)
  have "acyclic (edge_rel ?p)"
    using from_edges_correct [of ?n ?p] e k(1) by (simp add: dict_ok_def split: if_splits)
  moreover have "\<not> acyclic (edge_rel ?c)"
    using from_edges_correct [of ?m ?c] c k(2) by (auto simp: dict_ok_def split: if_splits)
  ultimately show ?thesis using e c by simp
qed

lemma hierarchy_queries:
  assumes nodes: "distinct nodes" and ok: "dict_ok parents_by_child"
    and h: "from_edges nodes parents_by_child = Inr h" and "iri \<in> set nodes" and "other \<in> set nodes"
  shows "(\<exists>up. ancestors h iri include_self = Inr (Some up) \<and> distinct up
      \<and> set up = {p. (iri, p) \<in> (edge_rel parents_by_child)\<^sup>+ \<or> include_self \<and> p = iri})
    \<and> (\<exists>down. descendants h iri include_self = Inr (Some down) \<and> distinct down
      \<and> set down = {c. (c, iri) \<in> (edge_rel parents_by_child)\<^sup>+ \<or> include_self \<and> c = iri})
    \<and> is_subtype h iri other reflexive =
        Inr (Some ((iri, other) \<in> (edge_rel parents_by_child)\<^sup>+ \<or> reflexive \<and> iri = other))"
proof -
  let ?R = "edge_rel parents_by_child"
  have d: "\<And>c. dict_at [] (h_parents h) c = parents_fun parents_by_child c"
    "\<And>c. map_of (h_parents h) c \<noteq> None \<longleftrightarrow> c \<in> set nodes"
    "\<And>p. set (dict_at [] (h_children h) p) = {c. p \<in> set (parents_fun parents_by_child c)}"
    using from_edges_cases [OF nodes ok] h by (auto split: if_splits)
  have up: "adj_rel (h_parents h) = ?R" by (auto simp: adj_rel_def d(1) parents_fun_edge)
  have down: "adj_rel (h_children h) = ?R\<inverse>" by (auto simp: adj_rel_def d(3) parents_fun_edge)
  have req: "require_node h iri = Inr ()" "require_node h other = Inr ()"
    using d(2) assms(4,5) by (auto simp: require_node_def)
  have rt: "(if b then Q\<^sup>* else Q\<^sup>+) `` {iri} = {p. (iri, p) \<in> Q\<^sup>+ \<or> b \<and> p = iri}" for b and Q :: "(string \<times> string) set"
    by (auto simp: rtrancl_eq_or_trancl)
  have "\<exists>xs. ancestors h iri b = Inr (Some xs) \<and> distinct xs \<and> set xs = {p. (iri, p) \<in> ?R\<^sup>+ \<or> b \<and> p = iri}" for b
    using walk_correct [of "h_parents h" iri b] req by (simp add: ancestors_def up rt)
  moreover have "\<exists>xs. descendants h iri include_self = Inr (Some xs) \<and> distinct xs
      \<and> set xs = {c. (c, iri) \<in> ?R\<^sup>+ \<or> include_self \<and> c = iri}"
    using walk_correct [of "h_children h" iri include_self] req
    by (simp add: descendants_def down rt trancl_converse)
  moreover obtain xs where "ancestors h iri False = Inr (Some xs)" "set xs = {p. (iri, p) \<in> ?R\<^sup>+}"
    using calculation(1) [of False] by auto
  then have "is_subtype h iri other reflexive = Inr (Some ((iri, other) \<in> ?R\<^sup>+ \<or> reflexive \<and> iri = other))"
    using req by (auto simp: is_subtype_def)
  ultimately show ?thesis by blast
qed

text \<open>
  C17: on every hierarchy \<open>from_edges\<close> built, \<open>ancestors\<close> and \<open>descendants\<close> end, list each node
  once and return exactly the nodes that the parent relation reaches from the node, or that
  reach it, with the node itself when \<open>include_self\<close> is set; \<open>is_subtype\<close> decides that relation.
\<close>

theorem hierarchy_queries_correct:
  assumes nodes: "distinct nodes" and ok: "dict_ok parents_by_child"
    and h: "from_edges nodes parents_by_child = Inr h" and "iri \<in> set nodes" and "other \<in> set nodes"
  shows "(\<exists>up. ancestors h iri include_self = Inr (Some up) \<and> distinct up
      \<and> set up = {p. (iri, p) \<in> (edge_rel parents_by_child)\<^sup>+ \<or> include_self \<and> p = iri})
    \<and> (\<exists>down. descendants h iri include_self = Inr (Some down) \<and> distinct down
      \<and> set down = {c. (c, iri) \<in> (edge_rel parents_by_child)\<^sup>+ \<or> include_self \<and> c = iri})
    \<and> is_subtype h iri other reflexive =
        Inr (Some ((iri, other) \<in> (edge_rel parents_by_child)\<^sup>+ \<or> reflexive \<and> iri = other))"
  using assms by (rule hierarchy_queries)

theorem hierarchy_queries_correct_witness:
  "\<exists>h down. from_edges [''A'', ''B'', ''C''] [(''B'', [''A'']), (''C'', [''B''])] = Inr h
    \<and> is_subtype h ''C'' ''A'' True
        = Inr (Some ((''C'', ''A'') \<in> (edge_rel [(''B'', [''A'']), (''C'', [''B''])])\<^sup>+ \<or> True \<and> ''C'' = ''A''))
    \<and> descendants h ''C'' True = Inr (Some down) \<and> ''C'' \<in> set down"
proof -
  let ?n = "[''A'', ''B'', ''C'']" and ?p = "[(''B'', [''A'']), (''C'', [''B''])]"
  let ?h = "\<lparr>h_nodes = [''A'', ''B'', ''C''], h_parents = [(''A'', []), (''B'', [''A'']), (''C'', [''B''])],
            h_children = [(''A'', [''B'']), (''B'', [''C'']), (''C'', [])], h_order = [''A'', ''B'', ''C'']\<rparr>"
  have e: "from_edges ?n ?p = Inr ?h" by code_simp
  show ?thesis
    using hierarchy_queries_correct [OF _ _ e, of "''C''" "''A''" True True] e by (auto simp: dict_ok_def)
qed

end
