(* ===== verification/Tuft_Ast.thy ===== *)
theory Tuft_Ast
  imports Snapshot Catalog
begin

text \<open>
  The syntax tree of the Tuft query language (\<open>lang/tuft/ast.py\<close>), the input of name binding,
  the type checker and the pattern compiler. The source positions (\<open>span\<close> fields), which
  only the text of diagnostics uses, and the untyped body of an export clause, which no code
  modelled here reads, are left out.

  Clauses, patterns and queries are parametrised by the type of expressions, so that the only
  recursive type is that of expressions, which may contain a query or a pattern again. A
  field of type \<open>X | None\<close> is an option; a field the code tests with \<open>isinstance\<close> is a
  datatype with one constructor per class tested.
\<close>

section \<open>Names and types\<close>

datatype ident = Ident (id_name: string) (id_escaped: bool)

datatype name_ref = QName (ref_value: string) | Iri (ref_value: string)

datatype prefix_decl = PrefixDecl (pfx_prefix: string) (pfx_iri: name_ref)

datatype type_name = NamedType string | RefType name_ref

text \<open>
  A parameter is a type, a number, or, under \<open>STRUCT\<close>, a field name with its type.
\<close>

datatype ast_type = AstType (at_name: type_name) (at_params: "type_param list")
and type_param = TypeParam ast_type | IntParam int | FieldParam string ast_type

section \<open>Patterns\<close>

datatype direction = OUT | IN_DIR | BOTH

datatype hop_range = HopRange (min_hops: "int option") (max_hops: "int option")

datatype 'e prop_entry = PropEntry (pe_key: ident) (pe_value: 'e)

datatype 'e prop_map = PropMap (pm_entries: "'e prop_entry list")

datatype 'e pattern_elem =
    NodePattern "ident option" "name_ref list" "'e prop_map option"
  | RelPattern "ident option" "name_ref list" direction hop_range "'e prop_map option"
  | PathPattern "ident option" "'e pattern_elem list"

datatype 'e pattern = Pattern (pat_elements: "'e pattern_elem list") (pat_binding: "ident option")

section \<open>Clauses and queries\<close>

datatype 'e projection = Projection (pj_expr: 'e) (pj_alias: "ident option")

datatype 'e order_item = OrderItem (oi_expr: 'e) (oi_descending: bool)

datatype 'e set_item = SetItem (si_target: 'e) (si_value: 'e)

datatype 'e modifiers = Modifiers "'e order_item list" "'e option" "'e option"

datatype 'e clause =
    MatchClause "'e pattern list" bool "as_of option"
  | WhereClause "'e option"
  | WithClause "'e projection list" "'e option"
  | ReturnClause "'e projection list" bool
  | UnwindClause "'e option" "ident option"
  | CallClause "name_ref option" "'e list" "ident list"
  | SetClause "'e set_item list"
  | DeleteClause "'e list" bool
  | MergeClause "'e pattern option" "'e set_item list" "'e set_item list"
  | InferClause "ident list" "ident option"
  | ExportClause string string

datatype 'e query = Query (q_clauses: "'e clause list") (q_prefixes: "prefix_decl list") (q_modifiers: "'e modifiers")

section \<open>Expressions\<close>

datatype literal_kind =
    LK_BOOL | LK_INT | LK_FLOAT | LK_DECIMAL | LK_STRING | LK_NULL | LK_DATE | LK_TIME
  | LK_DATETIME | LK_DURATION | LK_IRI | LK_TYPED_STRING | LK_LANG_STRING

text \<open>The Python value of a literal; a float is carried by its textual form.\<close>

datatype literal_value = ValNone | ValBool bool | ValInt int | ValFloat string | ValStr string

text \<open>
  The right operand of a binary operator is an expression, a class or property reference
  (\<open>SUBCLASSOF*\<close>), or missing.
\<close>

datatype 'e operand = ExprOperand 'e | NameOperand name_ref | NoOperand

datatype expr =
    Literal literal_kind literal_value "name_ref option" "string option"
  | Var "ident option"
  | PathExpr "ident option" "ident list"
  | FnCall "name_ref option" "expr list"
  | BinOp string "expr option" "expr operand"
  | UnaryOp string "expr option"
  | Case "(expr \<times> expr) list" "expr option"
  | Cast "expr option" "ast_type option"
  | Subquery "expr query option"
  | Exists "expr pattern option"
  | ListExpr "expr list"
  | MapExpr "(string \<times> expr) list"
  | Subscript "expr option" "expr option"

section \<open>Statements\<close>

datatype triple_term = ExprTerm expr | NameTerm name_ref

datatype triple_pattern =
  TriplePattern (tp_subject: triple_term) (tp_predicate: "name_ref + string") (tp_object: triple_term)

text \<open>
  The \<open>payload\<close> of a statement is a dictionary of untyped values: the ones name binding and the
  type checker look at, single or in a tuple, and any other.
\<close>

datatype payload_item =
    NameItem name_ref
  | TypeItem ast_type
  | PatternItem "expr pattern"
  | TripleItem triple_pattern
  | DeclItem prefix_decl
  | OtherItem

datatype payload_value = OneItem payload_item | TupleItems "payload_item list"

type_synonym payload = "(string, payload_value) dict"

datatype target = NameTarget name_ref | IdentTarget ident | NoTarget

datatype stmt =
    DdlStmt string target payload
  | DmlStmt string "expr query option" "expr pattern option" payload
  | QueryStmt "expr query option"
  | TxStmt string
  | UtilStmt string "expr query option" payload

datatype program = Program (pr_statements: "stmt list")

text \<open>\<open>for item in payload.get(key, ())\<close>.\<close>

definition payload_items :: "payload \<Rightarrow> string \<Rightarrow> payload_item list result" where
  "payload_items pl key =
     (case map_of pl key of
        None \<Rightarrow> Inr []
      | Some (TupleItems xs) \<Rightarrow> Inr xs
      | Some (OneItem _) \<Rightarrow> Inl TypeError)"

text \<open>\<open>s.split(":", 1)\<close> for a string that contains a colon, and \<open>":" in s\<close>.\<close>

definition has_colon :: "string \<Rightarrow> bool" where
  "has_colon s \<longleftrightarrow> CHR '':'' \<in> set s"

definition split_colon :: "string \<Rightarrow> string \<times> string" where
  "split_colon s = (takeWhile (\<lambda>c. c \<noteq> CHR '':'') s, tl (dropWhile (\<lambda>c. c \<noteq> CHR '':'') s))"

end
