(* ===== verification/Binding.thy ===== *)
theory Binding
  imports Tuft_Ast
begin

text \<open>
  The semantic name binding (under \<open>lang/tuft\<close>): resolving prefixed names and checking class
  and property references against the catalogue. The tuft_binding's fields are threaded through
  every method; a method that raises discards them, as the object is dropped.
\<close>

section \<open>Resolving names\<close>

datatype bound_name = BoundName (bn_original: name_ref) (bn_iri: string)

record tuft_binding =
  bi_prefixes :: "(string, string) dict"
  bi_classes :: "bound_name list"
  bi_properties :: "bound_name list"

record bound_program =
  bp_program :: program
  bp_prefixes :: "(string, string) dict"
  bp_classes :: "bound_name list"
  bp_properties :: "bound_name list"

fun resolve_name :: "(string, string) dict \<Rightarrow> name_ref \<Rightarrow> string result" where
  "resolve_name pfx (Iri v) = Inr v"
| "resolve_name pfx (QName v) =
     (if \<not> has_colon v then
        (case map_of pfx [] of
           None \<Rightarrow> raise_code ''TF-3001''
         | Some p \<Rightarrow> Inr (p @ v))
      else
        let (pre, loc) = split_colon v in
        (case map_of pfx pre of
           None \<Rightarrow> raise_code ''TF-3001''
         | Some p \<Rightarrow> Inr (p @ loc)))"

definition bind_class :: "catalog \<Rightarrow> name_ref \<Rightarrow> tuft_binding \<Rightarrow> tuft_binding result" where
  "bind_class c name b =
     rbind (resolve_name (bi_prefixes b) name) (\<lambda>iri.
       if class_by_iri c iri = None then raise_code ''TF-3004''
       else Inr (b\<lparr>bi_classes := bi_classes b @ [BoundName name iri]\<rparr>))"

definition bind_property :: "catalog \<Rightarrow> name_ref \<Rightarrow> tuft_binding \<Rightarrow> tuft_binding result" where
  "bind_property c name b =
     rbind (resolve_name (bi_prefixes b) name) (\<lambda>iri.
       if property_by_iri c iri = None then raise_code ''TF-3005''
       else Inr (b\<lparr>bi_properties := bi_properties b @ [BoundName name iri]\<rparr>))"

text \<open>A name that is resolved only to raise when its prefix is unknown.\<close>

definition resolve_only :: "name_ref \<Rightarrow> tuft_binding \<Rightarrow> tuft_binding result" where
  "resolve_only name b = rbind (resolve_name (bi_prefixes b) name) (\<lambda>_. Inr b)"

section \<open>Expressions and types\<close>

fun bind_type_ref :: "ast_type \<Rightarrow> tuft_binding \<Rightarrow> tuft_binding result"
and bind_param :: "type_param \<Rightarrow> tuft_binding \<Rightarrow> tuft_binding result"
where
  "bind_type_ref (AstType n params) b =
     rbind (case n of RefType r \<Rightarrow> resolve_only r b | NamedType _ \<Rightarrow> Inr b) (rfold bind_param params)"
| "bind_param (TypeParam t) b = bind_type_ref t b"
| "bind_param (IntParam _) b = Inr b"
| "bind_param (FieldParam _ _) b = Inr b"

fun bind_expr :: "expr \<Rightarrow> tuft_binding \<Rightarrow> tuft_binding result" where
  "bind_expr (BinOp _ left right) b =
     rbind (case left of Some l \<Rightarrow> bind_expr l b | None \<Rightarrow> Inr b) (\<lambda>b'.
       case right of ExprOperand r \<Rightarrow> bind_expr r b' | _ \<Rightarrow> Inr b')"
| "bind_expr (UnaryOp _ (Some e)) b = bind_expr e b"
| "bind_expr (FnCall name args) b =
     rbind (case name of Some n \<Rightarrow> resolve_only n b | None \<Rightarrow> Inr b) (rfold bind_expr args)"
| "bind_expr (Literal _ _ (Some dt) _) b = resolve_only dt b"
| "bind_expr (ListExpr items) b = rfold bind_expr items b"
| "bind_expr (MapExpr entries) b = rfold (\<lambda>(_, e). bind_expr e) entries b"
| "bind_expr (Subscript tgt idx) b =
     rbind (case tgt of Some e \<Rightarrow> bind_expr e b | None \<Rightarrow> Inr b) (\<lambda>b'.
       case idx of Some e \<Rightarrow> bind_expr e b' | None \<Rightarrow> Inr b')"
| "bind_expr (Cast _ (Some t)) b = bind_type_ref t b"
| "bind_expr _ b = Inr b"

definition bind_projections :: "expr projection list \<Rightarrow> tuft_binding \<Rightarrow> tuft_binding result" where
  "bind_projections ps = rfold (\<lambda>p. bind_expr (pj_expr p)) ps"

definition bind_prop_map :: "expr prop_map \<Rightarrow> tuft_binding \<Rightarrow> tuft_binding result" where
  "bind_prop_map pm = rfold (\<lambda>e. bind_expr (pe_value e)) (pm_entries pm)"

definition bind_type_refs :: "payload_item list \<Rightarrow> tuft_binding \<Rightarrow> tuft_binding result" where
  "bind_type_refs items = rfold (\<lambda>i b. case i of TypeItem t \<Rightarrow> bind_type_ref t b | _ \<Rightarrow> Inr b) items"

section \<open>Patterns, clauses, statements\<close>

definition bind_props :: "expr prop_map option \<Rightarrow> tuft_binding \<Rightarrow> tuft_binding result" where
  "bind_props props b = (case props of Some pm \<Rightarrow> bind_prop_map pm b | None \<Rightarrow> Inr b)"

fun bind_elem :: "catalog \<Rightarrow> expr pattern_elem \<Rightarrow> tuft_binding \<Rightarrow> tuft_binding result" where
  "bind_elem c (NodePattern _ labels props) b = rbind (rfold (bind_class c) labels b) (bind_props props)"
| "bind_elem c (RelPattern _ types _ _ props) b = rbind (rfold (bind_property c) types b) (bind_props props)"
| "bind_elem c (PathPattern _ inner) b = rfold (bind_elem c) inner b"

definition bind_pattern :: "catalog \<Rightarrow> expr pattern \<Rightarrow> tuft_binding \<Rightarrow> tuft_binding result" where
  "bind_pattern c p = rfold (bind_elem c) (pat_elements p)"

fun bind_term :: "triple_term \<Rightarrow> tuft_binding \<Rightarrow> tuft_binding result" where
  "bind_term (ExprTerm e) b = bind_expr e b"
| "bind_term (NameTerm n) b = resolve_only n b"

definition bind_triple :: "catalog \<Rightarrow> triple_pattern \<Rightarrow> tuft_binding \<Rightarrow> tuft_binding result" where
  "bind_triple c t b =
     rbind (case tp_predicate t of Inl n \<Rightarrow> bind_property c n b | Inr _ \<Rightarrow> Inr b)
       (rfold bind_term [tp_subject t, tp_object t])"

fun bind_clause :: "catalog \<Rightarrow> expr clause \<Rightarrow> tuft_binding \<Rightarrow> tuft_binding result" where
  "bind_clause c (MatchClause ps _ _) b = rfold (bind_pattern c) ps b"
| "bind_clause c (CallClause (Some f) _ _) b = resolve_only f b"
| "bind_clause c (SetClause items) b = rfold (\<lambda>i. bind_expr (si_value i)) items b"
| "bind_clause c (WhereClause (Some e)) b = bind_expr e b"
| "bind_clause c (WithClause ps w) b =
     rbind (bind_projections ps b) (\<lambda>b'. case w of Some e \<Rightarrow> bind_expr e b' | None \<Rightarrow> Inr b')"
| "bind_clause c (ReturnClause ps _) b = bind_projections ps b"
| "bind_clause c _ b = Inr b"

definition declare_prefix :: "prefix_decl \<Rightarrow> tuft_binding \<Rightarrow> tuft_binding" where
  "declare_prefix d b = b\<lparr>bi_prefixes := AList.update (pfx_prefix d) (ref_value (pfx_iri d)) (bi_prefixes b)\<rparr>"

definition bind_query :: "catalog \<Rightarrow> expr query \<Rightarrow> tuft_binding \<Rightarrow> tuft_binding result" where
  "bind_query c q b = rfold (bind_clause c) (q_clauses q) (fold declare_prefix (q_prefixes q) b)"

fun bind_target :: "target \<Rightarrow> tuft_binding \<Rightarrow> tuft_binding result" where
  "bind_target (NameTarget n) b = resolve_only n b"
| "bind_target _ b = Inr b"

text \<open>The loops over the named references of a payload entry.\<close>

definition bind_names :: "(name_ref \<Rightarrow> tuft_binding \<Rightarrow> tuft_binding result) \<Rightarrow> payload_item list \<Rightarrow> tuft_binding \<Rightarrow> tuft_binding result" where
  "bind_names f items = rfold (\<lambda>i b. case i of NameItem n \<Rightarrow> f n b | _ \<Rightarrow> Inr b) items"

definition bind_ddl :: "catalog \<Rightarrow> string \<Rightarrow> target \<Rightarrow> payload \<Rightarrow> tuft_binding \<Rightarrow> tuft_binding result" where
  "bind_ddl c op tgt pl b =
     (if op = ''prefix'' then
        (case map_of pl ''decl'' of
           Some (OneItem (DeclItem d)) \<Rightarrow> Inr (declare_prefix d b)
         | _ \<Rightarrow> Inr b)
      else if op = ''create_class'' then
        rbind (bind_target tgt b) (\<lambda>b1.
        rbind (payload_items pl ''subclasses_of'') (\<lambda>items. bind_names (bind_class c) items b1))
      else if op = ''create_property'' then
        rbind (bind_target tgt b) (\<lambda>b1.
        rbind (payload_items pl ''domain'') (\<lambda>items.
        rbind (bind_names (bind_class c) items b1) (\<lambda>b2.
        rbind (payload_items pl ''range'') (\<lambda>ranges. bind_type_refs ranges b2))))
      else if op = ''create_graph'' then
        rbind (payload_items pl ''ontologies'') (\<lambda>items. bind_names resolve_only items b)
      else Inr b)"

definition bind_dml ::
  "catalog \<Rightarrow> expr query option \<Rightarrow> expr pattern option \<Rightarrow> payload \<Rightarrow> tuft_binding \<Rightarrow> tuft_binding result"
where
  "bind_dml c q p pl b =
     rbind (case q of Some q \<Rightarrow> bind_query c q b | None \<Rightarrow> Inr b) (\<lambda>b1.
     rbind (case p of Some p \<Rightarrow> bind_pattern c p b1 | None \<Rightarrow> Inr b1) (\<lambda>b2.
     rbind (payload_items pl ''patterns'') (\<lambda>pats.
     rbind (rfold (\<lambda>i b. case i of PatternItem p \<Rightarrow> bind_pattern c p b | _ \<Rightarrow> Inr b) pats b2) (\<lambda>b3.
     rbind (payload_items pl ''triples'') (\<lambda>trs.
       rfold (\<lambda>i b. case i of TripleItem t \<Rightarrow> bind_triple c t b | _ \<Rightarrow> Inr b) trs b3)))))"

fun bind_stmt :: "catalog \<Rightarrow> stmt \<Rightarrow> tuft_binding \<Rightarrow> tuft_binding result" where
  "bind_stmt c (DdlStmt op tgt pl) b = bind_ddl c op tgt pl b"
| "bind_stmt c (QueryStmt (Some q)) b = bind_query c q b"
| "bind_stmt c (DmlStmt _ q p pl) b = bind_dml c q p pl b"
| "bind_stmt c (UtilStmt _ (Some q) _) b = bind_query c q b"
| "bind_stmt c _ b = Inr b"

definition bind :: "catalog \<Rightarrow> program \<Rightarrow> tuft_binding \<Rightarrow> bound_program result" where
  "bind c p b =
     rbind (rfold (bind_stmt c) (pr_statements p) b) (\<lambda>b'.
       Inr \<lparr>bp_program = p, bp_prefixes = bi_prefixes b', bp_classes = bi_classes b',
            bp_properties = bi_properties b'\<rparr>)"

definition bind_program :: "program \<Rightarrow> catalog \<Rightarrow> (string, string) dict \<Rightarrow> bound_program result" where
  "bind_program p c pfx =
     bind c p \<lparr>bi_prefixes = pfx, bi_classes = [], bi_properties = []\<rparr>"

section \<open>The references of a program\<close>

text \<open>
  What a program refers to, read off its syntax: the class references, the property
  references and the prefix declarations, each in the order of the text.
\<close>

fun elem_classes :: "'e pattern_elem \<Rightarrow> name_ref list" where
  "elem_classes (NodePattern _ labels _) = labels"
| "elem_classes (RelPattern _ _ _ _ _) = []"
| "elem_classes (PathPattern _ inner) = concat (map elem_classes inner)"

fun elem_properties :: "'e pattern_elem \<Rightarrow> name_ref list" where
  "elem_properties (NodePattern _ _ _) = []"
| "elem_properties (RelPattern _ types _ _ _) = types"
| "elem_properties (PathPattern _ inner) = concat (map elem_properties inner)"

definition pattern_refs :: "('e pattern_elem \<Rightarrow> name_ref list) \<Rightarrow> 'e pattern \<Rightarrow> name_ref list" where
  "pattern_refs f p = concat (map f (pat_elements p))"

fun clause_refs :: "('e pattern_elem \<Rightarrow> name_ref list) \<Rightarrow> 'e clause \<Rightarrow> name_ref list" where
  "clause_refs f (MatchClause ps _ _) = concat (map (pattern_refs f) ps)"
| "clause_refs f _ = []"

definition query_refs :: "('e pattern_elem \<Rightarrow> name_ref list) \<Rightarrow> 'e query \<Rightarrow> name_ref list" where
  "query_refs f q = concat (map (clause_refs f) (q_clauses q))"

abbreviation opt_refs :: "('a \<Rightarrow> name_ref list) \<Rightarrow> 'a option \<Rightarrow> name_ref list" where
  "opt_refs f x \<equiv> (case x of None \<Rightarrow> [] | Some y \<Rightarrow> f y)"

definition item_names :: "payload \<Rightarrow> string \<Rightarrow> name_ref list" where
  "item_names pl k =
     (case payload_items pl k of
        Inr xs \<Rightarrow> concat (map (\<lambda>i. case i of NameItem n \<Rightarrow> [n] | _ \<Rightarrow> []) xs) | Inl _ \<Rightarrow> [])"

definition item_patterns :: "(expr pattern_elem \<Rightarrow> name_ref list) \<Rightarrow> payload \<Rightarrow> name_ref list" where
  "item_patterns f pl =
     (case payload_items pl ''patterns'' of
        Inr xs \<Rightarrow> concat (map (\<lambda>i. case i of PatternItem p \<Rightarrow> pattern_refs f p | _ \<Rightarrow> []) xs) | Inl _ \<Rightarrow> [])"

definition item_predicates :: "payload \<Rightarrow> name_ref list" where
  "item_predicates pl =
     (case payload_items pl ''triples'' of
        Inr xs \<Rightarrow> concat (map (\<lambda>i. case i of
            TripleItem t \<Rightarrow> (case tp_predicate t of Inl n \<Rightarrow> [n] | Inr _ \<Rightarrow> []) | _ \<Rightarrow> []) xs)
      | Inl _ \<Rightarrow> [])"

fun stmt_classes :: "stmt \<Rightarrow> name_ref list" where
  "stmt_classes (DdlStmt op _ pl) =
     (if op = ''create_class'' then item_names pl ''subclasses_of''
      else if op = ''create_property'' then item_names pl ''domain'' else [])"
| "stmt_classes (DmlStmt _ q p pl) =
     opt_refs (query_refs elem_classes) q @ opt_refs (pattern_refs elem_classes) p @ item_patterns elem_classes pl"
| "stmt_classes (QueryStmt q) = opt_refs (query_refs elem_classes) q"
| "stmt_classes (UtilStmt _ q _) = opt_refs (query_refs elem_classes) q"
| "stmt_classes (TxStmt _) = []"

fun stmt_properties :: "stmt \<Rightarrow> name_ref list" where
  "stmt_properties (DdlStmt _ _ _) = []"
| "stmt_properties (DmlStmt _ q p pl) =
     opt_refs (query_refs elem_properties) q @ opt_refs (pattern_refs elem_properties) p
       @ item_patterns elem_properties pl @ item_predicates pl"
| "stmt_properties (QueryStmt q) = opt_refs (query_refs elem_properties) q"
| "stmt_properties (UtilStmt _ q _) = opt_refs (query_refs elem_properties) q"
| "stmt_properties (TxStmt _) = []"

abbreviation opt_decls :: "expr query option \<Rightarrow> prefix_decl set" where
  "opt_decls q \<equiv> (case q of None \<Rightarrow> {} | Some q \<Rightarrow> set (q_prefixes q))"

fun stmt_decls :: "stmt \<Rightarrow> prefix_decl set" where
  "stmt_decls (DdlStmt op _ pl) =
     (if op = ''prefix'' then (case map_of pl ''decl'' of Some (OneItem (DeclItem d)) \<Rightarrow> {d} | _ \<Rightarrow> {}) else {})"
| "stmt_decls (DmlStmt _ q _ _) = opt_decls q"
| "stmt_decls (QueryStmt q) = opt_decls q"
| "stmt_decls (UtilStmt _ q _) = opt_decls q"
| "stmt_decls (TxStmt _) = {}"

section \<open>Expressions leave the state alone\<close>

lemma rfold_same:
  "rfold f xs b = Inr b' \<Longrightarrow> (\<And>x u v. x \<in> set xs \<Longrightarrow> f x u = Inr v \<Longrightarrow> v = u) \<Longrightarrow> b' = b"
  by (rule rfold_invariant [of f xs b b' "\<lambda>u. u = b"]) auto

lemma concat_map_Nil [simp]: "concat (map (\<lambda>_. []) xs) = []"
  by (induction xs) auto

lemma resolve_only_same: "resolve_only n b = Inr b' \<Longrightarrow> b' = b"
  by (auto simp: resolve_only_def rbind_Inr_iff)

lemma bind_type_ref_same:
  "bind_type_ref t b = Inr b' \<Longrightarrow> b' = b"
  "bind_param p b = Inr b' \<Longrightarrow> b' = b"
proof (induction t and p arbitrary: b b' and b b')
  case (AstType n params)
  then obtain u where u: "(case n of RefType r \<Rightarrow> resolve_only r b | NamedType _ \<Rightarrow> Inr b) = Inr u"
    "rfold bind_param params u = Inr b'" by (auto simp: rbind_Inr_iff)
  then have "u = b" by (auto split: type_name.splits dest: resolve_only_same)
  moreover have "b' = u" using u(2) AstType.IH by (rule rfold_same) auto
  ultimately show ?case by simp
qed auto

lemma bind_expr_same: "bind_expr e b = Inr b' \<Longrightarrow> b' = b"
proof (induction e b arbitrary: b' rule: bind_expr.induct)
  case (1 op left right b)
  then obtain u where u: "(case left of Some l \<Rightarrow> bind_expr l b | None \<Rightarrow> Inr b) = Inr u"
    "(case right of ExprOperand r \<Rightarrow> bind_expr r u | _ \<Rightarrow> Inr u) = Inr b'" by (auto simp: rbind_Inr_iff)
  have "u = b" using u(1) 1(1) by (cases left) auto
  moreover have "b' = u" using u 1(2) [OF u(1)] by (cases right) auto
  ultimately show ?case by simp
next
  case (7 tgt idx b)
  then obtain u where u: "(case tgt of Some e \<Rightarrow> bind_expr e b | None \<Rightarrow> Inr b) = Inr u"
    "(case idx of Some e \<Rightarrow> bind_expr e u | None \<Rightarrow> Inr u) = Inr b'" by (auto simp: rbind_Inr_iff)
  have "u = b" using u(1) 7(1) by (cases tgt) auto
  moreover have "b' = u" using u 7(2) [OF u(1)] by (cases idx) auto
  ultimately show ?case by simp
next
  case (3 name args b)
  then obtain u where u: "(case name of Some n \<Rightarrow> resolve_only n b | None \<Rightarrow> Inr b) = Inr u"
    "rfold bind_expr args u = Inr b'" by (auto simp: rbind_Inr_iff)
  then have "u = b" by (auto split: option.splits dest: resolve_only_same)
  moreover have "b' = u" using u(2) 3(1) [OF u(1)] by (rule rfold_same)
  ultimately show ?case by simp
next
  case (5 items b)
  have "rfold bind_expr items b = Inr b'" using 5 by simp
  then show ?case by (rule rfold_same) (use 5 in blast)
next
  case (6 entries b)
  have "rfold (\<lambda>(_, e). bind_expr e) entries b = Inr b'" using 6 by simp
  then show ?case by (rule rfold_same) (use 6 in auto)
qed (auto simp: rbind_Inr_iff split: option.splits operand.splits
      dest: resolve_only_same bind_type_ref_same)

lemma bind_exprs_same: "rfold (\<lambda>x. bind_expr (f x)) xs b = Inr b' \<Longrightarrow> b' = b"
  by (erule rfold_same) (rule bind_expr_same)

lemmas bind_same = resolve_only_same bind_type_ref_same bind_expr_same bind_exprs_same

lemma bind_props_same: "bind_props props b = Inr b' \<Longrightarrow> b' = b"
  by (auto simp: bind_props_def bind_prop_map_def split: option.splits dest: bind_same)

lemma bind_terms_same: "rfold bind_term ts b = Inr b' \<Longrightarrow> b' = b"
proof (erule rfold_same)
  show "v = u" if "bind_term t u = Inr v" for t u v using that by (cases t) (auto dest: bind_same)
qed

lemma bind_type_refs_same: "bind_type_refs items b = Inr b' \<Longrightarrow> b' = b"
  unfolding bind_type_refs_def by (erule rfold_same) (auto split: payload_item.splits dest: bind_same)

lemma bind_names_resolve_same: "bind_names resolve_only items b = Inr b' \<Longrightarrow> b' = b"
  unfolding bind_names_def by (erule rfold_same) (auto split: payload_item.splits dest: bind_same)

lemma bind_target_same: "bind_target t b = Inr b' \<Longrightarrow> b' = b"
  by (cases t) (auto dest: bind_same)

section \<open>What binding a program does, step by step\<close>

text \<open>
  Binding is a sequence of three kinds of steps: binding a class reference, binding a
  property reference, declaring a prefix. Whatever relation of the states before and after,
  indexed by the references bound in between, holds of these steps and composes, holds of
  a whole program with the references of its text.
\<close>

locale binding_trace =
  fixes c :: catalog and D :: "prefix_decl set"
    and R :: "tuft_binding \<Rightarrow> tuft_binding \<Rightarrow> name_ref list \<Rightarrow> name_ref list \<Rightarrow> bool"
  assumes refl: "R b b [] []"
    and trans: "R b b1 cs ps \<Longrightarrow> R b1 b2 cs' ps' \<Longrightarrow> R b b2 (cs @ cs') (ps @ ps')"
    and class_step: "bind_class c n b = Inr b' \<Longrightarrow> R b b' [n] []"
    and property_step: "bind_property c n b = Inr b' \<Longrightarrow> R b b' [] [n]"
    and decl_step: "d \<in> D \<Longrightarrow> R b (declare_prefix d b) [] []"
begin

lemma rfold_steps:
  assumes "\<And>x u v. x \<in> set xs \<Longrightarrow> f x u = Inr v \<Longrightarrow> R u v (F x) (G x)" "rfold f xs b = Inr b'"
  shows "R b b' (concat (map F xs)) (concat (map G xs))"
  using assms
proof (induction xs arbitrary: b)
  case Nil
  then show ?case by (simp add: refl)
next
  case (Cons x xs)
  from Cons.prems(2) obtain u where u: "f x b = Inr u" "rfold f xs u = Inr b'" by (auto simp: rbind_Inr_iff)
  from Cons.prems(1) [OF _ u(1)] have "R b u (F x) (G x)" by simp
  moreover from Cons.prems(1) u(2) have "R u b' (concat (map F xs)) (concat (map G xs))"
    by (intro Cons.IH) auto
  ultimately show ?case using trans by simp
qed

lemma class_steps: "rfold (bind_class c) ns b = Inr b' \<Longrightarrow> R b b' ns []"
  using rfold_steps [of ns "bind_class c" "\<lambda>n. [n]" "\<lambda>_. []"] class_step by simp

lemma property_steps: "rfold (bind_property c) ns b = Inr b' \<Longrightarrow> R b b' [] ns"
  using rfold_steps [of ns "bind_property c" "\<lambda>_. []" "\<lambda>n. [n]"] property_step by simp

lemma elem_steps: "bind_elem c e b = Inr b' \<Longrightarrow> R b b' (elem_classes e) (elem_properties e)"
proof (induction e arbitrary: b b')
  case (NodePattern v labels props)
  then show ?case by (auto simp: rbind_Inr_iff dest!: bind_props_same intro: class_steps)
next
  case (RelPattern v types d h props)
  then show ?case by (auto simp: rbind_Inr_iff dest!: bind_props_same intro: property_steps)
next
  case (PathPattern v inner)
  have "rfold (bind_elem c) inner b = Inr b'" using PathPattern.prems by simp
  then show ?case unfolding elem_classes.simps elem_properties.simps
    by (rule rfold_steps [rotated]) (rule PathPattern.IH)
qed

lemma pattern_steps:
  "bind_pattern c p b = Inr b' \<Longrightarrow> R b b' (pattern_refs elem_classes p) (pattern_refs elem_properties p)"
  unfolding bind_pattern_def pattern_refs_def by (erule rfold_steps [rotated]) (rule elem_steps)

lemma clause_steps:
  assumes "bind_clause c cl b = Inr b'"
  shows "R b b' (clause_refs elem_classes cl) (clause_refs elem_properties cl)"
proof (cases cl)
  case (MatchClause ps opt as_of)
  with assms have "rfold (bind_pattern c) ps b = Inr b'" by simp
  then show ?thesis unfolding MatchClause clause_refs.simps
    by (rule rfold_steps [rotated]) (rule pattern_steps)
next
  case (WhereClause e)
  with assms have "b' = b" by (cases e) (auto dest: bind_same)
  with WhereClause show ?thesis by (simp add: refl)
next
  case (CallClause f args ys)
  with assms have "b' = b" by (cases f) (auto dest: bind_same)
  with CallClause show ?thesis by (simp add: refl)
qed (use assms in \<open>auto simp: bind_projections_def rbind_Inr_iff refl split: option.splits dest!: bind_same\<close>)

lemma decl_steps: "set ds \<subseteq> D \<Longrightarrow> R b (fold declare_prefix ds b) [] []"
proof (induction ds arbitrary: b)
  case (Cons d ds)
  then have "R b (declare_prefix d b) [] []" "R (declare_prefix d b) (fold declare_prefix (d # ds) b) [] []"
    by (simp_all add: decl_step)
  from trans [OF this] show ?case by simp
qed (simp add: refl)

lemma query_steps:
  assumes "bind_query c q b = Inr b'" "set (q_prefixes q) \<subseteq> D"
  shows "R b b' (query_refs elem_classes q) (query_refs elem_properties q)"
proof -
  let ?u = "fold declare_prefix (q_prefixes q) b"
  have "rfold (bind_clause c) (q_clauses q) ?u = Inr b'" using assms(1) by (simp add: bind_query_def)
  then have "R ?u b' (query_refs elem_classes q) (query_refs elem_properties q)"
    unfolding query_refs_def by (rule rfold_steps [rotated]) (rule clause_steps)
  from trans [OF decl_steps [OF assms(2)] this] show ?thesis by simp
qed

lemma opt_query_steps:
  "(case q of Some q \<Rightarrow> bind_query c q b | None \<Rightarrow> Inr b) = Inr b' \<Longrightarrow> opt_decls q \<subseteq> D
    \<Longrightarrow> R b b' (opt_refs (query_refs elem_classes) q) (opt_refs (query_refs elem_properties) q)"
  by (cases q) (auto simp: refl intro: query_steps)

lemma names_steps:
  assumes "payload_items pl k = Inr items" "bind_names (bind_class c) items b = Inr b'"
  shows "R b b' (item_names pl k) []"
proof -
  have "rfold (\<lambda>i b. case i of NameItem n \<Rightarrow> bind_class c n b | _ \<Rightarrow> Inr b) items b = Inr b'"
    using assms(2) by (simp add: bind_names_def)
  then have "R b b' (concat (map (\<lambda>i. case i of NameItem n \<Rightarrow> [n] | _ \<Rightarrow> []) items)) (concat (map (\<lambda>_. []) items))"
    by (rule rfold_steps [rotated]) (auto simp: refl class_step split: payload_item.splits)
  with assms(1) show ?thesis by (simp add: item_names_def)
qed

lemma ddl_steps:
  assumes "bind_ddl c op tgt pl b = Inr b'" "stmt_decls (DdlStmt op tgt pl) \<subseteq> D"
  shows "R b b' (stmt_classes (DdlStmt op tgt pl)) []"
proof -
  consider (pfx) "op = ''prefix''" | (cls) "op = ''create_class''" | (prp) "op = ''create_property''"
    | (gr) "op = ''create_graph''" | (none) "op \<notin> {''prefix'', ''create_class'', ''create_property'', ''create_graph''}"
    by blast
  then show ?thesis
  proof cases
    case pfx
    with assms show ?thesis
      by (auto simp: bind_ddl_def refl decl_step split: option.splits payload_value.splits payload_item.splits)
  next
    case cls
    with assms obtain u items where "bind_target tgt b = Inr u" "payload_items pl ''subclasses_of'' = Inr items"
      "bind_names (bind_class c) items u = Inr b'" by (auto simp: bind_ddl_def rbind_Inr_iff)
    with cls names_steps show ?thesis by (auto dest: bind_target_same)
  next
    case prp
    with assms obtain u items v rs where "bind_target tgt b = Inr u" "payload_items pl ''domain'' = Inr items"
      "bind_names (bind_class c) items u = Inr v" "bind_type_refs rs v = Inr b'"
      by (auto simp: bind_ddl_def rbind_Inr_iff)
    with prp names_steps [of pl "''domain''" items b b'] show ?thesis
      using bind_target_same [of tgt b u] bind_type_refs_same [of rs v b'] by simp
  next
    case gr
    with assms have "b' = b" by (auto simp: bind_ddl_def rbind_Inr_iff dest: bind_names_resolve_same)
    with gr show ?thesis by (simp add: refl)
  next
    case none
    with assms show ?thesis by (auto simp: bind_ddl_def refl)
  qed
qed

lemma triple_steps:
  assumes "bind_triple c t b = Inr b'"
  shows "R b b' [] (case tp_predicate t of Inl n \<Rightarrow> [n] | Inr _ \<Rightarrow> [])"
proof -
  from assms obtain u where u: "(case tp_predicate t of Inl n \<Rightarrow> bind_property c n b | Inr _ \<Rightarrow> Inr b) = Inr u"
    "rfold bind_term [tp_subject t, tp_object t] u = Inr b'" by (auto simp: bind_triple_def rbind_Inr_iff)
  from bind_terms_same [OF u(2)] u(1) show ?thesis by (auto simp: refl property_step split: sum.splits)
qed

lemma dml_steps:
  assumes "bind_dml c q p pl b = Inr b'" "opt_decls q \<subseteq> D"
  shows "R b b' (stmt_classes (DmlStmt op q p pl)) (stmt_properties (DmlStmt op q p pl))"
proof -
  from assms(1) obtain b1 b2 ps b3 ts where
    1: "(case q of Some q \<Rightarrow> bind_query c q b | None \<Rightarrow> Inr b) = Inr b1" and
    2: "(case p of Some p \<Rightarrow> bind_pattern c p b1 | None \<Rightarrow> Inr b1) = Inr b2" and
    3: "payload_items pl ''patterns'' = Inr ps"
      "rfold (\<lambda>i b. case i of PatternItem p \<Rightarrow> bind_pattern c p b | _ \<Rightarrow> Inr b) ps b2 = Inr b3" and
    4: "payload_items pl ''triples'' = Inr ts"
      "rfold (\<lambda>i b. case i of TripleItem t \<Rightarrow> bind_triple c t b | _ \<Rightarrow> Inr b) ts b3 = Inr b'"
    by (auto simp: bind_dml_def rbind_Inr_iff)
  have "R b1 b2 (opt_refs (pattern_refs elem_classes) p) (opt_refs (pattern_refs elem_properties) p)"
    using 2 by (auto simp: refl pattern_steps split: option.splits)
  note 5 = trans [OF opt_query_steps [OF 1 assms(2)] this]
  have "R b2 b3 (concat (map (\<lambda>i. case i of PatternItem p \<Rightarrow> pattern_refs elem_classes p | _ \<Rightarrow> []) ps))
      (concat (map (\<lambda>i. case i of PatternItem p \<Rightarrow> pattern_refs elem_properties p | _ \<Rightarrow> []) ps))"
    using 3(2) by (rule rfold_steps [rotated]) (auto simp: refl pattern_steps split: payload_item.splits)
  note 6 = trans [OF 5 this]
  have "R b3 b' (concat (map (\<lambda>_. []) ts)) (concat (map (\<lambda>i. case i of
      TripleItem t \<Rightarrow> (case tp_predicate t of Inl n \<Rightarrow> [n] | Inr _ \<Rightarrow> []) | _ \<Rightarrow> []) ts))"
    using 4(2) by (rule rfold_steps [rotated]) (auto simp: refl triple_steps split: payload_item.splits)
  from trans [OF 6 this] show ?thesis using 3(1) 4(1) by (simp add: item_patterns_def item_predicates_def)
qed

lemma stmt_steps:
  assumes "bind_stmt c s b = Inr b'" "stmt_decls s \<subseteq> D"
  shows "R b b' (stmt_classes s) (stmt_properties s)"
proof (cases s)
  case (DdlStmt op tgt pl)
  with assms ddl_steps show ?thesis by auto
next
  case (DmlStmt op q p pl)
  with assms dml_steps show ?thesis by auto
next
  case (QueryStmt q)
  with assms opt_query_steps [of b q b'] show ?thesis by (cases q) auto
next
  case (UtilStmt op q pl)
  with assms opt_query_steps [of b q b'] show ?thesis by (cases q) auto
qed (use assms in \<open>auto simp: refl\<close>)

lemma program_steps:
  assumes "rfold (bind_stmt c) ss b = Inr b'" "\<And>s. s \<in> set ss \<Longrightarrow> stmt_decls s \<subseteq> D"
  shows "R b b' (concat (map stmt_classes ss)) (concat (map stmt_properties ss))"
  using assms(1) by (rule rfold_steps [rotated]) (rule stmt_steps [OF _ assms(2)])

end

section \<open>Two instances\<close>

text \<open>The references bound between two states, each of them known to the catalogue.\<close>

definition known_refs :: "catalog \<Rightarrow> tuft_binding \<Rightarrow> tuft_binding \<Rightarrow> name_ref list \<Rightarrow> name_ref list \<Rightarrow> bool" where
  "known_refs c b b' cs ps \<longleftrightarrow> (\<exists>ncs nps.
     bi_classes b' = bi_classes b @ ncs \<and> map bn_original ncs = cs
     \<and> list_all (\<lambda>n. class_by_iri c (bn_iri n) \<noteq> None) ncs
     \<and> bi_properties b' = bi_properties b @ nps \<and> map bn_original nps = ps
     \<and> list_all (\<lambda>n. property_by_iri c (bn_iri n) \<noteq> None) nps)"

lemma known_refs_trans:
  assumes "known_refs c b b1 cs ps" "known_refs c b1 b2 cs' ps'"
  shows "known_refs c b b2 (cs @ cs') (ps @ ps')"
proof -
  from assms obtain n m n' m' where
    "bi_classes b1 = bi_classes b @ n" "map bn_original n = cs" "list_all (\<lambda>n. class_by_iri c (bn_iri n) \<noteq> None) n"
    "bi_properties b1 = bi_properties b @ m" "map bn_original m = ps" "list_all (\<lambda>n. property_by_iri c (bn_iri n) \<noteq> None) m"
    "bi_classes b2 = bi_classes b1 @ n'" "map bn_original n' = cs'" "list_all (\<lambda>n. class_by_iri c (bn_iri n) \<noteq> None) n'"
    "bi_properties b2 = bi_properties b1 @ m'" "map bn_original m' = ps'" "list_all (\<lambda>n. property_by_iri c (bn_iri n) \<noteq> None) m'"
    unfolding known_refs_def by blast
  then show ?thesis unfolding known_refs_def by (intro exI [of _ "n @ n'"] exI [of _ "m @ m'"]) simp
qed

interpretation known: binding_trace c UNIV "known_refs c" for c
proof
  show "known_refs c b b [] []" for b by (simp add: known_refs_def)
  show "known_refs c b b' [n] []" if "bind_class c n b = Inr b'" for n b b'
  proof -
    from that obtain iri where "class_by_iri c iri \<noteq> None" "b' = b\<lparr>bi_classes := bi_classes b @ [BoundName n iri]\<rparr>"
      by (auto simp: bind_class_def rbind_Inr_iff split: if_splits)
    then show ?thesis by (auto simp: known_refs_def)
  qed
  show "known_refs c b b' [] [n]" if "bind_property c n b = Inr b'" for n b b'
  proof -
    from that obtain iri where "property_by_iri c iri \<noteq> None" "b' = b\<lparr>bi_properties := bi_properties b @ [BoundName n iri]\<rparr>"
      by (auto simp: bind_property_def rbind_Inr_iff split: if_splits)
    then show ?thesis by (auto simp: known_refs_def)
  qed
  show "known_refs c b (declare_prefix d b) [] []" for d b by (simp add: known_refs_def declare_prefix_def)
qed (rule known_refs_trans)

text \<open>
  Every reference bound so far resolves the same way under the current prefixes, as long as
  all declarations agree with a fixed assignment of prefixes.
\<close>

definition decl_pair :: "prefix_decl \<Rightarrow> string \<times> string" where
  "decl_pair d = (pfx_prefix d, ref_value (pfx_iri d))"

definition settled :: "(string \<times> string) set \<Rightarrow> tuft_binding \<Rightarrow> bool" where
  "settled S b \<longleftrightarrow> (\<forall>k v. map_of (bi_prefixes b) k = Some v \<longrightarrow> (k, v) \<in> S)
     \<and> (\<forall>n \<in> set (bi_classes b @ bi_properties b). resolve_name (bi_prefixes b) (bn_original n) = Inr (bn_iri n))"

definition stays_settled :: "(string \<times> string) set \<Rightarrow> tuft_binding \<Rightarrow> tuft_binding \<Rightarrow> name_ref list \<Rightarrow> name_ref list \<Rightarrow> bool" where
  "stays_settled S b b' cs ps \<longleftrightarrow> (single_valued S \<longrightarrow> settled S b \<longrightarrow> settled S b')"

lemma resolve_name_mono:
  assumes "resolve_name pfx n = Inr iri" "\<And>k v. map_of pfx k = Some v \<Longrightarrow> map_of pfx' k = Some v"
  shows "resolve_name pfx' n = Inr iri"
  using assms(1)
proof (cases n)
  case (QName v)
  with assms(1) show ?thesis
    by (auto simp: assms(2) split: if_splits option.splits prod.splits)
qed (use assms(1) in simp)

interpretation settled: binding_trace c "{d. decl_pair d \<in> S}" "stays_settled S" for c S
proof
  show "stays_settled S b b' [n] []" if "bind_class c n b = Inr b'" for n b b'
    using that by (auto simp: stays_settled_def settled_def bind_class_def rbind_Inr_iff split: if_splits)
  show "stays_settled S b b' [] [n]" if "bind_property c n b = Inr b'" for n b b'
    using that by (auto simp: stays_settled_def settled_def bind_property_def rbind_Inr_iff split: if_splits)
  show "stays_settled S b (declare_prefix d b) [] []" if d: "d \<in> {d. decl_pair d \<in> S}" for d b
  proof -
    have "settled S (declare_prefix d b)" if S: "single_valued S" "settled S b"
    proof -
      let ?pfx = "AList.update (pfx_prefix d) (ref_value (pfx_iri d)) (bi_prefixes b)"
      have mono: "map_of ?pfx k = Some v" if "map_of (bi_prefixes b) k = Some v" for k v
        using that S d by (auto simp: dict_lookup_update settled_def decl_pair_def dest: single_valuedD)
      have "resolve_name ?pfx (bn_original n) = Inr (bn_iri n)" if "n \<in> set (bi_classes b @ bi_properties b)" for n
        by (rule resolve_name_mono [of "bi_prefixes b"]) (use S(2) that mono in \<open>auto simp: settled_def\<close>)
      then show ?thesis using S(2) d
        by (auto simp: settled_def declare_prefix_def dict_lookup_update decl_pair_def)
    qed
    then show ?thesis by (simp add: stays_settled_def)
  qed
qed (simp_all add: stays_settled_def)

end
