(* ===== verification/Typing.thy ===== *)
theory Typing
  imports Binding
begin

text \<open>
  The type checker (\<open>lang/tuft/typer.py\<close>). The checker's two dictionaries are threaded through
  every method. \<open>_expr_types\<close> is keyed by the identity of an expression node; it is
  modelled by the list of nodes with their types, in the order they are recorded.
\<close>

section \<open>Types\<close>

datatype nullability = REQUIRED | NULLABLE | NULL

datatype tuft_type = TuftType
  (tt_kind: type_kind) (tt_nullable: nullability) (tt_params: "tuft_type list") (tt_width: "int option")

abbreviation simple_type :: "type_kind \<Rightarrow> nullability \<Rightarrow> tuft_type" where
  "simple_type k n \<equiv> TuftType k n [] None"

abbreviation unknown_type :: tuft_type where
  "unknown_type \<equiv> simple_type TK_UNKNOWN NULLABLE"

definition with_nullability :: "tuft_type \<Rightarrow> nullability \<Rightarrow> tuft_type" where
  "with_nullability t n = TuftType (tt_kind t) n (tt_params t) (tt_width t)"

definition numeric_kinds :: "type_kind list" where
  "numeric_kinds =
     [TK_INT8, TK_INT16, TK_INT32, TK_INT64, TK_UINT8, TK_UINT16, TK_UINT32, TK_UINT64,
      TK_FLOAT32, TK_FLOAT64, TK_DECIMAL]"

definition nullable_union :: "tuft_type list \<Rightarrow> nullability" where
  "nullable_union ts =
     (if list_ex (\<lambda>t. tt_nullable t = NULL) ts then NULL
      else if list_ex (\<lambda>t. tt_nullable t = NULLABLE) ts then NULLABLE
      else REQUIRED)"

definition promote_numeric :: "tuft_type \<Rightarrow> tuft_type \<Rightarrow> tuft_type" where
  "promote_numeric left right =
     (let ks = [tt_kind left, tt_kind right];
          kind = (if TK_FLOAT64 \<in> set ks then TK_FLOAT64
                  else if TK_FLOAT32 \<in> set ks then TK_FLOAT32
                  else if TK_DECIMAL \<in> set ks then TK_DECIMAL
                  else TK_INT64)
      in simple_type kind (nullable_union [left, right]))"

definition can_compare :: "tuft_type \<Rightarrow> tuft_type \<Rightarrow> bool" where
  "can_compare left right \<longleftrightarrow>
     tt_kind left = TK_UNKNOWN \<or> tt_kind right = TK_UNKNOWN \<or> tt_kind left = tt_kind right
     \<or> tt_kind left \<in> set numeric_kinds \<and> tt_kind right \<in> set numeric_kinds"

definition numeric_rank :: "type_kind \<Rightarrow> int" where
  "numeric_rank k =
     (case map_of
        [(TK_INT8, 1), (TK_UINT8, 1), (TK_INT16, 2), (TK_UINT16, 2), (TK_INT32, 3), (TK_UINT32, 3),
         (TK_INT64, 4), (TK_UINT64, 4), (TK_FLOAT32, 5), (TK_FLOAT64, 6), (TK_DECIMAL, 7)] k of
        Some r \<Rightarrow> r | None \<Rightarrow> 100)"

definition is_numeric_widening :: "type_kind \<Rightarrow> type_kind \<Rightarrow> bool" where
  "is_numeric_widening actual expected \<longleftrightarrow>
     actual \<in> set numeric_kinds \<and> expected \<in> set numeric_kinds \<and> numeric_rank actual \<le> numeric_rank expected"

definition type_names :: "(string, type_kind) dict" where
  "type_names =
     [(''UNKNOWN'', TK_UNKNOWN), (''BOOL'', TK_BOOL), (''INT8'', TK_INT8), (''INT16'',
      TK_INT16), (''INT32'', TK_INT32), (''INT64'', TK_INT64), (''UINT8'', TK_UINT8),
      (''UINT16'', TK_UINT16), (''UINT32'', TK_UINT32), (''UINT64'', TK_UINT64),
      (''FLOAT32'', TK_FLOAT32), (''FLOAT64'', TK_FLOAT64), (''DECIMAL'', TK_DECIMAL),
      (''STRING'', TK_STRING), (''BYTES'', TK_BYTES), (''DATE'', TK_DATE), (''TIME'',
      TK_TIME), (''DATETIME'', TK_DATETIME), (''DURATION'', TK_DURATION), (''IRI'',
      TK_IRI), (''UUID'', TK_UUID), (''NODE'', TK_NODE), (''EDGE'', TK_EDGE), (''TRIPLE'',
      TK_TRIPLE), (''PATH'', TK_PATH), (''SUBGRAPH'', TK_SUBGRAPH), (''CLASS'', TK_CLASS),
      (''PROPERTY'', TK_PROPERTY), (''EMBEDDING'', TK_EMBEDDING), (''ADJACENCY'',
      TK_ADJACENCY), (''LIST'', TK_LIST), (''MAP'', TK_MAP), (''STRUCT'', TK_STRUCT),
      (''UNION'', TK_UNION), (''VECTOR'', TK_VECTOR), (''MATRIX'', TK_MATRIX)]
       @ [(''INT'', TK_INT64), (''F32'', TK_FLOAT32), (''F64'', TK_FLOAT64)]"

fun from_catalog_type :: "type_ref \<Rightarrow> tuft_type" where
  "from_catalog_type (TypeRef k name params ints prec scale nullable) =
     TuftType k (if nullable then NULLABLE else REQUIRED) (map from_catalog_type params) None"

fun from_ast_type :: "ast_type \<Rightarrow> tuft_type" where
  "from_ast_type (AstType (NamedType n) _) =
     simple_type (case map_of type_names (ascii_upper n) of Some k \<Rightarrow> k | None \<Rightarrow> TK_UNKNOWN) NULLABLE"
| "from_ast_type (AstType (RefType _) _) = unknown_type"

fun literal_type :: "literal_kind \<Rightarrow> tuft_type" where
  "literal_type LK_NULL = simple_type TK_UNKNOWN NULL"
| "literal_type LK_BOOL = simple_type TK_BOOL REQUIRED"
| "literal_type LK_INT = simple_type TK_INT64 REQUIRED"
| "literal_type LK_FLOAT = simple_type TK_FLOAT64 REQUIRED"
| "literal_type LK_DECIMAL = simple_type TK_DECIMAL REQUIRED"
| "literal_type LK_STRING = simple_type TK_STRING REQUIRED"
| "literal_type LK_DATE = simple_type TK_DATE REQUIRED"
| "literal_type LK_TIME = simple_type TK_TIME REQUIRED"
| "literal_type LK_DATETIME = simple_type TK_DATETIME REQUIRED"
| "literal_type LK_DURATION = simple_type TK_DURATION REQUIRED"
| "literal_type LK_IRI = simple_type TK_IRI REQUIRED"
| "literal_type LK_TYPED_STRING = simple_type TK_STRING REQUIRED"
| "literal_type LK_LANG_STRING = simple_type TK_STRING REQUIRED"

definition require_numeric :: "tuft_type \<Rightarrow> unit result" where
  "require_numeric t = (if tt_kind t \<notin> set numeric_kinds then raise_code ''TF-4001'' else Inr ())"

definition require_bool :: "tuft_type \<Rightarrow> unit result" where
  "require_bool t = (if tt_kind t \<notin> {TK_BOOL, TK_UNKNOWN} then raise_code ''TF-4001'' else Inr ())"

definition require_assignable :: "tuft_type \<Rightarrow> tuft_type \<Rightarrow> unit result" where
  "require_assignable expected actual =
     (if tt_nullable actual = NULL then
        (if tt_nullable expected = REQUIRED then raise_code ''TF-4010'' else Inr ())
      else if tt_kind expected = tt_kind actual \<or> is_numeric_widening (tt_kind actual) (tt_kind expected)
      then Inr ()
      else raise_code ''TF-4001'')"

section \<open>Classes and fields\<close>

definition fields_by_name :: "catalog \<Rightarrow> string \<Rightarrow> (string, field_def) dict" where
  "fields_by_name c class_iri =
     (case class_by_iri c class_iri of
        None \<Rightarrow> []
      | Some d \<Rightarrow> fold (\<lambda>f. AList.update (fd_name f) f) (cd_fields d) [])"

definition is_required :: "field_def \<Rightarrow> bool" where
  "is_required f \<longleftrightarrow> \<not> tr_nullable (fd_type f) \<or> list_ex (\<lambda>k. co_kind k = CK_REQUIRED) (fd_constraints f)"

fun first_resolved :: "name_ref list \<Rightarrow> (string, string) dict \<Rightarrow> string option" where
  "first_resolved [] pfx = None"
| "first_resolved (Iri v # _) pfx = Some v"
| "first_resolved (QName v # _) pfx =
     (let get = (\<lambda>k. case map_of pfx k of Some p \<Rightarrow> p | None \<Rightarrow> []) in
      if \<not> has_colon v then Some (get [] @ v)
      else let (pre, loc) = split_colon v in Some (get pre @ loc))"

section \<open>Expressions\<close>

record checker =
  tc_expr_types :: "(expr \<times> tuft_type) list"
  tc_var_classes :: "(string, string) dict"

definition record_type :: "expr \<Rightarrow> tuft_type \<Rightarrow> checker \<Rightarrow> (tuft_type \<times> checker) result" where
  "record_type e t s = Inr (t, s\<lparr>tc_expr_types := tc_expr_types s @ [(e, t)]\<rparr>)"

definition path_type :: "catalog \<Rightarrow> ident option \<Rightarrow> ident list \<Rightarrow> checker \<Rightarrow> tuft_type" where
  "path_type c root steps s =
     (case (root, steps) of
        (Some r, st # _) \<Rightarrow>
          (case map_of (tc_var_classes s) (id_name r) of
             None \<Rightarrow> unknown_type
           | Some class_iri \<Rightarrow>
               (case map_of (fields_by_name c class_iri) (id_name st) of
                  None \<Rightarrow> unknown_type
                | Some f \<Rightarrow> from_catalog_type (fd_type f)))
      | _ \<Rightarrow> unknown_type)"

text \<open>The second half of \<open>_binop_type\<close>, once the operands have their types.\<close>

definition operator_type :: "string \<Rightarrow> tuft_type \<Rightarrow> tuft_type \<Rightarrow> tuft_type result" where
  "operator_type op0 left right =
     (let op = ascii_upper op0 in
      if op \<in> {''+'', ''-'', ''*'', ''/'', ''%''} then
        rbind (require_numeric left) (\<lambda>_. rbind (require_numeric right) (\<lambda>_. Inr (promote_numeric left right)))
      else if op \<in> {''AND'', ''OR'', ''XOR''} then
        rbind (require_bool left) (\<lambda>_. rbind (require_bool right) (\<lambda>_.
          Inr (simple_type TK_BOOL (nullable_union [left, right]))))
      else if op \<in> {''='', ''!='', ''<>'', ''<'', ''<='', ''>'', ''>='', ''IN'', ''IS NULL'', ''IS NOT NULL''} then
        (if \<not> can_compare left right then raise_code ''TF-4001''
         else Inr (simple_type TK_BOOL (nullable_union [left, right])))
      else Inr unknown_type)"

definition ascii_lower :: "string \<Rightarrow> string" where
  "ascii_lower s = map (\<lambda>c. if 65 \<le> (of_char c :: nat) \<and> (of_char c :: nat) \<le> 90
                             then char_of (of_char c + 32 :: nat) else c) s"

fun check_expr :: "catalog \<Rightarrow> expr \<Rightarrow> checker \<Rightarrow> (tuft_type \<times> checker) result" where
  "check_expr c (Literal k v dt lang) s = record_type (Literal k v dt lang) (literal_type k) s"
| "check_expr c (Var name) s =
     record_type (Var name)
       (case name of
          Some n \<Rightarrow> if ascii_lower (id_name n) = ''null'' then simple_type TK_UNKNOWN NULL else unknown_type
        | None \<Rightarrow> unknown_type) s"
| "check_expr c (PathExpr root steps) s = record_type (PathExpr root steps) (path_type c root steps s) s"
| "check_expr c (BinOp op left right) s =
     rbind (case left of Some l \<Rightarrow> check_expr c l s | None \<Rightarrow> Inr (unknown_type, s)) (\<lambda>(lt, s1).
     rbind (case right of ExprOperand r \<Rightarrow> check_expr c r s1 | _ \<Rightarrow> Inr (unknown_type, s1)) (\<lambda>(rt, s2).
     rbind (operator_type op lt rt) (\<lambda>t. record_type (BinOp op left right) t s2)))"
| "check_expr c (UnaryOp op operand) s =
     rbind (case operand of Some e \<Rightarrow> check_expr c e s | None \<Rightarrow> Inr (unknown_type, s)) (\<lambda>(inner, s1).
       if ascii_upper op = ''NOT'' then
         rbind (require_bool inner) (\<lambda>_.
           record_type (UnaryOp op operand) (simple_type TK_BOOL (nullable_union [inner])) s1)
       else if op \<in> {''+'', ''-''} then
         rbind (require_numeric inner) (\<lambda>_. record_type (UnaryOp op operand) inner s1)
       else record_type (UnaryOp op operand) unknown_type s1)"
| "check_expr c (Cast e type) s =
     rbind (case e of Some x \<Rightarrow> check_expr c x s | None \<Rightarrow> Inr (unknown_type, s)) (\<lambda>(_, s1).
       record_type (Cast e type) (case type of Some t \<Rightarrow> from_ast_type t | None \<Rightarrow> unknown_type) s1)"
| "check_expr c (ListExpr items) s =
     rbind (rtraverse (check_expr c) items s) (\<lambda>(ts, s1).
       record_type (ListExpr items)
         (TuftType TK_LIST NULLABLE [case ts of t # _ \<Rightarrow> t | [] \<Rightarrow> unknown_type] None) s1)"
| "check_expr c e s = record_type e unknown_type s"

section \<open>Patterns, queries, programs\<close>

text \<open>The loop body of \<open>_check_prop_map\<close>, for the fields of the class.\<close>

definition check_prop_entry ::
  "catalog \<Rightarrow> (string, field_def) dict \<Rightarrow> expr prop_entry \<Rightarrow> checker \<Rightarrow> checker result"
where
  "check_prop_entry c by_name entry s =
     rbind (check_expr c (pe_value entry) s) (\<lambda>(actual, s').
       case map_of by_name (id_name (pe_key entry)) of
         None \<Rightarrow> Inr s'
       | Some f \<Rightarrow>
           rbind (require_assignable (from_catalog_type (fd_type f)) actual) (\<lambda>_.
             if is_required f \<and> tt_nullable actual = NULL then raise_code ''TF-9501'' else Inr s'))"

definition check_prop_map :: "catalog \<Rightarrow> string \<Rightarrow> expr prop_map \<Rightarrow> checker \<Rightarrow> checker result" where
  "check_prop_map c class_iri pm = rfold (check_prop_entry c (fields_by_name c class_iri)) (pm_entries pm)"

definition check_required_props :: "catalog \<Rightarrow> string \<Rightarrow> expr prop_map \<Rightarrow> unit result" where
  "check_required_props c class_iri pm =
     (let provided = map (\<lambda>e. id_name (pe_key e)) (pm_entries pm) in
      if list_ex (\<lambda>(_, f). is_required f \<and> fd_name f \<notin> set provided) (fields_by_name c class_iri)
      then raise_code ''TF-9501'' else Inr ())"

fun check_elem :: "catalog \<Rightarrow> (string, string) dict \<Rightarrow> expr pattern_elem \<Rightarrow> checker \<Rightarrow> checker result" where
  "check_elem c pfx (NodePattern var labels props) s =
     (let class_iri = first_resolved labels pfx;
          s1 = (case (var, class_iri) of
                  (Some v, Some i) \<Rightarrow> s\<lparr>tc_var_classes := AList.update (id_name v) i (tc_var_classes s)\<rparr>
                | _ \<Rightarrow> s)
      in case (class_iri, props) of
           (Some i, Some pm) \<Rightarrow> rbind (check_required_props c i pm) (\<lambda>_. check_prop_map c i pm s1)
         | _ \<Rightarrow> Inr s1)"
| "check_elem c pfx (RelPattern _ _ _ _ (Some pm)) s =
     rfold (\<lambda>e s. rbind (check_expr c (pe_value e) s) (\<lambda>(_, s'). Inr s')) (pm_entries pm) s"
| "check_elem c pfx _ s = Inr s"

definition check_pattern :: "catalog \<Rightarrow> (string, string) dict \<Rightarrow> expr pattern \<Rightarrow> checker \<Rightarrow> checker result" where
  "check_pattern c pfx p = rfold (check_elem c pfx) (pat_elements p)"

definition check_predicate :: "catalog \<Rightarrow> expr \<Rightarrow> checker \<Rightarrow> checker result" where
  "check_predicate c e s = rbind (check_expr c e s) (\<lambda>(t, s'). rbind (require_bool t) (\<lambda>_. Inr s'))"

definition check_projections :: "catalog \<Rightarrow> expr projection list \<Rightarrow> checker \<Rightarrow> checker result" where
  "check_projections c = rfold (\<lambda>p s. rbind (check_expr c (pj_expr p) s) (\<lambda>(_, s'). Inr s'))"

fun check_clause :: "catalog \<Rightarrow> (string, string) dict \<Rightarrow> expr clause \<Rightarrow> checker \<Rightarrow> checker result" where
  "check_clause c pfx (MatchClause ps _ _) s = rfold (check_pattern c pfx) ps s"
| "check_clause c pfx (WhereClause (Some e)) s = check_predicate c e s"
| "check_clause c pfx (WithClause ps w) s =
     rbind (check_projections c ps s) (\<lambda>s'. case w of Some e \<Rightarrow> check_predicate c e s' | None \<Rightarrow> Inr s')"
| "check_clause c pfx (ReturnClause ps _) s = check_projections c ps s"
| "check_clause c pfx _ s = Inr s"

definition check_query :: "catalog \<Rightarrow> (string, string) dict \<Rightarrow> expr query \<Rightarrow> checker \<Rightarrow> checker result" where
  "check_query c pfx q = rfold (check_clause c pfx) (q_clauses q)"

fun check_stmt :: "catalog \<Rightarrow> (string, string) dict \<Rightarrow> stmt \<Rightarrow> checker \<Rightarrow> checker result" where
  "check_stmt c pfx (QueryStmt (Some q)) s = check_query c pfx q s"
| "check_stmt c pfx (DmlStmt _ q p pl) s =
     rbind (case q of Some q \<Rightarrow> check_query c pfx q s | None \<Rightarrow> Inr s) (\<lambda>s1.
     rbind (case p of Some p \<Rightarrow> check_pattern c pfx p s1 | None \<Rightarrow> Inr s1) (\<lambda>s2.
     rbind (payload_items pl ''patterns'') (\<lambda>items.
       rfold (\<lambda>i s. case i of PatternItem p \<Rightarrow> check_pattern c pfx p s | _ \<Rightarrow> Inr s) items s2)))"
| "check_stmt c pfx _ s = Inr s"

record typed_program =
  tp_bound :: bound_program
  tp_expr_types :: "(expr \<times> tuft_type) list"

definition check_types :: "bound_program \<Rightarrow> catalog \<Rightarrow> typed_program result" where
  "check_types b c =
     rbind (rfold (check_stmt c (bp_prefixes b)) (pr_statements (bp_program b))
              \<lparr>tc_expr_types = [], tc_var_classes = []\<rparr>)
       (\<lambda>s. Inr \<lparr>tp_bound = b, tp_expr_types = tc_expr_types s\<rparr>)"

end
