(* ===== verification/Typing_Theorems.thy ===== *)
theory Typing_Theorems
  imports Typing
begin

text \<open>
  Properties of name binding and type checking: which references a bound program has, when
  the two passes agree on them, and what a checked program guarantees about the property
  maps of its node patterns.
\<close>

section \<open>Checking expressions\<close>

text \<open>The state of the checker only grows: types are added, the classes of variables stay.\<close>

definition grows :: "checker \<Rightarrow> checker \<Rightarrow> bool" where
  "grows s s' \<longleftrightarrow> (\<exists>new. tc_expr_types s' = tc_expr_types s @ new)"

lemma grows_refl [simp]: "grows s s"
  by (simp add: grows_def)

lemma grows_trans [trans]: "grows s t \<Longrightarrow> grows t u \<Longrightarrow> grows s u"
  by (auto simp: grows_def)

lemma grows_mem: "grows s s' \<Longrightarrow> x \<in> set (tc_expr_types s) \<Longrightarrow> x \<in> set (tc_expr_types s')"
  by (auto simp: grows_def)

lemma grows_var_classes [simp]: "grows s (s'\<lparr>tc_var_classes := v\<rparr>) = grows s s'"
  by (simp add: grows_def)

lemma record_type_grows:
  "record_type e t s = Inr (t', s') \<Longrightarrow> t' = t \<and> grows s s' \<and> (e, t') \<in> set (tc_expr_types s')"
  by (auto simp: record_type_def grows_def)

lemma rfold_grows:
  "rfold f xs s = Inr s' \<Longrightarrow> (\<And>x u v. x \<in> set xs \<Longrightarrow> f x u = Inr v \<Longrightarrow> grows u v) \<Longrightarrow> grows s s'"
  by (rule rfold_invariant [of f xs s s' "grows s"]) (auto intro: grows_trans)

lemma rtraverse_grows:
  assumes "rtraverse f xs s = Inr (ts, s')" "\<And>x u t v. x \<in> set xs \<Longrightarrow> f x u = Inr (t, v) \<Longrightarrow> grows u v"
  shows "grows s s'"
  using assms
proof (induction xs arbitrary: s ts)
  case (Cons x xs)
  from Cons.prems(1) obtain t u ts' where "f x s = Inr (t, u)" "rtraverse f xs u = Inr (ts', s')"
    by (auto simp: rbind_Inr_iff)
  with Cons.IH [of u ts'] Cons.prems(2) show ?case by (metis grows_trans list.set_intros)
qed simp

lemma check_expr_grows:
  "check_expr c e s = Inr (t, s') \<Longrightarrow> grows s s' \<and> (e, t) \<in> set (tc_expr_types s')"
proof (induction c e s arbitrary: t s' rule: check_expr.induct)
  case (4 c op left right s)
  from 4(3) obtain lt s1 rt s2 u where
    u: "(case left of Some l \<Rightarrow> check_expr c l s | None \<Rightarrow> Inr (unknown_type, s)) = Inr (lt, s1)"
      "(case right of ExprOperand r \<Rightarrow> check_expr c r s1 | _ \<Rightarrow> Inr (unknown_type, s1)) = Inr (rt, s2)"
      "record_type (BinOp op left right) u s2 = Inr (t, s')" by (auto simp: rbind_Inr_iff)
  have "grows s s1" using u(1) 4(1) by (cases left) auto
  also have "grows s1 s2" using u(2) 4(2) [OF u(1)] by (cases right) auto
  finally show ?case using record_type_grows [OF u(3)] grows_trans by blast
next
  case (5 c op operand s)
  from 5(2) obtain inner s1 where
    u: "(case operand of Some e \<Rightarrow> check_expr c e s | None \<Rightarrow> Inr (unknown_type, s)) = Inr (inner, s1)"
    by (auto simp: rbind_Inr_iff)
  then have g: "grows s s1" using 5(1) by (cases operand) auto
  obtain u where "record_type (UnaryOp op operand) u s1 = Inr (t, s')"
    using 5(2) u by (auto simp: rbind_Inr_iff split: if_splits)
  from record_type_grows [OF this] g grows_trans show ?case by blast
next
  case (6 c e type s)
  from 6(2) obtain x s1 where
    u: "(case e of Some x \<Rightarrow> check_expr c x s | None \<Rightarrow> Inr (unknown_type, s)) = Inr (x, s1)"
    by (auto simp: rbind_Inr_iff)
  then have g: "grows s s1" using 6(1) by (cases e) auto
  obtain u where "record_type (Cast e type) u s1 = Inr (t, s')" using 6(2) u by auto
  from record_type_grows [OF this] g grows_trans show ?case by blast
next
  case (7 c items s)
  from 7(2) obtain ts s1 u where u: "rtraverse (check_expr c) items s = Inr (ts, s1)"
    "record_type (ListExpr items) u s1 = Inr (t, s')" by (auto simp: rbind_Inr_iff)
  have "grows s s1" using u(1) by (rule rtraverse_grows) (use 7(1) in blast)
  with record_type_grows [OF u(2)] grows_trans show ?case by blast
qed (auto dest: record_type_grows)

section \<open>Property maps\<close>

text \<open>
  What the checker guarantees of a property map for a class: every required field is given;
  the value of each field has a recorded type; it is not null when the field is required;
  unless it is null, its kind is the field's or a numeric kind of smaller rank.
\<close>

definition map_conforms :: "catalog \<Rightarrow> string \<Rightarrow> expr prop_map \<Rightarrow> (expr \<times> tuft_type) list \<Rightarrow> bool" where
  "map_conforms c class_iri pm types \<longleftrightarrow>
     (\<forall>(name, f) \<in> set (fields_by_name c class_iri). is_required f \<longrightarrow> (\<exists>e \<in> set (pm_entries pm). id_name (pe_key e) = name))
   \<and> (\<forall>e \<in> set (pm_entries pm). \<forall>f. map_of (fields_by_name c class_iri) (id_name (pe_key e)) = Some f \<longrightarrow>
        (\<exists>t. (pe_value e, t) \<in> set types
          \<and> (is_required f \<longrightarrow> tt_nullable t \<noteq> NULL)
          \<and> (tt_nullable t \<noteq> NULL \<longrightarrow> tt_kind t = tr_kind (fd_type f)
               \<or> is_numeric_widening (tt_kind t) (tr_kind (fd_type f)))))"

lemma from_catalog_type_kind [simp]: "tt_kind (from_catalog_type t) = tr_kind t"
  by (cases t) simp

lemma from_catalog_type_nullable [simp]:
  "tt_nullable (from_catalog_type t) = (if tr_nullable t then NULLABLE else REQUIRED)"
  by (cases t) simp

lemma fields_by_name_key: "(name, f) \<in> set (fields_by_name c iri) \<Longrightarrow> fd_name f = name"
proof -
  have "(name, f) \<in> set (fold (\<lambda>f. AList.update (fd_name f) f) fs d) \<Longrightarrow> (\<forall>(n, g) \<in> set d. fd_name g = n)
      \<Longrightarrow> fd_name f = name" for fs d
  proof (induction fs arbitrary: d)
    case (Cons g fs)
    have "\<forall>(n, h) \<in> set (AList.update (fd_name g) g d). fd_name h = n"
      using Cons.prems(2) set_update_subset [of "fd_name g" g d] by auto
    with Cons show ?case by simp
  qed auto
  then show "(name, f) \<in> set (fields_by_name c iri) \<Longrightarrow> fd_name f = name"
    by (auto simp: fields_by_name_def split: option.splits)
qed

lemma check_prop_entry_ok:
  assumes "check_prop_entry c by_name e s = Inr s'"
  shows "grows s s' \<and> (\<forall>f. map_of by_name (id_name (pe_key e)) = Some f \<longrightarrow>
    (\<exists>t. (pe_value e, t) \<in> set (tc_expr_types s') \<and> (is_required f \<longrightarrow> tt_nullable t \<noteq> NULL)
      \<and> (tt_nullable t \<noteq> NULL \<longrightarrow> tt_kind t = tr_kind (fd_type f)
           \<or> is_numeric_widening (tt_kind t) (tr_kind (fd_type f)))))"
proof -
  from assms obtain t u where t: "check_expr c (pe_value e) s = Inr (t, u)" and u: "u = s'"
    by (auto simp: check_prop_entry_def rbind_Inr_iff split: option.splits if_splits)
  have "tt_nullable t \<noteq> NULL" if "map_of by_name (id_name (pe_key e)) = Some f" "is_required f" for f
    using assms t that by (auto simp: check_prop_entry_def rbind_Inr_iff)
  moreover have "tt_kind t = tr_kind (fd_type f) \<or> is_numeric_widening (tt_kind t) (tr_kind (fd_type f))"
    if "map_of by_name (id_name (pe_key e)) = Some f" "tt_nullable t \<noteq> NULL" for f
    using assms t that by (auto simp: check_prop_entry_def rbind_Inr_iff require_assignable_def split: if_splits)
  ultimately show ?thesis using check_expr_grows [OF t] u by blast
qed

lemma rfold_each:
  assumes "rfold f xs s = Inr s'" "x \<in> set xs" "\<And>x u v. f x u = Inr v \<Longrightarrow> grows u v"
  shows "\<exists>u v. f x u = Inr v \<and> grows v s'"
proof -
  from split_list [OF assms(2)] obtain ys zs where "xs = ys @ x # zs" by blast
  with assms(1) obtain u v where "f x u = Inr v" "rfold f zs v = Inr s'"
    by (auto simp: rfold_append rbind_Inr_iff)
  moreover from rfold_grows [OF this(2)] assms(3) have "grows v s'" by blast
  ultimately show ?thesis by blast
qed

lemma check_prop_map_ok:
  assumes "check_required_props c iri pm = Inr ()" "check_prop_map c iri pm s = Inr s'"
  shows "map_conforms c iri pm (tc_expr_types s')"
proof -
  let ?f = "check_prop_entry c (fields_by_name c iri)"
  have "\<exists>e \<in> set (pm_entries pm). id_name (pe_key e) = name"
    if "(name, f) \<in> set (fields_by_name c iri)" "is_required f" for name f
    using assms(1) that fields_by_name_key [OF that(1)]
    by (fastforce simp: check_required_props_def Let_def list_ex_iff split: if_splits)
  moreover have "\<exists>t. (pe_value e, t) \<in> set (tc_expr_types s') \<and> (is_required f \<longrightarrow> tt_nullable t \<noteq> NULL)
      \<and> (tt_nullable t \<noteq> NULL \<longrightarrow> tt_kind t = tr_kind (fd_type f)
           \<or> is_numeric_widening (tt_kind t) (tr_kind (fd_type f)))"
    if e: "e \<in> set (pm_entries pm)" and f: "map_of (fields_by_name c iri) (id_name (pe_key e)) = Some f" for e f
  proof -
    have "rfold ?f (pm_entries pm) s = Inr s'" using assms(2) by (simp add: check_prop_map_def)
    from rfold_each [OF this e] check_prop_entry_ok obtain u v where uv: "?f e u = Inr v" "grows v s'" by blast
    from check_prop_entry_ok [OF uv(1)] f grows_mem [OF uv(2)] show ?thesis by blast
  qed
  ultimately show ?thesis unfolding map_conforms_def by blast
qed

lemma map_conforms_mono:
  "map_conforms c iri pm types \<Longrightarrow> (\<And>x. x \<in> set types \<Longrightarrow> x \<in> set types') \<Longrightarrow> map_conforms c iri pm types'"
  unfolding map_conforms_def by blast

section \<open>Whole programs\<close>

text \<open>The pattern elements the checker visits: those of the patterns, not those inside a path.\<close>

fun clause_elems :: "expr clause \<Rightarrow> expr pattern_elem set" where
  "clause_elems (MatchClause ps _ _) = (\<Union>p \<in> set ps. set (pat_elements p))"
| "clause_elems _ = {}"

definition query_elems :: "expr query \<Rightarrow> expr pattern_elem set" where
  "query_elems q = (\<Union>cl \<in> set (q_clauses q). clause_elems cl)"

definition payload_elems :: "payload \<Rightarrow> expr pattern_elem set" where
  "payload_elems pl = (case payload_items pl ''patterns'' of
     Inr xs \<Rightarrow> (\<Union>i \<in> set xs. case i of PatternItem p \<Rightarrow> set (pat_elements p) | _ \<Rightarrow> {}) | Inl _ \<Rightarrow> {})"

fun stmt_elems :: "stmt \<Rightarrow> expr pattern_elem set" where
  "stmt_elems (QueryStmt (Some q)) = query_elems q"
| "stmt_elems (DmlStmt _ q p pl) =
     (case q of Some q \<Rightarrow> query_elems q | None \<Rightarrow> {}) \<union> (case p of Some p \<Rightarrow> set (pat_elements p) | None \<Rightarrow> {})
       \<union> payload_elems pl"
| "stmt_elems _ = {}"

text \<open>An element was visited in a run that ended in the state.\<close>

definition visited :: "catalog \<Rightarrow> (string, string) dict \<Rightarrow> expr pattern_elem \<Rightarrow> checker \<Rightarrow> bool" where
  "visited c pfx e s' \<longleftrightarrow> (\<exists>u v. check_elem c pfx e u = Inr v \<and> grows v s')"

lemma check_elem_grows: "check_elem c pfx e s = Inr s' \<Longrightarrow> grows s s'"
proof (induction c pfx e s rule: check_elem.induct)
  case (1 c pfx var labels props s)
  let ?s = "case (var, first_resolved labels pfx) of
    (Some v, Some i) \<Rightarrow> s\<lparr>tc_var_classes := AList.update (id_name v) i (tc_var_classes s)\<rparr> | _ \<Rightarrow> s"
  have "grows s ?s" by (auto split: option.splits)
  moreover have "grows ?s s'" using 1
    by (auto simp: Let_def rbind_Inr_iff check_prop_map_def check_prop_entry_ok
        split: option.splits elim!: rfold_grows)
  ultimately show ?case by (rule grows_trans)
next
  case (2 c pfx v ts d h pm s)
  then show ?case by (auto simp: rbind_Inr_iff check_expr_grows elim!: rfold_grows)
qed auto

lemma visited_grows: "visited c pfx e s \<Longrightarrow> grows s s' \<Longrightarrow> visited c pfx e s'"
  by (auto simp: visited_def intro: grows_trans)

text \<open>A loop whose body visits the elements of each item visits those of all items.\<close>

lemma rfold_visits:
  assumes "rfold f xs s = Inr s'" "e \<in> (\<Union>x \<in> set xs. E x)"
    and step: "\<And>x u v. f x u = Inr v \<Longrightarrow> grows u v \<and> (\<forall>e \<in> E x. visited c pfx e v)"
  shows "visited c pfx e s'"
proof -
  from assms(2) obtain x where x: "x \<in> set xs" "e \<in> E x" by blast
  from rfold_each [OF assms(1) x(1)] step obtain u v where "f x u = Inr v" "grows v s'" by blast
  with step x(2) visited_grows show ?thesis by blast
qed

lemma check_pattern_visits:
  assumes "check_pattern c pfx p s = Inr s'"
  shows "grows s s' \<and> (\<forall>e \<in> set (pat_elements p). visited c pfx e s')"
proof -
  have r: "rfold (check_elem c pfx) (pat_elements p) s = Inr s'" using assms by (simp add: check_pattern_def)
  have "grows s s'" using r by (rule rfold_grows) (rule check_elem_grows)
  moreover have "visited c pfx e s'" if "e \<in> set (pat_elements p)" for e
    unfolding visited_def by (rule rfold_each [OF r that check_elem_grows])
  ultimately show ?thesis by blast
qed

lemma check_predicate_grows: "check_predicate c e s = Inr s' \<Longrightarrow> grows s s'"
  by (auto simp: check_predicate_def rbind_Inr_iff dest: check_expr_grows)

lemma check_projections_grows: "check_projections c ps s = Inr s' \<Longrightarrow> grows s s'"
  unfolding check_projections_def by (erule rfold_grows) (auto simp: rbind_Inr_iff dest: check_expr_grows)

lemma check_clause_visits:
  assumes "check_clause c pfx cl s = Inr s'"
  shows "grows s s' \<and> (\<forall>e \<in> clause_elems cl. visited c pfx e s')"
proof (cases cl)
  case (MatchClause ps opt as_of)
  with assms have "rfold (check_pattern c pfx) ps s = Inr s'" by simp
  with MatchClause show ?thesis
    by (auto intro: rfold_grows check_pattern_visits [THEN conjunct1]
        intro!: rfold_visits [of "check_pattern c pfx" ps s s' _ "\<lambda>p. set (pat_elements p)"]
        dest: check_pattern_visits)
next
  case (WhereClause e)
  with assms show ?thesis by (cases e) (auto dest: check_predicate_grows)
next
  case (WithClause ps w)
  with assms show ?thesis
    by (cases w) (auto simp: rbind_Inr_iff dest: check_projections_grows check_predicate_grows intro: grows_trans)
next
  case (ReturnClause ps d)
  with assms show ?thesis by (auto dest: check_projections_grows)
qed (use assms in auto)

lemma check_query_visits:
  "check_query c pfx q s = Inr s' \<Longrightarrow> grows s s' \<and> (\<forall>e \<in> query_elems q. visited c pfx e s')"
  unfolding check_query_def query_elems_def
  by (auto intro: rfold_grows check_clause_visits [THEN conjunct1]
      intro!: rfold_visits [of "check_clause c pfx" "q_clauses q" s s' _ clause_elems]
      dest: check_clause_visits)

lemma check_stmt_visits:
  assumes "check_stmt c pfx st s = Inr s'"
  shows "grows s s' \<and> (\<forall>e \<in> stmt_elems st. visited c pfx e s')"
proof (cases st)
  case (QueryStmt q)
  with assms check_query_visits show ?thesis by (cases q) auto
next
  case (DmlStmt op q p pl)
  let ?item = "\<lambda>i s. case i of PatternItem p \<Rightarrow> check_pattern c pfx p s | _ \<Rightarrow> Inr s"
  let ?E = "\<lambda>i. case i of PatternItem p \<Rightarrow> set (pat_elements p) | _ \<Rightarrow> {}"
  from assms DmlStmt obtain s1 s2 items where
    u: "(case q of Some q \<Rightarrow> check_query c pfx q s | None \<Rightarrow> Inr s) = Inr s1"
      "(case p of Some p \<Rightarrow> check_pattern c pfx p s1 | None \<Rightarrow> Inr s1) = Inr s2"
      "payload_items pl ''patterns'' = Inr items" "rfold ?item items s2 = Inr s'"
    by (auto simp: rbind_Inr_iff)
  have item: "grows u v \<and> (\<forall>e \<in> ?E i. visited c pfx e v)" if "?item i u = Inr v" for i u v
    using that check_pattern_visits by (auto split: payload_item.splits)
  have 1: "grows s s1 \<and> (\<forall>e \<in> (case q of Some q \<Rightarrow> query_elems q | None \<Rightarrow> {}). visited c pfx e s1)"
    using u(1) check_query_visits by (auto split: option.splits)
  have 2: "grows s1 s2 \<and> (\<forall>e \<in> (case p of Some p \<Rightarrow> set (pat_elements p) | None \<Rightarrow> {}). visited c pfx e s2)"
    using u(2) check_pattern_visits by (auto split: option.splits)
  have 3: "grows s2 s'" using u(4) item by (auto intro: rfold_grows)
  have "visited c pfx e s'" if "e \<in> payload_elems pl" for e
    using that u(3) by (intro rfold_visits [OF u(4) _ item]) (simp_all add: payload_elems_def)
  moreover have "grows s1 s'" using 2 3 grows_trans by blast
  moreover from this have "grows s s'" using 1 grows_trans by blast
  ultimately show ?thesis
    using 1 2 3 visited_grows [of c pfx _ s1 s'] visited_grows [of c pfx _ s2 s'] unfolding DmlStmt stmt_elems.simps by auto
qed (use assms in auto)

lemma visited_conforms:
  assumes "visited c pfx (NodePattern var labels (Some pm)) s'" "first_resolved labels pfx = Some iri"
  shows "map_conforms c iri pm (tc_expr_types s')"
proof -
  from assms obtain u v where g: "grows v s'" and "check_required_props c iri pm = Inr ()"
    "check_prop_map c iri pm u = Inr v" by (auto simp: visited_def Let_def rbind_Inr_iff)
  then have "map_conforms c iri pm (tc_expr_types v)" by (intro check_prop_map_ok)
  then show ?thesis by (rule map_conforms_mono) (rule grows_mem [OF g])
qed

section \<open>An example\<close>

lemma not_isl_Inr: "\<not> isl r \<longleftrightarrow> (\<exists>x. r = Inr x)"
  by (cases r) auto

definition name_field :: field_def where
  "name_field = \<lparr>fd_name = ''name'', fd_type = TypeRef TK_STRING None [] [] 0 0 False,
     fd_constraints = [], fd_default_expr = None, fd_doc = None\<rparr>"

definition example_catalog :: catalog where
  "example_catalog = (catalog_empty ''t'' None)\<lparr>c_classes :=
     [\<lparr>cd_cid = 1, cd_iri = ''a/P'', cd_local_name = Some ''P'', cd_superclass_iris = [],
       cd_fields = [name_field], cd_doc = None\<rparr>]\<rparr>"

text \<open>\<open>INSERT (n:ex:P {name: 'x'})\<close>, and the same without the required property.\<close>

definition insert_node :: "expr prop_entry list \<Rightarrow> stmt" where
  "insert_node entries = DmlStmt ''insert_pattern'' None
     (Some (Pattern [NodePattern (Some (Ident ''n'' False)) [QName ''ex:P''] (Some (PropMap entries))] None)) []"

definition declare_ex :: "string \<Rightarrow> stmt" where
  "declare_ex iri = DdlStmt ''prefix'' NoTarget [(''decl'', OneItem (DeclItem (PrefixDecl ''ex'' (Iri iri))))]"

definition name_entry :: "expr prop_entry" where
  "name_entry = PropEntry (Ident ''name'' False) (Literal LK_STRING (ValStr ''x'') None None)"

lemmas example_defs = example_catalog_def catalog_empty_def name_field_def insert_node_def declare_ex_def name_entry_def

section \<open>Properties\<close>



text \<open>
  The type checker resolves names as binding did, provided that no prefix is declared
  with two different IRIs. The type checker looks names up in the prefixes at the end of the
  program, while binding used those at the place of the reference.
\<close>

theorem checker_agrees_with_binding:
  assumes "bind_program p c pfx = Inr bp"
    and "single_valued (set pfx \<union> (\<Union>s \<in> set (pr_statements p). decl_pair ` stmt_decls s))"
    and "n \<in> set (bp_classes bp)"
  shows "first_resolved [bn_original n] (bp_prefixes bp) = Some (bn_iri n)"
proof -
  let ?S = "set pfx \<union> (\<Union>s \<in> set (pr_statements p). decl_pair ` stmt_decls s)"
  let ?b = "\<lparr>bi_prefixes = pfx, bi_classes = [], bi_properties = []\<rparr>"
  from assms(1) obtain b' where
    b: "rfold (bind_stmt c) (pr_statements p) ?b = Inr b'"
      "bp_prefixes bp = bi_prefixes b'" "bp_classes bp = bi_classes b'"
    by (auto simp: bind_program_def bind_def rbind_Inr_iff)
  have "stays_settled ?S ?b b' (concat (map stmt_classes (pr_statements p))) (concat (map stmt_properties (pr_statements p)))"
    by (rule settled.program_steps [OF b(1)]) auto
  moreover have "settled ?S ?b" by (auto simp: settled_def dest: map_of_SomeD)
  ultimately have "settled ?S b'" using assms(2) by (simp add: stays_settled_def)
  then have "resolve_name (bp_prefixes bp) (bn_original n) = Inr (bn_iri n)"
    using assms(3) b(2,3) by (simp add: settled_def)
  then show ?thesis by (cases "bn_original n") (auto simp: Let_def split: if_splits option.splits prod.splits)
qed

theorem checker_agrees_with_binding_witness:
  "\<exists>bp n. bind_program (Program [declare_ex ''a/'', insert_node [name_entry]]) example_catalog [] = Inr bp
    \<and> n \<in> set (bp_classes bp) \<and> first_resolved [bn_original n] (bp_prefixes bp) = Some (bn_iri n)"
proof -
  let ?p = "Program [declare_ex ''a/'', insert_node [name_entry]]"
  have "case bind_program ?p example_catalog [] of Inl _ \<Rightarrow> False | Inr bp \<Rightarrow> bp_classes bp = [BoundName (QName ''ex:P'') ''a/P'']"
    by code_simp
  then obtain bp n where "bind_program ?p example_catalog [] = Inr bp" "n \<in> set (bp_classes bp)"
    by (cases "bind_program ?p example_catalog []") auto
  moreover have "single_valued (set [] \<union> (\<Union>s \<in> set (pr_statements ?p). decl_pair ` stmt_decls s))"
    by (simp add: declare_ex_def insert_node_def single_valued_def decl_pair_def)
  ultimately show ?thesis using checker_agrees_with_binding by blast
qed



text \<open>
  Without the proviso on prefixes a required property can be missing unnoticed. The
  insertion below is rejected on its own; followed by another declaration of its prefix, it
  binds to the same class and passes the type checker.
\<close>

theorem redeclared_prefix_unchecked:
  "(\<exists>bp. bind_program (Program [declare_ex ''a/'', insert_node []]) example_catalog [] = Inr bp
      \<and> check_types bp example_catalog = raise_code ''TF-9501'')
   \<and> (\<exists>bp tp. bind_program (Program [declare_ex ''a/'', insert_node [], declare_ex ''b/'']) example_catalog [] = Inr bp
      \<and> map bn_iri (bp_classes bp) = [''a/P''] \<and> check_types bp example_catalog = Inr tp)"
proof
  let ?p = "Program [declare_ex ''a/'', insert_node []]"
  have "case bind_program ?p example_catalog [] of Inl _ \<Rightarrow> False
      | Inr bp \<Rightarrow> check_types bp example_catalog = raise_code ''TF-9501''" by code_simp
  then show "\<exists>bp. bind_program ?p example_catalog [] = Inr bp \<and> check_types bp example_catalog = raise_code ''TF-9501''"
    by (auto split: sum.splits)
next
  let ?p = "Program [declare_ex ''a/'', insert_node [], declare_ex ''b/'']"
  have "case bind_program ?p example_catalog [] of Inl _ \<Rightarrow> False
      | Inr bp \<Rightarrow> map bn_iri (bp_classes bp) = [''a/P''] \<and> \<not> isl (check_types bp example_catalog)" by code_simp
  then show "\<exists>bp tp. bind_program ?p example_catalog [] = Inr bp
      \<and> map bn_iri (bp_classes bp) = [''a/P''] \<and> check_types bp example_catalog = Inr tp"
    by (auto simp: not_isl_Inr split: sum.splits)
qed

text \<open>
  A membership test in a list is rejected: the checker compares the type of the left
  operand with the type of the list, not with that of its items.
\<close>

theorem membership_test_rejected:
  "check_expr c (BinOp ''IN'' (Some (Literal LK_INT (ValInt n) None None))
      (ExprOperand (ListExpr [Literal LK_INT (ValInt m) None None]))) s = raise_code ''TF-4001''"
proof -
  have u: "ascii_upper ''IN'' = ''IN''" by code_simp
  show ?thesis
    by (simp add: record_type_def operator_type_def u Let_def can_compare_def numeric_kinds_def)
qed

text \<open>
  Numeric promotion gives a type that both operands widen to, except when a decimal
  meets a float: the widening order places decimals above floats, promotion picks the float.
\<close>

theorem promotion_is_upper_bound:
  assumes "tt_kind l \<in> set numeric_kinds" "tt_kind r \<in> set numeric_kinds"
  shows "is_numeric_widening (tt_kind l) (tt_kind (promote_numeric l r))
      \<and> is_numeric_widening (tt_kind r) (tt_kind (promote_numeric l r))
    \<longleftrightarrow> \<not> (TK_DECIMAL \<in> {tt_kind l, tt_kind r} \<and> {tt_kind l, tt_kind r} \<inter> {TK_FLOAT32, TK_FLOAT64} \<noteq> {})"
proof -
  let ?promoted = "\<lambda>x y. if TK_FLOAT64 \<in> {x, y} then TK_FLOAT64 else if TK_FLOAT32 \<in> {x, y} then TK_FLOAT32
      else if TK_DECIMAL \<in> {x, y} then TK_DECIMAL else TK_INT64"
  have all: "\<forall>x \<in> set numeric_kinds. \<forall>y \<in> set numeric_kinds.
      (is_numeric_widening x (?promoted x y) \<and> is_numeric_widening y (?promoted x y))
      = (\<not> (TK_DECIMAL \<in> {x, y} \<and> {x, y} \<inter> {TK_FLOAT32, TK_FLOAT64} \<noteq> {}))"
    by code_simp
  have kind: "tt_kind (promote_numeric l r) = ?promoted (tt_kind l) (tt_kind r)"
    by (simp add: promote_numeric_def Let_def)
  show ?thesis unfolding kind by (rule bspec [OF bspec [OF all assms(1)] assms(2)])
qed

theorem promotion_is_upper_bound_witness:
  "is_numeric_widening TK_UINT8 (tt_kind (promote_numeric (simple_type TK_UINT8 REQUIRED) (simple_type TK_FLOAT32 NULL)))
   \<and> \<not> is_numeric_widening TK_DECIMAL (tt_kind (promote_numeric (simple_type TK_DECIMAL REQUIRED) (simple_type TK_FLOAT32 NULL)))"
proof -
  have n: "TK_UINT8 \<in> set numeric_kinds" "TK_FLOAT32 \<in> set numeric_kinds" "TK_DECIMAL \<in> set numeric_kinds"
    by (simp_all add: numeric_kinds_def)
  have "is_numeric_widening TK_FLOAT32 (tt_kind (promote_numeric (simple_type TK_DECIMAL REQUIRED) (simple_type TK_FLOAT32 NULL)))"
    by code_simp
  then show ?thesis
    using promotion_is_upper_bound [of "simple_type TK_UINT8 REQUIRED" "simple_type TK_FLOAT32 NULL"]
      promotion_is_upper_bound [of "simple_type TK_DECIMAL REQUIRED" "simple_type TK_FLOAT32 NULL"] n by simp
qed


end
