(* ===== verification/Logical_Plan.thy ===== *)
theory Logical_Plan
  imports Tuft_Ast
begin

text \<open>
  Logical plans (\<open>plan/logical.py\<close> and the two operators of \<open>plan/pattern_compiler.py\<close>), the
  rule-based rewriting (\<open>plan/rules.py\<close>), the lowering of patterns (\<open>plan/pattern_compiler.py\<close>)
  and the splitting of queries at their \<open>WITH\<close> clauses (\<open>plan/with_pipeline.py\<close>).
\<close>

section \<open>Plans\<close>

text \<open>
  Predicates and projections are opaque Python objects. The rules look only at tuples and
  strings among them, the expression compiler also at lists and callables, the query compiler
  puts the values of literals into them; every other object is a \<open>PyObj\<close> with some identity.
\<close>

datatype py_obj =
    PyStr string | PyTuple "py_obj list" | PyList "py_obj list" | PyFn int
  | PyNone | PyBool bool | PyInt int | PyFloat string | PyObj int

datatype join_kind = InnerJoin | LeftJoin

datatype logical_op =
    LNodeScan (scan_class_iri: string) (scan_local_name: string) (scan_alias: string) (scan_columns: "string list option")
  | LSelection logical_op py_obj
  | LProject logical_op "(py_obj \<times> string) list"
  | LAggregate logical_op "py_obj list" "(string \<times> py_obj \<times> string) list"
  | LOrderBy logical_op "(py_obj \<times> bool) list"
  | LLimit logical_op int int
  | LExpand logical_op string direction string string "string option" int int
  | LJoin logical_op logical_op string string join_kind "string option" "string option"

fun children :: "logical_op \<Rightarrow> logical_op list" where
  "children (LNodeScan _ _ _ _) = []"
| "children (LSelection c _) = [c]"
| "children (LProject c _) = [c]"
| "children (LAggregate c _ _) = [c]"
| "children (LOrderBy c _) = [c]"
| "children (LLimit c _ _) = [c]"
| "children (LExpand c _ _ _ _ _ _ _) = [c]"
| "children (LJoin l r _ _ _ _ _) = [l, r]"

lemma children_smaller [termination_simp]: "c \<in> set (children p) \<Longrightarrow> size c < size p"
  by (cases p) auto

fun walk_plan :: "logical_op \<Rightarrow> logical_op list" where
  "walk_plan p = p # concat (map walk_plan (children p))"

section \<open>Rewriting\<close>

fun columns_used :: "py_obj \<Rightarrow> string set" where
  "columns_used (PyTuple (PyStr h # rest)) =
     (case rest of
        PyStr n # _ \<Rightarrow> if h = ''col'' then {n} else \<Union> (set (map columns_used rest))
      | _ \<Rightarrow> \<Union> (set (map columns_used rest)))"
| "columns_used (PyTuple items) = \<Union> (set (map columns_used items))"
| "columns_used _ = {}"

text \<open>\<open>_recurse\<close>, given the rewritten children: plans of the last two kinds are not rebuilt.\<close>

definition rebuild :: "logical_op \<Rightarrow> logical_op list \<Rightarrow> logical_op" where
  "rebuild p new_children =
     (if children p = [] \<or> new_children = children p then p
      else case p of
        LSelection _ pr \<Rightarrow> LSelection (hd new_children) pr
      | LProject _ projs \<Rightarrow> LProject (hd new_children) projs
      | LAggregate _ g a \<Rightarrow> LAggregate (hd new_children) g a
      | LOrderBy _ k \<Rightarrow> LOrderBy (hd new_children) k
      | LLimit _ lim off \<Rightarrow> LLimit (hd new_children) lim off
      | _ \<Rightarrow> p)"

fun predicate_pushdown :: "logical_op \<Rightarrow> logical_op" where
  "predicate_pushdown p =
     (case p of
        LSelection (LNodeScan ci ln al cols) pr \<Rightarrow>
          (case cols of
             None \<Rightarrow> p
           | Some cs \<Rightarrow>
               let keep = sorted_list_of_set (set cs \<union> columns_used pr) in
               if keep = cs then p else LSelection (LNodeScan ci ln al (Some keep)) pr)
      | _ \<Rightarrow> rebuild p (map predicate_pushdown (children p)))"

declare predicate_pushdown.simps [simp del]

text \<open>\<open>tuple(sorted(wanted)) or scan.columns\<close>.\<close>

definition narrow :: "string set \<Rightarrow> string list option \<Rightarrow> string list option" where
  "narrow wanted cols = (if sorted_list_of_set wanted = [] then cols else Some (sorted_list_of_set wanted))"

fun projection_pruning :: "logical_op \<Rightarrow> logical_op" where
  "projection_pruning p =
     (case p of
        LProject (LNodeScan ci ln al cols) projs \<Rightarrow>
          LProject (LNodeScan ci ln al (narrow (columns_used (PyTuple (map fst projs))) cols)) projs
      | LProject (LSelection (LNodeScan ci ln al cols) pr) projs \<Rightarrow>
          LProject (LSelection (LNodeScan ci ln al
            (narrow (columns_used (PyTuple (map fst projs)) \<union> columns_used pr) cols)) pr) projs
      | _ \<Rightarrow> rebuild p (map projection_pruning (children p)))"

declare projection_pruning.simps [simp del]

record rewrite_result =
  rr_plan :: logical_op
  rr_iterations :: int
  rr_applied :: "string list"

text \<open>One pass over the rules, and the loop of \<open>run_rules\<close> with its counter.\<close>

fun apply_rules :: "(string \<times> (logical_op \<Rightarrow> logical_op)) list \<Rightarrow> logical_op \<Rightarrow> string list \<Rightarrow> bool
    \<Rightarrow> logical_op \<times> string list \<times> bool" where
  "apply_rules [] cur app changed = (cur, app, changed)"
| "apply_rules ((name, rule) # rules) cur app changed =
     (let new = rule cur in
      if new \<noteq> cur then apply_rules rules new (app @ [name]) True
      else apply_rules rules cur app changed)"

fun rules_loop :: "(string \<times> (logical_op \<Rightarrow> logical_op)) list \<Rightarrow> nat \<Rightarrow> int \<Rightarrow> logical_op \<Rightarrow> string list \<Rightarrow> rewrite_result" where
  "rules_loop rules 0 i cur app = \<lparr>rr_plan = cur, rr_iterations = i, rr_applied = app\<rparr>"
| "rules_loop rules (Suc n) i cur app =
     (case apply_rules rules cur app False of
        (cur', app', changed) \<Rightarrow>
          if \<not> changed then \<lparr>rr_plan = cur', rr_iterations = i + 1, rr_applied = app'\<rparr>
          else rules_loop rules n (i + 1) cur' app')"

definition default_rules :: "(string \<times> (logical_op \<Rightarrow> logical_op)) list" where
  "default_rules = [(''predicate_pushdown'', predicate_pushdown), (''projection_pruning'', projection_pruning)]"

text \<open>\<open>range(max_iterations)\<close> is empty for a bound that is not positive, which is then returned.\<close>

definition run_rules :: "logical_op \<Rightarrow> (string \<times> (logical_op \<Rightarrow> logical_op)) list option \<Rightarrow> int \<Rightarrow> rewrite_result" where
  "run_rules plan rules max_iterations =
     (let rs = (case rules of Some r \<Rightarrow> r | None \<Rightarrow> default_rules) in
      if max_iterations \<le> 0 then \<lparr>rr_plan = plan, rr_iterations = max_iterations, rr_applied = []\<rparr>
      else rules_loop rs (nat max_iterations) 0 plan [])"

section \<open>Lowering patterns\<close>

definition resolve_label :: "name_ref list \<Rightarrow> string result" where
  "resolve_label labels = (case labels of [] \<Rightarrow> raise_code ''CDB-6050'' | l # _ \<Rightarrow> Inr (ref_value l))"

text \<open>\<open>x or y\<close> on an optional hop count: zero counts as missing.\<close>

definition hops_or :: "int option \<Rightarrow> int \<Rightarrow> int" where
  "hops_or h d = (case h of Some n \<Rightarrow> if n = 0 then d else n | None \<Rightarrow> d)"

text \<open>The pending relationship of the loop: its variable, types, direction and hop range.\<close>

type_synonym pending_rel = "(ident option \<times> name_ref list \<times> direction \<times> hop_range) option"

fun compile_rest ::
  "nat \<Rightarrow> 'e pattern_elem list \<Rightarrow> logical_op \<Rightarrow> string \<Rightarrow> pending_rel \<Rightarrow> logical_op result"
where
  "compile_rest n [] plan cursor rel = Inr plan"
| "compile_rest n (RelPattern var types dir hops _ # rest) plan cursor rel =
     compile_rest n rest plan cursor (Some (var, types, dir, hops))"
| "compile_rest n (PathPattern _ _ # rest) plan cursor rel = raise_code ''CDB-6050''"
| "compile_rest n (NodePattern var labels _ # rest) plan cursor rel =
     (case rel of
        None \<Rightarrow> raise_code ''CDB-6050''
      | Some (rvar, types, dir, hops) \<Rightarrow>
          let next_alias = (case var of Some v \<Rightarrow> id_name v | None \<Rightarrow> ''n'' @ decimal n) in
          rbind (resolve_label types) (\<lambda>property_iri.
            let hop_min = hops_or (min_hops hops) 1;
                hop_max = hops_or (max_hops hops) hop_min;
                expansion = LExpand plan property_iri dir (cursor @ ''.nid'') (next_alias @ ''.nid'')
                              (map_option id_name rvar) hop_min hop_max
            in
            rbind (resolve_label labels) (\<lambda>class_iri.
              compile_rest n rest
                (LJoin expansion (LNodeScan class_iri (local_name_of class_iri) next_alias None)
                   (next_alias @ ''.nid'') ''nid'' InnerJoin None (Some next_alias))
                next_alias None)))"

definition compile_pattern :: "'e pattern \<Rightarrow> logical_op result" where
  "compile_pattern p =
     (case pat_elements p of
        [] \<Rightarrow> raise_code ''CDB-6050''
      | NodePattern var labels _ # rest \<Rightarrow>
          let head_alias = (case var of Some v \<Rightarrow> id_name v | None \<Rightarrow> ''n0'') in
          rbind (resolve_label labels) (\<lambda>class_iri.
            compile_rest (length (pat_elements p)) rest
              (LNodeScan class_iri (local_name_of class_iri) head_alias None) head_alias None)
      | _ # _ \<Rightarrow> raise_code ''CDB-6050'')"

section \<open>Splitting at \<open>WITH\<close>\<close>

datatype 'e with_boundary = WithBoundary (wb_projections: "'e projection list") (wb_where: "'e option")

datatype 'e pipeline_segment = PipelineSegment (ps_clauses: "'e clause list") (ps_boundary: "'e with_boundary option")

fun split_loop :: "'e clause list \<Rightarrow> 'e clause list \<Rightarrow> 'e pipeline_segment list" where
  "split_loop buf [] = [PipelineSegment buf None]"
| "split_loop buf (cl # cls) =
     (case cl of
        WithClause ps w \<Rightarrow> PipelineSegment buf (Some (WithBoundary ps w)) # split_loop [] cls
      | _ \<Rightarrow> split_loop (buf @ [cl]) cls)"

definition split_pipelines :: "'e query \<Rightarrow> 'e pipeline_segment list result" where
  "split_pipelines q =
     (if q_clauses q = [] then raise_code ''CDB-6051'' else Inr (split_loop [] (q_clauses q)))"

definition collect_aliases :: "expr with_boundary \<Rightarrow> string list" where
  "collect_aliases b =
     concat (map (\<lambda>p.
       case pj_alias p of
         Some a \<Rightarrow> [id_name a]
       | None \<Rightarrow>
           (case pj_expr p of
              PathExpr _ (s # ss) \<Rightarrow> [id_name (last (s # ss))]
            | Var (Some n) \<Rightarrow> [id_name n]
            | _ \<Rightarrow> [])) (wb_projections b))"

end
