(* ===== verification/Plan_Theorems.thy ===== *)
theory Plan_Theorems
  imports Logical_Plan
begin

text \<open>
  Correctness of planning: the rewriting reaches a fixpoint within two passes and changes
  nothing but the columns of scans, never dropping one that is read; the lowering of a pattern
  scans its labels and follows its relationships in order; splitting a query loses no clause.
\<close>

section \<open>The rules, case by case\<close>

lemma finite_columns_used [simp]: "finite (columns_used e)"
proof (induction e rule: columns_used.induct)
  case (1 h rest)
  have "finite (\<Union> (set (map columns_used rest)))" if "\<And>x. x \<in> set rest \<Longrightarrow> finite (columns_used x)"
    using that by auto
  with 1 show ?case by (cases rest) (auto split: py_obj.splits)
qed auto

lemma rebuild_simps [simp]:
  "rebuild (LNodeScan ci ln al cols) ds = LNodeScan ci ln al cols"
  "rebuild (LSelection c pr) [d] = LSelection d pr"
  "rebuild (LProject c projs) [d] = LProject d projs"
  "rebuild (LAggregate c g a) [d] = LAggregate d g a"
  "rebuild (LOrderBy c ks) [d] = LOrderBy d ks"
  "rebuild (LLimit c lim off) [d] = LLimit d lim off"
  "rebuild (LExpand c iri dir s t e lo hi) ds = LExpand c iri dir s t e lo hi"
  "rebuild (LJoin l r lk rk k lp rp) ds = LJoin l r lk rk k lp rp"
  by (simp_all add: rebuild_def)

fun is_scan :: "logical_op \<Rightarrow> bool" where
  "is_scan (LNodeScan _ _ _ _) = True"
| "is_scan _ = False"

fun selects_scan :: "logical_op \<Rightarrow> bool" where
  "selects_scan (LSelection (LNodeScan _ _ _ _) _) = True"
| "selects_scan _ = False"

text \<open>What pushing a predicate down does to the columns of a scan.\<close>

definition widen :: "string set \<Rightarrow> string list option \<Rightarrow> string list option" where
  "widen used cols = map_option (\<lambda>cs. sorted_list_of_set (set cs \<union> used)) cols"

lemma pushdown_simps [simp]:
  "predicate_pushdown (LNodeScan ci ln al cols) = LNodeScan ci ln al cols"
  "predicate_pushdown (LSelection (LNodeScan ci ln al cols) pr) =
     LSelection (LNodeScan ci ln al (widen (columns_used pr) cols)) pr"
  "\<not> is_scan c \<Longrightarrow> predicate_pushdown (LSelection c pr) = LSelection (predicate_pushdown c) pr"
  "predicate_pushdown (LProject c projs) = LProject (predicate_pushdown c) projs"
  "predicate_pushdown (LAggregate c g a) = LAggregate (predicate_pushdown c) g a"
  "predicate_pushdown (LOrderBy c ks) = LOrderBy (predicate_pushdown c) ks"
  "predicate_pushdown (LLimit c lim off) = LLimit (predicate_pushdown c) lim off"
  "predicate_pushdown (LExpand c iri dir s t e lo hi) = LExpand c iri dir s t e lo hi"
  "predicate_pushdown (LJoin l r lk rk k lp rp) = LJoin l r lk rk k lp rp"
          apply (subst predicate_pushdown.simps, simp)
         apply (subst predicate_pushdown.simps, simp add: Let_def widen_def split: option.splits)
        apply (subst predicate_pushdown.simps, cases c; simp)
       apply (subst predicate_pushdown.simps, simp)
      apply (subst predicate_pushdown.simps, simp)
     apply (subst predicate_pushdown.simps, simp)
    apply (subst predicate_pushdown.simps, simp)
   apply (subst predicate_pushdown.simps, simp)
  apply (subst predicate_pushdown.simps, simp)
  done

lemma pruning_simps [simp]:
  "projection_pruning (LNodeScan ci ln al cols) = LNodeScan ci ln al cols"
  "projection_pruning (LProject (LNodeScan ci ln al cols) projs) =
     LProject (LNodeScan ci ln al (narrow (columns_used (PyTuple (map fst projs))) cols)) projs"
  "projection_pruning (LProject (LSelection (LNodeScan ci ln al cols) pr) projs) =
     LProject (LSelection (LNodeScan ci ln al (narrow (columns_used (PyTuple (map fst projs)) \<union> columns_used pr) cols)) pr) projs"
  "\<not> is_scan c \<Longrightarrow> \<not> selects_scan c \<Longrightarrow> projection_pruning (LProject c projs) = LProject (projection_pruning c) projs"
  "projection_pruning (LSelection c pr) = LSelection (projection_pruning c) pr"
  "projection_pruning (LAggregate c g a) = LAggregate (projection_pruning c) g a"
  "projection_pruning (LOrderBy c ks) = LOrderBy (projection_pruning c) ks"
  "projection_pruning (LLimit c lim off) = LLimit (projection_pruning c) lim off"
  "projection_pruning (LExpand c iri dir s t e lo hi) = LExpand c iri dir s t e lo hi"
  "projection_pruning (LJoin l r lk rk k lp rp) = LJoin l r lk rk k lp rp"
           apply (subst projection_pruning.simps, simp)
          apply (subst projection_pruning.simps, simp)
         apply (subst projection_pruning.simps, simp)
  subgoal by (subst projection_pruning.simps, cases c rule: selects_scan.cases; simp)
       apply (subst projection_pruning.simps, simp)
      apply (subst projection_pruning.simps, simp)
     apply (subst projection_pruning.simps, simp)
    apply (subst projection_pruning.simps, simp)
   apply (subst projection_pruning.simps, simp)
  apply (subst projection_pruning.simps, simp)
  done

text \<open>
  The scans under a selection or projection provide the columns these read. No column list
  stands for all columns. Nothing is asked below pattern joins, where no rule applies.
\<close>

fun covers :: "string list option \<Rightarrow> string set \<Rightarrow> bool" where
  "covers None _ = True"
| "covers (Some cs) used = (used \<subseteq> set cs)"

fun well_scoped :: "logical_op \<Rightarrow> bool" where
  "well_scoped (LSelection (LNodeScan _ _ _ cols) pr) = covers cols (columns_used pr)"
| "well_scoped (LProject (LNodeScan _ _ _ cols) projs) = covers cols (columns_used (PyTuple (map fst projs)))"
| "well_scoped (LProject (LSelection (LNodeScan _ _ _ cols) pr) projs) =
     covers cols (columns_used (PyTuple (map fst projs)) \<union> columns_used pr)"
| "well_scoped (LSelection c _) = well_scoped c"
| "well_scoped (LProject c _) = well_scoped c"
| "well_scoped (LAggregate c _ _) = well_scoped c"
| "well_scoped (LOrderBy c _) = well_scoped c"
| "well_scoped (LLimit c _ _) = well_scoped c"
| "well_scoped _ = True"

text \<open>A plan with the column lists of its scans left out.\<close>

fun erase :: "logical_op \<Rightarrow> logical_op" where
  "erase (LNodeScan ci ln al _) = LNodeScan ci ln al None"
| "erase (LSelection c pr) = LSelection (erase c) pr"
| "erase (LProject c projs) = LProject (erase c) projs"
| "erase (LAggregate c g a) = LAggregate (erase c) g a"
| "erase (LOrderBy c ks) = LOrderBy (erase c) ks"
| "erase (LLimit c lim off) = LLimit (erase c) lim off"
| "erase p = p"

lemma covers_narrow: "finite W \<Longrightarrow> V \<subseteq> W \<Longrightarrow> covers cols V \<Longrightarrow> covers (narrow W cols) V"
  by (auto simp: narrow_def)

lemma covers_widen: "finite W \<Longrightarrow> covers cols V \<Longrightarrow> covers (widen W cols) V"
  by (cases cols) (auto simp: widen_def)

lemma widen_covered: "finite W \<Longrightarrow> V \<subseteq> W \<Longrightarrow> widen V (Some (sorted_list_of_set W)) = Some (sorted_list_of_set W)"
  by (simp add: widen_def Un_absorb2)

lemma widen_widen [simp]: "finite W \<Longrightarrow> widen W (widen W cols) = widen W cols"
  by (cases cols) (simp_all add: widen_def)

lemma narrow_narrow [simp]: "narrow W (narrow W cols) = narrow W cols"
  by (simp add: narrow_def)

lemma shape_simps [simp]:
  "selects_scan (LSelection c pr) = is_scan c"
  "\<not> is_scan c \<Longrightarrow> well_scoped (LSelection c pr) = well_scoped c"
  "\<not> is_scan c \<Longrightarrow> \<not> selects_scan c \<Longrightarrow> well_scoped (LProject c projs) = well_scoped c"
  by (cases c; simp; fail)+ (cases c rule: selects_scan.cases; simp)

lemma pushdown_shape [simp]:
  "is_scan (predicate_pushdown p) = is_scan p" "selects_scan (predicate_pushdown p) = selects_scan p"
  by (induction p rule: well_scoped.induct) simp_all

lemma pruning_shape [simp]:
  "is_scan (projection_pruning p) = is_scan p" "selects_scan (projection_pruning p) = selects_scan p"
  by (induction p rule: well_scoped.induct) simp_all

text \<open>Each rule keeps the plan up to the columns of scans, and keeps it well scoped.\<close>

lemma pushdown_erase [simp]: "erase (predicate_pushdown p) = erase p"
  by (induction p rule: well_scoped.induct) simp_all

lemma pruning_erase [simp]: "erase (projection_pruning p) = erase p"
  by (induction p rule: well_scoped.induct) simp_all

lemma pushdown_scoped: "well_scoped p \<Longrightarrow> well_scoped (predicate_pushdown p)"
  by (induction p rule: well_scoped.induct) (auto intro: covers_widen)

lemma pruning_scoped: "well_scoped p \<Longrightarrow> well_scoped (projection_pruning p)"
  by (induction p rule: well_scoped.induct) (auto intro: covers_narrow)

section \<open>Fixpoints\<close>

lemma pushdown_idem [simp]: "predicate_pushdown (predicate_pushdown p) = predicate_pushdown p"
  by (induction p rule: well_scoped.induct) simp_all

lemma pruning_idem [simp]: "projection_pruning (projection_pruning p) = projection_pruning p"
  by (induction p rule: well_scoped.induct) simp_all

lemma pushdown_after_pruning:
  "predicate_pushdown p = p \<Longrightarrow> predicate_pushdown (projection_pruning p) = projection_pruning p"
  by (induction p rule: well_scoped.induct) (auto simp: narrow_def widen_covered)

lemma default_pass:
  "apply_rules default_rules p app False =
     (let q = predicate_pushdown p; r = projection_pruning q in
      (r, app @ (if q \<noteq> p then [''predicate_pushdown''] else []) @ (if r \<noteq> q then [''projection_pruning''] else []),
       q \<noteq> p \<or> r \<noteq> q))"
  by (simp add: default_rules_def Let_def)

text \<open>The loop over the default rules: the second pass never changes anything.\<close>

lemma loop_stable:
  "predicate_pushdown r = r \<Longrightarrow> projection_pruning r = r
    \<Longrightarrow> rules_loop default_rules (Suc m) i r app = \<lparr>rr_plan = r, rr_iterations = i + 1, rr_applied = app\<rparr>"
  by (simp add: default_pass Let_def)

lemma default_loop:
  assumes "2 \<le> n"
  shows "rr_plan (rules_loop default_rules n 0 p []) = projection_pruning (predicate_pushdown p)
    \<and> rr_iterations (rules_loop default_rules n 0 p []) \<le> 2"
proof -
  define r where "r = projection_pruning (predicate_pushdown p)"
  have r: "predicate_pushdown r = r" "projection_pruning r = r"
    unfolding r_def by (rule pushdown_after_pruning) simp_all
  from assms obtain m where n: "n = Suc (Suc m)" by (metis One_nat_def Suc_1 Suc_le_D le_Suc_eq)
  show ?thesis
  proof (cases "predicate_pushdown p = p \<and> projection_pruning p = p")
    case True
    then have "projection_pruning (predicate_pushdown p) = p" by simp
    with loop_stable [of p "Suc m" 0 "[]"] True show ?thesis unfolding n by simp
  next
    case False
    then have "predicate_pushdown p \<noteq> p \<or> r \<noteq> predicate_pushdown p" by (auto simp: r_def)
    then obtain app where "apply_rules default_rules p [] False = (r, app, True)"
      unfolding default_pass Let_def r_def by blast
    then have "rules_loop default_rules n 0 p [] = rules_loop default_rules (Suc m) 1 r app"
      unfolding n rules_loop.simps(2) [of default_rules "Suc m"] by (simp del: rules_loop.simps)
    with loop_stable [OF r, of m 1 app] show ?thesis by (simp add: r_def del: rules_loop.simps)
  qed
qed

section \<open>Properties of rewriting\<close>

text \<open>
  C20: rewriting with the default rules ends in a fixpoint of both rules within two passes
  whenever at least two are allowed, as the default of eight does.
\<close>

theorem run_rules_fixpoint:
  assumes "2 \<le> max_iterations"
  shows "rr_iterations (run_rules p None max_iterations) \<le> 2
    \<and> predicate_pushdown (rr_plan (run_rules p None max_iterations)) = rr_plan (run_rules p None max_iterations)
    \<and> projection_pruning (rr_plan (run_rules p None max_iterations)) = rr_plan (run_rules p None max_iterations)"
proof -
  have "2 \<le> nat max_iterations" using assms by simp
  from default_loop [OF this, of p] assms show ?thesis
    by (simp add: run_rules_def Let_def pushdown_after_pruning)
qed

theorem run_rules_fixpoint_witness:
  "rr_iterations (run_rules (LProject (LNodeScan ''i'' ''C'' ''n'' None) [(PyTuple [PyStr ''col'', PyStr ''a''], ''a'')]) None 8) \<le> 2
   \<and> projection_pruning (LProject (LNodeScan ''i'' ''C'' ''n'' None) [(PyTuple [PyStr ''col'', PyStr ''a''], ''a'')])
       = LProject (LNodeScan ''i'' ''C'' ''n'' (Some [''a''])) [(PyTuple [PyStr ''col'', PyStr ''a''], ''a'')]"
  using run_rules_fixpoint [of 8 "LProject (LNodeScan ''i'' ''C'' ''n'' None) [(PyTuple [PyStr ''col'', PyStr ''a''], ''a'')]"]
  by (simp add: narrow_def)

text \<open>
  Rewriting changes only which columns the scans fetch, and never removes one that the
  selection or projection above reads: for any bound on the passes the plan is the same up to
  the column lists of scans, and a well-scoped plan stays well scoped.
\<close>

theorem run_rules_sound:
  "erase (rr_plan (run_rules p None max_iterations)) = erase p
   \<and> (well_scoped p \<longrightarrow> well_scoped (rr_plan (run_rules p None max_iterations)))"
proof -
  have "erase (rr_plan (rules_loop default_rules n i p app)) = erase p
      \<and> (well_scoped p \<longrightarrow> well_scoped (rr_plan (rules_loop default_rules n i p app)))" for n i app
  proof (induction n arbitrary: i p app)
    case (Suc n)
    let ?r = "projection_pruning (predicate_pushdown p)"
    from Suc [of _ ?r] show ?case by (auto simp: default_pass Let_def pushdown_scoped pruning_scoped)
  qed simp
  then show ?thesis by (simp add: run_rules_def Let_def)
qed

theorem run_rules_sound_witness:
  "well_scoped (rr_plan (run_rules
     (LProject (LSelection (LNodeScan ''i'' ''C'' ''n'' None) (PyTuple [PyStr ''col'', PyStr ''b'']))
       [(PyTuple [PyStr ''col'', PyStr ''a''], ''a'')]) None 8))"
  using run_rules_sound [of "LProject (LSelection (LNodeScan ''i'' ''C'' ''n'' None) (PyTuple [PyStr ''col'', PyStr ''b'']))
       [(PyTuple [PyStr ''col'', PyStr ''a''], ''a'')]" 8] by simp

section \<open>Lowering patterns\<close>

text \<open>Nodes with a label, alternating with relationships that have a type.\<close>

fun well_chained :: "'e pattern_elem list \<Rightarrow> bool" where
  "well_chained [] = True"
| "well_chained (RelPattern _ ts _ _ _ # NodePattern _ ls _ # rest) = (ts \<noteq> [] \<and> ls \<noteq> [] \<and> well_chained rest)"
| "well_chained _ = False"

text \<open>
  What the plan should do: the aliases of the nodes with the classes scanned for them, and
  the traversals between consecutive aliases.
\<close>

fun chain_scans :: "nat \<Rightarrow> 'e pattern_elem list \<Rightarrow> (string \<times> string) list" where
  "chain_scans n (NodePattern var ls _ # rest) =
     (case var of Some v \<Rightarrow> id_name v | None \<Rightarrow> ''n'' @ decimal n, ref_value (hd ls)) # chain_scans n rest"
| "chain_scans n (_ # rest) = chain_scans n rest"
| "chain_scans n [] = []"

fun chain_hops :: "nat \<Rightarrow> string \<Rightarrow> 'e pattern_elem list \<Rightarrow> (string \<times> string \<times> direction \<times> string) list" where
  "chain_hops n cur (RelPattern _ ts d _ _ # NodePattern var _ _ # rest) =
     (let next = (case var of Some v \<Rightarrow> id_name v | None \<Rightarrow> ''n'' @ decimal n)
      in (cur, ref_value (hd ts), d, next) # chain_hops n next rest)"
| "chain_hops n cur _ = []"

text \<open>The scans of a plan and its traversals, with the traversals in the order they run.\<close>

fun plan_scans :: "logical_op \<Rightarrow> (string \<times> string) list" where
  "plan_scans (LNodeScan ci _ al _) = [(al, ci)]"
| "plan_scans (LExpand c _ _ _ _ _ _ _) = plan_scans c"
| "plan_scans (LJoin l r _ _ _ _ _) = plan_scans l @ plan_scans r"
| "plan_scans _ = []"

fun plan_hops :: "logical_op \<Rightarrow> (string \<times> string \<times> direction \<times> string) list" where
  "plan_hops (LExpand c iri d s t _ _ _) = plan_hops c @ [(s, iri, d, t)]"
| "plan_hops (LJoin l r _ _ _ _ _) = plan_hops l @ plan_hops r"
| "plan_hops _ = []"

definition nid_hop :: "string \<times> string \<times> direction \<times> string \<Rightarrow> string \<times> string \<times> direction \<times> string" where
  "nid_hop = (\<lambda>(s, iri, d, t). (s @ ''.nid'', iri, d, t @ ''.nid''))"

lemma compile_rest_chain:
  "well_chained es \<Longrightarrow> \<exists>plan'. compile_rest n es plan cur None = Inr plan'
     \<and> plan_scans plan' = plan_scans plan @ chain_scans n es
     \<and> plan_hops plan' = plan_hops plan @ map nid_hop (chain_hops n cur es)"
proof (induction es arbitrary: plan cur rule: well_chained.induct)
  case (2 rv ts d h rp nv ls np rest)
  then obtain t ts' l ls' where l: "ts = t # ts'" "ls = l # ls'" "well_chained rest"
    by (auto simp: neq_Nil_conv)
  let ?next = "case nv of Some v \<Rightarrow> id_name v | None \<Rightarrow> ''n'' @ decimal n"
  let ?plan = "LJoin (LExpand plan (ref_value t) d (cur @ ''.nid'') (?next @ ''.nid'') (map_option id_name rv)
      (hops_or (min_hops h) 1) (hops_or (max_hops h) (hops_or (min_hops h) 1)))
    (LNodeScan (ref_value l) (local_name_of (ref_value l)) ?next None)
    (?next @ ''.nid'') ''nid'' InnerJoin None (Some ?next)"
  from 2(1) [of ?plan ?next] l show ?case
    by (auto simp: resolve_label_def Let_def nid_hop_def)
qed simp_all

text \<open>
  A pattern of labelled nodes alternating with typed relationships compiles, and the plan
  scans the class of every node and traverses every relationship, in the order of the
  pattern, from the identifiers of one node to those of the next.
\<close>

theorem compile_pattern_chain:
  assumes "pat_elements p = NodePattern var (l # ls) props # rest" and "well_chained rest"
  shows "\<exists>plan. compile_pattern p = Inr plan
    \<and> plan_scans plan = (case var of Some v \<Rightarrow> id_name v | None \<Rightarrow> ''n0'', ref_value l)
        # chain_scans (length (pat_elements p)) rest
    \<and> plan_hops plan = map nid_hop
        (chain_hops (length (pat_elements p)) (case var of Some v \<Rightarrow> id_name v | None \<Rightarrow> ''n0'') rest)"
proof -
  let ?a = "case var of Some v \<Rightarrow> id_name v | None \<Rightarrow> ''n0''"
  from compile_rest_chain [OF assms(2), of "length (pat_elements p)"
      "LNodeScan (ref_value l) (local_name_of (ref_value l)) ?a None" ?a] assms(1)
  show ?thesis by (simp add: compile_pattern_def resolve_label_def Let_def)
qed

theorem compile_pattern_chain_witness:
  "\<exists>plan. compile_pattern (Pattern [NodePattern (Some (Ident ''a'' False)) [QName ''P''] None,
       RelPattern None [QName ''knows''] OUT (HopRange None None) None,
       NodePattern (Some (Ident ''b'' False)) [QName ''Q''] None] None :: expr pattern) = Inr plan
    \<and> plan_scans plan = [(''a'', ''P''), (''b'', ''Q'')]
    \<and> plan_hops plan = [(''a.nid'', ''knows'', OUT, ''b.nid'')]"
  using compile_pattern_chain [of "Pattern [NodePattern (Some (Ident ''a'' False)) [QName ''P''] None,
       RelPattern None [QName ''knows''] OUT (HopRange None None) None,
       NodePattern (Some (Ident ''b'' False)) [QName ''Q''] None] None :: expr pattern"
      "Some (Ident ''a'' False)" "QName ''P''" "[]" None]
  by (simp add: nid_hop_def)

text \<open>
  Unnamed nodes after the first all get the same alias, the letter n with the length of the
  pattern: in a pattern with two of them the second traversal starts and ends at that alias,
  and the identifiers of the two nodes share one column name.
\<close>

theorem anonymous_aliases_collide:
  "\<exists>plan. compile_pattern (Pattern [NodePattern None [QName ''P''] None,
       RelPattern None [QName ''r''] OUT (HopRange None None) None, NodePattern None [QName ''Q''] None,
       RelPattern None [QName ''s''] OUT (HopRange None None) None, NodePattern None [QName ''R''] None] None :: expr pattern)
     = Inr plan
    \<and> plan_scans plan = [(''n0'', ''P''), (''n5'', ''Q''), (''n5'', ''R'')]
    \<and> plan_hops plan = [(''n0.nid'', ''r'', OUT, ''n5.nid''), (''n5.nid'', ''s'', OUT, ''n5.nid'')]"
proof -
  have "decimal (Suc (Suc (Suc (Suc (Suc 0))))) = ''5''" by code_simp
  then show ?thesis by (simp add: compile_pattern_def resolve_label_def Let_def)
qed

section \<open>Splitting at \<open>WITH\<close>\<close>

text \<open>The clauses of a query, put together again from its segments.\<close>

definition segment_clauses :: "'e pipeline_segment \<Rightarrow> 'e clause list" where
  "segment_clauses s = ps_clauses s
     @ (case ps_boundary s of None \<Rightarrow> [] | Some b \<Rightarrow> [WithClause (wb_projections b) (wb_where b)])"

fun is_with :: "'e clause \<Rightarrow> bool" where
  "is_with (WithClause _ _) = True"
| "is_with _ = False"

lemma split_loop_spec:
  "list_all (Not \<circ> is_with) buf \<Longrightarrow>
     concat (map segment_clauses (split_loop buf cls)) = buf @ cls
   \<and> list_all (\<lambda>s. list_all (Not \<circ> is_with) (ps_clauses s)) (split_loop buf cls)
   \<and> length (split_loop buf cls) = Suc (length (filter is_with cls))
   \<and> ps_boundary (last (split_loop buf cls)) = None \<and> split_loop buf cls \<noteq> []"
proof (induction buf cls rule: split_loop.induct)
  case (2 buf cl cls)
  then show ?case
    by (cases cl) (simp_all add: segment_clauses_def)
qed (simp add: segment_clauses_def)

text \<open>
  Splitting a query at its \<open>WITH\<close> clauses loses and reorders nothing: the segments with
  their boundaries put back are the clauses of the query, no segment contains a \<open>WITH\<close>, there
  is one segment more than there are boundaries, and the last has none.
\<close>

theorem split_pipelines_partition:
  assumes "split_pipelines q = Inr segs"
  shows "concat (map segment_clauses segs) = q_clauses q
    \<and> list_all (\<lambda>s. list_all (Not \<circ> is_with) (ps_clauses s)) segs
    \<and> length segs = Suc (length (filter is_with (q_clauses q)))
    \<and> ps_boundary (last segs) = None"
  using assms split_loop_spec [of "[]" "q_clauses q"] by (auto simp: split_pipelines_def split: if_splits)

theorem split_pipelines_partition_witness:
  "\<exists>segs. split_pipelines (Query [MatchClause [] False None, WithClause [] None, ReturnClause [] False] [] (Modifiers [] None None) :: expr query)
     = Inr segs \<and> length segs = 2"
proof -
  let ?q = "Query [MatchClause [] False None, WithClause [] None, ReturnClause [] False] [] (Modifiers [] None None) :: expr query"
  have "split_pipelines ?q = Inr (split_loop [] (q_clauses ?q))" by (simp add: split_pipelines_def)
  from split_pipelines_partition [OF this] this show ?thesis by simp
qed

end
