(* ===== verification/Expr_Eval.thy ===== *)
theory Expr_Eval
  imports Logical_Plan
begin

text \<open>
  The expression evaluator (\<open>exec/expr.py\<close>): compiling a tuple into a function from record
  batches to columns. The Arrow kernels it calls are parameters: a record of the operations,
  over a type of batches and a type of columns.
\<close>

record ('b, 'c) expr_kernels =
  ar_column :: "'b \<Rightarrow> string \<Rightarrow> 'c result"
  ar_num_rows :: "'b \<Rightarrow> nat"
  ar_scalar :: "py_obj \<Rightarrow> py_obj result"
  ar_repeat :: "py_obj \<Rightarrow> nat \<Rightarrow> 'c result"
  ar_compare :: "string \<Rightarrow> 'c \<Rightarrow> 'c \<Rightarrow> 'c result"
  ar_logic :: "string \<Rightarrow> 'c \<Rightarrow> 'c \<Rightarrow> 'c result"
  ar_invert :: "'c \<Rightarrow> 'c result"
  ar_is_in :: "py_obj list \<Rightarrow> ('c \<Rightarrow> 'c result) result"
  ar_call1 :: "int \<Rightarrow> 'c \<Rightarrow> 'c result"
  ar_call2 :: "int \<Rightarrow> 'c \<Rightarrow> 'c \<Rightarrow> 'c result"

type_synonym ('b, 'c) expr_fn = "'b \<Rightarrow> 'c result"

definition bin_ops :: "string list" where
  "bin_ops = [''eq'', ''ne'', ''lt'', ''le'', ''gt'', ''ge'']"

text \<open>A dictionary lookup of a key that is not hashable raises.\<close>

fun hashable :: "py_obj \<Rightarrow> bool" where
  "hashable (PyList _) = False"
| "hashable (PyTuple xs) = list_all hashable xs"
| "hashable _ = True"

text \<open>The set of a membership test, with the checks of the source on its shape.\<close>

definition member_set :: "py_obj \<Rightarrow> py_obj list result" where
  "member_set e =
     (case e of
        PyTuple [] \<Rightarrow> Inl IndexError
      | PyTuple (t # ts) \<Rightarrow>
          if t \<noteq> PyStr ''lit'' then raise_code ''CDB-6010''
          else (case ts of
              [] \<Rightarrow> Inl IndexError
            | PyList vs # _ \<Rightarrow> Inr vs
            | PyTuple vs # _ \<Rightarrow> Inr vs
            | _ \<Rightarrow> raise_code ''CDB-6010'')
      | _ \<Rightarrow> raise_code ''CDB-6010'')"

definition apply1 :: "('c \<Rightarrow> 'c result) \<Rightarrow> ('b, 'c) expr_fn \<Rightarrow> ('b, 'c) expr_fn" where
  "apply1 op f = (\<lambda>b. rbind (f b) op)"

definition apply2 :: "('c \<Rightarrow> 'c \<Rightarrow> 'c result) \<Rightarrow> ('b, 'c) expr_fn \<Rightarrow> ('b, 'c) expr_fn \<Rightarrow> ('b, 'c) expr_fn" where
  "apply2 op f g = (\<lambda>b. rbind (f b) (\<lambda>x. rbind (g b) (op x)))"

fun compile_expr :: "('b, 'c) expr_kernels \<Rightarrow> py_obj \<Rightarrow> ('b, 'c) expr_fn result" where
  "compile_expr A (PyTuple (PyStr h # args)) =
     (if h = ''col'' then
        (case args of [PyStr n] \<Rightarrow> Inr (\<lambda>b. ar_column A b n) | _ \<Rightarrow> raise_code ''CDB-6010'')
      else if h = ''lit'' then
        (case args of
           [v] \<Rightarrow> rbind (ar_scalar A v) (\<lambda>s. Inr (\<lambda>b. ar_repeat A s (ar_num_rows A b)))
         | _ \<Rightarrow> raise_code ''CDB-6010'')
      else if h \<in> set bin_ops then
        (case args of
           [l, r] \<Rightarrow> rbind (compile_expr A l) (\<lambda>f. rbind (compile_expr A r) (\<lambda>g. Inr (apply2 (ar_compare A h) f g)))
         | _ \<Rightarrow> raise_code ''CDB-6010'')
      else if h \<in> {''and'', ''or''} then
        (case args of
           [l, r] \<Rightarrow> rbind (compile_expr A l) (\<lambda>f. rbind (compile_expr A r) (\<lambda>g. Inr (apply2 (ar_logic A h) f g)))
         | _ \<Rightarrow> raise_code ''CDB-6010'')
      else if h = ''not'' then
        (case args of
           [e] \<Rightarrow> rbind (compile_expr A e) (\<lambda>f. Inr (apply1 (ar_invert A) f))
         | _ \<Rightarrow> raise_code ''CDB-6010'')
      else if h = ''py_unary'' then
        (case args of
           [PyFn k, e] \<Rightarrow> rbind (compile_expr A e) (\<lambda>f. Inr (apply1 (ar_call1 A k) f))
         | _ \<Rightarrow> raise_code ''CDB-6010'')
      else if h = ''py_binary'' then
        (case args of
           [PyFn k, l, r] \<Rightarrow>
             rbind (compile_expr A l) (\<lambda>f. rbind (compile_expr A r) (\<lambda>g. Inr (apply2 (ar_call2 A k) f g)))
         | _ \<Rightarrow> raise_code ''CDB-6010'')
      else if h = ''in'' then
        (case args of
           [l, s] \<Rightarrow>
             rbind (member_set s) (\<lambda>vs. rbind (compile_expr A l) (\<lambda>f.
             rbind (ar_is_in A vs) (\<lambda>op. Inr (apply1 op f))))
         | _ \<Rightarrow> raise_code ''CDB-6010'')
      else raise_code ''CDB-6010'')"
| "compile_expr A (PyTuple (h # args)) = (if hashable h then raise_code ''CDB-6010'' else Inl TypeError)"
| "compile_expr A _ = raise_code ''CDB-6010''"

section \<open>An expression reads the columns it names, and no other\<close>

definition same_columns :: "('b, 'c) expr_kernels \<Rightarrow> string set \<Rightarrow> 'b \<Rightarrow> 'b \<Rightarrow> bool" where
  "same_columns A S b1 b2 \<longleftrightarrow>
     ar_num_rows A b1 = ar_num_rows A b2 \<and> (\<forall>n \<in> S. ar_column A b1 n = ar_column A b2 n)"

lemma same_columns_mono: "same_columns A S b1 b2 \<Longrightarrow> T \<subseteq> S \<Longrightarrow> same_columns A T b1 b2"
  by (auto simp: same_columns_def)

lemma apply1_local: "f b1 = f b2 \<Longrightarrow> apply1 op f b1 = apply1 op f b2"
  by (simp add: apply1_def)

lemma apply2_local: "f b1 = f b2 \<Longrightarrow> g b1 = g b2 \<Longrightarrow> apply2 op f g b1 = apply2 op f g b2"
  by (simp add: apply2_def)

lemma columns_used_arg:
  "h \<noteq> ''col'' \<Longrightarrow> e \<in> set args \<Longrightarrow> columns_used e \<subseteq> columns_used (PyTuple (PyStr h # args))"
  by (cases args) (auto split: py_obj.splits)

text \<open>
  An expression reads only the columns the rewrite rules attribute to it. On two batches
  with the same number of rows that agree on \<open>columns_used\<close>, a compiled expression gives the
  same result, an error included, whatever the Arrow kernels do.
\<close>

theorem compile_expr_local:
  assumes "compile_expr A e = Inr f" "same_columns A (columns_used e) b1 b2"
  shows "f b1 = f b2"
  using assms
proof (induction "size e" arbitrary: e f rule: less_induct)
  case less
  from less.prems(1) obtain h args where e: "e = PyTuple (PyStr h # args)"
    by (cases "(A, e)" rule: compile_expr.cases) (auto split: if_splits)
  have IH: "g b1 = g b2" if "h \<noteq> ''col''" "x \<in> set args" "compile_expr A x = Inr g" for x g
  proof (rule less.hyps [OF _ that(3)])
    have "size x < Suc (size_list size args)"
      using size_list_estimation' [OF that(2), of "size x" size] by simp
    then show "size x < size e" by (simp add: e)
    show "same_columns A (columns_used x) b1 b2"
      using less.prems(2) columns_used_arg [OF that(1,2)] by (auto simp: e intro: same_columns_mono)
  qed
  show ?case
  proof (cases "h = ''col''")
    case True
    with less.prems show ?thesis
      by (auto simp: e same_columns_def split: list.splits py_obj.splits)
  next
    case False
    have rows: "ar_num_rows A b1 = ar_num_rows A b2" using less.prems(2) by (simp add: same_columns_def)
    from less.prems(1) False IH rows show ?thesis
      by (auto simp: e rbind_Inr_iff split: if_splits list.splits py_obj.splits
          intro!: apply1_local apply2_local)
  qed
qed

text \<open>Batches as association lists of integer columns, with equality as the only comparison.\<close>

definition example_arrow :: "((string \<times> int list) list, int list) expr_kernels" where
  "example_arrow = \<lparr>
     ar_column = (\<lambda>b n. case map_of b n of Some c \<Rightarrow> Inr c | None \<Rightarrow> Inl KeyError),
     ar_num_rows = (\<lambda>b. case b of [] \<Rightarrow> 0 | (_, c) # _ \<Rightarrow> length c),
     ar_scalar = Inr,
     ar_repeat = (\<lambda>v n. Inr (replicate n (case v of PyObj i \<Rightarrow> i | _ \<Rightarrow> 0))),
     ar_compare = (\<lambda>_ xs ys. Inr (map2 (\<lambda>x y. if x = y then 1 else 0) xs ys)),
     ar_logic = (\<lambda>_ xs ys. Inr (map2 min xs ys)),
     ar_invert = (\<lambda>xs. Inr (map (\<lambda>x. 1 - x) xs)),
     ar_is_in = (\<lambda>vs. Inr (\<lambda>xs. Inr (map (\<lambda>x. if PyObj x \<in> set vs then 1 else 0) xs))),
     ar_call1 = (\<lambda>_. Inr), ar_call2 = (\<lambda>_ xs ys. Inr xs)\<rparr>"

theorem compile_expr_local_witness:
  "\<exists>f. compile_expr example_arrow (PyTuple [PyStr ''eq'', PyTuple [PyStr ''col'', PyStr ''a''], PyTuple [PyStr ''lit'', PyObj 3]]) = Inr f
    \<and> f [(''a'', [3, 4]), (''b'', [1, 1])] = Inr [1, 0]
    \<and> f [(''a'', [3, 4]), (''b'', [1, 1])] = f [(''a'', [3, 4]), (''b'', [2, 2])]"
proof -
  let ?e = "PyTuple [PyStr ''eq'', PyTuple [PyStr ''col'', PyStr ''a''], PyTuple [PyStr ''lit'', PyObj 3]]"
  let ?f = "apply2 (ar_compare example_arrow ''eq'') (\<lambda>b. ar_column example_arrow b ''a'')
      (\<lambda>b. ar_repeat example_arrow (PyObj 3) (ar_num_rows example_arrow b))"
  have "ar_scalar example_arrow (PyObj 3) = Inr (PyObj 3)" by (simp add: example_arrow_def)
  then have "compile_expr example_arrow ?e = Inr ?f" by (simp add: bin_ops_def)
  moreover have "?f [(''a'', [3, 4]), (''b'', [1, 1])] = Inr [1, 0]"
    by (simp add: apply2_def example_arrow_def)
  moreover have "same_columns example_arrow (columns_used ?e) [(''a'', [3, 4]), (''b'', [1, 1])] [(''a'', [3, 4]), (''b'', [2, 2])]"
    by (simp add: same_columns_def example_arrow_def)
  ultimately show ?thesis using compile_expr_local [of example_arrow ?e ?f] by blast
qed

end
