(* ===== verification/Operator.thy ===== *)
theory Operator
  imports Json
begin

text \<open>
  The pull-based operators of the executor (\<open>exec/operator.py\<close>): the lifecycle the base class
  wraps around the hooks of a subclass, and the loop that runs a pipeline.
\<close>

section \<open>The base class\<close>

record exec_ctx =
  ctx_snapshot_id :: "string option"
  ctx_seed :: int
  ctx_batch_size :: int
  ctx_metadata :: "(string, json) dict"

text \<open>
  The hooks of a subclass over its own state, which they may change even when they raise.
  \<open>open\<close>, which may drain a child, and \<open>next\<close> may run for ever, which is \<open>None\<close>.
\<close>

record ('s, 'b) hooks =
  hook_open :: "exec_ctx \<Rightarrow> 's \<Rightarrow> (unit result \<times> 's) option"
  hook_next :: "'s \<Rightarrow> ('b option result \<times> 's) option"
  hook_close :: "'s \<Rightarrow> unit result \<times> 's"

record 's op_state =
  opened :: bool
  closed :: bool
  inner :: 's

definition op_init :: "'s \<Rightarrow> 's op_state" where
  "op_init s = \<lparr>opened = False, closed = False, inner = s\<rparr>"

definition op_open :: "('s, 'b) hooks \<Rightarrow> exec_ctx \<Rightarrow> 's op_state \<Rightarrow> (unit result \<times> 's op_state) option" where
  "op_open h ctx st =
     (if opened st then Some (raise_code ''CDB-6001'', st)
      else
        (case hook_open h ctx (inner st) of
           None \<Rightarrow> None
         | Some (Inl e, s) \<Rightarrow> Some (Inl e, st\<lparr>inner := s\<rparr>)
         | Some (Inr _, s) \<Rightarrow> Some (Inr (), st\<lparr>inner := s, opened := True\<rparr>)))"

definition op_next :: "('s, 'b) hooks \<Rightarrow> 's op_state \<Rightarrow> ('b option result \<times> 's op_state) option" where
  "op_next h st =
     (if \<not> opened st then Some (raise_code ''CDB-6002'', st)
      else if closed st then Some (Inr None, st)
      else map_option (\<lambda>(r, s). (r, st\<lparr>inner := s\<rparr>)) (hook_next h (inner st)))"

definition op_close :: "('s, 'b) hooks \<Rightarrow> 's op_state \<Rightarrow> unit result \<times> 's op_state" where
  "op_close h st =
     (if closed st then (Inr (), st)
      else if opened st then
        (case hook_close h (inner st) of
           (Inl e, s) \<Rightarrow> (Inl e, st\<lparr>inner := s\<rparr>)
         | (Inr _, s) \<Rightarrow> (Inr (), st\<lparr>inner := s, closed := True\<rparr>))
      else (Inr (), st\<lparr>closed := True\<rparr>))"

section \<open>Pipelines\<close>

text \<open>The batches a consumer gets, and the exception that ends them, if any.\<close>

partial_function (option) pull_all ::
  "('s, 'b) hooks \<Rightarrow> 's op_state \<Rightarrow> 'b list \<Rightarrow> ('b list \<times> unit result \<times> 's op_state) option" where
  "pull_all h st acc =
     Option.bind (op_next h st) (\<lambda>(r, st').
       (case r of
          Inl e \<Rightarrow> Some (rev acc, Inl e, st')
        | Inr None \<Rightarrow> Some (rev acc, Inr (), st')
        | Inr (Some b) \<Rightarrow> pull_all h st' (b # acc)))"

definition run_pipeline ::
  "('s, 'b) hooks \<Rightarrow> exec_ctx \<Rightarrow> 's op_state \<Rightarrow> ('b list \<times> unit result \<times> 's op_state) option" where
  "run_pipeline h ctx root =
     Option.bind (op_open h ctx root) (\<lambda>(opening, st).
       (case opening of
          Inl e \<Rightarrow> Some ([], Inl e, st)
        | Inr _ \<Rightarrow>
            Option.bind (pull_all h st []) (\<lambda>(bs, r, st').
              (case op_close h st' of
                 (Inl e, st'') \<Rightarrow> Some (bs, Inl e, st'')
               | (Inr _, st'') \<Rightarrow> Some (bs, r, st'')))))"

text \<open>An open operator that delivers the batches and then the end of the stream.\<close>

inductive drains :: "('s, 'b) hooks \<Rightarrow> 's op_state \<Rightarrow> 'b list \<Rightarrow> 's op_state \<Rightarrow> bool" where
  drained: "op_next h st = Some (Inr None, st') \<Longrightarrow> drains h st [] st'"
| delivers: "op_next h st = Some (Inr (Some b), st') \<Longrightarrow> drains h st' bs st'' \<Longrightarrow> drains h st (b # bs) st''"

inductive_simps drains_Nil: "drains h st [] st'"
inductive_simps drains_Cons: "drains h st (b # bs) st'"

lemma pull_all_drains: "drains h st bs st' \<Longrightarrow> pull_all h st acc = Some (rev acc @ bs, Inr (), st')"
  by (induction arbitrary: acc rule: drains.induct) (subst pull_all.simps, simp)+

section \<open>The protocol\<close>

datatype call = Open exec_ctx | Next | Close

text \<open>The hook a call reaches, and whether it succeeds.\<close>

datatype hook_event = Opened bool | Pulled | Closed bool

definition succeeds :: "'a result \<times> 's \<Rightarrow> bool" where
  "succeeds r = (case fst r of Inl _ \<Rightarrow> False | Inr _ \<Rightarrow> True)"

inductive call_step ::
  "('s, 'b) hooks \<Rightarrow> 's op_state \<Rightarrow> call \<Rightarrow> hook_event list \<Rightarrow> 's op_state \<Rightarrow> bool" where
  "op_open h ctx st = Some (r, st') \<Longrightarrow>
     call_step h st (Open ctx) (if opened st then [] else [Opened (succeeds (the (hook_open h ctx (inner st))))]) st'"
| "op_next h st = Some (r, st') \<Longrightarrow>
     call_step h st Next (if opened st \<and> \<not> closed st then [Pulled] else []) st'"
| "op_close h st = (r, st') \<Longrightarrow>
     call_step h st Close (if opened st \<and> \<not> closed st then [Closed (succeeds (hook_close h (inner st)))] else []) st'"

inductive calls :: "('s, 'b) hooks \<Rightarrow> 's op_state \<Rightarrow> hook_event list \<Rightarrow> 's op_state \<Rightarrow> bool" where
  no_call: "calls h st [] st"
| more_calls: "calls h st es st' \<Longrightarrow> call_step h st' c es' st'' \<Longrightarrow> calls h st (es @ es') st''"

text \<open>
  A hook trace that keeps to the protocol: failed openings, one that succeeds, pulls and failed
  closings, one closing that succeeds, and nothing after it.
\<close>

fun protocol :: "bool \<Rightarrow> bool \<Rightarrow> hook_event list \<Rightarrow> bool" where
  "protocol opn cls [] = True"
| "protocol opn cls (Opened ok # es) = (\<not> opn \<and> protocol ok cls es)"
| "protocol opn cls (Pulled # es) = (opn \<and> \<not> cls \<and> protocol opn cls es)"
| "protocol opn cls (Closed ok # es) = (opn \<and> \<not> cls \<and> protocol opn ok es)"

text \<open>Whether a trace has opened and closed the subclass.\<close>

fun trace_state :: "bool \<Rightarrow> bool \<Rightarrow> hook_event list \<Rightarrow> bool \<times> bool" where
  "trace_state opn cls [] = (opn, cls)"
| "trace_state opn cls (Opened ok # es) = trace_state ok cls es"
| "trace_state opn cls (Pulled # es) = trace_state opn cls es"
| "trace_state opn cls (Closed ok # es) = trace_state opn ok es"

lemma trace_state_append:
  "trace_state o1 c1 (es @ es') = (case trace_state o1 c1 es of (o2, c2) \<Rightarrow> trace_state o2 c2 es')"
  by (induction o1 c1 es rule: trace_state.induct) auto

lemma protocol_append:
  "protocol o1 c1 (es @ es') \<longleftrightarrow> protocol o1 c1 es \<and> (case trace_state o1 c1 es of (o2, c2) \<Rightarrow> protocol o2 c2 es')"
  by (induction o1 c1 es rule: trace_state.induct) auto

lemma call_step_protocol:
  assumes "call_step h st c es st'" "cls \<longrightarrow> closed st"
  shows "protocol (opened st) cls es \<and> (\<exists>cls'. trace_state (opened st) cls es = (opened st', cls') \<and> (cls' \<longrightarrow> closed st'))"
  using assms
  by (auto elim!: call_step.cases simp: op_open_def op_next_def op_close_def succeeds_def ex_bool_eq
      split: if_splits option.splits sum.splits prod.splits)

lemma calls_protocol:
  "calls h st es st' \<Longrightarrow> st = op_init s \<Longrightarrow>
     protocol False False es \<and> (\<exists>cls. trace_state False False es = (opened st', cls) \<and> (cls \<longrightarrow> closed st'))"
proof (induction rule: calls.induct)
  case (no_call h st)
  then show ?case by (simp add: op_init_def ex_bool_eq)
next
  case (more_calls h st es st' c es' st'')
  then show ?case
    using call_step_protocol [OF more_calls.hyps(2)] by (auto simp: protocol_append trace_state_append)
qed



text \<open>Running a pipeline gives all batches of the root and closes it.\<close>

lemma run_pipeline_drains:
  assumes "op_open h ctx root = Some (Inr (), st)" "drains h st bs st'" "op_close h st' = (Inr (), st'')"
  shows "run_pipeline h ctx root = Some (bs, Inr (), st'')"
  using assms by (simp add: run_pipeline_def pull_all_drains)

text \<open>An open operator.\<close>

abbreviation running :: "'s \<Rightarrow> 's op_state" where
  "running s \<equiv> \<lparr>opened = True, closed = False, inner = s\<rparr>"

lemma op_next_running:
  "op_next h (running s) = map_option (\<lambda>(r, s'). (r, running s')) (hook_next h s)"
  by (simp add: op_next_def)

lemma drains_same_next: "drains h st2 bs st' \<Longrightarrow> op_next h st = op_next h st2 \<Longrightarrow> drains h st bs st'"
  by (cases rule: drains.cases, assumption) (auto intro: drains.intros)

section \<open>An in-memory source\<close>

text \<open>A leaf that delivers given batches, as the scans of a stored table do.\<close>

definition list_source :: "('b list, 'b) hooks" where
  "list_source = \<lparr>
     hook_open = (\<lambda>ctx s. Some (Inr (), s)),
     hook_next = (\<lambda>s. case s of [] \<Rightarrow> Some (Inr None, []) | b # bs \<Rightarrow> Some (Inr (Some b), bs)),
     hook_close = (\<lambda>s. (Inr (), s))\<rparr>"

lemma list_source_drains:
  "opened st \<Longrightarrow> \<not> closed st \<Longrightarrow> drains list_source st (inner st) (st\<lparr>inner := []\<rparr>)"
proof (induction "inner st" arbitrary: st)
  case Nil
  then have "op_next list_source st = Some (Inr None, st\<lparr>inner := []\<rparr>)"
    by (auto simp: op_next_def list_source_def split: list.splits)
  with Nil.hyps show ?case by (metis drained)
next
  case (Cons b bs)
  have "op_next list_source st = Some (Inr (Some b), st\<lparr>inner := bs\<rparr>)"
    using Cons.hyps(2) Cons.prems by (auto simp: op_next_def list_source_def split: list.splits)
  moreover have "drains list_source (st\<lparr>inner := bs\<rparr>) bs (st\<lparr>inner := []\<rparr>)"
    using Cons.hyps(1) [of "st\<lparr>inner := bs\<rparr>"] Cons.prems by simp
  ultimately show ?case using Cons.hyps(2) by (metis delivers)
qed

end
