(* ===== verification/Numpy.thy ===== *)
theory Numpy
  imports Dict_Store
begin

text \<open>
  The NumPy functions the graph code calls, as a parameter of the model. Arrays of \<open>uint64\<close> and
  of \<open>int64\<close> are lists of 64-bit words (\<open>astype\<close> between the two keeps the bits); literals,
  slices, concatenation and elementwise arithmetic are written as list operations. What the
  code relies on is the documented behaviour of each function, stated in \<open>numpy_laws\<close> for
  arguments in range; outside that range nothing is assumed.
\<close>

type_synonym u64 = "64 word"

record 'rng numpy =
  np_argsort :: "u64 list \<Rightarrow> nat list"
  np_bincount :: "u64 list \<Rightarrow> nat \<Rightarrow> u64 list"
  np_cumsum :: "u64 list \<Rightarrow> u64 list"
  np_sum :: "u64 list \<Rightarrow> u64"
  np_repeat :: "u64 list \<Rightarrow> u64 list \<Rightarrow> u64 list result"
  np_arange :: "int \<Rightarrow> int \<Rightarrow> u64 list"
  np_take :: "u64 list \<Rightarrow> u64 list \<Rightarrow> u64 list result"
  np_flatnonzero :: "bool list \<Rightarrow> nat list"
  np_resize :: "u64 list \<Rightarrow> nat \<Rightarrow> u64 list"
  np_tobytes :: "u64 list \<Rightarrow> bytes"
  np_frombuffer :: "bytes \<Rightarrow> nat \<Rightarrow> nat \<Rightarrow> u64 list result"
  np_memmap :: "bytes \<Rightarrow> nat \<Rightarrow> nat \<Rightarrow> u64 list result"
  np_default_rng :: "int option \<Rightarrow> 'rng"
  np_choice :: "'rng \<Rightarrow> nat \<Rightarrow> nat \<Rightarrow> bool \<Rightarrow> u64 list result \<times> 'rng"

text \<open>An order of the indices that sorts the array and keeps equal keys in place.\<close>

definition stable_order :: "u64 list \<Rightarrow> nat list \<Rightarrow> bool" where
  "stable_order xs ns \<longleftrightarrow> set ns = {..<length xs}
     \<and> sorted_wrt (\<lambda>i j. xs ! i < xs ! j \<or> xs ! i = xs ! j \<and> i < j) ns"

locale numpy_laws =
  fixes np :: "'rng numpy"
  assumes argsort: "stable_order xs (np_argsort np xs)"
    and bincount: "\<forall>x \<in> set xs. unat x < n \<Longrightarrow>
      np_bincount np xs n = map (\<lambda>v. of_nat (length (filter (\<lambda>x. unat x = v) xs))) [0..<n]"
    and cumsum: "np_cumsum np xs = map (\<lambda>i. sum_list (take (Suc i) xs)) [0..<length xs]"
    and sum: "np_sum np xs = sum_list xs"
    and repeat: "length ks = length xs \<Longrightarrow> \<forall>k \<in> set ks. unat k < 2 ^ 63 \<Longrightarrow>
      np_repeat np xs ks = Inr (concat (map2 (\<lambda>x k. replicate (unat k) x) xs ks))"
    and arange: "0 \<le> a \<Longrightarrow> a \<le> b \<Longrightarrow> np_arange np a b = map of_nat [nat a..<nat b]"
    and take_in: "length xs < 2 ^ 63 \<Longrightarrow> \<forall>i \<in> set ks. unat i < length xs \<Longrightarrow>
      np_take np xs ks = Inr (map (\<lambda>i. xs ! unat i) ks)"
    and flatnonzero: "np_flatnonzero np bs = filter (\<lambda>i. bs ! i) [0..<length bs]"
    and resize: "xs \<noteq> [] \<Longrightarrow> np_resize np xs n = map (\<lambda>i. xs ! (i mod length xs)) [0..<n]"
    and tobytes: "np_tobytes np xs = u64_bytes (map unat xs)"
    and frombuffer: "off + 8 * n \<le> length data \<Longrightarrow>
      np_frombuffer np data n off = Inr (map of_nat (read_u64s n (drop off data)))"
    and memmap: "off + 8 * n \<le> length data \<Longrightarrow>
      np_memmap np data n off = Inr (map of_nat (read_u64s n (drop off data)))"
    and choice: "0 < k \<Longrightarrow> k < 2 ^ 63 \<Longrightarrow> rep \<or> n \<le> k \<Longrightarrow>
      \<exists>ks. fst (np_choice np rng k n rep) = Inr ks \<and> length ks = n \<and> (\<forall>i \<in> set ks. unat i < k)
        \<and> (rep \<or> distinct ks)"

section \<open>An instance\<close>

definition numpy_lists :: "int option numpy" where
  "numpy_lists = \<lparr>
     np_argsort = (\<lambda>xs. sort_key (\<lambda>i. unat (xs ! i) * length xs + i) [0..<length xs]),
     np_bincount = (\<lambda>xs n. map (\<lambda>v. of_nat (length (filter (\<lambda>x. unat x = v) xs))) [0..<n]),
     np_cumsum = (\<lambda>xs. map (\<lambda>i. sum_list (take (Suc i) xs)) [0..<length xs]),
     np_sum = sum_list,
     np_repeat = (\<lambda>xs ks. if length ks \<noteq> length xs then Inl ValueError
        else Inr (concat (map2 (\<lambda>x k. replicate (unat k) x) xs ks))),
     np_arange = (\<lambda>a b. map of_nat [nat a..<nat b]),
     np_take = (\<lambda>xs ks. if \<forall>i \<in> set ks. unat i < length xs then Inr (map (\<lambda>i. xs ! unat i) ks)
        else Inl IndexError),
     np_flatnonzero = (\<lambda>bs. filter (\<lambda>i. bs ! i) [0..<length bs]),
     np_resize = (\<lambda>xs n. map (\<lambda>i. xs ! (i mod length xs)) [0..<n]),
     np_tobytes = (\<lambda>xs. u64_bytes (map unat xs)),
     np_frombuffer = (\<lambda>data n off. if off + 8 * n \<le> length data
        then Inr (map of_nat (read_u64s n (drop off data))) else Inl ValueError),
     np_memmap = (\<lambda>data n off. if off + 8 * n \<le> length data
        then Inr (map of_nat (read_u64s n (drop off data))) else Inl ValueError),
     np_default_rng = (\<lambda>s. s),
     np_choice = (\<lambda>rng k n rep. (Inr (map of_nat (if rep then replicate n 0 else [0..<n])), rng))\<rparr>"

lemma argsort_lists: "stable_order xs (np_argsort numpy_lists xs)"
proof -
  let ?n = "length xs" and ?key = "\<lambda>i. unat (xs ! i) * length xs + i"
  let ?o = "sort_key ?key [0..<?n]"
  have lex: "xs ! i < xs ! j \<or> xs ! i = xs ! j \<and> i < j"
    if ij: "i < ?n" "j < ?n" "?key i \<le> ?key j" "i \<noteq> j" for i j
  proof (rule linorder_cases [of "xs ! i" "xs ! j"])
    assume "xs ! j < xs ! i"
    then have "Suc (unat (xs ! j)) \<le> unat (xs ! i)" by (simp add: word_less_nat_alt)
    then have "Suc (unat (xs ! j)) * ?n \<le> unat (xs ! i) * ?n" by (rule mult_le_mono1)
    with ij show ?thesis by simp
  qed (use ij in auto)
  have "sorted (map ?key ?o)" "distinct ?o" by simp_all
  then have "sorted_wrt (\<lambda>i j. ?key i \<le> ?key j \<and> i \<noteq> j) ?o"
    by (auto simp: sorted_wrt_iff_nth_less distinct_conv_nth sorted_wrt_map)
  then have "sorted_wrt (\<lambda>i j. xs ! i < xs ! j \<or> xs ! i = xs ! j \<and> i < j) ?o"
    by (rule sorted_wrt_mono_rel [rotated]) (use lex in auto)
  then show ?thesis by (auto simp: stable_order_def numpy_lists_def atLeast0LessThan)
qed

interpretation np_lists: numpy_laws numpy_lists
proof (unfold_locales, goal_cases)
  case (1 xs) show ?case by (rule argsort_lists)
next
  case (13 k rep n rng)
  have "inj_on (of_nat :: nat \<Rightarrow> u64) {0..<n}" if "n \<le> k"
    using 13 that by (auto intro!: inj_onI simp: of_nat_eq_iff take_bit_eq_mod unsigned_of_nat
        word_of_nat_eq_iff)
  with 13 show ?case
    by (auto simp: numpy_lists_def unat_of_nat distinct_map take_bit_eq_mod)
qed (auto simp: numpy_lists_def)

end
