(* ===== verification/Csr.thy ===== *)
theory Csr
  imports Manifest Numpy
begin

text \<open>
  The compressed adjacency of one edge type (\<open>graph/csr_builder.py\<close>, \<open>graph/csc_builder.py\<close>,
  \<open>graph/csr_format.py\<close>, \<open>graph/csr_reader.py\<close>): building it from edge columns, the file
  format, and the vectorised neighbour fan-out with sampling.
\<close>

section \<open>Files\<close>

definition CSR_HEAD_SIZE :: nat where "CSR_HEAD_SIZE = 24"
definition CSR_FOOTER_SIZE :: nat where "CSR_FOOTER_SIZE = 4"
definition CSR_FLAG_HAS_EIDS :: nat where "CSR_FLAG_HAS_EIDS = 1"

record csr_file =
  num_vertices :: nat
  num_edges :: nat
  csr_flags :: nat
  offsets :: "u64 list"
  neighbors :: "u64 list"
  eids :: "u64 list option"

text \<open>The contents of the file, after the checks on the arrays (the element type is static here).\<close>

definition csr_bytes :: "'rng numpy \<Rightarrow> u64 list \<Rightarrow> u64 list \<Rightarrow> u64 list option \<Rightarrow> bytes result" where
  "csr_bytes np offs nbrs es =
     (if \<exists>e \<in> set_option es. length e \<noteq> length nbrs then raise_code ''CDB-7080''
      else if length offs = 0 then raise_code ''CDB-7080''
      else if unat (last offs) \<noteq> length nbrs then raise_code ''CDB-7080''
      else
        let flags = (if es = None then 0 else CSR_FLAG_HAS_EIDS) in
        rbind (pack_header MAGIC FORMAT_VERSION DEFAULT_PAGE_SIZE 0) (\<lambda>header_bytes.
        rbind (pack_u64 (length offs - 1)) (\<lambda>n.
        rbind (pack_u64 (length nbrs)) (\<lambda>m.
        rbind (pack_u32 flags) (\<lambda>f.
        rbind (pack_u32 0) (\<lambda>reserved.
        let body = n @ m @ f @ reserved @ np_tobytes np offs @ np_tobytes np nbrs
              @ (case es of None \<Rightarrow> [] | Some e \<Rightarrow> np_tobytes np e)
        in rbind (pack_u32 (crc32 body)) (\<lambda>crc. Inr (header_bytes @ body @ crc))))))))"

definition write_csr ::
  "'rng numpy \<Rightarrow> fs \<Rightarrow> path \<Rightarrow> u64 list \<Rightarrow> u64 list \<Rightarrow> u64 list option \<Rightarrow> path result \<times> fs" where
  "write_csr np fs target offs nbrs es =
     (case mkdirs fs [] (butlast target) of
        Inl e \<Rightarrow> (Inl e, fs)
      | Inr fs1 \<Rightarrow>
          (case csr_bytes np offs nbrs es of
             Inl e \<Rightarrow> (Inl e, fs1)
           | Inr data \<Rightarrow>
               (case write_file_atomic (BinFile data) fs1 target of
                  (Inl e, fs2) \<Rightarrow> (Inl e, fs2)
                | (Inr u, fs2) \<Rightarrow> (Inr target, fs2))))"

definition csr_from_bytes :: "'rng numpy \<Rightarrow> bool \<Rightarrow> bytes \<Rightarrow> csr_file result" where
  "csr_from_bytes np mmap data =
     (if length data < HEADER_SIZE + CSR_HEAD_SIZE + CSR_FOOTER_SIZE then raise_code ''CDB-7081''
      else if take (length MAGIC) data \<noteq> MAGIC then raise_code ''CDB-7081''
      else
        let head_bytes = py_slice HEADER_SIZE (HEADER_SIZE + CSR_HEAD_SIZE) data;
            n = le_val (py_slice 0 8 head_bytes);
            m = le_val (py_slice 8 16 head_bytes);
            flags = le_val (py_slice 16 20 head_bytes);
            body_end = length data - CSR_FOOTER_SIZE;
            body = py_slice HEADER_SIZE body_end data;
            expected_crc = le_val (drop body_end data)
        in
        if crc32 body \<noteq> expected_crc then raise_code ''CDB-7081''
        else
          let offsets_off = HEADER_SIZE + CSR_HEAD_SIZE;
              neighbors_off = offsets_off + (n + 1) * 8;
              eids_off = neighbors_off + m * 8;
              array = (if mmap then np_memmap np data else np_frombuffer np data)
          in
          rbind (array (n + 1) offsets_off) (\<lambda>offs.
          rbind (array m neighbors_off) (\<lambda>nbrs.
          rbind (if flags AND CSR_FLAG_HAS_EIDS \<noteq> 0
                 then rbind (array m eids_off) (\<lambda>e. Inr (Some e)) else Inr None) (\<lambda>es.
          Inr \<lparr>num_vertices = n, num_edges = m, csr_flags = flags, offsets = offs,
               neighbors = nbrs, eids = es\<rparr>))))"

definition read_csr :: "'rng numpy \<Rightarrow> fs \<Rightarrow> path \<Rightarrow> bool \<Rightarrow> csr_file result" where
  "read_csr np fs target mmap =
     (case fs target of
        Some (BinFile data) \<Rightarrow> csr_from_bytes np mmap data
      | Some Dir \<Rightarrow> Inl OSError
      | None \<Rightarrow> Inl OSError
      | Some _ \<Rightarrow> raise_code ''CDB-7081'')"

section \<open>Building\<close>

definition build_csr_arrays ::
  "'rng numpy \<Rightarrow> u64 list \<Rightarrow> u64 list \<Rightarrow> u64 list option \<Rightarrow> int
    \<Rightarrow> (u64 list \<times> u64 list \<times> u64 list option) result" where
  "build_csr_arrays np src dst es n =
     (if length src \<noteq> length dst then raise_code ''CDB-7082''
      else if \<exists>e \<in> set_option es. length e \<noteq> length src then raise_code ''CDB-7082''
      else if n < 0 then raise_code ''CDB-7082''
      else if src \<noteq> [] \<and> int (Max (set (map unat src))) \<ge> n then raise_code ''CDB-7082''
      else
        let order = map of_nat (np_argsort np src) in
        rbind (np_take np src order) (\<lambda>src_s.
        rbind (np_take np dst order) (\<lambda>dst_s.
        rbind (case es of None \<Rightarrow> Inr None | Some e \<Rightarrow> rbind (np_take np e order) (\<lambda>x. Inr (Some x))) (\<lambda>eids_s.
        let sums = np_cumsum np (np_bincount np src_s (nat n)) in
        if length sums \<noteq> nat n then Inl ValueError
        else Inr (0 # sums, dst_s, eids_s)))))"

text \<open>The columns of an edge table; \<open>to_table\<close> of an edge store gives one with all three.\<close>

record edge_table =
  src_column :: "u64 list"
  dst_column :: "u64 list"
  eid_column :: "u64 list option"

abbreviation num_rows :: "edge_table \<Rightarrow> nat" where
  "num_rows t \<equiv> length (src_column t)"

record csr_build_result =
  built_path :: path
  built_num_vertices :: int
  built_num_edges :: nat
  has_eids :: bool

definition build_csr ::
  "'rng numpy \<Rightarrow> fs \<Rightarrow> edge_table \<Rightarrow> int \<Rightarrow> path \<Rightarrow> bool \<Rightarrow> csr_build_result result \<times> fs" where
  "build_csr np fs table n out_path with_eids =
     (if num_rows table = 0 \<and> n = 0 then
        (case write_csr np fs out_path [0] [] None of
           (Inl e, fs') \<Rightarrow> (Inl e, fs')
         | (Inr p, fs') \<Rightarrow> (Inr \<lparr>built_path = out_path, built_num_vertices = 0, built_num_edges = 0, has_eids = False\<rparr>, fs'))
      else
        let es = (if with_eids then eid_column table else None) in
        (case build_csr_arrays np (src_column table) (dst_column table) es n of
           Inl e \<Rightarrow> (Inl e, fs)
         | Inr (offs, nbrs, eid_arr) \<Rightarrow>
             (case write_csr np fs out_path offs nbrs eid_arr of
                (Inl e, fs') \<Rightarrow> (Inl e, fs')
              | (Inr p, fs') \<Rightarrow> (Inr \<lparr>built_path = p, built_num_vertices = n,
                   built_num_edges = length nbrs, has_eids = (eid_arr \<noteq> None)\<rparr>, fs'))))"

definition swap_columns :: "edge_table \<Rightarrow> edge_table" where
  "swap_columns table = table\<lparr>src_column := dst_column table, dst_column := src_column table\<rparr>"

definition build_csc ::
  "'rng numpy \<Rightarrow> fs \<Rightarrow> edge_table \<Rightarrow> int \<Rightarrow> path \<Rightarrow> bool \<Rightarrow> csr_build_result result \<times> fs" where
  "build_csc np fs table n out_path with_eids =
     (if num_rows table = 0 then build_csr np fs table n out_path False
      else build_csr np fs (swap_columns table) n out_path with_eids)"

section \<open>Reading\<close>

definition neighbors_of :: "csr_file \<Rightarrow> int \<Rightarrow> u64 list result" where
  "neighbors_of g vid =
     (if vid < 0 \<or> vid \<ge> int (num_vertices g) then raise_code ''CDB-7083''
      else
        let s = unat (offsets g ! nat vid); e = unat (offsets g ! (nat vid + 1))
        in Inr (py_slice s e (neighbors g)))"

text \<open>Row counts: of every vertex, or of the given ones.\<close>

definition degrees :: "'rng numpy \<Rightarrow> csr_file \<Rightarrow> u64 list option \<Rightarrow> u64 list result" where
  "degrees np g vids =
     (case vids of
        None \<Rightarrow> Inr (map2 (-) (tl (offsets g)) (butlast (offsets g)))
      | Some v \<Rightarrow>
          rbind (np_take np (offsets g) (map (\<lambda>x. x + 1) v)) (\<lambda>ends.
          rbind (np_take np (offsets g) v) (\<lambda>starts. Inr (map2 (-) ends starts))))"

datatype strategy = Uniform | First | All | OtherStrategy string

text \<open>A seed is a number for a fresh generator, or a generator, whose state a call advances.\<close>

datatype 'rng seed = Seed "int option" | Generator 'rng

definition rng_of_seed :: "'rng numpy \<Rightarrow> 'rng seed \<Rightarrow> 'rng" where
  "rng_of_seed np s = (case s of Generator g \<Rightarrow> g | Seed i \<Rightarrow> np_default_rng np i)"

text \<open>The indices kept of the segment from \<open>start\<close> to \<open>end\<close>.\<close>

definition choose_segment ::
  "'rng numpy \<Rightarrow> nat \<Rightarrow> bool \<Rightarrow> strategy \<Rightarrow> nat \<times> nat \<Rightarrow> 'rng \<Rightarrow> (u64 list \<times> 'rng) result" where
  "choose_segment np fanout rep strat se rng =
     (let start = fst se; stop = snd se; sz = stop - start in
      if sz \<le> fanout \<and> \<not> rep then Inr (np_arange np (int start) (int stop), rng)
      else if strat = First then
        (if rep \<and> sz < fanout then
           let base = np_arange np (int start) (int stop)
           in Inr (base @ np_resize np base (fanout - sz), rng)
         else Inr (np_arange np (int start) (int (start + fanout)), rng))
      else
        (case np_choice np rng sz fanout rep of
           (Inl e, _) \<Rightarrow> Inl e
         | (Inr os, rng') \<Rightarrow> Inr (map (\<lambda>k. of_nat start + k) os, rng')))"

text \<open>Row selection with an index array, for the source, target and edge columns.\<close>

definition take_rows ::
  "'rng numpy \<Rightarrow> u64 list \<Rightarrow> u64 list \<Rightarrow> u64 list option \<Rightarrow> u64 list
    \<Rightarrow> (u64 list \<times> u64 list \<times> u64 list option) result" where
  "take_rows np src_rep dst eid idx =
     rbind (case eid of None \<Rightarrow> Inr None | Some e \<Rightarrow> rbind (np_take np e idx) (\<lambda>x. Inr (Some x))) (\<lambda>sampled_eid.
     rbind (np_take np src_rep idx) (\<lambda>s. rbind (np_take np dst idx) (\<lambda>d. Inr (s, d, sampled_eid))))"

definition sample_segments ::
  "'rng numpy \<Rightarrow> u64 list \<Rightarrow> u64 list \<Rightarrow> u64 list option \<Rightarrow> nat \<Rightarrow> bool \<Rightarrow> 'rng seed \<Rightarrow> strategy
    \<Rightarrow> ((u64 list \<times> u64 list \<times> u64 list option) \<times> 'rng seed) result" where
  "sample_segments np src_rep dst eid fanout rep sd strat =
     (if src_rep = [] then Inr ((src_rep, dst, eid), sd)
      else
        let change = True # map2 (\<noteq>) (tl src_rep) (butlast src_rep);
            seg_start = np_flatnonzero np change;
            seg_end = tl seg_start @ [length src_rep]
        in
        rbind (rtraverse (choose_segment np fanout rep strat) (zip seg_start seg_end) (rng_of_seed np sd))
          (\<lambda>(keep_idx, rng).
        rbind (take_rows np src_rep dst eid (concat keep_idx)) (\<lambda>rows.
        Inr (rows, case sd of Seed i \<Rightarrow> Seed i | Generator _ \<Rightarrow> Generator rng))))"

text \<open>The rows before sampling: sources repeated by degree, and the flat index of their targets.\<close>

definition fan_out_index ::
  "'rng numpy \<Rightarrow> u64 list \<Rightarrow> u64 list \<Rightarrow> int \<Rightarrow> u64 list result" where
  "fan_out_index np starts lens tot =
     rbind (np_repeat np (0 # np_cumsum np (butlast lens)) lens) (\<lambda>cum_minus.
     rbind (np_repeat np starts lens) (\<lambda>rep_starts.
     Inr (map2 (+) rep_starts (map2 (-) (np_arange np 0 tot) cum_minus))))"

definition batch_neighbors ::
  "'rng numpy \<Rightarrow> csr_file \<Rightarrow> u64 list \<Rightarrow> bool \<Rightarrow> int option \<Rightarrow> bool \<Rightarrow> 'rng seed \<Rightarrow> strategy
    \<Rightarrow> ((u64 list \<times> u64 list \<times> u64 list option) \<times> 'rng seed) result" where
  "batch_neighbors np g vids return_eids fanout rep sd strat =
     (if strat \<notin> {Uniform, First, All} then raise_code ''CDB-7083''
      else if \<exists>f \<in> set_option fanout. f < 0 then raise_code ''CDB-7083''
      else if vids = [] then Inr (([], [], if return_eids then Some [] else None), sd)
      else if list_ex (\<lambda>x. sint x < 0 \<or> sint x \<ge> int (num_vertices g)) vids then raise_code ''CDB-7083''
      else
        rbind (np_take np (offsets g) vids) (\<lambda>starts.
        rbind (np_take np (offsets g) (map (\<lambda>x. x + 1) vids)) (\<lambda>ends.
        let lens = map2 (-) ends starts; tot = sint (np_sum np lens) in
        if tot = 0 then
          rbind (np_repeat np vids lens) (\<lambda>src_rep.
          Inr ((src_rep, [], if return_eids then Some [] else None), sd))
        else
          rbind (fan_out_index np starts lens tot) (\<lambda>idx.
          rbind (np_take np (neighbors g) idx) (\<lambda>dst.
          rbind (np_repeat np vids lens) (\<lambda>src_rep.
          rbind (if return_eids then
                   (case eids g of None \<Rightarrow> raise_code ''CDB-7083''
                    | Some es \<Rightarrow> rbind (np_take np es idx) (\<lambda>x. Inr (Some x)))
                 else Inr None) (\<lambda>eid.
          let effective_fanout = (if fanout = Some 0 \<or> strat = All then None else fanout) in
          (case effective_fanout of
             None \<Rightarrow> Inr ((src_rep, dst, eid), sd)
           | Some f \<Rightarrow>
               if \<not> rep \<and> list_all (\<lambda>l. sint l \<le> f) lens then Inr ((src_rep, dst, eid), sd)
               else sample_segments np src_rep dst eid (nat f) rep sd strat))))))))"

end
