(* ===== verification/Csr_Theorems.thy ===== *)
theory Csr_Theorems
  imports Csr
begin

text \<open>
  What the adjacency files promise: a file reads back as it was written, and the neighbours of a
  vertex are the targets of its edges in the order of the edge table.
\<close>

section \<open>Round trip\<close>

lemma map_of_nat_unat [simp]: "map (of_nat \<circ> unat) xs = (xs :: u64 list)"
  by (induction xs) auto

lemma read_tobytes: "n = length xs \<Longrightarrow> map of_nat (read_u64s n (u64_bytes (map unat xs) @ r)) = (xs :: u64 list)"
proof -
  assume n: "n = length xs"
  have "\<forall>x \<in> set (map unat xs). x < 256 ^ 8"
    using unsigned_less [where ?'a = nat and 'b = 64] by auto
  with n show ?thesis by (subst read_u64s_bytes) auto
qed

lemma length_unat_bytes [simp]: "length (u64_bytes (map unat xs)) = 8 * length xs"
  by simp


definition csr_body :: "u64 list \<Rightarrow> u64 list \<Rightarrow> u64 list option \<Rightarrow> bytes" where
  "csr_body offs nbrs es = le_bytes 8 (length offs - 1) @ le_bytes 8 (length nbrs)
     @ le_bytes 4 (if es = None then 0 else CSR_FLAG_HAS_EIDS) @ le_bytes 4 0
     @ u64_bytes (map unat offs) @ u64_bytes (map unat nbrs)
     @ (case es of None \<Rightarrow> [] | Some e \<Rightarrow> u64_bytes (map unat e))"

context numpy_laws
begin

lemma csr_bytes_eq:
  assumes "offs \<noteq> []" "unat (last offs) = length nbrs" "\<forall>e \<in> set_option es. length e = length nbrs"
    "length offs \<le> 2 ^ 64" "length nbrs < 2 ^ 64"
  shows "csr_bytes np offs nbrs es
    = Inr (file_header @ csr_body offs nbrs es @ le_bytes 4 (crc32 (csr_body offs nbrs es)))"
proof -
  have "struct_pack 8 (length offs - 1) = Inr (le_bytes 8 (length offs - 1))"
    "struct_pack 8 (length nbrs) = Inr (le_bytes 8 (length nbrs))"
    "struct_pack 4 (if es = None then 0 else CSR_FLAG_HAS_EIDS)
       = Inr (le_bytes 4 (if es = None then 0 else CSR_FLAG_HAS_EIDS))"
    "struct_pack 4 0 = Inr (le_bytes 4 0)" "struct_pack 4 (crc32 b) = Inr (le_bytes 4 (crc32 b))" for b
    using assms by (simp_all add: CSR_FLAG_HAS_EIDS_def)
  with assms(1-3) show ?thesis
    by (cases es) (simp_all add: csr_bytes_def Let_def pack_header_default csr_body_def tobytes del: struct_pack_Inr)
qed

lemma csr_bytes_Inr:
  assumes "csr_bytes np offs nbrs es = Inr data" "length offs \<le> 2 ^ 64" "length nbrs < 2 ^ 64"
  shows "csr_from_bytes np mmap data = Inr \<lparr>num_vertices = length offs - 1, num_edges = length nbrs,
    csr_flags = (if es = None then 0 else CSR_FLAG_HAS_EIDS), offsets = offs, neighbors = nbrs, eids = es\<rparr>"
proof -
  let ?flags = "if es = None then 0 else CSR_FLAG_HAS_EIDS"
  let ?e = "case es of None \<Rightarrow> [] | Some e \<Rightarrow> u64_bytes (map unat e)"
  let ?head = "le_bytes 8 (length offs - 1) @ le_bytes 8 (length nbrs) @ le_bytes 4 ?flags @ le_bytes 4 0"
  have es: "\<forall>e \<in> set_option es. length e = length nbrs"
    using assms(1) unfolding csr_bytes_def by (rule contrapos_pp) simp
  have ne: "offs \<noteq> []"
    using assms(1) unfolding csr_bytes_def by (rule contrapos_pp) simp
  have last: "unat (last offs) = length nbrs"
    using assms(1) unfolding csr_bytes_def by (rule contrapos_pp) simp
  define B where "B = csr_body offs nbrs es"
  have data: "data = file_header @ B @ le_bytes 4 (crc32 B)"
    using csr_bytes_eq [OF ne last es assms(2,3)] assms(1) by (simp add: B_def)
  have B: "B = ?head @ u64_bytes (map unat offs) @ u64_bytes (map unat nbrs) @ ?e"
    by (simp add: B_def csr_body_def)
  have len: "length B = 24 + 8 * length offs + 8 * length nbrs + (if es = None then 0 else 8 * length nbrs)"
    by (cases es) (use es in \<open>simp_all add: B\<close>)
  have ld: "length data = 28 + length B" by (simp add: data HEADER_SIZE_def)
  have body: "py_slice HEADER_SIZE (length data - CSR_FOOTER_SIZE) data = B"
    and foot: "drop (length data - CSR_FOOTER_SIZE) data = le_bytes 4 (crc32 B)"
    by (simp_all add: data py_slice_def CSR_FOOTER_SIZE_def)
  have magic: "take (length MAGIC) data = MAGIC"
    by (simp add: data HEADER_SIZE_def)
  have head: "py_slice HEADER_SIZE (HEADER_SIZE + CSR_HEAD_SIZE) data = ?head"
    by (simp add: data B py_slice_def CSR_HEAD_SIZE_def HEADER_SIZE_def)
  have fields: "le_val (py_slice 0 8 ?head) = length offs - 1" "le_val (py_slice 8 16 ?head) = length nbrs"
    "le_val (py_slice 16 20 ?head) = ?flags"
    using assms(2,3) by (simp_all add: py_slice_def le_val_le_bytes CSR_FLAG_HAS_EIDS_def)
  have off1: "drop 48 data = u64_bytes (map unat offs) @ u64_bytes (map unat nbrs)
      @ (case es of None \<Rightarrow> [] | Some e \<Rightarrow> u64_bytes (map unat e)) @ le_bytes 4 (crc32 B)"
    by (simp add: data B HEADER_SIZE_def)
  have off2: "drop (48 + 8 * length offs) data = u64_bytes (map unat nbrs)
      @ (case es of None \<Rightarrow> [] | Some e \<Rightarrow> u64_bytes (map unat e)) @ le_bytes 4 (crc32 B)"
    by (simp add: data B HEADER_SIZE_def)
  have off3: "es = Some e \<Longrightarrow> drop (48 + 8 * length offs + 8 * length nbrs) data = u64_bytes (map unat e) @ le_bytes 4 (crc32 B)" for e
    by (simp add: data B HEADER_SIZE_def)
  have array: "(if mmap then np_memmap np data else np_frombuffer np data) n off
      = Inr (map of_nat (read_u64s n (drop off data)))" if "off + 8 * n \<le> length data" for n off
    using that by (simp add: memmap frombuffer)
  have a1: "(if mmap then np_memmap np data else np_frombuffer np data) (length offs - 1 + 1) 48 = Inr offs"
    using ne by (subst array) (simp_all add: ld len off1 read_tobytes Suc_le_eq)
  have a2: "(if mmap then np_memmap np data else np_frombuffer np data) (length nbrs) (48 + 8 * length offs) = Inr nbrs"
    by (subst array) (simp_all add: ld len off2 read_tobytes)
  have a3: "es = Some e \<Longrightarrow> (if mmap then np_memmap np data else np_frombuffer np data) (length nbrs)
      (48 + 8 * length offs + 8 * length nbrs) = Inr e" for e
    using es by (subst array) (simp_all add: ld len off3 read_tobytes)
  have big: "\<not> length data < HEADER_SIZE + CSR_HEAD_SIZE + CSR_FOOTER_SIZE"
    by (simp add: ld len HEADER_SIZE_def CSR_HEAD_SIZE_def CSR_FOOTER_SIZE_def)
  have offs: "HEADER_SIZE + CSR_HEAD_SIZE = 48" "(length offs - 1 + 1) * 8 = 8 * length offs"
    "length nbrs * 8 = 8 * length nbrs"
    using ne by (simp_all add: HEADER_SIZE_def CSR_HEAD_SIZE_def Suc_le_eq)
  show ?thesis
    unfolding csr_from_bytes_def Let_def if_not_P [OF big] magic body foot head fields
    by (cases es) (simp_all only: crc32_round_trip offs a1 a2 a3 rbind_simps if_False simp_thms
        option.simps if_True CSR_FLAG_HAS_EIDS_def and.idem zero_and_eq zero_neq_one refl one_neq_zero)
qed

end

section \<open>Grouping edges by source\<close>

text \<open>The positions of the edges that leave a vertex, in table order.\<close>

definition rows_of :: "u64 list \<Rightarrow> nat \<Rightarrow> nat list" where
  "rows_of src v = filter (\<lambda>i. unat (src ! i) = v) [0..<length src]"

lemma sorted_wrt_unique:
  assumes "sorted_wrt P xs" "sorted_wrt P ys" "set xs = set ys" "\<And>x y. P x y \<Longrightarrow> \<not> P y x"
  shows "xs = ys"
  using assms(1-3)
proof (induction xs arbitrary: ys)
  case (Cons x xs)
  then obtain y ys' where ys: "ys = y # ys'" by (cases ys) auto
  have "x = y" using Cons.prems assms(4) unfolding ys by (metis insert_iff list.set(2) sorted_wrt.simps(2))
  moreover have "x \<notin> set xs" "y \<notin> set ys'"
    using Cons.prems(1,2) assms(4) unfolding ys by (metis sorted_wrt.simps(2))+
  ultimately have "set xs = set ys'" using Cons.prems(3) unfolding ys by auto
  with Cons ys \<open>x = y\<close> show ?case by simp
qed simp

lemma sorted_groups:
  "sorted_wrt (\<lambda>i j. src ! i < src ! j \<or> src ! i = src ! j \<and> i < j) (concat (map (rows_of src) [0..<n]))"
proof (induction n)
  case (Suc n)
  have "sorted_wrt (<) (rows_of src n)" by (simp add: rows_of_def sorted_wrt_filter)
  then have "sorted_wrt (\<lambda>i j. src ! i < src ! j \<or> src ! i = src ! j \<and> i < j) (rows_of src n)"
    by (rule sorted_wrt_mono_rel [rotated]) (auto simp: rows_of_def word_unat_eq_iff)
  moreover have "src ! i < src ! j"
    if "i \<in> set (rows_of src v)" "v < n" "j \<in> set (rows_of src n)" for i j v
    using that by (simp add: rows_of_def word_less_nat_alt)
  ultimately show ?case using Suc by (auto simp: sorted_wrt_append)
qed simp

lemma stable_order_groups:
  assumes "stable_order src ns" "\<forall>x \<in> set src. unat x < n"
  shows "ns = concat (map (rows_of src) [0..<n])"
proof (rule sorted_wrt_unique [OF _ sorted_groups])
  show "sorted_wrt (\<lambda>i j. src ! i < src ! j \<or> src ! i = src ! j \<and> i < j) ns"
    using assms(1) by (simp add: stable_order_def)
  show "set ns = set (concat (map (rows_of src) [0..<n]))"
    using assms by (auto simp: stable_order_def rows_of_def)
qed auto

lemma length_rows_of: "length (filter (\<lambda>x. unat x = v) src) = length (rows_of src v)"
proof -
  have "filter (\<lambda>x. unat x = v) src = filter (\<lambda>x. unat x = v) (map (nth src) [0..<length src])"
    by (simp add: map_nth)
  also have "\<dots> = map (nth src) (rows_of src v)" by (simp add: filter_map rows_of_def comp_def)
  finally show ?thesis by simp
qed

lemma sum_list_prefix: "sum_list (map (\<lambda>x. of_nat (length x)) xss) = of_nat (length (concat xss))"
  by (induction xss) auto

lemma filter_groups:
  "v < n \<Longrightarrow> filter (\<lambda>i. unat (src ! i) = v) (concat (map (rows_of src) [0..<n])) = rows_of src v"
proof (induction n)
  case (Suc n)
  have same: "filter (\<lambda>i. unat (src ! i) = v) (rows_of src v) = rows_of src v"
    and other: "u \<noteq> v \<Longrightarrow> filter (\<lambda>i. unat (src ! i) = v) (rows_of src u) = []" for u
    by (auto simp: rows_of_def filter_empty_conv)
  show ?case
  proof (cases "v = n")
    case True
    then have "filter (\<lambda>i. unat (src ! i) = v) (concat (map (rows_of src) [0..<n])) = []"
      by (auto simp: rows_of_def filter_empty_conv)
    with True same show ?thesis by simp
  next
    case False
    with Suc other [of n] show ?thesis by simp
  qed
qed simp

lemma length_groups:
  assumes "\<forall>x \<in> set src. unat x < n"
  shows "length (concat (map (rows_of src) [0..<n])) = length src"
proof -
  let ?ns = "concat (map (rows_of src) [0..<n])"
  have "distinct xs" if "sorted_wrt (\<lambda>i j. src ! i < src ! j \<or> src ! i = src ! j \<and> i < j) xs" for xs
    using that by (induction xs) auto
  then have "distinct ?ns" using sorted_groups by blast
  moreover have "set ?ns = {..<length src}" using assms by (auto simp: rows_of_def)
  ultimately show ?thesis using distinct_card [of ?ns] by simp
qed

section \<open>Building and reading\<close>

text \<open>
  The adjacency that a file stands for: offsets that start at zero, never decrease and end at
  the number of edges.
\<close>

definition csr_wf :: "csr_file \<Rightarrow> bool" where
  "csr_wf g \<longleftrightarrow> length (offsets g) = num_vertices g + 1 \<and> sorted (map unat (offsets g))
     \<and> unat (hd (offsets g)) = 0 \<and> unat (last (offsets g)) = length (neighbors g)
     \<and> num_vertices g + 1 < 2 ^ 63 \<and> length (neighbors g) < 2 ^ 63
     \<and> (\<forall>e \<in> set_option (eids g). length e = length (neighbors g))"

definition csr_start :: "csr_file \<Rightarrow> nat \<Rightarrow> nat" where
  "csr_start g v = unat (offsets g ! v)"

abbreviation segment_of :: "csr_file \<Rightarrow> 'a list \<Rightarrow> nat \<Rightarrow> 'a list" where
  "segment_of g xs v \<equiv> py_slice (csr_start g v) (csr_start g (v + 1)) xs"

context numpy_laws
begin

lemma build_csr_arrays_groups:
  assumes len: "length dst = length src" "\<forall>e \<in> set_option es. length e = length src"
    and src: "\<forall>x \<in> set src. unat x < n" and small: "length src < 2 ^ 63"
  shows "\<exists>offs. build_csr_arrays np src dst es (int n)
      = Inr (offs, map (nth dst) (concat (map (rows_of src) [0..<n])),
          map_option (\<lambda>e. map (nth e) (concat (map (rows_of src) [0..<n]))) es)
    \<and> length offs = n + 1
    \<and> (\<forall>v \<le> n. unat (offs ! v) = length (concat (map (rows_of src) [0..<v])))"
proof -
  let ?ns = "concat (map (rows_of src) [0..<n])"
  have order: "np_argsort np src = ?ns" by (rule stable_order_groups [OF argsort src])
  have range: "\<forall>i \<in> set (map of_nat ?ns :: u64 list). unat i < length src"
    using small by (auto simp: rows_of_def unat_of_nat take_bit_eq_mod)
  have take: "np_take np xs (map of_nat ?ns) = Inr (map (nth xs) ?ns)" if "length xs = length src" for xs
    using range small that by (subst take_in) (auto simp: unat_of_nat rows_of_def take_bit_eq_mod)
  have Max: "\<not> (src \<noteq> [] \<and> int (Max (set (map unat src))) \<ge> int n)"
    using src by (cases "src = []") (simp_all add: not_le)
  let ?cnt = "map (\<lambda>v. of_nat (length (rows_of src v))) [0..<n] :: u64 list"
  have counts: "np_bincount np (map (nth src) ?ns) n = ?cnt"
  proof (subst bincount)
    show "\<forall>x \<in> set (map (nth src) ?ns). unat x < n" using src by (auto simp: rows_of_def)
    show "map (\<lambda>v. of_nat (length (filter (\<lambda>x. unat x = v) (map (nth src) ?ns)))) [0..<n] = ?cnt"
      by (auto simp: filter_map comp_def filter_groups simp del: filter_concat)
  qed
  let ?sums = "map (\<lambda>i. of_nat (length (concat (map (rows_of src) [0..<Suc i])))) [0..<n] :: u64 list"
  have sums: "np_cumsum np ?cnt = ?sums"
  proof (subst cumsum, rule nth_equalityI)
    fix i assume "i < length (map (\<lambda>i. sum_list (take (Suc i) ?cnt)) [0..<length ?cnt])"
    then have "i < n" by simp
    then have "take (Suc i) ?cnt = map (\<lambda>x. of_nat (length x)) (map (rows_of src) [0..<Suc i])"
      by (simp add: take_map take_upt comp_def del: upt_Suc)
    then have "sum_list (take (Suc i) ?cnt) = of_nat (length (concat (map (rows_of src) [0..<Suc i])))"
      by (simp only: sum_list_prefix)
    with \<open>i < n\<close> show "map (\<lambda>i. sum_list (take (Suc i) ?cnt)) [0..<length ?cnt] ! i = ?sums ! i"
      by (simp del: upt_Suc)
  qed simp
  have off: "unat ((0 # ?sums) ! v) = length (concat (map (rows_of src) [0..<v]))" if v: "v \<le> n" for v
  proof (cases v)
    case (Suc i)
    have "[0..<n] = [0..<v] @ [v..<n]" using v by (metis le_add_diff_inverse upt_add_eq_append zero_le)
    then have "length (concat (map (rows_of src) [0..<v])) \<le> length src"
      using length_groups [OF src] by simp
    with small have "length (concat (map (rows_of src) [0..<v])) < 2 ^ 64" by simp
    then have "unat (of_nat (length (concat (map (rows_of src) [0..<Suc i]))) :: u64)
        = length (concat (map (rows_of src) [0..<Suc i]))"
      unfolding Suc by (simp add: unat_of_nat take_bit_eq_mod del: upt_Suc of_nat_add)
    with Suc v show ?thesis by (simp del: upt_Suc)
  qed simp
  have "build_csr_arrays np src dst es (int n)
      = Inr (0 # ?sums, map (nth dst) ?ns, map_option (\<lambda>e. map (nth e) ?ns) es)"
    unfolding build_csr_arrays_def Let_def order if_not_P [OF Max]
    using len by (cases es) (simp_all add: take counts sums)
  with off show ?thesis by (intro exI [of _ "0 # ?sums"]) simp
qed

lemma write_csr_read:
  assumes bytes: "csr_bytes np offs nbrs es = Inr data" and w: "writable fs p"
    and "length offs \<le> 2 ^ 64" "length nbrs < 2 ^ 64"
  shows "\<exists>fs'. write_csr np fs p offs nbrs es = (Inr p, fs')
    \<and> read_csr np fs' p mmap = Inr \<lparr>num_vertices = length offs - 1, num_edges = length nbrs,
        csr_flags = (if es = None then 0 else CSR_FLAG_HAS_EIDS), offsets = offs, neighbors = nbrs, eids = es\<rparr>"
proof -
  from w obtain fs1 where fs1: "mkdirs fs [] (butlast p) = Inr fs1" and p: "p \<noteq> []" by (auto simp: writable_def)
  with w have "writable fs1 p" by (auto simp: writable_def mkdirs_parent dest: mkdirs_idem)
  then obtain fs2 where fs2: "write_file_atomic (BinFile data) fs1 p = (Inr (), fs2)"
    using writable_write by blast
  then have "fs2 p = Some (BinFile data)" using p by (rule write_file_atomic_read)
  with fs1 fs2 bytes csr_bytes_Inr [OF bytes assms(3,4)] show ?thesis
    by (simp add: write_csr_def read_csr_def)
qed

end

text \<open>The row of a vertex in an edge list.\<close>

definition row_targets :: "u64 list \<Rightarrow> u64 list \<Rightarrow> nat \<Rightarrow> u64 list" where
  "row_targets src dst v = map snd (filter (\<lambda>(s, d). unat s = v) (zip src dst))"

lemma row_targets_rows: "length dst = length src \<Longrightarrow> map (nth dst) (rows_of src v) = row_targets src dst v"
proof -
  assume len: "length dst = length src"
  have "zip src dst = map (\<lambda>i. (src ! i, dst ! i)) [0..<length src]"
    using len by (intro nth_equalityI) auto
  then show ?thesis by (simp add: row_targets_def rows_of_def filter_map comp_def)
qed

text \<open>A file of grouped rows.\<close>

definition csr_of :: "csr_file \<Rightarrow> nat \<Rightarrow> u64 list \<Rightarrow> u64 list \<Rightarrow> bool" where
  "csr_of g n src dst \<longleftrightarrow> csr_wf g \<and> num_vertices g = n
     \<and> (\<forall>v < n. segment_of g (neighbors g) v = row_targets src dst v)"

lemma csr_of_groups:
  assumes offs: "length offs = n + 1" "\<forall>v \<le> n. unat (offs ! v) = length (concat (map (rows_of src) [0..<v]))"
    and src: "\<forall>x \<in> set src. unat x < n" "length dst = length src" "\<forall>e \<in> set_option es. length e = length src"
    and small: "n + 1 < 2 ^ 63" "length src < 2 ^ 63"
    and g: "num_vertices g = n" "offsets g = offs"
      "neighbors g = map (nth dst) (concat (map (rows_of src) [0..<n]))"
      "eids g = map_option (\<lambda>e. map (nth e) (concat (map (rows_of src) [0..<n]))) es"
  shows "csr_of g n src dst"
proof -
  let ?gr = "map (rows_of src) [0..<n]"
  have pre: "concat (map (rows_of src) [0..<v]) = concat (take v ?gr)" if "v \<le> n" for v
    using that by (simp add: take_map take_upt)
  have len: "length (neighbors g) = length src"
    using length_groups [OF src(1)] by (simp add: g)
  have hd: "unat (hd offs) = 0" using offs by (cases offs) auto
  have last: "unat (last offs) = length (neighbors g)"
  proof -
    have "last offs = offs ! n" using offs(1) by (cases offs) (auto simp: last_conv_nth)
    with offs(2) len length_groups [OF src(1)] show ?thesis by simp
  qed
  have mono: "sorted (map unat offs)"
  proof (rule sorted_iff_nth_mono_less [THEN iffD2], intro allI impI)
    fix i j assume "i < j" "j < length (map unat offs)"
    then have "i \<le> j" "j \<le> n" using offs(1) by auto
    then have "[0..<j] = [0..<i] @ [i..<j]" by (metis le_add_diff_inverse upt_add_eq_append zero_le)
    with \<open>j \<le> n\<close> \<open>i \<le> j\<close> offs show "map unat offs ! i \<le> map unat offs ! j" by simp
  qed
  have seg: "segment_of g (neighbors g) v = row_targets src dst v" if v: "v < n" for v
  proof -
    have "segment_of g (neighbors g) v = map (nth dst) (py_slice (length (concat (take v ?gr)))
        (length (concat (take (Suc v) ?gr))) (concat ?gr))"
      using v offs pre [of v] pre [of "Suc v"] by (simp add: csr_start_def g py_slice_def take_map drop_map)
    also have "\<dots> = map (nth dst) (rows_of src v)"
      using v slice_concat [of v ?gr] by simp
    finally show ?thesis using row_targets_rows [OF src(2)] by simp
  qed
  from offs(1) mono hd last len small src(3) seg show ?thesis
    by (auto simp: csr_of_def csr_wf_def g)
qed

definition table_ok :: "edge_table \<Rightarrow> nat \<Rightarrow> bool" where
  "table_ok t n \<longleftrightarrow> length (dst_column t) = num_rows t
     \<and> (\<forall>e \<in> set_option (eid_column t). length e = num_rows t)
     \<and> (\<forall>x \<in> set (src_column t). unat x < n) \<and> n + 1 < 2 ^ 63 \<and> num_rows t < 2 ^ 63"

context numpy_laws
begin

lemma build_csr_read:
  assumes "table_ok t n" "writable fs p"
  shows "\<exists>r fs' g. build_csr np fs t (int n) p with_eids = (Inr r, fs') \<and> read_csr np fs' p mmap = Inr g
    \<and> csr_of g n (src_column t) (dst_column t)"
proof -
  let ?src = "src_column t" and ?dst = "dst_column t"
  let ?es = "if with_eids then eid_column t else None"
  from assms(1) have t: "length ?dst = length ?src" "\<forall>e \<in> set_option ?es. length e = length ?src"
    "\<forall>x \<in> set ?src. unat x < n" "n + 1 < 2 ^ 63" "length ?src < 2 ^ 63"
    by (auto simp: table_ok_def split: if_splits)
  show ?thesis
  proof (cases "num_rows t = 0 \<and> n = 0")
    case True
    have b: "csr_bytes np [0] [] None = Inr (file_header @ csr_body [0] [] None @ le_bytes 4 (crc32 (csr_body [0] [] None)))"
      by (rule csr_bytes_eq) simp_all
    from write_csr_read [OF b assms(2), of mmap] True show ?thesis
      by (auto simp: build_csr_def csr_of_def csr_wf_def)
  next
    case False
    let ?ns = "concat (map (rows_of ?src) [0..<n])"
    let ?nbrs = "map (nth ?dst) ?ns" and ?eids = "map_option (\<lambda>e. map (nth e) ?ns) ?es"
    from build_csr_arrays_groups [OF t(1,2,3,5)] obtain offs where
      arrays: "build_csr_arrays np ?src ?dst ?es (int n) = Inr (offs, ?nbrs, ?eids)"
      and offs: "length offs = n + 1" "\<forall>v \<le> n. unat (offs ! v) = length (concat (map (rows_of ?src) [0..<v]))"
      by blast
    have len: "length ?nbrs = length ?src" using length_groups [OF t(3)] by simp
    have ne: "offs \<noteq> []" using offs by auto
    then have last: "unat (last offs) = length ?nbrs" using offs by (simp add: last_conv_nth)
    have es: "\<forall>e \<in> set_option ?eids. length e = length ?nbrs" by (simp add: option.set_map)
    have sz: "length offs \<le> 2 ^ 64" "length ?nbrs < 2 ^ 64" using offs(1) t(4,5) len by simp_all
    note b = csr_bytes_eq [OF ne last es sz]
    from write_csr_read [OF b assms(2) sz, of mmap]
    obtain fs' where w: "write_csr np fs p offs ?nbrs ?eids = (Inr p, fs')"
      and r: "read_csr np fs' p mmap = Inr \<lparr>num_vertices = length offs - 1, num_edges = length ?nbrs,
        csr_flags = (if ?eids = None then 0 else CSR_FLAG_HAS_EIDS), offsets = offs, neighbors = ?nbrs, eids = ?eids\<rparr>"
      by auto
    have "csr_of \<lparr>num_vertices = length offs - 1, num_edges = length ?nbrs,
        csr_flags = (if ?eids = None then 0 else CSR_FLAG_HAS_EIDS), offsets = offs, neighbors = ?nbrs, eids = ?eids\<rparr> n ?src ?dst"
      by (rule csr_of_groups [OF offs t(3,1,2,4,5)]) (simp_all add: offs)
    with False arrays w r show ?thesis by (auto simp: build_csr_def Let_def)
  qed
qed

end

lemma neighbors_of_segment:
  "csr_of g n src dst \<Longrightarrow> v < n \<Longrightarrow> neighbors_of g (int v) = Inr (row_targets src dst v)"
  by (auto simp: csr_of_def neighbors_of_def Let_def csr_start_def)

section \<open>Properties\<close>

text \<open>
  C21: the neighbours a reader finds. Built from an edge table whose sources lie below the vertex
  number and written to any writable path, the forward file gives for every vertex the targets of
  its edges in the order of the table, and the reverse file the sources of the edges that reach
  it. A table with a source out of range is rejected with \<open>CDB-7082\<close> and nothing is written.
\<close>

theorem csr_neighbors:
  assumes "numpy_laws np" "writable fs p" "table_ok t n"
    and "\<forall>x \<in> set (dst_column t). unat x < n"
  shows "(\<exists>r fs' g. build_csr np fs t (int n) p with_eids = (Inr r, fs') \<and> read_csr np fs' p mmap = Inr g
      \<and> (\<forall>v < n. neighbors_of g (int v) = Inr (row_targets (src_column t) (dst_column t) v)))
    \<and> (\<exists>r fs' g. build_csc np fs t (int n) p with_eids = (Inr r, fs') \<and> read_csr np fs' p mmap = Inr g
      \<and> (\<forall>v < n. neighbors_of g (int v) = Inr (row_targets (dst_column t) (src_column t) v)))
    \<and> (\<forall>m x. x \<in> set (src_column t) \<longrightarrow> unat x \<ge> m
      \<longrightarrow> build_csr np fs t (int m) p with_eids = (raise_code ''CDB-7082'', fs))"
proof (intro conjI allI impI)
  note build = numpy_laws.build_csr_read [OF assms(1) _ assms(2)]
  show "\<exists>r fs' g. build_csr np fs t (int n) p with_eids = (Inr r, fs') \<and> read_csr np fs' p mmap = Inr g
      \<and> (\<forall>v < n. neighbors_of g (int v) = Inr (row_targets (src_column t) (dst_column t) v))"
    using build [OF assms(3), of with_eids mmap] neighbors_of_segment by blast
  have swap: "table_ok (swap_columns t) n" using assms(3,4) by (simp add: table_ok_def swap_columns_def)
  show "\<exists>r fs' g. build_csc np fs t (int n) p with_eids = (Inr r, fs') \<and> read_csr np fs' p mmap = Inr g
      \<and> (\<forall>v < n. neighbors_of g (int v) = Inr (row_targets (dst_column t) (src_column t) v))"
  proof (cases "num_rows t = 0")
    case True
    then have "src_column t = []" "dst_column t = []" using assms(3) by (simp_all add: table_ok_def)
    with True build [OF assms(3), of False mmap] neighbors_of_segment show ?thesis
      by (fastforce simp: build_csc_def)
  next
    case False
    with build [OF swap, of with_eids mmap] neighbors_of_segment show ?thesis
      by (fastforce simp: build_csc_def swap_columns_def)
  qed
  fix m x assume x: "x \<in> set (src_column t)" "unat x \<ge> m"
  then have "m \<le> Max (set (map unat (src_column t)))" by (auto intro: Max_ge le_trans)
  moreover have "src_column t \<noteq> []" using x by auto
  ultimately show "build_csr np fs t (int m) p with_eids = (raise_code ''CDB-7082'', fs)"
    using assms(3) by (auto simp: build_csr_def build_csr_arrays_def table_ok_def Let_def)
qed

lemma csr_neighbors_witness:
  "\<exists>r fs' g. build_csr numpy_lists Map.empty
      \<lparr>src_column = [2, 0, 2], dst_column = [1, 1, 0], eid_column = None\<rparr> 3 [''forward.csr''] True = (Inr r, fs')
    \<and> read_csr numpy_lists fs' [''forward.csr''] True = Inr g
    \<and> neighbors_of g 2 = Inr [1, 0] \<and> neighbors_of g 1 = Inr []"
proof -
  let ?t = "\<lparr>src_column = [2, 0, 2], dst_column = [1, 1, 0], eid_column = None\<rparr> :: edge_table"
  have "writable Map.empty [''forward.csr'']" by (simp add: writable_def)
  moreover have "table_ok ?t 3" by (simp add: table_ok_def)
  ultimately obtain r fs' g where "build_csr numpy_lists Map.empty ?t (int 3) [''forward.csr''] True = (Inr r, fs')"
      "read_csr numpy_lists fs' [''forward.csr''] True = Inr g"
      and nb: "\<forall>v < 3. neighbors_of g (int v) = Inr (row_targets (src_column ?t) (dst_column ?t) v)"
    using csr_neighbors [OF np_lists.numpy_laws_axioms, of Map.empty "[''forward.csr'']" ?t 3 True True] by auto
  moreover have "neighbors_of g (int 2) = Inr [1, 0]" "neighbors_of g (int 1) = Inr []"
    using spec [OF nb, of 2] spec [OF nb, of 1] by (simp_all add: row_targets_def)
  ultimately show ?thesis by (intro exI [of _ r] exI [of _ fs'] exI [of _ g]) simp
qed

end
