(* ===== verification/Fan_Out.thy ===== *)
theory Fan_Out
  imports Csr_Theorems
begin

text \<open>
  The vectorised fan-out of \<open>CsrReader.batch_neighbors\<close>: the index arithmetic selects exactly the
  rows of the seeds, one after the other.
\<close>

section \<open>Index arithmetic\<close>

fun psums :: "nat \<Rightarrow> nat list \<Rightarrow> u64 list" where
  "psums c [] = []"
| "psums c (l # ls) = of_nat c # psums (c + l) ls"

lemma psums_nth: "psums c ls = map (\<lambda>i. of_nat (c + sum_list (take i ls))) [0..<length ls]"
proof (induction ls arbitrary: c)
  case (Cons l ls)
  have "[0..<length (l # ls)] = 0 # map Suc [0..<length ls]"
    by (simp add: upt_conv_Cons map_Suc_upt del: upt_Suc)
  with Cons show ?case by (simp add: add.assoc del: upt_Suc)
qed simp

lemma length_psums [simp]: "length (psums c ls) = length ls"
  by (simp add: psums_nth)

lemma sum_list_of_nat: "sum_list (map of_nat ls) = (of_nat (sum_list ls) :: u64)"
  by (induction ls) auto

lemma cumsum_psums:
  assumes "ls \<noteq> []"
  shows "0 # map (\<lambda>i. sum_list (take (Suc i) (butlast (map of_nat ls)))) [0..<length ls - 1] = psums 0 ls"
proof (rule nth_equalityI)
  show "length (0 # map (\<lambda>i. sum_list (take (Suc i) (butlast (map of_nat ls)))) [0..<length ls - 1]) = length (psums 0 ls)"
    using assms by simp
  fix i assume "i < length (0 # map (\<lambda>i. sum_list (take (Suc i) (butlast (map of_nat ls :: u64 list)))) [0..<length ls - 1])"
  then have i: "i \<le> length ls - 1" by simp
  show "(0 # map (\<lambda>i. sum_list (take (Suc i) (butlast (map of_nat ls)))) [0..<length ls - 1]) ! i = psums 0 ls ! i"
  proof (cases i)
    case 0 with assms show ?thesis by (simp add: psums_nth)
  next
    case (Suc j)
    with i have "take (Suc j) (butlast (map of_nat ls :: u64 list)) = map of_nat (take (Suc j) ls)"
      by (simp add: butlast_conv_take take_map)
    moreover from Suc i assms have "[0..<length ls] ! Suc j = Suc j" by (cases ls) (auto simp del: upt_Suc)
    ultimately show ?thesis using Suc i by (simp add: psums_nth sum_list_of_nat del: upt_Suc)
  qed
qed

text \<open>Repeating the starts, counting from zero and subtracting the counts so far gives the ranges.\<close>

lemma repeat_arange:
  fixes starts :: "nat list"
  assumes "length starts = length ls"
  shows "map2 (+) (concat (map2 (\<lambda>s l. replicate l (of_nat s)) starts ls))
      (map2 (-) (map of_nat [c..<c + sum_list ls]) (concat (map2 (\<lambda>x l. replicate l x) (psums c ls) ls)))
    = (concat (map2 (\<lambda>s l. map of_nat [s..<s + l]) starts ls) :: u64 list)"
  using assms
proof (induction starts ls arbitrary: c rule: list_induct2)
  case (Cons s starts l ls)
  have "[c..<c + sum_list (l # ls)] = [c..<c + l] @ [c + l..<c + l + sum_list ls]"
    using upt_add_eq_append [of c "c + l" "sum_list ls"] by (simp add: add.assoc)
  moreover have "map2 (+) (replicate l (of_nat s)) (map2 (-) (map of_nat [c..<c + l]) (replicate l (of_nat c)))
      = (map of_nat [s..<s + l] :: u64 list)"
    by (rule nth_equalityI) (simp_all add: zip_replicate2 zip_replicate1)
  ultimately show ?case using Cons.IH [of "c + l"] by simp
qed simp

lemma map_nth_slice: "e \<le> length xs \<Longrightarrow> map (nth xs) [s..<e] = py_slice s e xs"
  by (rule nth_equalityI) (auto simp: py_slice_def)

section \<open>The rows of a batch of seeds\<close>

definition degree :: "csr_file \<Rightarrow> u64 \<Rightarrow> nat" where
  "degree g v = csr_start g (unat v + 1) - csr_start g (unat v)"

definition adj :: "csr_file \<Rightarrow> u64 \<Rightarrow> u64 list" where
  "adj g v = segment_of g (neighbors g) (unat v)"

definition out_rows :: "csr_file \<Rightarrow> u64 list \<Rightarrow> u64 list" where
  "out_rows g vids = concat (map (adj g) vids)"

definition out_sources :: "csr_file \<Rightarrow> u64 list \<Rightarrow> u64 list" where
  "out_sources g vids = concat (map (\<lambda>v. replicate (degree g v) v) vids)"

definition seeds_ok :: "csr_file \<Rightarrow> u64 list \<Rightarrow> bool" where
  "seeds_ok g vids \<longleftrightarrow> (\<forall>v \<in> set vids. unat v < num_vertices g) \<and> sum_list (map (degree g) vids) < 2 ^ 63"

lemma csr_start_mono:
  "csr_wf g \<Longrightarrow> v < num_vertices g \<Longrightarrow> csr_start g v \<le> csr_start g (v + 1) \<and> csr_start g (v + 1) \<le> length (neighbors g)"
proof -
  assume g: "csr_wf g" and v: "v < num_vertices g"
  let ?o = "map unat (offsets g)"
  have o: "sorted ?o" "length ?o = num_vertices g + 1" "unat (last (offsets g)) = length (neighbors g)"
    using g by (auto simp: csr_wf_def)
  have "?o ! v \<le> ?o ! (v + 1)" "?o ! (v + 1) \<le> ?o ! num_vertices g"
    using o(1,2) v by (intro sorted_nth_mono; simp)+
  moreover have "offsets g \<noteq> []" using o(2) by auto
  then have "?o ! num_vertices g = length (neighbors g)"
    using o(2,3) by (simp add: last_conv_nth)
  ultimately show ?thesis using o(2) v by (simp add: csr_start_def)
qed

lemma length_adj: "csr_wf g \<Longrightarrow> unat v < num_vertices g \<Longrightarrow> length (adj g v) = degree g v"
  using csr_start_mono [of g "unat v"] by (auto simp: adj_def degree_def min_def intro: diff_le_mono)

lemma length_out_rows:
  "csr_wf g \<Longrightarrow> \<forall>v \<in> set vids. unat v < num_vertices g \<Longrightarrow> length (out_rows g vids) = sum_list (map (degree g) vids)"
  by (induction vids) (auto simp: out_rows_def length_adj)

lemma length_out_sources: "length (out_sources g vids) = sum_list (map (degree g) vids)"
  by (induction vids) (auto simp: out_sources_def)

lemma sint_of_nat_u64: "n < 2 ^ 63 \<Longrightarrow> sint (of_nat n :: u64) = int n"
  by (simp add: signed_of_nat signed_take_bit_int_eq_self)

lemma sint_unat_u64: "unat (x :: u64) < 2 ^ 63 \<Longrightarrow> sint x = int (unat x)"
  using sint_of_nat_u64 [of "unat x"] by simp

lemma out_rows_nth:
  assumes "csr_wf g" "\<forall>v \<in> set vids. unat v < num_vertices g"
  shows "map (nth (neighbors g)) (concat (map (\<lambda>v. [csr_start g (unat v)..<csr_start g (unat v + 1)]) vids)) = out_rows g vids"
  using assms csr_start_mono [of g] by (induction vids) (auto simp: out_rows_def adj_def map_nth_slice)

context numpy_laws
begin

lemma row_lengths:
  assumes g: "csr_wf g" and v: "\<forall>v \<in> set vids. unat v < num_vertices g"
  shows "np_take np (offsets g) vids = Inr (map (\<lambda>v. of_nat (csr_start g (unat v))) vids)"
    and "np_take np (offsets g) (map (\<lambda>x. x + 1) vids) = Inr (map (\<lambda>v. of_nat (csr_start g (unat v + 1))) vids)"
    and "map2 (-) (map (\<lambda>v. of_nat (csr_start g (unat v + 1))) vids) (map (\<lambda>v. of_nat (csr_start g (unat v))) vids)
       = (map (\<lambda>v. of_nat (degree g v)) vids :: u64 list)"
proof -
  have o: "length (offsets g) = num_vertices g + 1" "length (offsets g) < 2 ^ 63"
    using g by (auto simp: csr_wf_def)
  have off: "offsets g ! i = of_nat (csr_start g i)" for i by (simp add: csr_start_def)
  have suc: "unat (x + 1) = unat x + 1" if "x \<in> set vids" for x
    using v that o by (subst unat_add_lem [THEN iffD1]) auto
  show "np_take np (offsets g) vids = Inr (map (\<lambda>v. of_nat (csr_start g (unat v))) vids)"
    by (subst take_in) (use o v in \<open>auto simp: off\<close>)
  show "np_take np (offsets g) (map (\<lambda>x. x + 1) vids) = Inr (map (\<lambda>v. of_nat (csr_start g (unat v + 1))) vids)"
    by (subst take_in) (use o v suc in \<open>auto simp: off\<close>)
  show "map2 (-) (map (\<lambda>v. of_nat (csr_start g (unat v + 1))) vids) (map (\<lambda>v. of_nat (csr_start g (unat v))) vids)
       = (map (\<lambda>v. of_nat (degree g v)) vids :: u64 list)"
  proof (rule nth_equalityI)
    fix i assume "i < length (map2 (-) (map (\<lambda>v. of_nat (csr_start g (unat v + 1))) vids)
      (map (\<lambda>v. of_nat (csr_start g (unat v))) vids :: u64 list))"
    then have i: "i < length vids" by simp
    then have "csr_start g (unat (vids ! i)) \<le> csr_start g (unat (vids ! i) + 1)"
      using csr_start_mono [OF g] v by simp
    with i show "map2 (-) (map (\<lambda>v. of_nat (csr_start g (unat v + 1))) vids) (map (\<lambda>v. of_nat (csr_start g (unat v))) vids) ! i
       = (map (\<lambda>v. of_nat (degree g v)) vids :: u64 list) ! i"
      by (simp add: degree_def of_nat_diff)
  qed simp
qed

lemma batch_sums:
  assumes "seeds_ok g vids"
  shows "sint (np_sum np (map (\<lambda>v. of_nat (degree g v)) vids)) = int (sum_list (map (degree g) vids))"
    and "v \<in> set vids \<Longrightarrow> unat (of_nat (degree g v) :: u64) = degree g v \<and> degree g v < 2 ^ 63"
proof -
  let ?t = "sum_list (map (degree g) vids)"
  have t: "?t < 2 ^ 63" using assms by (simp add: seeds_ok_def)
  have "np_sum np (map (\<lambda>v. of_nat (degree g v)) vids) = of_nat ?t"
    using sum_list_of_nat [of "map (degree g) vids"] by (simp add: sum comp_def)
  moreover have "sint (of_nat ?t :: u64) = int ?t"
    using t by (rule sint_of_nat_u64)
  ultimately show "sint (np_sum np (map (\<lambda>v. of_nat (degree g v)) vids)) = int ?t" by simp
  assume "v \<in> set vids"
  then have "degree g v \<le> ?t" by (simp add: member_le_sum_list)
  with t show "unat (of_nat (degree g v) :: u64) = degree g v \<and> degree g v < 2 ^ 63"
    by (simp add: unat_of_nat take_bit_eq_mod)
qed

lemma fan_out_index_rows:
  assumes g: "csr_wf g" and s: "seeds_ok g vids" "vids \<noteq> []"
  shows "fan_out_index np (map (\<lambda>v. of_nat (csr_start g (unat v))) vids) (map (\<lambda>v. of_nat (degree g v)) vids)
      (int (sum_list (map (degree g) vids)))
    = Inr (concat (map (\<lambda>v. map of_nat [csr_start g (unat v)..<csr_start g (unat v + 1)]) vids))"
proof -
  let ?ls = "map (degree g) vids" and ?st = "map (\<lambda>v. csr_start g (unat v)) vids"
  let ?lens = "map (\<lambda>v. of_nat (degree g v)) vids :: u64 list"
  have lens: "?lens = map of_nat ?ls" by simp
  have ok: "\<forall>k \<in> set ?lens. unat k < 2 ^ 63" using batch_sums(2) [OF s(1)] by auto
  have cum: "0 # np_cumsum np (butlast ?lens) = psums 0 ?ls"
    using cumsum_psums [of ?ls] s(2) by (simp add: cumsum lens del: map_map)
  have rep: "np_repeat np xs ?lens = Inr (concat (map2 (\<lambda>x l. replicate l x) xs ?ls))" if "length xs = length vids" for xs
  proof -
    have "map2 (\<lambda>x k. replicate (unat k) x) xs ?lens = map2 (\<lambda>x l. replicate l x) xs ?ls"
      using that batch_sums(2) [OF s(1)] by (intro nth_equalityI) auto
    with that ok show ?thesis by (subst repeat) auto
  qed
  have "map2 (\<lambda>s l. map of_nat [s..<s + l]) ?st ?ls
      = (map (\<lambda>v. map of_nat [csr_start g (unat v)..<csr_start g (unat v + 1)]) vids :: u64 list list)"
    using s csr_start_mono [OF g] by (intro nth_equalityI) (auto simp: degree_def seeds_ok_def)
  moreover have "map2 (\<lambda>s l. replicate l (of_nat s)) ?st ?ls
      = (map2 (\<lambda>x l. replicate l x) (map (\<lambda>v. of_nat (csr_start g (unat v))) vids) ?ls :: u64 list list)"
    by (intro nth_equalityI) auto
  ultimately show ?thesis
    using repeat_arange [of ?st ?ls 0] rep by (simp add: fan_out_index_def cum arange)
qed

lemma batch_neighbors_rows:
  assumes g: "csr_wf g" and s: "seeds_ok g vids" and strat: "strat \<in> {Uniform, First, All}"
  shows "batch_neighbors np g vids False None rep sd strat = Inr ((out_sources g vids, out_rows g vids, None), sd)"
proof (cases "vids = []")
  case True
  with strat show ?thesis by (auto simp: batch_neighbors_def out_sources_def out_rows_def)
next
  case False
  let ?tot = "sum_list (map (degree g) vids)" and ?lens = "map (\<lambda>v. of_nat (degree g v)) vids :: u64 list"
  from s have v: "\<forall>v \<in> set vids. unat v < num_vertices g" by (simp add: seeds_ok_def)
  have n: "num_vertices g + 1 < 2 ^ 63" "length (neighbors g) < 2 ^ 63" using g by (simp_all add: csr_wf_def)
  have range: "\<not> list_ex (\<lambda>x. sint x < 0 \<or> sint x \<ge> int (num_vertices g)) vids"
  proof -
    have lt: "unat x < num_vertices g" if "x \<in> set vids" for x using v that by blast
    have x: "sint x = int (unat x)" if "x \<in> set vids" for x
      using lt [OF that] n(1) by (intro sint_unat_u64) linarith
    show ?thesis unfolding list_ex_iff
    proof (rule notI, elim bexE)
      fix x assume "x \<in> set vids" "sint x < 0 \<or> int (num_vertices g) \<le> sint x"
      with x [of x] lt [of x] show False by linarith
    qed
  qed
  have lens: "\<forall>k \<in> set ?lens. unat k < 2 ^ 63" using batch_sums(2) [OF s] by auto
  have "map2 (\<lambda>x k. replicate (unat k) x) vids ?lens = map (\<lambda>v. replicate (degree g v) v) vids"
    using batch_sums(2) [OF s] by (intro nth_equalityI) auto
  then have rep: "np_repeat np vids ?lens = Inr (out_sources g vids)"
    using lens by (subst repeat) (auto simp: out_sources_def)
  define idx where "idx = concat (map (\<lambda>v. [csr_start g (unat v)..<csr_start g (unat v + 1)]) vids)"
  have small: "i < length (neighbors g)" if "i \<in> set idx" for i
    using that v csr_start_mono [OF g] unfolding idx_def by fastforce
  have un: "unat (of_nat i :: u64) = i" if "i \<in> set idx" for i
    using small [OF that] n(2) by (simp add: unat_of_nat take_bit_eq_mod)
  have "np_take np (neighbors g) (map of_nat idx) = Inr (map (\<lambda>i. neighbors g ! unat i) (map of_nat idx :: u64 list))"
    by (rule take_in [OF n(2)]) (simp add: small un)
  also have "map (\<lambda>i. neighbors g ! unat i) (map of_nat idx :: u64 list) = map (nth (neighbors g)) idx"
    by (simp add: un)
  finally have "np_take np (neighbors g) (map of_nat idx) = Inr (map (nth (neighbors g)) idx)" .
  then have dst: "np_take np (neighbors g) (concat (map (\<lambda>v. map of_nat [csr_start g (unat v)..<csr_start g (unat v + 1)]) vids))
      = Inr (out_rows g vids)"
    using out_rows_nth [OF g v] by (simp add: idx_def map_concat comp_def)
  note rows = row_lengths [OF g v]
  show ?thesis
  proof (cases "?tot = 0")
    case True
    then have "length (out_rows g vids) = 0" "length (out_sources g vids) = 0"
      by (simp_all only: length_out_rows [OF g v] length_out_sources)
    then have "out_rows g vids = []" "out_sources g vids = []" by simp_all
    with True False range strat rep show ?thesis
      unfolding batch_neighbors_def rows rbind_simps Let_def batch_sums(1) [OF s] by auto
  next
    case tot: False
    with False range strat rep dst fan_out_index_rows [OF g s False] show ?thesis
      unfolding batch_neighbors_def rows rbind_simps Let_def batch_sums(1) [OF s] by auto
  qed
qed

lemma degrees_rows:
  assumes "csr_wf g" "\<forall>v \<in> set vids. unat v < num_vertices g"
  shows "degrees np g (Some vids) = Inr (map (\<lambda>v. of_nat (degree g v)) vids)"
  using row_lengths [OF assms] by (simp add: degrees_def)

end

end
