(* ===== verification/Expand.thy ===== *)
theory Expand
  imports Operator Fan_Out
begin

text \<open>
  The graph operators: one-hop expansion (\<open>exec/operators/expand.py\<close>) and variable-length paths
  (\<open>exec/operators/var_path.py\<close>), over any child operator and any adjacency file.
\<close>

section \<open>Columns of record batches\<close>

text \<open>
  Arrow batches are a parameter: reading a named column as \<open>uint64\<close> (a \<open>KeyError\<close> when it is
  missing) and building a batch of such columns.
\<close>

record 'b batch_ops =
  column_u64 :: "'b \<Rightarrow> string \<Rightarrow> u64 list result"
  batch_of_u64 :: "(string \<times> u64 list) list \<Rightarrow> 'b"

locale batch_laws =
  fixes ar :: "'b batch_ops"
  assumes column_of: "distinct (map fst cols) \<Longrightarrow> (name, xs) \<in> set cols
    \<Longrightarrow> column_u64 ar (batch_of_u64 ar cols) name = Inr xs"

definition batch_lists :: "(string \<times> u64 list) list batch_ops" where
  "batch_lists = \<lparr>column_u64 = (\<lambda>b n. case map_of b n of None \<Rightarrow> Inl KeyError | Some xs \<Rightarrow> Inr xs),
     batch_of_u64 = (\<lambda>cols. cols)\<rparr>"

interpretation lists_batch: batch_laws batch_lists
  by unfold_locales (simp add: batch_lists_def)

section \<open>Expansion\<close>

datatype hop_direction = Out | In | Both

record expand_config =
  ex_forward :: "csr_file option"
  ex_reverse :: "csr_file option"
  ex_direction :: hop_direction
  ex_src_alias :: string
  ex_dst_alias :: string
  ex_edge_alias :: "string option"
  ex_seed_column :: string

definition expand_init ::
  "csr_file option \<Rightarrow> csr_file option \<Rightarrow> hop_direction \<Rightarrow> string \<Rightarrow> string \<Rightarrow> string option \<Rightarrow> string
    \<Rightarrow> expand_config result" where
  "expand_init fwd rvs dir src_alias dst_alias edge_alias seed_column =
     (if dir = Out \<and> fwd = None then raise_code ''CDB-6030''
      else if dir = In \<and> rvs = None then raise_code ''CDB-6030''
      else if dir = Both \<and> (fwd = None \<or> rvs = None) then raise_code ''CDB-6030''
      else Inr \<lparr>ex_forward = fwd, ex_reverse = rvs, ex_direction = dir, ex_src_alias = src_alias,
        ex_dst_alias = dst_alias, ex_edge_alias = edge_alias, ex_seed_column = seed_column\<rparr>)"

text \<open>The rows of one reader; \<open>batch_neighbors\<close> is called without a fan-out bound.\<close>

definition fan_out_chunk ::
  "'rng numpy \<Rightarrow> csr_file option \<Rightarrow> bool \<Rightarrow> u64 list \<Rightarrow> (u64 list \<times> u64 list \<times> u64 list option) result" where
  "fan_out_chunk np reader want_eid seeds =
     (case reader of
        None \<Rightarrow> Inl AssertionError
      | Some g \<Rightarrow>
          rbind (batch_neighbors np g seeds (want_eid \<and> eids g \<noteq> None) None False (Seed None) Uniform)
            (\<lambda>(rows, _). Inr rows))"

definition fan_out ::
  "'rng numpy \<Rightarrow> 'b batch_ops \<Rightarrow> expand_config \<Rightarrow> u64 list \<Rightarrow> 'b option result" where
  "fan_out np ar cfg seeds =
     (if seeds = [] then Inr None
      else
        let want_eid = ex_edge_alias cfg \<noteq> None; dir = ex_direction cfg in
        rbind (if dir \<in> {Out, Both} then rbind (fan_out_chunk np (ex_forward cfg) want_eid seeds) (\<lambda>c. Inr [c])
               else Inr []) (\<lambda>fwd.
        rbind (if dir \<in> {In, Both} then rbind (fan_out_chunk np (ex_reverse cfg) want_eid seeds) (\<lambda>c. Inr [c])
               else Inr []) (\<lambda>rvs.
        let chunks = fwd @ rvs;
            src_all = concat (map (\<lambda>(s, d, e). s) chunks);
            dst_all = concat (map (\<lambda>(s, d, e). d) chunks)
        in
        if src_all = [] then Inr None
        else
          let eid_all = concat (map (\<lambda>(s, d, e). case e of None \<Rightarrow> replicate (length s) 0 | Some x \<Rightarrow> x) chunks);
              edge = (case ex_edge_alias cfg of None \<Rightarrow> []
                      | Some a \<Rightarrow> [(if a = '''' then ''eid'' else a, eid_all)])
          in Inr (Some (batch_of_u64 ar ([(ex_src_alias cfg, src_all), (ex_dst_alias cfg, dst_all)] @ edge))))))"

text \<open>The loop of \<open>_next_batch\<close>: batches without a neighbour are skipped.\<close>

partial_function (option) expand_next ::
  "'rng numpy \<Rightarrow> 'b batch_ops \<Rightarrow> expand_config \<Rightarrow> ('s, 'b) hooks \<Rightarrow> 's op_state
    \<Rightarrow> ('b option result \<times> 's op_state) option" where
  "expand_next np ar cfg h child =
     Option.bind (op_next h child) (\<lambda>(r, child').
       (case r of
          Inl e \<Rightarrow> Some (Inl e, child')
        | Inr None \<Rightarrow> Some (Inr None, child')
        | Inr (Some batch) \<Rightarrow>
            (case rbind (column_u64 ar batch (ex_seed_column cfg)) (fan_out np ar cfg) of
               Inl e \<Rightarrow> Some (Inl e, child')
             | Inr None \<Rightarrow> expand_next np ar cfg h child'
             | Inr (Some arrays) \<Rightarrow> Some (Inr (Some arrays), child'))))"

definition expand_hooks ::
  "'rng numpy \<Rightarrow> 'b batch_ops \<Rightarrow> expand_config \<Rightarrow> ('s, 'b) hooks \<Rightarrow> ('s op_state, 'b) hooks" where
  "expand_hooks np ar cfg h =
     \<lparr>hook_open = op_open h, hook_next = expand_next np ar cfg h, hook_close = op_close h\<rparr>"

section \<open>Variable-length paths\<close>

record var_path_config =
  vp_forward :: csr_file
  vp_hop_min :: int
  vp_hop_max :: int
  vp_seed_column :: string
  vp_src_alias :: string
  vp_dst_alias :: string

definition var_path_init ::
  "csr_file \<Rightarrow> int \<Rightarrow> int \<Rightarrow> string \<Rightarrow> string \<Rightarrow> string \<Rightarrow> var_path_config result" where
  "var_path_init g hop_min hop_max seed_column src_alias dst_alias =
     (if hop_min < 0 \<or> hop_max < hop_min then raise_code ''CDB-6031''
      else Inr \<lparr>vp_forward = g, vp_hop_min = hop_min, vp_hop_max = hop_max, vp_seed_column = seed_column,
        vp_src_alias = src_alias, vp_dst_alias = dst_alias\<rparr>)"

text \<open>The pairs not seen before, in order, and the set of pairs seen after them.\<close>

type_synonym pair = "u64 \<times> u64"

fun scan_pairs :: "pair list \<Rightarrow> pair set \<Rightarrow> pair list \<times> pair set" where
  "scan_pairs [] seen = ([], seen)"
| "scan_pairs (p # ps) seen =
     (if p \<in> seen then scan_pairs ps seen
      else (case scan_pairs ps (insert p seen) of (new, seen') \<Rightarrow> (p # new, seen')))"

text \<open>The hop loop, from hop number \<open>hop\<close> on with \<open>k\<close> hops to go.\<close>

fun hop_loop ::
  "'rng numpy \<Rightarrow> csr_file \<Rightarrow> int \<Rightarrow> nat \<Rightarrow> nat \<Rightarrow> u64 list \<Rightarrow> u64 list \<Rightarrow> pair set \<Rightarrow> pair list
    \<Rightarrow> pair list result" where
  "hop_loop np g hop_min 0 hop frontier_src frontier_dst seen out = Inr out"
| "hop_loop np g hop_min (Suc k) hop frontier_src frontier_dst seen out =
     (if frontier_dst = [] then Inr out
      else
        rbind (batch_neighbors np g frontier_dst False None False (Seed None) Uniform) (\<lambda>((src_rep, dst, _), _).
        if dst = [] then Inr out
        else
          rbind (if hop = 1 then Inr src_rep
                 else rbind (degrees np g (Some frontier_dst)) (np_repeat np frontier_src)) (\<lambda>origin_per_dst.
          (case scan_pairs (zip origin_per_dst dst) seen of
             (new, seen') \<Rightarrow>
               hop_loop np g hop_min k (hop + 1) (map fst new) (map snd new) seen'
                 (out @ (if int hop \<ge> hop_min then new else []))))))"

definition traverse :: "'rng numpy \<Rightarrow> 'b batch_ops \<Rightarrow> var_path_config \<Rightarrow> u64 list \<Rightarrow> 'b option result" where
  "traverse np ar cfg seeds =
     (let (out0, seen0) = (if vp_hop_min cfg = 0 then scan_pairs (zip seeds seeds) {} else ([], {})) in
      rbind (hop_loop np (vp_forward cfg) (vp_hop_min cfg) (nat (vp_hop_max cfg)) 1 seeds seeds seen0 out0)
        (\<lambda>out.
          if out = [] then Inr None
          else Inr (Some (batch_of_u64 ar [(vp_src_alias cfg, map fst out), (vp_dst_alias cfg, map snd out)]))))"

text \<open>The first call drains the child; \<open>emitted\<close> is set before the traversal.\<close>

partial_function (option) drain_seeds ::
  "'b batch_ops \<Rightarrow> string \<Rightarrow> ('s, 'b) hooks \<Rightarrow> 's op_state \<Rightarrow> u64 list
    \<Rightarrow> (u64 list result \<times> 's op_state) option" where
  "drain_seeds ar name h child acc =
     Option.bind (op_next h child) (\<lambda>(r, child').
       (case r of
          Inl e \<Rightarrow> Some (Inl e, child')
        | Inr None \<Rightarrow> Some (Inr acc, child')
        | Inr (Some batch) \<Rightarrow>
            (case column_u64 ar batch name of
               Inl e \<Rightarrow> Some (Inl e, child')
             | Inr seeds \<Rightarrow> drain_seeds ar name h child' (acc @ seeds))))"

definition var_path_next ::
  "'rng numpy \<Rightarrow> 'b batch_ops \<Rightarrow> var_path_config \<Rightarrow> ('s, 'b) hooks \<Rightarrow> 's op_state \<times> bool
    \<Rightarrow> ('b option result \<times> 's op_state \<times> bool) option" where
  "var_path_next np ar cfg h st =
     (case st of (child, emitted) \<Rightarrow>
        if emitted then Some (Inr None, child, emitted)
        else
          Option.bind (drain_seeds ar (vp_seed_column cfg) h child []) (\<lambda>(r, child').
            (case r of
               Inl e \<Rightarrow> Some (Inl e, child', False)
             | Inr seeds \<Rightarrow>
                 if seeds = [] then Some (Inr None, child', True)
                 else Some (traverse np ar cfg seeds, child', True))))"

definition var_path_hooks ::
  "'rng numpy \<Rightarrow> 'b batch_ops \<Rightarrow> var_path_config \<Rightarrow> ('s, 'b) hooks \<Rightarrow> ('s op_state \<times> bool, 'b) hooks" where
  "var_path_hooks np ar cfg h =
     \<lparr>hook_open = (\<lambda>ctx (child, em). map_option (\<lambda>(r, child'). (r, child', em)) (op_open h ctx child)),
      hook_next = var_path_next np ar cfg h,
      hook_close = (\<lambda>(child, em). case op_close h child of (r, child') \<Rightarrow> (r, child', em))\<rparr>"

end
