(* ===== verification/Expand_Theorems.thy ===== *)
theory Expand_Theorems
  imports Expand
begin

text \<open>
  What the graph operators deliver: the rows of the seeds of every batch of the child, and the
  pairs of vertices whose least number of hops lies in the range.
\<close>

section \<open>Walks\<close>

text \<open>The vertices reached by a walk of exactly \<open>k\<close> hops.\<close>

fun steps :: "csr_file \<Rightarrow> nat \<Rightarrow> u64 \<Rightarrow> u64 set" where
  "steps g 0 s = {s}"
| "steps g (Suc k) s = (\<Union>v \<in> steps g k s. set (adj g v))"

text \<open>
  The pairs whose first walk with at least \<open>lo\<close> hops has exactly \<open>h\<close> of them, for seeds in \<open>S\<close>.
\<close>

definition first_at :: "csr_file \<Rightarrow> nat \<Rightarrow> u64 set \<Rightarrow> nat \<Rightarrow> pair set" where
  "first_at g lo S h = {(s, d). s \<in> S \<and> d \<in> steps g h s \<and> (\<forall>k. lo \<le> k \<longrightarrow> k < h \<longrightarrow> d \<notin> steps g k s)}"

definition seen_before :: "csr_file \<Rightarrow> nat \<Rightarrow> u64 set \<Rightarrow> nat \<Rightarrow> pair set" where
  "seen_before g lo S h = {(s, d). s \<in> S \<and> (\<exists>k. lo \<le> k \<and> k < h \<and> d \<in> steps g k s)}"

lemma first_at_Suc:
  assumes "lo \<le> Suc h"
  shows "first_at g lo S (Suc h)
    = {(s, d'). \<exists>d. (s, d) \<in> first_at g lo S h \<and> d' \<in> set (adj g d)} - seen_before g lo S (Suc h)"
proof (intro set_eqI iffI)
  fix p assume p: "p \<in> first_at g lo S (Suc h)"
  then obtain s d' d where sd: "p = (s, d')" "s \<in> S" "d \<in> steps g h s" "d' \<in> set (adj g d)"
    and new: "\<forall>k. lo \<le> k \<longrightarrow> k < Suc h \<longrightarrow> d' \<notin> steps g k s"
    by (auto simp: first_at_def)
  have "d \<notin> steps g k s" if "lo \<le> k" "k < h" for k
  proof
    assume "d \<in> steps g k s"
    with sd(4) have "d' \<in> steps g (Suc k) s" by auto
    moreover have "lo \<le> Suc k" "Suc k < Suc h" using that by simp_all
    ultimately show False using new by blast
  qed
  with sd new show "p \<in> {(s, d'). \<exists>d. (s, d) \<in> first_at g lo S h \<and> d' \<in> set (adj g d)} - seen_before g lo S (Suc h)"
    by (auto simp: first_at_def seen_before_def)
qed (auto simp: first_at_def seen_before_def)

lemma seen_before_Suc:
  "lo \<le> h \<Longrightarrow> seen_before g lo S (Suc h) = seen_before g lo S h \<union> first_at g lo S h"
  by (auto simp: seen_before_def first_at_def less_Suc_eq)

lemma first_at_empty: "first_at g lo S h = {} \<Longrightarrow> lo \<le> Suc h \<Longrightarrow> h \<le> j \<Longrightarrow> first_at g lo S j = {}"
proof (induction j)
  case (Suc j)
  show ?case
  proof (cases "h = Suc j")
    case False
    with Suc have "first_at g lo S j = {}" "lo \<le> Suc j" by auto
    then show ?thesis by (simp add: first_at_Suc)
  qed (use Suc in simp)
qed simp

section \<open>One scan\<close>

lemma scan_pairs_spec:
  "scan_pairs ps seen = (new, seen') \<Longrightarrow> set new = set ps - seen \<and> distinct new \<and> seen' = seen \<union> set ps"
proof (induction ps arbitrary: seen new seen')
  case (Cons p ps)
  show ?case
  proof (cases "p \<in> seen")
    case True
    with Cons show ?thesis by auto
  next
    case False
    obtain n s where ns: "scan_pairs ps (insert p seen) = (n, s)" by force
    with Cons.prems False have "new = p # n" "seen' = s" by auto
    with Cons.IH [OF ns] False show ?thesis by auto
  qed
qed simp

text \<open>The candidates of a frontier: every seed with the neighbours of the vertex it reached.\<close>

lemma zip_rows:
  "csr_wf g \<Longrightarrow> \<forall>v \<in> set (map snd fr). unat v < num_vertices g \<Longrightarrow>
    zip (concat (map (\<lambda>(s, d). replicate (degree g d) s) fr)) (out_rows g (map snd fr))
    = concat (map (\<lambda>(s, d). map (Pair s) (adj g d)) fr)"
proof (induction fr)
  case (Cons p fr)
  obtain s d where p: "p = (s, d)" by force
  have "zip (replicate (degree g d) s) (adj g d) = map (Pair s) (adj g d)"
    using Cons.prems p length_adj [of g d] by (intro nth_equalityI) auto
  with Cons p length_adj [of g d] show ?case by (simp add: out_rows_def)
qed (simp add: out_rows_def)

section \<open>The hop loop\<close>

definition csr_closed :: "csr_file \<Rightarrow> bool" where
  "csr_closed g \<longleftrightarrow> csr_wf g \<and> (\<forall>x \<in> set (neighbors g). unat x < num_vertices g)"

lemma adj_closed: "csr_closed g \<Longrightarrow> x \<in> set (adj g v) \<Longrightarrow> unat x < num_vertices g"
  by (auto simp: csr_closed_def adj_def py_slice_def dest: in_set_takeD in_set_dropD)

lemma degree_le: "csr_wf g \<Longrightarrow> unat v < num_vertices g \<Longrightarrow> degree g v \<le> length (neighbors g)"
  using csr_start_mono [of g "unat v"] unfolding degree_def by linarith

lemma degrees_le:
  assumes "csr_wf g" "\<forall>v \<in> set vs. unat v < num_vertices g"
  shows "sum_list (map (degree g) vs) \<le> length vs * length (neighbors g)"
  using assms by (induction vs) (auto intro: add_mono degree_le)

lemma card_small: "card {x :: u64. unat x < n} \<le> n"
proof -
  have "card {x :: u64. unat x < n} = card (unat ` {x :: u64. unat x < n})"
    by (rule card_image [symmetric]) (simp add: inj_on_def word_unat_eq_iff)
  also have "\<dots> \<le> card {..<n}" by (rule card_mono) auto
  finally show ?thesis by simp
qed

lemma pairs_bound:
  assumes "distinct ps" "set ps \<subseteq> S \<times> {x :: u64. unat x < n}" "finite S"
  shows "length ps \<le> card S * n"
proof -
  have "length ps = card (set ps)" using assms(1) by (simp add: distinct_card)
  also have "\<dots> \<le> card (S \<times> {x :: u64. unat x < n})" using assms(2,3) by (intro card_mono) auto
  also have "\<dots> \<le> card S * n" using card_small [of n] by (simp add: card_cartesian_product)
  finally show ?thesis .
qed

text \<open>The pairs the loop emits from hop \<open>h\<close> on.\<close>

definition emitted_from :: "csr_file \<Rightarrow> nat \<Rightarrow> u64 set \<Rightarrow> int \<Rightarrow> nat \<Rightarrow> nat \<Rightarrow> pair set" where
  "emitted_from g lo S hop_min h k = (\<Union>j \<in> {j. h \<le> j \<and> j < h + k \<and> hop_min \<le> int j}. first_at g lo S j)"

lemma emitted_from_0 [simp]: "emitted_from g lo S hop_min h 0 = {}"
  by (auto simp: emitted_from_def)

lemma emitted_from_Suc:
  "emitted_from g lo S hop_min h (Suc k)
    = (if hop_min \<le> int h then first_at g lo S h else {}) \<union> emitted_from g lo S hop_min (Suc h) k"
proof -
  have "{j. h \<le> j \<and> j < h + Suc k \<and> hop_min \<le> int j}
      = (if hop_min \<le> int h then {h} else {}) \<union> {j. Suc h \<le> j \<and> j < Suc h + k \<and> hop_min \<le> int j}"
    by auto
  then show ?thesis by (simp add: emitted_from_def)
qed

lemma emitted_from_empty:
  "first_at g lo S h = {} \<Longrightarrow> lo \<le> Suc h \<Longrightarrow> emitted_from g lo S hop_min h k = {}"
  by (auto simp: emitted_from_def dest: first_at_empty)

definition candidates :: "csr_file \<Rightarrow> pair list \<Rightarrow> pair list" where
  "candidates g fr = concat (map (\<lambda>(s, d). map (Pair s) (adj g d)) fr)"

lemma candidates_set: "set (candidates g fr) = {(s, d'). \<exists>d. (s, d) \<in> set fr \<and> d' \<in> set (adj g d)}"
  by (auto simp: candidates_def)

context numpy_laws
begin

lemma hop_candidates:
  assumes g: "csr_wf g" and fr: "\<forall>v \<in> set (map snd fr). unat v < num_vertices g"
    and small: "length fr * length (neighbors g) < 2 ^ 63" and one: "hop = 1 \<longrightarrow> map fst fr = map snd fr"
  shows "batch_neighbors np g (map snd fr) False None False (Seed None) Uniform
      = Inr ((out_sources g (map snd fr), out_rows g (map snd fr), None), Seed None)"
    and "\<exists>origin. (if hop = 1 then Inr (out_sources g (map snd fr))
        else rbind (degrees np g (Some (map snd fr))) (np_repeat np (map fst fr))) = Inr origin
      \<and> zip origin (out_rows g (map snd fr)) = candidates g fr"
proof -
  let ?fd = "map snd fr" and ?fs = "map fst fr"
  have seeds: "seeds_ok g ?fd"
    using fr small degrees_le [OF g fr] by (simp add: seeds_ok_def)
  show "batch_neighbors np g ?fd False None False (Seed None) Uniform
      = Inr ((out_sources g ?fd, out_rows g ?fd, None), Seed None)"
    by (rule batch_neighbors_rows [OF g seeds]) simp
  let ?origin = "concat (map (\<lambda>(s, d). replicate (degree g d) s) fr)"
  have "(if hop = 1 then Inr (out_sources g ?fd)
        else rbind (degrees np g (Some ?fd)) (np_repeat np ?fs)) = Inr ?origin"
  proof (cases "hop = 1")
    case True
    with one have "fst p = snd p" if "p \<in> set fr" for p using that by (auto simp: map_eq_conv)
    then have "map (\<lambda>(s, d). replicate (degree g d) s) fr = map (\<lambda>p. replicate (degree g (snd p)) (snd p)) fr"
      by (auto simp: split_beta)
    with True show ?thesis by (simp only: out_sources_def map_map comp_def if_True refl simp_thms)
  next
    case False
    have "\<forall>k \<in> set (map (\<lambda>v. of_nat (degree g v)) ?fd :: u64 list). unat k < 2 ^ 63"
      using batch_sums(2) [OF seeds] by auto
    moreover have "map2 (\<lambda>x k. replicate (unat k) x) ?fs (map (\<lambda>v. of_nat (degree g v)) ?fd :: u64 list)
        = map (\<lambda>(s, d). replicate (degree g d) s) fr"
      using batch_sums(2) [OF seeds] by (intro nth_equalityI) (auto simp: split_beta)
    ultimately have "np_repeat np ?fs (map (\<lambda>v. of_nat (degree g v)) ?fd) = Inr ?origin"
      by (subst repeat) auto
    with False degrees_rows [OF g fr] show ?thesis by simp
  qed
  with zip_rows [OF g fr] show "\<exists>origin. (if hop = 1 then Inr (out_sources g ?fd)
        else rbind (degrees np g (Some ?fd)) (np_repeat np ?fs)) = Inr origin
      \<and> zip origin (out_rows g ?fd) = candidates g fr"
    by (simp add: candidates_def)
qed

end

context numpy_laws
begin

lemma hop_loop_spec:
  assumes g: "csr_closed g" and S: "finite S" "\<forall>s \<in> S. unat s < num_vertices g" and lo: "lo \<le> 1"
    and h: "1 \<le> h" and fr: "set fr = first_at g lo S (h - 1)" "length fr \<le> B"
    and B: "card S * num_vertices g \<le> B" "B * length (neighbors g) < 2 ^ 63"
    and one: "h = 1 \<longrightarrow> map fst fr = map snd fr"
    and seen: "seen = seen_before g lo S h" and out: "set out \<subseteq> seen" "distinct out"
  shows "\<exists>res. hop_loop np g hop_min k h (map fst fr) (map snd fr) seen out = Inr res \<and> distinct res
    \<and> set res = set out \<union> emitted_from g lo S hop_min h k"
  using h fr one seen out
proof (induction k arbitrary: h fr seen out)
  case 0
  then show ?case by simp
next
  case (Suc k)
  have wf: "csr_wf g" using g by (simp add: csr_closed_def)
  obtain h' where h': "h = Suc h'" using Suc.prems(1) by (cases h) auto
  have new_set: "first_at g lo S h = set (candidates g fr) - seen"
    using Suc.prems(2,5) lo by (simp add: h' first_at_Suc candidates_set)
  show ?case
  proof (cases "fr = []")
    case True
    then have "first_at g lo S h = {}" by (simp add: new_set candidates_def)
    then have "emitted_from g lo S hop_min h (Suc k) = {}" using lo Suc.prems(1) by (intro emitted_from_empty) auto
    with True Suc.prems show ?thesis by simp
  next
    case False
    have v: "unat d < num_vertices g" if "(s, d) \<in> first_at g lo S j" for s d j
    proof (cases j)
      case 0 with that S(2) show ?thesis by (auto simp: first_at_def)
    next
      case (Suc i)
      with that obtain u where "d \<in> set (adj g u)" by (auto simp: first_at_def)
      with adj_closed [OF g] show ?thesis by blast
    qed
    have fr_ok: "\<forall>d \<in> set (map snd fr). unat d < num_vertices g" using v Suc.prems(2) by auto
    have "length fr * length (neighbors g) \<le> B * length (neighbors g)" using Suc.prems(3) by (rule mult_le_mono1)
    then have small: "length fr * length (neighbors g) < 2 ^ 63" using B(2) by linarith
    obtain origin where origin: "(if h = 1 then Inr (out_sources g (map snd fr))
          else rbind (degrees np g (Some (map snd fr))) (np_repeat np (map fst fr))) = Inr origin"
        "zip origin (out_rows g (map snd fr)) = candidates g fr"
      using hop_candidates(2) [OF wf fr_ok small Suc.prems(4)] by blast
    note batch = hop_candidates(1) [OF wf fr_ok small Suc.prems(4)]
    obtain new seen' where scan: "scan_pairs (candidates g fr) seen = (new, seen')" by force
    note scanned = scan_pairs_spec [OF scan]
    then have new: "set new = first_at g lo S h" "distinct new" by (simp_all only: new_set)
    have grow: "seen_before g lo S (Suc h) = seen \<union> first_at g lo S h"
      using lo Suc.prems(1) by (simp only: Suc.prems(5)) (rule seen_before_Suc, linarith)
    then have seen': "seen' = seen_before g lo S (Suc h)"
      using scanned by (simp only: new_set Un_Diff_cancel)
    show ?thesis
    proof (cases "out_rows g (map snd fr) = []")
      case True
      with origin(2) have "first_at g lo S h = {}" by (simp add: new_set)
      then have "emitted_from g lo S hop_min h (Suc k) = {}" using lo Suc.prems(1) by (intro emitted_from_empty) auto
      with True False batch Suc.prems show ?thesis by simp
    next
      case rows: False
      let ?out = "out @ (if hop_min \<le> int h then new else [])"
      have "set new \<subseteq> S \<times> {x. unat x < num_vertices g}" using new v by (auto simp: first_at_def)
      then have "length new \<le> B" using pairs_bound [OF new(2) _ S(1)] B(1) by (meson le_trans)
      moreover have "set ?out \<subseteq> seen'" "distinct ?out"
      proof -
        have "seen' = seen \<union> first_at g lo S h" by (simp only: seen' grow)
        moreover have "first_at g lo S h \<inter> seen = {}" by (auto simp: new_set)
        ultimately show "set ?out \<subseteq> seen'" "distinct ?out" using Suc.prems(6,7) new by auto
      qed
      ultimately obtain res where "hop_loop np g hop_min k (Suc h) (map fst new) (map snd new) seen' ?out = Inr res"
          "distinct res" "set res = set ?out \<union> emitted_from g lo S hop_min (Suc h) k"
        using Suc.IH [of "Suc h" new seen' ?out] new seen' Suc.prems(1) by auto
      with False rows batch origin scan new show ?thesis
        by (auto simp: emitted_from_Suc)
    qed
  qed
qed

end

section \<open>Operators over a child\<close>

subsection \<open>Expansion\<close>

definition readers :: "expand_config \<Rightarrow> csr_file list" where
  "readers cfg = (if ex_direction cfg \<in> {Out, Both} then [the (ex_forward cfg)] else [])
     @ (if ex_direction cfg \<in> {In, Both} then [the (ex_reverse cfg)] else [])"

definition hop_pairs :: "csr_file \<Rightarrow> u64 list \<Rightarrow> pair list" where
  "hop_pairs g seeds = concat (map (\<lambda>s. map (Pair s) (adj g s)) seeds)"

definition expansion :: "expand_config \<Rightarrow> u64 list \<Rightarrow> pair list" where
  "expansion cfg seeds = concat (map (\<lambda>g. hop_pairs g seeds) (readers cfg))"

definition pair_batch :: "'b batch_ops \<Rightarrow> string \<Rightarrow> string \<Rightarrow> pair list \<Rightarrow> 'b list" where
  "pair_batch ar a b ps = (if ps = [] then [] else [batch_of_u64 ar [(a, map fst ps), (b, map snd ps)]])"

lemma hop_pairs_columns:
  assumes "csr_wf g" "\<forall>v \<in> set seeds. unat v < num_vertices g"
  shows "map fst (hop_pairs g seeds) = out_sources g seeds" "map snd (hop_pairs g seeds) = out_rows g seeds"
proof -
  have "map fst (map (Pair s) (adj g s)) = replicate (degree g s) s" if "s \<in> set seeds" for s
    using assms that length_adj [of g s] by (simp add: comp_def map_replicate_const)
  then show "map fst (hop_pairs g seeds) = out_sources g seeds"
    unfolding hop_pairs_def out_sources_def map_concat map_map comp_def by (metis (no_types, lifting) map_cong map_map)
  show "map snd (hop_pairs g seeds) = out_rows g seeds"
    by (simp add: hop_pairs_def out_rows_def map_concat comp_def)
qed

context numpy_laws
begin

lemma fan_out_rows:
  assumes init: "expand_init fwd rvs dir a b None name = Inr cfg" and seeds: "\<forall>g \<in> set (readers cfg). csr_wf g \<and> seeds_ok g seeds"
  shows "fan_out np ar cfg seeds = Inr (case pair_batch ar a b (expansion cfg seeds) of [] \<Rightarrow> None | x # _ \<Rightarrow> Some x)"
proof (cases "seeds = []")
  case True
  then show ?thesis by (simp add: fan_out_def expansion_def hop_pairs_def pair_batch_def map_replicate_const)
next
  case False
  have cfg: "ex_src_alias cfg = a" "ex_dst_alias cfg = b" "ex_edge_alias cfg = None" "ex_direction cfg = dir"
      "ex_forward cfg = fwd" "ex_reverse cfg = rvs"
      "dir \<in> {Out, Both} \<Longrightarrow> fwd \<noteq> None" "dir \<in> {In, Both} \<Longrightarrow> rvs \<noteq> None"
    using init by (auto simp: expand_init_def split: if_splits)
  have chunk: "fan_out_chunk np (Some g) False seeds = Inr (map fst (hop_pairs g seeds), map snd (hop_pairs g seeds), None)"
    if "g \<in> set (readers cfg)" for g
  proof -
    from seeds that have g: "csr_wf g" "seeds_ok g seeds" by auto
    then have v: "\<forall>v \<in> set seeds. unat v < num_vertices g" by (simp add: seeds_ok_def)
    from g show ?thesis
      by (simp add: fan_out_chunk_def batch_neighbors_rows hop_pairs_columns [OF g(1) v])
  qed
  show ?thesis
    using False cfg chunk
    by (cases dir) (auto simp: fan_out_def readers_def expansion_def pair_batch_def Let_def)
qed

end

text \<open>What one batch of the child becomes.\<close>

definition expanded :: "'b batch_ops \<Rightarrow> expand_config \<Rightarrow> 'b \<Rightarrow> 'b list" where
  "expanded ar cfg batch =
     (case column_u64 ar batch (ex_seed_column cfg) of
        Inl _ \<Rightarrow> []
      | Inr seeds \<Rightarrow> pair_batch ar (ex_src_alias cfg) (ex_dst_alias cfg) (expansion cfg seeds))"

definition batch_ok :: "'b batch_ops \<Rightarrow> expand_config \<Rightarrow> 'b \<Rightarrow> bool" where
  "batch_ok ar cfg batch \<longleftrightarrow> (case column_u64 ar batch (ex_seed_column cfg) of
     Inl _ \<Rightarrow> False | Inr seeds \<Rightarrow> \<forall>g \<in> set (readers cfg). seeds_ok g seeds)"

text \<open>
  C23: expansion delivers, batch by batch and in order, one row for every seed and each of its
  neighbours, first along the forward and then along the reverse adjacency as the direction asks;
  batches without a row are skipped, the end of the child is the end of the stream.
\<close>

theorem expand_delivers:
  assumes np: "numpy_laws np" and init: "expand_init fwd rvs dir a b None name = Inr cfg"
    and wf: "\<forall>g \<in> set (readers cfg). csr_wf g"
    and child: "drains h child bs child'" and ok: "\<forall>x \<in> set bs. batch_ok ar cfg x"
  shows "drains (expand_hooks np ar cfg h) (running child) (concat (map (expanded ar cfg) bs)) (running child')"
  using child ok
proof (induction rule: drains.induct)
  case (drained h st st')
  then show ?case
    by (auto intro!: drains.drained simp: op_next_running expand_hooks_def expand_next.simps)
next
  case (delivers h st x st' bs st'')
  let ?H = "expand_hooks np ar cfg h"
  from init have names: "ex_src_alias cfg = a" "ex_dst_alias cfg = b"
    by (auto simp: expand_init_def split: if_splits)
  from delivers.prems obtain seeds where seeds: "column_u64 ar x (ex_seed_column cfg) = Inr seeds"
      "\<forall>g \<in> set (readers cfg). seeds_ok g seeds"
    by (auto simp: batch_ok_def split: sum.splits)
  with wf have "fan_out np ar cfg seeds = Inr (case expanded ar cfg x of [] \<Rightarrow> None | y # _ \<Rightarrow> Some y)"
    using numpy_laws.fan_out_rows [OF np init] by (simp add: expanded_def names)
  then have step: "expand_next np ar cfg h st = (case expanded ar cfg x of
      [] \<Rightarrow> expand_next np ar cfg h st' | y # _ \<Rightarrow> Some (Inr (Some y), st'))"
    using delivers.hyps(1) seeds(1) by (subst expand_next.simps) (simp split: list.splits)
  have rest: "drains ?H (running st') (concat (map (expanded ar cfg) bs)) (running st'')"
    using delivers.IH delivers.prems by simp
  show ?case
  proof (cases "expanded ar cfg x")
    case Nil
    with step have "op_next ?H (running st) = op_next ?H (running st')"
      by (simp add: op_next_running expand_hooks_def)
    with Nil drains_same_next [OF rest] show ?thesis by simp
  next
    case (Cons y ys)
    then have "ys = []" by (auto simp: expanded_def pair_batch_def split: sum.splits if_splits)
    moreover from Cons step have "op_next ?H (running st) = Some (Inr (Some y), running st')"
      by (simp add: op_next_running expand_hooks_def)
    ultimately show ?thesis using Cons rest by (auto intro: drains.delivers)
  qed
qed

subsection \<open>Variable-length paths\<close>

definition seeds_of :: "'b batch_ops \<Rightarrow> string \<Rightarrow> 'b \<Rightarrow> u64 list" where
  "seeds_of ar name x = (case column_u64 ar x name of Inl _ \<Rightarrow> [] | Inr s \<Rightarrow> s)"

definition has_column :: "'b batch_ops \<Rightarrow> string \<Rightarrow> 'b \<Rightarrow> bool" where
  "has_column ar name x = (case column_u64 ar x name of Inl _ \<Rightarrow> False | Inr _ \<Rightarrow> True)"

lemma drain_seeds_drains:
  "drains h st bs st' \<Longrightarrow> \<forall>x \<in> set bs. has_column ar name x
    \<Longrightarrow> drain_seeds ar name h st acc = Some (Inr (acc @ concat (map (seeds_of ar name) bs)), st')"
proof (induction arbitrary: acc rule: drains.induct)
  case (drained h st st')
  then show ?case by (subst drain_seeds.simps) simp
next
  case (delivers h st x st' bs st'')
  then obtain s where "column_u64 ar x name = Inr s" by (auto simp: has_column_def split: sum.splits)
  then have "column_u64 ar x name = Inr s" "seeds_of ar name x = s" by (simp_all add: seeds_of_def)
  with delivers show ?case by (subst drain_seeds.simps) simp
qed

text \<open>The pairs of a seed and a vertex whose least hop count is in the range.\<close>

definition hop_range_pairs :: "csr_file \<Rightarrow> u64 set \<Rightarrow> int \<Rightarrow> int \<Rightarrow> pair set" where
  "hop_range_pairs g S hop_min hop_max =
     {p. \<exists>h. hop_min \<le> int h \<and> int h \<le> hop_max \<and> p \<in> first_at g (if hop_min = 0 then 0 else 1) S h}"

context numpy_laws
begin

lemma traverse_pairs:
  assumes g: "csr_closed g" and seeds: "\<forall>s \<in> set seeds. unat s < num_vertices g"
    and small: "length seeds * (num_vertices g + 1) * length (neighbors g) < 2 ^ 63"
    and cfg: "var_path_init g hop_min hop_max name a b = Inr cfg"
  shows "\<exists>out. distinct out \<and> set out = hop_range_pairs g (set seeds) hop_min hop_max
    \<and> traverse np ar cfg seeds = Inr (case pair_batch ar a b out of [] \<Rightarrow> None | x # _ \<Rightarrow> Some x)"
proof -
  let ?S = "set seeds" and ?fr = "zip seeds seeds" and ?lo = "if hop_min = 0 then 0 else 1 :: nat"
  let ?B = "length seeds * (num_vertices g + 1)"
  from cfg have c: "0 \<le> hop_min" "hop_min \<le> hop_max" "vp_forward cfg = g" "vp_hop_min cfg = hop_min"
    "vp_hop_max cfg = hop_max" "vp_src_alias cfg = a" "vp_dst_alias cfg = b"
    by (auto simp: var_path_init_def split: if_splits)
  have cols: "map fst ?fr = seeds" "map snd ?fr = seeds" by simp_all
  have diag: "set ?fr = {(s, s) | s. s \<in> ?S}" by (auto simp: set_zip in_set_conv_nth)
  then have fr: "set ?fr = first_at g ?lo ?S (1 - 1)" by (auto simp: first_at_def)
  obtain out0 seen0 where start: "(if hop_min = 0 then scan_pairs ?fr {} else ([], {})) = (out0, seen0)" by force
  have out0: "set out0 = (if hop_min = 0 then first_at g 0 ?S 0 else {})" "distinct out0"
      "seen0 = seen_before g ?lo ?S 1"
    using scan_pairs_spec [of ?fr "{}" out0 seen0] start diag
    by (auto simp: first_at_def seen_before_def split: if_splits)
  have sub: "set out0 \<subseteq> seen0" using out0 by (auto simp: first_at_def seen_before_def)
  have "card ?S * num_vertices g \<le> ?B"
    by (intro mult_le_mono card_length) simp
  moreover have "length ?fr \<le> ?B" by simp
  moreover have "?lo \<le> 1" by simp
  ultimately obtain out where out: "hop_loop np g hop_min (nat hop_max) 1 seeds seeds seen0 out0 = Inr out"
      "distinct out" "set out = set out0 \<union> emitted_from g ?lo ?S hop_min 1 (nat hop_max)"
    using hop_loop_spec [of g ?S ?lo 1 ?fr ?B seen0 out0 hop_min "nat hop_max"] g seeds small fr out0 sub cols
    by auto
  have "set out = hop_range_pairs g ?S hop_min hop_max"
  proof (cases "hop_min = 0")
    case True
    then have "int j \<le> hop_max \<longleftrightarrow> j = 0 \<or> 1 \<le> j \<and> j < 1 + nat hop_max" for j using c(2) by auto
    with True show ?thesis by (simp add: out(3) out0 emitted_from_def hop_range_pairs_def) blast
  next
    case False
    then have "hop_min \<le> int j \<and> int j \<le> hop_max \<longleftrightarrow> 1 \<le> j \<and> j < 1 + nat hop_max \<and> hop_min \<le> int j" for j
      using c(1,2) by auto
    with False show ?thesis by (simp add: out(3) out0 emitted_from_def hop_range_pairs_def) blast
  qed
  with out start show ?thesis
    by (intro exI [of _ out]) (simp add: traverse_def c pair_batch_def split: prod.splits)
qed

end

text \<open>
  C24: variable-length paths. Over a child that delivers its seeds, the operator delivers one
  batch that has, without duplicates, exactly the pairs of a seed and a vertex whose shortest
  walk has a hop count in the range, and then ends; it delivers none when there is no such pair.
\<close>

theorem var_path_delivers:
  assumes np: "numpy_laws np" and g: "csr_closed g" and cfg: "var_path_init g hop_min hop_max name a b = Inr cfg"
    and child: "drains h child bs child'" "\<forall>x \<in> set bs. has_column ar name x"
    and seeds: "seeds = concat (map (seeds_of ar name) bs)" "\<forall>s \<in> set seeds. unat s < num_vertices g"
    and small: "length seeds * (num_vertices g + 1) * length (neighbors g) < 2 ^ 63"
  shows "\<exists>out. distinct out \<and> set out = hop_range_pairs g (set seeds) hop_min hop_max
    \<and> drains (var_path_hooks np ar cfg h) (running (child, False)) (pair_batch ar a b out) (running (child', True))"
proof -
  obtain out where out: "distinct out" "set out = hop_range_pairs g (set seeds) hop_min hop_max"
      "traverse np ar cfg seeds = Inr (case pair_batch ar a b out of [] \<Rightarrow> None | x # _ \<Rightarrow> Some x)"
    using numpy_laws.traverse_pairs [OF np g seeds(2) small cfg] by blast
  have none: "seeds = [] \<Longrightarrow> out = []" using out(2) by (simp add: hop_range_pairs_def first_at_def)
  have name: "vp_seed_column cfg = name" using cfg by (auto simp: var_path_init_def split: if_splits)
  have first: "op_next (var_path_hooks np ar cfg h) (running (child, False))
      = Some (Inr (case pair_batch ar a b out of [] \<Rightarrow> None | x # _ \<Rightarrow> Some x), running (child', True))"
    using drain_seeds_drains [OF child, of "[]"] out(3) none seeds(1)
    by (auto simp: op_next_running var_path_hooks_def var_path_next_def name pair_batch_def)
  have last: "op_next (var_path_hooks np ar cfg h) (running (child', True)) = Some (Inr None, running (child', True))"
    by (simp add: op_next_running var_path_hooks_def var_path_next_def)
  have "drains (var_path_hooks np ar cfg h) (running (child, False)) (pair_batch ar a b out) (running (child', True))"
    using first last by (auto simp: pair_batch_def intro: drains.intros)
  with out show ?thesis by blast
qed

section \<open>Witnesses\<close>

text \<open>The path \<open>0 \<rightarrow> 1 \<rightarrow> 2\<close> with an edge back from \<open>2\<close> to \<open>0\<close>.\<close>

definition ring :: csr_file where
  "ring = \<lparr>num_vertices = 3, num_edges = 3, csr_flags = 0, offsets = [0, 1, 2, 3], neighbors = [1, 2, 0], eids = None\<rparr>"

lemma ring_closed: "csr_closed ring"
  by (simp add: csr_closed_def csr_wf_def ring_def)

abbreviation seed_batch :: "u64 list \<Rightarrow> (string \<times> u64 list) list" where
  "seed_batch xs \<equiv> [(''nid'', xs)]"

lemma expand_delivers_witness:
  "drains (expand_hooks numpy_lists batch_lists
      \<lparr>ex_forward = Some ring, ex_reverse = None, ex_direction = Out, ex_src_alias = ''a'', ex_dst_alias = ''b'',
       ex_edge_alias = None, ex_seed_column = ''nid''\<rparr> list_source)
    (running (running [seed_batch [], seed_batch [0, 2]])) [[(''a'', [0, 2]), (''b'', [1, 0])]] (running (running []))"
proof -
  let ?cfg = "\<lparr>ex_forward = Some ring, ex_reverse = None, ex_direction = Out, ex_src_alias = ''a'', ex_dst_alias = ''b'',
       ex_edge_alias = None, ex_seed_column = ''nid''\<rparr>"
  let ?bs = "[seed_batch [], seed_batch [0, 2]]"
  have child: "drains list_source (running ?bs) ?bs (running [])"
    using list_source_drains [of "running ?bs"] by simp
  have "drains (expand_hooks numpy_lists batch_lists ?cfg list_source) (running (running ?bs))
      (concat (map (expanded batch_lists ?cfg) ?bs)) (running (running []))"
  proof (rule expand_delivers [OF np_lists.numpy_laws_axioms _ _ child])
    show "expand_init (Some ring) None Out ''a'' ''b'' None ''nid'' = Inr ?cfg" by (simp add: expand_init_def)
    show "\<forall>g \<in> set (readers ?cfg). csr_wf g" using ring_closed by (simp add: readers_def csr_closed_def)
    show "\<forall>x \<in> set ?bs. batch_ok batch_lists ?cfg x"
      by (simp add: batch_ok_def batch_lists_def readers_def seeds_ok_def ring_def degree_def csr_start_def)
  qed
  moreover have "concat (map (expanded batch_lists ?cfg) ?bs) = [[(''a'', [0, 2]), (''b'', [1, 0])]]"
    by (simp add: expanded_def batch_lists_def readers_def expansion_def hop_pairs_def pair_batch_def adj_def
        csr_start_def ring_def py_slice_def)
  ultimately show ?thesis by simp
qed

lemma var_path_delivers_witness:
  "\<exists>cfg out. var_path_init ring 2 3 ''nid'' ''a'' ''b'' = Inr cfg
    \<and> set out = hop_range_pairs ring {0} 2 3
    \<and> drains (var_path_hooks numpy_lists batch_lists cfg list_source) (running (running [seed_batch [0]], False))
        (pair_batch batch_lists ''a'' ''b'' out) (running (running [], True))"
proof -
  let ?bs = "[seed_batch [0]]"
  obtain cfg where cfg: "var_path_init ring 2 3 ''nid'' ''a'' ''b'' = Inr cfg" by (simp add: var_path_init_def)
  have child: "drains list_source (running ?bs) ?bs (running [])"
    using list_source_drains [of "running ?bs"] by simp
  have "\<exists>out. distinct out \<and> set out = hop_range_pairs ring (set [0]) 2 3
    \<and> drains (var_path_hooks numpy_lists batch_lists cfg list_source) (running (running ?bs, False))
        (pair_batch batch_lists ''a'' ''b'' out) (running (running [], True))"
    by (rule var_path_delivers [OF np_lists.numpy_laws_axioms ring_closed cfg child])
      (simp_all add: has_column_def seeds_of_def batch_lists_def ring_def)
  with cfg show ?thesis by auto
qed

end
