(* ===== verification/Arrow.thy ===== *)
theory Arrow
  imports Json
begin

text \<open>
  The Apache Arrow values and functions the stores call, as a parameter of the model. A record
  batch is the record of its documented attributes: its schema, its columns and its number of
  rows; a table is its schema and its batches. What the code computes with them
  (\<open>RecordBatch.from_arrays\<close>, \<open>select\<close>, \<open>filter\<close>, the \<open>pyarrow.compute\<close> kernels, the IPC stream
  format), the \<open>zstandard\<close> and \<open>lz4\<close> codecs and the text form of JSON are fields of a record of
  functions. The documented behaviour the theorems rely on is the locale \<open>arrow_laws\<close>; it is
  stated for well-formed arguments only. The theory Arrow_Lists has an instance.
\<close>

section \<open>Values\<close>

datatype 'v cell = CNull | CInt int | CVal 'v

record arrow_field =
  fld_name :: string
  fld_type :: string
  fld_nullable :: bool

type_synonym schema = "arrow_field list"
type_synonym mask = "bool option list"

record 'v array =
  arr_type :: string
  cells :: "'v cell list"

record 'v batch =
  bschema :: schema
  bcols :: "'v array list"
  brows :: nat

record 'v table =
  tschema :: schema
  tbatches :: "'v batch list"

abbreviation names :: "schema \<Rightarrow> string list" where
  "names s \<equiv> map fld_name s"

abbreviation uint64 :: string where "uint64 \<equiv> ''uint64''"

definition table_rows :: "'v table \<Rightarrow> nat" where
  "table_rows t = sum_list (map brows (tbatches t))"

text \<open>A batch as Arrow builds it: one column per field, of the type and the length announced.\<close>

definition batch_ok :: "'v batch \<Rightarrow> bool" where
  "batch_ok b \<longleftrightarrow> map fld_type (bschema b) = map arr_type (bcols b)
     \<and> (\<forall>a \<in> set (bcols b). length (cells a) = brows b)"

definition uint64_cells :: "'v array \<Rightarrow> bool" where
  "uint64_cells a \<longleftrightarrow> arr_type a = uint64
     \<and> (\<forall>c \<in> set (cells a). c = CNull \<or> (\<exists>i. c = CInt i \<and> 0 \<le> i \<and> i < 2 ^ 64))"

text \<open>The column of a name, for a name the schema has.\<close>

definition col :: "'v batch \<Rightarrow> string \<Rightarrow> 'v array" where
  "col b n = the (map_of (zip (names (bschema b)) (bcols b)) n)"

definition sub_schema :: "schema \<Rightarrow> string list \<Rightarrow> schema" where
  "sub_schema s ns = map (\<lambda>n. the (map_of (map (\<lambda>f. (fld_name f, f)) s) n)) ns"

definition sub_batch :: "'v batch \<Rightarrow> string list \<Rightarrow> 'v batch" where
  "sub_batch b ns = b\<lparr>bschema := sub_schema (bschema b) ns, bcols := map (col b) ns\<rparr>"

text \<open>The entries of a list at the positions where a three-valued mask is true.\<close>

definition keep :: "mask \<Rightarrow> 'a list \<Rightarrow> 'a list" where
  "keep m xs = map snd (filter (\<lambda>(k, x). k = Some True) (zip m xs))"

definition keep_rows :: "'v batch \<Rightarrow> mask \<Rightarrow> 'v batch" where
  "keep_rows b m = b\<lparr>bcols := map (\<lambda>a. a\<lparr>cells := keep m (cells a)\<rparr>) (bcols b),
     brows := length (filter (\<lambda>k. k = Some True) m)\<rparr>"

section \<open>The functions\<close>

record 'v arrow =
  pa_uint64_array :: "int list \<Rightarrow> 'v array result"
  pa_uint64_nulls :: "nat \<Rightarrow> 'v array"
  pa_uint64_scalar :: "int \<Rightarrow> int result"
  pa_from_arrays :: "'v array list \<Rightarrow> string list \<Rightarrow> 'v batch result"
  pa_field :: "schema \<Rightarrow> string \<Rightarrow> arrow_field result"
  pa_column :: "'v batch \<Rightarrow> string \<Rightarrow> 'v array result"
  pa_select :: "'v batch \<Rightarrow> string list \<Rightarrow> 'v batch result"
  pa_filter :: "'v batch \<Rightarrow> mask \<Rightarrow> 'v batch result"
  pa_combine :: "'v table \<Rightarrow> 'v batch list result"
  pa_from_batches :: "'v batch list \<Rightarrow> schema option \<Rightarrow> 'v table result"
  pc_less_equal :: "'v array \<Rightarrow> int \<Rightarrow> mask result"
  pc_greater :: "'v array \<Rightarrow> int \<Rightarrow> mask result"
  pc_is_null :: "'v array \<Rightarrow> mask"
  pc_fill_null :: "mask \<Rightarrow> bool \<Rightarrow> mask"
  pc_and :: "mask \<Rightarrow> mask \<Rightarrow> mask result"
  pc_or :: "mask \<Rightarrow> mask \<Rightarrow> mask result"
  ipc_write :: "schema \<Rightarrow> 'v batch list \<Rightarrow> bytes result"
  ipc_read :: "bytes \<Rightarrow> 'v batch list result"
  schema_to_string :: "schema \<Rightarrow> string"
  zstd_compress :: "(bytes \<Rightarrow> bytes) option"
  zstd_decompress :: "(bytes \<Rightarrow> bytes result) option"
  lz4_compress :: "(bytes \<Rightarrow> bytes) option"
  lz4_decompress :: "(bytes \<Rightarrow> bytes result) option"
  json_dumps :: "json \<Rightarrow> string"
  json_loads :: "string \<Rightarrow> json result"

definition null_and :: "bool option \<Rightarrow> bool option \<Rightarrow> bool option" where
  "null_and a b = (case (a, b) of (Some x, Some y) \<Rightarrow> Some (x \<and> y) | _ \<Rightarrow> None)"

definition null_or :: "bool option \<Rightarrow> bool option \<Rightarrow> bool option" where
  "null_or a b = (case (a, b) of (Some x, Some y) \<Rightarrow> Some (x \<or> y) | _ \<Rightarrow> None)"

definition cmp_cell :: "(int \<Rightarrow> bool) \<Rightarrow> 'v cell \<Rightarrow> bool option" where
  "cmp_cell p c = (case c of CInt i \<Rightarrow> Some (p i) | _ \<Rightarrow> None)"

text \<open>Objects of strings and integers are all the JSON text the stores write.\<close>

definition flat_json :: "json \<Rightarrow> bool" where
  "flat_json v \<longleftrightarrow> (\<exists>kvs. v = JObj kvs \<and> distinct (map fst kvs)
     \<and> (\<forall>x \<in> snd ` set kvs. (\<exists>s. x = JStr s) \<or> (\<exists>i. x = JInt i)))"

definition opt_codec :: "(bytes \<Rightarrow> bytes) option \<Rightarrow> (bytes \<Rightarrow> bytes result) option \<Rightarrow> bool" where
  "opt_codec c d \<longleftrightarrow> (case (c, d) of (Some f, Some g) \<Rightarrow> \<forall>p. g (f p) = Inr p | (None, None) \<Rightarrow> True | _ \<Rightarrow> False)"

locale arrow_laws =
  fixes ar :: "'v arrow"
  assumes uint64_array: "\<forall>x \<in> set xs. 0 \<le> x \<and> x < 2 ^ 64 \<Longrightarrow>
      pa_uint64_array ar xs = Inr \<lparr>arr_type = uint64, cells = map CInt xs\<rparr>"
    and uint64_nulls: "pa_uint64_nulls ar n = \<lparr>arr_type = uint64, cells = replicate n CNull\<rparr>"
    and uint64_scalar: "0 \<le> x \<Longrightarrow> x < 2 ^ 64 \<Longrightarrow> pa_uint64_scalar ar x = Inr x"
    and from_arrays: "as \<noteq> [] \<Longrightarrow> length ns = length as \<Longrightarrow> \<forall>a \<in> set as. length (cells a) = n \<Longrightarrow>
      pa_from_arrays ar as ns = Inr \<lparr>bschema = map2 (\<lambda>x a. \<lparr>fld_name = x, fld_type = arr_type a, fld_nullable = True\<rparr>) ns as,
        bcols = as, brows = n\<rparr>"
    and field: "distinct (names s) \<Longrightarrow> f \<in> set s \<Longrightarrow> pa_field ar s (fld_name f) = Inr f"
    and column: "batch_ok b \<Longrightarrow> distinct (names (bschema b)) \<Longrightarrow> nm \<in> set (names (bschema b)) \<Longrightarrow>
      pa_column ar b nm = Inr (col b nm)"
    and select: "batch_ok b \<Longrightarrow> distinct (names (bschema b)) \<Longrightarrow> set ns \<subseteq> set (names (bschema b)) \<Longrightarrow>
      pa_select ar b ns = Inr (sub_batch b ns)"
    and filter_rows: "batch_ok b \<Longrightarrow> length m = brows b \<Longrightarrow> pa_filter ar b m = Inr (keep_rows b m)"
    and combine: "\<forall>b \<in> set (tbatches t). batch_ok b \<and> bschema b = tschema t \<Longrightarrow> 0 < table_rows t \<Longrightarrow>
      \<exists>b. pa_combine ar t = Inr [b] \<and> batch_ok b \<and> bschema b = tschema t \<and> brows b = table_rows t"
    and from_batches: "bs \<noteq> [] \<Longrightarrow> \<forall>b \<in> set bs. bschema b = s \<Longrightarrow>
      pa_from_batches ar bs None = Inr \<lparr>tschema = s, tbatches = bs\<rparr>"
    and no_batches: "pa_from_batches ar [] (Some s) = Inr \<lparr>tschema = s, tbatches = []\<rparr>"
    and less_equal: "uint64_cells a \<Longrightarrow> pc_less_equal ar a x = Inr (map (cmp_cell (\<lambda>i. i \<le> x)) (cells a))"
    and greater: "uint64_cells a \<Longrightarrow> pc_greater ar a x = Inr (map (cmp_cell (\<lambda>i. i > x)) (cells a))"
    and is_null: "pc_is_null ar a = map (\<lambda>c. Some (c = CNull)) (cells a)"
    and fill_null: "pc_fill_null ar m d = map (\<lambda>k. Some (case k of None \<Rightarrow> d | Some v \<Rightarrow> v)) m"
    and and_mask: "length m = length m' \<Longrightarrow> pc_and ar m m' = Inr (map2 null_and m m')"
    and or_mask: "length m = length m' \<Longrightarrow> pc_or ar m m' = Inr (map2 null_or m m')"
    and ipc: "\<forall>b \<in> set bs. batch_ok b \<and> bschema b = s \<Longrightarrow>
      \<exists>data. ipc_write ar s bs = Inr data \<and> ipc_read ar data = Inr bs"
    and zstd: "opt_codec (zstd_compress ar) (zstd_decompress ar)"
    and lz4: "opt_codec (lz4_compress ar) (lz4_decompress ar)"
    and json_text: "flat_json v \<Longrightarrow> json_loads ar (json_dumps ar v) = Inr (sort_keys v) \<and> py_str (json_dumps ar v)"

section \<open>Lemmas\<close>

lemma length_keep: "length m = length xs \<Longrightarrow> length (keep m xs) = length (filter (\<lambda>k. k = Some True) m)"
  unfolding keep_def by (induction m xs rule: list_induct2) auto

lemma keep_map: "keep m (map f xs) = map f (keep m xs)"
  by (auto simp: keep_def zip_map2 filter_map comp_def case_prod_unfold)

lemma keep_filter: "keep (map (\<lambda>x. Some (P x)) xs) xs = filter P xs"
  unfolding keep_def by (induction xs) auto

lemma keep_rows_ok: "batch_ok b \<Longrightarrow> length m = brows b \<Longrightarrow> batch_ok (keep_rows b m)"
  by (auto simp: batch_ok_def keep_rows_def length_keep comp_def)

lemma batch_ok_length: "batch_ok b \<Longrightarrow> length (bcols b) = length (bschema b)"
  by (metis batch_ok_def length_map)

lemma length_names: "batch_ok b \<Longrightarrow> length (names (bschema b)) = length (bcols b)"
  by (simp add: batch_ok_length)

lemma col_nth:
  assumes "batch_ok b" "distinct (names (bschema b))" "i < length (bschema b)"
  shows "col b (names (bschema b) ! i) = bcols b ! i"
  using assms by (simp add: col_def map_of_zip_nth batch_ok_length del: nth_map)

lemma sub_schema_map:
  assumes "distinct (names s)"
  shows "sub_schema s (map fld_name (filter P s)) = filter P s"
proof -
  have "the (map_of (map (\<lambda>f. (fld_name f, f)) s) (fld_name f)) = f" if "f \<in> set s" for f
    using assms that by (simp add: map_of_eq_Some_iff comp_def image_iff)
  then have "map (\<lambda>f. the (map_of (map (\<lambda>f. (fld_name f, f)) s) (fld_name f))) (filter P s) = filter P s"
    by (intro map_idI) simp
  then show ?thesis by (simp add: sub_schema_def comp_def)
qed

end
