(* ===== verification/Arrow_Lists.thy ===== *)
theory Arrow_Lists
  imports Arrow
begin

text \<open>
  An instance of the Arrow laws on lists, with string payloads: the kernels are their
  documented values, and batches and JSON objects are written as sequences of natural numbers
  in unary.
\<close>

section \<open>A codec of token sequences\<close>

definition tokens_bytes :: "nat list \<Rightarrow> bytes" where
  "tokens_bytes ts = concat (map (\<lambda>t. replicate t 1 @ [0]) ts)"

fun bytes_tokens :: "nat \<Rightarrow> bytes \<Rightarrow> nat list" where
  "bytes_tokens acc [] = []"
| "bytes_tokens acc (b # bs) = (if b = 0 then acc # bytes_tokens 0 bs else bytes_tokens (Suc acc) bs)"

lemma bytes_tokens_inverse: "bytes_tokens 0 (tokens_bytes ts) = ts"
proof -
  have one: "bytes_tokens acc (replicate t 1 @ 0 # bs) = (acc + t) # bytes_tokens 0 bs" for acc t bs
    by (induction t arbitrary: acc) auto
  show ?thesis by (induction ts) (simp_all add: tokens_bytes_def one)
qed

lemma length_tokens_bytes: "length (tokens_bytes ts) = sum_list ts + length ts"
  by (induction ts) (simp_all add: tokens_bytes_def)

type_synonym 'a reader = "nat list \<Rightarrow> ('a \<times> nat list) option"

text \<open>A printer and a reader that takes exactly the printed tokens off the front.\<close>

definition reads :: "('a \<Rightarrow> nat list) \<Rightarrow> 'a reader \<Rightarrow> bool" where
  "reads w r \<longleftrightarrow> (\<forall>x ts. r (w x @ ts) = Some (x, ts))"

definition get_nat :: "nat reader" where
  "get_nat ts = (case ts of [] \<Rightarrow> None | t # r \<Rightarrow> Some (t, r))"

definition put_list :: "('a \<Rightarrow> nat list) \<Rightarrow> 'a list \<Rightarrow> nat list" where
  "put_list w xs = length xs # concat (map w xs)"

fun get_n :: "'a reader \<Rightarrow> nat \<Rightarrow> 'a list reader" where
  "get_n r 0 ts = Some ([], ts)"
| "get_n r (Suc n) ts = (case r ts of None \<Rightarrow> None
     | Some (x, ts') \<Rightarrow> map_option (apfst (Cons x)) (get_n r n ts'))"

definition get_many :: "'a reader \<Rightarrow> 'a list reader" where
  "get_many r ts = (case ts of [] \<Rightarrow> None | n # ts' \<Rightarrow> get_n r n ts')"

definition put_pair :: "('a \<Rightarrow> nat list) \<Rightarrow> ('b \<Rightarrow> nat list) \<Rightarrow> 'a \<times> 'b \<Rightarrow> nat list" where
  "put_pair w v x = w (fst x) @ v (snd x)"

definition get_pair :: "'a reader \<Rightarrow> 'b reader \<Rightarrow> ('a \<times> 'b) reader" where
  "get_pair r q ts = (case r ts of None \<Rightarrow> None
     | Some (x, ts') \<Rightarrow> map_option (apfst (Pair x)) (q ts'))"

definition map_reader :: "('a \<Rightarrow> 'b) \<Rightarrow> 'a reader \<Rightarrow> 'b reader" where
  "map_reader f r ts = map_option (apfst f) (r ts)"

definition put_char :: "char \<Rightarrow> nat list" where "put_char c = [of_char c]"
definition get_char :: "char reader" where "get_char = map_reader char_of get_nat"

definition put_int :: "int \<Rightarrow> nat list" where
  "put_int i = (if i < 0 then [1, nat (- i)] else [0, nat i])"
definition get_int_token :: "int reader" where
  "get_int_token = map_reader (\<lambda>(s, n). if s = 1 then - int n else int n) (get_pair get_nat get_nat)"

lemma reads_nat: "reads (\<lambda>n. [n]) get_nat"
  by (simp add: reads_def get_nat_def)

lemma reads_list:
  assumes "reads w r"
  shows "reads (put_list w) (get_many r)"
proof -
  have "get_n r (length xs) (concat (map w xs) @ ts) = Some (xs, ts)" for xs ts
    using assms by (induction xs) (simp_all add: reads_def)
  then show ?thesis by (simp add: reads_def put_list_def get_many_def)
qed

lemma reads_pair: "reads w r \<Longrightarrow> reads v q \<Longrightarrow> reads (put_pair w v) (get_pair r q)"
  by (simp add: reads_def put_pair_def get_pair_def)

lemma reads_map: "reads w r \<Longrightarrow> (\<And>x. f (g x) = x) \<Longrightarrow> reads (\<lambda>x. w (g x)) (map_reader f r)"
  by (simp add: reads_def map_reader_def)

lemma reads_char: "reads put_char get_char"
  by (simp add: reads_def put_char_def get_char_def map_reader_def get_nat_def)

lemma reads_int: "reads put_int get_int_token"
  by (auto simp: reads_def put_int_def get_int_token_def map_reader_def get_pair_def get_nat_def)

lemmas reads_intros = reads_nat reads_list reads_pair reads_char reads_int

section \<open>Batches\<close>

type_synonym flat_field = "string \<times> string \<times> nat"
type_synonym flat_array = "string \<times> (nat \<times> int \<times> string) list"
type_synonym flat_batch = "flat_field list \<times> flat_array list \<times> nat"

fun cell_flat :: "string cell \<Rightarrow> nat \<times> int \<times> string" where
  "cell_flat CNull = (0, 0, [])"
| "cell_flat (CInt i) = (1, i, [])"
| "cell_flat (CVal v) = (2, 0, v)"

definition flat_cell :: "nat \<times> int \<times> string \<Rightarrow> string cell" where
  "flat_cell = (\<lambda>(k, i, v). if k = 0 then CNull else if k = 1 then CInt i else CVal v)"

definition batch_flat :: "string batch \<Rightarrow> flat_batch" where
  "batch_flat b = (map (\<lambda>f. (fld_name f, fld_type f, if fld_nullable f then 1 else 0)) (bschema b),
     map (\<lambda>a. (arr_type a, map cell_flat (cells a))) (bcols b), brows b)"

definition flat_batch :: "flat_batch \<Rightarrow> string batch" where
  "flat_batch = (\<lambda>(fs, cs, n). \<lparr>bschema = map (\<lambda>(x, t, k). \<lparr>fld_name = x, fld_type = t, fld_nullable = (k = 1)\<rparr>) fs,
     bcols = map (\<lambda>(t, vs). \<lparr>arr_type = t, cells = map flat_cell vs\<rparr>) cs, brows = n\<rparr>)"

lemma flat_cell_inverse [simp]: "flat_cell (cell_flat c) = c"
  by (cases c) (simp_all add: flat_cell_def)

lemma flat_batch_inverse: "flat_batch (batch_flat b) = b"
  by (cases b) (auto simp: flat_batch_def batch_flat_def comp_def intro!: map_idI)

definition put_batches :: "flat_batch list \<Rightarrow> nat list" where
  "put_batches = put_list (put_pair
     (put_list (put_pair (put_list put_char) (put_pair (put_list put_char) (\<lambda>n. [n]))))
     (put_pair (put_list (put_pair (put_list put_char)
        (put_list (put_pair (\<lambda>n. [n]) (put_pair put_int (put_list put_char)))))) (\<lambda>n. [n])))"

definition get_batches :: "flat_batch list reader" where
  "get_batches = get_many (get_pair
     (get_many (get_pair (get_many get_char) (get_pair (get_many get_char) get_nat)))
     (get_pair (get_many (get_pair (get_many get_char)
        (get_many (get_pair get_nat (get_pair get_int_token (get_many get_char)))))) get_nat))"

lemma reads_batches: "reads put_batches get_batches"
  unfolding put_batches_def get_batches_def by (intro reads_intros)

section \<open>JSON objects of strings and integers\<close>

fun leaf_flat :: "json \<Rightarrow> int \<times> int \<times> string" where
  "leaf_flat (JInt i) = (0, i, [])"
| "leaf_flat (JStr s) = (1, 0, s)"
| "leaf_flat _ = (2, 0, [])"

definition flat_leaf :: "int \<times> int \<times> string \<Rightarrow> json" where
  "flat_leaf = (\<lambda>(k, i, s). if k = 0 then JInt i else if k = 1 then JStr s else JNull)"

definition put_object :: "(string \<times> int \<times> int \<times> string) list \<Rightarrow> nat list" where
  "put_object = put_list (put_pair (put_list put_char) (put_pair put_int (put_pair put_int (put_list put_char))))"

definition get_object :: "(string \<times> int \<times> int \<times> string) list reader" where
  "get_object = get_many (get_pair (get_many get_char)
     (get_pair get_int_token (get_pair get_int_token (get_many get_char))))"

definition object_dumps :: "json \<Rightarrow> string" where
  "object_dumps v = (case sort_keys v of
     JObj kvs \<Rightarrow> map char_of_byte (tokens_bytes (put_object (map (\<lambda>(k, x). (k, leaf_flat x)) kvs)))
   | _ \<Rightarrow> [])"

definition object_loads :: "string \<Rightarrow> json result" where
  "object_loads s = (case get_object (bytes_tokens 0 (map byte_of_char s)) of
     None \<Rightarrow> Inl ValueError
   | Some (kvs, _) \<Rightarrow> Inr (JObj (map (\<lambda>(k, x). (k, flat_leaf x)) kvs)))"

lemma reads_object: "reads put_object get_object"
  unfolding put_object_def get_object_def by (intro reads_intros)

lemma object_text:
  assumes "flat_json v"
  shows "object_loads (object_dumps v) = Inr (sort_keys v) \<and> py_str (object_dumps v)"
proof -
  from assms obtain kvs where v: "v = JObj kvs"
    and leaf: "\<forall>x \<in> snd ` set kvs. (\<exists>s. x = JStr s) \<or> (\<exists>i. x = JInt i)"
    by (auto simp: flat_json_def)
  let ?s = "sort_key fst (map (\<lambda>(k, x). (k, sort_keys x)) kvs)"
  have leaf': "flat_leaf (leaf_flat x) = x" if "(k, x) \<in> set ?s" for k x
  proof -
    from that obtain y where y: "(k, y) \<in> set kvs" "x = sort_keys y" by auto
    with leaf have "(\<exists>s. y = JStr s) \<or> (\<exists>i. y = JInt i)" by (metis image_eqI snd_conv)
    with y show ?thesis by (auto simp: flat_leaf_def)
  qed
  have dumps: "object_dumps v = map char_of_byte (tokens_bytes (put_object (map (\<lambda>(k, x). (k, leaf_flat x)) ?s)))"
    by (simp add: object_dumps_def v sort_keys.simps(2))
  have "map (\<lambda>(k, x). (k, flat_leaf x)) (map (\<lambda>(k, x). (k, leaf_flat x)) ?s) = ?s"
    by (rule trans [OF map_map map_idI]) (use leaf' in \<open>auto simp del: set_sort set_map\<close>)
  then have "object_loads (object_dumps v) = Inr (JObj ?s)"
    using reads_object [unfolded reads_def, rule_format, of "map (\<lambda>(k, x). (k, leaf_flat x)) ?s" "[]"]
    by (simp add: object_loads_def dumps comp_def bytes_tokens_inverse)
  moreover have "py_str (object_dumps v)"
    unfolding dumps by (rule py_str_ascii) (auto simp: list_all_iff tokens_bytes_def)
  ultimately show ?thesis by (simp add: v sort_keys.simps(2))
qed

section \<open>The instance\<close>

definition pick :: "(string \<times> 'a) list \<Rightarrow> string \<Rightarrow> 'a result" where
  "pick kvs x = (case map_of kvs x of None \<Rightarrow> Inl KeyError | Some v \<Rightarrow> Inr v)"

definition arrow_lists :: "string arrow" where
  "arrow_lists = \<lparr>
     pa_uint64_array = (\<lambda>xs. if \<forall>x \<in> set xs. 0 \<le> x \<and> x < 2 ^ 64
        then Inr \<lparr>arr_type = uint64, cells = map CInt xs\<rparr> else Inl ValueError),
     pa_uint64_nulls = (\<lambda>n. \<lparr>arr_type = uint64, cells = replicate n CNull\<rparr>),
     pa_uint64_scalar = (\<lambda>x. if 0 \<le> x \<and> x < 2 ^ 64 then Inr x else Inl ValueError),
     pa_from_arrays = (\<lambda>as ns. if as \<noteq> [] \<and> length ns = length as \<and> (\<forall>a \<in> set as. length (cells a) = length (cells (hd as)))
        then Inr \<lparr>bschema = map2 (\<lambda>x a. \<lparr>fld_name = x, fld_type = arr_type a, fld_nullable = True\<rparr>) ns as,
               bcols = as, brows = length (cells (hd as))\<rparr>
        else Inl ValueError),
     pa_field = (\<lambda>s. pick (map (\<lambda>f. (fld_name f, f)) s)),
     pa_column = (\<lambda>b. pick (zip (names (bschema b)) (bcols b))),
     pa_select = (\<lambda>b ns. if set ns \<subseteq> set (names (bschema b)) then Inr (sub_batch b ns) else Inl KeyError),
     pa_filter = (\<lambda>b m. if length m = brows b then Inr (keep_rows b m) else Inl ValueError),
     pa_combine = (\<lambda>t. Inr (if table_rows t = 0 then []
        else [\<lparr>bschema = tschema t,
               bcols = map (\<lambda>i. \<lparr>arr_type = fld_type (tschema t ! i),
                                cells = concat (map (\<lambda>b. cells (bcols b ! i)) (tbatches t))\<rparr>) [0..<length (tschema t)],
               brows = table_rows t\<rparr>])),
     pa_from_batches = (\<lambda>bs s. case (bs, s) of
        ([], None) \<Rightarrow> Inl ValueError
      | ([], Some s) \<Rightarrow> Inr \<lparr>tschema = s, tbatches = []\<rparr>
      | (b # _, None) \<Rightarrow> (if \<forall>b' \<in> set bs. bschema b' = bschema b then Inr \<lparr>tschema = bschema b, tbatches = bs\<rparr> else Inl ValueError)
      | (_, Some s) \<Rightarrow> (if \<forall>b' \<in> set bs. bschema b' = s then Inr \<lparr>tschema = s, tbatches = bs\<rparr> else Inl ValueError)),
     pc_less_equal = (\<lambda>a x. Inr (map (cmp_cell (\<lambda>i. i \<le> x)) (cells a))),
     pc_greater = (\<lambda>a x. Inr (map (cmp_cell (\<lambda>i. i > x)) (cells a))),
     pc_is_null = (\<lambda>a. map (\<lambda>c. Some (c = CNull)) (cells a)),
     pc_fill_null = (\<lambda>m d. map (\<lambda>k. Some (case k of None \<Rightarrow> d | Some v \<Rightarrow> v)) m),
     pc_and = (\<lambda>m m'. if length m = length m' then Inr (map2 null_and m m') else Inl ValueError),
     pc_or = (\<lambda>m m'. if length m = length m' then Inr (map2 null_or m m') else Inl ValueError),
     ipc_write = (\<lambda>s bs. if \<forall>b \<in> set bs. bschema b = s then Inr (tokens_bytes (put_batches (map batch_flat bs))) else Inl ValueError),
     ipc_read = (\<lambda>data. case get_batches (bytes_tokens 0 data) of None \<Rightarrow> Inl OSError | Some (bs, _) \<Rightarrow> Inr (map flat_batch bs)),
     schema_to_string = (\<lambda>s. py_join ''; '' (map (\<lambda>f. fld_name f @ '': '' @ fld_type f) s)),
     zstd_compress = Some (\<lambda>p. 1 # p),
     zstd_decompress = Some (\<lambda>p. case p of [] \<Rightarrow> Inl ValueError | _ # q \<Rightarrow> Inr q),
     lz4_compress = None,
     lz4_decompress = None,
     json_dumps = object_dumps,
     json_loads = object_loads\<rparr>"

lemma combine_lists:
  assumes "\<forall>b \<in> set (tbatches t). batch_ok b \<and> bschema b = tschema t" "0 < table_rows t"
  shows "\<exists>b. pa_combine arrow_lists t = Inr [b] \<and> batch_ok b \<and> bschema b = tschema t \<and> brows b = table_rows t"
proof -
  have "(\<Sum>b\<leftarrow>tbatches t. length (cells (bcols b ! i))) = table_rows t" if "i < length (tschema t)" for i
    unfolding table_rows_def
    by (rule arg_cong [where f = sum_list], rule map_cong [OF refl])
      (use assms(1) that batch_ok_length in \<open>force simp: batch_ok_def\<close>)
  then show ?thesis using assms(2)
    by (auto simp: arrow_lists_def batch_ok_def length_concat comp_def intro!: nth_equalityI)
qed

interpretation ar_lists: arrow_laws arrow_lists
proof (unfold_locales, goal_cases)
  case (5 s f)
  then have "map_of (map (\<lambda>f. (fld_name f, f)) s) (fld_name f) = Some f"
    by (simp add: map_of_eq_Some_iff comp_def image_iff)
  then show ?case by (simp add: arrow_lists_def pick_def)
next
  case (6 b nm)
  then have "map_of (zip (names (bschema b)) (bcols b)) nm \<noteq> None"
    using length_names [of b] by (subst map_of_zip_is_None) blast+
  then show ?case by (auto simp: arrow_lists_def pick_def col_def)
next
  case (9 t) then show ?case by (rule combine_lists)
next
  case (10 bs s) then show ?case by (cases bs) (auto simp: arrow_lists_def)
next
  case (18 bs s)
  then show ?case
    using reads_batches [unfolded reads_def, rule_format, of "map batch_flat bs" "[]"]
    by (simp add: arrow_lists_def bytes_tokens_inverse comp_def flat_batch_inverse)
next
  case (21 v) then show ?case using object_text by (simp add: arrow_lists_def)
qed (auto simp: arrow_lists_def opt_codec_def)

end
