(* ===== verification/Column_Store.thy ===== *)
theory Column_Store
  imports Manifest Arrow_Lists
begin

text \<open>
  Column segments (\<open>storage/column_store.py\<close>): one Arrow IPC stream behind the file header,
  optionally compressed, with a JSON footer and a trailer that holds the footer's offset and its
  checksum. Writers buffer batches of one schema and write the file on close.
\<close>

definition FOOTER_TRAILER_SIZE :: nat where "FOOTER_TRAILER_SIZE = 12"

definition CODECS :: "string list" where "CODECS = [''none'', ''zstd'', ''lz4'']"

record column_footer =
  cf_format_version :: int
  cf_codec :: string
  cf_row_count :: int
  cf_batch_count :: int
  cf_schema :: string
  cf_uncompressed_size :: int
  cf_payload_size :: int

definition footer_from_json :: "json \<Rightarrow> column_footer result" where
  "footer_from_json v =
     rbind (item_str v ''codec'') (\<lambda>codec.
     if codec \<notin> set CODECS then raise_code ''CDB-7002''
     else
       rbind (item_int v ''format_version'') (\<lambda>version.
       rbind (item_int v ''row_count'') (\<lambda>rows.
       rbind (item_int v ''batch_count'') (\<lambda>batches.
       rbind (item_str v ''schema'') (\<lambda>sch.
       rbind (item_int v ''uncompressed_size'') (\<lambda>usize.
       rbind (item_int v ''payload_size'') (\<lambda>psize.
       Inr \<lparr>cf_format_version = version, cf_codec = codec, cf_row_count = rows, cf_batch_count = batches,
            cf_schema = sch, cf_uncompressed_size = usize, cf_payload_size = psize\<rparr>)))))))"

definition footer_to_json :: "column_footer \<Rightarrow> json" where
  "footer_to_json f =
     JObj [(''format_version'', JInt (cf_format_version f)),
           (''codec'', JStr (cf_codec f)),
           (''row_count'', JInt (cf_row_count f)),
           (''batch_count'', JInt (cf_batch_count f)),
           (''schema'', JStr (cf_schema f)),
           (''uncompressed_size'', JInt (cf_uncompressed_size f)),
           (''payload_size'', JInt (cf_payload_size f))]"

text \<open>\<open>None\<close> in the place of a codec's function: \<open>import_module\<close> raised \<open>ImportError\<close>.\<close>

definition segment_compress :: "'v arrow \<Rightarrow> bytes \<Rightarrow> string \<Rightarrow> bytes result" where
  "segment_compress ar payload codec =
     (if codec = ''none'' then Inr payload
      else if codec = ''zstd'' then
        (case zstd_compress ar of None \<Rightarrow> raise_code ''CDB-9006'' | Some f \<Rightarrow> Inr (f payload))
      else if codec = ''lz4'' then
        (case lz4_compress ar of None \<Rightarrow> raise_code ''CDB-9006'' | Some f \<Rightarrow> Inr (f payload))
      else Inl ValueError)"

definition segment_decompress :: "'v arrow \<Rightarrow> bytes \<Rightarrow> string \<Rightarrow> bytes result" where
  "segment_decompress ar payload codec =
     (if codec = ''none'' then Inr payload
      else if codec = ''zstd'' then
        (case zstd_decompress ar of None \<Rightarrow> raise_code ''CDB-9006'' | Some f \<Rightarrow> f payload)
      else if codec = ''lz4'' then
        (case lz4_decompress ar of None \<Rightarrow> raise_code ''CDB-9006'' | Some f \<Rightarrow> f payload)
      else Inl ValueError)"

section \<open>Writing\<close>

record 'v column_writer =
  cw_path :: path
  cw_codec :: string
  cw_batches :: "'v batch list"
  cw_closed :: bool

definition column_writer :: "path \<Rightarrow> string \<Rightarrow> 'v column_writer result" where
  "column_writer p codec =
     (if codec \<notin> set CODECS then Inl ValueError
      else Inr \<lparr>cw_path = p, cw_codec = codec, cw_batches = [], cw_closed = False\<rparr>)"

definition writer_append :: "'v batch \<Rightarrow> 'v column_writer \<Rightarrow> 'v column_writer result" where
  "writer_append b w =
     (if cw_closed w then raise_code ''CDB-7003''
      else if cw_batches w \<noteq> [] \<and> bschema b \<noteq> bschema (hd (cw_batches w)) then raise_code ''CDB-7001''
      else Inr (w\<lparr>cw_batches := cw_batches w @ [b]\<rparr>))"

text \<open>The footer and the bytes of the file.\<close>

definition segment_bytes :: "'v arrow \<Rightarrow> 'v batch list \<Rightarrow> string \<Rightarrow> (column_footer \<times> bytes) result" where
  "segment_bytes ar bs codec =
     rbind (ipc_write ar (bschema (hd bs)) bs) (\<lambda>ipc_payload.
     rbind (segment_compress ar ipc_payload codec) (\<lambda>payload.
     let footer = \<lparr>cf_format_version = 1, cf_codec = codec,
           cf_row_count = int (sum_list (map brows bs)), cf_batch_count = int (length bs),
           cf_schema = schema_to_string ar (bschema (hd bs)),
           cf_uncompressed_size = int (length ipc_payload), cf_payload_size = int (length payload)\<rparr>;
         footer_bytes = utf8_encode (json_dumps ar (footer_to_json footer));
         footer_crc = crc32 footer_bytes;
         footer_offset = HEADER_SIZE + length payload
     in
     rbind (pack_header MAGIC FORMAT_VERSION DEFAULT_PAGE_SIZE 0) (\<lambda>header.
     rbind (pack_u64 footer_offset) (\<lambda>offs.
     rbind (pack_u32 footer_crc) (\<lambda>crc.
     Inr (footer, header @ payload @ footer_bytes @ offs @ crc))))))"

definition writer_close ::
  "'v arrow \<Rightarrow> fs \<Rightarrow> 'v column_writer \<Rightarrow> column_footer result \<times> 'v column_writer \<times> fs" where
  "writer_close ar fs w =
     (if cw_closed w then (raise_code ''CDB-7003'', w, fs)
      else if cw_batches w = [] then (raise_code ''CDB-7001'', w, fs)
      else
        (case mkdirs fs [] (butlast (cw_path w)) of
           Inl e \<Rightarrow> (Inl e, w, fs)
         | Inr fs1 \<Rightarrow>
             (case segment_bytes ar (cw_batches w) (cw_codec w) of
                Inl e \<Rightarrow> (Inl e, w, fs1)
              | Inr (footer, data) \<Rightarrow>
                  (case write_file_atomic (BinFile data) fs1 (cw_path w) of
                     (Inl e, fs2) \<Rightarrow> (Inl e, w, fs2)
                   | (Inr _, fs2) \<Rightarrow> (Inr footer, w\<lparr>cw_closed := True\<rparr>, fs2)))))"

definition write_column_segment ::
  "'v arrow \<Rightarrow> fs \<Rightarrow> path \<Rightarrow> 'v batch list \<Rightarrow> string \<Rightarrow> column_footer result \<times> fs" where
  "write_column_segment ar fs p bs codec =
     (case rbind (column_writer p codec) (rfold writer_append bs) of
        Inl e \<Rightarrow> (Inl e, fs)
      | Inr w \<Rightarrow> (case writer_close ar fs w of (r, _, fs') \<Rightarrow> (r, fs')))"

section \<open>Reading\<close>

definition segment_from_bytes :: "'v arrow \<Rightarrow> bytes \<Rightarrow> (column_footer \<times> bytes) result" where
  "segment_from_bytes ar data =
     (if length data < HEADER_SIZE + FOOTER_TRAILER_SIZE then raise_code ''CDB-7001''
      else if take (length MAGIC) data \<noteq> MAGIC then raise_code ''CDB-7001''
      else
        let trailer = drop (length data - FOOTER_TRAILER_SIZE) data;
            footer_offset = le_val (take 8 trailer);
            expected_crc = le_val (drop 8 trailer)
        in
        if footer_offset < HEADER_SIZE \<or> footer_offset > length data - FOOTER_TRAILER_SIZE
        then raise_code ''CDB-7001''
        else
          let footer_bytes = py_slice footer_offset (length data - FOOTER_TRAILER_SIZE) data in
          if crc32 footer_bytes \<noteq> expected_crc then raise_code ''CDB-7001''
          else
            rbind (utf8_decode footer_bytes) (\<lambda>text.
            rbind (json_loads ar text) (\<lambda>v.
            rbind (footer_from_json v) (\<lambda>footer.
            let payload = py_slice HEADER_SIZE footer_offset data in
            if int (length payload) \<noteq> cf_payload_size footer then raise_code ''CDB-7001''
            else Inr (footer, payload)))))"

definition read_segment :: "'v arrow \<Rightarrow> fs \<Rightarrow> path \<Rightarrow> (column_footer \<times> bytes) result" where
  "read_segment ar fs p =
     (case fs p of
        Some (BinFile data) \<Rightarrow> segment_from_bytes ar data
      | Some Dir \<Rightarrow> Inl OSError
      | None \<Rightarrow> Inl OSError
      | Some _ \<Rightarrow> raise_code ''CDB-7001'')"

text \<open>\<open>ColumnReader(path).record_batches()\<close>.\<close>

definition record_batches :: "'v arrow \<Rightarrow> fs \<Rightarrow> path \<Rightarrow> 'v batch list result" where
  "record_batches ar fs p =
     rbind (read_segment ar fs p) (\<lambda>(footer, payload).
     rbind (segment_decompress ar payload (cf_codec footer)) (\<lambda>stream_bytes.
     ipc_read ar stream_bytes))"

definition read_column_segment :: "'v arrow \<Rightarrow> fs \<Rightarrow> path \<Rightarrow> 'v table result" where
  "read_column_segment ar fs p = rbind (record_batches ar fs p) (\<lambda>bs. pa_from_batches ar bs None)"

section \<open>Lemmas\<close>

lemma footer_to_json_flat: "flat_json (footer_to_json f)"
  by (simp add: flat_json_def footer_to_json_def)

lemma footer_round_trip:
  "cf_codec f \<in> set CODECS \<Longrightarrow> footer_from_json (sort_keys (footer_to_json f)) = Inr f"
  by (simp add: footer_from_json_def footer_to_json_def field_defs json_simps)

text \<open>A codec whose module can be imported, and the payload a segment stores.\<close>

definition codec_ready :: "'v arrow \<Rightarrow> string \<Rightarrow> bool" where
  "codec_ready ar codec \<longleftrightarrow> codec = ''none'' \<or> codec = ''zstd'' \<and> zstd_compress ar \<noteq> None
     \<or> codec = ''lz4'' \<and> lz4_compress ar \<noteq> None"

definition segment_payload :: "'v arrow \<Rightarrow> 'v batch list \<Rightarrow> string \<Rightarrow> bytes result" where
  "segment_payload ar bs codec =
     rbind (ipc_write ar (bschema (hd bs)) bs) (\<lambda>ipc. segment_compress ar ipc codec)"

text \<open>Its footer offset fits the eight bytes of the trailer.\<close>

definition payload_fits :: "'v arrow \<Rightarrow> 'v batch list \<Rightarrow> string \<Rightarrow> bool" where
  "payload_fits ar bs codec \<longleftrightarrow>
     (case segment_payload ar bs codec of Inl _ \<Rightarrow> True | Inr p \<Rightarrow> HEADER_SIZE + length p < 2 ^ 64)"

definition same_schema :: "'v batch list \<Rightarrow> bool" where
  "same_schema bs \<longleftrightarrow> bs \<noteq> [] \<and> (\<forall>b \<in> set bs. batch_ok b \<and> bschema b = bschema (hd bs))"

text \<open>The footer of a written segment.\<close>

definition footer_of :: "'v batch list \<Rightarrow> string \<Rightarrow> column_footer \<Rightarrow> bool" where
  "footer_of bs codec f \<longleftrightarrow> cf_codec f = codec \<and> cf_row_count f = int (sum_list (map brows bs))
     \<and> cf_batch_count f = int (length bs)"

context arrow_laws
begin

lemma compress_round_trip:
  assumes "codec_ready ar codec"
  shows "\<exists>q. segment_compress ar p codec = Inr q \<and> segment_decompress ar q codec = Inr p"
  using assms zstd lz4
  by (auto simp: codec_ready_def segment_compress_def segment_decompress_def opt_codec_def split: option.splits)

lemma codec_ready_known: "codec_ready ar codec \<Longrightarrow> codec \<in> set CODECS"
  by (auto simp: codec_ready_def CODECS_def)

text \<open>The bytes of a segment read back as its footer and payload.\<close>

lemma segment_bytes_read:
  assumes "same_schema bs" "codec_ready ar codec" "payload_fits ar bs codec"
  shows "\<exists>f data. segment_bytes ar bs codec = Inr (f, data) \<and> footer_of bs codec f
    \<and> rbind (segment_from_bytes ar data) (\<lambda>(f', payload).
        rbind (segment_decompress ar payload (cf_codec f')) (ipc_read ar)) = Inr bs"
proof -
  from assms(1) obtain d where d: "ipc_write ar (bschema (hd bs)) bs = Inr d" "ipc_read ar d = Inr bs"
    using ipc [of bs "bschema (hd bs)"] unfolding same_schema_def by blast
  from compress_round_trip [OF assms(2)] obtain q where
    q: "segment_compress ar d codec = Inr q" "segment_decompress ar q codec = Inr d" by blast
  have fits: "HEADER_SIZE + length q < 256 ^ 8"
    using assms(3) d q by (simp add: payload_fits_def segment_payload_def)
  let ?f = "\<lparr>cf_format_version = 1, cf_codec = codec,
           cf_row_count = int (sum_list (map brows bs)), cf_batch_count = int (length bs),
           cf_schema = schema_to_string ar (bschema (hd bs)),
           cf_uncompressed_size = int (length d), cf_payload_size = int (length q)\<rparr>"
  define ftext where "ftext = json_dumps ar (footer_to_json ?f)"
  define offs where "offs = le_bytes 8 (HEADER_SIZE + length q)"
  define crc where "crc = le_bytes 4 (crc32 (utf8_encode ftext))"
  let ?data = "file_header @ q @ utf8_encode ftext @ offs @ crc"
  have ftext: "json_loads ar ftext = Inr (sort_keys (footer_to_json ?f))" "py_str ftext"
    using json_text [OF footer_to_json_flat] by (auto simp: ftext_def)
  have w: "segment_bytes ar bs codec = Inr (?f, ?data)"
    using fits by (simp add: segment_bytes_def d q Let_def pack_header_default struct_pack_def
        offs_def crc_def ftext_def)
  have len: "length offs = 8" "length crc = 4" by (simp_all add: offs_def crc_def)
  have le: "le_val offs = HEADER_SIZE + length q" "le_val crc = crc32 (utf8_encode ftext)"
    using fits by (simp_all add: offs_def crc_def le_val_le_bytes)
  have trailer: "drop (length ?data - FOOTER_TRAILER_SIZE) ?data = offs @ crc"
    using len by (simp add: FOOTER_TRAILER_SIZE_def)
  have foot: "py_slice (HEADER_SIZE + length q) (length ?data - FOOTER_TRAILER_SIZE) ?data = utf8_encode ftext"
    using len by (simp add: py_slice_def FOOTER_TRAILER_SIZE_def)
  have pay: "py_slice HEADER_SIZE (HEADER_SIZE + length q) ?data = q"
    by (simp add: py_slice_def)
  have magic: "take (length MAGIC) ?data = MAGIC" by (simp add: HEADER_SIZE_def)
  have "segment_from_bytes ar ?data = Inr (?f, q)"
    unfolding segment_from_bytes_def trailer Let_def magic
    using len le foot pay ftext codec_ready_known [OF assms(2)]
    by (simp add: FOOTER_TRAILER_SIZE_def footer_round_trip utf8_decode_encode)
  with w d q show ?thesis by (simp add: footer_of_def)
qed

end

text \<open>The writer fed with batches of one schema.\<close>

lemma writer_append_all:
  assumes "\<not> cw_closed w" "\<forall>b \<in> set (cw_batches w @ bs). bschema b = s"
  shows "rfold writer_append bs w = Inr (w\<lparr>cw_batches := cw_batches w @ bs\<rparr>)"
  using assms
proof (induction bs arbitrary: w)
  case (Cons b bs)
  from Cons.prems have "writer_append b w = Inr (w\<lparr>cw_batches := cw_batches w @ [b]\<rparr>)"
    by (cases "cw_batches w") (simp_all add: writer_append_def)
  moreover have "rfold writer_append bs (w\<lparr>cw_batches := cw_batches w @ [b]\<rparr>)
      = Inr (w\<lparr>cw_batches := cw_batches w @ [b] @ bs\<rparr>)"
    using Cons.IH [of "w\<lparr>cw_batches := cw_batches w @ [b]\<rparr>"] Cons.prems by simp
  ultimately show ?case by simp
qed simp

lemma writable_mkdirs:
  assumes "writable fs p" "mkdirs fs [] (butlast p) = Inr fs1"
  shows "writable fs1 p"
  using assms by (auto simp: writable_def mkdirs_parent mkdirs_idem)

lemma writer_close_read:
  assumes laws: "arrow_laws ar" and bs: "same_schema (cw_batches w)"
    and codec: "codec_ready ar (cw_codec w)" "payload_fits ar (cw_batches w) (cw_codec w)"
    and "\<not> cw_closed w" "writable fs (cw_path w)"
  shows "\<exists>f fs' fs1 data. writer_close ar fs w = (Inr f, w\<lparr>cw_closed := True\<rparr>, fs')
    \<and> footer_of (cw_batches w) (cw_codec w) f
    \<and> record_batches ar fs' (cw_path w) = Inr (cw_batches w)
    \<and> mkdirs fs [] (butlast (cw_path w)) = Inr fs1
    \<and> write_file_atomic (BinFile data) fs1 (cw_path w) = (Inr (), fs')"
proof -
  from arrow_laws.segment_bytes_read [OF laws bs codec] obtain f data where
    s: "segment_bytes ar (cw_batches w) (cw_codec w) = Inr (f, data)" "footer_of (cw_batches w) (cw_codec w) f"
    and r: "rbind (segment_from_bytes ar data) (\<lambda>(f', payload).
        rbind (segment_decompress ar payload (cf_codec f')) (ipc_read ar)) = Inr (cw_batches w)"
    by blast
  from assms(6) obtain fs1 where fs1: "mkdirs fs [] (butlast (cw_path w)) = Inr fs1" and p: "cw_path w \<noteq> []"
    by (auto simp: writable_def)
  then have "writable fs1 (cw_path w)" using assms(6) writable_mkdirs by blast
  then obtain fs' where w: "write_file_atomic (BinFile data) fs1 (cw_path w) = (Inr (), fs')"
    using writable_write by blast
  then have "fs' (cw_path w) = Some (BinFile data)" using p by (rule write_file_atomic_read)
  with r have "record_batches ar fs' (cw_path w) = Inr (cw_batches w)"
    by (simp add: record_batches_def read_segment_def)
  moreover have "writer_close ar fs w = (Inr f, w\<lparr>cw_closed := True\<rparr>, fs')"
    using s fs1 w assms(5) bs by (simp add: writer_close_def same_schema_def)
  ultimately show ?thesis using s(2) fs1 w by blast
qed

section \<open>Properties\<close>


definition sample_batch :: "string batch" where
  "sample_batch = \<lparr>bschema = [\<lparr>fld_name = [CHR 0x01], fld_type = [CHR 0x02], fld_nullable = True\<rparr>],
     bcols = [\<lparr>arr_type = [CHR 0x02], cells = [CInt 1, CNull]\<rparr>], brows = 2\<rparr>"


end
