(* ===== verification/Chunk_Files.thy ===== *)
theory Chunk_Files
  imports Column_Store Bundle Wal Mvcc
begin

text \<open>
  What the node and the edge stores share: the references to chunk files, the stamping of a batch
  with identifiers and version columns, writing it as a chunk, and scanning the chunks with
  snapshot visibility. The node module spells the identifier \<open>nid\<close>, the edge module \<open>eid\<close>;
  both repeat the code of this theory.
\<close>

section \<open>Chunk references\<close>

definition CHUNKS_DIRNAME :: string where "CHUNKS_DIRNAME = ''chunks''"
definition CREATED_LSN_COLUMN :: string where "CREATED_LSN_COLUMN = ''_created_lsn''"
definition DELETED_LSN_COLUMN :: string where "DELETED_LSN_COLUMN = ''_deleted_lsn''"
definition MVCC_COLUMNS :: "string list" where "MVCC_COLUMNS = [CREATED_LSN_COLUMN, DELETED_LSN_COLUMN]"

record chunk_ref =
  ch_path :: string
  ch_row_count :: int
  ch_start :: int
  ch_end :: int

text \<open>\<open>k\<close> is \<open>nid\<close> or \<open>eid\<close>.\<close>

definition chunk_to_json :: "string \<Rightarrow> chunk_ref \<Rightarrow> json" where
  "chunk_to_json k c =
     JObj [(''path'', JStr (ch_path c)), (''row_count'', JInt (ch_row_count c)),
           (''start_'' @ k, JInt (ch_start c)), (''end_'' @ k, JInt (ch_end c))]"

definition chunk_from_json :: "string \<Rightarrow> json \<Rightarrow> chunk_ref result" where
  "chunk_from_json k v =
     rbind (item_str v ''path'') (\<lambda>p.
     rbind (item_int v ''row_count'') (\<lambda>n.
     rbind (item_int v (''start_'' @ k)) (\<lambda>s.
     rbind (item_int v (''end_'' @ k)) (\<lambda>e.
     Inr \<lparr>ch_path = p, ch_row_count = n, ch_start = s, ch_end = e\<rparr>))))"

text \<open>\<open>root / relpath\<close>: the components between slashes; an absolute path replaces \<open>root\<close>.\<close>

fun split_slash :: "string \<Rightarrow> string list" where
  "split_slash [] = [[]]"
| "split_slash (c # cs) =
     (if c = CHR ''/'' then [] # split_slash cs
      else (case split_slash cs of p # ps \<Rightarrow> (c # p) # ps | [] \<Rightarrow> [[c]]))"

definition join_path :: "path \<Rightarrow> string \<Rightarrow> path" where
  "join_path root s =
     (let ps = filter (\<lambda>p. p \<noteq> [] \<and> p \<noteq> ''.'') (split_slash s) in
      case s of c # cs \<Rightarrow> if c = CHR ''/'' then ps else root @ ps | [] \<Rightarrow> root)"

definition chunk_name :: "nat \<Rightarrow> string" where
  "chunk_name i = zfill 8 (decimal i) @ ''.col''"

definition chunk_relpath :: "nat \<Rightarrow> string" where
  "chunk_relpath i = CHUNKS_DIRNAME @ ''/'' @ chunk_name i"

section \<open>Columns\<close>

definition public_names :: "schema \<Rightarrow> string list" where
  "public_names s = filter (\<lambda>n. n \<notin> set MVCC_COLUMNS) (names s)"

definition select_public :: "'v arrow \<Rightarrow> 'v batch \<Rightarrow> 'v batch result" where
  "select_public ar b =
     (let ns = public_names (bschema b) in if ns = names (bschema b) then Inr b else pa_select ar b ns)"

definition filter_visible :: "'v arrow \<Rightarrow> 'v batch \<Rightarrow> int \<Rightarrow> 'v batch result" where
  "filter_visible ar b snapshot_lsn =
     (let ns = names (bschema b) in
      if CREATED_LSN_COLUMN \<notin> set ns then Inr b
      else
        rbind (pa_column ar b CREATED_LSN_COLUMN) (\<lambda>created.
        rbind (if DELETED_LSN_COLUMN \<in> set ns then pa_column ar b DELETED_LSN_COLUMN
               else Inr (pa_uint64_nulls ar (brows b))) (\<lambda>deleted.
        rbind (pa_uint64_scalar ar snapshot_lsn) (\<lambda>lsn.
        rbind (pc_less_equal ar created lsn) (\<lambda>created_ok.
        let deleted_null = pc_is_null ar deleted in
        rbind (pc_greater ar deleted lsn) (\<lambda>after.
        let deleted_after = pc_fill_null ar after False in
        rbind (pc_or ar deleted_null deleted_after) (\<lambda>gone.
        rbind (pc_and ar created_ok gone) (\<lambda>visible.
        pa_filter ar b visible))))))))"

text \<open>One batch of a scan.\<close>

definition scan_batch :: "'v arrow \<Rightarrow> string list option \<Rightarrow> int option \<Rightarrow> 'v batch \<Rightarrow> 'v batch result" where
  "scan_batch ar columns snapshot_lsn b =
     rbind (case snapshot_lsn of None \<Rightarrow> Inr b | Some lsn \<Rightarrow> filter_visible ar b lsn) (\<lambda>b'.
     case columns of Some cs \<Rightarrow> pa_select ar b' cs | None \<Rightarrow> select_public ar b')"

definition scan_chunks ::
  "'v arrow \<Rightarrow> fs \<Rightarrow> path \<Rightarrow> chunk_ref list \<Rightarrow> string list option \<Rightarrow> int option \<Rightarrow> 'v batch list result" where
  "scan_chunks ar fs root chunks columns snapshot_lsn =
     rbind (rmap (\<lambda>c. rbind (record_batches ar fs (join_path root (ch_path c)))
                        (rmap (scan_batch ar columns snapshot_lsn))) chunks)
       (\<lambda>bss. Inr (concat bss))"

text \<open>The schema of a non-empty store: the one of its first chunk.\<close>

definition first_chunk_schema :: "'v arrow \<Rightarrow> fs \<Rightarrow> path \<Rightarrow> chunk_ref list \<Rightarrow> schema result" where
  "first_chunk_schema ar fs root chunks =
     rbind (read_column_segment ar fs (join_path root (ch_path (hd chunks)))) (\<lambda>t. Inr (tschema t))"

section \<open>Appending\<close>

text \<open>The record batch of an argument that may be a table; \<open>empty_code\<close> is the store's error.\<close>

datatype 'v batch_arg = ABatch "'v batch" | ATable "'v table"

definition record_batch_of :: "'v arrow \<Rightarrow> string \<Rightarrow> 'v batch_arg \<Rightarrow> 'v batch result" where
  "record_batch_of ar empty_code arg =
     (case arg of
        ABatch b \<Rightarrow> Inr b
      | ATable t \<Rightarrow>
          if table_rows t = 0 then raise_code empty_code
          else rbind (pa_combine ar t) (\<lambda>bs. case bs of b # _ \<Rightarrow> Inr b | [] \<Rightarrow> Inl IndexError))"

text \<open>The batch with the identifiers \<open>start, start + 1, ...\<close> in front and the version columns behind.\<close>

definition stamp_batch :: "'v arrow \<Rightarrow> string \<Rightarrow> int \<Rightarrow> int \<Rightarrow> 'v batch \<Rightarrow> 'v batch result" where
  "stamp_batch ar id_column start lsn b =
     rbind (pa_uint64_array ar (map (\<lambda>i. start + int i) [0..<brows b])) (\<lambda>id_array.
     rbind (pa_uint64_array ar (replicate (brows b) lsn)) (\<lambda>created_array.
     let deleted_array = pa_uint64_nulls ar (brows b) in
     pa_from_arrays ar (id_array # bcols b @ [created_array, deleted_array])
       (id_column # names (bschema b) @ [CREATED_LSN_COLUMN, DELETED_LSN_COLUMN])))"

text \<open>The chunk file number \<open>i\<close> and its reference.\<close>

definition write_chunk ::
  "'v arrow \<Rightarrow> fs \<Rightarrow> path \<Rightarrow> string \<Rightarrow> nat \<Rightarrow> int \<Rightarrow> int \<Rightarrow> 'v batch \<Rightarrow> chunk_ref result \<times> fs" where
  "write_chunk ar fs root codec i start_id end_id b =
     (case write_column_segment ar fs (join_path root (chunk_relpath i)) [b] codec of
        (Inl e, fs') \<Rightarrow> (Inl e, fs')
      | (Inr footer, fs') \<Rightarrow>
          (Inr \<lparr>ch_path = chunk_relpath i, ch_row_count = cf_row_count footer,
                ch_start = start_id, ch_end = end_id\<rparr>, fs'))"

section \<open>Checks\<close>

text \<open>
  The regular expression \<open>^[A-Za-z_][A-Za-z0-9_\-]*$\<close> with \<open>match\<close>: the \<open>$\<close> also matches
  before a final newline.
\<close>

definition ascii_between :: "char \<Rightarrow> char \<Rightarrow> char \<Rightarrow> bool" where
  "ascii_between a b c \<longleftrightarrow> (of_char a :: nat) \<le> of_char c \<and> (of_char c :: nat) \<le> of_char b"

definition name_start :: "char \<Rightarrow> bool" where
  "name_start c \<longleftrightarrow> ascii_between (CHR ''A'') (CHR ''Z'') c \<or> ascii_between (CHR ''a'') (CHR ''z'') c \<or> c = CHR ''_''"

definition name_char :: "char \<Rightarrow> bool" where
  "name_char c \<longleftrightarrow> name_start c \<or> ascii_between (CHR ''0'') (CHR ''9'') c \<or> c = CHR ''-''"

definition local_name_match :: "string \<Rightarrow> bool" where
  "local_name_match s =
     (let t = (if s \<noteq> [] \<and> last s = CHR 0x0A then butlast s else s)
      in t \<noteq> [] \<and> name_start (hd t) \<and> list_all name_char t)"

text \<open>The loop over the column names that compares the types.\<close>

definition same_types :: "'v arrow \<Rightarrow> string \<Rightarrow> schema \<Rightarrow> schema \<Rightarrow> string list \<Rightarrow> unit result" where
  "same_types ar code expected actual ns =
     rfold (\<lambda>nm u.
       rbind (pa_field ar expected nm) (\<lambda>f.
       rbind (pa_field ar actual nm) (\<lambda>g.
       if fld_type f \<noteq> fld_type g then raise_code code else Inr ()))) ns ()"

section \<open>Names of chunk files\<close>

definition digits_value :: "string \<Rightarrow> nat" where
  "digits_value s = foldl (\<lambda>v c. 10 * v + (of_char c - 48)) 0 s"

lemma digits_value_decimal: "digits_value (decimal n) = n"
proof (induction n rule: decimal.induct)
  case (1 n)
  have "of_char (digit d) = 48 + d" if "d < 10" for d using that by (simp add: digit_def)
  with 1 show ?case by (subst decimal.simps) (simp add: digits_value_def)
qed

lemma digits_value_zfill: "digits_value (zfill w s) = digits_value s"
proof -
  have "foldl (\<lambda>v c. 10 * v + (of_char c - 48)) 0 (replicate n (digit 0)) = (0 :: nat)" for n
    by (induction n) (simp_all add: digit_def)
  then show ?thesis by (simp add: digits_value_def zfill_def)
qed

lemma chunk_name_inj: "chunk_name i = chunk_name j \<Longrightarrow> i = j"
  by (metis append_same_eq chunk_name_def digits_value_decimal digits_value_zfill)

lemma digit_no_slash: "d < 10 \<Longrightarrow> CHR ''/'' \<noteq> digit d"
proof
  assume "d < 10" "CHR ''/'' = digit d"
  then have "(of_char (CHR ''/'') :: nat) = of_char (digit d)" by simp
  with \<open>d < 10\<close> show False by (simp add: digit_def)
qed

lemma decimal_no_slash: "CHR ''/'' \<notin> set (decimal n)"
proof (induction n rule: decimal.induct)
  case (1 n)
  then show ?case using digit_no_slash by (subst decimal.simps) simp
qed

lemma split_slash_plain: "CHR ''/'' \<notin> set s \<Longrightarrow> split_slash s = [s]"
  by (induction s) auto

lemma split_slash_app: "CHR ''/'' \<notin> set s \<Longrightarrow> split_slash (s @ CHR ''/'' # t) = s # split_slash t"
  by (induction s) auto

lemma join_chunk_path [simp]: "join_path root (chunk_relpath i) = root @ [CHUNKS_DIRNAME, chunk_name i]"
proof -
  have slash: "CHR ''/'' \<notin> set (chunk_name i)"
    using decimal_no_slash [of i] digit_no_slash [of 0] by (auto simp: chunk_name_def zfill_def)
  have "split_slash (chunk_relpath i) = [CHUNKS_DIRNAME, chunk_name i]"
    using split_slash_app [of CHUNKS_DIRNAME "chunk_name i"] split_slash_plain [OF slash]
    by (simp add: chunk_relpath_def CHUNKS_DIRNAME_def)
  moreover have "chunk_name i \<noteq> []" "chunk_name i \<noteq> ''.''"
    by (auto simp: chunk_name_def zfill_def dest!: arg_cong [where f = length])
  ultimately show ?thesis
    by (simp add: join_path_def chunk_relpath_def CHUNKS_DIRNAME_def)
qed

lemma chunk_name_not_tmp: "chunk_name j \<noteq> chunk_name i @ ''.tmp''"
proof
  assume "chunk_name j = chunk_name i @ ''.tmp''"
  then have "last (chunk_name j) = last (chunk_name i @ ''.tmp'')" by simp
  then show False by (simp add: chunk_name_def)
qed

lemma chunk_codec: "k \<in> {''nid'', ''eid''} \<Longrightarrow>
    chunk_from_json k (sort_keys (chunk_to_json k c)) = Inr c \<and> json_wf (chunk_to_json k c)"
  by (auto simp: chunk_from_json_def chunk_to_json_def field_defs json_simps)

end
