(* ===== verification/Chunk_Theorems.thy ===== *)
theory Chunk_Theorems
  imports Chunk_Files
begin

text \<open>
  Facts about chunk directories: what a scan of the chunks written so far returns, that writing a
  chunk keeps the ones before it, and that the snapshot filter is \<open>RowVersion.visible_to\<close> row by
  row.
\<close>

section \<open>Directories that exist\<close>

definition dirs_exist :: "fs \<Rightarrow> path \<Rightarrow> bool" where
  "dirs_exist fs p \<longleftrightarrow> (\<forall>q. q \<noteq> [] \<and> prefix q p \<longrightarrow> fs q = Some Dir)"

lemma mkdirs_noop: "(\<And>q. q \<noteq> [] \<Longrightarrow> prefix q ns \<Longrightarrow> fs (pre @ q) = Some Dir) \<Longrightarrow> mkdirs fs pre ns = Inr fs"
proof (induction ns arbitrary: pre)
  case (Cons n ns)
  have "fs (pre @ [n]) = Some Dir" by (rule Cons.prems) simp_all
  moreover have "mkdirs fs (pre @ [n]) ns = Inr fs"
  proof (rule Cons.IH)
    fix q assume "q \<noteq> []" "prefix q ns"
    then show "fs ((pre @ [n]) @ q) = Some Dir" using Cons.prems [of "n # q"] by simp
  qed
  ultimately show ?case by simp
qed simp

lemma dirs_exist_mkdirs: "dirs_exist fs p \<Longrightarrow> mkdirs fs [] p = Inr fs"
  by (rule mkdirs_noop) (simp add: dirs_exist_def)

lemma mkdirs_dirs_exist:
  assumes "mkdirs fs [] p = Inr fs'"
  shows "dirs_exist fs' p"
proof -
  have "fs' (pre @ q) = Some Dir" if "mkdirs fs pre ns = Inr fs'" "q \<noteq> []" "prefix q ns" for fs pre ns q
    using that
  proof (induction fs pre ns arbitrary: q rule: mkdirs.induct)
    case (2 fs pre n ns)
    then obtain q' where q: "q = n # q'" "prefix q' ns" by (cases q) auto
    have "\<exists>fs1. mkdirs fs1 (pre @ [n]) ns = Inr fs' \<and> fs1 (pre @ [n]) = Some Dir
        \<and> (q' \<noteq> [] \<longrightarrow> fs' ((pre @ [n]) @ q') = Some Dir)"
    proof (cases "fs (pre @ [n])")
      case None
      with 2 q show ?thesis by (intro exI [of _ "fs(pre @ [n] \<mapsto> Dir)"]) (simp del: fun_upd_apply, simp)
    next
      case (Some x)
      with 2 q show ?thesis by (cases x) auto
    qed
    then show ?case using q mkdirs_mono by (cases "q' = []") auto
  qed simp
  then have "fs' ([] @ q) = Some Dir" if "q \<noteq> []" "prefix q p" for q using assms that by blast
  then show ?thesis by (simp add: dirs_exist_def)
qed

lemma dirs_exist_prefix: "dirs_exist fs (p @ q) \<Longrightarrow> dirs_exist fs p"
  by (auto simp: dirs_exist_def prefix_def)

lemma write_existing:
  assumes "dirs_exist fs (butlast p)" "p \<noteq> []" "fs p \<noteq> Some Dir" "fs (tmp_path p) \<noteq> Some Dir"
  shows "writable fs p" "write_file_atomic c fs p = (Inr (), fs(p \<mapsto> c, tmp_path p := None))"
  using assms dirs_exist_mkdirs [OF assms(1)]
  by (auto simp: writable_def write_file_atomic_def Let_def fun_upd_twist)

section \<open>Stamped batches\<close>

definition uint64_array_of :: "int list \<Rightarrow> 'v array" where
  "uint64_array_of xs = \<lparr>arr_type = uint64, cells = map CInt xs\<rparr>"

definition fields_of :: "string list \<Rightarrow> 'v array list \<Rightarrow> schema" where
  "fields_of ns as = map2 (\<lambda>x a. \<lparr>fld_name = x, fld_type = arr_type a, fld_nullable = True\<rparr>) ns as"

definition ids_array :: "int \<Rightarrow> nat \<Rightarrow> 'v array" where
  "ids_array start n = uint64_array_of (map (\<lambda>i. start + int i) [0..<n])"

text \<open>What the store writes for the batch \<open>u\<close>, and the part of it a scan returns.\<close>

definition stamped :: "string \<Rightarrow> int \<Rightarrow> int \<Rightarrow> 'v batch \<Rightarrow> 'v batch" where
  "stamped k start lsn u =
     (let as = ids_array start (brows u) # bcols u @ [uint64_array_of (replicate (brows u) lsn),
                 \<lparr>arr_type = uint64, cells = replicate (brows u) CNull\<rparr>]
      in \<lparr>bschema = fields_of (k # names (bschema u) @ MVCC_COLUMNS) as, bcols = as, brows = brows u\<rparr>)"

definition with_ids :: "string \<Rightarrow> int \<Rightarrow> 'v batch \<Rightarrow> 'v batch" where
  "with_ids k start u =
     (let as = ids_array start (brows u) # bcols u
      in \<lparr>bschema = fields_of (k # names (bschema u)) as, bcols = as, brows = brows u\<rparr>)"

text \<open>The batches a store accepts: rows, names of their own, and identifiers that fit 64 bits.\<close>

definition user_batch :: "string \<Rightarrow> 'v batch \<Rightarrow> bool" where
  "user_batch k u \<longleftrightarrow> batch_ok u \<and> 0 < brows u \<and> distinct (names (bschema u))
     \<and> k \<notin> set (names (bschema u)) \<and> set (names (bschema u)) \<inter> set MVCC_COLUMNS = {}"

lemma names_fields [simp]: "length ns = length as \<Longrightarrow> names (fields_of ns as) = ns"
  by (simp add: fields_of_def comp_def case_prod_unfold)

lemma types_fields [simp]: "length ns = length as \<Longrightarrow> map fld_type (fields_of ns as) = map arr_type as"
  by (induction ns as rule: list_induct2) (simp_all add: fields_of_def)

lemma length_fields [simp]: "length (fields_of ns as) = min (length ns) (length as)"
  by (simp add: fields_of_def)

lemma length_MVCC [simp]: "length MVCC_COLUMNS = 2" "distinct MVCC_COLUMNS"
  by (simp_all add: MVCC_COLUMNS_def CREATED_LSN_COLUMN_def DELETED_LSN_COLUMN_def)

lemma length_ids [simp]: "length (cells (ids_array start n)) = n" "arr_type (ids_array start n) = uint64"
  by (simp_all add: ids_array_def uint64_array_of_def)

lemma batch_ok_stamped:
  assumes "batch_ok u"
  shows "batch_ok (stamped k start lsn u)" "names (bschema (stamped k start lsn u)) = k # names (bschema u) @ MVCC_COLUMNS"
  using assms batch_ok_length [OF assms]
  by (auto simp: stamped_def Let_def batch_ok_def uint64_array_of_def)

lemma brows_stamped [simp]: "brows (stamped k start lsn u) = brows u"
  by (simp add: stamped_def Let_def)

lemma batch_ok_with_ids: "batch_ok u \<Longrightarrow> batch_ok (with_ids k start u)"
  using batch_ok_length [of u] by (auto simp: with_ids_def Let_def batch_ok_def)

lemma distinct_stamped:
  "user_batch k u \<Longrightarrow> k \<notin> set MVCC_COLUMNS \<Longrightarrow> distinct (names (bschema (stamped k start lsn u)))"
  by (auto simp: user_batch_def batch_ok_stamped)

lemma public_names_stamped:
  assumes "user_batch k u" "k \<notin> set MVCC_COLUMNS"
  shows "public_names (bschema (stamped k start lsn u)) = k # names (bschema u)"
proof -
  have "filter (\<lambda>n. n \<notin> set MVCC_COLUMNS) (names (bschema u)) = names (bschema u)"
    using assms(1) by (auto simp: user_batch_def filter_id_conv)
  then show ?thesis using assms(2) batch_ok_stamped(2) [of u k start lsn] assms(1)
    by (simp add: public_names_def user_batch_def)
qed

text \<open>Selecting the first columns of a batch.\<close>

lemma sub_batch_take:
  assumes "batch_ok b" "distinct (names (bschema b))" "n \<le> length (bschema b)"
  shows "sub_batch b (take n (names (bschema b))) = b\<lparr>bschema := take n (bschema b), bcols := take n (bcols b)\<rparr>"
proof -
  let ?s = "bschema b"
  have "sub_schema ?s (names ?s) = ?s" using sub_schema_map [OF assms(2), of "\<lambda>_. True"] by simp
  then have "sub_schema ?s (take n (names ?s)) = take n ?s" unfolding sub_schema_def by (metis take_map)
  moreover have "map (col b) (names ?s) = bcols b"
    using col_nth [OF assms(1,2)] batch_ok_length [OF assms(1)]
    by (intro nth_equalityI) simp_all
  then have "map (col b) (take n (names ?s)) = take n (bcols b)" by (metis take_map)
  ultimately show ?thesis by (simp add: sub_batch_def)
qed

lemma sub_batch_public:
  assumes "user_batch k u" "k \<notin> set MVCC_COLUMNS"
  shows "sub_batch (stamped k start lsn u) (k # names (bschema u)) = with_ids k start u"
proof -
  let ?b = "stamped k start lsn u" and ?n = "Suc (length (bschema u))"
  have u: "batch_ok u" and l: "length (bcols u) = length (bschema u)"
    using assms(1) by (simp_all add: user_batch_def batch_ok_length)
  have t: "take ?n (names (bschema ?b)) = k # names (bschema u)"
    using batch_ok_stamped(2) [OF u, of k start lsn] by simp
  have "?n \<le> length (bschema ?b)" using l by (simp add: stamped_def Let_def)
  from sub_batch_take [OF batch_ok_stamped(1) [OF u] distinct_stamped [OF assms] this]
  show ?thesis unfolding t using l
    by (simp add: stamped_def with_ids_def Let_def fields_of_def take_map take_zip)
qed

context arrow_laws
begin

lemma stamp_batch_stamped:
  assumes "batch_ok u" "0 \<le> start" "start + int (brows u) \<le> 2 ^ 64" "0 \<le> lsn" "lsn < 2 ^ 64"
  shows "stamp_batch ar k start lsn u = Inr (stamped k start lsn u)"
proof -
  let ?ids = "map (\<lambda>i. start + int i) [0..<brows u]"
  have "pa_uint64_array ar ?ids = Inr (ids_array start (brows u))"
    unfolding ids_array_def uint64_array_of_def by (rule uint64_array) (use assms in auto)
  moreover have "pa_uint64_array ar (replicate (brows u) lsn) = Inr (uint64_array_of (replicate (brows u) lsn))"
    unfolding uint64_array_of_def by (rule uint64_array) (use assms in auto)
  moreover have "pa_from_arrays ar (ids_array start (brows u) # bcols u @ [uint64_array_of (replicate (brows u) lsn), pa_uint64_nulls ar (brows u)])
      (k # names (bschema u) @ [CREATED_LSN_COLUMN, DELETED_LSN_COLUMN]) = Inr (stamped k start lsn u)"
    unfolding stamped_def Let_def fields_of_def uint64_nulls MVCC_COLUMNS_def
    by (rule from_arrays) (use assms(1) batch_ok_length [OF assms(1)] in \<open>auto simp: batch_ok_def uint64_array_of_def\<close>)
  ultimately show ?thesis by (simp add: stamp_batch_def Let_def)
qed

lemma scan_stamped:
  assumes "user_batch k u" "k \<notin> set MVCC_COLUMNS"
  shows "scan_batch ar None None (stamped k start lsn u) = Inr (with_ids k start u)"
proof -
  let ?b = "stamped k start lsn u"
  have b: "batch_ok ?b" "names (bschema ?b) = k # names (bschema u) @ MVCC_COLUMNS"
    using assms(1) batch_ok_stamped by (auto simp: user_batch_def)
  have "pa_select ar ?b (k # names (bschema u)) = Inr (sub_batch ?b (k # names (bschema u)))"
    by (rule select [OF b(1) distinct_stamped [OF assms]]) (auto simp: b(2))
  moreover have "k # names (bschema u) \<noteq> names (bschema ?b)" by (simp add: b(2) MVCC_COLUMNS_def)
  ultimately show ?thesis
    by (simp add: scan_batch_def select_public_def public_names_stamped [OF assms] Let_def
        sub_batch_public [OF assms])
qed

end

section \<open>Visibility\<close>

definition cell_int :: "'v cell \<Rightarrow> int option" where
  "cell_int c = (case c of CInt i \<Rightarrow> Some i | _ \<Rightarrow> None)"

text \<open>The row version a row's two columns hold.\<close>

definition row_version_of :: "'v batch \<Rightarrow> nat \<Rightarrow> row_version" where
  "row_version_of b i = \<lparr>created_lsn = the (cell_int (cells (col b CREATED_LSN_COLUMN) ! i)),
     deleted_lsn = cell_int (cells (col b DELETED_LSN_COLUMN) ! i)\<rparr>"

definition versioned :: "'v batch \<Rightarrow> bool" where
  "versioned b \<longleftrightarrow> batch_ok b \<and> distinct (names (bschema b)) \<and> set MVCC_COLUMNS \<subseteq> set (names (bschema b))
     \<and> uint64_cells (col b CREATED_LSN_COLUMN) \<and> CNull \<notin> set (cells (col b CREATED_LSN_COLUMN))
     \<and> uint64_cells (col b DELETED_LSN_COLUMN)"

text \<open>The rows at the given positions.\<close>

definition rows_at :: "'v batch \<Rightarrow> nat list \<Rightarrow> 'v batch" where
  "rows_at b is = b\<lparr>bcols := map (\<lambda>a. a\<lparr>cells := map (\<lambda>i. cells a ! i) is\<rparr>) (bcols b), brows := length is\<rparr>"

lemma keep_rows_take:
  assumes "batch_ok b"
  shows "keep_rows b (map (\<lambda>i. Some (P i)) [0..<brows b]) = rows_at b (filter P [0..<brows b])"
proof -
  have key: "keep (map (\<lambda>i. Some (P i)) [0..<n]) xs = map (\<lambda>i. xs ! i) (filter P [0..<n])"
    if "length xs = n" for xs :: "'b list" and n
  proof -
    have "keep (map (\<lambda>i. Some (P i)) [0..<n]) (map (\<lambda>i. xs ! i) [0..<n]) = map (\<lambda>i. xs ! i) (filter P [0..<n])"
      by (simp add: keep_map keep_filter)
    moreover have "map (\<lambda>i. xs ! i) [0..<n] = xs" using that map_nth [of xs] by simp
    ultimately show ?thesis by simp
  qed
  have "map (\<lambda>a. a\<lparr>cells := keep (map (\<lambda>i. Some (P i)) [0..<brows b]) (cells a)\<rparr>) (bcols b)
      = map (\<lambda>a. a\<lparr>cells := map (\<lambda>i. cells a ! i) (filter P [0..<brows b])\<rparr>) (bcols b)"
  proof (rule map_cong [OF refl])
    fix a assume "a \<in> set (bcols b)"
    with assms have "length (cells a) = brows b" by (simp add: batch_ok_def)
    from key [OF this] show "a\<lparr>cells := keep (map (\<lambda>i. Some (P i)) [0..<brows b]) (cells a)\<rparr>
        = a\<lparr>cells := map (\<lambda>i. cells a ! i) (filter P [0..<brows b])\<rparr>" by simp
  qed
  then show ?thesis by (simp add: keep_rows_def rows_at_def comp_def filter_map)
qed

lemma col_cells: "batch_ok b \<Longrightarrow> x \<in> set (names (bschema b)) \<Longrightarrow> length (cells (col b x)) = brows b"
proof -
  assume b: "batch_ok b" and "x \<in> set (names (bschema b))"
  then have "map_of (zip (names (bschema b)) (bcols b)) x \<noteq> None"
    using length_names [OF b] by (subst map_of_zip_is_None) blast+
  then obtain a where a: "map_of (zip (names (bschema b)) (bcols b)) x = Some a" by blast
  then have "a \<in> set (bcols b)" by (meson map_of_SomeD set_zip_rightD)
  with b a show ?thesis by (simp add: col_def batch_ok_def)
qed

context arrow_laws
begin

lemma filter_visible_rows:
  assumes v: "versioned b" and lsn: "0 \<le> lsn" "lsn < 2 ^ 64"
  shows "filter_visible ar b lsn
    = Inr (rows_at b (filter (\<lambda>i. visible_to (row_version_of b i) \<lparr>lsn_high = lsn, snap_name = None\<rparr>) [0..<brows b]))"
proof -
  let ?c = "col b CREATED_LSN_COLUMN" and ?d = "col b DELETED_LSN_COLUMN"
  let ?vis = "\<lambda>i. visible_to (row_version_of b i) \<lparr>lsn_high = lsn, snap_name = None\<rparr>"
  let ?gone = "map2 null_or (map (\<lambda>c. Some (c = CNull)) (cells ?d))
     (map (\<lambda>k. Some (case k of None \<Rightarrow> False | Some v \<Rightarrow> v)) (map (cmp_cell (\<lambda>i. i > lsn)) (cells ?d)))"
  let ?mask = "map2 null_and (map (cmp_cell (\<lambda>i. i \<le> lsn)) (cells ?c)) ?gone"
  have b: "batch_ok b" "distinct (names (bschema b))"
    and n: "CREATED_LSN_COLUMN \<in> set (names (bschema b))" "DELETED_LSN_COLUMN \<in> set (names (bschema b))"
    and u: "uint64_cells ?c" "uint64_cells ?d" and nn: "CNull \<notin> set (cells ?c)"
    using v by (auto simp: versioned_def MVCC_COLUMNS_def)
  have len: "length (cells ?c) = brows b" "length (cells ?d) = brows b"
    using col_cells [OF b(1)] n by blast+
  have "?mask = map (\<lambda>i. Some (?vis i)) [0..<brows b]"
  proof (rule nth_equalityI)
    fix i assume "i < length ?mask"
    then have i: "i < brows b" by (simp add: len)
    obtain c where c: "cells ?c ! i = CInt c"
      using u(1) nn i len by (metis nth_mem uint64_cells_def)
    have "cells ?d ! i = CNull \<or> (\<exists>d. cells ?d ! i = CInt d)"
      using u(2) i len by (metis nth_mem uint64_cells_def)
    then show "?mask ! i = map (\<lambda>i. Some (?vis i)) [0..<brows b] ! i"
      using i c len by (auto simp: null_or_def null_and_def cmp_cell_def visible_to_window row_version_of_def cell_int_def)
  qed (simp add: len)
  moreover have "pa_filter ar b ?mask = Inr (keep_rows b ?mask)"
    by (rule filter_rows) (simp_all add: b len)
  moreover have "pc_or ar (map (\<lambda>c. Some (c = CNull)) (cells ?d))
     (map (\<lambda>k. Some (case k of None \<Rightarrow> False | Some v \<Rightarrow> v)) (map (cmp_cell (\<lambda>i. i > lsn)) (cells ?d))) = Inr ?gone"
    by (rule or_mask) simp
  moreover have "pc_and ar (map (cmp_cell (\<lambda>i. i \<le> lsn)) (cells ?c)) ?gone = Inr ?mask"
    by (rule and_mask) (simp add: len)
  ultimately show ?thesis using n lsn
    by (simp add: filter_visible_def column [OF b] uint64_scalar less_equal [OF u(1)] greater [OF u(2)]
        is_null fill_null Let_def keep_rows_take [OF b(1)] del: map_map)
qed

end

section \<open>The chunks of a store\<close>

text \<open>
  The chunk files number \<open>0, 1, ...\<close> hold the batches \<open>bs\<close>, one each; the references count
  their rows and give them consecutive identifiers from 0.
\<close>

definition rows_before :: "'v batch list \<Rightarrow> nat \<Rightarrow> int" where
  "rows_before bs i = int (sum_list (map brows (take i bs)))"

definition chunk_refs :: "'v batch list \<Rightarrow> chunk_ref list" where
  "chunk_refs bs = map (\<lambda>i. \<lparr>ch_path = chunk_relpath i, ch_row_count = int (brows (bs ! i)),
     ch_start = rows_before bs i, ch_end = rows_before bs (Suc i)\<rparr>) [0..<length bs]"

definition chunk_store :: "'v arrow \<Rightarrow> fs \<Rightarrow> path \<Rightarrow> int \<Rightarrow> chunk_ref list \<Rightarrow> 'v batch list \<Rightarrow> bool" where
  "chunk_store ar fs root next_id chunks bs \<longleftrightarrow>
     dirs_exist fs (root @ [CHUNKS_DIRNAME]) \<and> (\<forall>n. fs (root @ [CHUNKS_DIRNAME, n]) \<noteq> Some Dir)
     \<and> chunks = chunk_refs bs \<and> next_id = rows_before bs (length bs)
     \<and> (\<forall>i < length bs. record_batches ar fs (root @ [CHUNKS_DIRNAME, chunk_name i]) = Inr [bs ! i])"

lemma rows_before_app: "rows_before (bs @ [b]) (Suc (length bs)) = rows_before bs (length bs) + int (brows b)"
  by (simp add: rows_before_def)

lemma rows_before_old: "i \<le> length bs \<Longrightarrow> rows_before (bs @ [b]) i = rows_before bs i"
  by (simp add: rows_before_def)

lemma chunk_refs_app:
  "chunk_refs (bs @ [b]) = chunk_refs bs @ [\<lparr>ch_path = chunk_relpath (length bs), ch_row_count = int (brows b),
     ch_start = rows_before bs (length bs), ch_end = rows_before bs (length bs) + int (brows b)\<rparr>]"
  by (simp add: chunk_refs_def nth_append rows_before_old rows_before_app)

lemma record_batches_cong: "fs p = fs' p \<Longrightarrow> record_batches ar fs p = record_batches ar fs' p"
  by (simp add: record_batches_def read_segment_def)

text \<open>Writing the next chunk.\<close>

lemma write_chunk_store:
  assumes laws: "arrow_laws ar" and st: "chunk_store ar fs root next_id chunks bs" and b: "batch_ok b"
    and codec: "codec_ready ar codec" "payload_fits ar [b] codec"
  shows "\<exists>ref fs'. write_chunk ar fs root codec (length chunks) next_id (next_id + int (brows b)) b = (Inr ref, fs')
    \<and> ref = \<lparr>ch_path = chunk_relpath (length bs), ch_row_count = int (brows b), ch_start = next_id, ch_end = next_id + int (brows b)\<rparr>
    \<and> chunk_store ar fs' root (next_id + int (brows b)) (chunks @ [ref]) (bs @ [b])
    \<and> (\<forall>q. length q \<noteq> length root + 2 \<longrightarrow> fs' q = fs q)"
proof -
  let ?p = "root @ [CHUNKS_DIRNAME, chunk_name (length bs)]"
  let ?w = "\<lparr>cw_path = ?p, cw_codec = codec, cw_batches = [b], cw_closed = False\<rparr>"
  have n: "length chunks = length bs" and dirs: "dirs_exist fs (root @ [CHUNKS_DIRNAME])"
    and nodir: "\<And>n. fs (root @ [CHUNKS_DIRNAME, n]) \<noteq> Some Dir"
    and old: "\<And>i. i < length bs \<Longrightarrow> record_batches ar fs (root @ [CHUNKS_DIRNAME, chunk_name i]) = Inr [bs ! i]"
    and refs: "chunks = chunk_refs bs" "next_id = rows_before bs (length bs)"
    using st by (simp_all add: chunk_store_def chunk_refs_def)
  have par: "butlast ?p = root @ [CHUNKS_DIRNAME]" and tmp: "tmp_path ?p = root @ [CHUNKS_DIRNAME, chunk_name (length bs) @ ''.tmp'']"
    by (simp_all add: tmp_path_def butlast_append)
  have wr: "writable fs ?p" by (rule write_existing) (use dirs nodir par tmp in auto)
  have "\<exists>f fs' fs1 data. writer_close ar fs ?w = (Inr f, ?w\<lparr>cw_closed := True\<rparr>, fs') \<and> footer_of (cw_batches ?w) (cw_codec ?w) f
      \<and> record_batches ar fs' (cw_path ?w) = Inr (cw_batches ?w) \<and> mkdirs fs [] (butlast (cw_path ?w)) = Inr fs1
      \<and> write_file_atomic (BinFile data) fs1 (cw_path ?w) = (Inr (), fs')"
    by (rule writer_close_read) (use laws b codec wr in \<open>simp_all add: same_schema_def\<close>)
  then obtain f fs' fs1 data where close: "writer_close ar fs ?w = (Inr f, ?w\<lparr>cw_closed := True\<rparr>, fs')"
    and f: "footer_of [b] codec f" and new: "record_batches ar fs' ?p = Inr [b]"
    and fs1: "mkdirs fs [] (root @ [CHUNKS_DIRNAME]) = Inr fs1" "write_file_atomic (BinFile data) fs1 ?p = (Inr (), fs')"
    unfolding column_writer.simps par by blast
  have "fs1 = fs" using fs1(1) dirs_exist_mkdirs [OF dirs] by simp
  then have fs': "fs' = fs(?p \<mapsto> BinFile data, tmp_path ?p := None)"
    using write_existing(2) [of fs ?p "BinFile data"] dirs nodir par tmp fs1(2) by simp
  have other: "fs' (root @ [CHUNKS_DIRNAME, chunk_name i]) = fs (root @ [CHUNKS_DIRNAME, chunk_name i])"
    if "i < length bs" for i
    using that chunk_name_inj [of i "length bs"] chunk_name_not_tmp [of i "length bs"] by (auto simp: fs' tmp)
  have reads: "record_batches ar fs' (root @ [CHUNKS_DIRNAME, chunk_name i]) = Inr [(bs @ [b]) ! i]"
    if "i < length (bs @ [b])" for i
  proof (cases "i = length bs")
    case False
    with that have i: "i < length bs" by simp
    from other [OF i] have "record_batches ar fs' (root @ [CHUNKS_DIRNAME, chunk_name i])
        = record_batches ar fs (root @ [CHUNKS_DIRNAME, chunk_name i])"
      by (rule record_batches_cong)
    with old [OF i] i show ?thesis by (simp add: nth_append)
  qed (simp add: new)
  have frame: "fs' q = fs q" if "length q \<noteq> length root + 2" for q
    using that by (auto simp: fs' tmp)
  have "dirs_exist fs' (root @ [CHUNKS_DIRNAME])"
  proof -
    have "fs' q = fs q" if "prefix q (root @ [CHUNKS_DIRNAME])" for q
      using prefix_length_le [OF that] by (intro frame) simp
    with dirs show ?thesis by (simp add: dirs_exist_def)
  qed
  moreover have "fs' (root @ [CHUNKS_DIRNAME, n]) \<noteq> Some Dir" for n
    using nodir by (auto simp: fs')
  moreover have "column_writer ?p codec = Inr (?w\<lparr>cw_batches := []\<rparr>)"
    using arrow_laws.codec_ready_known [OF laws codec(1)] by (simp add: column_writer_def)
  then have "write_column_segment ar fs ?p [b] codec = (Inr f, fs')"
    by (simp add: write_column_segment_def writer_append_def close)
  ultimately show ?thesis using reads frame refs f n
    by (simp add: write_chunk_def chunk_store_def chunk_refs_app rows_before_app footer_of_def)
qed

text \<open>A scan of all columns returns what was stored, batch by batch.\<close>

lemma scan_chunk_store:
  assumes "chunk_store ar fs root next_id chunks bs"
    and "\<And>i. i < length bs \<Longrightarrow> scan_batch ar columns snapshot (bs ! i) = Inr (g i)"
  shows "scan_chunks ar fs root chunks columns snapshot = Inr (map g [0..<length bs])"
proof -
  have "rmap (\<lambda>c. rbind (record_batches ar fs (join_path root (ch_path c))) (rmap (scan_batch ar columns snapshot)))
     (map (\<lambda>i. chunks ! i) [0..<length bs]) = Inr (map (\<lambda>i. [g i]) [0..<length bs])"
    by (rule rmap_Inr_all) (use assms in \<open>auto simp: chunk_store_def chunk_refs_def\<close>)
  moreover have "map (\<lambda>i. chunks ! i) [0..<length bs] = chunks"
    using assms(1) by (simp add: chunk_store_def chunk_refs_def map_nth)
  ultimately show ?thesis by (simp add: scan_chunks_def comp_def)
qed

end
