(* ===== verification/Append_Store.thy ===== *)
theory Append_Store
  imports Chunk_Theorems
begin

text \<open>
  The contract of the node and the edge stores: a store holds the history of the batches appended
  to it, each with the sequence number it was stamped with. Appending an acceptable batch
  succeeds and extends the history, a scan returns the history with consecutive identifiers, and
  opening the store again from its files gives the same store.
\<close>

type_synonym 'v history = "('v batch \<times> int) list"

definition history_rows :: "'v history \<Rightarrow> nat \<Rightarrow> int" where
  "history_rows us i = rows_before (map fst us) i"

text \<open>The chunks a history is stored in, and the batches a scan of it returns.\<close>

definition history_chunks :: "string \<Rightarrow> 'v history \<Rightarrow> 'v batch list" where
  "history_chunks k us = map (\<lambda>i. stamped k (history_rows us i) (snd (us ! i)) (fst (us ! i))) [0..<length us]"

definition history_scan :: "string \<Rightarrow> 'v history \<Rightarrow> 'v batch list" where
  "history_scan k us = map (\<lambda>i. with_ids k (history_rows us i) (fst (us ! i))) [0..<length us]"

lemma history_rows_app [simp]: "i \<le> length us \<Longrightarrow> history_rows (us @ [x]) i = history_rows us i"
  by (simp add: history_rows_def rows_before_def)

lemma history_rows_Suc: "history_rows (us @ [(u, lsn)]) (Suc (length us)) = history_rows us (length us) + int (brows u)"
  by (simp add: history_rows_def rows_before_def)

lemma history_rows_nonneg [simp]: "0 \<le> history_rows us i"
  by (simp add: history_rows_def rows_before_def)

lemma history_chunks_app:
  "history_chunks k (us @ [(u, lsn)]) = history_chunks k us @ [stamped k (history_rows us (length us)) lsn u]"
  by (simp add: history_chunks_def nth_append)

lemma history_scan_app:
  "history_scan k (us @ [(u, lsn)]) = history_scan k us @ [with_ids k (history_rows us (length us)) u]"
  by (simp add: history_scan_def nth_append)

lemma length_history_chunks [simp]: "length (history_chunks k us) = length us"
  by (simp add: history_chunks_def)

lemma rows_history_chunks: "rows_before (history_chunks k us) (length us) = history_rows us (length us)"
proof -
  have "map brows (history_chunks k us) = map brows (map fst us)"
    by (intro nth_equalityI) (simp_all add: history_chunks_def)
  then show ?thesis by (simp add: rows_before_def history_rows_def)
qed

text \<open>The identifiers of a scan are \<open>0, 1, ...\<close>, one per row.\<close>

lemma scan_ids:
  "concat (map (\<lambda>b. cells (hd (bcols b))) (history_scan k us)) = map CInt (map int [0..<nat (history_rows us (length us))])"
proof (induction us rule: rev_induct)
  case (snoc x us)
  obtain u lsn where x: "x = (u, lsn)" by (cases x)
  let ?n = "nat (history_rows us (length us))"
  have "nat (history_rows (us @ [x]) (length (us @ [x]))) = ?n + brows u"
    by (simp add: x history_rows_Suc nat_add_distrib)
  moreover have "cells (hd (bcols (with_ids k (history_rows us (length us)) u))) = map CInt (map int [?n..<?n + brows u])"
    by (auto simp: with_ids_def ids_array_def uint64_array_of_def Let_def intro!: nth_equalityI)
  ultimately show ?case using snoc by (simp add: x history_scan_app upt_add_eq_append [of 0] del: upt_conv_Cons_Cons)
qed (simp add: history_scan_def history_rows_def rows_before_def)

section \<open>Schemas of a history\<close>

definition shape :: "schema \<Rightarrow> (string \<times> string) list" where
  "shape s = map (\<lambda>f. (fld_name f, fld_type f)) s"

text \<open>All batches of a history have the columns of the first one.\<close>

definition history_shape :: "'v history \<Rightarrow> bool" where
  "history_shape us \<longleftrightarrow> (\<forall>v \<in> set us. shape (bschema (fst v)) = shape (bschema (fst (hd us))))"

lemma history_shape_last:
  assumes "us \<noteq> []" "history_shape (us @ [(u, lsn)])"
  shows "shape (bschema u) = shape (bschema (fst (hd us)))"
proof -
  have "(u, lsn) \<in> set (us @ [(u, lsn)])" by simp
  with assms(2) have "shape (bschema (fst (u, lsn))) = shape (bschema (fst (hd (us @ [(u, lsn)]))))"
    unfolding history_shape_def by blast
  with assms(1) show ?thesis by simp
qed

lemma shape_fields: "length ns = length as \<Longrightarrow> shape (fields_of ns as) = zip ns (map arr_type as)"
  unfolding shape_def fields_of_def by (induction ns as rule: list_induct2) simp_all

lemma shape_batch: "batch_ok b \<Longrightarrow> shape (bschema b) = zip (names (bschema b)) (map arr_type (bcols b))"
proof -
  assume b: "batch_ok b"
  have "shape s = zip (names s) (map fld_type s)" for s by (induction s) (simp_all add: shape_def)
  with b show ?thesis by (simp add: batch_ok_def)
qed

lemma shape_names: "shape s = shape t \<Longrightarrow> names s = names t"
  unfolding shape_def by (drule arg_cong [where f = "map fst"]) (simp add: comp_def)

lemma shape_stamped:
  assumes "batch_ok u"
  shows "shape (bschema (stamped k start lsn u))
    = (k, uint64) # shape (bschema u) @ [(CREATED_LSN_COLUMN, uint64), (DELETED_LSN_COLUMN, uint64)]"
  using batch_ok_length [OF assms]
  by (simp add: stamped_def Let_def shape_fields shape_batch [OF assms] uint64_array_of_def MVCC_COLUMNS_def)

context arrow_laws
begin

lemma rmap_fields: "distinct (names s) \<Longrightarrow> set fs \<subseteq> set s \<Longrightarrow> rmap (pa_field ar s) (names fs) = Inr fs"
  by (rule rmap_id) (auto intro: field)

lemma same_types_shape:
  assumes "distinct (names s)" "distinct (names t)" "set (filter (\<lambda>x. fst x \<in> set ns) (shape s)) \<subseteq> set (shape t)"
    "set ns \<subseteq> set (names s)" "set ns \<subseteq> set (names t)"
  shows "same_types ar code s t ns = Inr ()"
proof -
  have step: "rbind (pa_field ar s nm) (\<lambda>f. rbind (pa_field ar t nm) (\<lambda>g.
      if fld_type f \<noteq> fld_type g then raise_code code else Inr ())) = Inr ()" if nm: "nm \<in> set ns" for nm
  proof -
    from nm assms(4,5) obtain f g where f: "f \<in> set s" "fld_name f = nm" and g: "g \<in> set t" "fld_name g = nm"
      by fastforce
    have "(nm, fld_type f) \<in> set (shape t)" using assms(3) f nm by (auto simp: shape_def)
    then obtain h where h: "h \<in> set t" "fld_name h = nm" "fld_type h = fld_type f" by (auto simp: shape_def)
    then have "h = g" using g assms(2) by (metis distinct_map inj_onD)
    with field [OF assms(1) f(1)] field [OF assms(2) g(1)] f g h show ?thesis by simp
  qed
  have "rfold (\<lambda>nm u. rbind (pa_field ar s nm) (\<lambda>f. rbind (pa_field ar t nm) (\<lambda>g.
      if fld_type f \<noteq> fld_type g then raise_code code else Inr ()))) xs () = Inr ()" if "set xs \<subseteq> set ns" for xs
    using that step by (induction xs) simp_all
  then show ?thesis by (simp add: same_types_def)
qed

end

section \<open>Scans at a snapshot\<close>

text \<open>What a snapshot sees of one appended batch: all of it or none of it.\<close>

definition seen_at :: "int \<Rightarrow> int \<Rightarrow> 'v batch \<Rightarrow> 'v batch" where
  "seen_at snap lsn b = (if lsn \<le> snap then b else rows_at b [])"

definition history_scan_at :: "string \<Rightarrow> int \<Rightarrow> 'v history \<Rightarrow> 'v batch list" where
  "history_scan_at k snap us =
     map (\<lambda>i. seen_at snap (snd (us ! i)) (with_ids k (history_rows us i) (fst (us ! i)))) [0..<length us]"

lemma history_scan_at_app:
  "history_scan_at k snap (us @ [(u, lsn)])
    = history_scan_at k snap us @ [seen_at snap lsn (with_ids k (history_rows us (length us)) u)]"
  by (simp add: history_scan_at_def nth_append)

lemma take_rows_all: "batch_ok b \<Longrightarrow> rows_at b [0..<brows b] = b"
proof -
  assume b: "batch_ok b"
  have "map (\<lambda>a. a\<lparr>cells := map (\<lambda>i. cells a ! i) [0..<brows b]\<rparr>) (bcols b) = bcols b"
  proof (rule map_idI)
    fix x assume "x \<in> set (bcols b)"
    with b have n: "brows b = length (cells x)" by (simp add: batch_ok_def)
    show "x\<lparr>cells := map (\<lambda>i. cells x ! i) [0..<brows b]\<rparr> = x" unfolding n map_nth by simp
  qed
  then show ?thesis by (simp add: rows_at_def)
qed

lemma batch_ok_take_rows: "batch_ok b \<Longrightarrow> batch_ok (rows_at b is)"
  by (auto simp: batch_ok_def rows_at_def comp_def)

lemma sub_take_rows:
  assumes b: "batch_ok b" and ns: "set ns \<subseteq> set (names (bschema b))"
  shows "sub_batch (rows_at b is) ns = rows_at (sub_batch b ns) is"
proof -
  have "col (rows_at b is) x = (col b x)\<lparr>cells := map (\<lambda>i. cells (col b x) ! i) is\<rparr>"
    if "x \<in> set (names (bschema b))" for x
  proof -
    have "map_of (zip (names (bschema b)) (bcols b)) x \<noteq> None"
      using length_names [OF b] that by (subst map_of_zip_is_None) blast+
    then show ?thesis by (auto simp: col_def rows_at_def zip_map2 map_of_map)
  qed
  then have "map (col (rows_at b is)) ns = map (\<lambda>a. a\<lparr>cells := map (\<lambda>i. cells a ! i) is\<rparr>) (map (col b) ns)"
    using ns by auto
  then show ?thesis by (simp add: sub_batch_def rows_at_def)
qed

lemma stamped_version:
  assumes u: "user_batch k u" "k \<notin> set MVCC_COLUMNS" and "0 \<le> lsn" "lsn < 2 ^ 64"
  shows "versioned (stamped k start lsn u)"
    and "i < brows u \<Longrightarrow> row_version_of (stamped k start lsn u) i = \<lparr>created_lsn = lsn, deleted_lsn = None\<rparr>"
proof -
  let ?b = "stamped k start lsn u" and ?n = "length (bschema u)"
  have ub: "batch_ok u" and l: "length (bcols u) = ?n" using u(1) by (simp_all add: user_batch_def batch_ok_length)
  have b: "batch_ok ?b" "distinct (names (bschema ?b))"
    using ub batch_ok_stamped distinct_stamped [OF u] by blast+
  have ns: "names (bschema ?b) = k # names (bschema u) @ MVCC_COLUMNS" by (rule batch_ok_stamped(2) [OF ub])
  have len: "length (bschema ?b) = ?n + 3" using arg_cong [OF ns, of length] by simp
  have c: "col ?b CREATED_LSN_COLUMN = uint64_array_of (replicate (brows u) lsn)"
    using col_nth [OF b, of "Suc ?n"] len l by (simp add: ns nth_append MVCC_COLUMNS_def) (simp add: stamped_def Let_def nth_append)
  have d: "col ?b DELETED_LSN_COLUMN = \<lparr>arr_type = uint64, cells = replicate (brows u) CNull\<rparr>"
    using col_nth [OF b, of "Suc (Suc ?n)"] len l by (simp add: ns nth_append MVCC_COLUMNS_def) (simp add: stamped_def Let_def nth_append)
  show "versioned ?b"
    using b ns c d assms(3,4) by (auto simp: versioned_def uint64_cells_def uint64_array_of_def)
  show "row_version_of ?b i = \<lparr>created_lsn = lsn, deleted_lsn = None\<rparr>" if "i < brows u"
    using that by (simp add: row_version_of_def c d uint64_array_of_def cell_int_def)
qed

context arrow_laws
begin

lemma scan_stamped_at:
  assumes u: "user_batch k u" "k \<notin> set MVCC_COLUMNS" and lsn: "0 \<le> lsn" "lsn < 2 ^ 64"
    and snap: "0 \<le> snap" "snap < 2 ^ 64"
  shows "scan_batch ar None (Some snap) (stamped k start lsn u) = Inr (seen_at snap lsn (with_ids k start u))"
proof -
  let ?b = "stamped k start lsn u"
  have ub: "batch_ok u" using u(1) by (simp add: user_batch_def)
  have b: "batch_ok ?b" "names (bschema ?b) = k # names (bschema u) @ MVCC_COLUMNS"
    using batch_ok_stamped [OF ub] by auto
  have "filter (\<lambda>i. visible_to (row_version_of ?b i) \<lparr>lsn_high = snap, snap_name = None\<rparr>) [0..<brows u]
      = filter (\<lambda>i. lsn \<le> snap) [0..<brows u]"
    by (rule filter_cong [OF refl]) (simp add: stamped_version(2) [OF u lsn] visible_to_window)
  with filter_visible_rows [OF stamped_version(1) [OF u lsn] snap]
  have vis: "filter_visible ar ?b snap = Inr (if lsn \<le> snap then rows_at ?b [0..<brows ?b] else rows_at ?b [])"
    by simp
  show ?thesis
  proof (cases "lsn \<le> snap")
    case True
    with vis scan_stamped [OF u, of start lsn] show ?thesis
      by (simp only: take_rows_all [OF b(1)] scan_batch_def option.case rbind_simps if_True seen_at_def)
  next
    case False
    let ?e = "rows_at ?b []"
    have s: "bschema ?e = bschema ?b" by (simp add: rows_at_def)
    have "pa_select ar ?e (k # names (bschema u)) = Inr (sub_batch ?e (k # names (bschema u)))"
    proof (rule select)
      show "distinct (names (bschema ?e))" unfolding s by (rule distinct_stamped [OF u])
      show "set (k # names (bschema u)) \<subseteq> set (names (bschema ?e))" by (auto simp: s b(2))
    qed (rule batch_ok_take_rows [OF b(1)])
    moreover have "sub_batch ?e (k # names (bschema u)) = rows_at (with_ids k start u) []"
      using sub_take_rows [OF b(1), of "k # names (bschema u)" "[]"] unfolding b(2) sub_batch_public [OF u] by auto
    moreover have "k # names (bschema u) \<noteq> names (bschema ?b)" by (simp add: b(2) MVCC_COLUMNS_def)
    ultimately show ?thesis using False vis
      by (simp add: scan_batch_def select_public_def s public_names_stamped [OF u] Let_def seen_at_def)
  qed
qed

end

section \<open>Files of a store\<close>

lemma length_chunk_store: "chunk_store ar fs root n chunks bs \<Longrightarrow> length chunks = length bs"
  by (simp add: chunk_store_def chunk_refs_def)

lemma chunk_store_next: "chunk_store ar fs root n chunks (history_chunks k us) \<Longrightarrow> n = history_rows us (length us)"
  by (simp add: chunk_store_def rows_history_chunks)

lemma save_keeps:
  assumes "p \<noteq> []" "dirs_exist fs (butlast p)" "fs p \<noteq> Some Dir" "fs (tmp_path p) \<noteq> Some Dir"
  shows "\<exists>fs'. write_json_atomic v fs p = (Inr (), fs') \<and> fs' p = Some (JsonFile (sort_keys v))
    \<and> fs' (tmp_path p) = None \<and> (\<forall>q. q \<noteq> p \<and> q \<noteq> tmp_path p \<longrightarrow> fs' q = fs q)"
  using write_existing(2) [of fs p] assms by auto

text \<open>A manifest written beside the chunk directory leaves the chunks alone.\<close>

lemma chunk_store_cong:
  assumes "chunk_store ar fs root n chunks bs" "\<And>q. q \<noteq> p \<Longrightarrow> q \<noteq> tmp_path p \<Longrightarrow> fs' q = fs q"
    and p: "p = root @ [nm]" "nm \<noteq> CHUNKS_DIRNAME" "nm @ ''.tmp'' \<noteq> CHUNKS_DIRNAME"
  shows "chunk_store ar fs' root n chunks bs"
proof -
  have other: "fs' q = fs q" if "prefix q (root @ [CHUNKS_DIRNAME]) \<or> length q = length root + 2" for q
  proof (rule assms(2))
    from that p show "q \<noteq> p" "q \<noteq> tmp_path p" by (auto simp: tmp_path_def prefix_snoc dest: prefix_length_le)
  qed
  have "dirs_exist fs' (root @ [CHUNKS_DIRNAME])"
    using assms(1) other unfolding chunk_store_def dirs_exist_def by auto
  moreover have "record_batches ar fs' (root @ [CHUNKS_DIRNAME, x]) = record_batches ar fs (root @ [CHUNKS_DIRNAME, x])" for x
    by (rule record_batches_cong, rule other) simp
  ultimately show ?thesis using assms(1) other by (simp add: chunk_store_def)
qed

context arrow_laws
begin

lemma rmap_filter:
  "distinct (names s) \<Longrightarrow> rmap (pa_field ar s) (filter P (names s)) = Inr (filter (\<lambda>f. P (fld_name f)) s)"
  using rmap_fields [of s "filter (\<lambda>f. P (fld_name f)) s"] by (simp add: filter_map comp_def)

lemma first_chunk_history:
  assumes "chunk_store ar fs root n chunks (history_chunks k us)" "us \<noteq> []"
  shows "first_chunk_schema ar fs root chunks = Inr (bschema (stamped k 0 (snd (hd us)) (fst (hd us))))"
proof -
  let ?b = "stamped k 0 (snd (hd us)) (fst (hd us))"
  have hd: "history_chunks k us ! 0 = ?b"
    using assms(2) by (simp add: history_chunks_def history_rows_def rows_before_def hd_conv_nth)
  have "record_batches ar fs (root @ [CHUNKS_DIRNAME, chunk_name 0]) = Inr [?b]"
    and ch: "ch_path (hd chunks) = chunk_relpath 0"
    using assms hd by (auto simp: chunk_store_def chunk_refs_def hd_map upt_rec)
  moreover have "pa_from_batches ar [?b] None = Inr \<lparr>tschema = bschema ?b, tbatches = [?b]\<rparr>"
    by (rule from_batches) simp_all
  ultimately show ?thesis by (simp add: first_chunk_schema_def ch read_column_segment_def)
qed

end

section \<open>Creating the directory of a store\<close>

text \<open>Nothing exists at or below the directory, and it can be made.\<close>

definition dir_free :: "fs \<Rightarrow> path \<Rightarrow> bool" where
  "dir_free fs root \<longleftrightarrow> root \<noteq> [] \<and> (\<forall>q. prefix root q \<longrightarrow> fs q = None)
     \<and> (\<exists>fs1. mkdirs fs [] (root @ [CHUNKS_DIRNAME]) = Inr fs1)"

lemma mkdirs_not_prefix: "mkdirs fs pre ns = Inr fs' \<Longrightarrow> \<not> prefix p (pre @ ns) \<Longrightarrow> fs' p = fs p"
proof (induction fs pre ns rule: mkdirs.induct)
  case (2 fs pre n ns)
  then have "p \<noteq> pre @ [n]" by (auto simp: prefix_def)
  with 2 show ?case
    by (auto split: option.splits entry.splits simp del: fun_upd_apply simp: fun_upd_other)
qed simp

lemma dir_free_mkdirs:
  assumes "dir_free fs root" "mkdirs fs [] (root @ [CHUNKS_DIRNAME]) = Inr fs1" "nm \<noteq> CHUNKS_DIRNAME"
  shows "fs1 (root @ [nm]) = None" and "chunk_store ar fs1 root 0 [] []"
proof -
  show "fs1 (root @ [nm]) = None"
    using mkdirs_not_prefix [OF assms(2), of "root @ [nm]"] assms(1,3) by (simp add: dir_free_def prefix_append)
  have "fs1 (root @ [CHUNKS_DIRNAME, n]) \<noteq> Some Dir" for n
    using mkdirs_not_prefix [OF assms(2), of "root @ [CHUNKS_DIRNAME, n]"] assms(1)
    by (simp add: dir_free_def prefix_append)
  then show "chunk_store ar fs1 root 0 [] []"
    using mkdirs_dirs_exist [OF assms(2)] by (simp add: chunk_store_def chunk_refs_def rows_before_def)
qed

section \<open>The contract\<close>

text \<open>A run of appends, stopping at the first error.\<close>

fun append_run ::
  "(fs \<Rightarrow> 's \<Rightarrow> 'v batch \<Rightarrow> int \<Rightarrow> chunk_ref result \<times> 's \<times> fs) \<Rightarrow> fs \<Rightarrow> 's \<Rightarrow> 'v history \<Rightarrow> unit result \<times> 's \<times> fs" where
  "append_run app fs st [] = (Inr (), st, fs)"
| "append_run app fs st ((u, lsn) # vs) =
     (case app fs st u lsn of
        (Inl e, st', fs') \<Rightarrow> (Inl e, st', fs')
      | (Inr _, st', fs') \<Rightarrow> append_run app fs' st' vs)"

locale append_store =
  fixes k :: string
    and ok :: "fs \<Rightarrow> 's \<Rightarrow> 'v history \<Rightarrow> bool"
    and accepts :: "'v history \<Rightarrow> 'v batch \<Rightarrow> int \<Rightarrow> bool"
    and append_batch :: "fs \<Rightarrow> 's \<Rightarrow> 'v batch \<Rightarrow> int \<Rightarrow> chunk_ref result \<times> 's \<times> fs"
    and scan_all :: "fs \<Rightarrow> 's \<Rightarrow> 'v batch list result"
    and open_again :: "fs \<Rightarrow> 's \<Rightarrow> 's result \<times> fs"
  assumes append_ok: "ok fs st us \<Longrightarrow> accepts us u lsn \<Longrightarrow>
      \<exists>ref st' fs'. append_batch fs st u lsn = (Inr ref, st', fs') \<and> ok fs' st' (us @ [(u, lsn)])
        \<and> ch_start ref = history_rows us (length us) \<and> ch_end ref = ch_start ref + int (brows u)"
    and scan_ok: "ok fs st us \<Longrightarrow> scan_all fs st = Inr (history_scan k us)"
    and open_ok: "ok fs st us \<Longrightarrow> open_again fs st = (Inr st, fs)"
begin

lemma append_run_ok:
  assumes "ok fs st us" "\<forall>i < length vs. accepts (us @ take i vs) (fst (vs ! i)) (snd (vs ! i))"
  shows "\<exists>st' fs'. append_run append_batch fs st vs = (Inr (), st', fs') \<and> ok fs' st' (us @ vs)"
  using assms
proof (induction vs arbitrary: fs st us)
  case (Cons v vs)
  obtain u lsn where v: "v = (u, lsn)" by (cases v)
  from Cons.prems(2) [rule_format, of 0] v have "accepts us u lsn" by simp
  from append_ok [OF Cons.prems(1) this] obtain ref st' fs' where
    s: "append_batch fs st u lsn = (Inr ref, st', fs')" "ok fs' st' (us @ [(u, lsn)])" by blast
  have "\<forall>i < length vs. accepts ((us @ [(u, lsn)]) @ take i vs) (fst (vs ! i)) (snd (vs ! i))"
    using Cons.prems(2) v by (metis Suc_less_eq append.assoc append_Cons append_Nil length_Cons nth_Cons_Suc take_Suc_Cons)
  from Cons.IH [OF s(2) this] s(1) show ?case by (simp add: v)
qed simp

text \<open>After a run of acceptable appends, the store opened again from disk scans as the whole history.\<close>

lemma reopened_scan:
  assumes "ok fs st us" "\<forall>i < length vs. accepts (us @ take i vs) (fst (vs ! i)) (snd (vs ! i))"
  shows "\<exists>st' fs'. append_run append_batch fs st vs = (Inr (), st', fs') \<and> ok fs' st' (us @ vs)
    \<and> open_again fs' st' = (Inr st', fs') \<and> scan_all fs' st' = Inr (history_scan k (us @ vs))"
  using append_run_ok [OF assms] scan_ok open_ok by blast

end

end
