(* ===== verification/Node_Store.thy ===== *)
theory Node_Store
  imports Append_Store
begin

text \<open>
  The per-class node store (\<open>storage/node_store.py\<close>): its manifest, \<open>append\<close> with the schema
  compatibility check, \<open>scan\<close>, \<open>to_table\<close> and opening a store of a bundle; and that it implements
  the contract of \<open>Append_Store\<close>.
\<close>

definition NODE_MANIFEST_NAME :: string where "NODE_MANIFEST_NAME = ''_manifest.json''"
definition NID_COLUMN :: string where "NID_COLUMN = ''nid''"

definition node_chunk_to_json :: "chunk_ref \<Rightarrow> json" where
  "node_chunk_to_json = chunk_to_json ''nid''"

definition node_chunk_from_json :: "json \<Rightarrow> chunk_ref result" where
  "node_chunk_from_json = chunk_from_json ''nid''"

record node_manifest =
  nm_class_iri :: string
  nm_local_name :: string
  nm_schema_json :: string
  nm_next_nid :: int
  nm_chunks :: "chunk_ref list"

definition node_manifest_to_json :: "node_manifest \<Rightarrow> json" where
  "node_manifest_to_json m =
     JObj [(''class_iri'', JStr (nm_class_iri m)),
           (''local_name'', JStr (nm_local_name m)),
           (''schema'', JStr (nm_schema_json m)),
           (''next_nid'', JInt (nm_next_nid m)),
           (''chunks'', JArr (map node_chunk_to_json (nm_chunks m)))]"

definition node_manifest_from_json :: "json \<Rightarrow> node_manifest result" where
  "node_manifest_from_json v =
     rbind (item_str v ''class_iri'') (\<lambda>iri.
     rbind (item_str v ''local_name'') (\<lambda>nm.
     rbind (item_str v ''schema'') (\<lambda>sch.
     rbind (get_int v ''next_nid'' 0) (\<lambda>next.
     rbind (get_list node_chunk_from_json v ''chunks'') (\<lambda>chunks.
     Inr \<lparr>nm_class_iri = iri, nm_local_name = nm, nm_schema_json = sch, nm_next_nid = next,
          nm_chunks = chunks\<rparr>)))))"

definition node_assert_local_name :: "string \<Rightarrow> unit result" where
  "node_assert_local_name nm = (if \<not> local_name_match nm then raise_code ''CDB-7010'' else Inr ())"

definition schema_to_json :: "'v arrow \<Rightarrow> schema \<Rightarrow> string" where
  "schema_to_json ar s =
     json_dumps ar (JArr (map (\<lambda>f. JObj [(''name'', JStr (fld_name f)), (''type'', JStr (fld_type f)),
                                        (''nullable'', JBool (fld_nullable f))]) s))"

definition ensure_compatible :: "'v arrow \<Rightarrow> schema \<Rightarrow> schema \<Rightarrow> unit result" where
  "ensure_compatible ar expected actual =
     (let expected_names = public_names expected; actual_names = public_names actual in
      if expected_names \<noteq> actual_names then raise_code ''CDB-7011''
      else same_types ar ''CDB-7011'' expected actual expected_names)"

section \<open>The store\<close>

record node_store =
  ns_root :: path
  ns_manifest :: node_manifest
  ns_codec :: string

definition node_num_rows :: "node_store \<Rightarrow> int" where
  "node_num_rows st = sum_list (map ch_row_count (nm_chunks (ns_manifest st)))"

definition node_schema :: "'v arrow \<Rightarrow> fs \<Rightarrow> node_store \<Rightarrow> schema result" where
  "node_schema ar fs st =
     (if nm_chunks (ns_manifest st) \<noteq> [] then first_chunk_schema ar fs (ns_root st) (nm_chunks (ns_manifest st))
      else Inr [\<lparr>fld_name = NID_COLUMN, fld_type = uint64, fld_nullable = False\<rparr>])"

definition node_manifest_path :: "path \<Rightarrow> path" where
  "node_manifest_path root = root @ [NODE_MANIFEST_NAME]"

definition save_node_manifest :: "fs \<Rightarrow> path \<Rightarrow> node_manifest \<Rightarrow> unit result \<times> fs" where
  "save_node_manifest fs root m = write_json_atomic (node_manifest_to_json m) fs (node_manifest_path root)"

definition load_node_manifest :: "fs \<Rightarrow> path \<Rightarrow> node_manifest result" where
  "load_node_manifest fs root =
     (if \<not> is_file fs (node_manifest_path root) then raise_code ''CDB-7012''
      else rbind (read_json fs (node_manifest_path root)) node_manifest_from_json)"

text \<open>The checks of \<open>append\<close> before the identifiers are assigned.\<close>

definition node_check_batch :: "'v batch \<Rightarrow> unit result" where
  "node_check_batch b =
     (if brows b = 0 then raise_code ''CDB-7011''
      else if NID_COLUMN \<in> set (names (bschema b)) then raise_code ''CDB-7011''
      else if \<exists>nm \<in> set MVCC_COLUMNS. nm \<in> set (names (bschema b)) then raise_code ''CDB-7011''
      else Inr ())"

definition node_append ::
  "'v arrow \<Rightarrow> fs \<Rightarrow> node_store \<Rightarrow> 'v batch_arg \<Rightarrow> int \<Rightarrow> chunk_ref result \<times> node_store \<times> fs" where
  "node_append ar fs st arg lsn =
     (let m = ns_manifest st in
      case rbind (record_batch_of ar ''CDB-7011'' arg) (\<lambda>b.
           rbind (node_check_batch b) (\<lambda>_.
           rbind (stamp_batch ar NID_COLUMN (nm_next_nid m) lsn b) (\<lambda>with_nid.
           rbind (if nm_chunks m \<noteq> [] then
                    rbind (node_schema ar fs st) (\<lambda>existing. ensure_compatible ar existing (bschema with_nid))
                  else Inr ()) (\<lambda>_.
           Inr (b, with_nid)))))
      of
        Inl e \<Rightarrow> (Inl e, st, fs)
      | Inr (b, with_nid) \<Rightarrow>
          let start_nid = nm_next_nid m; end_nid = start_nid + int (brows b) in
          (case write_chunk ar fs (ns_root st) (ns_codec st) (length (nm_chunks m)) start_nid end_nid with_nid of
             (Inl e, fs1) \<Rightarrow> (Inl e, st, fs1)
           | (Inr ref, fs1) \<Rightarrow>
               let m' = m\<lparr>nm_chunks := nm_chunks m @ [ref], nm_next_nid := end_nid,
                     nm_schema_json := (if nm_schema_json m = [] then schema_to_json ar (bschema with_nid)
                                        else nm_schema_json m)\<rparr>;
                   st' = st\<lparr>ns_manifest := m'\<rparr>
               in
               (case save_node_manifest fs1 (ns_root st) m' of
                  (Inl e, fs2) \<Rightarrow> (Inl e, st', fs2)
                | (Inr _, fs2) \<Rightarrow> (Inr ref, st', fs2))))"

definition node_scan ::
  "'v arrow \<Rightarrow> fs \<Rightarrow> node_store \<Rightarrow> string list option \<Rightarrow> int option \<Rightarrow> 'v batch list result" where
  "node_scan ar fs st columns snapshot_lsn =
     scan_chunks ar fs (ns_root st) (nm_chunks (ns_manifest st)) columns snapshot_lsn"

text \<open>On an empty result with columns the code calls \<open>Schema.select\<close>, which PyArrow schemas do not have.\<close>

definition node_to_table ::
  "'v arrow \<Rightarrow> fs \<Rightarrow> node_store \<Rightarrow> string list option \<Rightarrow> int option \<Rightarrow> 'v table result" where
  "node_to_table ar fs st columns snapshot_lsn =
     rbind (node_scan ar fs st columns snapshot_lsn) (\<lambda>batches.
     if batches = [] then
       rbind (node_schema ar fs st) (\<lambda>s.
       case columns of
         None \<Rightarrow> pa_from_batches ar [] (Some (filter (\<lambda>f. fld_name f \<notin> set MVCC_COLUMNS) s))
       | Some _ \<Rightarrow> Inl AttributeError)
     else pa_from_batches ar batches None)"

definition open_node_store ::
  "fs \<Rightarrow> crcl_bundle \<Rightarrow> string \<Rightarrow> string \<Rightarrow> bool \<Rightarrow> string \<Rightarrow> node_store result \<times> fs" where
  "open_node_store fs bnd class_iri local_name create codec =
     (case node_assert_local_name local_name of
        Inl e \<Rightarrow> (Inl e, fs)
      | Inr _ \<Rightarrow>
          let root = bundle_child bnd [''nodes'', local_name] in
          if is_file fs (node_manifest_path root) then
            (rbind (load_node_manifest fs root) (\<lambda>m.
               if nm_class_iri m \<noteq> class_iri then raise_code ''CDB-7013''
               else Inr \<lparr>ns_root = root, ns_manifest = m, ns_codec = codec\<rparr>), fs)
          else if \<not> create then (raise_code ''CDB-7012'', fs)
          else
            (case mkdirs fs [] (root @ [CHUNKS_DIRNAME]) of
               Inl e \<Rightarrow> (Inl e, fs)
             | Inr fs1 \<Rightarrow>
                 let m = \<lparr>nm_class_iri = class_iri, nm_local_name = local_name, nm_schema_json = [],
                       nm_next_nid = 0, nm_chunks = []\<rparr>
                 in
                 (case save_node_manifest fs1 root m of
                    (Inl e, fs2) \<Rightarrow> (Inl e, fs2)
                  | (Inr _, fs2) \<Rightarrow> (Inr \<lparr>ns_root = root, ns_manifest = m, ns_codec = codec\<rparr>, fs2))))"

definition node_reopen :: "crcl_bundle \<Rightarrow> fs \<Rightarrow> node_store \<Rightarrow> node_store result \<times> fs" where
  "node_reopen bnd fs st = open_node_store fs bnd (nm_class_iri (ns_manifest st)) (nm_local_name (ns_manifest st))
     False (ns_codec st)"

section \<open>The contract\<close>

interpretation node_chunk: json_codec node_chunk_to_json node_chunk_from_json
  by unfold_locales (simp_all add: node_chunk_to_json_def node_chunk_from_json_def chunk_codec)

lemma node_manifest_round_trip: "node_manifest_from_json (sort_keys (node_manifest_to_json m)) = Inr m"
  by (simp add: node_manifest_from_json_def node_manifest_to_json_def field_defs json_simps comp_def
      node_chunk.list_round_trip node_chunk.wf list_all_iff)

definition node_accepts :: "'v arrow \<Rightarrow> string \<Rightarrow> 'v history \<Rightarrow> 'v batch \<Rightarrow> int \<Rightarrow> bool" where
  "node_accepts ar codec us u lsn \<longleftrightarrow> user_batch NID_COLUMN u \<and> history_shape (us @ [(u, lsn)])
     \<and> 0 \<le> lsn \<and> lsn < 2 ^ 64 \<and> history_rows us (length us) + int (brows u) \<le> 2 ^ 64
     \<and> payload_fits ar [stamped NID_COLUMN (history_rows us (length us)) lsn u] codec"

definition node_ok :: "'v arrow \<Rightarrow> crcl_bundle \<Rightarrow> string \<Rightarrow> fs \<Rightarrow> node_store \<Rightarrow> 'v history \<Rightarrow> bool" where
  "node_ok ar bnd codec fs st us \<longleftrightarrow>
     (let m = ns_manifest st; root = ns_root st in
      codec_ready ar codec \<and> ns_codec st = codec \<and> root = bundle_child bnd [''nodes'', nm_local_name m]
      \<and> local_name_match (nm_local_name m)
      \<and> chunk_store ar fs root (nm_next_nid m) (nm_chunks m) (history_chunks NID_COLUMN us)
      \<and> fs (node_manifest_path root) = Some (JsonFile (sort_keys (node_manifest_to_json m)))
      \<and> fs (tmp_path (node_manifest_path root)) \<noteq> Some Dir
      \<and> (\<forall>v \<in> set us. user_batch NID_COLUMN (fst v)) \<and> history_shape us)"

lemma nid_not_mvcc [simp]: "NID_COLUMN \<notin> set MVCC_COLUMNS"
  by (simp add: NID_COLUMN_def MVCC_COLUMNS_def CREATED_LSN_COLUMN_def DELETED_LSN_COLUMN_def)

context arrow_laws
begin

lemma node_compatible:
  assumes u: "user_batch NID_COLUMN u" "user_batch NID_COLUMN u0" and sh: "shape (bschema u) = shape (bschema u0)"
  shows "ensure_compatible ar (bschema (stamped NID_COLUMN a l u0)) (bschema (stamped NID_COLUMN b m u)) = Inr ()"
proof -
  let ?s = "bschema (stamped NID_COLUMN a l u0)" and ?t = "bschema (stamped NID_COLUMN b m u)"
  have ok: "batch_ok u" "batch_ok u0" using u by (simp_all add: user_batch_def)
  have pub: "public_names ?s = NID_COLUMN # names (bschema u)" "public_names ?t = NID_COLUMN # names (bschema u)"
    using public_names_stamped u shape_names [OF sh] nid_not_mvcc by metis+
  have "same_types ar ''CDB-7011'' ?s ?t (NID_COLUMN # names (bschema u)) = Inr ()"
  proof (rule same_types_shape)
    show "distinct (names ?s)" "distinct (names ?t)" using u distinct_stamped nid_not_mvcc by blast+
    show "set (filter (\<lambda>x. fst x \<in> set (NID_COLUMN # names (bschema u))) (shape ?s)) \<subseteq> set (shape ?t)"
      unfolding shape_stamped [OF ok(1)] shape_stamped [OF ok(2)] sh by auto
    show "set (NID_COLUMN # names (bschema u)) \<subseteq> set (names ?s)" "set (NID_COLUMN # names (bschema u)) \<subseteq> set (names ?t)"
      by (auto simp: batch_ok_stamped(2) [OF ok(1)] batch_ok_stamped(2) [OF ok(2)] shape_names [OF sh])
  qed
  with pub show ?thesis by (simp add: ensure_compatible_def)
qed

lemma node_append_ok:
  assumes ok: "node_ok ar bnd codec fs st us" and acc: "node_accepts ar codec us u lsn"
  shows "\<exists>ref st' fs'. node_append ar fs st (ABatch u) lsn = (Inr ref, st', fs') \<and> node_ok ar bnd codec fs' st' (us @ [(u, lsn)])
    \<and> ch_start ref = history_rows us (length us) \<and> ch_end ref = ch_start ref + int (brows u)"
proof -
  let ?m = "ns_manifest st" and ?root = "ns_root st" and ?n = "history_rows us (length us)"
  let ?b = "stamped NID_COLUMN ?n lsn u" and ?mp = "node_manifest_path (ns_root st)"
  have cs: "chunk_store ar fs ?root (nm_next_nid ?m) (nm_chunks ?m) (history_chunks NID_COLUMN us)"
    and codec: "codec_ready ar codec" "ns_codec st = codec"
    and man0: "fs ?mp = Some (JsonFile (sort_keys (node_manifest_to_json ?m)))" "fs (tmp_path ?mp) \<noteq> Some Dir"
    and root: "?root = bundle_child bnd [''nodes'', nm_local_name ?m]" "local_name_match (nm_local_name ?m)"
      "\<forall>v \<in> set us. user_batch NID_COLUMN (fst v)"
    using ok unfolding node_ok_def Let_def by blast+
  have u: "user_batch NID_COLUMN u" "batch_ok u" using acc by (simp_all add: node_accepts_def user_batch_def)
  have nxt: "nm_next_nid ?m = ?n" using chunk_store_next [OF cs] .
  have stamp: "stamp_batch ar NID_COLUMN ?n lsn u = Inr ?b"
    by (rule stamp_batch_stamped) (use acc u in \<open>simp_all add: node_accepts_def\<close>)
  have check: "node_check_batch u = Inr ()" using u(1) by (auto simp: node_check_batch_def user_batch_def)
  have compat: "(if nm_chunks ?m \<noteq> [] then rbind (node_schema ar fs st) (\<lambda>existing. ensure_compatible ar existing (bschema ?b))
      else Inr ()) = Inr ()"
  proof (cases "us = []")
    case True
    with cs show ?thesis by (simp add: chunk_store_def chunk_refs_def history_chunks_def)
  next
    case False
    with cs have ne: "nm_chunks ?m \<noteq> []" using length_chunk_store [OF cs] by auto
    have "shape (bschema u) = shape (bschema (fst (hd us)))"
      using acc history_shape_last [OF False] unfolding node_accepts_def by blast
    then have "ensure_compatible ar (bschema (stamped NID_COLUMN 0 (snd (hd us)) (fst (hd us)))) (bschema ?b) = Inr ()"
      using node_compatible [OF u(1)] root(3) hd_in_set [OF False] by blast
    with first_chunk_history [OF cs False] ne show ?thesis by (simp add: node_schema_def)
  qed
  obtain ref fs1 where w: "write_chunk ar fs ?root codec (length (nm_chunks ?m)) ?n (?n + int (brows u)) ?b = (Inr ref, fs1)"
    and ref: "ch_start ref = ?n" "ch_end ref = ?n + int (brows u)"
    and cs1: "chunk_store ar fs1 ?root (?n + int (brows u)) (nm_chunks ?m @ [ref]) (history_chunks NID_COLUMN (us @ [(u, lsn)]))"
    and frame: "\<And>q. length q \<noteq> length ?root + 2 \<Longrightarrow> fs1 q = fs q"
  proof -
    have "payload_fits ar [?b] codec" using acc by (simp add: node_accepts_def)
    from write_chunk_store [OF arrow_laws_axioms cs batch_ok_stamped(1) [OF u(2)] codec(1) this] that
    show ?thesis unfolding brows_stamped nxt history_chunks_app by force
  qed
  let ?m' = "?m\<lparr>nm_chunks := nm_chunks ?m @ [ref], nm_next_nid := ?n + int (brows u),
    nm_schema_json := (if nm_schema_json ?m = [] then schema_to_json ar (bschema ?b) else nm_schema_json ?m)\<rparr>"
  have mp: "?mp = ?root @ [NODE_MANIFEST_NAME]" "tmp_path ?mp = ?root @ [NODE_MANIFEST_NAME @ ''.tmp'']"
    by (simp_all add: node_manifest_path_def tmp_path_def)
  have "dirs_exist fs1 ?root" using cs1 dirs_exist_prefix by (auto simp: chunk_store_def)
  moreover have "fs1 ?mp \<noteq> Some Dir" "fs1 (tmp_path ?mp) \<noteq> Some Dir"
    using man0 frame [of ?mp] frame [of "tmp_path ?mp"] by (simp_all add: mp)
  ultimately obtain fs2 where save: "save_node_manifest fs1 ?root ?m' = (Inr (), fs2)"
    and man: "fs2 ?mp = Some (JsonFile (sort_keys (node_manifest_to_json ?m')))" "fs2 (tmp_path ?mp) = None"
    and keep: "\<And>q. q \<noteq> ?mp \<Longrightarrow> q \<noteq> tmp_path ?mp \<Longrightarrow> fs2 q = fs1 q"
    using save_keeps [of ?mp fs1 "node_manifest_to_json ?m'"] by (auto simp: mp(1) save_node_manifest_def)
  have "chunk_store ar fs2 ?root (?n + int (brows u)) (nm_chunks ?m @ [ref]) (history_chunks NID_COLUMN (us @ [(u, lsn)]))"
    by (rule chunk_store_cong [OF cs1 keep mp(1)]) (simp_all add: NODE_MANIFEST_NAME_def CHUNKS_DIRNAME_def)
  then have "node_ok ar bnd codec fs2 (st\<lparr>ns_manifest := ?m'\<rparr>) (us @ [(u, lsn)])"
    by (auto simp: node_ok_def Let_def codec root(1) [symmetric] root(2) root(3) [simplified] man u(1)
        acc [unfolded node_accepts_def, simplified])
  moreover have "node_append ar fs st (ABatch u) lsn = (Inr ref, st\<lparr>ns_manifest := ?m'\<rparr>, fs2)"
    using compat check stamp w save codec nxt by (simp add: node_append_def record_batch_of_def Let_def)
  ultimately show ?thesis using ref by auto
qed

lemma node_scan_ok:
  assumes "node_ok ar bnd codec fs st us"
  shows "node_scan ar fs st None None = Inr (history_scan NID_COLUMN us)"
proof -
  have cs: "chunk_store ar fs (ns_root st) (nm_next_nid (ns_manifest st)) (nm_chunks (ns_manifest st)) (history_chunks NID_COLUMN us)"
    and us: "\<forall>v \<in> set us. user_batch NID_COLUMN (fst v)"
    using assms unfolding node_ok_def Let_def by blast+
  have "scan_batch ar None None (history_chunks NID_COLUMN us ! i) = Inr (with_ids NID_COLUMN (history_rows us i) (fst (us ! i)))"
    if "i < length (history_chunks NID_COLUMN us)" for i
    using that us scan_stamped by (simp add: history_chunks_def)
  from scan_chunk_store [OF cs this] show ?thesis by (simp add: node_scan_def history_scan_def)
qed

lemma node_open_ok:
  assumes "node_ok ar bnd codec fs st us"
  shows "node_reopen bnd fs st = (Inr st, fs)"
proof -
  let ?m = "ns_manifest st"
  have root: "bundle_child bnd [''nodes'', nm_local_name ?m] = ns_root st"
    and st: "ns_codec st = codec" "local_name_match (nm_local_name ?m)"
      "fs (node_manifest_path (ns_root st)) = Some (JsonFile (sort_keys (node_manifest_to_json ?m)))"
    using assms unfolding node_ok_def Let_def by metis+
  then show ?thesis
    by (simp add: node_reopen_def open_node_store_def node_assert_local_name_def Let_def is_file_def
        load_node_manifest_def read_json_def node_manifest_round_trip)
qed

end

sublocale arrow_laws \<subseteq> node: append_store NID_COLUMN "node_ok ar bnd codec" "node_accepts ar codec"
    "\<lambda>fs st u. node_append ar fs st (ABatch u)" "\<lambda>fs st. node_scan ar fs st None None" "node_reopen bnd"
  for bnd codec
  by unfold_locales (rule node_append_ok node_scan_ok node_open_ok; assumption)+

context arrow_laws
begin

lemma node_reopened_scan:
  assumes "node_ok ar bnd codec fs st us"
    "\<forall>i < length vs. node_accepts ar codec (us @ take i vs) (fst (vs ! i)) (snd (vs ! i))"
  shows "\<exists>st' fs'. append_run (\<lambda>fs st u. node_append ar fs st (ABatch u)) fs st vs = (Inr (), st', fs')
    \<and> node_ok ar bnd codec fs' st' (us @ vs) \<and> node_reopen bnd fs' st' = (Inr st', fs')
    \<and> node_scan ar fs' st' None None = Inr (history_scan NID_COLUMN (us @ vs))"
  by (rule node.reopened_scan [OF assms])

end

lemma node_create_ok:
  assumes codec: "codec_ready ar codec" and nm: "local_name_match nm"
    and free: "dir_free fs (bundle_child bnd [''nodes'', nm])"
  shows "\<exists>st fs'. open_node_store fs bnd iri nm True codec = (Inr st, fs') \<and> node_ok ar bnd codec fs' st []"
proof -
  let ?root = "bundle_child bnd [''nodes'', nm]"
  let ?m = "\<lparr>nm_class_iri = iri, nm_local_name = nm, nm_schema_json = [], nm_next_nid = 0, nm_chunks = []\<rparr>"
  let ?mp = "node_manifest_path ?root"
  have mp: "?mp = ?root @ [NODE_MANIFEST_NAME]" "tmp_path (?root @ [NODE_MANIFEST_NAME]) = ?root @ [NODE_MANIFEST_NAME @ ''.tmp'']"
    by (simp_all add: node_manifest_path_def tmp_path_def)
  have ne: "NODE_MANIFEST_NAME \<noteq> CHUNKS_DIRNAME" "NODE_MANIFEST_NAME @ ''.tmp'' \<noteq> CHUNKS_DIRNAME"
    by (simp_all add: NODE_MANIFEST_NAME_def CHUNKS_DIRNAME_def)
  from free obtain fs1 where fs1: "mkdirs fs [] (?root @ [CHUNKS_DIRNAME]) = Inr fs1" by (auto simp: dir_free_def)
  have none: "fs1 ?mp = None" "fs1 (tmp_path ?mp) = None" "fs ?mp = None"
    using dir_free_mkdirs(1) [OF free fs1 ne(1)] dir_free_mkdirs(1) [OF free fs1 ne(2)] free
    unfolding mp by (simp_all add: dir_free_def)
  have cs: "chunk_store ar fs1 ?root 0 [] []" by (rule dir_free_mkdirs(2) [OF free fs1 ne(1)])
  then have "dirs_exist fs1 (butlast ?mp)" by (auto simp: chunk_store_def mp(1) intro: dirs_exist_prefix)
  then obtain fs2 where save: "save_node_manifest fs1 ?root ?m = (Inr (), fs2)"
    and man: "fs2 ?mp = Some (JsonFile (sort_keys (node_manifest_to_json ?m)))" "fs2 (tmp_path ?mp) = None"
    and keep: "\<And>q. q \<noteq> ?mp \<Longrightarrow> q \<noteq> tmp_path ?mp \<Longrightarrow> fs2 q = fs1 q"
    using save_keeps [of ?mp fs1 "node_manifest_to_json ?m"] none by (auto simp: mp(1) save_node_manifest_def)
  have "chunk_store ar fs2 ?root 0 [] []" by (rule chunk_store_cong [OF cs keep mp(1) ne])
  then have "node_ok ar bnd codec fs2 \<lparr>ns_root = ?root, ns_manifest = ?m, ns_codec = codec\<rparr> []"
    using codec nm man by (simp add: node_ok_def Let_def history_chunks_def history_shape_def)
  moreover have "open_node_store fs bnd iri nm True codec = (Inr \<lparr>ns_root = ?root, ns_manifest = ?m, ns_codec = codec\<rparr>, fs2)"
    using nm none fs1 save by (simp add: open_node_store_def node_assert_local_name_def Let_def is_file_def)
  ultimately show ?thesis by auto
qed

section \<open>Properties\<close>

text \<open>
  The node store implements the abstract append-only history. In a free directory of a
  bundle, creating a store and appending any run of acceptable batches succeeds; the store opened
  again from its files is the one the run left, and its scan returns the appended batches in
  order with consecutive \<open>nid\<close> values.
\<close>

theorem node_store_history:
  assumes "arrow_laws ar" "codec_ready ar codec" "local_name_match nm"
    and "dir_free fs (bundle_child bnd [''nodes'', nm])"
    and "\<forall>i < length vs. node_accepts ar codec (take i vs) (fst (vs ! i)) (snd (vs ! i))"
  shows "\<exists>st fs1 st' fs'. open_node_store fs bnd iri nm True codec = (Inr st, fs1)
    \<and> append_run (\<lambda>fs st u. node_append ar fs st (ABatch u)) fs1 st vs = (Inr (), st', fs')
    \<and> node_reopen bnd fs' st' = (Inr st', fs')
    \<and> node_scan ar fs' st' None None = Inr (history_scan NID_COLUMN vs)
    \<and> concat (map (\<lambda>b. cells (hd (bcols b))) (history_scan NID_COLUMN vs))
       = map CInt (map int [0..<nat (history_rows vs (length vs))])"
proof -
  obtain st fs1 where "open_node_store fs bnd iri nm True codec = (Inr st, fs1)" "node_ok ar bnd codec fs1 st []"
    using node_create_ok [OF assms(2-4), of iri] by auto
  with arrow_laws.node_reopened_scan [OF assms(1), of bnd codec fs1 st "[]" vs] assms(5) scan_ids
  show ?thesis by fastforce
qed

lemma sample_node_accepts: "node_accepts arrow_lists ''none'' [] sample_batch 1"
proof -
  have r: "replicate 2 x = [x, x]" for x by (simp add: numeral_2_eq_2)
  have "user_batch NID_COLUMN sample_batch"
    by (simp add: user_batch_def sample_batch_def batch_ok_def NID_COLUMN_def MVCC_COLUMNS_def
        CREATED_LSN_COLUMN_def DELETED_LSN_COLUMN_def)
  moreover have "payload_fits arrow_lists [stamped NID_COLUMN 0 1 sample_batch] ''none''"
    by (simp add: payload_fits_def segment_payload_def segment_compress_def arrow_lists_def sample_batch_def
        stamped_def ids_array_def uint64_array_of_def fields_of_def Let_def batch_flat_def length_tokens_bytes
        put_batches_def put_list_def put_pair_def put_char_def put_int_def HEADER_SIZE_def upt_rec r
        NID_COLUMN_def MVCC_COLUMNS_def CREATED_LSN_COLUMN_def DELETED_LSN_COLUMN_def)
  ultimately show ?thesis
    by (simp add: node_accepts_def history_shape_def history_rows_def rows_before_def) (simp add: sample_batch_def)
qed

theorem node_store_history_witness:
  "\<exists>st fs1 st' fs'. open_node_store (\<lambda>_. None) \<lparr>b_path = [''b.crcl''], b_manifest = manifest_empty []\<rparr> ''c:P'' ''P'' True ''none'' = (Inr st, fs1)
    \<and> append_run (\<lambda>fs st u. node_append arrow_lists fs st (ABatch u)) fs1 st [(sample_batch, 1)] = (Inr (), st', fs')
    \<and> node_scan arrow_lists fs' st' None None = Inr [with_ids NID_COLUMN 0 sample_batch]"
proof -
  have "codec_ready arrow_lists ''none''" "local_name_match ''P''"
    by (simp_all add: codec_ready_def local_name_match_def name_start_def name_char_def ascii_between_def)
  moreover have "dir_free (\<lambda>_. None) (bundle_child \<lparr>b_path = [''b.crcl''], b_manifest = manifest_empty []\<rparr> [''nodes'', ''P''])"
    by (simp add: dir_free_def bundle_child_def CHUNKS_DIRNAME_def)
  moreover have "history_scan NID_COLUMN [(sample_batch, 1)] = [with_ids NID_COLUMN 0 sample_batch]"
    by (simp add: history_scan_def history_rows_def rows_before_def)
  ultimately show ?thesis
    using node_store_history [OF ar_lists.arrow_laws_axioms, of "''none''" "''P''" "\<lambda>_. None" _ "[(sample_batch, 1)]" "''c:P''"]
      sample_node_accepts by fastforce
qed

end
