(* ===== verification/Edge_Store.thy ===== *)
theory Edge_Store
  imports Append_Store
begin

text \<open>
  The per-property edge store (\<open>storage/edge_store.py\<close>): its manifest, the checks on a batch,
  \<open>append\<close>, \<open>scan\<close>, \<open>to_table\<close> and opening a store of a bundle.
\<close>

definition EDGE_MANIFEST_NAME :: string where "EDGE_MANIFEST_NAME = ''_manifest.json''"
definition EID_COLUMN :: string where "EID_COLUMN = ''eid''"
definition SRC_COLUMN :: string where "SRC_COLUMN = ''src''"
definition DST_COLUMN :: string where "DST_COLUMN = ''dst''"
definition REQUIRED_EDGE_COLUMNS :: "string list" where "REQUIRED_EDGE_COLUMNS = [SRC_COLUMN, DST_COLUMN]"

definition edge_chunk_to_json :: "chunk_ref \<Rightarrow> json" where
  "edge_chunk_to_json = chunk_to_json ''eid''"

definition edge_chunk_from_json :: "json \<Rightarrow> chunk_ref result" where
  "edge_chunk_from_json = chunk_from_json ''eid''"

text \<open>The two class IRIs are kept as they were read, \<open>JNull\<close> for \<open>None\<close>.\<close>

record edge_manifest =
  em_property_iri :: string
  em_local_name :: string
  em_src_class_iri :: json
  em_dst_class_iri :: json
  em_next_eid :: int
  em_chunks :: "chunk_ref list"

definition edge_manifest_to_json :: "edge_manifest \<Rightarrow> json" where
  "edge_manifest_to_json m =
     JObj [(''property_iri'', JStr (em_property_iri m)),
           (''local_name'', JStr (em_local_name m)),
           (''src_class_iri'', em_src_class_iri m),
           (''dst_class_iri'', em_dst_class_iri m),
           (''next_eid'', JInt (em_next_eid m)),
           (''chunks'', JArr (map edge_chunk_to_json (em_chunks m)))]"

definition or_none :: "json \<Rightarrow> json" where
  "or_none v = (if json_bool v then v else JNull)"

definition edge_manifest_from_json :: "json \<Rightarrow> edge_manifest result" where
  "edge_manifest_from_json v =
     rbind (item_str v ''property_iri'') (\<lambda>iri.
     rbind (item_str v ''local_name'') (\<lambda>nm.
     rbind (json_get v ''src_class_iri'' JNull) (\<lambda>sc.
     rbind (json_get v ''dst_class_iri'' JNull) (\<lambda>dc.
     rbind (get_int v ''next_eid'' 0) (\<lambda>next.
     rbind (get_list edge_chunk_from_json v ''chunks'') (\<lambda>chunks.
     Inr \<lparr>em_property_iri = iri, em_local_name = nm, em_src_class_iri = or_none sc,
          em_dst_class_iri = or_none dc, em_next_eid = next, em_chunks = chunks\<rparr>))))))"

section \<open>Checks\<close>

definition edge_assert_local_name :: "string \<Rightarrow> unit result" where
  "edge_assert_local_name nm = (if \<not> local_name_match nm then raise_code ''CDB-7020'' else Inr ())"

definition edge_validate_batch :: "'v arrow \<Rightarrow> 'v batch \<Rightarrow> schema option \<Rightarrow> unit result" where
  "edge_validate_batch ar b established_schema =
     (let ns = names (bschema b) in
      if brows b = 0 then raise_code ''CDB-7021''
      else if EID_COLUMN \<in> set ns then raise_code ''CDB-7021''
      else if \<exists>nm \<in> set MVCC_COLUMNS. nm \<in> set ns then raise_code ''CDB-7021''
      else if \<exists>required \<in> set REQUIRED_EDGE_COLUMNS. required \<notin> set ns then raise_code ''CDB-7021''
      else
        rbind (pa_field ar (bschema b) SRC_COLUMN) (\<lambda>src.
        rbind (pa_field ar (bschema b) DST_COLUMN) (\<lambda>dst.
        if fld_type src \<noteq> uint64 \<or> fld_type dst \<noteq> uint64 then raise_code ''CDB-7021''
        else
          (case established_schema of
             None \<Rightarrow> Inr ()
           | Some est \<Rightarrow>
               let established_names = public_names est; actual_names = public_names (bschema b) in
               if established_names \<noteq> actual_names then raise_code ''CDB-7021''
               else same_types ar ''CDB-7021'' est (bschema b) actual_names))))"

section \<open>The store\<close>

record edge_store =
  es_root :: path
  es_manifest :: edge_manifest
  es_codec :: string

definition edge_num_rows :: "edge_store \<Rightarrow> int" where
  "edge_num_rows st = sum_list (map ch_row_count (em_chunks (es_manifest st)))"

definition edge_schema :: "'v arrow \<Rightarrow> fs \<Rightarrow> edge_store \<Rightarrow> schema result" where
  "edge_schema ar fs st =
     (if em_chunks (es_manifest st) \<noteq> [] then first_chunk_schema ar fs (es_root st) (em_chunks (es_manifest st))
      else Inr (map (\<lambda>nm. \<lparr>fld_name = nm, fld_type = uint64, fld_nullable = False\<rparr>) [EID_COLUMN, SRC_COLUMN, DST_COLUMN]))"

definition edge_manifest_path :: "path \<Rightarrow> path" where
  "edge_manifest_path root = root @ [EDGE_MANIFEST_NAME]"

definition save_edge_manifest :: "fs \<Rightarrow> path \<Rightarrow> edge_manifest \<Rightarrow> unit result \<times> fs" where
  "save_edge_manifest fs root m = write_json_atomic (edge_manifest_to_json m) fs (edge_manifest_path root)"

definition load_edge_manifest :: "fs \<Rightarrow> path \<Rightarrow> edge_manifest result" where
  "load_edge_manifest fs root =
     (if \<not> is_file fs (edge_manifest_path root) then raise_code ''CDB-7022''
      else rbind (read_json fs (edge_manifest_path root)) edge_manifest_from_json)"

definition edge_append ::
  "'v arrow \<Rightarrow> fs \<Rightarrow> edge_store \<Rightarrow> 'v batch_arg \<Rightarrow> int \<Rightarrow> chunk_ref result \<times> edge_store \<times> fs" where
  "edge_append ar fs st arg lsn =
     (let m = es_manifest st in
      case rbind (record_batch_of ar ''CDB-7021'' arg) (\<lambda>b.
           rbind (if em_chunks m \<noteq> [] then
                    rbind (edge_schema ar fs st) (\<lambda>s.
                    rbind (rmap (pa_field ar s) (filter (\<lambda>nm. nm \<noteq> EID_COLUMN) (names s))) (\<lambda>s'.
                    Inr (Some s')))
                  else Inr None) (\<lambda>established.
           rbind (edge_validate_batch ar b established) (\<lambda>u.
           rbind (stamp_batch ar EID_COLUMN (em_next_eid m) lsn b) (\<lambda>with_eid. Inr (b, with_eid)))))
      of
        Inl e \<Rightarrow> (Inl e, st, fs)
      | Inr (b, with_eid) \<Rightarrow>
          let start_eid = em_next_eid m; end_eid = start_eid + int (brows b) in
          (case write_chunk ar fs (es_root st) (es_codec st) (length (em_chunks m)) start_eid end_eid with_eid of
             (Inl e, fs1) \<Rightarrow> (Inl e, st, fs1)
           | (Inr ref, fs1) \<Rightarrow>
               let m' = m\<lparr>em_chunks := em_chunks m @ [ref], em_next_eid := end_eid\<rparr>;
                   st' = st\<lparr>es_manifest := m'\<rparr>
               in
               (case save_edge_manifest fs1 (es_root st) m' of
                  (Inl e, fs2) \<Rightarrow> (Inl e, st', fs2)
                | (Inr _, fs2) \<Rightarrow> (Inr ref, st', fs2))))"

definition edge_scan ::
  "'v arrow \<Rightarrow> fs \<Rightarrow> edge_store \<Rightarrow> string list option \<Rightarrow> int option \<Rightarrow> 'v batch list result" where
  "edge_scan ar fs st columns snapshot_lsn =
     scan_chunks ar fs (es_root st) (em_chunks (es_manifest st)) columns snapshot_lsn"

definition edge_to_table ::
  "'v arrow \<Rightarrow> fs \<Rightarrow> edge_store \<Rightarrow> string list option \<Rightarrow> int option \<Rightarrow> 'v table result" where
  "edge_to_table ar fs st columns snapshot_lsn =
     rbind (edge_scan ar fs st columns snapshot_lsn) (\<lambda>batches.
     if batches \<noteq> [] then pa_from_batches ar batches None
     else
       rbind (edge_schema ar fs st) (\<lambda>s.
       rbind (case columns of
                Some cs \<Rightarrow> rmap (pa_field ar s) cs
              | None \<Rightarrow> Inr (filter (\<lambda>f. fld_name f \<notin> set MVCC_COLUMNS) s)) (\<lambda>s'.
       pa_from_batches ar [] (Some s'))))"

definition open_edge_store ::
  "fs \<Rightarrow> crcl_bundle \<Rightarrow> string \<Rightarrow> string \<Rightarrow> string option \<Rightarrow> string option \<Rightarrow> bool \<Rightarrow> string
    \<Rightarrow> edge_store result \<times> fs" where
  "open_edge_store fs bnd property_iri local_name src_class dst_class create codec =
     (case edge_assert_local_name local_name of
        Inl e \<Rightarrow> (Inl e, fs)
      | Inr _ \<Rightarrow>
          let root = bundle_child bnd [''edges'', local_name] in
          if is_file fs (edge_manifest_path root) then
            (rbind (load_edge_manifest fs root) (\<lambda>m.
               if em_property_iri m \<noteq> property_iri then raise_code ''CDB-7023''
               else Inr \<lparr>es_root = root, es_manifest = m, es_codec = codec\<rparr>), fs)
          else if \<not> create then (raise_code ''CDB-7022'', fs)
          else
            (case mkdirs fs [] (root @ [CHUNKS_DIRNAME]) of
               Inl e \<Rightarrow> (Inl e, fs)
             | Inr fs1 \<Rightarrow>
                 let m = \<lparr>em_property_iri = property_iri, em_local_name = local_name,
                       em_src_class_iri = opt_json src_class, em_dst_class_iri = opt_json dst_class,
                       em_next_eid = 0, em_chunks = []\<rparr>
                 in
                 (case save_edge_manifest fs1 root m of
                    (Inl e, fs2) \<Rightarrow> (Inl e, fs2)
                  | (Inr _, fs2) \<Rightarrow> (Inr \<lparr>es_root = root, es_manifest = m, es_codec = codec\<rparr>, fs2))))"

end
