(* ===== verification/Edge_Theorems.thy ===== *)
theory Edge_Theorems
  imports Edge_Store
begin

text \<open>
  The edge store implements the contract of \<open>Append_Store\<close>, for every Arrow implementation with
  the documented behaviour.
\<close>

text \<open>The class IRIs as the manifest file keeps them: absent, or a non-empty string.\<close>

definition edge_manifest_ok :: "edge_manifest \<Rightarrow> bool" where
  "edge_manifest_ok m \<longleftrightarrow> (\<forall>v \<in> {em_src_class_iri m, em_dst_class_iri m}. v = JNull \<or> (\<exists>s. s \<noteq> [] \<and> v = JStr s))"

interpretation edge_chunk: json_codec edge_chunk_to_json edge_chunk_from_json
  by unfold_locales (simp_all add: edge_chunk_to_json_def edge_chunk_from_json_def chunk_codec)

lemma edge_manifest_round_trip:
  assumes "edge_manifest_ok m"
  shows "edge_manifest_from_json (sort_keys (edge_manifest_to_json m)) = Inr m"
proof -
  have v: "sort_keys v = v" "or_none v = v" "json_wf v" if "v \<in> {em_src_class_iri m, em_dst_class_iri m}" for v
    using assms that by (auto simp: edge_manifest_ok_def or_none_def)
  show ?thesis
    using v [of "em_src_class_iri m"] v [of "em_dst_class_iri m"]
    by (simp add: edge_manifest_from_json_def edge_manifest_to_json_def field_defs json_simps comp_def
        edge_chunk.list_round_trip edge_chunk.wf list_all_iff)
qed

definition edge_batch :: "'v batch \<Rightarrow> bool" where
  "edge_batch u \<longleftrightarrow> user_batch EID_COLUMN u
     \<and> {(SRC_COLUMN, uint64), (DST_COLUMN, uint64)} \<subseteq> set (shape (bschema u))"

definition edge_accepts :: "'v arrow \<Rightarrow> string \<Rightarrow> 'v history \<Rightarrow> 'v batch \<Rightarrow> int \<Rightarrow> bool" where
  "edge_accepts ar codec us u lsn \<longleftrightarrow> edge_batch u \<and> history_shape (us @ [(u, lsn)])
     \<and> 0 \<le> lsn \<and> lsn < 2 ^ 64 \<and> history_rows us (length us) + int (brows u) \<le> 2 ^ 64
     \<and> payload_fits ar [stamped EID_COLUMN (history_rows us (length us)) lsn u] codec"

text \<open>The store, its files and its history agree.\<close>

definition edge_ok :: "'v arrow \<Rightarrow> crcl_bundle \<Rightarrow> string \<Rightarrow> fs \<Rightarrow> edge_store \<Rightarrow> 'v history \<Rightarrow> bool" where
  "edge_ok ar bnd codec fs st us \<longleftrightarrow>
     (let m = es_manifest st; root = es_root st in
      codec_ready ar codec \<and> es_codec st = codec \<and> root = bundle_child bnd [''edges'', em_local_name m]
      \<and> local_name_match (em_local_name m) \<and> edge_manifest_ok m
      \<and> chunk_store ar fs root (em_next_eid m) (em_chunks m) (history_chunks EID_COLUMN us)
      \<and> fs (edge_manifest_path root) = Some (JsonFile (sort_keys (edge_manifest_to_json m)))
      \<and> fs (tmp_path (edge_manifest_path root)) \<noteq> Some Dir
      \<and> (\<forall>v \<in> set us. edge_batch (fst v) \<and> 0 \<le> snd v \<and> snd v < 2 ^ 64) \<and> history_shape us)"

lemma edge_names: "edge_batch u \<Longrightarrow> {SRC_COLUMN, DST_COLUMN} \<subseteq> set (names (bschema u))"
  by (auto simp: edge_batch_def shape_def)

lemma eid_not_mvcc [simp]: "EID_COLUMN \<notin> set MVCC_COLUMNS"
  by (simp add: EID_COLUMN_def MVCC_COLUMNS_def CREATED_LSN_COLUMN_def DELETED_LSN_COLUMN_def)

context arrow_laws
begin

text \<open>The schema the append compares with, and the checks of an acceptable batch.\<close>

lemma edge_validate_first:
  assumes u: "edge_batch u"
  shows "edge_validate_batch ar u None = Inr ()"
    and "edge_validate_batch ar u (Some est) = (if public_names est \<noteq> names (bschema u) then raise_code ''CDB-7021''
        else same_types ar ''CDB-7021'' est (bschema u) (names (bschema u)))"
proof -
  have ub: "user_batch EID_COLUMN u" using u by (simp add: edge_batch_def)
  then have d: "distinct (names (bschema u))" and rows: "brows u \<noteq> 0" "EID_COLUMN \<notin> set (names (bschema u))"
    and mv: "\<not> (\<exists>nm \<in> set MVCC_COLUMNS. nm \<in> set (names (bschema u)))"
    by (auto simp: user_batch_def)
  obtain f g where fg: "f \<in> set (bschema u)" "fld_name f = SRC_COLUMN" "fld_type f = uint64"
    "g \<in> set (bschema u)" "fld_name g = DST_COLUMN" "fld_type g = uint64"
    using u by (force simp: edge_batch_def shape_def)
  have "pa_field ar (bschema u) SRC_COLUMN = Inr f" "pa_field ar (bschema u) DST_COLUMN = Inr g"
    using field [OF d] fg by metis+
  moreover have req: "\<not> (\<exists>r \<in> set REQUIRED_EDGE_COLUMNS. r \<notin> set (names (bschema u)))"
    using edge_names [OF u] by (auto simp: REQUIRED_EDGE_COLUMNS_def)
  moreover have "public_names (bschema u) = names (bschema u)"
    using mv by (auto simp: public_names_def filter_id_conv)
  ultimately show "edge_validate_batch ar u None = Inr ()"
    "edge_validate_batch ar u (Some est) = (if public_names est \<noteq> names (bschema u) then raise_code ''CDB-7021''
        else same_types ar ''CDB-7021'' est (bschema u) (names (bschema u)))"
    using rows mv fg by (simp_all only: edge_validate_batch_def Let_def if_False rbind_simps option.case) simp_all
qed

lemma edge_validate_next:
  assumes u: "edge_batch u" and u0: "edge_batch u0" and sh: "shape (bschema u) = shape (bschema u0)"
  shows "edge_validate_batch ar u (Some (filter (\<lambda>f. fld_name f \<noteq> EID_COLUMN) (bschema (stamped EID_COLUMN 0 lsn u0)))) = Inr ()"
proof -
  let ?s = "bschema (stamped EID_COLUMN 0 lsn u0)"
  let ?est = "filter (\<lambda>f. fld_name f \<noteq> EID_COLUMN) ?s"
  have b: "batch_ok u0" "user_batch EID_COLUMN u0" "user_batch EID_COLUMN u" using u u0 by (auto simp: edge_batch_def user_batch_def)
  have n0: "names (bschema u) = names (bschema u0)" using shape_names [OF sh] .
  have eid: "filter (\<lambda>nm. nm \<noteq> EID_COLUMN) (names ?s) = names (bschema u0) @ MVCC_COLUMNS"
  proof -
    have "filter (\<lambda>nm. nm \<noteq> EID_COLUMN) (names (bschema u0) @ MVCC_COLUMNS) = names (bschema u0) @ MVCC_COLUMNS"
      by (rule filter_True) (use b(2) eid_not_mvcc in \<open>auto simp: user_batch_def\<close>)
    then show ?thesis by (simp add: batch_ok_stamped(2) [OF b(1)])
  qed
  have ns: "names ?est = names (bschema u0) @ MVCC_COLUMNS" using eid by (simp add: filter_map comp_def)
  have "filter (\<lambda>nm. nm \<notin> set MVCC_COLUMNS) (names (bschema u0)) = names (bschema u0)"
    using b(2) by (auto simp: user_batch_def filter_id_conv)
  then have pub: "public_names ?est = names (bschema u)" by (simp add: public_names_def ns n0)
  have "same_types ar ''CDB-7021'' ?est (bschema u) (names (bschema u)) = Inr ()"
  proof (rule same_types_shape)
    show "distinct (names ?est)" using b(2) by (auto simp: ns user_batch_def)
    show "distinct (names (bschema u))" using b(3) by (simp add: user_batch_def)
    have "set (shape ?est) \<subseteq> set (shape ?s)" by (auto simp: shape_def)
    moreover have "CREATED_LSN_COLUMN \<notin> set (names (bschema u))" "DELETED_LSN_COLUMN \<notin> set (names (bschema u))"
      "EID_COLUMN \<notin> set (names (bschema u))"
      using b(3) by (auto simp: user_batch_def MVCC_COLUMNS_def)
    ultimately show "set (filter (\<lambda>x. fst x \<in> set (names (bschema u))) (shape ?est)) \<subseteq> set (shape (bschema u))"
      unfolding shape_stamped [OF b(1)] sh by auto
    show "set (names (bschema u)) \<subseteq> set (names ?est)" unfolding ns n0 by simp
  qed simp
  with pub edge_validate_first(2) [OF u] show ?thesis by simp
qed

end

section \<open>The contract holds\<close>

context arrow_laws
begin

lemma edge_append_ok:
  assumes ok: "edge_ok ar bnd codec fs st us" and acc: "edge_accepts ar codec us u lsn"
  shows "\<exists>ref st' fs'. edge_append ar fs st (ABatch u) lsn = (Inr ref, st', fs') \<and> edge_ok ar bnd codec fs' st' (us @ [(u, lsn)])
    \<and> ch_start ref = history_rows us (length us) \<and> ch_end ref = ch_start ref + int (brows u)"
proof -
  let ?m = "es_manifest st" and ?root = "es_root st" and ?n = "history_rows us (length us)"
  let ?b = "stamped EID_COLUMN ?n lsn u" and ?mp = "edge_manifest_path (es_root st)"
  have cs: "chunk_store ar fs ?root (em_next_eid ?m) (em_chunks ?m) (history_chunks EID_COLUMN us)"
    and codec: "codec_ready ar codec" "es_codec st = codec"
    using ok unfolding edge_ok_def Let_def by blast+
  have u: "edge_batch u" "batch_ok u" using acc by (simp_all add: edge_accepts_def edge_batch_def user_batch_def)
  have nxt: "em_next_eid ?m = ?n" using chunk_store_next [OF cs] .
  have stamp: "stamp_batch ar EID_COLUMN ?n lsn u = Inr ?b"
    by (rule stamp_batch_stamped) (use acc u in \<open>simp_all add: edge_accepts_def\<close>)
  have valid: "rbind (if em_chunks ?m \<noteq> [] then rbind (edge_schema ar fs st) (\<lambda>s.
        rbind (rmap (pa_field ar s) (filter (\<lambda>nm. nm \<noteq> EID_COLUMN) (names s))) (\<lambda>s'. Inr (Some s'))) else Inr None)
      (edge_validate_batch ar u) = Inr ()"
  proof (cases "us = []")
    case True
    with cs have "em_chunks ?m = []" by (simp add: chunk_store_def chunk_refs_def history_chunks_def)
    with edge_validate_first(1) [OF u(1)] show ?thesis by simp
  next
    case False
    with cs have ne: "em_chunks ?m \<noteq> []" using length_chunk_store [OF cs] by auto
    have u0: "edge_batch (fst (hd us))" using ok False by (simp add: edge_ok_def Let_def)
    have "shape (bschema u) = shape (bschema (fst (hd us)))"
      using acc history_shape_last [OF False] unfolding edge_accepts_def by blast
    with edge_validate_next [OF u(1) u0] have val: "edge_validate_batch ar u
        (Some (filter (\<lambda>f. fld_name f \<noteq> EID_COLUMN) (bschema (stamped EID_COLUMN 0 (snd (hd us)) (fst (hd us)))))) = Inr ()"
      by blast
    have d: "distinct (names (bschema (stamped EID_COLUMN 0 (snd (hd us)) (fst (hd us)))))"
      using u0 by (intro distinct_stamped) (simp_all add: edge_batch_def)
    show ?thesis
      using first_chunk_history [OF cs False] rmap_filter [OF d, of "\<lambda>nm. nm \<noteq> EID_COLUMN"] val ne
      by (simp add: edge_schema_def)
  qed
  obtain ref fs1 where w: "write_chunk ar fs ?root codec (length (em_chunks ?m)) ?n (?n + int (brows u)) ?b = (Inr ref, fs1)"
    and ref: "ch_start ref = ?n" "ch_end ref = ?n + int (brows u)"
    and cs1: "chunk_store ar fs1 ?root (?n + int (brows u)) (em_chunks ?m @ [ref]) (history_chunks EID_COLUMN (us @ [(u, lsn)]))"
    and frame: "\<And>q. length q \<noteq> length ?root + 2 \<Longrightarrow> fs1 q = fs q"
  proof -
    have "payload_fits ar [?b] codec" using acc by (simp add: edge_accepts_def)
    from write_chunk_store [OF arrow_laws_axioms cs batch_ok_stamped(1) [OF u(2)] codec(1) this] that
    show ?thesis unfolding brows_stamped nxt history_chunks_app by force
  qed
  have man0: "fs ?mp = Some (JsonFile (sort_keys (edge_manifest_to_json ?m)))" "fs (tmp_path ?mp) \<noteq> Some Dir"
    and root: "?root = bundle_child bnd [''edges'', em_local_name ?m]" "local_name_match (em_local_name ?m)"
      "edge_manifest_ok ?m" "\<forall>v \<in> set us. edge_batch (fst v) \<and> 0 \<le> snd v \<and> snd v < 2 ^ 64"
    using ok unfolding edge_ok_def Let_def by blast+
  let ?m' = "?m\<lparr>em_chunks := em_chunks ?m @ [ref], em_next_eid := ?n + int (brows u)\<rparr>"
  have mp: "?mp = ?root @ [EDGE_MANIFEST_NAME]" "tmp_path ?mp = ?root @ [EDGE_MANIFEST_NAME @ ''.tmp'']"
    by (simp_all add: edge_manifest_path_def tmp_path_def)
  have "dirs_exist fs1 ?root" using cs1 dirs_exist_prefix by (auto simp: chunk_store_def)
  moreover have "fs1 ?mp \<noteq> Some Dir" "fs1 (tmp_path ?mp) \<noteq> Some Dir"
    using man0 frame [of ?mp] frame [of "tmp_path ?mp"] by (simp_all add: mp)
  ultimately obtain fs2 where save: "save_edge_manifest fs1 ?root ?m' = (Inr (), fs2)"
    and man: "fs2 ?mp = Some (JsonFile (sort_keys (edge_manifest_to_json ?m')))" "fs2 (tmp_path ?mp) = None"
    and keep: "\<And>q. q \<noteq> ?mp \<Longrightarrow> q \<noteq> tmp_path ?mp \<Longrightarrow> fs2 q = fs1 q"
    using save_keeps [of ?mp fs1 "edge_manifest_to_json ?m'"] by (auto simp: mp(1) save_edge_manifest_def)
  have "chunk_store ar fs2 ?root (?n + int (brows u)) (em_chunks ?m @ [ref]) (history_chunks EID_COLUMN (us @ [(u, lsn)]))"
    by (rule chunk_store_cong [OF cs1 keep mp(1)]) (simp_all add: EDGE_MANIFEST_NAME_def CHUNKS_DIRNAME_def)
  then have "edge_ok ar bnd codec fs2 (st\<lparr>es_manifest := ?m'\<rparr>) (us @ [(u, lsn)])"
    by (auto simp: edge_ok_def Let_def codec root(1) [symmetric] root(2) root(4) [simplified] root(3) [unfolded edge_manifest_ok_def]
        man u(1) edge_manifest_ok_def acc [unfolded edge_accepts_def, simplified])
  moreover have "edge_append ar fs st (ABatch u) lsn = (Inr ref, st\<lparr>es_manifest := ?m'\<rparr>, fs2)"
    using valid stamp w save codec nxt
    by (auto simp: edge_append_def record_batch_of_def Let_def rbind_Inr_iff)
  ultimately show ?thesis using ref by auto
qed

lemma edge_scan_ok:
  assumes "edge_ok ar bnd codec fs st us"
  shows "edge_scan ar fs st None None = Inr (history_scan EID_COLUMN us)"
    and "0 \<le> snap \<Longrightarrow> snap < 2 ^ 64 \<Longrightarrow> edge_scan ar fs st None (Some snap) = Inr (history_scan_at EID_COLUMN snap us)"
proof -
  have cs: "chunk_store ar fs (es_root st) (em_next_eid (es_manifest st)) (em_chunks (es_manifest st)) (history_chunks EID_COLUMN us)"
    and us: "\<forall>v \<in> set us. edge_batch (fst v) \<and> 0 \<le> snd v \<and> snd v < 2 ^ 64"
    using assms unfolding edge_ok_def Let_def by blast+
  have "scan_batch ar None None (history_chunks EID_COLUMN us ! i) = Inr (with_ids EID_COLUMN (history_rows us i) (fst (us ! i)))"
    if "i < length (history_chunks EID_COLUMN us)" for i
    using that us scan_stamped by (simp add: history_chunks_def edge_batch_def)
  from scan_chunk_store [OF cs this] show "edge_scan ar fs st None None = Inr (history_scan EID_COLUMN us)"
    by (simp add: edge_scan_def history_scan_def)
  show "edge_scan ar fs st None (Some snap) = Inr (history_scan_at EID_COLUMN snap us)" if "0 \<le> snap" "snap < 2 ^ 64"
  proof -
    have "scan_batch ar None (Some snap) (history_chunks EID_COLUMN us ! i)
        = Inr (seen_at snap (snd (us ! i)) (with_ids EID_COLUMN (history_rows us i) (fst (us ! i))))"
      if "i < length (history_chunks EID_COLUMN us)" for i
      using that us \<open>0 \<le> snap\<close> \<open>snap < 2 ^ 64\<close> scan_stamped_at [of EID_COLUMN "fst (us ! i)" "snd (us ! i)" snap]
      by (simp add: history_chunks_def edge_batch_def)
    from scan_chunk_store [OF cs this] show ?thesis by (simp add: edge_scan_def history_scan_at_def)
  qed
qed

lemma edge_open_ok:
  assumes "edge_ok ar bnd codec fs st us"
  shows "open_edge_store fs bnd (em_property_iri (es_manifest st)) (em_local_name (es_manifest st)) sc dc create codec = (Inr st, fs)"
proof -
  let ?m = "es_manifest st"
  have root: "bundle_child bnd [''edges'', em_local_name ?m] = es_root st"
    and st: "es_codec st = codec" "local_name_match (em_local_name ?m)" "edge_manifest_ok ?m"
      "fs (edge_manifest_path (es_root st)) = Some (JsonFile (sort_keys (edge_manifest_to_json ?m)))"
    using assms unfolding edge_ok_def Let_def by metis+
  then show ?thesis using edge_manifest_round_trip [OF st(3)]
    by (simp add: open_edge_store_def edge_assert_local_name_def Let_def is_file_def
        load_edge_manifest_def read_json_def)
qed

end

text \<open>The store of a bundle as the client sees it.\<close>

definition edge_reopen :: "crcl_bundle \<Rightarrow> fs \<Rightarrow> edge_store \<Rightarrow> edge_store result \<times> fs" where
  "edge_reopen bnd fs st = open_edge_store fs bnd (em_property_iri (es_manifest st)) (em_local_name (es_manifest st))
     None None False (es_codec st)"

sublocale arrow_laws \<subseteq> edge: append_store EID_COLUMN "edge_ok ar bnd codec" "edge_accepts ar codec"
    "\<lambda>fs st u. edge_append ar fs st (ABatch u)" "\<lambda>fs st. edge_scan ar fs st None None" "edge_reopen bnd"
  for bnd codec
proof (unfold_locales, goal_cases)
  case 1 then show ?case by (rule edge_append_ok)
next
  case 2 then show ?case by (rule edge_scan_ok(1))
next
  case (3 fs st us)
  then have "es_codec st = codec" by (simp add: edge_ok_def Let_def)
  with edge_open_ok [OF 3] show ?case by (simp add: edge_reopen_def)
qed

context arrow_laws
begin

lemma edge_reopened_scan:
  assumes "edge_ok ar bnd codec fs st us"
    "\<forall>i < length vs. edge_accepts ar codec (us @ take i vs) (fst (vs ! i)) (snd (vs ! i))"
  shows "\<exists>st' fs'. append_run (\<lambda>fs st u. edge_append ar fs st (ABatch u)) fs st vs = (Inr (), st', fs')
    \<and> edge_ok ar bnd codec fs' st' (us @ vs) \<and> edge_reopen bnd fs' st' = (Inr st', fs')
    \<and> edge_scan ar fs' st' None None = Inr (history_scan EID_COLUMN (us @ vs))"
  by (rule edge.reopened_scan [OF assms])

end

text \<open>A store created in a free directory is empty.\<close>

lemma edge_create_ok:
  assumes codec: "codec_ready ar codec" and nm: "local_name_match nm"
    and free: "dir_free fs (bundle_child bnd [''edges'', nm])" and cls: "sc \<noteq> Some []" "dc \<noteq> Some []"
  shows "\<exists>st fs'. open_edge_store fs bnd iri nm sc dc True codec = (Inr st, fs') \<and> edge_ok ar bnd codec fs' st []
    \<and> em_property_iri (es_manifest st) = iri \<and> em_local_name (es_manifest st) = nm"
proof -
  let ?root = "bundle_child bnd [''edges'', nm]"
  let ?m = "\<lparr>em_property_iri = iri, em_local_name = nm, em_src_class_iri = opt_json sc,
     em_dst_class_iri = opt_json dc, em_next_eid = 0, em_chunks = []\<rparr>"
  let ?mp = "edge_manifest_path ?root"
  have mp: "?mp = ?root @ [EDGE_MANIFEST_NAME]" "tmp_path (?root @ [EDGE_MANIFEST_NAME]) = ?root @ [EDGE_MANIFEST_NAME @ ''.tmp'']"
    by (simp_all add: edge_manifest_path_def tmp_path_def)
  have ne: "EDGE_MANIFEST_NAME \<noteq> CHUNKS_DIRNAME" "EDGE_MANIFEST_NAME @ ''.tmp'' \<noteq> CHUNKS_DIRNAME"
    by (simp_all add: EDGE_MANIFEST_NAME_def CHUNKS_DIRNAME_def)
  from free obtain fs1 where fs1: "mkdirs fs [] (?root @ [CHUNKS_DIRNAME]) = Inr fs1" by (auto simp: dir_free_def)
  have none: "fs1 ?mp = None" "fs1 (tmp_path ?mp) = None" "fs ?mp = None"
    using dir_free_mkdirs(1) [OF free fs1 ne(1)] dir_free_mkdirs(1) [OF free fs1 ne(2)] free
    unfolding mp by (simp_all add: dir_free_def)
  have cs: "chunk_store ar fs1 ?root 0 [] []" by (rule dir_free_mkdirs(2) [OF free fs1 ne(1)])
  then have "dirs_exist fs1 (butlast ?mp)" by (auto simp: chunk_store_def mp(1) intro: dirs_exist_prefix)
  then obtain fs2 where save: "save_edge_manifest fs1 ?root ?m = (Inr (), fs2)"
    and man: "fs2 ?mp = Some (JsonFile (sort_keys (edge_manifest_to_json ?m)))" "fs2 (tmp_path ?mp) = None"
    and keep: "\<And>q. q \<noteq> ?mp \<Longrightarrow> q \<noteq> tmp_path ?mp \<Longrightarrow> fs2 q = fs1 q"
    using save_keeps [of ?mp fs1 "edge_manifest_to_json ?m"] none by (auto simp: mp(1) save_edge_manifest_def)
  have "chunk_store ar fs2 ?root 0 [] []" by (rule chunk_store_cong [OF cs keep mp(1) ne])
  moreover have "edge_manifest_ok ?m" using cls by (auto simp: edge_manifest_ok_def opt_json_def split: option.splits)
  ultimately have "edge_ok ar bnd codec fs2 \<lparr>es_root = ?root, es_manifest = ?m, es_codec = codec\<rparr> []"
    using codec nm man by (simp add: edge_ok_def Let_def history_chunks_def history_shape_def)
  moreover have "open_edge_store fs bnd iri nm sc dc True codec
      = (Inr \<lparr>es_root = ?root, es_manifest = ?m, es_codec = codec\<rparr>, fs2)"
    using nm none fs1 save by (simp add: open_edge_store_def edge_assert_local_name_def Let_def is_file_def)
  ultimately show ?thesis by auto
qed

section \<open>Properties\<close>

text \<open>
  C26: on the columns of a batch, the snapshot filter of the stores is \<open>RowVersion.visible_to\<close>:
  the rows kept, in order, are exactly those whose creation and deletion numbers make them
  visible at the snapshot.
\<close>

theorem filter_visible_is_visible_to:
  assumes "arrow_laws ar" "versioned b" "0 \<le> lsn" "lsn < 2 ^ 64"
  shows "filter_visible ar b lsn
    = Inr (rows_at b (filter (\<lambda>i. visible_to (row_version_of b i) \<lparr>lsn_high = lsn, snap_name = None\<rparr>) [0..<brows b]))"
  using assms by (rule arrow_laws.filter_visible_rows)

definition versions_batch :: "string batch" where
  "versions_batch = (let c = \<lparr>arr_type = uint64, cells = [CInt 1, CInt 4, CInt 2]\<rparr>;
       d = \<lparr>arr_type = uint64, cells = [CInt 3, CNull, CInt 9]\<rparr>
     in \<lparr>bschema = fields_of [CREATED_LSN_COLUMN, DELETED_LSN_COLUMN] [c, d], bcols = [c, d], brows = 3\<rparr>)"

theorem filter_visible_is_visible_to_witness:
  "filter_visible arrow_lists versions_batch 3 = Inr (rows_at versions_batch [2])"
proof -
  have n: "CREATED_LSN_COLUMN \<noteq> DELETED_LSN_COLUMN" by (simp add: CREATED_LSN_COLUMN_def DELETED_LSN_COLUMN_def)
  have "versioned versions_batch"
    using n by (auto simp: versioned_def versions_batch_def batch_ok_def Let_def fields_of_def MVCC_COLUMNS_def
        col_def uint64_cells_def)
  moreover have "filter (\<lambda>i. visible_to (row_version_of versions_batch i) \<lparr>lsn_high = 3, snap_name = None\<rparr>)
      [0..<brows versions_batch] = [2]"
    using n by (simp add: versions_batch_def Let_def fields_of_def col_def row_version_of_def visible_to_window
        cell_int_def upt_rec)
  ultimately show ?thesis
    using filter_visible_is_visible_to [OF ar_lists.arrow_laws_axioms, of versions_batch 3] by simp
qed

text \<open>
  C27: the edge store implements the abstract append-only history. In a free directory of a
  bundle, creating a store and appending any run of acceptable batches succeeds; the store opened
  again from its files is the one the run left; its scan returns the appended batches in order,
  and the \<open>eid\<close> column numbers all rows consecutively from 0.
\<close>

theorem edge_store_history:
  assumes "arrow_laws ar" "codec_ready ar codec" "local_name_match nm"
    and "dir_free fs (bundle_child bnd [''edges'', nm])"
    and "\<forall>i < length vs. edge_accepts ar codec (take i vs) (fst (vs ! i)) (snd (vs ! i))"
  shows "\<exists>st fs1 st' fs'. open_edge_store fs bnd iri nm None None True codec = (Inr st, fs1)
    \<and> append_run (\<lambda>fs st u. edge_append ar fs st (ABatch u)) fs1 st vs = (Inr (), st', fs')
    \<and> edge_reopen bnd fs' st' = (Inr st', fs')
    \<and> edge_scan ar fs' st' None None = Inr (history_scan EID_COLUMN vs)
    \<and> concat (map (\<lambda>b. cells (hd (bcols b))) (history_scan EID_COLUMN vs))
       = map CInt (map int [0..<nat (history_rows vs (length vs))])"
proof -
  obtain st fs1 where "open_edge_store fs bnd iri nm None None True codec = (Inr st, fs1)" "edge_ok ar bnd codec fs1 st []"
    using edge_create_ok [OF assms(2-4), of None None iri] by auto
  with arrow_laws.edge_reopened_scan [OF assms(1), of bnd codec fs1 st "[]" vs] assms(5) scan_ids
  show ?thesis by fastforce
qed

definition sample_edges :: "string batch" where
  "sample_edges = (let c = \<lparr>arr_type = uint64, cells = [CInt 0, CInt 1]\<rparr>
     in \<lparr>bschema = fields_of [SRC_COLUMN, DST_COLUMN] [c, c], bcols = [c, c], brows = 2\<rparr>)"

abbreviation sample_bundle :: crcl_bundle where
  "sample_bundle \<equiv> \<lparr>b_path = [''b.crcl''], b_manifest = manifest_empty []\<rparr>"

lemma sample_edges_ok:
  "user_batch EID_COLUMN sample_edges" "edge_batch sample_edges"
  by (auto simp: user_batch_def edge_batch_def sample_edges_def batch_ok_def fields_of_def Let_def shape_def
      SRC_COLUMN_def DST_COLUMN_def EID_COLUMN_def MVCC_COLUMNS_def CREATED_LSN_COLUMN_def DELETED_LSN_COLUMN_def)

lemma replicate_2: "replicate 2 x = [x, x]"
  by (simp add: numeral_2_eq_2)

lemma sample_payload_fits:
  "payload_fits arrow_lists [stamped EID_COLUMN 0 1 sample_edges] ''none''"
  by (simp add: payload_fits_def segment_payload_def segment_compress_def arrow_lists_def sample_edges_def
      stamped_def ids_array_def uint64_array_of_def fields_of_def Let_def batch_flat_def length_tokens_bytes
      put_batches_def put_list_def put_pair_def put_char_def put_int_def HEADER_SIZE_def upt_rec replicate_2
      SRC_COLUMN_def DST_COLUMN_def EID_COLUMN_def MVCC_COLUMNS_def CREATED_LSN_COLUMN_def DELETED_LSN_COLUMN_def)

lemma sample_accepts: "edge_accepts arrow_lists ''none'' [] sample_edges 1"
  using sample_edges_ok(2) sample_payload_fits
  by (simp add: edge_accepts_def history_shape_def history_rows_def rows_before_def) (simp add: sample_edges_def Let_def)

lemma sample_dir_free: "dir_free (\<lambda>_. None) (bundle_child sample_bundle [''edges'', ''knows''])"
  by (simp add: dir_free_def bundle_child_def CHUNKS_DIRNAME_def)

theorem edge_store_history_witness:
  "\<exists>st fs1 st' fs'. open_edge_store (\<lambda>_. None) sample_bundle ''p:knows'' ''knows'' None None True ''none'' = (Inr st, fs1)
    \<and> append_run (\<lambda>fs st u. edge_append arrow_lists fs st (ABatch u)) fs1 st [(sample_edges, 1)] = (Inr (), st', fs')
    \<and> edge_scan arrow_lists fs' st' None None = Inr [with_ids EID_COLUMN 0 sample_edges]"
proof -
  have "codec_ready arrow_lists ''none''" "local_name_match ''knows''"
    by (simp_all add: codec_ready_def local_name_match_def name_start_def name_char_def ascii_between_def)
  moreover have "history_scan EID_COLUMN [(sample_edges, 1)] = [with_ids EID_COLUMN 0 sample_edges]"
    by (simp add: history_scan_def history_rows_def rows_before_def)
  ultimately show ?thesis
    using edge_store_history [OF ar_lists.arrow_laws_axioms _ _ sample_dir_free, of "''none''" "[(sample_edges, 1)]" "''p:knows''"]
      sample_accepts by auto
qed

text \<open>
  C28: a snapshot of an edge store is stable. Appending any run of acceptable batches stamped
  above the snapshot's number changes a scan at that snapshot only by empty batches at its end.
\<close>

theorem edge_snapshot_stable:
  assumes laws: "arrow_laws ar" and ok: "edge_ok ar bnd codec fs st us"
    and vs: "\<forall>i < length vs. edge_accepts ar codec (us @ take i vs) (fst (vs ! i)) (snd (vs ! i))"
    and snap: "0 \<le> snap" "snap < 2 ^ 64" "\<forall>v \<in> set vs. snap < snd v"
  shows "\<exists>st' fs' seen later. append_run (\<lambda>fs st u. edge_append ar fs st (ABatch u)) fs st vs = (Inr (), st', fs')
    \<and> edge_scan ar fs st None (Some snap) = Inr seen
    \<and> edge_scan ar fs' st' None (Some snap) = Inr (seen @ later) \<and> (\<forall>b \<in> set later. brows b = 0)"
proof -
  from arrow_laws.edge_reopened_scan [OF laws ok vs] obtain st' fs' where
    run: "append_run (\<lambda>fs st u. edge_append ar fs st (ABatch u)) fs st vs = (Inr (), st', fs')"
    and ok': "edge_ok ar bnd codec fs' st' (us @ vs)" by blast
  have "\<exists>later. history_scan_at EID_COLUMN snap (us @ vs) = history_scan_at EID_COLUMN snap us @ later \<and> (\<forall>b \<in> set later. brows b = 0)"
    using snap(3)
  proof (induction vs rule: rev_induct)
    case (snoc v vs)
    then obtain later where "history_scan_at EID_COLUMN snap (us @ vs) = history_scan_at EID_COLUMN snap us @ later"
      "\<forall>b \<in> set later. brows b = 0" by auto
    with snoc.prems history_scan_at_app [of EID_COLUMN snap "us @ vs" "fst v" "snd v"] show ?case
      by (auto simp: seen_at_def rows_at_def)
  qed simp
  with run arrow_laws.edge_scan_ok(2) [OF laws ok snap(1,2)] arrow_laws.edge_scan_ok(2) [OF laws ok' snap(1,2)]
  show ?thesis by auto
qed

theorem edge_snapshot_stable_witness:
  "\<exists>fs st st' fs' later. append_run (\<lambda>fs st u. edge_append arrow_lists fs st (ABatch u)) fs st [(sample_edges, 1)] = (Inr (), st', fs')
    \<and> edge_scan arrow_lists fs st None (Some 0) = Inr []
    \<and> edge_scan arrow_lists fs' st' None (Some 0) = Inr later \<and> (\<forall>b \<in> set later. brows b = 0)"
proof -
  have c: "codec_ready arrow_lists ''none''" "local_name_match ''knows''"
    by (simp_all add: codec_ready_def local_name_match_def name_start_def name_char_def ascii_between_def)
  obtain st fs where ok: "edge_ok arrow_lists sample_bundle ''none'' fs st []"
    using edge_create_ok [OF c sample_dir_free, of None None "''p:knows''"] by auto
  have "edge_scan arrow_lists fs st None (Some 0) = Inr []"
    using ar_lists.edge_scan_ok(2) [OF ok, of 0] by (simp add: history_scan_at_def)
  with edge_snapshot_stable [OF ar_lists.arrow_laws_axioms ok, of "[(sample_edges, 1)]" 0] sample_accepts
  show ?thesis by fastforce
qed

end
