(* ===== verification/Reasoner.thy ===== *)
theory Reasoner
  imports Edge_Theorems
begin

text \<open>
  Forward chaining over an edge store (\<open>onto/reasoner.py\<close>): the symmetric and the transitive
  rule, with the pass limit, the triple budget and the log record. The order in which Python
  iterates over a set is a parameter.
\<close>

type_synonym edge = "int \<times> int"

text \<open>\<open>list(s)\<close> for a set of edges and for a set of vertices.\<close>

record set_order =
  edge_list :: "edge set \<Rightarrow> edge list"
  vertex_list :: "int set \<Rightarrow> int list"

locale set_order_laws =
  fixes ord :: set_order
  assumes edge_list: "finite E \<Longrightarrow> set (edge_list ord E) = E \<and> distinct (edge_list ord E)"
    and vertex_list: "finite V \<Longrightarrow> set (vertex_list ord V) = V \<and> distinct (vertex_list ord V)"

definition sorted_order :: set_order where
  "sorted_order = \<lparr>edge_list = sorted_list_of_set, vertex_list = sorted_list_of_set\<rparr>"

interpretation sorted_sets: set_order_laws sorted_order
  by unfold_locales (simp_all add: sorted_order_def)

section \<open>The code\<close>

record reasoner_report =
  rr_rule :: string
  rr_property_iri :: string
  rr_added_edges :: nat
  rr_iterations :: nat
  rr_skipped_existing :: nat

definition cell_to_int :: "'v cell \<Rightarrow> int result" where
  "cell_to_int c = (case c of CInt i \<Rightarrow> Inr i | _ \<Rightarrow> Inl TypeError)"

definition column_ints :: "'v arrow \<Rightarrow> 'v table \<Rightarrow> string \<Rightarrow> int list result" where
  "column_ints ar t nm =
     rbind (rmap (\<lambda>b. pa_column ar b nm) (tbatches t)) (\<lambda>as. rmap cell_to_int (concat (map cells as)))"

definition existing_edges :: "'v arrow \<Rightarrow> fs \<Rightarrow> edge_store \<Rightarrow> edge set result" where
  "existing_edges ar fs st =
     rbind (edge_to_table ar fs st None None) (\<lambda>t.
     if table_rows t = 0 then Inr {}
     else
       rbind (column_ints ar t SRC_COLUMN) (\<lambda>src.
       rbind (column_ints ar t DST_COLUMN) (\<lambda>dst.
       if length src \<noteq> length dst then Inl ValueError else Inr (set (zip src dst)))))"

definition append_edges ::
  "'v arrow \<Rightarrow> fs \<Rightarrow> edge_store \<Rightarrow> edge list \<Rightarrow> unit result \<times> edge_store \<times> fs" where
  "append_edges ar fs st pairs =
     (if pairs = [] then (Inr (), st, fs)
      else
        (case rbind (pa_uint64_array ar (map fst pairs)) (\<lambda>src.
              rbind (pa_uint64_array ar (map snd pairs)) (\<lambda>dst.
              pa_from_arrays ar [src, dst] [SRC_COLUMN, DST_COLUMN]))
         of
           Inl e \<Rightarrow> (Inl e, st, fs)
         | Inr b \<Rightarrow>
             (case edge_append ar fs st (ABatch b) 0 of
                (Inl e, st', fs') \<Rightarrow> (Inl e, st', fs')
              | (Inr _, st', fs') \<Rightarrow> (Inr (), st', fs'))))"

definition INFER_CLOSURE_KIND :: string where "INFER_CLOSURE_KIND = ''INFER_CLOSURE''"

text \<open>\<open>dumps\<close> is \<open>json.dumps\<close> with its defaults.\<close>

definition reasoner_wal_log ::
  "(json \<Rightarrow> string) \<Rightarrow> wal option \<Rightarrow> string \<Rightarrow> string \<Rightarrow> nat \<Rightarrow> nat \<Rightarrow> unit result \<times> wal option" where
  "reasoner_wal_log dumps w rule iri added iterations =
     (case w of
        None \<Rightarrow> (Inr (), None)
      | Some wl \<Rightarrow>
          let payload = utf8_encode (dumps (JObj [(''rule'', JStr rule), (''property_iri'', JStr iri),
                 (''added'', JInt (int added)), (''iterations'', JInt (int iterations))]))
          in (case wal_append wl INFER_CLOSURE_KIND payload of
                (Inl e, wl') \<Rightarrow> (Inl e, Some wl')
              | (Inr _, wl') \<Rightarrow> (Inr (), Some wl')))"

text \<open>The loop over a copy of the edges: reversed edges to add, the grown set, the count of others.\<close>

fun symmetric_loop :: "edge list \<Rightarrow> edge list \<times> edge set \<times> nat \<Rightarrow> edge list \<times> edge set \<times> nat" where
  "symmetric_loop [] acc = acc"
| "symmetric_loop ((s, d) # es) (additions, existing, skipped) =
     (if (d, s) \<in> existing then symmetric_loop es (additions, existing, Suc skipped)
      else symmetric_loop es (additions @ [(d, s)], insert (d, s) existing, skipped))"

definition infer_symmetric ::
  "'v arrow \<Rightarrow> set_order \<Rightarrow> (json \<Rightarrow> string) \<Rightarrow> fs \<Rightarrow> edge_store \<Rightarrow> string \<Rightarrow> wal option
    \<Rightarrow> reasoner_report result \<times> edge_store \<times> fs \<times> wal option" where
  "infer_symmetric ar ord dumps fs st iri w =
     (case existing_edges ar fs st of
        Inl e \<Rightarrow> (Inl e, st, fs, w)
      | Inr existing \<Rightarrow>
          (case symmetric_loop (edge_list ord existing) ([], existing, 0) of
             (additions, _, skipped) \<Rightarrow>
               (case append_edges ar fs st additions of
                  (Inl e, st', fs') \<Rightarrow> (Inl e, st', fs', w)
                | (Inr _, st', fs') \<Rightarrow>
                    (case reasoner_wal_log dumps w ''SYMMETRIC'' iri (length additions) 1 of
                       (Inl e, w') \<Rightarrow> (Inl e, st', fs', w')
                     | (Inr _, w') \<Rightarrow>
                         (Inr \<lparr>rr_rule = ''SYMMETRIC'', rr_property_iri = iri, rr_added_edges = length additions,
                               rr_iterations = 1, rr_skipped_existing = skipped\<rparr>, st', fs', w')))))"

text \<open>The adjacency built at the start of a pass.\<close>

definition out_adj :: "edge set \<Rightarrow> int \<Rightarrow> int set" where
  "out_adj edges d = snd ` {e \<in> edges. fst e = d}"

definition join_step ::
  "int option \<Rightarrow> nat \<Rightarrow> int \<Rightarrow> int \<Rightarrow> edge list \<times> edge set \<Rightarrow> (edge list \<times> edge set) result" where
  "join_step budget total_new s d2 st =
     (case st of (additions, edges) \<Rightarrow>
        if (s, d2) \<in> edges then Inr (additions, edges)
        else
          let additions' = additions @ [(s, d2)]; edges' = insert (s, d2) edges in
          case budget of
            None \<Rightarrow> Inr (additions', edges')
          | Some b \<Rightarrow> if int (total_new + length additions') \<ge> b then raise_code ''TF-6012'' else Inr (additions', edges'))"

definition transitive_pass ::
  "set_order \<Rightarrow> int option \<Rightarrow> nat \<Rightarrow> edge set \<Rightarrow> (edge list \<times> edge set) result" where
  "transitive_pass ord budget total_new edges =
     rfold (\<lambda>(s, d). rfold (join_step budget total_new s) (vertex_list ord (out_adj edges d)))
       (edge_list ord edges) ([], edges)"

text \<open>The loop, with the number of passes still allowed.\<close>

fun transitive_loop ::
  "'v arrow \<Rightarrow> set_order \<Rightarrow> int option \<Rightarrow> nat \<Rightarrow> nat \<Rightarrow> nat \<Rightarrow> edge set \<Rightarrow> fs \<Rightarrow> edge_store
    \<Rightarrow> (nat \<times> nat) result \<times> edge_store \<times> fs" where
  "transitive_loop ar ord budget 0 iteration total_new edges fs st = (Inr (total_new, iteration), st, fs)"
| "transitive_loop ar ord budget (Suc n) iteration total_new edges fs st =
     (case transitive_pass ord budget total_new edges of
        Inl e \<Rightarrow> (Inl e, st, fs)
      | Inr (additions, edges') \<Rightarrow>
          if additions = [] then (Inr (total_new, Suc iteration), st, fs)
          else
            (case append_edges ar fs st additions of
               (Inl e, st', fs') \<Rightarrow> (Inl e, st', fs')
             | (Inr _, st', fs') \<Rightarrow>
                 transitive_loop ar ord budget n (Suc iteration) (total_new + length additions) edges' fs' st'))"

definition infer_transitive ::
  "'v arrow \<Rightarrow> set_order \<Rightarrow> (json \<Rightarrow> string) \<Rightarrow> fs \<Rightarrow> edge_store \<Rightarrow> string \<Rightarrow> int \<Rightarrow> int option \<Rightarrow> wal option
    \<Rightarrow> reasoner_report result \<times> edge_store \<times> fs \<times> wal option" where
  "infer_transitive ar ord dumps fs st iri max_iterations budget w =
     (if max_iterations \<le> 0 then (raise_code ''CDB-9510'', st, fs, w)
      else
        (case existing_edges ar fs st of
           Inl e \<Rightarrow> (Inl e, st, fs, w)
         | Inr edges \<Rightarrow>
             (case transitive_loop ar ord budget (nat max_iterations) 0 0 edges fs st of
                (Inl e, st', fs') \<Rightarrow> (Inl e, st', fs', w)
              | (Inr (total_new, iteration), st', fs') \<Rightarrow>
                  (case reasoner_wal_log dumps w ''TRANSITIVE'' iri total_new iteration of
                     (Inl e, w') \<Rightarrow> (Inl e, st', fs', w')
                   | (Inr _, w') \<Rightarrow>
                       (Inr \<lparr>rr_rule = ''TRANSITIVE'', rr_property_iri = iri, rr_added_edges = total_new,
                             rr_iterations = iteration, rr_skipped_existing = 0\<rparr>, st', fs', w')))))"

text \<open>
  \<open>infer_closure\<close>: the targets name a rule, a property and a store; two targets may share a
  store object, so a target holds the position of its store.
\<close>

fun infer_closure ::
  "'v arrow \<Rightarrow> set_order \<Rightarrow> (json \<Rightarrow> string) \<Rightarrow> int option \<Rightarrow> (string \<times> string \<times> nat) list
    \<Rightarrow> edge_store list \<Rightarrow> fs \<Rightarrow> wal option \<Rightarrow> reasoner_report list result \<times> edge_store list \<times> fs \<times> wal option" where
  "infer_closure ar ord dumps budget [] stores fs w = (Inr [], stores, fs, w)"
| "infer_closure ar ord dumps budget ((rule, iri, k) # targets) stores fs w =
     (case (if rule = ''SYMMETRIC'' then infer_symmetric ar ord dumps fs (stores ! k) iri w
            else if rule = ''TRANSITIVE'' then infer_transitive ar ord dumps fs (stores ! k) iri 16 budget w
            else (raise_code ''CDB-9510'', stores ! k, fs, w))
      of
        (Inl e, st', fs', w') \<Rightarrow> (Inl e, stores[k := st'], fs', w')
      | (Inr report, st', fs', w') \<Rightarrow>
          (case infer_closure ar ord dumps budget targets (stores[k := st']) fs' w' of
             (Inl e, rest) \<Rightarrow> (Inl e, rest)
           | (Inr reports, rest) \<Rightarrow> (Inr (report # reports), rest)))"

end
