(* ===== verification/Reasoner_Theorems.thy ===== *)
theory Reasoner_Theorems
  imports Reasoner
begin

text \<open>
  What the passes of the transitive rule compute, and that the run over an edge store leaves
  exactly those edges in the store.
\<close>

section \<open>The passes\<close>

text \<open>What the passes add to the store, without the store.\<close>

fun closure_passes ::
  "set_order \<Rightarrow> int option \<Rightarrow> nat \<Rightarrow> nat \<Rightarrow> edge set \<Rightarrow> edge list list result" where
  "closure_passes ord budget 0 total_new edges = Inr []"
| "closure_passes ord budget (Suc n) total_new edges =
     rbind (transitive_pass ord budget total_new edges) (\<lambda>(additions, edges').
     if additions = [] then Inr []
     else rbind (closure_passes ord budget n (total_new + length additions) edges') (\<lambda>ps. Inr (additions # ps)))"

text \<open>The pairs a pass looks at, in its order, and those of them it adds.\<close>

definition joined :: "set_order \<Rightarrow> edge set \<Rightarrow> edge list" where
  "joined ord E = concat (map (\<lambda>(s, d). map (Pair s) (vertex_list ord (out_adj E d))) (edge_list ord E))"

fun new_edges :: "edge set \<Rightarrow> edge list \<Rightarrow> edge list" where
  "new_edges E [] = []"
| "new_edges E (p # ps) = (if p \<in> E then new_edges E ps else p # new_edges (insert p E) ps)"

lemma set_new_edges: "set (new_edges E ps) = set ps - E" "distinct (new_edges E ps)"
  by (induction E ps rule: new_edges.induct) auto

lemma rfold_nested:
  "rfold (\<lambda>(s, d). rfold (f s) (g d)) es st = rfold (\<lambda>(s, x). f s x) (concat (map (\<lambda>(s, d). map (Pair s) (g d)) es)) st"
proof -
  have "rfold (\<lambda>(s, x). f s x) (map (Pair s) xs) st = rfold (f s) xs st" for s xs st
    by (induction xs arbitrary: st) (auto simp: rbind_def split: sum.splits)
  then show ?thesis
    by (induction es arbitrary: st) (auto simp: rfold_append rbind_def split: sum.splits)
qed

definition over_budget :: "int option \<Rightarrow> nat \<Rightarrow> bool" where
  "over_budget budget n \<longleftrightarrow> (case budget of None \<Rightarrow> False | Some b \<Rightarrow> b \<le> int n)"

lemma join_steps:
  "rfold (\<lambda>(s, x). join_step budget t s x) ps (adds, E)
    = (if new_edges E ps \<noteq> [] \<and> over_budget budget (t + length adds + length (new_edges E ps))
       then raise_code ''TF-6012'' else Inr (adds @ new_edges E ps, E \<union> set ps))"
proof (induction ps arbitrary: adds E)
  case (Cons p ps)
  obtain s x where p: "p = (s, x)" by (cases p)
  show ?case
  proof (cases "p \<in> E")
    case True
    with Cons show ?thesis by (simp add: p join_step_def insert_absorb)
  next
    case False
    have "over_budget budget (t + length adds + 1 + k)" if "over_budget budget (t + length adds + 1)" for k
      using that by (auto simp: over_budget_def split: option.splits)
    with False Cons [of "adds @ [p]" "insert p E"] show ?thesis
      by (cases "new_edges (insert p E) ps = []")
        (auto simp: p join_step_def Let_def over_budget_def add.assoc split: option.splits)
  qed
qed simp

lemma transitive_pass_eq:
  "transitive_pass ord budget t E
    = (if new_edges E (joined ord E) \<noteq> [] \<and> over_budget budget (t + length (new_edges E (joined ord E)))
       then raise_code ''TF-6012'' else Inr (new_edges E (joined ord E), E \<union> set (joined ord E)))"
  unfolding transitive_pass_def joined_def
  by (subst rfold_nested) (simp add: join_steps)

context set_order_laws
begin

lemma set_joined:
  assumes "finite E"
  shows "set (joined ord E) = E O E"
proof -
  have "finite (out_adj E d)" for d using assms by (simp add: out_adj_def)
  then have "set (vertex_list ord (out_adj E d)) = out_adj E d" for d by (simp add: vertex_list)
  moreover have "set (edge_list ord E) = E" using assms by (simp add: edge_list)
  ultimately have "set (joined ord E) = (\<Union>(s, d) \<in> E. Pair s ` out_adj E d)"
    by (simp add: joined_def case_prod_unfold)
  also have "\<dots> = E O E"
  proof (intro subset_antisym subsetI)
    fix p assume "p \<in> (\<Union>(s, d) \<in> E. Pair s ` out_adj E d)"
    then show "p \<in> E O E" by (auto simp: out_adj_def)
  next
    fix p assume "p \<in> E O E"
    then obtain s d x where "p = (s, x)" "(s, d) \<in> E" "(d, x) \<in> E" by auto
    moreover from this have "x \<in> out_adj E d" by (force simp: out_adj_def)
    ultimately show "p \<in> (\<Union>(s, d) \<in> E. Pair s ` out_adj E d)" by blast
  qed
  finally show ?thesis .
qed

end

section \<open>Paths\<close>

definition paths_upto :: "nat \<Rightarrow> edge set \<Rightarrow> edge set" where
  "paths_upto m E = (\<Union>k \<in> {1..m}. E ^^ k)"

lemma paths_upto_1 [simp]: "paths_upto (Suc 0) E = E"
  by (simp add: paths_upto_def)

lemma paths_upto_trancl: "paths_upto m E \<subseteq> E\<^sup>+"
proof
  fix p assume "p \<in> paths_upto m E"
  then obtain k where "k \<in> {1..m}" "p \<in> E ^^ k" unfolding paths_upto_def by blast
  then have "0 < k" "p \<in> E ^^ k" by simp_all
  then show "p \<in> E\<^sup>+" unfolding trancl_power by blast
qed

lemma relpow_double: "(E \<union> E O E) ^^ k = (\<Union>j \<in> {k..2 * k}. E ^^ j)"
proof -
  have "p \<in> (\<Union>j \<in> {k..2 * k}. E ^^ j)" if "p \<in> (E \<union> E O E) ^^ k" for p
    using that
  proof (induction k arbitrary: p)
    case (Suc k)
    from Suc.prems obtain x y z where p: "p = (x, z)" "(x, y) \<in> (E \<union> E O E) ^^ k" "(y, z) \<in> E \<union> E O E" by auto
    from Suc.IH [OF p(2)] obtain j where j: "k \<le> j" "j \<le> 2 * k" "(x, y) \<in> E ^^ j" by auto
    from p(3) have "p \<in> E ^^ Suc j \<or> p \<in> E ^^ Suc (Suc j)" using p(1) j(3) by auto
    moreover have "Suc j \<in> {Suc k..2 * Suc k}" "Suc (Suc j) \<in> {Suc k..2 * Suc k}" using j by auto
    ultimately show ?case by blast
  qed simp
  moreover have "p \<in> (E \<union> E O E) ^^ k" if "j \<in> {k..2 * k}" "p \<in> E ^^ j" for p j
    using that
  proof (induction k arbitrary: p j)
    case (Suc k)
    show ?case
    proof (cases "j \<le> Suc (2 * k)")
      case True
      with Suc.prems obtain i where i: "j = Suc i" "i \<in> {k..2 * k}" by (cases j) auto
      with Suc.prems obtain x y z where "p = (x, z)" "(x, y) \<in> E ^^ i" "(y, z) \<in> E" by auto
      with Suc.IH [OF i(2)] show ?thesis by auto
    next
      case False
      with Suc.prems have i: "j = Suc (Suc (2 * k))" "2 * k \<in> {k..2 * k}" by auto
      with Suc.prems obtain x y z w where "p = (x, w)" "(x, y) \<in> E ^^ (2 * k)" "(y, z) \<in> E" "(z, w) \<in> E" by auto
      moreover from this Suc.IH [OF i(2)] have "(x, y) \<in> (E \<union> E O E) ^^ k" "(y, w) \<in> E \<union> E O E" by blast+
      ultimately show ?thesis using relpow_Suc_I by metis
    qed
  qed simp
  ultimately show ?thesis by blast
qed

lemma paths_upto_double: "paths_upto m (E \<union> E O E) = paths_upto (2 * m) E"
proof -
  have "(\<Union>k \<in> {1..m}. \<Union>j \<in> {k..2 * k}. E ^^ j) = (\<Union>j \<in> {1..2 * m}. E ^^ j)"
  proof -
    have "\<exists>k \<in> {1..m}. j \<in> {k..2 * k}" if "j \<in> {1..2 * m}" for j
      using that by (intro bexI [of _ "(j + 1) div 2"]) auto
    then show ?thesis by (fastforce del: relpow.simps)
  qed
  then show ?thesis by (simp add: paths_upto_def relpow_double)
qed

lemma closed_trancl: "E O E \<subseteq> E \<Longrightarrow> E\<^sup>+ = E"
  by (intro trancl_id transI) blast

text \<open>After \<open>n\<close> passes the edges are the paths of length up to \<open>2 ^ n\<close>.\<close>

context set_order_laws
begin

lemma closure_passes_paths:
  assumes "finite E"
  shows "\<exists>ps. closure_passes ord None n t E = Inr ps \<and> length ps \<le> n
    \<and> E \<union> set (concat ps) = paths_upto (2 ^ length ps) E
    \<and> (length ps < n \<longrightarrow> E \<union> set (concat ps) = E\<^sup>+)
    \<and> (\<forall>p \<in> set ps. p \<noteq> []) \<and> distinct (concat ps) \<and> set (concat ps) \<inter> E = {}"
  using assms
proof (induction n arbitrary: t E)
  case (Suc n)
  let ?new = "new_edges E (joined ord E)" and ?E = "E \<union> E O E"
  have j: "set (joined ord E) = E O E" by (rule set_joined [OF Suc.prems])
  have pass: "transitive_pass ord None t E = Inr (?new, ?E)"
    by (simp add: transitive_pass_eq over_budget_def j)
  have fin: "finite ?E" using Suc.prems by simp
  have new: "set ?new = E O E - E" using set_new_edges(1) j by blast
  show ?case
  proof (cases "?new = []")
    case True
    with new have "E O E \<subseteq> E" by auto
    with True pass closed_trancl [of E] show ?thesis by simp
  next
    case False
    from Suc.IH [OF fin, of "t + length ?new"] obtain ps where
      ps: "closure_passes ord None n (t + length ?new) ?E = Inr ps" "length ps \<le> n"
        "?E \<union> set (concat ps) = paths_upto (2 ^ length ps) ?E"
        "length ps < n \<longrightarrow> ?E \<union> set (concat ps) = ?E\<^sup>+"
        "\<forall>p \<in> set ps. p \<noteq> []" "distinct (concat ps)" "set (concat ps) \<inter> ?E = {}" by blast
    have all: "E \<union> set (concat (?new # ps)) = ?E \<union> set (concat ps)" using new by auto
    have "?E\<^sup>+ = E\<^sup>+"
    proof (rule subset_antisym)
      have "?E \<subseteq> E\<^sup>+" by (auto intro: trancl_trans)
      then have "?E\<^sup>+ \<subseteq> (E\<^sup>+)\<^sup>+" by (rule trancl_mono_subset)
      then show "?E\<^sup>+ \<subseteq> E\<^sup>+" by simp
    qed (rule trancl_mono_subset, simp)
    with ps(4) have "length ps < n \<longrightarrow> E \<union> set (concat (?new # ps)) = E\<^sup>+" unfolding all by simp
    moreover have "E \<union> set (concat (?new # ps)) = paths_upto (2 ^ length (?new # ps)) E"
      unfolding all ps(3) paths_upto_double by simp
    moreover have "distinct (concat (?new # ps))" "set (concat (?new # ps)) \<inter> E = {}"
      using ps(6,7) set_new_edges(2) [of E "joined ord E"] new by (simp_all add: disjoint_iff) blast+
    moreover have "closure_passes ord None (Suc n) t E = Inr (?new # ps)" using pass False ps(1) by simp
    ultimately show ?thesis using ps(2,5) False by (intro exI [of _ "?new # ps"]) simp
  qed
qed simp

text \<open>With a budget: the same passes, or \<open>TF-6012\<close> as soon as the edges added reach it.\<close>

lemma closure_passes_budget:
  "finite E \<Longrightarrow> closure_passes ord None n t E = Inr ps \<Longrightarrow> closure_passes ord (Some b) n t E
    = (if ps \<noteq> [] \<and> b \<le> int (t + length (concat ps)) then raise_code ''TF-6012'' else Inr ps)"
proof (induction n arbitrary: t E ps)
  case (Suc n)
  let ?new = "new_edges E (joined ord E)" and ?E = "E \<union> set (joined ord E)"
  have pass: "transitive_pass ord None t E = Inr (?new, ?E)" by (simp add: transitive_pass_eq over_budget_def)
  show ?case
  proof (cases "?new = []")
    case True
    with Suc.prems(2) pass show ?thesis by (simp add: transitive_pass_eq)
  next
    case False
    with Suc.prems(2) pass obtain qs where qs: "ps = ?new # qs" "closure_passes ord None n (t + length ?new) ?E = Inr qs"
      by (auto simp: rbind_Inr_iff)
    have "finite ?E" using Suc.prems(1) by simp
    from Suc.IH [OF this qs(2)] False show ?thesis
      by (auto simp: qs(1) transitive_pass_eq over_budget_def add.assoc)
  qed
qed simp

end

section \<open>The edges of a store\<close>

definition cell_val :: "'v cell \<Rightarrow> int" where
  "cell_val c = (case c of CInt i \<Rightarrow> i | _ \<Rightarrow> 0)"

definition batch_edges :: "'v batch \<Rightarrow> edge list" where
  "batch_edges u = zip (map cell_val (cells (col u SRC_COLUMN))) (map cell_val (cells (col u DST_COLUMN)))"

definition history_edges :: "'v history \<Rightarrow> edge set" where
  "history_edges us = (\<Union>v \<in> set us. set (batch_edges (fst v)))"

text \<open>No vertex of an edge is null.\<close>

definition full_edges :: "'v batch \<Rightarrow> bool" where
  "full_edges u \<longleftrightarrow> (\<forall>x \<in> {SRC_COLUMN, DST_COLUMN}. \<forall>c \<in> set (cells (col u x)). \<exists>i. c = CInt i)"

lemma col_with_ids:
  assumes "batch_ok u" "x \<in> set (names (bschema u))" "k \<noteq> x"
  shows "col (with_ids k start u) x = col u x"
  using assms batch_ok_length [OF assms(1)] by (simp add: col_def with_ids_def Let_def)

lemma zip_concat:
  "(\<And>b. b \<in> set bs \<Longrightarrow> length (f b) = length (g b))
    \<Longrightarrow> zip (concat (map f bs)) (concat (map g bs)) = concat (map (\<lambda>b. zip (f b) (g b)) bs)"
  by (induction bs) (auto simp: zip_append)

context arrow_laws
begin

lemma existing_edges_ok:
  assumes ok: "edge_ok ar bnd codec fs st us" and full: "\<forall>v \<in> set us. full_edges (fst v)"
  shows "existing_edges ar fs st = Inr (history_edges us)"
proof (cases "us = []")
  case True
  then have "edge_scan ar fs st None None = Inr []" using edge_scan_ok(1) [OF ok] by (simp add: history_scan_def)
  moreover have "em_chunks (es_manifest st) = []"
    using ok True unfolding edge_ok_def Let_def by (simp add: chunk_store_def chunk_refs_def history_chunks_def)
  ultimately show ?thesis using True
    by (simp add: existing_edges_def edge_to_table_def edge_schema_def no_batches table_rows_def history_edges_def)
next
  case False
  let ?bs = "history_scan EID_COLUMN us"
  let ?u = "\<lambda>i. fst (us ! i)"
  have eb: "edge_batch (fst v)" if "v \<in> set us" for v using ok that unfolding edge_ok_def Let_def by blast
  then have ub: "user_batch EID_COLUMN (fst v)" "batch_ok (fst v)" if "v \<in> set us" for v
    using that by (auto simp: edge_batch_def user_batch_def)
  have ne: "?bs \<noteq> []" using False by (simp add: history_scan_def)
  have bs: "?bs = map (\<lambda>i. with_ids EID_COLUMN (history_rows us i) (?u i)) [0..<length us]" by (simp add: history_scan_def)
  have sh: "history_shape us" using ok unfolding edge_ok_def Let_def by blast
  have same: "bschema b = bschema (hd ?bs)" if "b \<in> set ?bs" for b
  proof -
    have fields: "bschema (with_ids EID_COLUMN s (fst v)) = map (\<lambda>(x, t). \<lparr>fld_name = x, fld_type = t, fld_nullable = True\<rparr>)
        ((EID_COLUMN, uint64) # shape (bschema (fst v)))" if "v \<in> set us" for s v
      using ub(2) [OF that] batch_ok_length [OF ub(2) [OF that]]
      by (simp add: with_ids_def Let_def fields_of_def shape_batch zip_map2 comp_def case_prod_unfold)
    obtain i where i: "i < length us" "b = with_ids EID_COLUMN (history_rows us i) (?u i)" using \<open>b \<in> set ?bs\<close> by (auto simp: bs)
    have "hd ?bs = with_ids EID_COLUMN (history_rows us 0) (fst (hd us))"
      using False by (simp add: bs hd_map upt_rec hd_conv_nth)
    moreover have "shape (bschema (?u i)) = shape (bschema (fst (hd us)))"
      using sh i(1) nth_mem unfolding history_shape_def by blast
    ultimately show ?thesis using fields [OF nth_mem [OF i(1)]] fields [OF hd_in_set [OF False]] i(2) by simp
  qed
  have tab: "pa_from_batches ar ?bs None = Inr \<lparr>tschema = bschema (hd ?bs), tbatches = ?bs\<rparr>"
    by (rule from_batches) (use ne same in blast)+
  have col_ok: "pa_column ar b x = Inr (col b x) \<and> (\<forall>c \<in> set (cells (col b x)). \<exists>i. c = CInt i) \<and> length (cells (col b x)) = brows b"
    if "b \<in> set ?bs" "x \<in> {SRC_COLUMN, DST_COLUMN}" for b x
  proof -
    from that(1) obtain i where i: "us ! i \<in> set us" "b = with_ids EID_COLUMN (history_rows us i) (?u i)"
      unfolding bs using nth_mem by fastforce
    have n: "names (bschema b) = EID_COLUMN # names (bschema (?u i))"
      using batch_ok_length [OF ub(2) [OF i(1)]] by (simp add: i(2) with_ids_def Let_def)
    have x: "x \<in> set (names (bschema (?u i)))" using edge_names [OF eb [OF i(1)]] that(2) by auto
    have b: "batch_ok b" using batch_ok_with_ids [OF ub(2) [OF i(1)]] by (simp add: i(2))
    have "distinct (names (bschema b))" using ub(1) [OF i(1)] by (auto simp: n user_batch_def)
    with column [OF b] x n have "pa_column ar b x = Inr (col b x)" by simp
    moreover have "EID_COLUMN \<noteq> x" using that(2) by (auto simp: EID_COLUMN_def SRC_COLUMN_def DST_COLUMN_def)
    then have "col b x = col (?u i) x" using col_with_ids [OF ub(2) [OF i(1)] x] by (simp add: i(2))
    moreover have "\<forall>c \<in> set (cells (col (?u i) x)). \<exists>j. c = CInt j"
      using full i(1) that(2) unfolding full_edges_def by blast
    moreover have "length (cells (col b x)) = brows b" by (rule col_cells [OF b]) (use x n in simp)
    ultimately show ?thesis by simp
  qed
  let ?ints = "\<lambda>x b. map cell_val (cells (col b x))"
  have ints: "column_ints ar \<lparr>tschema = sc, tbatches = ?bs\<rparr> x = Inr (concat (map (?ints x) ?bs))"
    if x: "x \<in> {SRC_COLUMN, DST_COLUMN}" for x sc
  proof -
    have "rmap (\<lambda>b. pa_column ar b x) (map (\<lambda>b. b) ?bs) = Inr (map (\<lambda>b. col b x) ?bs)"
      by (rule rmap_Inr_all) (use col_ok x in blast)
    moreover have "rmap cell_to_int (map (\<lambda>c. c) (concat (map (\<lambda>b. cells (col b x)) ?bs)))
        = Inr (map cell_val (concat (map (\<lambda>b. cells (col b x)) ?bs)))"
    proof (rule rmap_Inr_all)
      fix c assume "c \<in> set (concat (map (\<lambda>b. cells (col b x)) ?bs))"
      then obtain i where "c = CInt i" using col_ok x by fastforce
      then show "cell_to_int c = Inr (cell_val c)" by (simp add: cell_to_int_def cell_val_def)
    qed
    ultimately show ?thesis by (simp add: column_ints_def map_concat comp_def)
  qed
  have rows: "table_rows \<lparr>tschema = sc, tbatches = ?bs\<rparr> \<noteq> 0" for sc
  proof -
    have "hd ?bs \<in> set ?bs" using ne by simp
    moreover have "brows (hd ?bs) \<noteq> 0"
      using False ub(1) [OF hd_in_set [OF False]] by (simp add: bs hd_map upt_rec hd_conv_nth with_ids_def Let_def user_batch_def)
    ultimately show ?thesis by (auto simp: table_rows_def sum_list_eq_0_iff)
  qed
  have "zip (concat (map (?ints SRC_COLUMN) ?bs)) (concat (map (?ints DST_COLUMN) ?bs)) = concat (map batch_edges ?bs)"
    unfolding batch_edges_def by (rule zip_concat) (use col_ok in simp)
  moreover have "length (concat (map (?ints SRC_COLUMN) ?bs)) = length (concat (map (?ints DST_COLUMN) ?bs))"
    using col_ok by (simp add: length_concat comp_def cong: map_cong)
  moreover have "batch_edges (with_ids EID_COLUMN s (fst v)) = batch_edges (fst v)" if "v \<in> set us" for s v
    using col_with_ids [OF ub(2) [OF that]] edge_names [OF eb [OF that]]
    by (simp add: batch_edges_def EID_COLUMN_def SRC_COLUMN_def DST_COLUMN_def)
  then have "set (concat (map batch_edges ?bs)) = history_edges us"
  proof -
    assume eq: "\<And>v s. v \<in> set us \<Longrightarrow> batch_edges (with_ids EID_COLUMN s (fst v)) = batch_edges (fst v)"
    have "set (concat (map batch_edges ?bs)) = (\<Union>i < length us. set (batch_edges (with_ids EID_COLUMN (history_rows us i) (?u i))))"
      by (auto simp: bs)
    also have "\<dots> = (\<Union>i < length us. set (batch_edges (?u i)))" by (rule SUP_cong [OF refl]) (simp add: eq)
    also have "\<dots> = (\<Union>v \<in> (!) us ` {..<length us}. set (batch_edges (fst v)))" by simp
    also have "(!) us ` {..<length us} = set us" by (auto simp: set_conv_nth)
    finally show ?thesis by (simp add: history_edges_def)
  qed
  ultimately show ?thesis
    using edge_scan_ok(1) [OF ok] ne tab ints
    by (simp add: existing_edges_def edge_to_table_def rows)
qed

end

section \<open>Inferred edges in the store\<close>

text \<open>The batch a list of edges is appended as, and the history of a run of passes.\<close>

definition edges_batch :: "edge list \<Rightarrow> 'v batch" where
  "edges_batch ps = (let as = [uint64_array_of (map fst ps), uint64_array_of (map snd ps)]
     in \<lparr>bschema = fields_of [SRC_COLUMN, DST_COLUMN] as, bcols = as, brows = length ps\<rparr>)"

definition inferred :: "edge list list \<Rightarrow> 'v history" where
  "inferred pss = map (\<lambda>ps. (edges_batch ps, 0)) pss"

definition uint64_edges :: "edge set \<Rightarrow> bool" where
  "uint64_edges E \<longleftrightarrow> (\<forall>(s, d) \<in> E. 0 \<le> s \<and> s < 2 ^ 64 \<and> 0 \<le> d \<and> d < 2 ^ 64)"

lemma uint64_trancl: "uint64_edges R \<Longrightarrow> uint64_edges (R\<^sup>+)"
proof -
  assume R: "uint64_edges R"
  have "0 \<le> s \<and> s < 2 ^ 64 \<and> 0 \<le> d \<and> d < 2 ^ 64" if "(s, d) \<in> R\<^sup>+" for s d
    using that by (induction rule: trancl_induct) (use R in \<open>auto simp: uint64_edges_def\<close>)
  then show ?thesis by (auto simp: uint64_edges_def)
qed

text \<open>Every batch of a run is accepted after the ones before it.\<close>

definition run_accepted :: "'v arrow \<Rightarrow> string \<Rightarrow> 'v history \<Rightarrow> 'v history \<Rightarrow> bool" where
  "run_accepted ar codec us vs \<longleftrightarrow>
     (\<forall>i < length vs. edge_accepts ar codec (us @ take i vs) (fst (vs ! i)) (snd (vs ! i)))"

lemma run_accepted_Cons:
  "run_accepted ar codec us (v # vs)
    \<longleftrightarrow> edge_accepts ar codec us (fst v) (snd v) \<and> run_accepted ar codec (us @ [v]) vs"
  by (auto simp: run_accepted_def less_Suc_eq_0_disj)

lemma col_edges_batch:
  "col (edges_batch ps) SRC_COLUMN = uint64_array_of (map fst ps)" "col (edges_batch ps) DST_COLUMN = uint64_array_of (map snd ps)"
  by (simp_all add: col_def edges_batch_def Let_def SRC_COLUMN_def DST_COLUMN_def)

lemma brows_edges_batch [simp]: "brows (edges_batch ps) = length ps"
  by (simp add: edges_batch_def Let_def)

lemma batch_edges_batch: "batch_edges (edges_batch ps) = ps"
  by (simp add: batch_edges_def col_edges_batch uint64_array_of_def cell_val_def comp_def zip_map_fst_snd)

lemma full_edges_batch: "full_edges (edges_batch ps)"
  by (auto simp: full_edges_def col_edges_batch uint64_array_of_def)

lemma history_edges_app: "history_edges (us @ inferred pss) = history_edges us \<union> set (concat pss)"
  by (auto simp: history_edges_def inferred_def batch_edges_batch)

context arrow_laws
begin

lemma append_edges_ok:
  assumes ok: "edge_ok ar bnd codec fs st us" and acc: "edge_accepts ar codec us (edges_batch ps) 0"
    and ps: "uint64_edges (set ps)"
  shows "\<exists>st' fs'. append_edges ar fs st ps = (Inr (), st', fs') \<and> edge_ok ar bnd codec fs' st' (us @ [(edges_batch ps, 0)])"
proof -
  have ne: "ps \<noteq> []" using acc by (auto simp: edge_accepts_def edge_batch_def user_batch_def)
  have "pa_uint64_array ar (map fst ps) = Inr (uint64_array_of (map fst ps))"
    "pa_uint64_array ar (map snd ps) = Inr (uint64_array_of (map snd ps))"
    unfolding uint64_array_of_def by (rule uint64_array; use ps in \<open>fastforce simp: uint64_edges_def\<close>)+
  moreover have "pa_from_arrays ar [uint64_array_of (map fst ps), uint64_array_of (map snd ps)] [SRC_COLUMN, DST_COLUMN]
      = Inr (edges_batch ps)"
    unfolding edges_batch_def Let_def fields_of_def by (rule from_arrays) (auto simp: uint64_array_of_def)
  ultimately show ?thesis
    using edge_append_ok [OF ok acc] ne by (fastforce simp: append_edges_def)
qed

lemma transitive_loop_ok:
  assumes "edge_ok ar bnd codec fs st us" "closure_passes ord budget n t E = Inr pss"
    "run_accepted ar codec us (inferred pss)" "uint64_edges (set (concat pss))"
  shows "\<exists>st' fs'. transitive_loop ar ord budget n k t E fs st
      = (Inr (t + length (concat pss), k + (if length pss < n then Suc (length pss) else n)), st', fs')
    \<and> edge_ok ar bnd codec fs' st' (us @ inferred pss)"
  using assms
proof (induction n arbitrary: k t E fs st us pss)
  case 0
  then show ?case by (simp add: inferred_def)
next
  case (Suc n)
  from Suc.prems(2) obtain adds E' where pass: "transitive_pass ord budget t E = Inr (adds, E')"
    by (auto simp: rbind_Inr_iff)
  show ?case
  proof (cases "adds = []")
    case True
    with pass Suc.prems(1,2) show ?thesis by (simp add: inferred_def)
  next
    case False
    with Suc.prems(2) pass obtain qss where q: "pss = adds # qss" "closure_passes ord budget n (t + length adds) E' = Inr qss"
      by (auto simp: rbind_Inr_iff)
    have acc: "edge_accepts ar codec us (edges_batch adds) 0" "run_accepted ar codec (us @ [(edges_batch adds, 0)]) (inferred qss)"
      using Suc.prems(3) by (simp_all add: q(1) inferred_def run_accepted_Cons)
    have u: "uint64_edges (set adds)" "uint64_edges (set (concat qss))"
      using Suc.prems(4) by (auto simp: q(1) uint64_edges_def)
    from append_edges_ok [OF Suc.prems(1) acc(1) u(1)] obtain st1 fs1 where
      a: "append_edges ar fs st adds = (Inr (), st1, fs1)" "edge_ok ar bnd codec fs1 st1 (us @ [(edges_batch adds, 0)])" by blast
    from Suc.IH [OF a(2) q(2) acc(2) u(2), of "Suc k"] pass False a(1) q(1)
    show ?thesis by (auto simp: inferred_def add.assoc)
  qed
qed

end

context arrow_laws
begin

text \<open>A budget that is reached: the passes before the one that reaches it stay in the store.\<close>

lemma transitive_loop_budget:
  assumes "edge_ok ar bnd codec fs st us" "closure_passes ord None n t E = Inr pss" "pss \<noteq> []"
    "b \<le> int (t + length (concat pss))" "run_accepted ar codec us (inferred pss)" "uint64_edges (set (concat pss))"
  shows "\<exists>j st' fs'. transitive_loop ar ord (Some b) n k t E fs st = (raise_code ''TF-6012'', st', fs')
    \<and> j < length pss \<and> edge_ok ar bnd codec fs' st' (us @ inferred (take j pss))
    \<and> b \<le> int (t + length (concat (take (Suc j) pss))) \<and> (j = 0 \<or> int (t + length (concat (take j pss))) < b)"
  using assms
proof (induction n arbitrary: k t E fs st us pss)
  case (Suc n)
  let ?new = "new_edges E (joined ord E)" and ?E = "E \<union> set (joined ord E)"
  have pass: "transitive_pass ord None t E = Inr (?new, ?E)" by (simp add: transitive_pass_eq over_budget_def)
  from Suc.prems(2,3) pass have ne: "?new \<noteq> []" by (auto split: if_splits)
  with Suc.prems(2) pass obtain qss where q: "pss = ?new # qss" "closure_passes ord None n (t + length ?new) ?E = Inr qss"
    by (auto simp: rbind_Inr_iff)
  show ?case
  proof (cases "b \<le> int (t + length ?new)")
    case True
    with ne Suc.prems(1) show ?thesis
      by (intro exI [of _ 0] exI [of _ st] exI [of _ fs]) (simp add: transitive_pass_eq over_budget_def q(1) inferred_def)
  next
    case False
    have acc: "edge_accepts ar codec us (edges_batch ?new) 0" "run_accepted ar codec (us @ [(edges_batch ?new, 0)]) (inferred qss)"
      using Suc.prems(5) by (simp_all add: q(1) inferred_def run_accepted_Cons)
    have u: "uint64_edges (set ?new)" "uint64_edges (set (concat qss))"
      using Suc.prems(6) by (auto simp: q(1) uint64_edges_def)
    from append_edges_ok [OF Suc.prems(1) acc(1) u(1)] obtain st1 fs1 where
      a: "append_edges ar fs st ?new = (Inr (), st1, fs1)" "edge_ok ar bnd codec fs1 st1 (us @ [(edges_batch ?new, 0)])" by blast
    have b: "b \<le> int (t + length ?new + length (concat qss))" using Suc.prems(4) by (simp add: q(1) add.assoc)
    with False have "qss \<noteq> []" by auto
    from Suc.IH [OF a(2) q(2) this b acc(2) u(2), of "Suc k"] obtain j st' fs' where
      r: "transitive_loop ar ord (Some b) n (Suc k) (t + length ?new) ?E fs1 st1 = (raise_code ''TF-6012'', st', fs')"
        "j < length qss" "edge_ok ar bnd codec fs' st' ((us @ [(edges_batch ?new, 0)]) @ inferred (take j qss))"
        "b \<le> int (t + length ?new + length (concat (take (Suc j) qss)))"
        "j = 0 \<or> int (t + length ?new + length (concat (take j qss))) < b" by blast
    have "transitive_loop ar ord (Some b) (Suc n) k t E fs st = (raise_code ''TF-6012'', st', fs')"
      using False ne a(1) r(1) by (simp add: transitive_pass_eq over_budget_def)
    then show ?thesis using r(2-5) False
      by (intro exI [of _ "Suc j"] exI [of _ st'] exI [of _ fs']) (auto simp: q(1) inferred_def add.assoc)
  qed
qed simp

end

section \<open>Properties\<close>


text \<open>A store with the edges of one batch, for the witnesses.\<close>

abbreviation start_history :: "string history" where
  "start_history \<equiv> [(edges_batch [(0, 1), (1, 2)], 1)]"

lemma edge_batch_edges: "ps \<noteq> [] \<Longrightarrow> edge_batch (edges_batch ps)"
  by (auto simp: user_batch_def edge_batch_def edges_batch_def batch_ok_def fields_of_def Let_def shape_def
      uint64_array_of_def SRC_COLUMN_def DST_COLUMN_def EID_COLUMN_def MVCC_COLUMNS_def CREATED_LSN_COLUMN_def DELETED_LSN_COLUMN_def)

lemma edges_batch_fits:
  "payload_fits arrow_lists [stamped EID_COLUMN 0 1 (edges_batch [(0, 1), (1, 2)])] ''none''"
  "payload_fits arrow_lists [stamped EID_COLUMN 2 0 (edges_batch [(0, 2)])] ''none''"
  by (simp_all add: payload_fits_def segment_payload_def segment_compress_def arrow_lists_def edges_batch_def
      stamped_def ids_array_def uint64_array_of_def fields_of_def Let_def batch_flat_def length_tokens_bytes
      put_batches_def put_list_def put_pair_def put_char_def put_int_def HEADER_SIZE_def upt_rec replicate_2
      SRC_COLUMN_def DST_COLUMN_def EID_COLUMN_def MVCC_COLUMNS_def CREATED_LSN_COLUMN_def DELETED_LSN_COLUMN_def)

lemma shape_edges_batch: "shape (bschema (edges_batch ps)) = [(SRC_COLUMN, uint64), (DST_COLUMN, uint64)]"
  by (simp add: edges_batch_def Let_def shape_fields uint64_array_of_def)

lemma start_accepted: "edge_accepts arrow_lists ''none'' [] (edges_batch [(0, 1), (1, 2)]) 1"
  using edges_batch_fits(1)
  by (simp add: edge_batch_edges edge_accepts_def history_shape_def history_rows_def rows_before_def)

lemma pass_accepted: "run_accepted arrow_lists ''none'' start_history (inferred [[(0, 2)]])"
  using edges_batch_fits(2)
  by (simp add: edge_batch_edges run_accepted_def inferred_def edge_accepts_def history_shape_def history_rows_def rows_before_def
      shape_edges_batch)

lemma start_store: "\<exists>fs st. edge_ok arrow_lists sample_bundle ''none'' fs st start_history"
proof -
  have "codec_ready arrow_lists ''none''" "local_name_match ''knows''"
    by (simp_all add: codec_ready_def local_name_match_def name_start_def name_char_def ascii_between_def)
  from edge_create_ok [OF this sample_dir_free, of None None "''p:knows''"] obtain st fs where
    "edge_ok arrow_lists sample_bundle ''none'' fs st []" by auto
  from ar_lists.edge_append_ok [OF this start_accepted] show ?thesis by auto
qed

lemma start_edges: "history_edges start_history = {(0, 1), (1, 2)}"
  by (simp add: history_edges_def batch_edges_batch)

lemma start_passes: "closure_passes sorted_order None 16 0 {(0, 1), (1, 2)} = Inr [[(0, 2)]]"
  by code_simp


text \<open>
  A triple budget that the inference would reach. The run fails with \<open>TF-6012\<close> and logs
  nothing, although the passes completed before the one that reaches the budget are already in
  the store; fewer edges than the budget are ever added.
\<close>

theorem infer_transitive_budget:
  assumes laws: "arrow_laws ar" "set_order_laws ord" and ok: "edge_ok ar bnd codec fs st us"
    and full: "\<forall>v \<in> set us. full_edges (fst v)" and R: "uint64_edges (history_edges us)" and max: "0 < max_iterations"
    and pss: "closure_passes ord None (nat max_iterations) 0 (history_edges us) = Inr pss" "run_accepted ar codec us (inferred pss)"
    and b: "pss \<noteq> []" "b \<le> int (length (concat pss))"
  shows "\<exists>j st' fs'. infer_transitive ar ord dumps fs st iri max_iterations (Some b) w = (raise_code ''TF-6012'', st', fs', w)
    \<and> existing_edges ar fs' st' = Inr (history_edges us \<union> set (concat (take j pss)))
    \<and> j < length pss \<and> (j = 0 \<or> int (length (concat (take j pss))) < b) \<and> b \<le> int (length (concat (take (Suc j) pss)))"
proof -
  let ?R = "history_edges us"
  have fin: "finite ?R" by (simp add: history_edges_def)
  have old: "existing_edges ar fs st = Inr ?R" by (rule arrow_laws.existing_edges_ok [OF laws(1) ok full])
  have "?R \<union> set (concat pss) = paths_upto (2 ^ length pss) ?R"
    using set_order_laws.closure_passes_paths [OF laws(2) fin, of "nat max_iterations" 0] pss(1) by auto
  then have "set (concat pss) \<subseteq> ?R\<^sup>+" using paths_upto_trancl by blast
  then have "uint64_edges (set (concat pss))" using uint64_trancl [OF R] unfolding uint64_edges_def by blast
  from arrow_laws.transitive_loop_budget [OF laws(1) ok pss(1) b(1) _ pss(2) this, of b 0, unfolded add_0, OF b(2)] obtain j st' fs' where
    loop: "transitive_loop ar ord (Some b) (nat max_iterations) 0 0 ?R fs st = (raise_code ''TF-6012'', st', fs')"
    and j: "j < length pss" "b \<le> int (length (concat (take (Suc j) pss)))" "j = 0 \<or> int (length (concat (take j pss))) < b"
    and ok': "edge_ok ar bnd codec fs' st' (us @ inferred (take j pss))" by blast
  have "\<forall>v \<in> set (us @ inferred (take j pss)). full_edges (fst v)"
    using full by (auto simp: inferred_def full_edges_batch dest: in_set_takeD)
  then have "existing_edges ar fs' st' = Inr (?R \<union> set (concat (take j pss)))"
    using arrow_laws.existing_edges_ok [OF laws(1) ok'] by (simp add: history_edges_app)
  with loop j old max show ?thesis by (auto simp: infer_transitive_def)
qed

theorem infer_transitive_budget_witness:
  "\<exists>fs st st' fs'. infer_transitive arrow_lists sorted_order (\<lambda>_. []) fs st ''p:knows'' 16 (Some 1) None
      = (raise_code ''TF-6012'', st', fs', None)
    \<and> existing_edges arrow_lists fs' st' = Inr {(0, 1), (1, 2)}"
proof -
  obtain fs st where ok: "edge_ok arrow_lists sample_bundle ''none'' fs st start_history" using start_store by blast
  have "\<forall>v \<in> set start_history. full_edges (fst v)" by (simp add: full_edges_batch)
  moreover have "uint64_edges (history_edges start_history)" by (simp add: start_edges uint64_edges_def)
  moreover have "closure_passes sorted_order None (nat 16) 0 (history_edges start_history) = Inr [[(0, 2)]]"
    using start_passes by (simp add: start_edges)
  ultimately obtain j st' fs' where
    "infer_transitive arrow_lists sorted_order (\<lambda>_. []) fs st ''p:knows'' 16 (Some 1) None = (raise_code ''TF-6012'', st', fs', None)"
    "existing_edges arrow_lists fs' st' = Inr (history_edges start_history \<union> set (concat (take j [[(0, 2)]])))" "j < length [[(0, 2)] :: edge list]"
    using infer_transitive_budget [OF ar_lists.arrow_laws_axioms sorted_sets.set_order_laws_axioms ok, of 16 "[[(0, 2)]]" 1 "\<lambda>_. []" "''p:knows''" None]
      pass_accepted by auto
  then show ?thesis unfolding start_edges by auto
qed

end
