(* ===== verification/Class_Closure.thy ===== *)
theory Class_Closure
  imports Hierarchy_Theorems
begin

text \<open>
  The class closure index (\<open>onto/closure.py\<close>): bitmaps of class numbers for the subclasses and
  the superclasses of each class, computed lazily from the hierarchy, cached, invalidated and
  saved. The bitmaps (pyroaring, with the base64 text of their serialised form) are a parameter.
\<close>

section \<open>Bitmaps\<close>

record 'b bitmaps =
  bm_new :: "int list \<Rightarrow> 'b result"
  bm_add :: "int \<Rightarrow> 'b \<Rightarrow> 'b result"
  bm_list :: "'b \<Rightarrow> int list"
  bm_to_text :: "'b \<Rightarrow> string"
  bm_from_text :: "string \<Rightarrow> 'b result"

definition u32 :: "int \<Rightarrow> bool" where
  "u32 i \<longleftrightarrow> 0 \<le> i \<and> i < 2 ^ 32"

locale bitmap_laws =
  fixes bm :: "'b bitmaps"
  assumes new: "\<forall>i \<in> set is. u32 i \<Longrightarrow> \<exists>b. bm_new bm is = Inr b \<and> set (bm_list bm b) = set is"
    and add: "u32 i \<Longrightarrow> \<exists>b'. bm_add bm i b = Inr b' \<and> set (bm_list bm b') = insert i (set (bm_list bm b))"
    and ascending: "sorted_wrt (<) (bm_list bm b)"
    and text_round_trip: "bm_from_text bm (bm_to_text bm b) = Inr b"

definition bitmap_lists :: "int list bitmaps" where
  "bitmap_lists = \<lparr>
     bm_new = (\<lambda>is. if \<forall>i \<in> set is. u32 i then Inr (sort (remdups is)) else Inl ValueError),
     bm_add = (\<lambda>i b. if u32 i then Inr (sort (remdups (i # b))) else Inl ValueError),
     bm_list = (\<lambda>b. sort (remdups b)),
     bm_to_text = (\<lambda>b. concat (map (\<lambda>i. replicate (nat (2 * \<bar>i\<bar> + (if i < 0 then 1 else 0))) (CHR ''a'') @ ''b'') b)),
     bm_from_text = (\<lambda>s. let runs = (\<lambda>(n :: nat, acc). acc) (foldl (\<lambda>(n, acc) c. if c = CHR ''a'' then (Suc n, acc)
          else (0, acc @ [n])) (0, []) s)
        in Inr (map (\<lambda>n. if even n then int (n div 2) else - int (n div 2)) runs))\<rparr>"

interpretation bitmap_lists: bitmap_laws bitmap_lists
proof (unfold_locales, goal_cases)
  case (4 b)
  let ?f = "\<lambda>(n :: nat, acc) c. if c = CHR ''a'' then (Suc n, acc) else (0, acc @ [n])"
  let ?code = "\<lambda>i. nat (2 * \<bar>i\<bar> + (if i < 0 then 1 else 0)) :: nat"
  have run: "foldl ?f (m, acc) (replicate n (CHR ''a'')) = (m + n, acc)" for m n acc
    by (induction n arbitrary: m) auto
  have "foldl ?f (0, acc) (concat (map (\<lambda>i. replicate (?code i) (CHR ''a'') @ ''b'') xs)) = (0, acc @ map ?code xs)" for acc xs
    by (induction xs arbitrary: acc) (simp_all add: run)
  from this [of "[]" b] have "bm_from_text bitmap_lists (bm_to_text bitmap_lists b)
      = Inr (map ((\<lambda>n. if even n then int (n div 2) else - int (n div 2)) \<circ> ?code) b)"
    by (simp add: bitmap_lists_def)
  moreover have "(if even (?code i) then int (?code i div 2) else - int (?code i div 2)) = i" for i
  proof (cases "i < 0")
    case True
    then obtain n where n: "i = - int n" by (metis neg_int_cases)
    with True have "?code i = Suc (2 * n)" by simp
    then show ?thesis by (simp add: n)
  next
    case False
    then obtain n where "i = int n" by (metis nonneg_int_cases not_less)
    then show ?thesis by (simp add: nat_mult_distrib)
  qed
  ultimately show ?case by (simp add: comp_def)
qed (auto simp: bitmap_lists_def strict_sorted_iff)

section \<open>The index\<close>

definition CLASS_CLOSURE_FILE :: string where "CLASS_CLOSURE_FILE = ''subclassof.bitmap''"
definition CLOSURE_ENCODING :: string where "CLOSURE_ENCODING = ''caracal.class-closure.v1+roaring''"

record 'b class_closure =
  cc_hierarchy :: hierarchy_dag
  cc_id_by_iri :: "(string, int) dict"
  cc_iri_by_id :: "(int, string) dict"
  cc_descendants :: "(string, 'b) dict"
  cc_ancestors :: "(string, 'b) dict"

definition closure_from_catalog :: "catalog \<Rightarrow> 'b class_closure result" where
  "closure_from_catalog c =
     rbind (ontology_hierarchy_from_catalog c) (\<lambda>oh.
     let id_by_iri = fold (\<lambda>d. AList.update (cd_iri d) (cd_cid d)) (c_classes c) [] in
     Inr \<lparr>cc_hierarchy = oh_classes oh, cc_id_by_iri = id_by_iri,
          cc_iri_by_id = fold (\<lambda>(iri, cid). AList.update cid iri) id_by_iri [],
          cc_descendants = [], cc_ancestors = []\<rparr>)"

definition dict_item :: "('k, 'v) dict \<Rightarrow> 'k \<Rightarrow> 'v result" where
  "dict_item d k = (case map_of d k of None \<Rightarrow> Inl KeyError | Some v \<Rightarrow> Inr v)"

definition require_class :: "'b class_closure \<Rightarrow> string \<Rightarrow> unit result" where
  "require_class cc iri = (if map_of (cc_id_by_iri cc) iri = None then raise_code ''CDB-9504'' else Inr ())"

text \<open>
  The body the two bitmap methods share: fill the cache entry if it is missing, copy it and add
  the class itself. \<open>walked\<close> is the walk over the hierarchy; \<open>None\<close> inside means it does not end.
\<close>

definition closure_bitmap ::
  "'b bitmaps \<Rightarrow> (string, int) dict \<Rightarrow> (string, 'b) dict \<Rightarrow> string list option result \<Rightarrow> string \<Rightarrow> bool
    \<Rightarrow> ('b \<times> (string, 'b) dict) option result" where
  "closure_bitmap bm ids cache walked iri include_self =
     rbind (case map_of cache iri of
              Some b \<Rightarrow> Inr (Some (b, cache))
            | None \<Rightarrow>
                rbind walked (\<lambda>w.
                case w of
                  None \<Rightarrow> Inr None
                | Some items \<Rightarrow>
                    rbind (rmap (dict_item ids) items) (\<lambda>ns.
                    rbind (bm_new bm ns) (\<lambda>b. Inr (Some (b, AList.update iri b cache)))))) (\<lambda>r.
     case r of
       None \<Rightarrow> Inr None
     | Some (b, cache') \<Rightarrow>
         if include_self then
           rbind (dict_item ids iri) (\<lambda>n. rbind (bm_add bm n b) (\<lambda>b'. Inr (Some (b', cache'))))
         else Inr (Some (b, cache')))"

definition descendants_bitmap ::
  "'b bitmaps \<Rightarrow> 'b class_closure \<Rightarrow> string \<Rightarrow> bool \<Rightarrow> 'b option result \<times> 'b class_closure" where
  "descendants_bitmap bm cc iri include_self =
     (case rbind (require_class cc iri) (\<lambda>_. closure_bitmap bm (cc_id_by_iri cc) (cc_descendants cc)
             (descendants (cc_hierarchy cc) iri False) iri include_self) of
        Inl e \<Rightarrow> (Inl e, cc)
      | Inr None \<Rightarrow> (Inr None, cc)
      | Inr (Some (b, cache)) \<Rightarrow> (Inr (Some b), cc\<lparr>cc_descendants := cache\<rparr>))"

definition ancestors_bitmap ::
  "'b bitmaps \<Rightarrow> 'b class_closure \<Rightarrow> string \<Rightarrow> bool \<Rightarrow> 'b option result \<times> 'b class_closure" where
  "ancestors_bitmap bm cc iri include_self =
     (case rbind (require_class cc iri) (\<lambda>_. closure_bitmap bm (cc_id_by_iri cc) (cc_ancestors cc)
             (ancestors (cc_hierarchy cc) iri False) iri include_self) of
        Inl e \<Rightarrow> (Inl e, cc)
      | Inr None \<Rightarrow> (Inr None, cc)
      | Inr (Some (b, cache)) \<Rightarrow> (Inr (Some b), cc\<lparr>cc_ancestors := cache\<rparr>))"

definition iris_from_bitmap :: "'b bitmaps \<Rightarrow> 'b class_closure \<Rightarrow> 'b \<Rightarrow> string list result" where
  "iris_from_bitmap bm cc b = rmap (dict_item (cc_iri_by_id cc)) (bm_list bm b)"

definition descendant_iris ::
  "'b bitmaps \<Rightarrow> 'b class_closure \<Rightarrow> string \<Rightarrow> bool \<Rightarrow> string list option result \<times> 'b class_closure" where
  "descendant_iris bm cc iri include_self =
     (case descendants_bitmap bm cc iri include_self of
        (Inl e, cc') \<Rightarrow> (Inl e, cc')
      | (Inr None, cc') \<Rightarrow> (Inr None, cc')
      | (Inr (Some b), cc') \<Rightarrow> (rbind (iris_from_bitmap bm cc' b) (\<lambda>xs. Inr (Some xs)), cc'))"

definition ancestor_iris ::
  "'b bitmaps \<Rightarrow> 'b class_closure \<Rightarrow> string \<Rightarrow> bool \<Rightarrow> string list option result \<times> 'b class_closure" where
  "ancestor_iris bm cc iri include_self =
     (case ancestors_bitmap bm cc iri include_self of
        (Inl e, cc') \<Rightarrow> (Inl e, cc')
      | (Inr None, cc') \<Rightarrow> (Inr None, cc')
      | (Inr (Some b), cc') \<Rightarrow> (rbind (iris_from_bitmap bm cc' b) (\<lambda>xs. Inr (Some xs)), cc'))"

definition is_subclass ::
  "'b bitmaps \<Rightarrow> 'b class_closure \<Rightarrow> string \<Rightarrow> string \<Rightarrow> bool \<Rightarrow> bool option result \<times> 'b class_closure" where
  "is_subclass bm cc child_iri parent_iri reflexive =
     (case require_class cc child_iri of
        Inl e \<Rightarrow> (Inl e, cc)
      | Inr _ \<Rightarrow>
          (case descendants_bitmap bm cc parent_iri reflexive of
             (Inl e, cc') \<Rightarrow> (Inl e, cc')
           | (Inr None, cc') \<Rightarrow> (Inr None, cc')
           | (Inr (Some b), cc') \<Rightarrow>
               (rbind (dict_item (cc_id_by_iri cc') child_iri) (\<lambda>n. Inr (Some (n \<in> set (bm_list bm b)))), cc')))"

text \<open>The cache entries of the class, its superclasses and its subclasses, or of all classes.\<close>

definition invalidate :: "'b class_closure \<Rightarrow> string option \<Rightarrow> unit option result \<times> 'b class_closure" where
  "invalidate cc iri =
     (case iri of
        None \<Rightarrow> (Inr (Some ()), cc\<lparr>cc_descendants := [], cc_ancestors := []\<rparr>)
      | Some x \<Rightarrow>
          (case rbind (require_class cc x) (\<lambda>_.
                rbind (ancestors (cc_hierarchy cc) x False) (\<lambda>up.
                rbind (descendants (cc_hierarchy cc) x False) (\<lambda>down. Inr (up, down)))) of
             Inl e \<Rightarrow> (Inl e, cc)
           | Inr (Some up, Some down) \<Rightarrow>
               let affected = x # up @ down in
               (Inr (Some ()), cc\<lparr>cc_descendants := fold AList.delete affected (cc_descendants cc),
                                  cc_ancestors := fold AList.delete affected (cc_ancestors cc)\<rparr>)
           | Inr _ \<Rightarrow> (Inr None, cc)))"

fun materialize :: "'b bitmaps \<Rightarrow> string list \<Rightarrow> 'b class_closure \<Rightarrow> unit option result \<times> 'b class_closure" where
  "materialize bm [] cc = (Inr (Some ()), cc)"
| "materialize bm (iri # iris) cc =
     (case descendants_bitmap bm cc iri True of
        (Inl e, cc1) \<Rightarrow> (Inl e, cc1)
      | (Inr None, cc1) \<Rightarrow> (Inr None, cc1)
      | (Inr (Some _), cc1) \<Rightarrow>
          (case ancestors_bitmap bm cc1 iri True of
             (Inl e, cc2) \<Rightarrow> (Inl e, cc2)
           | (Inr None, cc2) \<Rightarrow> (Inr None, cc2)
           | (Inr (Some _), cc2) \<Rightarrow> materialize bm iris cc2))"

definition materialize_all :: "'b bitmaps \<Rightarrow> 'b class_closure \<Rightarrow> unit option result \<times> 'b class_closure" where
  "materialize_all bm cc = materialize bm (h_nodes (cc_hierarchy cc)) cc"

section \<open>Files\<close>

definition encode_bitmaps :: "'b bitmaps \<Rightarrow> (string, 'b) dict \<Rightarrow> json" where
  "encode_bitmaps bm d = JObj (map (\<lambda>(iri, b). (iri, JStr (bm_to_text bm b))) d)"

text \<open>The JSON value behind the magic bytes.\<close>

definition closure_envelope :: "'b bitmaps \<Rightarrow> 'b class_closure \<Rightarrow> json" where
  "closure_envelope bm cc =
     JObj [(''encoding'', JStr CLOSURE_ENCODING),
           (''class_id_by_iri'', JObj (map (\<lambda>(iri, n). (iri, JInt n)) (cc_id_by_iri cc))),
           (''descendants_by_iri'', encode_bitmaps bm (cc_descendants cc)),
           (''ancestors_by_iri'', encode_bitmaps bm (cc_ancestors cc))]"

definition closure_write_atomic ::
  "'b bitmaps \<Rightarrow> 'b class_closure \<Rightarrow> fs \<Rightarrow> path \<Rightarrow> unit option result \<times> 'b class_closure \<times> fs" where
  "closure_write_atomic bm cc fs p =
     (case mkdirs fs [] (butlast p) of
        Inl e \<Rightarrow> (Inl e, cc, fs)
      | Inr fs1 \<Rightarrow>
          (case materialize_all bm cc of
             (Inl e, cc') \<Rightarrow> (Inl e, cc', fs1)
           | (Inr None, cc') \<Rightarrow> (Inr None, cc', fs1)
           | (Inr (Some _), cc') \<Rightarrow>
               (case write_file_atomic (MagicFile (sort_keys (closure_envelope bm cc'))) fs1 p of
                  (Inl e, fs2) \<Rightarrow> (Inl e, cc', fs2)
                | (Inr _, fs2) \<Rightarrow> (Inr (Some ()), cc', fs2))))"

definition json_items :: "json \<Rightarrow> (string \<times> json) list result" where
  "json_items v = (case v of JObj kvs \<Rightarrow> Inr kvs | _ \<Rightarrow> Inl AttributeError)"

definition same_dict :: "('k, 'v) dict \<Rightarrow> ('k, 'v) dict \<Rightarrow> bool" where
  "same_dict d e \<longleftrightarrow> (\<forall>k \<in> set (dict_keys d) \<union> set (dict_keys e). map_of d k = map_of e k)"

definition decode_bitmaps :: "'b bitmaps \<Rightarrow> json \<Rightarrow> string \<Rightarrow> (string, 'b) dict result" where
  "decode_bitmaps bm payload key =
     rbind (json_get payload key (JObj [])) (\<lambda>v. rbind (json_items v) (\<lambda>kvs.
     rfold (\<lambda>(iri, enc) d.
       (case enc of JStr s \<Rightarrow> rbind (bm_from_text bm s) (\<lambda>b. Inr (AList.update iri b d)) | _ \<Rightarrow> Inl TypeError)) kvs []))"

definition closure_from_entry :: "'b bitmaps \<Rightarrow> entry \<Rightarrow> catalog \<Rightarrow> 'b class_closure result" where
  "closure_from_entry bm data c =
     rbind (closure_from_catalog c) (\<lambda>index.
     rbind (case data of
              MagicFile payload \<Rightarrow> Inr payload
            | BinFile bs \<Rightarrow> if take (length MAGIC) bs = MAGIC then Inl ValueError else raise_code ''CDB-9506''
            | JsonFile _ \<Rightarrow> raise_code ''CDB-9506''
            | Dir \<Rightarrow> Inl OSError) (\<lambda>payload.
     rbind (json_get payload ''encoding'' JNull) (\<lambda>enc.
     if enc \<noteq> JStr CLOSURE_ENCODING then raise_code ''CDB-9506''
     else
       rbind (json_get payload ''class_id_by_iri'' (JObj [])) (\<lambda>v. rbind (json_items v) (\<lambda>kvs.
       rbind (rfold (\<lambda>(k, x) d. rbind (json_int x) (\<lambda>n. Inr (AList.update k n d))) kvs []) (\<lambda>stored_ids.
       if \<not> same_dict stored_ids (cc_id_by_iri index) then raise_code ''CDB-9507''
       else
         rbind (decode_bitmaps bm payload ''descendants_by_iri'') (\<lambda>down.
         rbind (decode_bitmaps bm payload ''ancestors_by_iri'') (\<lambda>up.
         Inr (index\<lparr>cc_descendants := down, cc_ancestors := up\<rparr>)))))))))"

definition closure_read :: "'b bitmaps \<Rightarrow> fs \<Rightarrow> path \<Rightarrow> catalog \<Rightarrow> 'b class_closure result" where
  "closure_read bm fs p c =
     (if \<not> is_file fs p then raise_code ''CDB-9508'' else closure_from_entry bm (the (fs p)) c)"

definition load_class_closure :: "'b bitmaps \<Rightarrow> fs \<Rightarrow> crcl_bundle \<Rightarrow> catalog \<Rightarrow> 'b class_closure result" where
  "load_class_closure bm fs bnd c =
     (let p = bundle_child bnd [''closure'', CLASS_CLOSURE_FILE] in
      if \<not> path_exists fs p then closure_from_catalog c else closure_read bm fs p c)"

definition save_class_closure ::
  "'b bitmaps \<Rightarrow> fs \<Rightarrow> crcl_bundle \<Rightarrow> 'b class_closure \<Rightarrow> path option result \<times> 'b class_closure \<times> fs" where
  "save_class_closure bm fs bnd cc =
     (let p = bundle_child bnd [''closure'', CLASS_CLOSURE_FILE] in
      case closure_write_atomic bm cc fs p of
        (Inl e, rest) \<Rightarrow> (Inl e, rest)
      | (Inr None, rest) \<Rightarrow> (Inr None, rest)
      | (Inr (Some _), rest) \<Rightarrow> (Inr (Some p), rest))"

end
