(* ===== verification/Class_Closure_Theorems.thy ===== *)
theory Class_Closure_Theorems
  imports Class_Closure
begin

text \<open>
  The closure index answers subclass queries as the hierarchy does, whatever its caches hold, and
  a saved index loads as one that answers the same.
\<close>

definition class_parents :: "catalog \<Rightarrow> (string, string list) dict" where
  "class_parents c = map (\<lambda>d. (cd_iri d, cd_superclass_iris d)) (c_classes c)"

abbreviation class_rel :: "catalog \<Rightarrow> (string \<times> string) set" where
  "class_rel c \<equiv> edge_rel (class_parents c)"

abbreviation class_iris :: "catalog \<Rightarrow> string set" where
  "class_iris c \<equiv> cd_iri ` set (c_classes c)"

text \<open>Class IRIs and class numbers identify the classes; the numbers fit the bitmaps.\<close>

definition classes_ok :: "catalog \<Rightarrow> bool" where
  "classes_ok c \<longleftrightarrow> distinct (map cd_iri (c_classes c)) \<and> distinct (map cd_cid (c_classes c))
     \<and> (\<forall>d \<in> set (c_classes c). u32 (cd_cid d))"

definition ids_of :: "catalog \<Rightarrow> string set \<Rightarrow> int set" where
  "ids_of c X = cd_cid ` {d \<in> set (c_classes c). cd_iri d \<in> X}"

definition cache_ok :: "'b bitmaps \<Rightarrow> catalog \<Rightarrow> (string \<Rightarrow> string set) \<Rightarrow> (string, 'b) dict \<Rightarrow> bool" where
  "cache_ok bm c R cache \<longleftrightarrow> dict_ok cache \<and> fst ` set cache \<subseteq> class_iris c
     \<and> (\<forall>iri b. map_of cache iri = Some b \<longrightarrow> set (bm_list bm b) = ids_of c (R iri))"

definition below :: "catalog \<Rightarrow> string \<Rightarrow> string set" where
  "below c p = {x. (x, p) \<in> (class_rel c)\<^sup>+}"

definition above :: "catalog \<Rightarrow> string \<Rightarrow> string set" where
  "above c x = {p. (x, p) \<in> (class_rel c)\<^sup>+}"

definition closure_ok :: "'b bitmaps \<Rightarrow> catalog \<Rightarrow> 'b class_closure \<Rightarrow> bool" where
  "closure_ok bm c cc \<longleftrightarrow> from_edges (map cd_iri (c_classes c)) (class_parents c) = Inr (cc_hierarchy cc)
     \<and> cc_id_by_iri cc = map (\<lambda>d. (cd_iri d, cd_cid d)) (c_classes c)
     \<and> cc_iri_by_id cc = map (\<lambda>d. (cd_cid d, cd_iri d)) (c_classes c)
     \<and> cache_ok bm c (below c) (cc_descendants cc) \<and> cache_ok bm c (above c) (cc_ancestors cc)"

lemma dict_ok_class_parents: "classes_ok c \<Longrightarrow> dict_ok (class_parents c)"
  by (simp add: classes_ok_def class_parents_def dict_ok_def comp_def)

lemma cache_ok_Nil [simp]: "cache_ok bm c R []"
  by (simp add: cache_ok_def)

lemma from_catalog_parts:
  assumes ok: "classes_ok c" and cat: "closure_from_catalog c = Inr cc"
  shows "closure_ok bm c cc"
proof -
  have iris: "distinct (map cd_iri (c_classes c))" and ids: "distinct (map cd_cid (c_classes c))"
    using ok by (simp_all add: classes_ok_def)
  have pbc: "fold (\<lambda>d. AList.update (cd_iri d) (cd_superclass_iris d)) (c_classes c) [] = class_parents c"
    using fold_update_distinct [OF iris, of "[]" cd_superclass_iris] by (simp add: class_parents_def)
  have idd: "fold (\<lambda>d. AList.update (cd_iri d) (cd_cid d)) (c_classes c) [] = map (\<lambda>d. (cd_iri d, cd_cid d)) (c_classes c)"
    using fold_update_distinct [OF iris, of "[]" cd_cid] by simp
  have "fold (\<lambda>(iri, cid). AList.update cid iri) (map (\<lambda>d. (cd_iri d, cd_cid d)) (c_classes c)) []
      = fold (\<lambda>d. AList.update (cd_cid d) (cd_iri d)) (c_classes c) []"
    by (simp add: fold_map comp_def)
  also have "\<dots> = map (\<lambda>d. (cd_cid d, cd_iri d)) (c_classes c)"
    using fold_update_distinct [OF ids, of "[]" cd_iri] by simp
  finally show ?thesis using cat
    by (auto simp: closure_from_catalog_def ontology_hierarchy_from_catalog_def closure_ok_def pbc idd Let_def rbind_Inr_iff)
qed

text \<open>The walks of the hierarchy, on the classes of a catalogue.\<close>

lemma class_walks:
  assumes ok: "classes_ok c" and h: "from_edges (map cd_iri (c_classes c)) (class_parents c) = Inr h" and iri: "iri \<in> class_iris c"
  shows "\<exists>xs. ancestors h iri False = Inr (Some xs) \<and> set xs = above c iri"
    and "\<exists>xs. descendants h iri False = Inr (Some xs) \<and> set xs = below c iri"
    and "p \<in> class_iris c \<Longrightarrow> is_subtype h iri p reflexive = Inr (Some (p \<in> above c iri \<or> reflexive \<and> iri = p))"
    and "h_nodes h = map cd_iri (c_classes c)"
proof -
  have d: "distinct (map cd_iri (c_classes c))" and k: "dict_ok (class_parents c)"
    using ok dict_ok_class_parents by (simp_all add: classes_ok_def)
  note q = hierarchy_queries [OF d k h]
  show "\<exists>xs. ancestors h iri False = Inr (Some xs) \<and> set xs = above c iri"
    "\<exists>xs. descendants h iri False = Inr (Some xs) \<and> set xs = below c iri"
    using q [of iri iri False False] iri by (auto simp: above_def below_def)
  show "p \<in> class_iris c \<Longrightarrow> is_subtype h iri p reflexive = Inr (Some (p \<in> above c iri \<or> reflexive \<and> iri = p))"
    using q [of iri p False reflexive] iri by (auto simp: above_def)
  show "h_nodes h = map cd_iri (c_classes c)"
    using from_edges_cases [OF d k] h by (auto split: if_splits)
qed

lemma class_rel_iris:
  assumes ok: "classes_ok c" and h: "from_edges (map cd_iri (c_classes c)) (class_parents c) = Inr h"
  shows "below c p \<subseteq> class_iris c" "above c p \<subseteq> class_iris c"
proof -
  have d: "distinct (map cd_iri (c_classes c))" and k: "dict_ok (class_parents c)"
    using ok dict_ok_class_parents by (simp_all add: classes_ok_def)
  have "known_edges (map cd_iri (c_classes c)) (class_parents c)"
    using from_edges_cases [OF d k] h by (auto split: if_splits)
  then have e: "class_rel c \<subseteq> class_iris c \<times> class_iris c"
    by (auto simp: known_edges_def edge_rel_def dest!: map_of_SomeD)
  then have "(class_rel c)\<^sup>+ \<subseteq> class_iris c \<times> class_iris c" by (rule trancl_subset_Sigma)
  then show "below c p \<subseteq> class_iris c" "above c p \<subseteq> class_iris c" by (auto simp: below_def above_def)
qed

lemma class_id:
  assumes "classes_ok c" "iri \<in> class_iris c"
  shows "\<exists>n. map_of (map (\<lambda>d. (cd_iri d, cd_cid d)) (c_classes c)) iri = Some n \<and> u32 n \<and> ids_of c {iri} = {n}"
proof -
  from assms(2) obtain d where d: "d \<in> set (c_classes c)" "iri = cd_iri d" by auto
  have dist: "distinct (map cd_iri (c_classes c))" using assms(1) by (simp add: classes_ok_def)
  have "map_of (map (\<lambda>d. (cd_iri d, cd_cid d)) (c_classes c)) iri = Some (cd_cid d)"
    using d dist by (auto simp: map_of_eq_Some_iff comp_def)
  moreover have "{d' \<in> set (c_classes c). cd_iri d' = iri} = {d}" using d dist by (auto simp: distinct_map inj_on_def)
  ultimately show ?thesis using d(1) assms(1) by (auto simp: classes_ok_def ids_of_def)
qed

lemma ids_of_Un [simp]: "ids_of c (X \<union> Y) = ids_of c X \<union> ids_of c Y"
  by (auto simp: ids_of_def)

lemma ids_of_mem:
  assumes "classes_ok c" "iri \<in> class_iris c" "ids_of c {iri} = {n}"
  shows "n \<in> ids_of c X \<longleftrightarrow> iri \<in> X"
proof -
  have "inj_on cd_cid (set (c_classes c))" using assms(1) by (simp add: classes_ok_def distinct_map)
  with assms(2,3) show ?thesis by (fastforce simp: ids_of_def inj_on_def)
qed

context bitmap_laws
begin

lemma closure_bitmap_ok:
  assumes ok: "classes_ok c" and cache: "cache_ok bm c R cache" and iri: "iri \<in> class_iris c"
    and walk: "walked = Inr (Some xs)" "set xs = R iri" "R iri \<subseteq> class_iris c"
  shows "\<exists>b cache'. closure_bitmap bm (map (\<lambda>d. (cd_iri d, cd_cid d)) (c_classes c)) cache walked iri s = Inr (Some (b, cache'))
    \<and> set (bm_list bm b) = ids_of c (R iri \<union> (if s then {iri} else {})) \<and> cache_ok bm c R cache' \<and> map_of cache' iri \<noteq> None"
proof -
  let ?ids = "map (\<lambda>d. (cd_iri d, cd_cid d)) (c_classes c)"
  have fill: "\<exists>b cache'. (case map_of cache iri of Some b \<Rightarrow> Inr (Some (b, cache))
      | None \<Rightarrow> rbind walked (\<lambda>w. case w of None \<Rightarrow> Inr None
          | Some items \<Rightarrow> rbind (rmap (dict_item ?ids) items) (\<lambda>ns. rbind (bm_new bm ns) (\<lambda>b. Inr (Some (b, AList.update iri b cache))))))
      = Inr (Some (b, cache')) \<and> set (bm_list bm b) = ids_of c (R iri) \<and> cache_ok bm c R cache' \<and> map_of cache' iri \<noteq> None"
  proof (cases "map_of cache iri")
    case (Some b)
    with cache show ?thesis by (auto simp: cache_ok_def)
  next
    case None
    let ?id = "\<lambda>x. the (map_of ?ids x)"
    have item: "dict_item ?ids x = Inr (?id x) \<and> u32 (?id x) \<and> ids_of c {x} = {?id x}" if "x \<in> set xs" for x
      using class_id [OF ok, of x] walk that by (force simp: dict_item_def)
    have ns: "rmap (dict_item ?ids) (map (\<lambda>x. x) xs) = Inr (map ?id xs)" by (rule rmap_Inr_all) (use item in blast)
    obtain b where b: "bm_new bm (map ?id xs) = Inr b" "set (bm_list bm b) = set (map ?id xs)"
      using new [of "map ?id xs"] item by auto
    have "set (map ?id xs) = (\<Union>x \<in> R iri. ids_of c {x})" using item walk(2) by auto
    also have "\<dots> = ids_of c (R iri)" by (auto simp: ids_of_def)
    finally have set: "set (bm_list bm b) = ids_of c (R iri)" using b(2) by simp
    have "fst ` set (AList.update iri b cache) = insert iri (fst ` set cache)"
      by (metis dict_keys_update_set set_map)
    then have "fst ` set (AList.update iri b cache) \<subseteq> class_iris c" using cache iri by (simp add: cache_ok_def)
    then have "cache_ok bm c R (AList.update iri b cache)"
      using cache set by (auto simp: cache_ok_def dict_lookup_update)
    with None ns b set walk(1) show ?thesis by (simp add: dict_lookup_update)
  qed
  show ?thesis
  proof (cases s)
    case False
    with fill show ?thesis by (force simp: closure_bitmap_def)
  next
    case True
    from class_id [OF ok iri] obtain n where n: "dict_item ?ids iri = Inr n" "u32 n" "ids_of c {iri} = {n}"
      by (auto simp: dict_item_def)
    from fill obtain b cache' where f: "(case map_of cache iri of Some b \<Rightarrow> Inr (Some (b, cache))
      | None \<Rightarrow> rbind walked (\<lambda>w. case w of None \<Rightarrow> Inr None
          | Some items \<Rightarrow> rbind (rmap (dict_item ?ids) items) (\<lambda>ns. rbind (bm_new bm ns) (\<lambda>b. Inr (Some (b, AList.update iri b cache))))))
      = Inr (Some (b, cache'))" "set (bm_list bm b) = ids_of c (R iri)" "cache_ok bm c R cache'" "map_of cache' iri \<noteq> None" by blast
    from add [OF n(2), of b] obtain b' where "bm_add bm n b = Inr b'" "set (bm_list bm b') = insert n (ids_of c (R iri))"
      using f(2) by auto
    moreover have "ids_of c (insert iri (R iri)) = insert n (ids_of c (R iri))"
      using ids_of_Un [of c "R iri" "{iri}"] n(3) by simp
    ultimately show ?thesis using f n True by (simp add: closure_bitmap_def)
  qed
qed

lemma descendants_bitmap_ok:
  assumes ok: "classes_ok c" "closure_ok bm c cc" and iri: "iri \<in> class_iris c"
  shows "\<exists>b cc'. descendants_bitmap bm cc iri s = (Inr (Some b), cc') \<and> closure_ok bm c cc'
    \<and> set (bm_list bm b) = ids_of c (below c iri \<union> (if s then {iri} else {}))
    \<and> cc_ancestors cc' = cc_ancestors cc \<and> cc_hierarchy cc' = cc_hierarchy cc"
proof -
  have h: "from_edges (map cd_iri (c_classes c)) (class_parents c) = Inr (cc_hierarchy cc)"
    and ids: "cc_id_by_iri cc = map (\<lambda>d. (cd_iri d, cd_cid d)) (c_classes c)"
    and cache: "cache_ok bm c (below c) (cc_descendants cc)" using ok(2) by (simp_all add: closure_ok_def)
  obtain xs where "descendants (cc_hierarchy cc) iri False = Inr (Some xs)" "set xs = below c iri"
    using class_walks(2) [OF ok(1) h iri] by blast
  from closure_bitmap_ok [OF ok(1) cache iri this class_rel_iris(1) [OF ok(1) h], of s]
  have "\<exists>b cache'. closure_bitmap bm (cc_id_by_iri cc) (cc_descendants cc) (descendants (cc_hierarchy cc) iri False) iri s
      = Inr (Some (b, cache')) \<and> set (bm_list bm b) = ids_of c (below c iri \<union> (if s then {iri} else {})) \<and> cache_ok bm c (below c) cache'"
    unfolding ids by blast
  moreover have "require_class cc iri = Inr ()" using class_id [OF ok(1) iri] by (auto simp: require_class_def ids)
  ultimately show ?thesis using ok(2) by (fastforce simp: descendants_bitmap_def closure_ok_def)
qed

lemma ancestors_bitmap_ok:
  assumes ok: "classes_ok c" "closure_ok bm c cc" and iri: "iri \<in> class_iris c"
  shows "\<exists>b cc'. ancestors_bitmap bm cc iri s = (Inr (Some b), cc') \<and> closure_ok bm c cc'
    \<and> set (bm_list bm b) = ids_of c (above c iri \<union> (if s then {iri} else {}))
    \<and> cc_descendants cc' = cc_descendants cc \<and> cc_hierarchy cc' = cc_hierarchy cc"
proof -
  have h: "from_edges (map cd_iri (c_classes c)) (class_parents c) = Inr (cc_hierarchy cc)"
    and ids: "cc_id_by_iri cc = map (\<lambda>d. (cd_iri d, cd_cid d)) (c_classes c)"
    and cache: "cache_ok bm c (above c) (cc_ancestors cc)" using ok(2) by (simp_all add: closure_ok_def)
  obtain xs where "ancestors (cc_hierarchy cc) iri False = Inr (Some xs)" "set xs = above c iri"
    using class_walks(1) [OF ok(1) h iri] by blast
  from closure_bitmap_ok [OF ok(1) cache iri this class_rel_iris(2) [OF ok(1) h], of s]
  have "\<exists>b cache'. closure_bitmap bm (cc_id_by_iri cc) (cc_ancestors cc) (ancestors (cc_hierarchy cc) iri False) iri s
      = Inr (Some (b, cache')) \<and> set (bm_list bm b) = ids_of c (above c iri \<union> (if s then {iri} else {})) \<and> cache_ok bm c (above c) cache'"
    unfolding ids by blast
  moreover have "require_class cc iri = Inr ()" using class_id [OF ok(1) iri] by (auto simp: require_class_def ids)
  ultimately show ?thesis using ok(2) by (fastforce simp: ancestors_bitmap_def closure_ok_def)
qed

end

lemma cache_ok_delete: "cache_ok bm c R cache \<Longrightarrow> cache_ok bm c R (AList.delete x cache)"
  using set_delete_subset [of x cache] by (auto simp: cache_ok_def dict_lookup_delete)

lemma cache_ok_deletes: "cache_ok bm c R cache \<Longrightarrow> cache_ok bm c R (fold AList.delete xs cache)"
  by (induction xs arbitrary: cache) (simp_all add: cache_ok_delete)

lemma invalidate_ok:
  assumes "closure_ok bm c cc" "invalidate cc iri = (r, cc')"
  shows "closure_ok bm c cc'"
  using assms
  by (auto simp: invalidate_def closure_ok_def Let_def cache_ok_delete cache_ok_deletes
      split: option.splits sum.splits prod.splits)

section \<open>Any use of the index\<close>

datatype closure_use =
    UseDescendants string bool
  | UseAncestors string bool
  | UseIsSubclass string string bool
  | UseInvalidate "string option"
  | UseMaterialize

text \<open>The index after one call, whatever the call returned.\<close>

fun use_closure :: "'b bitmaps \<Rightarrow> closure_use \<Rightarrow> 'b class_closure \<Rightarrow> 'b class_closure" where
  "use_closure bm (UseDescendants iri s) cc = snd (descendants_bitmap bm cc iri s)"
| "use_closure bm (UseAncestors iri s) cc = snd (ancestors_bitmap bm cc iri s)"
| "use_closure bm (UseIsSubclass child parent r) cc = snd (is_subclass bm cc child parent r)"
| "use_closure bm (UseInvalidate iri) cc = snd (invalidate cc iri)"
| "use_closure bm UseMaterialize cc = snd (materialize_all bm cc)"

context bitmap_laws
begin

lemma unknown_bitmap:
  assumes "closure_ok bm c cc" "iri \<notin> class_iris c"
  shows "descendants_bitmap bm cc iri s = (raise_code ''CDB-9504'', cc)" "ancestors_bitmap bm cc iri s = (raise_code ''CDB-9504'', cc)"
proof -
  have "map_of (cc_id_by_iri cc) iri = None"
    using assms by (simp add: closure_ok_def map_of_eq_None_iff comp_def image_image)
  then show "descendants_bitmap bm cc iri s = (raise_code ''CDB-9504'', cc)" "ancestors_bitmap bm cc iri s = (raise_code ''CDB-9504'', cc)"
    by (simp_all add: descendants_bitmap_def ancestors_bitmap_def require_class_def)
qed

lemma bitmap_keeps:
  assumes "classes_ok c" "closure_ok bm c cc"
  shows "closure_ok bm c (snd (descendants_bitmap bm cc iri s))" "closure_ok bm c (snd (ancestors_bitmap bm cc iri s))"
  using assms descendants_bitmap_ok [OF assms, of iri s] ancestors_bitmap_ok [OF assms, of iri s] unknown_bitmap [OF assms(2), of iri s]
  by (cases "iri \<in> class_iris c"; force)+

lemma materialize_keeps: "classes_ok c \<Longrightarrow> closure_ok bm c cc \<Longrightarrow> closure_ok bm c (snd (materialize bm iris cc))"
proof (induction iris arbitrary: cc)
  case (Cons iri iris)
  obtain r1 cc1 where d: "descendants_bitmap bm cc iri True = (r1, cc1)" by fastforce
  obtain r2 cc2 where a: "ancestors_bitmap bm cc1 iri True = (r2, cc2)" by fastforce
  have 1: "closure_ok bm c cc1" using bitmap_keeps(1) [OF Cons.prems, of iri True] d by simp
  then have 2: "closure_ok bm c cc2" using bitmap_keeps(2) [OF Cons.prems(1), of cc1 iri True] a by simp
  from Cons.IH [OF Cons.prems(1) 2] 1 2 show ?case
    by (auto simp: d a split: sum.splits option.splits)
qed simp

lemma use_closure_ok:
  assumes "classes_ok c" "closure_ok bm c cc"
  shows "closure_ok bm c (use_closure bm u cc)"
proof (cases u)
  case (UseIsSubclass child parent r)
  obtain q cc' where d: "descendants_bitmap bm cc parent r = (q, cc')" by fastforce
  then have "closure_ok bm c cc'" using bitmap_keeps(1) [OF assms, of parent r] by simp
  with d assms(2) UseIsSubclass show ?thesis by (auto simp: is_subclass_def split: sum.splits option.splits)
next
  case (UseInvalidate iri)
  obtain q cc' where "invalidate cc iri = (q, cc')" by fastforce
  with invalidate_ok [OF assms(2)] UseInvalidate show ?thesis by simp
qed (use bitmap_keeps [OF assms] materialize_keeps [OF assms] in \<open>simp_all add: materialize_all_def\<close>)

lemma uses_closure_ok: "classes_ok c \<Longrightarrow> closure_ok bm c cc \<Longrightarrow> closure_ok bm c (fold (use_closure bm) us cc)"
  by (induction us arbitrary: cc) (simp_all add: use_closure_ok)

lemma is_subclass_ok:
  assumes ok: "classes_ok c" "closure_ok bm c cc" and child: "child \<in> class_iris c" and parent: "parent \<in> class_iris c"
  shows "fst (is_subclass bm cc child parent r) = is_subtype (cc_hierarchy cc) child parent r"
proof -
  have h: "from_edges (map cd_iri (c_classes c)) (class_parents c) = Inr (cc_hierarchy cc)"
    and ids: "cc_id_by_iri cc = map (\<lambda>d. (cd_iri d, cd_cid d)) (c_classes c)" using ok(2) by (simp_all add: closure_ok_def)
  from class_id [OF ok(1) child] obtain n where n: "map_of (cc_id_by_iri cc) child = Some n" "ids_of c {child} = {n}" unfolding ids by blast
  from descendants_bitmap_ok [OF ok parent, of r] obtain b cc' where
    b: "descendants_bitmap bm cc parent r = (Inr (Some b), cc')" "closure_ok bm c cc'"
      "set (bm_list bm b) = ids_of c (below c parent \<union> (if r then {parent} else {}))" by blast
  have "n \<in> set (bm_list bm b) \<longleftrightarrow> child \<in> below c parent \<union> (if r then {parent} else {})"
    unfolding b(3) by (rule ids_of_mem [OF ok(1) child n(2)])
  moreover have "map_of (cc_id_by_iri cc') child = Some n" using b(2) n(1) ids by (simp add: closure_ok_def)
  ultimately have "fst (is_subclass bm cc child parent r) = Inr (Some (child \<in> below c parent \<or> r \<and> child = parent))"
    using n(1) b(1) by (simp add: is_subclass_def require_class_def dict_item_def)
  moreover have "child \<in> below c parent \<longleftrightarrow> parent \<in> above c child" by (simp add: below_def above_def)
  ultimately show ?thesis using class_walks(3) [OF ok(1) h child parent, of r] by simp
qed

end

section \<open>Saving and loading\<close>

lemma rfold_update:
  assumes "\<And>k x. (k, x) \<in> set kvs \<Longrightarrow> g x = Inr (h x)"
  shows "rfold (\<lambda>(k, x) d. rbind (g x) (\<lambda>y. Inr (AList.update k y d))) kvs d = Inr (fold (\<lambda>e. AList.update (fst e) (h (snd e))) kvs d)"
  using assms
proof (induction kvs arbitrary: d)
  case (Cons e kvs)
  obtain k x where e: "e = (k, x)" by (cases e)
  have "g x = Inr (h x)" using Cons.prems [of k x] by (simp add: e)
  moreover have "rfold (\<lambda>(k, x) d. rbind (g x) (\<lambda>y. Inr (AList.update k y d))) kvs (AList.update k (h x) d)
      = Inr (fold (\<lambda>e. AList.update (fst e) (h (snd e))) kvs (AList.update k (h x) d))"
    by (rule Cons.IH) (use Cons.prems in auto)
  ultimately show ?case by (simp add: e)
qed simp

text \<open>An object written from a dictionary, with its keys sorted, is read back as an equal dictionary.\<close>

lemma read_sorted_object:
  assumes "dict_ok d" "\<And>x. g (sort_keys (f x)) = Inr x"
  shows "\<exists>d'. rfold (\<lambda>(k, x) e. rbind (g x) (\<lambda>y. Inr (AList.update k y e)))
      (sort_key fst (map (\<lambda>(k, x). (k, sort_keys x)) (map (\<lambda>(k, x). (k, f x)) d))) [] = Inr d'
    \<and> map_of d' = map_of d \<and> dict_ok d' \<and> fst ` set d' = fst ` set d"
proof -
  let ?kvs = "sort_key fst (map (\<lambda>(k, x). (k, sort_keys x)) (map (\<lambda>(k, x). (k, f x)) d))"
  let ?h = "\<lambda>x. projr (g x)"
  let ?d = "map (\<lambda>e. (fst e, ?h (snd e))) ?kvs"
  have "distinct (map fst (map (\<lambda>(k, x). (k, sort_keys x)) (map (\<lambda>(k, x). (k, f x)) d)))"
    using assms(1) by (simp add: dict_ok_def comp_def case_prod_unfold)
  moreover have "mset (map fst ?kvs) = mset (map fst (map (\<lambda>(k, x). (k, sort_keys x)) (map (\<lambda>(k, x). (k, f x)) d)))"
    by (simp add: multiset.map_comp)
  ultimately have dist: "distinct (map fst ?kvs)" by (metis mset_eq_imp_distinct_iff)
  have "rfold (\<lambda>(k, x) e. rbind (g x) (\<lambda>y. Inr (AList.update k y e))) ?kvs [] = Inr (fold (\<lambda>e. AList.update (fst e) (?h (snd e))) ?kvs [])"
    by (rule rfold_update) (use assms(2) in auto)
  also have "fold (\<lambda>e. AList.update (fst e) (?h (snd e))) ?kvs [] = ?d"
    using fold_update_distinct [of fst ?kvs "[]" "\<lambda>e. ?h (snd e)"] dist by simp
  finally have read: "rfold (\<lambda>(k, x) e. rbind (g x) (\<lambda>y. Inr (AList.update k y e))) ?kvs [] = Inr ?d" .
  have "set ?d = (\<lambda>(k, x). (k, ?h (sort_keys (f x)))) ` set d" by (simp add: image_image case_prod_unfold)
  then have set: "set ?d = set d" using assms(2) by simp
  have dist': "distinct (map fst ?d)" using dist by (simp add: comp_def)
  then have "map_of ?d = map_of d" using assms(1) set by (simp only: dict_ok_def map_of_inject_set)
  with read dist' set show ?thesis by (intro exI [of _ ?d]) (simp add: dict_ok_def)
qed

context bitmap_laws
begin

lemma materialize_total:
  "classes_ok c \<Longrightarrow> closure_ok bm c cc \<Longrightarrow> set iris \<subseteq> class_iris c
    \<Longrightarrow> \<exists>cc'. materialize bm iris cc = (Inr (Some ()), cc') \<and> closure_ok bm c cc'"
proof (induction iris arbitrary: cc)
  case (Cons iri iris)
  then have iri: "iri \<in> class_iris c" by simp
  from descendants_bitmap_ok [OF Cons.prems(1,2) iri, of True] obtain b1 cc1 where
    1: "descendants_bitmap bm cc iri True = (Inr (Some b1), cc1)" "closure_ok bm c cc1" by blast
  from ancestors_bitmap_ok [OF Cons.prems(1) 1(2) iri, of True] obtain b2 cc2 where
    2: "ancestors_bitmap bm cc1 iri True = (Inr (Some b2), cc2)" "closure_ok bm c cc2" by blast
  from Cons.IH [OF Cons.prems(1) 2(2)] Cons.prems(3) 1 2 show ?case by simp
qed simp

lemma decode_encode:
  assumes "cache_ok bm c R d" "json_get payload key (JObj []) = Inr (sort_keys (encode_bitmaps bm d))"
  shows "\<exists>d'. decode_bitmaps bm payload key = Inr d' \<and> cache_ok bm c R d'"
proof -
  have step: "(\<lambda>(iri, enc) d. case enc of JStr s \<Rightarrow> rbind (bm_from_text bm s) (\<lambda>b. Inr (AList.update iri b d)) | _ \<Rightarrow> Inl TypeError)
     = (\<lambda>(k, x) e. rbind (case x of JStr s \<Rightarrow> bm_from_text bm s | _ \<Rightarrow> Inl TypeError) (\<lambda>y. Inr (AList.update k y e)))"
    by (auto simp: fun_eq_iff split: json.splits)
  have "\<exists>d'. rfold (\<lambda>(k, x) e. rbind (case x of JStr s \<Rightarrow> bm_from_text bm s | _ \<Rightarrow> Inl TypeError) (\<lambda>y. Inr (AList.update k y e)))
      (sort_key fst (map (\<lambda>(k, x). (k, sort_keys x)) (map (\<lambda>(k, x). (k, JStr (bm_to_text bm x))) d))) [] = Inr d'
    \<and> map_of d' = map_of d \<and> dict_ok d' \<and> fst ` set d' = fst ` set d"
    by (rule read_sorted_object) (use assms(1) in \<open>simp_all add: cache_ok_def text_round_trip\<close>)
  then show ?thesis using assms
    by (auto simp: decode_bitmaps_def step encode_bitmaps_def sort_keys.simps(2) json_items_def cache_ok_def)
qed

lemma closure_from_envelope:
  assumes ok: "classes_ok c" "closure_ok bm c cc" and idx: "closure_from_catalog c = Inr (index :: 'b class_closure)"
  shows "\<exists>cc'. closure_from_entry bm (MagicFile (sort_keys (closure_envelope bm cc))) c = Inr cc' \<and> closure_ok bm c cc'"
proof -
  let ?env = "closure_envelope bm cc" and ?ids = "cc_id_by_iri cc"
  have io: "closure_ok bm c index" by (rule from_catalog_parts [OF ok(1) idx])
  have ids: "?ids = cc_id_by_iri index" "dict_ok ?ids"
    using ok io by (simp_all add: closure_ok_def classes_ok_def dict_ok_def comp_def)
  have caches: "cache_ok bm c (below c) (cc_descendants cc)" "cache_ok bm c (above c) (cc_ancestors cc)"
    using ok(2) by (simp_all add: closure_ok_def)
  have wf: "json_wf (JObj [(''encoding'', JStr CLOSURE_ENCODING), (''class_id_by_iri'', JObj (map (\<lambda>(iri, n). (iri, JInt n)) ?ids)),
      (''descendants_by_iri'', encode_bitmaps bm (cc_descendants cc)), (''ancestors_by_iri'', encode_bitmaps bm (cc_ancestors cc))])"
    using ids(2) caches by (auto simp: encode_bitmaps_def dict_ok_def cache_ok_def comp_def case_prod_unfold list_all_iff)
  have get: "json_get (sort_keys ?env) ''encoding'' JNull = Inr (JStr CLOSURE_ENCODING)"
    "json_get (sort_keys ?env) ''class_id_by_iri'' (JObj []) = Inr (sort_keys (JObj (map (\<lambda>(iri, n). (iri, JInt n)) ?ids)))"
    "json_get (sort_keys ?env) ''descendants_by_iri'' (JObj []) = Inr (sort_keys (encode_bitmaps bm (cc_descendants cc)))"
    "json_get (sort_keys ?env) ''ancestors_by_iri'' (JObj []) = Inr (sort_keys (encode_bitmaps bm (cc_ancestors cc)))"
    unfolding closure_envelope_def sort_keys_item(2) [OF wf] by simp_all
  have "\<exists>d'. rfold (\<lambda>(k, x) e. rbind (json_int x) (\<lambda>y. Inr (AList.update k y e)))
      (sort_key fst (map (\<lambda>(k, x). (k, sort_keys x)) (map (\<lambda>(k, x). (k, JInt x)) ?ids))) [] = Inr d'
    \<and> map_of d' = map_of ?ids \<and> dict_ok d' \<and> fst ` set d' = fst ` set ?ids"
    by (rule read_sorted_object) (simp_all add: ids(2))
  then obtain stored where stored: "rfold (\<lambda>(k, x) e. rbind (json_int x) (\<lambda>y. Inr (AList.update k y e)))
      (sort_key fst (map (\<lambda>(k, x). (k, sort_keys x)) (map (\<lambda>(k, x). (k, JInt x)) ?ids))) [] = Inr stored" "map_of stored = map_of ?ids"
    by blast
  obtain down up where "decode_bitmaps bm (sort_keys ?env) ''descendants_by_iri'' = Inr down" "cache_ok bm c (below c) down"
    "decode_bitmaps bm (sort_keys ?env) ''ancestors_by_iri'' = Inr up" "cache_ok bm c (above c) up"
    using decode_encode [OF caches(1) get(3)] decode_encode [OF caches(2) get(4)] by blast
  moreover have "same_dict stored (cc_id_by_iri index)" using stored(2) ids(1) by (simp add: same_dict_def)
  ultimately show ?thesis using get(1,2) stored(1) io
    by (auto simp: closure_from_entry_def idx sort_keys.simps(2) json_items_def closure_ok_def)
qed

lemma save_load:
  assumes ok: "classes_ok c" "closure_ok bm c cc" and idx: "closure_from_catalog c = Inr (index :: 'b class_closure)"
    and wr: "writable fs (bundle_child bnd [''closure'', CLASS_CLOSURE_FILE])"
  shows "\<exists>cc1 fs' cc2. save_class_closure bm fs bnd cc = (Inr (Some (bundle_child bnd [''closure'', CLASS_CLOSURE_FILE])), cc1, fs')
    \<and> load_class_closure bm fs' bnd c = Inr cc2 \<and> closure_ok bm c cc2 \<and> closure_ok bm c cc1"
proof -
  let ?p = "bundle_child bnd [''closure'', CLASS_CLOSURE_FILE]"
  from wr obtain fs1 where fs1: "mkdirs fs [] (butlast ?p) = Inr fs1" by (auto simp: writable_def)
  have "h_nodes (cc_hierarchy cc) = map cd_iri (c_classes c)"
    using class_walks(4) [OF ok(1)] ok(2) from_edges_cases [of "map cd_iri (c_classes c)" "class_parents c"] dict_ok_class_parents [OF ok(1)] ok(1)
    by (auto simp: closure_ok_def classes_ok_def split: if_splits)
  then obtain cc1 where mat: "materialize_all bm cc = (Inr (Some ()), cc1)" "closure_ok bm c cc1"
    using materialize_total [OF ok, of "map cd_iri (c_classes c)"] by (auto simp: materialize_all_def)
  let ?f = "MagicFile (sort_keys (closure_envelope bm cc1))"
  have "writable fs1 ?p"
    using wr fs1 by (auto simp: writable_def mkdirs_parent mkdirs_idem)
  then obtain fs' where w: "write_file_atomic ?f fs1 ?p = (Inr (), fs')" using writable_write by blast
  have ne: "?p \<noteq> []" by (simp add: bundle_child_def)
  have at: "fs' ?p = Some ?f" by (rule write_file_atomic_read [OF w ne])
  obtain cc2 where "closure_from_entry bm ?f c = Inr cc2" "closure_ok bm c cc2"
    using closure_from_envelope [OF ok(1) mat(2) idx] by blast
  with fs1 mat w at show ?thesis
    by (simp add: save_class_closure_def closure_write_atomic_def load_class_closure_def closure_read_def
        path_exists_def is_file_def Let_def)
qed

end

section \<open>Properties\<close>

text \<open>
  C30: the closure cache is transparent. After any sequence of bitmap queries, subclass tests,
  invalidations and materialisations on an index built from a catalogue, a subclass test on the
  bitmaps returns what the hierarchy's own \<open>is_subtype\<close> returns.
\<close>

theorem is_subclass_is_subtype:
  assumes "bitmap_laws bm" "classes_ok c" "closure_from_catalog c = Inr cc"
    and "child \<in> class_iris c" "parent \<in> class_iris c"
  shows "fst (is_subclass bm (fold (use_closure bm) us cc) child parent reflexive) = is_subtype (cc_hierarchy cc) child parent reflexive"
proof -
  have ok: "closure_ok bm c cc" by (rule from_catalog_parts [OF assms(2,3)])
  then have ok': "closure_ok bm c (fold (use_closure bm) us cc)"
    using bitmap_laws.uses_closure_ok [OF assms(1,2)] by blast
  then have "cc_hierarchy (fold (use_closure bm) us cc) = cc_hierarchy cc" using ok by (simp add: closure_ok_def)
  with bitmap_laws.is_subclass_ok [OF assms(1,2) ok' assms(4,5)] show ?thesis by simp
qed

definition sample_class :: "int \<Rightarrow> string \<Rightarrow> string list \<Rightarrow> class_def" where
  "sample_class cid iri ps = \<lparr>cd_cid = cid, cd_iri = iri, cd_local_name = None, cd_superclass_iris = ps, cd_fields = [], cd_doc = None\<rparr>"

definition sample_classes :: catalog where
  "sample_classes = (catalog_empty [] None)\<lparr>c_classes := [sample_class 7 ''A'' [], sample_class 3 ''B'' [''A''], sample_class 5 ''C'' [''B'']]\<rparr>"

lemma sample_classes_ok: "classes_ok sample_classes"
  by (simp add: classes_ok_def sample_classes_def sample_class_def u32_def)

lemma sample_closure: "\<exists>cc. closure_from_catalog sample_classes = Inr cc"
proof -
  have "\<not> (case ontology_hierarchy_from_catalog sample_classes of Inl _ \<Rightarrow> True | Inr _ \<Rightarrow> False)" by code_simp
  then show ?thesis by (auto simp: closure_from_catalog_def Let_def split: sum.splits)
qed

theorem is_subclass_is_subtype_witness:
  "\<exists>cc. closure_from_catalog sample_classes = Inr cc
    \<and> fst (is_subclass bitmap_lists (fold (use_closure bitmap_lists) [UseMaterialize, UseInvalidate (Some ''B'')] cc) ''C'' ''A'' True)
      = is_subtype (cc_hierarchy cc) ''C'' ''A'' True"
proof -
  obtain cc where cc: "closure_from_catalog sample_classes = Inr (cc :: int list class_closure)" using sample_closure by blast
  have "''C'' \<in> class_iris sample_classes" "''A'' \<in> class_iris sample_classes"
    by (simp_all add: sample_classes_def sample_class_def)
  from is_subclass_is_subtype [OF bitmap_lists.bitmap_laws_axioms sample_classes_ok cc this] cc show ?thesis by blast
qed

text \<open>
  A saved closure index loads as an index for the same catalogue that answers every subclass
  test as the hierarchy does.
\<close>

theorem closure_save_load:
  assumes "bitmap_laws bm" "classes_ok c" "closure_from_catalog c = Inr cc"
    and "writable fs (bundle_child bnd [''closure'', CLASS_CLOSURE_FILE])"
    and "child \<in> class_iris c" "parent \<in> class_iris c"
  shows "\<exists>cc1 fs' cc2. save_class_closure bm fs bnd (fold (use_closure bm) us cc)
        = (Inr (Some (bundle_child bnd [''closure'', CLASS_CLOSURE_FILE])), cc1, fs')
    \<and> load_class_closure bm fs' bnd c = Inr cc2
    \<and> fst (is_subclass bm cc2 child parent reflexive) = is_subtype (cc_hierarchy cc) child parent reflexive"
proof -
  have ok: "closure_ok bm c cc" by (rule from_catalog_parts [OF assms(2,3)])
  then have ok': "closure_ok bm c (fold (use_closure bm) us cc)"
    using bitmap_laws.uses_closure_ok [OF assms(1,2)] by blast
  from bitmap_laws.save_load [OF assms(1,2) ok' assms(3,4)] obtain cc1 fs' cc2 where
    l: "save_class_closure bm fs bnd (fold (use_closure bm) us cc)
        = (Inr (Some (bundle_child bnd [''closure'', CLASS_CLOSURE_FILE])), cc1, fs')"
      "load_class_closure bm fs' bnd c = Inr cc2" "closure_ok bm c cc2" by blast
  have "cc_hierarchy cc2 = cc_hierarchy cc" using ok l(3) by (simp add: closure_ok_def)
  with bitmap_laws.is_subclass_ok [OF assms(1,2) l(3) assms(5,6)] l(1,2) show ?thesis by auto
qed

theorem closure_save_load_witness:
  "\<exists>cc cc1 fs' cc2. closure_from_catalog sample_classes = Inr cc
    \<and> save_class_closure bitmap_lists (\<lambda>_. None) \<lparr>b_path = [''b.crcl''], b_manifest = manifest_empty []\<rparr> cc
        = (Inr (Some [''b.crcl'', ''closure'', CLASS_CLOSURE_FILE]), cc1, fs')
    \<and> load_class_closure bitmap_lists fs' \<lparr>b_path = [''b.crcl''], b_manifest = manifest_empty []\<rparr> sample_classes = Inr cc2
    \<and> fst (is_subclass bitmap_lists cc2 ''C'' ''A'' True) = is_subtype (cc_hierarchy cc) ''C'' ''A'' True"
proof -
  let ?b = "\<lparr>b_path = [''b.crcl''], b_manifest = manifest_empty []\<rparr>"
  obtain cc where cc: "closure_from_catalog sample_classes = Inr (cc :: int list class_closure)" using sample_closure by blast
  have iris: "''C'' \<in> class_iris sample_classes" "''A'' \<in> class_iris sample_classes"
    by (simp_all add: sample_classes_def sample_class_def)
  have p: "bundle_child ?b [''closure'', CLASS_CLOSURE_FILE] = [''b.crcl'', ''closure'', CLASS_CLOSURE_FILE]"
    by (simp add: bundle_child_def)
  have "writable (\<lambda>_. None) (bundle_child ?b [''closure'', CLASS_CLOSURE_FILE])" unfolding p by (simp add: writable_def)
  from closure_save_load [OF bitmap_lists.bitmap_laws_axioms sample_classes_ok cc this iris, of "[]" True] cc p show ?thesis by fastforce
qed

end
