(* ===== verification/Procedure.thy ===== *)
theory Procedure
  imports Prelude
begin

text \<open>
  Procedures (\<open>lang/proc.py\<close>): the steps, their executor with the bounded \<open>WHILE\<close>, and binding
  the arguments. The callables of a step are functions that may change the context and may raise.
\<close>

section \<open>The executor\<close>

record 'v procedure_context =
  variables :: "(string, 'v) dict"
  metadata :: "(string, 'v) dict"

type_synonym ('v, 'r) callable = "'v procedure_context \<Rightarrow> 'r result \<times> 'v procedure_context"

datatype 'v step =
    CallStep "('v, unit) callable"
  | AssignStep string "('v, 'v) callable"
  | IfStep "('v, bool) callable" "'v step list" "'v step list"
  | ForStep string "('v, 'v list) callable" "'v step list"
  | WhileStep "('v, bool) callable" "'v step list" int

text \<open>The loop of a \<open>ForStep\<close>, and of a \<open>WhileStep\<close> that may still iterate \<open>n\<close> times.\<close>

fun for_loop :: "string \<Rightarrow> ('v, unit) callable \<Rightarrow> 'v list \<Rightarrow> ('v, unit) callable" where
  "for_loop var body [] ctx = (Inr (), ctx)"
| "for_loop var body (v # vs) ctx =
     (case body (ctx\<lparr>variables := AList.update var v (variables ctx)\<rparr>) of
        (Inl e, ctx') \<Rightarrow> (Inl e, ctx')
      | (Inr _, ctx') \<Rightarrow> for_loop var body vs ctx')"

fun while_loop :: "('v, bool) callable \<Rightarrow> ('v, unit) callable \<Rightarrow> nat \<Rightarrow> ('v, unit) callable" where
  "while_loop pred body 0 ctx =
     (case pred ctx of
        (Inl e, ctx') \<Rightarrow> (Inl e, ctx')
      | (Inr False, ctx') \<Rightarrow> (Inr (), ctx')
      | (Inr True, ctx') \<Rightarrow> (raise_code ''CDB-6141'', ctx'))"
| "while_loop pred body (Suc n) ctx =
     (case pred ctx of
        (Inl e, ctx') \<Rightarrow> (Inl e, ctx')
      | (Inr False, ctx') \<Rightarrow> (Inr (), ctx')
      | (Inr True, ctx') \<Rightarrow>
          (case body ctx' of
             (Inl e, ctx'') \<Rightarrow> (Inl e, ctx'')
           | (Inr _, ctx'') \<Rightarrow> while_loop pred body n ctx''))"

fun exec_step :: "'v step \<Rightarrow> ('v, unit) callable" and execute :: "'v step list \<Rightarrow> ('v, unit) callable" where
  "exec_step (CallStep fn) ctx = fn ctx"
| "exec_step (AssignStep var expr) ctx =
     (case expr ctx of
        (Inl e, ctx') \<Rightarrow> (Inl e, ctx')
      | (Inr v, ctx') \<Rightarrow> (Inr (), ctx'\<lparr>variables := AList.update var v (variables ctx')\<rparr>))"
| "exec_step (IfStep pred then_steps else_steps) ctx =
     (case pred ctx of
        (Inl e, ctx') \<Rightarrow> (Inl e, ctx')
      | (Inr True, ctx') \<Rightarrow> execute then_steps ctx'
      | (Inr False, ctx') \<Rightarrow> execute else_steps ctx')"
| "exec_step (ForStep var iterable body) ctx =
     (case iterable ctx of
        (Inl e, ctx') \<Rightarrow> (Inl e, ctx')
      | (Inr vs, ctx') \<Rightarrow> for_loop var (execute body) vs ctx')"
| "exec_step (WhileStep pred body max_iterations) ctx =
     while_loop pred (execute body) (nat max_iterations) ctx"
| "execute [] ctx = (Inr (), ctx)"
| "execute (s # ss) ctx =
     (case exec_step s ctx of
        (Inl e, ctx') \<Rightarrow> (Inl e, ctx')
      | (Inr _, ctx') \<Rightarrow> execute ss ctx')"

record 'v procedure =
  p_name :: string
  p_params :: "string list"
  p_steps :: "'v step list"

definition procedure_run ::
  "'v procedure \<Rightarrow> (string, 'v) dict option \<Rightarrow> unit result \<times> 'v procedure_context" where
  "procedure_run p args =
     (let ctx = \<lparr>variables = [], metadata = []\<rparr>;
          given = (case args of None \<Rightarrow> [] | Some a \<Rightarrow> a)
      in
      if \<exists>k \<in> set (dict_keys given). k \<notin> set (p_params p) then (raise_code ''CDB-6140'', ctx)
      else
        let ctx' = ctx\<lparr>variables := fold (\<lambda>(k, v). AList.update k v) given (variables ctx)\<rparr> in
        if \<exists>k \<in> set (p_params p). map_of (variables ctx') k = None then (raise_code ''CDB-6140'', ctx')
        else execute (p_steps p) ctx')"

section \<open>Unbounded semantics\<close>

text \<open>
  The meaning of a step list without the iteration limit: a run that ends without an exception.
  Loops over a sequence are unfolded; \<open>WHILE\<close> repeats as long as its predicate holds.
\<close>

inductive runs :: "'v step list \<Rightarrow> 'v procedure_context \<Rightarrow> 'v procedure_context \<Rightarrow> bool"
  and runs_for :: "string \<Rightarrow> 'v step list \<Rightarrow> 'v list \<Rightarrow> 'v procedure_context \<Rightarrow> 'v procedure_context \<Rightarrow> bool"
  and runs_while :: "('v, bool) callable \<Rightarrow> 'v step list \<Rightarrow> 'v procedure_context \<Rightarrow> 'v procedure_context \<Rightarrow> bool" where
  nil: "runs [] c c"
| call: "fn c = (Inr u, c1) \<Longrightarrow> runs ss c1 c2 \<Longrightarrow> runs (CallStep fn # ss) c c2"
| assign: "expr c = (Inr v, c1) \<Longrightarrow> runs ss (c1\<lparr>variables := AList.update x v (variables c1)\<rparr>) c2
    \<Longrightarrow> runs (AssignStep x expr # ss) c c2"
| if_true: "pred c = (Inr True, c1) \<Longrightarrow> runs ts c1 c2 \<Longrightarrow> runs ss c2 c3 \<Longrightarrow> runs (IfStep pred ts es # ss) c c3"
| if_false: "pred c = (Inr False, c1) \<Longrightarrow> runs es c1 c2 \<Longrightarrow> runs ss c2 c3 \<Longrightarrow> runs (IfStep pred ts es # ss) c c3"
| for_step: "it c = (Inr vs, c1) \<Longrightarrow> runs_for x body vs c1 c2 \<Longrightarrow> runs ss c2 c3 \<Longrightarrow> runs (ForStep x it body # ss) c c3"
| while_step: "runs_while pred body c c1 \<Longrightarrow> runs ss c1 c2 \<Longrightarrow> runs (WhileStep pred body m # ss) c c2"
| for_nil: "runs_for x body [] c c"
| for_cons: "runs body (c\<lparr>variables := AList.update x v (variables c)\<rparr>) c1 \<Longrightarrow> runs_for x body vs c1 c2
    \<Longrightarrow> runs_for x body (v # vs) c c2"
| while_done: "pred c = (Inr False, c1) \<Longrightarrow> runs_while pred body c c1"
| while_more: "pred c = (Inr True, c1) \<Longrightarrow> runs body c1 c2 \<Longrightarrow> runs_while pred body c2 c3 \<Longrightarrow> runs_while pred body c c3"

inductive_cases runs_ConsE: "runs (s # ss) c c'"
inductive_cases runs_NilE: "runs [] c c'"

text \<open>The outcome the executor may show for a run that ends in \<open>c\<close>.\<close>

definition ends_or_limit :: "unit result \<times> 'v procedure_context \<Rightarrow> 'v procedure_context \<Rightarrow> bool" where
  "ends_or_limit r c \<longleftrightarrow> r = (Inr (), c) \<or> fst r = raise_code ''CDB-6141''"

lemma runs_executes:
  "runs ss c c' \<Longrightarrow> ends_or_limit (execute ss c) c'"
  "runs_for x body vs c c' \<Longrightarrow> ends_or_limit (for_loop x (execute body) vs c) c'"
  "runs_while pred body c c' \<Longrightarrow> \<forall>n. ends_or_limit (while_loop pred (execute body) n c) c'"
proof (induction rule: runs_runs_for_runs_while.inducts)
  case (while_done pred c c1 body)
  show ?case
  proof
    fix n show "ends_or_limit (while_loop pred (execute body) n c) c1"
      using while_done by (cases n) (simp_all add: ends_or_limit_def)
  qed
next
  case (while_more pred c c1 body c2 c3)
  show ?case
  proof
    fix n show "ends_or_limit (while_loop pred (execute body) n c) c3"
      using while_more by (cases n) (auto simp: ends_or_limit_def split: prod.splits sum.splits)
  qed
next
  case (while_step pred body c c1 ss c2 m)
  from while_step.IH(1) have "ends_or_limit (while_loop pred (execute body) (nat m) c) c1" by blast
  with while_step.IH(2) show ?case by (auto simp: ends_or_limit_def split: prod.splits sum.splits)
qed (auto simp: ends_or_limit_def split: prod.splits sum.splits)

lemma for_loop_runs:
  "for_loop x (execute body) vs c = (Inr (), c') \<Longrightarrow> (\<And>c c'. execute body c = (Inr (), c') \<Longrightarrow> runs body c c')
    \<Longrightarrow> runs_for x body vs c c'"
  by (induction vs arbitrary: c) (auto intro: for_nil for_cons split: prod.splits sum.splits)

lemma while_loop_runs:
  "while_loop pred (execute body) n c = (Inr (), c') \<Longrightarrow> (\<And>c c'. execute body c = (Inr (), c') \<Longrightarrow> runs body c c')
    \<Longrightarrow> runs_while pred body c c'"
  by (induction n arbitrary: c)
    (auto intro: while_done while_more split: prod.splits sum.splits bool.splits)

lemma executes_runs:
  "exec_step s c = (Inr (), c1) \<Longrightarrow> (\<And>ss c2. runs ss c1 c2 \<Longrightarrow> runs (s # ss) c c2)"
  "execute ss c = (Inr (), c1) \<Longrightarrow> runs ss c c1"
proof (induction s c and ss c arbitrary: c1 and c1 rule: exec_step_execute.induct)
  case (3 pred ts es ctx)
  then show ?case by (auto intro: if_true if_false split: prod.splits sum.splits bool.splits)
next
  case (4 var iterable body ctx)
  then show ?case
    by (auto intro!: for_step for_loop_runs split: prod.splits sum.splits)
next
  case (5 pred body m ctx)
  then show ?case by (auto intro!: while_step while_loop_runs)
qed (auto intro: nil call assign split: prod.splits sum.splits)

section \<open>Properties\<close>


text \<open>A counter that a loop raises to three.\<close>

definition count_to_three :: "int \<Rightarrow> int step list" where
  "count_to_three limit =
     [AssignStep ''i'' (\<lambda>c. (Inr 0, c)),
      WhileStep (\<lambda>c. (case map_of (variables c) ''i'' of Some v \<Rightarrow> Inr (v < 3) | None \<Rightarrow> Inl KeyError, c))
        [AssignStep ''i'' (\<lambda>c. (case map_of (variables c) ''i'' of Some v \<Rightarrow> Inr (v + 1) | None \<Rightarrow> Inl KeyError, c))] limit]"


end
