(* ===== verification/Graph_Data.thy ===== *)
theory Graph_Data
  imports Edge_Store Node_Store Catalog
begin

text \<open>
  The graph a \<open>Database\<close> traverses (\<open>api.py\<close>): edge tables with their process-wide cache, the
  typed adjacency built from them, the lookup of nodes by identifier, and the resolution of
  node references. Values of table cells are the cells of Arrow.
\<close>

section \<open>Parameters\<close>

text \<open>
  The comparison kernels of \<open>pyarrow.compute\<close> by name, the modification time of a file, the names in
  a directory, \<open>str\<close> of a cell, \<open>json.dumps\<close> of a property dictionary with sorted keys, and
  arithmetic on Python floats. A float is an element of a linear order: NaN is left out.
\<close>

record ('v, 'f) graph_lib =
  gl_compare :: "string \<Rightarrow> 'v cell list \<Rightarrow> 'v cell \<Rightarrow> mask result"
  gl_mtime :: "path \<Rightarrow> int"
  gl_iterdir :: "fs \<Rightarrow> path \<Rightarrow> string list"
  gl_str :: "'v cell \<Rightarrow> string"
  gl_dumps :: "(string, 'v cell) dict \<Rightarrow> string"
  gl_float :: "'v cell \<Rightarrow> 'f result"
  gl_zero :: 'f
  gl_one :: 'f
  gl_neg :: "'f \<Rightarrow> 'f"
  gl_sum :: "'f list \<Rightarrow> 'f"
  gl_mult :: "'f \<Rightarrow> 'f \<Rightarrow> 'f"
  gl_div_int :: "'f \<Rightarrow> nat \<Rightarrow> 'f"

section \<open>Rows\<close>

type_synonym 'v row = "(string, 'v cell) dict"

definition row_get :: "'v row \<Rightarrow> string \<Rightarrow> 'v cell" where
  "row_get row k = (case map_of row k of None \<Rightarrow> CNull | Some v \<Rightarrow> v)"

definition row_item :: "'v row \<Rightarrow> string \<Rightarrow> 'v cell result" where
  "row_item row k = (case map_of row k of None \<Rightarrow> Inl KeyError | Some v \<Rightarrow> Inr v)"

definition int_of_cell :: "'v cell \<Rightarrow> int result" where
  "int_of_cell c = (case c of CInt i \<Rightarrow> Inr i | _ \<Rightarrow> Inl TypeError)"

definition row_int :: "'v row \<Rightarrow> string \<Rightarrow> int result" where
  "row_int row k = rbind (row_item row k) int_of_cell"

text \<open>\<open>Table.to_pylist\<close>, and the column \<open>table[name]\<close>.\<close>

definition batch_pylist :: "'v batch \<Rightarrow> 'v row list" where
  "batch_pylist b =
     map (\<lambda>i. fold (\<lambda>(n, a). AList.update n (cells a ! i)) (zip (names (bschema b)) (bcols b)) []) [0..<brows b]"

definition table_pylist :: "'v table \<Rightarrow> 'v row list" where
  "table_pylist t = concat (map batch_pylist (tbatches t))"

definition table_column :: "'v table \<Rightarrow> string \<Rightarrow> 'v cell list result" where
  "table_column t nm =
     (if nm \<in> set (names (tschema t)) then Inr (concat (map (\<lambda>b. cells (col b nm)) (tbatches t))) else Inl KeyError)"

section \<open>The database\<close>

record 'v node_info =
  ni_node_id :: "'v cell"
  ni_node_type :: "string option"
  ni_row :: "'v row"

text \<open>
  \<open>db_edge_tables\<close> is the process-wide dictionary \<open>_PROCESS_GLOBAL_BUFFER_POOL\<close>; the other two
  caches belong to the database object.
\<close>

record 'v graph_db =
  db_bundle :: crcl_bundle
  db_catalog :: catalog
  db_fs :: fs
  db_edge_tables :: "(path \<times> string \<times> int, 'v table) dict"
  db_node_lookups :: "(string, (int, 'v node_info) dict) dict"
  db_id_maps :: "(string, ('v cell, int) dict) dict"

definition INTERNAL_GID_COLUMN :: string where "INTERNAL_GID_COLUMN = ''_cdb_gid''"

text \<open>\<open>local_name or _local(iri)\<close>.\<close>

definition local_or :: "string option \<Rightarrow> string \<Rightarrow> string" where
  "local_or local_name iri = (case local_name of Some (c # cs) \<Rightarrow> c # cs | _ \<Rightarrow> local_name_of iri)"

definition find_class :: "catalog \<Rightarrow> string \<Rightarrow> class_def result" where
  "find_class c iri =
     (case class_by_iri c iri of
        Some d \<Rightarrow> Inr d
      | None \<Rightarrow>
          (case find (\<lambda>d. local_or (cd_local_name d) (cd_iri d) = iri) (c_classes c) of
             Some d \<Rightarrow> Inr d
           | None \<Rightarrow> raise_code ''CDB-6021''))"

definition find_property_by_local_name :: "catalog \<Rightarrow> string \<Rightarrow> property_def option" where
  "find_property_by_local_name c nm = find (\<lambda>d. local_or (pd_local_name d) (pd_iri d) = nm) (c_properties c)"

text \<open>The listing of the stores of a bundle, \<open>kind\<close> being \<open>nodes\<close> or \<open>edges\<close>.\<close>

definition list_stores :: "('v, 'f) graph_lib \<Rightarrow> fs \<Rightarrow> crcl_bundle \<Rightarrow> string \<Rightarrow> string list" where
  "list_stores gl fs bnd kind =
     (let root = bundle_child bnd [kind] in
      if \<not> is_dir fs root then []
      else sort (filter (\<lambda>n. is_dir fs (root @ [n])) (gl_iterdir gl fs root)))"

text \<open>The store of a class found by its name.\<close>

definition open_class_store :: "fs \<Rightarrow> crcl_bundle \<Rightarrow> class_def \<Rightarrow> node_store result" where
  "open_class_store fs bnd d =
     fst (open_node_store fs bnd (cd_iri d) (local_or (cd_local_name d) (cd_iri d)) False ''none'')"

section \<open>Edge tables\<close>

definition NO_EDGES :: "'v table" where
  "NO_EDGES = \<lparr>tschema = map (\<lambda>n. \<lparr>fld_name = n, fld_type = ''null'', fld_nullable = True\<rparr>) [''src'', ''dst'', ''eid''],
               tbatches = []\<rparr>"

text \<open>The modification time in the key of the cache, 0 when \<open>os.stat\<close> fails.\<close>

definition edge_table_key :: "('v, 'f) graph_lib \<Rightarrow> 'v graph_db \<Rightarrow> string \<Rightarrow> path \<times> string \<times> int" where
  "edge_table_key gl db relation =
     (let bundle_key = b_path (db_bundle db);
          p = bundle_key @ [''edges'', relation, ''data.arrow''];
          mtime = (if path_exists (db_fs db) p then gl_mtime gl p else 0)
      in (bundle_key, relation, mtime))"

definition get_arrow_table ::
  "'v arrow \<Rightarrow> ('v, 'f) graph_lib \<Rightarrow> 'v graph_db \<Rightarrow> string \<Rightarrow> 'v table result \<times> 'v graph_db" where
  "get_arrow_table ar gl db relation =
     (let cache_key = edge_table_key gl db relation in
      case map_of (db_edge_tables db) cache_key of
        Some t \<Rightarrow> (Inr t, db)
      | None \<Rightarrow>
          (case find_property_by_local_name (db_catalog db) relation of
             None \<Rightarrow> (Inr NO_EDGES, db)
           | Some p \<Rightarrow>
               (case rbind (fst (open_edge_store (db_fs db) (db_bundle db) (pd_iri p)
                                  (local_or (pd_local_name p) (pd_iri p)) None None False ''none''))
                       (\<lambda>st. edge_to_table ar (db_fs db) st None None)
                of
                  Inl e \<Rightarrow> (Inl e, db)
                | Inr t \<Rightarrow> (Inr t, db\<lparr>db_edge_tables := AList.update cache_key t (db_edge_tables db)\<rparr>))))"

section \<open>Adjacency\<close>

record 'v graph_step =
  gs_edge_id :: int
  gs_edge_type :: string
  gs_src :: int
  gs_dst :: int
  gs_properties :: "'v row"
  gs_next :: int
  gs_direction :: string

type_synonym 'v adjacency = "(int, 'v graph_step list) dict"

definition adj_get :: "'v adjacency \<Rightarrow> int \<Rightarrow> 'v graph_step list" where
  "adj_get adj v = (case map_of adj v of None \<Rightarrow> [] | Some ss \<Rightarrow> ss)"

text \<open>The column and the kernel a filter name stands for.\<close>

definition ends_with :: "string \<Rightarrow> string \<Rightarrow> bool" where
  "ends_with sfx s \<longleftrightarrow> length sfx \<le> length s \<and> drop (length s - length sfx) s = sfx"

definition filter_op :: "string \<Rightarrow> string \<times> string" where
  "filter_op k =
     (if ends_with ''_eq'' k then (take (length k - 3) k, ''equal'')
      else if ends_with ''_gte'' k then (take (length k - 4) k, ''greater_equal'')
      else if ends_with ''_lte'' k then (take (length k - 4) k, ''less_equal'')
      else if ends_with ''_gt'' k then (take (length k - 3) k, ''greater'')
      else if ends_with ''_lt'' k then (take (length k - 3) k, ''less'')
      else (k, ''equal''))"

definition filter_mask ::
  "'v arrow \<Rightarrow> ('v, 'f) graph_lib \<Rightarrow> 'v table \<Rightarrow> 'v row \<Rightarrow> mask option result" where
  "filter_mask ar gl t filters =
     rfold (\<lambda>(k, v) mask.
       (case filter_op k of (column, op) \<Rightarrow>
          rbind (table_column t column) (\<lambda>cs.
          rbind (gl_compare gl op cs v) (\<lambda>m.
          case mask of None \<Rightarrow> Inr (Some m) | Some m0 \<Rightarrow> rbind (pc_and ar m0 m) (\<lambda>m'. Inr (Some m')))))) filters None"

text \<open>\<open>adjacency.setdefault(v, []).append(s)\<close>.\<close>

definition add_step :: "int \<Rightarrow> 'v graph_step \<Rightarrow> 'v adjacency \<Rightarrow> 'v adjacency" where
  "add_step v s adj = AList.update v (adj_get adj v @ [s]) adj"

definition BASE_COLUMNS :: "string list" where
  "BASE_COLUMNS = [''eid'', ''src'', ''dst'', ''_created_lsn'', ''_deleted_lsn'']"

definition add_row :: "string \<Rightarrow> string \<Rightarrow> 'v row \<Rightarrow> 'v adjacency \<Rightarrow> 'v adjacency result" where
  "add_row relation direction row adj =
     rbind (row_int row ''src'') (\<lambda>src.
     rbind (row_int row ''dst'') (\<lambda>dst.
     rbind (row_int row ''eid'') (\<lambda>eid.
     let props = filter (\<lambda>(k, v). k \<notin> set BASE_COLUMNS) row;
         s = (\<lambda>nxt dir. \<lparr>gs_edge_id = eid, gs_edge_type = relation, gs_src = src, gs_dst = dst,
                         gs_properties = props, gs_next = nxt, gs_direction = dir\<rparr>);
         adj1 = (if direction \<in> {''out'', ''both''} then add_step src (s dst ''out'') adj else adj);
         adj2 = (if direction \<in> {''in'', ''both''} then add_step dst (s src ''in'') adj1 else adj1)
     in Inr adj2)))"

text \<open>The loop over the relations.\<close>

fun load_relations ::
  "'v arrow \<Rightarrow> ('v, 'f) graph_lib \<Rightarrow> string \<Rightarrow> 'v row \<Rightarrow> string list \<Rightarrow> 'v adjacency \<Rightarrow> 'v graph_db
    \<Rightarrow> 'v adjacency result \<times> 'v graph_db" where
  "load_relations ar gl direction filters [] adj db = (Inr adj, db)"
| "load_relations ar gl direction filters (relation # relations) adj db =
     (case get_arrow_table ar gl db relation of
        (Inl e, db') \<Rightarrow> (Inl e, db')
      | (Inr t, db') \<Rightarrow>
          if table_rows t = 0 then load_relations ar gl direction filters relations adj db'
          else
            (case rbind (filter_mask ar gl t filters) (\<lambda>mask.
                  rfold (add_row relation direction)
                    (case mask of None \<Rightarrow> table_pylist t | Some m \<Rightarrow> keep m (table_pylist t)) adj)
             of
               Inl e \<Rightarrow> (Inl e, db')
             | Inr adj' \<Rightarrow> load_relations ar gl direction filters relations adj' db'))"

definition edge_numeric_property :: "('v, 'f) graph_lib \<Rightarrow> 'v graph_step \<Rightarrow> string \<Rightarrow> 'f result" where
  "edge_numeric_property gl s property_name =
     (case row_get (gs_properties s) property_name of CNull \<Rightarrow> Inr (gl_zero gl) | c \<Rightarrow> gl_float gl c)"

definition sort_steps ::
  "('v, 'f::linorder) graph_lib \<Rightarrow> string option \<Rightarrow> 'v graph_step list \<Rightarrow> 'v graph_step list result" where
  "sort_steps gl order_by steps =
     (case order_by of
        None \<Rightarrow> Inr (sort_key (\<lambda>s. (gs_edge_type s, gs_edge_id s, gs_next s)) steps)
      | Some p \<Rightarrow>
          rbind (rmap (\<lambda>s. rbind (edge_numeric_property gl s p) (\<lambda>w. Inr (gl_neg gl w, s))) steps) (\<lambda>keyed.
          Inr (map snd (sort_key (\<lambda>(w, s). (w, gs_edge_type s, gs_edge_id s, gs_next s)) keyed))))"

definition typed_adjacency ::
  "'v arrow \<Rightarrow> ('v, 'f::linorder) graph_lib \<Rightarrow> 'v graph_db \<Rightarrow> string list \<Rightarrow> string \<Rightarrow> 'v row \<Rightarrow> string option \<Rightarrow> int option
    \<Rightarrow> 'v adjacency result \<times> 'v graph_db" where
  "typed_adjacency ar gl db edge_types direction filters order_by top_per_node =
     (case load_relations ar gl direction filters edge_types [] db of
        (Inl e, db') \<Rightarrow> (Inl e, db')
      | (Inr adj, db') \<Rightarrow>
          (rmap (\<lambda>(v, steps).
             rbind (sort_steps gl order_by steps) (\<lambda>sorted_steps.
             Inr (v, case top_per_node of None \<Rightarrow> sorted_steps | Some k \<Rightarrow> take (nat k) sorted_steps))) adj, db'))"

section \<open>Nodes\<close>

definition fallback_node_info :: "int \<Rightarrow> 'v node_info" where
  "fallback_node_info gid = \<lparr>ni_node_id = CInt gid, ni_node_type = None, ni_row = []\<rparr>"

definition node_info_at :: "(int, 'v node_info) dict \<Rightarrow> int \<Rightarrow> 'v node_info" where
  "node_info_at d gid = (case map_of d gid of None \<Rightarrow> fallback_node_info gid | Some i \<Rightarrow> i)"

definition lookup_row ::
  "string \<Rightarrow> string \<Rightarrow> 'v row \<Rightarrow> (int, 'v node_info) dict \<Rightarrow> (int, 'v node_info) dict result" where
  "lookup_row node_key_col class_name row d =
     rbind (row_item row ''nid'') (\<lambda>nid.
     rbind (int_of_cell (case map_of row INTERNAL_GID_COLUMN of None \<Rightarrow> nid | Some g \<Rightarrow> g)) (\<lambda>gid.
     Inr (AList.update gid
       \<lparr>ni_node_id = (case map_of row node_key_col of None \<Rightarrow> CInt gid | Some v \<Rightarrow> v),
        ni_node_type = Some class_name, ni_row = row\<rparr> d)))"

definition node_lookup ::
  "'v arrow \<Rightarrow> ('v, 'f) graph_lib \<Rightarrow> 'v graph_db \<Rightarrow> string \<Rightarrow> (int, 'v node_info) dict result \<times> 'v graph_db" where
  "node_lookup ar gl db node_key_col =
     (case map_of (db_node_lookups db) node_key_col of
        Some d \<Rightarrow> (Inr d, db)
      | None \<Rightarrow>
          (case rfold (\<lambda>class_name d.
                  rbind (find_class (db_catalog db) class_name) (\<lambda>cls.
                  rbind (open_class_store (db_fs db) (db_bundle db) cls) (\<lambda>st.
                  rbind (node_to_table ar (db_fs db) st None None) (\<lambda>t.
                  rfold (lookup_row node_key_col class_name) (table_pylist t) d))))
                (list_stores gl (db_fs db) (db_bundle db) ''nodes'') []
           of
             Inl e \<Rightarrow> (Inl e, db)
           | Inr d \<Rightarrow> (Inr d, db\<lparr>db_node_lookups := AList.update node_key_col d (db_node_lookups db)\<rparr>)))"

definition external_id_map ::
  "'v arrow \<Rightarrow> ('v, 'f) graph_lib \<Rightarrow> 'v graph_db \<Rightarrow> string \<Rightarrow> ('v cell, int) dict result \<times> 'v graph_db" where
  "external_id_map ar gl db key_col =
     (case map_of (db_id_maps db) key_col of
        Some d \<Rightarrow> (Inr d, db)
      | None \<Rightarrow>
          (case rfold (\<lambda>class_name d.
                  rbind (find_class (db_catalog db) class_name) (\<lambda>cls.
                  rbind (open_class_store (db_fs db) (db_bundle db) cls) (\<lambda>st.
                  rbind (node_to_table ar (db_fs db) st None None) (\<lambda>t.
                  if key_col \<notin> set (names (tschema t)) \<or> INTERNAL_GID_COLUMN \<notin> set (names (tschema t)) then Inr d
                  else
                    rbind (table_column t key_col) (\<lambda>keys.
                    rbind (table_column t INTERNAL_GID_COLUMN) (\<lambda>gids.
                    if length keys \<noteq> length gids then Inl ValueError
                    else rfold (\<lambda>(key, gid) d. rbind (int_of_cell gid) (\<lambda>g. Inr (AList.update key g d))) (zip keys gids) d))))))
                (list_stores gl (db_fs db) (db_bundle db) ''nodes'') []
           of
             Inl e \<Rightarrow> (Inl e, db)
           | Inr d \<Rightarrow> (Inr d, db\<lparr>db_id_maps := AList.update key_col d (db_id_maps db)\<rparr>)))"

text \<open>A reference to a node: a \<open>ResourceRef\<close> with its internal identifier, or a value.\<close>

datatype 'v node_ref = RefId int | RefValue "'v cell"

definition resolve_graph_node_id :: "('v cell, int) dict \<Rightarrow> 'v node_ref \<Rightarrow> int result" where
  "resolve_graph_node_id id_map r =
     (case r of
        RefId i \<Rightarrow> Inr i
      | RefValue v \<Rightarrow>
          (case map_of id_map v of
             Some g \<Rightarrow> Inr g
           | None \<Rightarrow> (case v of CInt i \<Rightarrow> if i \<ge> 0 then Inr i else raise_code ''CDB-7021'' | _ \<Rightarrow> raise_code ''CDB-7021'')))"

definition resolve_graph_node_ids ::
  "'v arrow \<Rightarrow> ('v, 'f) graph_lib \<Rightarrow> 'v graph_db \<Rightarrow> 'v node_ref list \<Rightarrow> string \<Rightarrow> int list result \<times> 'v graph_db" where
  "resolve_graph_node_ids ar gl db refs node_key_col =
     (case external_id_map ar gl db node_key_col of
        (Inl e, db') \<Rightarrow> (Inl e, db')
      | (Inr id_map, db') \<Rightarrow> (rmap (resolve_graph_node_id id_map) refs, db'))"

text \<open>An upper bound of the vertex identifiers.\<close>

definition global_vertex_count :: "'v arrow \<Rightarrow> ('v, 'f) graph_lib \<Rightarrow> 'v graph_db \<Rightarrow> int result" where
  "global_vertex_count ar gl db =
     rfold (\<lambda>class_name n.
       rbind (find_class (db_catalog db) class_name) (\<lambda>cls.
       rbind (open_class_store (db_fs db) (db_bundle db) cls) (\<lambda>st.
       rbind (node_schema ar (db_fs db) st) (\<lambda>s.
       rbind (if INTERNAL_GID_COLUMN \<in> set (names s) then
                rbind (node_to_table ar (db_fs db) st (Some [INTERNAL_GID_COLUMN]) None) (\<lambda>t.
                rbind (table_column t INTERNAL_GID_COLUMN) (\<lambda>cs.
                if table_rows t = 0 then Inr n
                else rbind (rmap int_of_cell cs) (\<lambda>gids. Inr (foldl max n (map (\<lambda>g. g + 1) gids)))))
              else Inr n) (\<lambda>n'.
       Inr (max n' (nm_next_nid (ns_manifest st))))))))
     (list_stores gl (db_fs db) (db_bundle db) ''nodes'') 0"

end
