(* ===== verification/Path_Search.thy ===== *)
theory Path_Search
  imports Graph_Data
begin

text \<open>
  Path queries (\<open>paths\<close>, multi-seed \<open>paths\<close> and \<open>shortest_path\<close> of \<open>api.py\<close>): the breadth-first
  enumeration of the simple paths, their scores, the order of the results and the limits. Results are
  the rows the code collects; their conversion to an Arrow table is left out. Arguments the
  code turns into tuples first are lists, a scalar node reference being a list of one.
\<close>

section \<open>Options\<close>

text \<open>\<open>str.lower\<close> on ASCII letters; no other character lowers to a letter of the words compared.\<close>

definition lower_char :: "char \<Rightarrow> char" where
  "lower_char c = (if (65 :: nat) \<le> of_char c \<and> (of_char c :: nat) \<le> 90 then char_of (of_char c + 32 :: nat) else c)"

definition str_lower :: "string \<Rightarrow> string" where
  "str_lower = map lower_char"

definition normalize_path_score_mode :: "string option \<Rightarrow> string option result" where
  "normalize_path_score_mode mode =
     (case mode of
        None \<Rightarrow> Inr None
      | Some m \<Rightarrow>
          let normalized = str_lower m in
          if normalized \<notin> {''sum'', ''average'', ''avg'', ''min'', ''max'', ''product''} then raise_code ''CDB-6020''
          else Inr (Some (if normalized = ''avg'' then ''average'' else normalized)))"

definition normalize_score_order :: "string option \<Rightarrow> string option result" where
  "normalize_score_order order =
     (case order of
        None \<Rightarrow> Inr None
      | Some d \<Rightarrow>
          let normalized = str_lower d in
          if normalized \<notin> {''asc'', ''desc''} then raise_code ''CDB-6020'' else Inr (Some normalized))"

definition check_direction :: "string \<Rightarrow> unit result" where
  "check_direction direction = (if direction \<notin> {''out'', ''in'', ''both''} then raise_code ''CDB-6020'' else Inr ())"

section \<open>Scores\<close>

definition path_score ::
  "('v, 'f::linorder) graph_lib \<Rightarrow> 'v graph_step list \<Rightarrow> string option \<Rightarrow> string \<Rightarrow> 'f option result" where
  "path_score gl path_edges mode property_name =
     (case mode of
        None \<Rightarrow> Inr None
      | Some m \<Rightarrow>
          rbind (rmap (\<lambda>e. edge_numeric_property gl e property_name) path_edges) (\<lambda>weights.
          if weights = [] then Inr None
          else if m = ''sum'' then Inr (Some (gl_sum gl weights))
          else if m = ''average'' then Inr (Some (gl_div_int gl (gl_sum gl weights) (length weights)))
          else if m = ''min'' then Inr (Some (foldl min (hd weights) (tl weights)))
          else if m = ''max'' then Inr (Some (foldl max (hd weights) (tl weights)))
          else if m = ''product'' then Inr (Some (foldl (gl_mult gl) (gl_one gl) weights))
          else raise_code ''CDB-6020''))"

text \<open>The score in a sort key.\<close>

definition ordered_score :: "('v, 'f) graph_lib \<Rightarrow> string \<Rightarrow> 'f option \<Rightarrow> 'f" where
  "ordered_score gl order score =
     (let score_value = (case score of Some s \<Rightarrow> s | None \<Rightarrow> gl_zero gl) in
      if order = ''asc'' then score_value else gl_neg gl score_value)"

section \<open>Enumeration\<close>

text \<open>
  The loop that \<open>_enumerate_path_rows\<close> and \<open>_enumerate_multi_seed_path_rows\<close> share: a queue of
  partial paths (last node, nodes, edges). \<open>hit\<close> is the test of a node as target, \<open>mk\<close> makes a row.
\<close>

type_synonym 'v partial_path = "int \<times> int list \<times> 'v graph_step list"

definition path_step ::
  "(int \<Rightarrow> bool) \<Rightarrow> (int list \<Rightarrow> 'v graph_step list \<Rightarrow> 'r result) \<Rightarrow> int \<Rightarrow> int list \<Rightarrow> 'v graph_step list
    \<Rightarrow> 'v graph_step \<Rightarrow> 'r list \<times> 'v partial_path list \<Rightarrow> ('r list \<times> 'v partial_path list) result" where
  "path_step hit mk max_depth path_nodes path_edges s st =
     (case st of (rows, queue) \<Rightarrow>
        let next_id = gs_next s in
        if next_id \<in> set path_nodes then Inr (rows, queue)
        else
          let next_nodes = path_nodes @ [next_id]; next_edges = path_edges @ [s] in
          rbind (if hit next_id then rbind (mk next_nodes next_edges) (\<lambda>r. Inr (rows @ [r])) else Inr rows) (\<lambda>rows'.
          Inr (rows', if int (length next_edges) < max_depth then queue @ [(next_id, next_nodes, next_edges)] else queue)))"

lemma path_step_one:
  "path_step hit mk d ns es s (rows, queue) = Inr (rows', queue') \<Longrightarrow>
     queue' = queue \<or> queue' = queue @ [(gs_next s, ns @ [gs_next s], es @ [s])]"
  by (auto simp: path_step_def Let_def rbind_Inr_iff split: if_splits)

lemma path_step_queue:
  "rfold (path_step hit mk d ns es) steps (rows, queue) = Inr (rows', queue') \<Longrightarrow>
     \<exists>new. queue' = queue @ new \<and> (\<forall>p \<in> set new. length (snd (snd p)) = Suc (length es))"
proof (induction steps arbitrary: rows queue)
  case (Cons s steps)
  then obtain r q where step: "path_step hit mk d ns es s (rows, queue) = Inr (r, q)"
    and rest: "rfold (path_step hit mk d ns es) steps (r, q) = Inr (rows', queue')"
    by (auto simp: rbind_Inr_iff)
  from Cons.IH [OF rest] obtain new where "queue' = q @ new" "\<forall>p \<in> set new. length (snd (snd p)) = Suc (length es)"
    by blast
  then show ?case
    using path_step_one [OF step] by auto
qed simp

function path_loop ::
  "'v adjacency \<Rightarrow> (int \<Rightarrow> bool) \<Rightarrow> (int list \<Rightarrow> 'v graph_step list \<Rightarrow> 'r result) \<Rightarrow> int
    \<Rightarrow> 'v partial_path list \<Rightarrow> 'r list \<Rightarrow> 'r list result" where
  "path_loop adj hit mk max_depth [] rows = Inr rows"
| "path_loop adj hit mk max_depth ((current, path_nodes, path_edges) # queue) rows =
     (if int (length path_edges) \<ge> max_depth then path_loop adj hit mk max_depth queue rows
      else
        (case rfold (path_step hit mk max_depth path_nodes path_edges) (adj_get adj current) (rows, queue) of
           Inl e \<Rightarrow> Inl e
         | Inr (rows', queue') \<Rightarrow> path_loop adj hit mk max_depth queue' rows'))"
  by pat_completeness auto

text \<open>Each iteration replaces a partial path by finitely many longer ones.\<close>

termination
proof (relation "inv_image (mult less_than)
    (\<lambda>(adj, hit, mk, d, queue, rows). mset (map (\<lambda>p. nat (d - int (length (snd (snd p))))) queue))", goal_cases)
  case 1
  show ?case by (intro wf_inv_image wf_mult wf_less_than)
next
  case (2 adj hit mk d current path_nodes path_edges queue rows)
  then show ?case
    using one_step_implies_mult [of "{#nat (d - int (length path_edges))#}" "{#}" less_than] by simp
next
  case (3 adj hit mk d current path_nodes path_edges queue rows x rows' queue')
  let ?m = "\<lambda>p. nat (d - int (length (snd (snd p))))"
  from 3 path_step_queue [of hit mk d path_nodes path_edges _ rows queue rows' queue']
  obtain new where "queue' = queue @ new" and new: "\<forall>p \<in> set new. length (snd (snd p)) = Suc (length path_edges)"
    by auto
  moreover have "(mset (map ?m queue) + mset (map ?m new), mset (map ?m queue) + {#nat (d - int (length path_edges))#}) \<in> mult less_than"
    by (rule one_step_implies_mult) (use new 3 in auto)
  ultimately show ?case by simp
qed

section \<open>Paths between two nodes\<close>

record 'f path_row =
  pr_source :: string
  pr_target :: string
  pr_depth :: nat
  pr_node_ids :: "string list"
  pr_internal_node_ids :: "int list"
  pr_edge_ids :: "int list"
  pr_relation_types :: "string list"
  pr_directions :: "string list"
  pr_edge_properties :: "string list"
  pr_path_score :: "'f option"

definition path_node_names :: "('v, 'f) graph_lib \<Rightarrow> (int, 'v node_info) dict \<Rightarrow> int list \<Rightarrow> string list" where
  "path_node_names gl lookup = map (\<lambda>v. gl_str gl (ni_node_id (node_info_at lookup v)))"

definition path_result_row ::
  "('v, 'f::linorder) graph_lib \<Rightarrow> (int, 'v node_info) dict \<Rightarrow> string option \<Rightarrow> string
    \<Rightarrow> int list \<Rightarrow> 'v graph_step list \<Rightarrow> 'f path_row result" where
  "path_result_row gl lookup score_mode score_property path_nodes path_edges =
     (let node_ids = path_node_names gl lookup path_nodes in
      rbind (path_score gl path_edges score_mode score_property) (\<lambda>score.
      Inr \<lparr>pr_source = hd node_ids, pr_target = last node_ids, pr_depth = length path_edges,
           pr_node_ids = node_ids, pr_internal_node_ids = path_nodes,
           pr_edge_ids = map gs_edge_id path_edges, pr_relation_types = map gs_edge_type path_edges,
           pr_directions = map gs_direction path_edges,
           pr_edge_properties = map (\<lambda>e. gl_dumps gl (gs_properties e)) path_edges,
           pr_path_score = score\<rparr>))"

definition enumerate_path_rows ::
  "'v arrow \<Rightarrow> ('v, 'f::linorder) graph_lib \<Rightarrow> 'v graph_db \<Rightarrow> int \<Rightarrow> int \<Rightarrow> string list \<Rightarrow> int \<Rightarrow> string \<Rightarrow> 'v row
    \<Rightarrow> string \<Rightarrow> string option \<Rightarrow> string \<Rightarrow> 'f path_row list result \<times> 'v graph_db" where
  "enumerate_path_rows ar gl db source_id target_id edge_types max_depth direction edge_filters node_key_col
      score_mode score_property =
     (case typed_adjacency ar gl db edge_types direction edge_filters None None of
        (Inl e, db1) \<Rightarrow> (Inl e, db1)
      | (Inr adj, db1) \<Rightarrow>
          (case node_lookup ar gl db1 node_key_col of
             (Inl e, db2) \<Rightarrow> (Inl e, db2)
           | (Inr lookup, db2) \<Rightarrow>
               (path_loop adj (\<lambda>v. v = target_id) (path_result_row gl lookup score_mode score_property) max_depth
                  [(source_id, [source_id], [])] [], db2)))"

definition sort_path_rows :: "('v, 'f::linorder) graph_lib \<Rightarrow> string option \<Rightarrow> 'f path_row list \<Rightarrow> 'f path_row list" where
  "sort_path_rows gl order rows =
     (case order of
        None \<Rightarrow> sort_key (\<lambda>r. (pr_depth r, pr_internal_node_ids r, pr_edge_ids r)) rows
      | Some d \<Rightarrow> sort_key (\<lambda>r. (ordered_score gl d (pr_path_score r), pr_depth r, pr_internal_node_ids r, pr_edge_ids r)) rows)"

text \<open>\<open>ids[0]\<close> of the resolved reference.\<close>

definition first_id :: "int list \<Rightarrow> int result" where
  "first_id ids = (case ids of [] \<Rightarrow> Inl IndexError | i # _ \<Rightarrow> Inr i)"

definition check_paths_args :: "int \<Rightarrow> int \<Rightarrow> string \<Rightarrow> string option \<Rightarrow> string option \<Rightarrow> (string option \<times> string option) result" where
  "check_paths_args max_depth limit direction score order =
     (if max_depth < 1 then raise_code ''CDB-6031''
      else if limit < 0 then raise_code ''CDB-6020''
      else
        rbind (check_direction direction) (\<lambda>_.
        rbind (normalize_path_score_mode score) (\<lambda>score_mode.
        rbind (normalize_score_order order) (\<lambda>score_order.
        Inr (score_mode, score_order)))))"

definition paths ::
  "'v arrow \<Rightarrow> ('v, 'f::linorder) graph_lib \<Rightarrow> 'v graph_db \<Rightarrow> 'v node_ref list \<Rightarrow> 'v node_ref list \<Rightarrow> string list \<Rightarrow> int \<Rightarrow> int
    \<Rightarrow> string \<Rightarrow> 'v row \<Rightarrow> string \<Rightarrow> string option \<Rightarrow> string \<Rightarrow> string option \<Rightarrow> 'f path_row list result \<times> 'v graph_db" where
  "paths ar gl db source target edge_types max_depth limit direction edge_filters node_key_col score score_property order =
     (case check_paths_args max_depth limit direction score order of
        Inl e \<Rightarrow> (Inl e, db)
      | Inr (score_mode, score_order) \<Rightarrow>
          (case resolve_graph_node_ids ar gl db source node_key_col of
             (Inl e, db1) \<Rightarrow> (Inl e, db1)
           | (Inr source_ids, db1) \<Rightarrow>
               (case resolve_graph_node_ids ar gl db1 target node_key_col of
                  (Inl e, db2) \<Rightarrow> (Inl e, db2)
                | (Inr target_ids, db2) \<Rightarrow>
                    (case rbind (first_id source_ids) (\<lambda>s. rbind (first_id target_ids) (\<lambda>t. Inr (s, t))) of
                       Inl e \<Rightarrow> (Inl e, db2)
                     | Inr (s, t) \<Rightarrow>
                         (case enumerate_path_rows ar gl db2 s t edge_types max_depth direction edge_filters node_key_col
                                 score_mode score_property of
                            (Inl e, db3) \<Rightarrow> (Inl e, db3)
                          | (Inr rows, db3) \<Rightarrow>
                              (Inr (take (nat limit)
                                 (sort_path_rows gl (if score_mode \<noteq> None then score_order else None) rows)), db3))))))"

definition shortest_path ::
  "'v arrow \<Rightarrow> ('v, 'f::linorder) graph_lib \<Rightarrow> 'v graph_db \<Rightarrow> 'v node_ref list \<Rightarrow> 'v node_ref list \<Rightarrow> string list \<Rightarrow> int option
    \<Rightarrow> string \<Rightarrow> 'v row \<Rightarrow> string \<Rightarrow> 'f path_row option result \<times> 'v graph_db" where
  "shortest_path ar gl db source target edge_types max_depth direction edge_filters node_key_col =
     (case (case max_depth of
              Some d \<Rightarrow> if d < 1 then raise_code ''CDB-6031'' else Inr d
            | None \<Rightarrow> rbind (global_vertex_count ar gl db) (\<lambda>n. Inr (max 1 n)))
      of
        Inl e \<Rightarrow> (Inl e, db)
      | Inr bound \<Rightarrow>
          (case paths ar gl db source target edge_types bound 1 direction edge_filters node_key_col None ''weight'' (Some ''asc'') of
             (Inl e, db') \<Rightarrow> (Inl e, db')
           | (Inr rows, db') \<Rightarrow> (Inr (case rows of [] \<Rightarrow> None | r # _ \<Rightarrow> Some r), db')))"

section \<open>Paths from many seeds to node types\<close>

record ('v, 'f) seed_path_row =
  sr_source_node_id :: string
  sr_source_node_type :: "string option"
  sr_source_internal_id :: int
  sr_target_node_id :: string
  sr_target_node_type :: "string option"
  sr_target_internal_id :: int
  sr_depth :: nat
  sr_path_node_ids :: "string list"
  sr_internal_node_ids :: "int list"
  sr_path_edge_ids :: "int list"
  sr_path_edge_types :: "string list"
  sr_path_score :: "'f option"
  sr_rank :: nat
  sr_selected_properties :: "'v row"

definition multi_seed_path_result_row ::
  "('v, 'f::linorder) graph_lib \<Rightarrow> (int, 'v node_info) dict \<Rightarrow> string option \<Rightarrow> string \<Rightarrow> string list \<Rightarrow> int
    \<Rightarrow> int list \<Rightarrow> 'v graph_step list \<Rightarrow> ('v, 'f) seed_path_row result" where
  "multi_seed_path_result_row gl lookup score_mode score_property return_properties source_id path_nodes path_edges =
     (let target_id = last path_nodes;
          source_info = node_info_at lookup source_id;
          target_info = node_info_at lookup target_id
      in
      rbind (path_score gl path_edges score_mode score_property) (\<lambda>score.
      Inr \<lparr>sr_source_node_id = gl_str gl (ni_node_id source_info), sr_source_node_type = ni_node_type source_info,
           sr_source_internal_id = source_id,
           sr_target_node_id = gl_str gl (ni_node_id target_info), sr_target_node_type = ni_node_type target_info,
           sr_target_internal_id = target_id, sr_depth = length path_edges,
           sr_path_node_ids = path_node_names gl lookup path_nodes, sr_internal_node_ids = path_nodes,
           sr_path_edge_ids = map gs_edge_id path_edges, sr_path_edge_types = map gs_edge_type path_edges,
           sr_path_score = score, sr_rank = 0,
           sr_selected_properties = fold (\<lambda>p. AList.update p (row_get (ni_row target_info) p)) return_properties []\<rparr>))"

definition enumerate_multi_seed_path_rows ::
  "('v, 'f::linorder) graph_lib \<Rightarrow> int \<Rightarrow> string list \<Rightarrow> 'v adjacency \<Rightarrow> (int, 'v node_info) dict \<Rightarrow> int \<Rightarrow> string option
    \<Rightarrow> string \<Rightarrow> string list \<Rightarrow> ('v, 'f) seed_path_row list result" where
  "enumerate_multi_seed_path_rows gl source_id target_types adj lookup max_depth score_mode score_property return_properties =
     path_loop adj
       (\<lambda>v. case ni_node_type (node_info_at lookup v) of None \<Rightarrow> False | Some t \<Rightarrow> t \<in> set target_types)
       (multi_seed_path_result_row gl lookup score_mode score_property return_properties source_id) max_depth
       [(source_id, [source_id], [])] []"

definition sort_seed_rows ::
  "('v, 'f::linorder) graph_lib \<Rightarrow> string option \<Rightarrow> ('v, 'f) seed_path_row list \<Rightarrow> ('v, 'f) seed_path_row list" where
  "sort_seed_rows gl order rows =
     (case order of
        None \<Rightarrow> sort_key (\<lambda>r. (sr_depth r, sr_source_internal_id r, sr_target_internal_id r,
                             sr_internal_node_ids r, sr_path_edge_ids r)) rows
      | Some d \<Rightarrow> sort_key (\<lambda>r. (ordered_score gl d (sr_path_score r), sr_depth r, sr_source_internal_id r,
                             sr_target_internal_id r, sr_internal_node_ids r, sr_path_edge_ids r)) rows)"

text \<open>
  The set of target types is a list without repetitions; its order matters only for which of
  several exceptions is raised.
\<close>

definition resolve_target_node_types :: "catalog \<Rightarrow> string list \<Rightarrow> string list result" where
  "resolve_target_node_types c target_node_types =
     rbind (rmap (\<lambda>t. rbind (find_class c t) (\<lambda>d. Inr (local_or (cd_local_name d) (cd_iri d)))) target_node_types)
       (\<lambda>ns. Inr (remdups ns))"

definition node_table_for_local :: "'v arrow \<Rightarrow> 'v graph_db \<Rightarrow> string \<Rightarrow> 'v table result" where
  "node_table_for_local ar db class_name =
     rbind (find_class (db_catalog db) class_name) (\<lambda>cls.
     rbind (open_class_store (db_fs db) (db_bundle db) cls) (\<lambda>st.
     node_to_table ar (db_fs db) st None None))"

text \<open>\<open>any\<close> stops at the first table that has the property.\<close>

fun any_table_has :: "'v arrow \<Rightarrow> 'v graph_db \<Rightarrow> string list \<Rightarrow> string \<Rightarrow> bool result" where
  "any_table_has ar db [] p = Inr False"
| "any_table_has ar db (t # ts) p =
     rbind (node_table_for_local ar db t) (\<lambda>tb.
     if p \<in> set (names (tschema tb)) then Inr True else any_table_has ar db ts p)"

definition validate_multi_seed_return_properties ::
  "'v arrow \<Rightarrow> 'v graph_db \<Rightarrow> string list \<Rightarrow> string list \<Rightarrow> unit result" where
  "validate_multi_seed_return_properties ar db target_types return_properties =
     rbind (rmap (any_table_has ar db target_types) return_properties) (\<lambda>found.
     if False \<in> set found then raise_code ''CDB-7093'' else Inr ())"

text \<open>The Arrow types of the selected properties: the common type, a string when they differ.\<close>

fun selected_type :: "string \<Rightarrow> string \<Rightarrow> schema list \<Rightarrow> string" where
  "selected_type p field_type [] = field_type"
| "selected_type p field_type (s # ss) =
     (case find (\<lambda>f. fld_name f = p) s of
        None \<Rightarrow> selected_type p field_type ss
      | Some f \<Rightarrow>
          if field_type = ''null'' then selected_type p (fld_type f) ss
          else if fld_type f \<noteq> field_type then ''string''
          else selected_type p field_type ss)"

definition selected_properties_type ::
  "'v arrow \<Rightarrow> 'v graph_db \<Rightarrow> string list \<Rightarrow> string list \<Rightarrow> (string \<times> string) list result" where
  "selected_properties_type ar db target_types return_properties =
     rbind (rmap (node_table_for_local ar db) (sort target_types)) (\<lambda>tables.
     Inr (map (\<lambda>p. (p, selected_type p ''null'' (map tschema tables))) return_properties))"

definition check_multi_args ::
  "int \<Rightarrow> int \<Rightarrow> int option \<Rightarrow> string \<Rightarrow> 'v node_ref list \<Rightarrow> string list \<Rightarrow> string option \<Rightarrow> string option
    \<Rightarrow> (string option \<times> string option) result" where
  "check_multi_args max_depth limit max_paths_per_seed direction sources target_node_types score order =
     (if max_depth < 1 then raise_code ''CDB-6031''
      else if limit < 0 then raise_code ''CDB-6020''
      else if (case max_paths_per_seed of None \<Rightarrow> False | Some k \<Rightarrow> k < 0) then raise_code ''CDB-6020''
      else
        rbind (check_direction direction) (\<lambda>_.
        if sources = [] then raise_code ''CDB-6020''
        else if target_node_types = [] then raise_code ''CDB-6020''
        else
          rbind (normalize_path_score_mode score) (\<lambda>score_mode.
          rbind (normalize_score_order order) (\<lambda>score_order.
          Inr (score_mode, score_order)))))"

text \<open>The loop over the sources, and the numbering of the rows.\<close>

definition seed_rows ::
  "('v, 'f::linorder) graph_lib \<Rightarrow> string list \<Rightarrow> 'v adjacency \<Rightarrow> (int, 'v node_info) dict \<Rightarrow> int \<Rightarrow> string option
    \<Rightarrow> string \<Rightarrow> string list \<Rightarrow> string option \<Rightarrow> int option \<Rightarrow> int list \<Rightarrow> ('v, 'f) seed_path_row list result" where
  "seed_rows gl target_types adj lookup max_depth score_mode score_property return_properties order max_paths_per_seed source_ids =
     rfold (\<lambda>source_id rows.
       rbind (enumerate_multi_seed_path_rows gl source_id target_types adj lookup max_depth score_mode score_property
                return_properties) (\<lambda>rs.
       let sorted_rows = sort_seed_rows gl order rs in
       Inr (rows @ (case max_paths_per_seed of None \<Rightarrow> sorted_rows | Some k \<Rightarrow> take (nat k) sorted_rows)))) source_ids []"

definition rank_rows :: "('v, 'f) seed_path_row list \<Rightarrow> ('v, 'f) seed_path_row list" where
  "rank_rows rows = map (\<lambda>(k, r). r\<lparr>sr_rank := k\<rparr>) (zip [1..<Suc (length rows)] rows)"

definition multi_seed_paths ::
  "'v arrow \<Rightarrow> ('v, 'f::linorder) graph_lib \<Rightarrow> 'v graph_db \<Rightarrow> 'v node_ref list \<Rightarrow> string list \<Rightarrow> string list \<Rightarrow> int \<Rightarrow> int
    \<Rightarrow> string \<Rightarrow> 'v row \<Rightarrow> string \<Rightarrow> string option \<Rightarrow> string \<Rightarrow> string option \<Rightarrow> string list \<Rightarrow> int option
    \<Rightarrow> (('v, 'f) seed_path_row list \<times> (string \<times> string) list) result \<times> 'v graph_db" where
  "multi_seed_paths ar gl db sources target_node_types edge_types max_depth limit direction edge_filters node_key_col
      score score_property order return_properties max_paths_per_seed =
     (case check_multi_args max_depth limit max_paths_per_seed direction sources target_node_types score order of
        Inl e \<Rightarrow> (Inl e, db)
      | Inr (score_mode, score_order) \<Rightarrow>
          (case resolve_graph_node_ids ar gl db sources node_key_col of
             (Inl e, db1) \<Rightarrow> (Inl e, db1)
           | (Inr source_ids, db1) \<Rightarrow>
               (case rbind (resolve_target_node_types (db_catalog db1) target_node_types) (\<lambda>types.
                     rbind (validate_multi_seed_return_properties ar db1 types return_properties) (\<lambda>_. Inr types)) of
                  Inl e \<Rightarrow> (Inl e, db1)
                | Inr types \<Rightarrow>
                    (case typed_adjacency ar gl db1 edge_types direction edge_filters None None of
                       (Inl e, db2) \<Rightarrow> (Inl e, db2)
                     | (Inr adj, db2) \<Rightarrow>
                         (case node_lookup ar gl db2 node_key_col of
                            (Inl e, db3) \<Rightarrow> (Inl e, db3)
                          | (Inr lookup, db3) \<Rightarrow>
                              let key_order = (if score_mode \<noteq> None then score_order else None) in
                              (rbind (seed_rows gl types adj lookup max_depth score_mode score_property return_properties
                                        key_order max_paths_per_seed source_ids) (\<lambda>rows.
                               let ranked = rank_rows (take (nat limit) (sort_seed_rows gl key_order rows)) in
                               rbind (selected_properties_type ar db3 types return_properties) (\<lambda>ts.
                               Inr (ranked, ts))), db3))))))"

end
