(* ===== verification/Path_Theorems.thy ===== *)
theory Path_Theorems
  imports Path_Search
begin

text \<open>
  The breadth-first enumeration yields exactly the simple paths, level by level; the results of
  \<open>paths\<close> and \<open>shortest_path\<close>.
\<close>

section \<open>Walks\<close>

fun graph_walk :: "'v adjacency \<Rightarrow> int \<Rightarrow> 'v graph_step list \<Rightarrow> bool" where
  "graph_walk adj v [] \<longleftrightarrow> True"
| "graph_walk adj v (s # ss) \<longleftrightarrow> s \<in> set (adj_get adj v) \<and> graph_walk adj (gs_next s) ss"

definition walk_nodes :: "int \<Rightarrow> 'v graph_step list \<Rightarrow> int list" where
  "walk_nodes v es = v # map gs_next es"

definition walk_end :: "int \<Rightarrow> 'v graph_step list \<Rightarrow> int" where
  "walk_end v es = last (walk_nodes v es)"

lemma walk_end_simps [simp]:
  "walk_end v [] = v" "walk_end v (es @ [s]) = gs_next s" "walk_end v (s # es) = walk_end (gs_next s) es"
  by (simp_all add: walk_end_def walk_nodes_def)

lemma walk_nodes_snoc [simp]: "walk_nodes v (es @ [s]) = walk_nodes v es @ [gs_next s]"
  by (simp add: walk_nodes_def)

lemma walk_append: "graph_walk adj v (es @ fs) \<longleftrightarrow> graph_walk adj v es \<and> graph_walk adj (walk_end v es) fs"
  by (induction es arbitrary: v) simp_all

lemma walk_end_append: "walk_end v (es @ fs) = walk_end (walk_end v es) fs"
  by (induction es arbitrary: v) simp_all

lemma walk_nodes_nth: "i \<le> length es \<Longrightarrow> walk_nodes v es ! i = walk_end v (take i es)"
proof (induction i arbitrary: v es)
  case 0 show ?case by (simp add: walk_nodes_def)
next
  case (Suc i) then show ?case by (cases es) (auto simp: walk_nodes_def)
qed

text \<open>A walk that meets a node twice has a shortcut.\<close>

lemma walk_shortcut:
  assumes "graph_walk adj v es" "\<not> distinct (walk_nodes v es)"
  obtains es' where "graph_walk adj v es'" "walk_end v es' = walk_end v es" "length es' < length es"
proof -
  from assms(2) obtain i j where ij: "i < j" "j \<le> length es" "walk_nodes v es ! i = walk_nodes v es ! j"
    unfolding distinct_conv_nth by (auto simp: walk_nodes_def less_Suc_eq_le nat_neq_iff)
  then have e: "walk_end v (take i es) = walk_end v (take j es)" by (simp add: walk_nodes_nth)
  have split: "graph_walk adj v (take k es) \<and> graph_walk adj (walk_end v (take k es)) (drop k es)
      \<and> walk_end v es = walk_end (walk_end v (take k es)) (drop k es)" for k
    using assms(1) walk_append [of adj v "take k es" "drop k es"] walk_end_append [of v "take k es" "drop k es"] by simp
  show thesis
    by (rule that [of "take i es @ drop j es"])
      (use split [of i] split [of j] e ij in \<open>auto simp: walk_append walk_end_append\<close>)
qed

definition simple_walk :: "'v adjacency \<Rightarrow> int \<Rightarrow> 'v graph_step list \<Rightarrow> bool" where
  "simple_walk adj v es \<longleftrightarrow> graph_walk adj v es \<and> distinct (walk_nodes v es)"

lemma walk_simple:
  assumes "graph_walk adj v es"
  obtains es' where "simple_walk adj v es'" "walk_end v es' = walk_end v es" "length es' \<le> length es"
proof -
  have "\<exists>es'. simple_walk adj v es' \<and> walk_end v es' = walk_end v es \<and> length es' \<le> length es" using assms
  proof (induction es rule: length_induct)
    case (1 es)
    show ?case
    proof (cases "distinct (walk_nodes v es)")
      case True
      with 1 show ?thesis by (auto simp: simple_walk_def)
    next
      case False
      with walk_shortcut [OF 1(2)] obtain es' where "graph_walk adj v es'" "walk_end v es' = walk_end v es" "length es' < length es"
        by blast
      with 1 show ?thesis by (metis less_imp_le order_trans)
    qed
  qed
  with that show thesis by blast
qed

section \<open>Levels of the search\<close>

definition extend :: "'v adjacency \<Rightarrow> int \<Rightarrow> 'v graph_step list \<Rightarrow> 'v graph_step list list" where
  "extend adj v es =
     map (\<lambda>s. es @ [s]) (filter (\<lambda>s. gs_next s \<notin> set (walk_nodes v es)) (adj_get adj (walk_end v es)))"

fun level :: "'v adjacency \<Rightarrow> int \<Rightarrow> nat \<Rightarrow> 'v graph_step list list" where
  "level adj v 0 = [[]]"
| "level adj v (Suc k) = concat (map (extend adj v) (level adj v k))"

lemma in_level: "es \<in> set (level adj v k) \<longleftrightarrow> simple_walk adj v es \<and> length es = k"
proof (induction k arbitrary: es)
  case 0 show ?case by (auto simp: simple_walk_def walk_nodes_def)
next
  case (Suc k)
  have "es \<in> set (level adj v (Suc k)) \<longleftrightarrow> (\<exists>fs \<in> set (level adj v k). \<exists>s. es = fs @ [s]
      \<and> gs_next s \<notin> set (walk_nodes v fs) \<and> s \<in> set (adj_get adj (walk_end v fs)))"
    by (auto simp: extend_def image_iff)
  also have "\<dots> \<longleftrightarrow> (\<exists>fs s. es = fs @ [s] \<and> simple_walk adj v fs \<and> length fs = k
      \<and> gs_next s \<notin> set (walk_nodes v fs) \<and> s \<in> set (adj_get adj (walk_end v fs)))"
    unfolding Bex_def Suc.IH by blast
  also have "\<dots> \<longleftrightarrow> simple_walk adj v es \<and> length es = Suc k"
    by (cases es rule: rev_cases) (auto simp: simple_walk_def walk_append)
  finally show ?case .
qed

lemma distinct_level:
  assumes "\<And>u. distinct (adj_get adj u)"
  shows "distinct (level adj v k)"
proof (induction k)
  case (Suc k)
  have "distinct (concat (map (extend adj v) xs))" if "distinct xs" for xs
    using that
  proof (induction xs)
    case (Cons es xs)
    have "distinct (extend adj v es)"
      using assms by (auto simp: extend_def distinct_map inj_on_def)
    moreover have "set (extend adj v es) \<inter> set (concat (map (extend adj v) xs)) = {}"
      using Cons.prems by (auto simp: extend_def)
    ultimately show ?case using Cons by simp
  qed simp
  with Suc show ?case by simp
qed simp

section \<open>The loop\<close>

definition path_entry :: "int \<Rightarrow> 'v graph_step list \<Rightarrow> 'v partial_path" where
  "path_entry v es = (walk_end v es, walk_nodes v es, es)"

definition row_list ::
  "(int \<Rightarrow> bool) \<Rightarrow> (int list \<Rightarrow> 'v graph_step list \<Rightarrow> 'r result) \<Rightarrow> int \<Rightarrow> 'v graph_step list list \<Rightarrow> 'r list result" where
  "row_list hit mk v ess = rmap (\<lambda>es. mk (walk_nodes v es) es) (filter (\<lambda>es. hit (walk_end v es)) ess)"

lemma rmap_append: "rmap f (xs @ ys) = rbind (rmap f xs) (\<lambda>a. rbind (rmap f ys) (\<lambda>b. Inr (a @ b)))"
  by (induction xs) (auto simp: rbind_def split: sum.splits)

lemma row_list_append:
  "row_list hit mk v (xs @ ys) = rbind (row_list hit mk v xs) (\<lambda>a. rbind (row_list hit mk v ys) (\<lambda>b. Inr (a @ b)))"
  by (simp add: row_list_def rmap_append)

lemma row_list_Nil [simp]: "row_list hit mk v [] = Inr []"
  by (simp add: row_list_def)

lemma path_step_cases:
  "gs_next s \<in> set (walk_nodes v es) \<Longrightarrow> path_step hit mk d (walk_nodes v es) es s (rows, queue) = Inr (rows, queue)"
  "gs_next s \<notin> set (walk_nodes v es) \<Longrightarrow> path_step hit mk d (walk_nodes v es) es s (rows, queue) =
     rbind (row_list hit mk v [es @ [s]]) (\<lambda>rs.
     Inr (rows @ rs, if int (Suc (length es)) < d then queue @ [path_entry v (es @ [s])] else queue))"
  by (simp_all add: path_step_def Let_def row_list_def path_entry_def rbind_def split: sum.splits)

lemma row_list_Cons: "row_list hit mk v (es # ess) =
    rbind (row_list hit mk v [es]) (\<lambda>a. rbind (row_list hit mk v ess) (\<lambda>b. Inr (a @ b)))"
  using row_list_append [of hit mk v "[es]" ess] by simp

lemma path_step_fold:
  "rfold (path_step hit mk d (walk_nodes v es) es) steps (rows, queue) =
     (let ess = map (\<lambda>s. es @ [s]) (filter (\<lambda>s. gs_next s \<notin> set (walk_nodes v es)) steps) in
      rbind (row_list hit mk v ess) (\<lambda>rs.
      Inr (rows @ rs, queue @ (if int (Suc (length es)) < d then map (path_entry v) ess else []))))"
proof (induction steps arbitrary: rows queue)
  case (Cons s steps)
  show ?case
  proof (cases "gs_next s \<in> set (walk_nodes v es)")
    case True
    then show ?thesis by (simp add: path_step_cases Cons Let_def)
  next
    case False
    let ?ess = "map (\<lambda>s. es @ [s]) (filter (\<lambda>s. gs_next s \<notin> set (walk_nodes v es)) steps)"
    have ess: "map (\<lambda>s. es @ [s]) (filter (\<lambda>s. gs_next s \<notin> set (walk_nodes v es)) (s # steps)) = (es @ [s]) # ?ess"
      using False by simp
    show ?thesis
      unfolding ess Let_def row_list_Cons [of hit mk v "es @ [s]" ?ess] rfold.simps path_step_cases(2) [OF False]
      by (cases "row_list hit mk v [es @ [s]]"; cases "row_list hit mk v ?ess") (simp_all add: Cons Let_def)
  qed
qed simp

lemma path_loop_level:
  assumes "\<forall>es \<in> set ess. length es = k" "int k < d"
  shows "path_loop adj hit mk d (map (path_entry v) ess @ q) rows =
     (let ess' = concat (map (extend adj v) ess) in
      rbind (row_list hit mk v ess') (\<lambda>rs.
      path_loop adj hit mk d (q @ (if int (Suc k) < d then map (path_entry v) ess' else [])) (rows @ rs)))"
  using assms(1)
proof (induction ess arbitrary: q rows)
  case (Cons es ess)
  then have k: "length es = k" and rest: "\<forall>es \<in> set ess. length es = k" by simp_all
  have "path_loop adj hit mk d (map (path_entry v) (es # ess) @ q) rows =
      (case rfold (path_step hit mk d (walk_nodes v es) es) (adj_get adj (walk_end v es)) (rows, map (path_entry v) ess @ q) of
         Inl e \<Rightarrow> Inl e | Inr (rows', queue') \<Rightarrow> path_loop adj hit mk d queue' rows')"
    using assms(2) k by (simp add: path_entry_def)
  also have "\<dots> = rbind (row_list hit mk v (extend adj v es)) (\<lambda>rs.
      path_loop adj hit mk d (map (path_entry v) ess @ q @ (if int (Suc k) < d then map (path_entry v) (extend adj v es) else [])) (rows @ rs))"
    by (auto simp: path_step_fold Let_def extend_def k rbind_def split: sum.splits)
  also have "\<dots> = (let ess' = concat (map (extend adj v) (es # ess)) in
      rbind (row_list hit mk v ess') (\<lambda>rs.
      path_loop adj hit mk d (q @ (if int (Suc k) < d then map (path_entry v) ess' else [])) (rows @ rs)))"
    unfolding Cons.IH [OF rest] by (auto simp: Let_def row_list_append rbind_def split: sum.splits)
  finally show ?case .
qed simp

lemma path_loop_levels:
  assumes "k < n"
  shows "path_loop adj hit mk (int n) (map (path_entry v) (level adj v k)) rows =
     rbind (row_list hit mk v (concat (map (level adj v) [Suc k..<Suc n]))) (\<lambda>rs. Inr (rows @ rs))"
  using assms
proof (induction "n - k" arbitrary: k rows)
  case (Suc m)
  have up: "[Suc k..<Suc n] = Suc k # [Suc (Suc k)..<Suc n]" using Suc by (simp add: upt_rec)
  have loop: "path_loop adj hit mk (int n) (map (path_entry v) (level adj v k)) rows =
      rbind (row_list hit mk v (level adj v (Suc k))) (\<lambda>rs.
      path_loop adj hit mk (int n) (if Suc k < n then map (path_entry v) (level adj v (Suc k)) else []) (rows @ rs))"
    using path_loop_level [of "level adj v k" k "int n" adj hit mk v "[]" rows] Suc.prems
    by (simp add: in_level Let_def)
  show ?case
  proof (cases "Suc k < n")
    case True
    with Suc.hyps(1) [of "Suc k"] Suc.hyps(2)
    have IH: "path_loop adj hit mk (int n) (map (path_entry v) (level adj v (Suc k))) rs =
        rbind (row_list hit mk v (concat (map (level adj v) [Suc (Suc k)..<Suc n]))) (\<lambda>r. Inr (rs @ r))" for rs
      by simp
    show ?thesis
      unfolding loop up using True by (simp only: if_True IH list.map concat.simps row_list_append)
        (auto simp: rbind_def split: sum.splits)
  next
    case False
    with Suc.prems have "n = Suc k" by simp
    then show ?thesis unfolding loop by (simp add: rbind_def split: sum.splits)
  qed
qed simp

text \<open>The simple walks with one to \<open>n\<close> steps, level by level.\<close>

definition walks_upto :: "'v adjacency \<Rightarrow> int \<Rightarrow> nat \<Rightarrow> 'v graph_step list list" where
  "walks_upto adj v n = concat (map (level adj v) [1..<Suc n])"

lemma in_walks_upto: "es \<in> set (walks_upto adj v n) \<longleftrightarrow> simple_walk adj v es \<and> es \<noteq> [] \<and> length es \<le> n"
  by (cases es) (auto simp: walks_upto_def in_level Suc_le_eq)

lemma distinct_walks_upto:
  assumes "\<And>u. distinct (adj_get adj u)"
  shows "distinct (walks_upto adj v n)"
proof -
  have "distinct (concat (map (level adj v) ks))" if "distinct ks" for ks
    using that by (induction ks) (auto simp: distinct_level assms in_level)
  then show ?thesis by (simp add: walks_upto_def)
qed

lemma path_loop_walks:
  assumes "1 \<le> d"
  shows "path_loop adj hit mk d [(v, [v], [])] [] = row_list hit mk v (walks_upto adj v (nat d))"
proof -
  have "[(v, [v], [])] = map (path_entry v) (level adj v 0)" by (simp add: path_entry_def walk_nodes_def)
  then show ?thesis
    using path_loop_levels [of 0 "nat d" adj hit mk v "[]"] assms
    by (simp add: walks_upto_def rbind_def split: sum.splits)
qed

section \<open>Rows\<close>

text \<open>What a row says about the walk it was made from, the score aside.\<close>

definition describes :: "int \<Rightarrow> 'v graph_step list \<Rightarrow> 'f path_row \<Rightarrow> bool" where
  "describes v es r \<longleftrightarrow> pr_depth r = length es \<and> pr_internal_node_ids r = walk_nodes v es
     \<and> pr_edge_ids r = map gs_edge_id es \<and> pr_relation_types r = map gs_edge_type es
     \<and> pr_directions r = map gs_direction es"

definition scored :: "('v, 'f::linorder) graph_lib \<Rightarrow> string option \<Rightarrow> string \<Rightarrow> 'v graph_step list \<Rightarrow> 'f path_row \<Rightarrow> bool" where
  "scored gl mode property es r \<longleftrightarrow> path_score gl es mode property = Inr (pr_path_score r)"

definition rows_sorted :: "('v, 'f::linorder) graph_lib \<Rightarrow> string option \<Rightarrow> 'f path_row list \<Rightarrow> bool" where
  "rows_sorted gl order rows \<longleftrightarrow>
     (case order of
        None \<Rightarrow> sorted (map (\<lambda>r. (pr_depth r, pr_internal_node_ids r, pr_edge_ids r)) rows)
      | Some d \<Rightarrow> sorted (map (\<lambda>r. (ordered_score gl d (pr_path_score r), pr_depth r, pr_internal_node_ids r, pr_edge_ids r)) rows))"

lemma path_result_row_describes:
  "path_result_row gl lookup mode property (walk_nodes v es) es = Inr r \<Longrightarrow> describes v es r \<and> scored gl mode property es r"
  by (auto simp: path_result_row_def Let_def rbind_Inr_iff describes_def scored_def)

lemma rmap_list_all2: "rmap f xs = Inr ys \<Longrightarrow> list_all2 (\<lambda>x y. f x = Inr y) xs ys"
  by (induction xs arbitrary: ys) (auto simp: rbind_Inr_iff)

lemma row_list_describes:
  assumes "row_list hit (path_result_row gl lookup mode property) v ess = Inr rows"
  shows "list_all2 (\<lambda>es r. describes v es r \<and> scored gl mode property es r) (filter (\<lambda>es. hit (walk_end v es)) ess) rows"
  using rmap_list_all2 [OF assms [unfolded row_list_def]]
  by (rule list_all2_mono) (rule path_result_row_describes)

lemma sort_path_rows: "mset (sort_path_rows gl order rows) = mset rows \<and> rows_sorted gl order (sort_path_rows gl order rows)"
  by (cases order) (simp_all add: sort_path_rows_def rows_sorted_def)

lemma enumerate_path_rows_walks:
  assumes "typed_adjacency ar gl db types dir filters None None = (Inr adj, db1)" "1 \<le> d"
    and "enumerate_path_rows ar gl db s t types d dir filters key mode property = (Inr rows, db')"
  shows "list_all2 (\<lambda>es r. describes s es r \<and> scored gl mode property es r)
     (filter (\<lambda>es. walk_end s es = t) (walks_upto adj s (nat d))) rows"
  using assms by (auto simp: enumerate_path_rows_def path_loop_walks dest!: row_list_describes
      simp del: path_loop.simps split: prod.splits sum.splits)

lemma paths_sorted_walks:
  assumes "resolve_graph_node_ids ar gl db source key = (Inr (s # ss), db1)"
    and "resolve_graph_node_ids ar gl db1 target key = (Inr (t # ts), db2)"
    and "typed_adjacency ar gl db2 types dir filters None None = (Inr adj, db3)"
    and "paths ar gl db source target types d limit dir filters key score property order = (Inr rows, db')"
  shows "1 \<le> d \<and> 0 \<le> limit \<and> (\<exists>mode ess all. normalize_path_score_mode score = Inr mode
     \<and> mset ess = mset (filter (\<lambda>es. walk_end s es = t) (walks_upto adj s (nat d)))
     \<and> list_all2 (\<lambda>es r. describes s es r \<and> scored gl mode property es r) ess all
     \<and> rows_sorted gl (if score = None then None else map_option str_lower order) all
     \<and> rows = take (nat limit) all)"
proof -
  from assms(4) obtain mode ord where args: "check_paths_args d limit dir score order = Inr (mode, ord)"
    by (auto simp: paths_def split: sum.splits)
  have d: "1 \<le> d" "0 \<le> limit" and mode: "normalize_path_score_mode score = Inr mode"
    and ord: "ord = map_option str_lower order"
    using args by (auto simp: check_paths_args_def rbind_Inr_iff normalize_score_order_def Let_def
        split: if_splits option.splits)
  have none: "mode = None \<longleftrightarrow> score = None"
    using mode by (auto simp: normalize_path_score_mode_def Let_def split: option.splits if_splits)
  from assms args obtain rows0 db4 where enum:
      "enumerate_path_rows ar gl db2 s t types d dir filters key mode property = (Inr rows0, db4)"
    and rows: "rows = take (nat limit) (sort_path_rows gl (if mode \<noteq> None then ord else None) rows0)"
    by (auto simp: paths_def first_id_def split: prod.splits sum.splits)
  let ?all = "sort_path_rows gl (if mode \<noteq> None then ord else None) rows0"
  let ?R = "\<lambda>es r. describes s es r \<and> scored gl mode property es r"
  have "list_all2 ?R (filter (\<lambda>es. walk_end s es = t) (walks_upto adj s (nat d))) rows0"
    by (rule enumerate_path_rows_walks [OF assms(3) d(1) enum])
  then have "list_all2 (\<lambda>r es. ?R es r) rows0 (filter (\<lambda>es. walk_end s es = t) (walks_upto adj s (nat d)))"
    by (simp add: list_all2_conv_all_nth)
  moreover have sorted: "mset ?all = mset rows0" "rows_sorted gl (if mode \<noteq> None then ord else None) ?all"
    using sort_path_rows by blast+
  ultimately obtain ess where ess: "list_all2 (\<lambda>r es. ?R es r) ?all ess"
      "mset ess = mset (filter (\<lambda>es. walk_end s es = t) (walks_upto adj s (nat d)))"
    using list_all2_reorder_left_invariance by blast
  then have R: "list_all2 ?R ess ?all" by (simp add: list_all2_conv_all_nth)
  have ord_eq: "(if mode \<noteq> None then ord else None) = (if score = None then None else map_option str_lower order)"
    using none ord by simp
  show ?thesis
    using d mode ess(2) sorted(2) rows R unfolding ord_eq by blast
qed

text \<open>Walks to another node and simple walks.\<close>

lemma simple_walk_self: "simple_walk adj s es \<Longrightarrow> walk_end s es = s \<Longrightarrow> es = []"
  by (cases es rule: rev_cases) (auto simp: simple_walk_def walk_nodes_def)

lemma walk_nodes_bounded:
  "graph_walk adj s es \<Longrightarrow> 0 \<le> s \<and> s < n \<Longrightarrow> (\<And>u e. e \<in> set (adj_get adj u) \<Longrightarrow> 0 \<le> gs_next e \<and> gs_next e < n)
     \<Longrightarrow> set (walk_nodes s es) \<subseteq> {0..<n}"
proof (induction es arbitrary: s)
  case (Cons e es)
  from Cons.prems(1) have e: "e \<in> set (adj_get adj s)" "graph_walk adj (gs_next e) es" by simp_all
  have "set (walk_nodes (gs_next e) es) \<subseteq> {0..<n}"
    using Cons.prems(3) by (intro Cons.IH) (use e in auto)
  with Cons.prems(2) show ?case by (simp add: walk_nodes_def)
qed (simp add: walk_nodes_def)

lemma simple_walk_length:
  assumes "simple_walk adj s es" "0 \<le> s \<and> s < n"
    and "\<And>u e. e \<in> set (adj_get adj u) \<Longrightarrow> 0 \<le> gs_next e \<and> gs_next e < n"
  shows "int (length es) < n"
proof -
  have "card (set (walk_nodes s es)) \<le> card {0..<n}"
    using assms walk_nodes_bounded [of adj s es n] by (intro card_mono) (auto simp: simple_walk_def)
  moreover have "card (set (walk_nodes s es)) = Suc (length es)"
    using assms(1) distinct_card [of "walk_nodes s es"] by (simp add: simple_walk_def walk_nodes_def)
  ultimately show ?thesis using assms(2) by simp
qed

lemma sorted_first_least:
  "rows_sorted gl None (r # rs) \<Longrightarrow> r' \<in> set (r # rs) \<Longrightarrow> pr_depth r \<le> pr_depth r'"
  by (auto simp: rows_sorted_def less_eq_prod_def)

section \<open>Properties\<close>

text \<open>
  C32: \<open>paths\<close> enumerates the simple paths. When it returns, its rows are the first \<open>limit\<close> of a
  sorted list that holds one row for every path from the source to the target without a
  repeated node and with one to \<open>max_depth\<close> edges, and nothing else: a path is described by its
  row, with its score, and it occurs once if no node lists an edge twice. Without a score the
  order is by length, nodes and edges; with one it is by the score in the requested direction first.
\<close>

theorem paths_correct:
  assumes "resolve_graph_node_ids ar gl db source key = (Inr (s # ss), db1)"
    and "resolve_graph_node_ids ar gl db1 target key = (Inr (t # ts), db2)"
    and "typed_adjacency ar gl db2 types dir filters None None = (Inr adj, db3)"
    and "paths ar gl db source target types d limit dir filters key score property order = (Inr rows, db')"
  shows "\<exists>mode ess all. normalize_path_score_mode score = Inr mode
     \<and> set ess = {es. graph_walk adj s es \<and> distinct (walk_nodes s es) \<and> walk_end s es = t \<and> 1 \<le> length es \<and> int (length es) \<le> d}
     \<and> ((\<forall>u. distinct (adj_get adj u)) \<longrightarrow> distinct ess)
     \<and> list_all2 (\<lambda>es r. describes s es r \<and> scored gl mode property es r) ess all
     \<and> rows_sorted gl (if score = None then None else map_option str_lower order) all
     \<and> rows = take (nat limit) all"
proof -
  from paths_sorted_walks [OF assms] have d: "0 \<le> d" by simp
  from paths_sorted_walks [OF assms] obtain mode ess all where *: "normalize_path_score_mode score = Inr mode"
      "mset ess = mset (filter (\<lambda>es. walk_end s es = t) (walks_upto adj s (nat d)))"
      "list_all2 (\<lambda>es r. describes s es r \<and> scored gl mode property es r) ess all"
      "rows_sorted gl (if score = None then None else map_option str_lower order) all"
      "rows = take (nat limit) all" by blast
  have "set ess = {es. graph_walk adj s es \<and> distinct (walk_nodes s es) \<and> walk_end s es = t \<and> 1 \<le> length es \<and> int (length es) \<le> d}"
    unfolding mset_eq_setD [OF *(2)] by (auto simp: in_walks_upto simple_walk_def Suc_le_eq le_nat_iff [OF d])
  moreover have "(\<forall>u. distinct (adj_get adj u)) \<longrightarrow> distinct ess"
    using mset_eq_imp_distinct_iff [OF *(2)] distinct_walks_upto [of adj s "nat d"] by auto
  ultimately show ?thesis using * by blast
qed

text \<open>
  C33: \<open>shortest_path\<close> finds a shortest path. It returns a row exactly when the target is another node
  than the source and is reachable, within \<open>max_depth\<close> edges if that is given; the row describes a
  graph_walk to the target, and no graph_walk to the target is shorter. Without \<open>max_depth\<close> this rests on the
  vertex count being an upper bound of the vertices of the adjacency.
\<close>

theorem shortest_path_correct:
  assumes "resolve_graph_node_ids ar gl db source key = (Inr (s # ss), db1)"
    and "resolve_graph_node_ids ar gl db1 target key = (Inr (t # ts), db2)"
    and "typed_adjacency ar gl db2 types dir filters None None = (Inr adj, db3)"
    and "shortest_path ar gl db source target types max_depth dir filters key = (Inr r, db')"
    and "max_depth = None \<Longrightarrow> \<exists>n. global_vertex_count ar gl db = Inr n \<and> 0 \<le> s \<and> s < n
           \<and> (\<forall>u. \<forall>e \<in> set (adj_get adj u). 0 \<le> gs_next e \<and> gs_next e < n)"
  shows "case r of
      None \<Rightarrow> s = t \<or> (\<nexists>es. graph_walk adj s es \<and> walk_end s es = t \<and> (\<forall>d. max_depth = Some d \<longrightarrow> int (length es) \<le> d))
    | Some row \<Rightarrow> s \<noteq> t \<and> (\<exists>es. graph_walk adj s es \<and> walk_end s es = t \<and> describes s es row
        \<and> (\<forall>es'. graph_walk adj s es' \<and> walk_end s es' = t \<longrightarrow> length es \<le> length es'))"
proof -
  from assms(4) obtain bound rows where bound: "case max_depth of Some d \<Rightarrow> bound = d
        | None \<Rightarrow> \<exists>n. global_vertex_count ar gl db = Inr n \<and> bound = max 1 n"
    and paths: "paths ar gl db source target types bound 1 dir filters key None ''weight'' (Some ''asc'') = (Inr rows, db')"
    and r: "r = (case rows of [] \<Rightarrow> None | r # _ \<Rightarrow> Some r)"
    by (auto simp: shortest_path_def rbind_Inr_iff split: prod.splits sum.splits option.splits if_splits)
  from paths_sorted_walks [OF assms(1-3) paths] obtain mode ess all where all: "1 \<le> bound"
      "mset ess = mset (filter (\<lambda>es. walk_end s es = t) (walks_upto adj s (nat bound)))"
      "list_all2 (\<lambda>es r. describes s es r \<and> scored gl mode ''weight'' es r) ess all"
      "rows_sorted gl None all" "rows = take (nat 1) all"
    unfolding simp_thms if_True by blast
  then have ess: "mset ess = mset (filter (\<lambda>es. walk_end s es = t) (walks_upto adj s (nat bound)))"
    and desc: "list_all2 (\<lambda>es r. describes s es r) ess all"
    and sorted: "rows_sorted gl None all" and rows: "rows = take 1 all" and pos: "1 \<le> bound"
    by (auto elim: list_all2_mono)
  have in_ess: "es \<in> set ess \<longleftrightarrow> simple_walk adj s es \<and> walk_end s es = t \<and> es \<noteq> [] \<and> int (length es) \<le> bound" for es
    unfolding mset_eq_setD [OF ess] using pos by (auto simp: in_walks_upto le_nat_iff)
  have within: "\<exists>es \<in> set ess. length es \<le> length es'"
    if "graph_walk adj s es'" "walk_end s es' = t" "s \<noteq> t" "\<forall>d. max_depth = Some d \<longrightarrow> int (length es') \<le> d" for es'
  proof -
    note w = that
    from walk_simple [OF w(1)] obtain es where es: "simple_walk adj s es" "walk_end s es = t" "length es \<le> length es'"
      using w(2) by metis
    have "int (length es) \<le> bound"
    proof (cases max_depth)
      case None
      with assms(5) bound obtain n where "0 \<le> s \<and> s < n" "bound = max 1 n"
        "\<And>u e. e \<in> set (adj_get adj u) \<Longrightarrow> 0 \<le> gs_next e \<and> gs_next e < n" by auto
      with simple_walk_length [OF es(1)] show ?thesis by fastforce
    next
      case (Some d)
      with w(4) bound es(3) show ?thesis by auto
    qed
    with es w(3) show ?thesis by (force simp: in_ess)
  qed
  show ?thesis
  proof (cases all)
    case Nil
    with desc have "ess = []" by simp
    with within r rows Nil show ?thesis by auto
  next
    case (Cons row rest)
    with desc obtain es ess' where e: "ess = es # ess'" "describes s es row" by (auto simp: list_all2_Cons2)
    then have es: "simple_walk adj s es" "walk_end s es = t" "es \<noteq> []" "int (length es) \<le> bound"
      using in_ess [of es] by simp_all
    have least: "length es \<le> length es'" if "es' \<in> set ess" for es'
    proof -
      from that desc obtain row' where "row' \<in> set all" "describes s es' row'"
        by (metis list_all2_conv_all_nth in_set_conv_nth)
      with sorted_first_least [of gl row rest row'] sorted Cons e(2) show ?thesis by (simp add: describes_def)
    qed
    have "length es \<le> length es'" if "graph_walk adj s es'" "walk_end s es' = t" for es'
    proof -
      note w = that
      from walk_simple [OF w(1)] obtain fs where fs: "simple_walk adj s fs" "walk_end s fs = t" "length fs \<le> length es'"
        using w(2) by metis
      show ?thesis
      proof (cases "int (length fs) \<le> bound")
        case True
        then show ?thesis using fs es simple_walk_self [OF es(1)] least [of fs] in_ess [of fs] by fastforce
      next
        case False
        with fs(3) es(4) show ?thesis by linarith
      qed
    qed
    moreover have "s \<noteq> t" using simple_walk_self [OF es(1)] es(2,3) by blast
    ultimately show ?thesis using es e(2) r rows Cons by (auto simp: simple_walk_def)
  qed
qed

section \<open>A sample graph\<close>

text \<open>Four edges of one relation over three vertices, with all caches filled.\<close>

definition sample_lib :: "(string, int) graph_lib" where
  "sample_lib = \<lparr>gl_compare = (\<lambda>op cs v. Inr (map (\<lambda>c. Some (c = v)) cs)), gl_mtime = (\<lambda>_. 0), gl_iterdir = (\<lambda>_ _. []),
     gl_str = (\<lambda>_. []), gl_dumps = (\<lambda>_. []), gl_float = (\<lambda>c. case c of CInt i \<Rightarrow> Inr i | _ \<Rightarrow> Inl TypeError),
     gl_zero = 0, gl_one = 1, gl_neg = uminus, gl_sum = sum_list, gl_mult = times, gl_div_int = (\<lambda>x n. x div int n)\<rparr>"

definition sample_table :: "string table" where
  "sample_table =
     (let sch = map (\<lambda>n. \<lparr>fld_name = n, fld_type = uint64, fld_nullable = True\<rparr>) [''eid'', ''src'', ''dst''];
          column = (\<lambda>xs. \<lparr>arr_type = uint64, cells = map CInt xs\<rparr>)
      in \<lparr>tschema = sch, tbatches = [\<lparr>bschema = sch, bcols = [column [0, 1, 2, 3], column [0, 1, 0, 2], column [1, 2, 2, 0]], brows = 4\<rparr>]\<rparr>)"

definition sample_db :: "string graph_db" where
  "sample_db = \<lparr>db_bundle = \<lparr>b_path = [''db''], b_manifest = manifest_empty []\<rparr>, db_catalog = catalog_empty [] None,
     db_fs = (\<lambda>_. None), db_edge_tables = [(([''db''], ''knows'', 0), sample_table)],
     db_node_lookups = [(''node_id'', [])], db_id_maps = [(''node_id'', [])]\<rparr>"

definition sample_step :: "int \<Rightarrow> int \<Rightarrow> int \<Rightarrow> string graph_step" where
  "sample_step e a b = \<lparr>gs_edge_id = e, gs_edge_type = ''knows'', gs_src = a, gs_dst = b, gs_properties = [],
     gs_next = b, gs_direction = ''out''\<rparr>"

definition sample_adjacency :: "string adjacency" where
  "sample_adjacency = [(0, [sample_step 0 0 1, sample_step 2 0 2]), (1, [sample_step 1 1 2]), (2, [sample_step 3 2 0])]"

lemma sample_typed_adjacency:
  "fst (typed_adjacency arrow_lists sample_lib sample_db [''knows''] ''out'' [] None None) = Inr sample_adjacency"
  by code_simp

lemma sample_resolved:
  "resolve_graph_node_ids arrow_lists sample_lib sample_db [RefId v] ''node_id'' = (Inr [v], sample_db)"
  by (simp add: resolve_graph_node_ids_def external_id_map_def resolve_graph_node_id_def sample_db_def)

lemma sample_typed:
  "typed_adjacency arrow_lists sample_lib sample_db [''knows''] ''out'' [] None None
     = (Inr sample_adjacency, snd (typed_adjacency arrow_lists sample_lib sample_db [''knows''] ''out'' [] None None))"
  by (simp add: prod_eq_iff sample_typed_adjacency)

definition sample_row :: "int path_row" where
  "sample_row = \<lparr>pr_source = [], pr_target = [], pr_depth = 1, pr_node_ids = [[], []], pr_internal_node_ids = [0, 2],
     pr_edge_ids = [2], pr_relation_types = [''knows''], pr_directions = [''out''], pr_edge_properties = [[]], pr_path_score = None\<rparr>"

theorem paths_correct_witness:
  "\<exists>rows. fst (paths arrow_lists sample_lib sample_db [RefId 0] [RefId 2] [''knows''] 3 5 ''out'' [] ''node_id''
        (Some ''Sum'') ''weight'' (Some ''desc'')) = Inr rows \<and> length rows = 2
     \<and> (\<exists>ess. set ess = {es. graph_walk sample_adjacency 0 es \<and> distinct (walk_nodes 0 es) \<and> walk_end 0 es = 2 \<and> 1 \<le> length es \<and> int (length es) \<le> 3}
          \<and> length ess = 2)"
proof -
  let ?p = "paths arrow_lists sample_lib sample_db [RefId 0] [RefId 2] [''knows''] 3 5 ''out'' [] ''node_id''
        (Some ''Sum'') ''weight'' (Some ''desc'')"
  have len: "case fst ?p of Inr rows \<Rightarrow> length rows = 2 | Inl _ \<Rightarrow> False" by code_simp
  then obtain rows where rows: "fst ?p = Inr rows" "length rows = 2" by (auto split: sum.splits)
  then have p: "?p = (Inr rows, snd ?p)" by (simp add: prod_eq_iff)
  from paths_correct [OF sample_resolved sample_resolved sample_typed p] obtain ess all where
      ess: "set ess = {es. graph_walk sample_adjacency 0 es \<and> distinct (walk_nodes 0 es) \<and> walk_end 0 es = 2 \<and> 1 \<le> length es \<and> int (length es) \<le> 3}"
    and rel: "list_all2 (\<lambda>es r. describes 0 es r \<and> (\<exists>mode. scored sample_lib mode ''weight'' es r)) ess all"
    and take: "rows = take (nat 5) all"
    by (blast intro: list_all2_mono)
  from take rows(2) have "length all = 2" by (simp add: min_def split: if_splits)
  with list_all2_lengthD [OF rel] rows ess show ?thesis by metis
qed

theorem shortest_path_correct_witness:
  "fst (shortest_path arrow_lists sample_lib sample_db [RefId 0] [RefId 2] [''knows''] (Some 3) ''out'' [] ''node_id'') = Inr (Some sample_row)
     \<and> (\<exists>es. graph_walk sample_adjacency 0 es \<and> walk_end 0 es = 2 \<and> describes 0 es sample_row
        \<and> (\<forall>es'. graph_walk sample_adjacency 0 es' \<and> walk_end 0 es' = 2 \<longrightarrow> length es \<le> length es'))"
proof -
  let ?p = "shortest_path arrow_lists sample_lib sample_db [RefId 0] [RefId 2] [''knows''] (Some 3) ''out'' [] ''node_id''"
  have "fst ?p = Inr (Some sample_row)" by code_simp
  moreover from this have "?p = (Inr (Some sample_row), snd ?p)" by (simp add: prod_eq_iff)
  ultimately show ?thesis
    using shortest_path_correct [OF sample_resolved sample_resolved sample_typed] by fastforce
qed

end
