(* ===== verification/Edge_Cache.thy ===== *)
theory Edge_Cache
  imports Path_Theorems Edge_Theorems
begin

text \<open>
  The process-wide dictionary of edge tables that \<open>_get_arrow_table\<close> keeps. Its key contains the
  modification time of \<open>edges/<relation>/data.arrow\<close>, a file no store writes.
\<close>

section \<open>What an append leaves alone\<close>

lemma mkdirs_keeps: "mkdirs fs [] p = Inr fs' \<Longrightarrow> \<not> prefix q p \<Longrightarrow> fs' q = fs q"
  using mkdirs_not_prefix [of fs "[]" p fs' q] by simp

lemma not_prefix_butlast: "\<not> prefix q p \<Longrightarrow> \<not> prefix q (butlast p)"
  using prefix_order.trans [OF _ prefixeq_butlast] by blast

lemma write_file_atomic_keeps:
  "write_file_atomic c fs p = (r, fs') \<Longrightarrow> \<not> prefix q p \<Longrightarrow> q \<noteq> tmp_path p \<Longrightarrow> fs' q = fs q"
  using not_prefix_butlast [of q p] mkdirs_keeps [of fs "butlast p" _ q]
  by (auto simp: write_file_atomic_def Let_def split: sum.splits if_splits)

lemma writer_append_path: "writer_append b w = Inr w' \<Longrightarrow> cw_path w' = cw_path w"
  by (auto simp: writer_append_def split: if_splits)

lemma write_column_segment_keeps:
  assumes "write_column_segment ar fs p bs codec = (r, fs')" "\<not> prefix q p" "q \<noteq> tmp_path p"
  shows "fs' q = fs q"
proof (cases "rbind (column_writer p codec) (rfold writer_append bs)")
  case (Inl e) with assms show ?thesis by (simp add: write_column_segment_def)
next
  case (Inr w)
  have "cw_path w = cw_path w0" if "rfold writer_append bs w0 = Inr w" for w0
    using that by (induction bs arbitrary: w0) (auto simp: rbind_Inr_iff dest: writer_append_path)
  with Inr have p: "cw_path w = p" by (auto simp: rbind_Inr_iff column_writer_def split: if_splits)
  have "fs' q = fs q" if "writer_close ar fs w = (r, w', fs')" for w'
    using that assms(2,3) not_prefix_butlast [OF assms(2)] mkdirs_keeps [of fs "butlast p" _ q]
    by (auto simp: writer_close_def p dest!: write_file_atomic_keeps [of _ _ _ _ _ q]
        split: if_splits sum.splits prod.splits)
  with Inr assms(1) show ?thesis by (auto simp: write_column_segment_def split: prod.splits)
qed

text \<open>An append writes the chunk and the manifest of its store and nothing else in its directory.\<close>

lemma edge_append_keeps:
  assumes "edge_append ar fs st arg lsn = (r, st', fs')"
    and "nm \<notin> {CHUNKS_DIRNAME, EDGE_MANIFEST_NAME, EDGE_MANIFEST_NAME @ ''.tmp''}"
  shows "fs' (es_root st @ [nm]) = fs (es_root st @ [nm]) \<and> es_root st' = es_root st"
proof -
  have chunk: "f' (root @ [nm]) = f (root @ [nm])" if "write_chunk ar f root codec i a b x = (r, f')" for f root codec i a b x r f'
    using that assms(2)
    by (auto simp: write_chunk_def tmp_path_def butlast_append split: sum.splits prod.splits
        dest!: write_column_segment_keeps [of _ _ _ _ _ _ _ "root @ [nm]"])
  have manifest: "f' (root @ [nm]) = f (root @ [nm])" if "save_edge_manifest f root m = (r, f')" for f root m r f'
    using that assms(2)
    by (auto simp: save_edge_manifest_def edge_manifest_path_def tmp_path_def
        dest!: write_file_atomic_keeps [of _ _ _ _ _ "root @ [nm]"])
  show ?thesis
    using assms(1) by (auto simp: edge_append_def Let_def split: sum.splits prod.splits dest!: chunk manifest)
qed

lemma append_run_keeps:
  assumes "append_run (\<lambda>fs st u. edge_append ar fs st (ABatch u)) fs st vs = (r, st', fs')"
    and "nm \<notin> {CHUNKS_DIRNAME, EDGE_MANIFEST_NAME, EDGE_MANIFEST_NAME @ ''.tmp''}"
  shows "fs' (es_root st @ [nm]) = fs (es_root st @ [nm])"
  using assms(1)
proof (induction vs arbitrary: fs st)
  case (Cons v vs)
  obtain r1 st1 fs1 where step: "edge_append ar fs st (ABatch (fst v)) (snd v) = (r1, st1, fs1)"
    by (metis prod_cases3)
  with Cons.prems have "fs' = fs1 \<or> append_run (\<lambda>fs st u. edge_append ar fs st (ABatch u)) fs1 st1 vs = (r, st', fs')"
    by (cases v) (auto split: sum.splits)
  with edge_append_keeps [OF step assms(2)] Cons.IH [of fs1 st1] show ?case by auto
qed simp

section \<open>The cached table\<close>

lemma get_arrow_table_cached:
  "get_arrow_table ar gl db relation = (Inr t, db1) \<Longrightarrow> find_property_by_local_name (db_catalog db) relation \<noteq> None \<Longrightarrow>
     map_of (db_edge_tables db1) (edge_table_key gl db relation) = Some t
     \<and> (\<exists>ts. db1 = db\<lparr>db_edge_tables := ts\<rparr>)"
  by (auto simp: get_arrow_table_def Let_def dict_lookup_update split: option.splits sum.splits
      intro: exI [of _ "db_edge_tables db"])

text \<open>
  C37: graph queries do not see later edges. Once the edge table of a relation was read, any run
  of appends to its store succeeds and a scan of the store returns the new batches too, but
  \<open>_get_arrow_table\<close> goes on returning the first table: its key does not change, because appends
  never write \<open>data.arrow\<close>.
\<close>

theorem cached_edges_stale:
  assumes "arrow_laws ar" and "edge_ok ar bnd codec fs st us"
    and "\<forall>i < length vs. edge_accepts ar codec (us @ take i vs) (fst (vs ! i)) (snd (vs ! i))"
    and "db_bundle db = bnd" "db_fs db = fs" "es_root st = bundle_child bnd [''edges'', relation]"
    and "fs (bundle_child bnd [''edges'', relation, ''data.arrow'']) = None"
    and "find_property_by_local_name (db_catalog db) relation \<noteq> None"
    and "get_arrow_table ar gl db relation = (Inr t, db1)"
  shows "\<exists>st' fs'. append_run (\<lambda>fs st u. edge_append ar fs st (ABatch u)) fs st vs = (Inr (), st', fs')
    \<and> edge_scan ar fs' st' None None = Inr (history_scan EID_COLUMN (us @ vs))
    \<and> get_arrow_table ar gl (db1\<lparr>db_fs := fs'\<rparr>) relation = (Inr t, db1\<lparr>db_fs := fs'\<rparr>)"
proof -
  from arrow_laws.edge_reopened_scan [OF assms(1-3)] obtain st' fs' where
    run: "append_run (\<lambda>fs st u. edge_append ar fs st (ABatch u)) fs st vs = (Inr (), st', fs')"
    and scan: "edge_scan ar fs' st' None None = Inr (history_scan EID_COLUMN (us @ vs))" by blast
  have "fs' (es_root st @ [''data.arrow'']) = fs (es_root st @ [''data.arrow''])"
    by (rule append_run_keeps [OF run]) (simp add: CHUNKS_DIRNAME_def EDGE_MANIFEST_NAME_def)
  then have none: "fs' (b_path bnd @ [''edges'', relation, ''data.arrow'']) = None"
    using assms(6,7) by (simp add: bundle_child_def)
  from get_arrow_table_cached [OF assms(9,8)] obtain ts where
    t: "map_of (db_edge_tables db1) (edge_table_key gl db relation) = Some t" and db1: "db1 = db\<lparr>db_edge_tables := ts\<rparr>"
    by blast
  have "edge_table_key gl (db1\<lparr>db_fs := fs'\<rparr>) relation = edge_table_key gl db relation"
    using none assms(4,5,7) by (simp add: edge_table_key_def Let_def db1 path_exists_def bundle_child_def)
  with t have "get_arrow_table ar gl (db1\<lparr>db_fs := fs'\<rparr>) relation = (Inr t, db1\<lparr>db_fs := fs'\<rparr>)"
    by (simp add: get_arrow_table_def Let_def)
  with run scan show ?thesis by blast
qed

text \<open>A database with the relation \<open>knows\<close>, whose edge table was read while it was empty.\<close>

definition knows_property :: property_def where
  "knows_property = \<lparr>pd_pid = 1, pd_iri = ''p:knows'', pd_local_name = Some ''knows'', pd_kind = PK_OBJECT,
     pd_superproperty_iris = [], pd_domain_iris = [], pd_range_type = None, pd_range_iris = [],
     pd_characteristics = [], pd_fields = [], pd_inverse_iri = None, pd_doc = None\<rparr>"

definition knows_db :: "fs \<Rightarrow> string graph_db" where
  "knows_db fs = \<lparr>db_bundle = sample_bundle, db_catalog = (catalog_empty [] None)\<lparr>c_properties := [knows_property]\<rparr>,
     db_fs = fs, db_edge_tables = [(([''b.crcl''], ''knows'', 0), NO_EDGES)], db_node_lookups = [], db_id_maps = []\<rparr>"

theorem cached_edges_stale_witness:
  "\<exists>fs st st' fs'. append_run (\<lambda>fs st u. edge_append arrow_lists fs st (ABatch u)) fs st [(sample_edges, 1)] = (Inr (), st', fs')
    \<and> edge_scan arrow_lists fs' st' None None = Inr (history_scan EID_COLUMN [(sample_edges, 1)])
    \<and> fst (get_arrow_table arrow_lists sample_lib (knows_db fs') ''knows'') = Inr NO_EDGES"
proof -
  have c: "codec_ready arrow_lists ''none''" "local_name_match ''knows''"
    by (simp_all add: codec_ready_def local_name_match_def name_start_def name_char_def ascii_between_def)
  obtain st fs where o: "open_edge_store (\<lambda>_. None) sample_bundle ''p:knows'' ''knows'' None None True ''none'' = (Inr st, fs)"
    and ok: "edge_ok arrow_lists sample_bundle ''none'' fs st []"
    and nm: "em_local_name (es_manifest st) = ''knows''"
    using edge_create_ok [OF c sample_dir_free, of None None "''p:knows''"] by auto
  have "snd (open_edge_store (\<lambda>_. None) sample_bundle ''p:knows'' ''knows'' None None True ''none'')
      (bundle_child sample_bundle [''edges'', ''knows'', ''data.arrow'']) = None"
    by code_simp
  with o have none: "fs (bundle_child sample_bundle [''edges'', ''knows'', ''data.arrow'']) = None" by simp
  have key: "edge_table_key sample_lib (knows_db fs) ''knows'' = ([''b.crcl''], ''knows'', 0)"
    using none by (simp add: edge_table_key_def Let_def knows_db_def sample_lib_def)
  have "find_property_by_local_name (db_catalog (knows_db fs)) ''knows'' \<noteq> None"
    by (simp add: knows_db_def find_property_by_local_name_def knows_property_def local_or_def)
  moreover have "get_arrow_table arrow_lists sample_lib (knows_db fs) ''knows'' = (Inr NO_EDGES, knows_db fs)"
    unfolding get_arrow_table_def Let_def key by (simp add: knows_db_def)
  moreover have "es_root st = bundle_child sample_bundle [''edges'', ''knows'']"
    using ok nm by (simp add: edge_ok_def Let_def)
  moreover have "db_bundle (knows_db fs) = sample_bundle" "db_fs (knows_db fs) = fs" "knows_db fs\<lparr>db_fs := fs'\<rparr> = knows_db fs'" for fs'
    by (simp_all add: knows_db_def)
  ultimately show ?thesis
    using cached_edges_stale [OF ar_lists.arrow_laws_axioms ok, of "[(sample_edges, 1)]" "knows_db fs" "''knows''" sample_lib NO_EDGES "knows_db fs"]
      sample_accepts none by fastforce
qed

end
