(* ===== verification/Graph_Search.thy ===== *)
theory Graph_Search
  imports Path_Search
begin

text \<open>
  Breadth-first queries (\<open>neighbors\<close> and \<open>k_hop\<close> of \<open>api.py\<close>) with their limits. Results are the rows
  the code collects; their conversion to Arrow tables is left out.
\<close>

section \<open>Neighbors\<close>

record ('v, 'f) neighbor_row =
  nr_node_id :: "'v cell"
  nr_node_type :: "string option"
  nr_internal_id :: int
  nr_depth :: nat
  nr_via_edge_id :: int
  nr_via_edge_type :: string
  nr_path_score :: "'f option"
  nr_path :: "(string list \<times> int list \<times> string list) option"

definition neighbor_result_row ::
  "('v, 'f::linorder) graph_lib \<Rightarrow> (int, 'v node_info) dict \<Rightarrow> string option \<Rightarrow> string \<Rightarrow> bool
    \<Rightarrow> nat \<Rightarrow> 'v graph_step \<Rightarrow> int list \<Rightarrow> 'v graph_step list \<Rightarrow> ('v, 'f) neighbor_row result" where
  "neighbor_result_row gl lookup score_mode score_property return_paths depth s path_nodes path_edges =
     (let node_info = node_info_at lookup (gs_next s) in
      rbind (path_score gl path_edges score_mode score_property) (\<lambda>score.
      Inr \<lparr>nr_node_id = ni_node_id node_info, nr_node_type = ni_node_type node_info, nr_internal_id = gs_next s,
           nr_depth = depth, nr_via_edge_id = gs_edge_id s, nr_via_edge_type = gs_edge_type s, nr_path_score = score,
           nr_path = (if return_paths
                      then Some (path_node_names gl lookup path_nodes, map gs_edge_id path_edges, map gs_edge_type path_edges)
                      else None)\<rparr>))"

text \<open>
  The loop over the steps of a node. The result says whether the limit was reached, which ends the
  query; \<open>stop\<close> is that test on the rows.
\<close>

type_synonym 'v search_entry = "int \<times> nat \<times> int list \<times> 'v graph_step list"

fun visit_steps ::
  "(nat \<Rightarrow> 'v graph_step \<Rightarrow> int list \<Rightarrow> 'v graph_step list \<Rightarrow> 'r result) \<Rightarrow> (int \<Rightarrow> bool) \<Rightarrow> ('r list \<Rightarrow> bool)
    \<Rightarrow> nat \<Rightarrow> int list \<Rightarrow> 'v graph_step list \<Rightarrow> 'v graph_step list \<Rightarrow> 'r list \<times> int set \<times> 'v search_entry list
    \<Rightarrow> (bool \<times> 'r list \<times> int set \<times> 'v search_entry list) result" where
  "visit_steps mk allowed stop next_depth path_nodes path_edges [] st = Inr (False, st)"
| "visit_steps mk allowed stop next_depth path_nodes path_edges (s # ss) (rows, visited, queue) =
     (let target = gs_next s; next_path_nodes = path_nodes @ [target]; next_path_edges = path_edges @ [s] in
      if target \<in> visited then visit_steps mk allowed stop next_depth path_nodes path_edges ss (rows, visited, queue)
      else
        rbind (if allowed target
               then rbind (mk next_depth s next_path_nodes next_path_edges) (\<lambda>r. Inr (rows @ [r]))
               else Inr rows) (\<lambda>rows'.
        if allowed target \<and> stop rows' then Inr (True, rows', insert target visited, queue)
        else visit_steps mk allowed stop next_depth path_nodes path_edges ss
               (rows', insert target visited, queue @ [(target, next_depth, next_path_nodes, next_path_edges)])))"

lemma visit_steps_queue:
  "visit_steps mk allowed stop nd pn pe steps (rows, visited, queue) = Inr (b, rows', visited', queue') \<Longrightarrow>
     \<exists>new. queue' = queue @ new \<and> (\<forall>p \<in> set new. fst (snd p) = nd)"
proof (induction steps arbitrary: rows visited queue)
  case (Cons s steps)
  then show ?case by (fastforce simp: Let_def rbind_Inr_iff split: if_splits)
qed simp

function neighbor_loop ::
  "'v adjacency \<Rightarrow> (nat \<Rightarrow> 'v graph_step \<Rightarrow> int list \<Rightarrow> 'v graph_step list \<Rightarrow> 'r result) \<Rightarrow> (int \<Rightarrow> bool) \<Rightarrow> ('r list \<Rightarrow> bool)
    \<Rightarrow> nat \<Rightarrow> 'v search_entry list \<Rightarrow> 'r list \<Rightarrow> int set \<Rightarrow> (bool \<times> 'r list) result" where
  "neighbor_loop adj mk allowed stop depth [] rows visited = Inr (False, rows)"
| "neighbor_loop adj mk allowed stop depth ((current, current_depth, path_nodes, path_edges) # queue) rows visited =
     (if current_depth \<ge> depth then neighbor_loop adj mk allowed stop depth queue rows visited
      else
        (case visit_steps mk allowed stop (Suc current_depth) path_nodes path_edges (adj_get adj current) (rows, visited, queue) of
           Inl e \<Rightarrow> Inl e
         | Inr (True, rows', _) \<Rightarrow> Inr (True, rows')
         | Inr (False, rows', visited', queue') \<Rightarrow> neighbor_loop adj mk allowed stop depth queue' rows' visited'))"
  by pat_completeness auto

termination
proof (relation "inv_image (mult less_than)
    (\<lambda>(adj, mk, allowed, stop, d, queue, rows, visited). mset (map (\<lambda>p. d - fst (snd p)) queue))", goal_cases)
  case 1
  show ?case by (intro wf_inv_image wf_mult wf_less_than)
next
  case (2 adj mk allowed stop d current current_depth path_nodes path_edges queue rows visited)
  then show ?case
    using one_step_implies_mult [of "{#d - current_depth#}" "{#}" less_than] by simp
next
  case (3 adj mk allowed stop d current cd path_nodes path_edges queue rows visited x p1 p2 rows' p3 visited' queue')
  let ?m = "\<lambda>p. d - fst (snd p)"
  from 3 have "visit_steps mk allowed stop (Suc cd) path_nodes path_edges (adj_get adj current) (rows, visited, queue)
      = Inr (False, rows', visited', queue')" by simp
  from visit_steps_queue [OF this] obtain new where "queue' = queue @ new" and new: "\<forall>p \<in> set new. fst (snd p) = Suc cd"
    by blast
  moreover have "(mset (map ?m queue) + mset (map ?m new), mset (map ?m queue) + {#d - cd#}) \<in> mult less_than"
    by (rule one_step_implies_mult) (use new 3 in auto)
  ultimately show ?case by simp
qed

definition sort_neighbor_rows ::
  "('v, 'f::linorder) graph_lib \<Rightarrow> string \<Rightarrow> ('v, 'f) neighbor_row list \<Rightarrow> ('v, 'f) neighbor_row list" where
  "sort_neighbor_rows gl order = sort_key (\<lambda>r. (ordered_score gl order (nr_path_score r), nr_depth r, nr_internal_id r))"

definition check_neighbors_args ::
  "int \<Rightarrow> string \<Rightarrow> int option \<Rightarrow> int option \<Rightarrow> string option \<Rightarrow> string option \<Rightarrow> string list
    \<Rightarrow> (string option \<times> string option) result" where
  "check_neighbors_args depth direction limit top_edges score order edge_types =
     (if depth < 1 then raise_code ''CDB-6031''
      else
        rbind (check_direction direction) (\<lambda>_.
        if (case limit of None \<Rightarrow> False | Some k \<Rightarrow> k < 0) then raise_code ''CDB-6020''
        else if (case top_edges of None \<Rightarrow> False | Some k \<Rightarrow> k < 0) then raise_code ''CDB-6020''
        else
          rbind (normalize_path_score_mode score) (\<lambda>score_mode.
          rbind (normalize_score_order order) (\<lambda>score_order.
          if edge_types = [] then raise_code ''CDB-6020'' else Inr (score_mode, score_order)))))"

text \<open>\<open>_coerce_local_name\<close> of a string.\<close>

definition coerce_local_name :: "string \<Rightarrow> string result" where
  "coerce_local_name v = (let nm = local_name_of v in if nm = [] then raise_code ''CDB-7010'' else Inr nm)"

definition neighbors ::
  "'v arrow \<Rightarrow> ('v, 'f::linorder) graph_lib \<Rightarrow> 'v graph_db \<Rightarrow> 'v node_ref list \<Rightarrow> string list \<Rightarrow> string \<Rightarrow> int \<Rightarrow> int option
    \<Rightarrow> string list \<Rightarrow> 'v row \<Rightarrow> bool \<Rightarrow> string \<Rightarrow> string option \<Rightarrow> int option \<Rightarrow> string option \<Rightarrow> string \<Rightarrow> string option
    \<Rightarrow> ('v, 'f) neighbor_row list result \<times> 'v graph_db" where
  "neighbors ar gl db seeds edge_types direction depth limit node_type_filters edge_filters return_paths node_key_col
      weight_property top_edges_per_node score score_property order =
     (case check_neighbors_args depth direction limit top_edges_per_node score order edge_types of
        Inl e \<Rightarrow> (Inl e, db)
      | Inr (score_mode, score_order) \<Rightarrow>
          (case resolve_graph_node_ids ar gl db seeds node_key_col of
             (Inl e, db1) \<Rightarrow> (Inl e, db1)
           | (Inr seed_ids, db1) \<Rightarrow>
               (case node_lookup ar gl db1 node_key_col of
                  (Inl e, db2) \<Rightarrow> (Inl e, db2)
                | (Inr lookup, db2) \<Rightarrow>
                    (case rmap coerce_local_name node_type_filters of
                       Inl e \<Rightarrow> (Inl e, db2)
                     | Inr allowed_types \<Rightarrow>
                         (case typed_adjacency ar gl db2 edge_types direction edge_filters weight_property top_edges_per_node of
                            (Inl e, db3) \<Rightarrow> (Inl e, db3)
                          | (Inr adj, db3) \<Rightarrow>
                              let by_score = score_mode \<noteq> None \<and> score_order \<noteq> None;
                                  allowed = (\<lambda>v. allowed_types = [] \<or>
                                    (case ni_node_type (node_info_at lookup v) of None \<Rightarrow> False | Some t \<Rightarrow> t \<in> set allowed_types));
                                  stop = (\<lambda>rows. case limit of None \<Rightarrow> False | Some k \<Rightarrow> int (length rows) \<ge> k \<and> \<not> by_score)
                              in
                              (rbind (neighbor_loop adj
                                   (neighbor_result_row gl lookup score_mode score_property return_paths) allowed stop
                                   (nat depth) (map (\<lambda>v. (v, 0, [v], [])) seed_ids) [] (set seed_ids)) (\<lambda>(stopped, rows).
                               if stopped then Inr rows
                               else
                                 let rows' = (if by_score then sort_neighbor_rows gl (the score_order) rows else rows) in
                                 Inr (case limit of None \<Rightarrow> rows' | Some k \<Rightarrow> take (nat k) rows')), db3))))))"

section \<open>k-hop subgraphs\<close>

record 'v k_hop_node =
  kn_node_id :: "'v cell"
  kn_node_type :: "string option"
  kn_internal_id :: int
  kn_depth :: nat

record 'v k_hop_edge =
  ke_edge_id :: int
  ke_edge_type :: string
  ke_src :: "'v cell"
  ke_dst :: "'v cell"
  ke_src_internal_id :: int
  ke_dst_internal_id :: int
  ke_direction :: string
  ke_depth :: nat

definition k_hop_node_row :: "'v node_info \<Rightarrow> int \<Rightarrow> nat \<Rightarrow> 'v k_hop_node" where
  "k_hop_node_row info internal_id depth =
     \<lparr>kn_node_id = ni_node_id info, kn_node_type = ni_node_type info, kn_internal_id = internal_id, kn_depth = depth\<rparr>"

definition k_hop_edge_row :: "'v graph_step \<Rightarrow> (int, 'v node_info) dict \<Rightarrow> nat \<Rightarrow> 'v k_hop_edge" where
  "k_hop_edge_row s lookup depth =
     \<lparr>ke_edge_id = gs_edge_id s, ke_edge_type = gs_edge_type s,
      ke_src = ni_node_id (node_info_at lookup (gs_src s)), ke_dst = ni_node_id (node_info_at lookup (gs_dst s)),
      ke_src_internal_id = gs_src s, ke_dst_internal_id = gs_dst s, ke_direction = gs_direction s, ke_depth = depth\<rparr>"

text \<open>
  The edge rows, the keys of the edges seen, the depth of every node found, and the queue. After the
  \<open>break\<close> at \<open>max_edges\<close> the remaining steps change nothing.
\<close>

type_synonym 'v k_hop_state =
  "'v k_hop_edge list \<times> (int \<times> string) set \<times> (int, nat) dict \<times> (int \<times> nat) list"

definition k_hop_step ::
  "int \<Rightarrow> int \<Rightarrow> (int, 'v node_info) dict \<Rightarrow> nat \<Rightarrow> 'v graph_step \<Rightarrow> 'v k_hop_state \<Rightarrow> 'v k_hop_state" where
  "k_hop_step max_nodes max_edges lookup current_depth s st =
     (case st of (edge_rows, seen_edges, node_depth, queue) \<Rightarrow>
        if int (length edge_rows) \<ge> max_edges then st
        else
          let edge_key = (gs_edge_id s, gs_edge_type s); target = gs_next s;
              (edge_rows', seen_edges') =
                (if edge_key \<notin> seen_edges
                 then (edge_rows @ [k_hop_edge_row s lookup (Suc current_depth)], insert edge_key seen_edges)
                 else (edge_rows, seen_edges))
          in
          if target \<notin> set (dict_keys node_depth) \<and> int (length node_depth) < max_nodes
          then (edge_rows', seen_edges', AList.update target (Suc current_depth) node_depth, queue @ [(target, Suc current_depth)])
          else (edge_rows', seen_edges', node_depth, queue))"

lemma k_hop_step_queue:
  "\<exists>new. snd (snd (snd (k_hop_step mn me lookup cd s st))) = snd (snd (snd st)) @ new \<and> (\<forall>p \<in> set new. snd p = Suc cd)"
  by (cases st) (auto simp: k_hop_step_def Let_def)

lemma k_hop_steps_queue:
  "\<exists>new. snd (snd (snd (fold (k_hop_step mn me lookup cd) ss st))) = snd (snd (snd st)) @ new \<and> (\<forall>p \<in> set new. snd p = Suc cd)"
proof (induction ss arbitrary: st)
  case (Cons s ss)
  obtain new1 where 1: "snd (snd (snd (k_hop_step mn me lookup cd s st))) = snd (snd (snd st)) @ new1" "\<forall>p \<in> set new1. snd p = Suc cd"
    using k_hop_step_queue by blast
  obtain new2 where "snd (snd (snd (fold (k_hop_step mn me lookup cd) ss (k_hop_step mn me lookup cd s st))))
      = snd (snd (snd (k_hop_step mn me lookup cd s st))) @ new2" "\<forall>p \<in> set new2. snd p = Suc cd"
    using Cons by blast
  with 1 show ?case by (intro exI [of _ "new1 @ new2"]) auto
qed simp

function k_hop_loop ::
  "'v adjacency \<Rightarrow> int \<Rightarrow> int \<Rightarrow> (int, 'v node_info) dict \<Rightarrow> nat \<Rightarrow> 'v k_hop_state \<Rightarrow> 'v k_hop_edge list \<times> (int, nat) dict" where
  "k_hop_loop adj max_nodes max_edges lookup depth (edge_rows, seen_edges, node_depth, []) = (edge_rows, node_depth)"
| "k_hop_loop adj max_nodes max_edges lookup depth (edge_rows, seen_edges, node_depth, (current, current_depth) # queue) =
     (if int (length node_depth) \<ge> max_nodes then (edge_rows, node_depth)
      else if current_depth \<ge> depth
      then k_hop_loop adj max_nodes max_edges lookup depth (edge_rows, seen_edges, node_depth, queue)
      else
        k_hop_loop adj max_nodes max_edges lookup depth
          (fold (k_hop_step max_nodes max_edges lookup current_depth) (adj_get adj current)
             (edge_rows, seen_edges, node_depth, queue)))"
  by pat_completeness auto

termination
proof (relation "inv_image (mult less_than)
    (\<lambda>(adj, mn, me, lookup, d, st). mset (map (\<lambda>p. d - snd p) (snd (snd (snd st)))))", goal_cases)
  case 1
  show ?case by (intro wf_inv_image wf_mult wf_less_than)
next
  case (2 adj mn me lookup d edge_rows seen nd current cd queue)
  then show ?case using one_step_implies_mult [of "{#d - cd#}" "{#}" less_than] by simp
next
  case (3 adj mn me lookup d edge_rows seen nd current cd queue)
  let ?m = "\<lambda>p. d - snd p"
  let ?st = "fold (k_hop_step mn me lookup cd) (adj_get adj current) (edge_rows, seen, nd, queue)"
  from k_hop_steps_queue [of mn me lookup cd "adj_get adj current" "(edge_rows, seen, nd, queue)"]
  obtain new where q: "snd (snd (snd ?st)) = queue @ new" and new: "\<forall>p \<in> set new. snd p = Suc cd" by auto
  have "(mset (map ?m queue) + mset (map ?m new), mset (map ?m queue) + {#d - cd#}) \<in> mult less_than"
    by (rule one_step_implies_mult) (use new 3 in auto)
  then show ?case by (simp add: q)
qed

definition k_hop ::
  "'v arrow \<Rightarrow> ('v, 'f::linorder) graph_lib \<Rightarrow> 'v graph_db \<Rightarrow> 'v node_ref list \<Rightarrow> int \<Rightarrow> string list \<Rightarrow> string \<Rightarrow> int \<Rightarrow> int
    \<Rightarrow> string \<Rightarrow> ('v k_hop_node list \<times> 'v k_hop_edge list) result \<times> 'v graph_db" where
  "k_hop ar gl db seeds depth edge_types direction max_nodes max_edges node_key_col =
     (case (if depth < 0 then raise_code ''CDB-6031''
            else if max_nodes < 0 \<or> max_edges < 0 then raise_code ''CDB-6020''
            else check_direction direction) of
        Inl e \<Rightarrow> (Inl e, db)
      | Inr _ \<Rightarrow>
          (case resolve_graph_node_ids ar gl db seeds node_key_col of
             (Inl e, db1) \<Rightarrow> (Inl e, db1)
           | (Inr seed_ids, db1) \<Rightarrow>
               (case node_lookup ar gl db1 node_key_col of
                  (Inl e, db2) \<Rightarrow> (Inl e, db2)
                | (Inr lookup, db2) \<Rightarrow>
                    (case typed_adjacency ar gl db2 edge_types direction [] None None of
                       (Inl e, db3) \<Rightarrow> (Inl e, db3)
                     | (Inr adj, db3) \<Rightarrow>
                         (case k_hop_loop adj max_nodes max_edges lookup (nat depth)
                                 ([], {}, fold (\<lambda>v. AList.update v 0) seed_ids [], map (\<lambda>v. (v, 0)) seed_ids) of
                            (edge_rows, node_depth) \<Rightarrow>
                              (Inr (map (\<lambda>(gid, d). k_hop_node_row (node_info_at lookup gid) gid d)
                                      (sort_key (\<lambda>(gid, d). (d, gid)) node_depth), edge_rows), db3))))))"

end
