(* ===== verification/Graph_Search_Theorems.thy ===== *)
theory Graph_Search_Theorems
  imports Graph_Search Path_Theorems
begin

text \<open>
  What the breadth-first queries find: the nodes at each distance from the seeds, each once, and for
  \<open>k_hop\<close> the edges out of the nodes nearer than the depth, with the effect of the limits.
\<close>

section \<open>Distances\<close>

definition reach_in :: "'v adjacency \<Rightarrow> int set \<Rightarrow> nat \<Rightarrow> int \<Rightarrow> bool" where
  "reach_in adj S k v \<longleftrightarrow> (\<exists>s \<in> S. \<exists>es. graph_walk adj s es \<and> walk_end s es = v \<and> length es = k)"

definition distance_is :: "'v adjacency \<Rightarrow> int set \<Rightarrow> int \<Rightarrow> nat \<Rightarrow> bool" where
  "distance_is adj S v d \<longleftrightarrow> reach_in adj S d v \<and> (\<forall>j < d. \<not> reach_in adj S j v)"

definition ball :: "'v adjacency \<Rightarrow> int set \<Rightarrow> nat \<Rightarrow> int set" where
  "ball adj S k = {v. \<exists>j \<le> k. reach_in adj S j v}"

definition layer :: "'v adjacency \<Rightarrow> int set \<Rightarrow> nat \<Rightarrow> int set" where
  "layer adj S k = {v. distance_is adj S v k}"

definition successors :: "'v adjacency \<Rightarrow> int set \<Rightarrow> int set" where
  "successors adj U = (\<Union>u \<in> U. gs_next ` set (adj_get adj u))"

lemma reach_in_0: "reach_in adj S 0 v \<longleftrightarrow> v \<in> S"
  by (auto simp: reach_in_def)

lemma reach_in_Suc: "reach_in adj S (Suc k) v \<longleftrightarrow> v \<in> successors adj {u. reach_in adj S k u}"
proof
  assume "reach_in adj S (Suc k) v"
  then obtain s es where w: "s \<in> S" "graph_walk adj s es" "walk_end s es = v" "length es = Suc k"
    by (auto simp: reach_in_def)
  then obtain fs e where "es = fs @ [e]" by (cases es rule: rev_cases) auto
  with w show "v \<in> successors adj {u. reach_in adj S k u}"
    by (auto simp: successors_def walk_append reach_in_def image_iff)
next
  assume "v \<in> successors adj {u. reach_in adj S k u}"
  then obtain s es e where "s \<in> S" "graph_walk adj s es" "length es = k" "e \<in> set (adj_get adj (walk_end s es))" "v = gs_next e"
    by (auto simp: successors_def reach_in_def)
  then show "reach_in adj S (Suc k) v"
    unfolding reach_in_def by (intro bexI [of _ s] exI [of _ "es @ [e]"]) (simp_all add: walk_append)
qed

lemma ball_0: "ball adj S 0 = S"
  by (auto simp: ball_def reach_in_0)

lemma layer_0: "layer adj S 0 = S"
  by (auto simp: layer_def distance_is_def reach_in_0)

lemma layer_eq: "layer adj S (Suc k) = {v. reach_in adj S (Suc k) v} - ball adj S k"
  by (auto simp: layer_def distance_is_def ball_def less_Suc_eq_le)

lemma ball_layer: "v \<in> ball adj S k \<longleftrightarrow> (\<exists>d \<le> k. distance_is adj S v d)"
proof
  assume "v \<in> ball adj S k"
  then obtain j where j: "j \<le> k" "reach_in adj S j v" by (auto simp: ball_def)
  let ?d = "LEAST j. reach_in adj S j v"
  have "reach_in adj S ?d v" "?d \<le> j" "\<forall>i < ?d. \<not> reach_in adj S i v"
    using j LeastI [of "\<lambda>j. reach_in adj S j v"] Least_le [of "\<lambda>j. reach_in adj S j v"] not_less_Least by blast+
  moreover have "?d \<le> k" using j calculation(2) by simp
  ultimately have "?d \<le> k \<and> distance_is adj S v ?d" unfolding distance_is_def by blast
  then show "\<exists>d \<le> k. distance_is adj S v d" by blast
qed (auto simp: ball_def distance_is_def)

lemma successors_ball: "successors adj (layer adj S k) - ball adj S k = layer adj S (Suc k)"
proof -
  have "v \<in> layer adj S (Suc k)" if "v \<in> successors adj (layer adj S k)" "v \<notin> ball adj S k" for v
    unfolding layer_eq using that by (auto simp: reach_in_Suc successors_def layer_def distance_is_def)
  moreover have "v \<in> successors adj (layer adj S k) \<and> v \<notin> ball adj S k" if "v \<in> layer adj S (Suc k)" for v
  proof -
    from that obtain u e where u: "reach_in adj S k u" "e \<in> set (adj_get adj u)" "v = gs_next e" "v \<notin> ball adj S k"
      by (auto simp: layer_eq reach_in_Suc successors_def)
    have "\<not> reach_in adj S j u" if "j < k" for j
    proof
      assume "reach_in adj S j u"
      with u have "reach_in adj S (Suc j) v" by (auto simp: reach_in_Suc successors_def)
      with u(4) that show False by (auto simp: ball_def Suc_le_eq)
    qed
    with u show ?thesis by (auto simp: layer_def distance_is_def successors_def)
  qed
  ultimately show ?thesis by blast
qed

lemma ball_Suc: "ball adj S (Suc k) = ball adj S k \<union> layer adj S (Suc k)"
  by (auto simp: layer_eq ball_def le_Suc_eq)

lemma ball_Suc_successors: "ball adj S (Suc k) = ball adj S k \<union> successors adj (layer adj S k)"
proof -
  have "successors adj (layer adj S k) \<subseteq> ball adj S (Suc k)"
    using successors_ball [of adj S k] by (auto simp: ball_Suc)
  then show ?thesis using successors_ball [of adj S k] by (auto simp: ball_Suc)
qed

section \<open>Neighbors\<close>

text \<open>The steps of a list that lead to a new node.\<close>

fun scan :: "'v graph_step list \<Rightarrow> int set \<Rightarrow> 'v graph_step list" where
  "scan [] V = []"
| "scan (s # ss) V = (if gs_next s \<in> V then scan ss V else s # scan ss (insert (gs_next s) V))"

definition child :: "'v search_entry \<Rightarrow> 'v graph_step \<Rightarrow> 'v search_entry" where
  "child p s = (case p of (v, d, pn, pe) \<Rightarrow> (gs_next s, Suc d, pn @ [gs_next s], pe @ [s]))"

definition child_entries :: "'v adjacency \<Rightarrow> 'v search_entry \<Rightarrow> int set \<Rightarrow> 'v search_entry list" where
  "child_entries adj p V = map (child p) (scan (adj_get adj (fst p)) V)"

fun next_level :: "'v adjacency \<Rightarrow> 'v search_entry list \<Rightarrow> int set \<Rightarrow> 'v search_entry list" where
  "next_level adj [] V = []"
| "next_level adj (p # ps) V = child_entries adj p V @ next_level adj ps (V \<union> fst ` set (child_entries adj p V))"

lemma scan_set: "gs_next ` set (scan ss V) = gs_next ` set ss - V" "set (scan ss V) \<subseteq> set ss"
  by (induction ss V rule: scan.induct) auto

lemma scan_distinct: "distinct (map gs_next (scan ss V))"
proof (induction ss V rule: scan.induct)
  case (2 s ss V)
  then show ?case using scan_set(1) [of ss "insert (gs_next s) V"] by auto
qed simp

lemma fst_children: "map fst (child_entries adj p V) = map gs_next (scan (adj_get adj (fst p)) V)"
  by (simp add: child_entries_def child_def comp_def split: prod.splits)

lemma children_nodes: "fst ` set (child_entries adj p V) = gs_next ` set (adj_get adj (fst p)) - V"
  using arg_cong [OF fst_children, of set adj p V] by (simp add: scan_set)

lemma next_level_nodes:
  "fst ` set (next_level adj ps V) = successors adj (fst ` set ps) - V \<and> distinct (map fst (next_level adj ps V))"
proof (induction ps arbitrary: V)
  case (Cons p ps)
  let ?C = "fst ` set (child_entries adj p V)" and ?N = "next_level adj ps (V \<union> fst ` set (child_entries adj p V))"
  from Cons have N: "fst ` set ?N = successors adj (fst ` set ps) - (V \<union> ?C)" "distinct (map fst ?N)"
    using Cons.IH [of "V \<union> ?C"] by simp_all
  have "successors adj (fst ` set (p # ps)) = gs_next ` set (adj_get adj (fst p)) \<union> successors adj (fst ` set ps)"
    by (simp add: successors_def)
  with N children_nodes [of adj p V] have "fst ` set (next_level adj (p # ps) V) = successors adj (fst ` set (p # ps)) - V"
    by (simp add: image_Un) blast
  moreover have "distinct (map fst (next_level adj (p # ps) V))"
  proof -
    have "distinct (map fst (child_entries adj p V))" by (simp add: fst_children scan_distinct)
    moreover have "set (map fst (child_entries adj p V)) \<inter> set (map fst ?N) = {}" using N(1) by auto
    ultimately show ?thesis
      using N(2) unfolding next_level.simps map_append distinct_append by blast
  qed
  ultimately show ?case by blast
qed (simp add: successors_def)

definition entry_row :: "(nat \<Rightarrow> 'v graph_step \<Rightarrow> int list \<Rightarrow> 'v graph_step list \<Rightarrow> 'r) \<Rightarrow> 'v search_entry \<Rightarrow> 'r" where
  "entry_row f p = (case p of (v, d, pn, pe) \<Rightarrow> f d (last pe) pn pe)"

abbreviation entry_rows ::
  "(nat \<Rightarrow> 'v graph_step \<Rightarrow> int list \<Rightarrow> 'v graph_step list \<Rightarrow> 'r) \<Rightarrow> (int \<Rightarrow> bool) \<Rightarrow> 'v search_entry list \<Rightarrow> 'r list" where
  "entry_rows f allowed ps \<equiv> map (entry_row f) (filter (\<lambda>p. allowed (fst p)) ps)"

text \<open>Without a limit, and with rows that are made without an exception.\<close>

lemma visit_steps_scan:
  "visit_steps (\<lambda>d s pn pe. Inr (f d s pn pe)) allowed (\<lambda>_. False) (Suc d) pn pe ss (rows, V, queue) =
     (let cs = map (child (v, d, pn, pe)) (scan ss V) in
      Inr (False, rows @ entry_rows f allowed cs, V \<union> gs_next ` set ss, queue @ cs))"
proof (induction ss arbitrary: rows V queue)
  case (Cons s ss)
  show ?case
    by (auto simp: Let_def Cons child_def entry_row_def insert_absorb)
qed simp

lemma neighbor_loop_level:
  assumes "\<forall>p \<in> set ps. fst (snd p) = k" "k < D"
  shows "neighbor_loop adj (\<lambda>d s pn pe. Inr (f d s pn pe)) allowed (\<lambda>_. False) D (ps @ q) rows V =
     neighbor_loop adj (\<lambda>d s pn pe. Inr (f d s pn pe)) allowed (\<lambda>_. False) D (q @ next_level adj ps V)
       (rows @ entry_rows f allowed (next_level adj ps V)) (V \<union> successors adj (fst ` set ps))"
  using assms(1)
proof (induction ps arbitrary: q rows V)
  case (Cons p ps)
  obtain v d pn pe where p: "p = (v, d, pn, pe)" by (cases p)
  with Cons.prems have d: "d = k" and rest: "\<forall>p \<in> set ps. fst (snd p) = k" by auto
  have V: "V \<union> gs_next ` set (adj_get adj v) = V \<union> fst ` set (child_entries adj p V)"
    by (auto simp: children_nodes p)
  have VV: "V \<union> fst ` set (child_entries adj p V) \<union> successors adj (fst ` set ps) = V \<union> successors adj (fst ` set (p # ps))"
    by (auto simp: children_nodes successors_def)
  have "neighbor_loop adj (\<lambda>d s pn pe. Inr (f d s pn pe)) allowed (\<lambda>_. False) D ((p # ps) @ q) rows V =
     neighbor_loop adj (\<lambda>d s pn pe. Inr (f d s pn pe)) allowed (\<lambda>_. False) D (ps @ q @ child_entries adj p V)
       (rows @ entry_rows f allowed (child_entries adj p V)) (V \<union> fst ` set (child_entries adj p V))"
    using assms(2) d by (simp add: p visit_steps_scan [where v = v] Let_def child_entries_def V [unfolded p child_entries_def])
  also have "\<dots> = neighbor_loop adj (\<lambda>d s pn pe. Inr (f d s pn pe)) allowed (\<lambda>_. False) D (q @ next_level adj (p # ps) V)
       (rows @ entry_rows f allowed (next_level adj (p # ps) V)) (V \<union> successors adj (fst ` set (p # ps)))"
    unfolding Cons.IH [OF rest] VV by simp
  finally show ?case .
qed (simp add: successors_def)

text \<open>The entries at each distance.\<close>

fun front :: "'v adjacency \<Rightarrow> int list \<Rightarrow> nat \<Rightarrow> 'v search_entry list" where
  "front adj seeds 0 = map (\<lambda>v. (v, 0, [v], [])) seeds"
| "front adj seeds (Suc k) = next_level adj (front adj seeds k) (ball adj (set seeds) k)"

lemma front_nodes: "fst ` set (front adj seeds k) = layer adj (set seeds) k"
proof (induction k)
  case (Suc k)
  then show ?case by (simp add: next_level_nodes successors_ball)
qed (simp add: layer_0 image_image)

lemma next_level_depth: "\<forall>p \<in> set ps. fst (snd p) = k \<Longrightarrow> \<forall>p \<in> set (next_level adj ps V). fst (snd p) = Suc k"
  by (induction ps arbitrary: V) (auto simp: child_entries_def child_def)

lemma front_depth: "p \<in> set (front adj seeds k) \<Longrightarrow> fst (snd p) = k"
proof (induction k arbitrary: p)
  case (Suc k)
  then show ?case using next_level_depth [of "front adj seeds k" k] by auto
qed auto

lemma neighbor_loop_drop:
  "\<forall>p \<in> set ps. fst (snd p) \<ge> D \<Longrightarrow> neighbor_loop adj mk allowed stop D ps rows V = Inr (False, rows)"
  by (induction ps) auto

lemma neighbor_loop_fronts:
  assumes "k \<le> D"
  shows "neighbor_loop adj (\<lambda>d s pn pe. Inr (f d s pn pe)) allowed (\<lambda>_. False) D (front adj seeds k) rows (ball adj (set seeds) k)
     = Inr (False, rows @ entry_rows f allowed (concat (map (front adj seeds) [Suc k..<Suc D])))"
  using assms
proof (induction "D - k" arbitrary: k rows)
  case 0
  then show ?case by (simp add: neighbor_loop_drop front_depth)
next
  case (Suc m)
  then have k: "k < D" by simp
  then have up: "[Suc k..<Suc D] = Suc k # [Suc (Suc k)..<Suc D]" by (simp add: upt_conv_Cons)
  have "neighbor_loop adj (\<lambda>d s pn pe. Inr (f d s pn pe)) allowed (\<lambda>_. False) D (front adj seeds k) rows (ball adj (set seeds) k)
      = neighbor_loop adj (\<lambda>d s pn pe. Inr (f d s pn pe)) allowed (\<lambda>_. False) D (front adj seeds (Suc k))
          (rows @ entry_rows f allowed (front adj seeds (Suc k))) (ball adj (set seeds) (Suc k))"
    using neighbor_loop_level [of "front adj seeds k" k D adj f allowed "[]" rows "ball adj (set seeds) k"] k
    by (simp add: front_depth front_nodes ball_Suc_successors)
  also have "\<dots> = Inr (False, rows @ entry_rows f allowed (concat (map (front adj seeds) [Suc k..<Suc D])))"
    using Suc k by (subst Suc.hyps(1)) (simp_all add: up del: upt_Suc)
  finally show ?case .
qed

text \<open>The limit: the search stops as soon as it has that many rows, but never before the first row.\<close>

lemma visit_steps_rows:
  "visit_steps mk allowed (\<lambda>_. False) d pn pe ss (rows, V, queue) = Inr (b, R, V', queue') \<Longrightarrow> prefix rows R \<and> b = False"
proof (induction ss arbitrary: rows V queue)
  case (Cons s ss)
  then show ?case by (fastforce simp: Let_def rbind_Inr_iff dest: append_prefixD split: if_splits)
qed simp

lemma visit_steps_limit:
  assumes "length rows < m" "\<And>r. r \<noteq> [] \<Longrightarrow> stop r \<longleftrightarrow> m \<le> length r"
    and "visit_steps mk allowed (\<lambda>_. False) d pn pe ss (rows, V, queue) = Inr (b, R, V', queue')"
  shows "prefix rows R \<and> b = False \<and>
     (if length R < m then visit_steps mk allowed stop d pn pe ss (rows, V, queue) = Inr (False, R, V', queue')
      else \<exists>W q. visit_steps mk allowed stop d pn pe ss (rows, V, queue) = Inr (True, take m R, W, q))"
  using assms(1,3)
proof (induction ss arbitrary: rows V queue)
  case (Cons s ss)
  show ?case
  proof (cases "gs_next s \<in> V")
    case True
    with Cons.IH [of rows V queue] Cons.prems show ?thesis by (simp add: Let_def)
  next
    case new: False
    let ?pn = "pn @ [gs_next s]" and ?pe = "pe @ [s]"
    show ?thesis
    proof (cases "allowed (gs_next s)")
      case False
      with new Cons.IH [of rows "insert (gs_next s) V" "queue @ [(gs_next s, d, ?pn, ?pe)]"] Cons.prems
      show ?thesis by (simp add: Let_def)
    next
      case allowed: True
      with new Cons.prems(2) obtain r where r: "mk d s ?pn ?pe = Inr r"
        and rest: "visit_steps mk allowed (\<lambda>_. False) d pn pe ss
            (rows @ [r], insert (gs_next s) V, queue @ [(gs_next s, d, ?pn, ?pe)]) = Inr (b, R, V', queue')"
        by (auto simp: Let_def rbind_Inr_iff)
      have stop: "stop (rows @ [r]) \<longleftrightarrow> m \<le> Suc (length rows)" using assms(2) [of "rows @ [r]"] by simp
      show ?thesis
      proof (cases "Suc (length rows) < m")
        case True
        with Cons.IH [OF _ rest] new allowed r stop show ?thesis
          by (auto simp: Let_def dest: append_prefixD)
      next
        case False
        with Cons.prems(1) have m: "m = Suc (length rows)" by simp
        from visit_steps_rows [OF rest] have "prefix (rows @ [r]) R" "b = False" by blast+
        then obtain xs where "R = rows @ r # xs" by (auto simp: prefix_def)
        with new allowed r stop m \<open>b = False\<close> show ?thesis by (auto simp: Let_def)
      qed
    qed
  qed
qed simp

lemma neighbor_loop_rows:
  "neighbor_loop adj mk allowed never D queue rows V = Inr (b, R) \<Longrightarrow> never = (\<lambda>_. False) \<Longrightarrow> prefix rows R"
proof (induction adj mk allowed never D queue rows V rule: neighbor_loop.induct)
  case (2 adj mk allowed never D v k pn pe queue rows V)
  then show ?case
    by (auto split: if_splits sum.splits prod.splits bool.splits dest!: visit_steps_rows)
      (metis prefix_order.trans)
qed simp

lemma neighbor_loop_limit:
  assumes "\<And>r. r \<noteq> [] \<Longrightarrow> stop r \<longleftrightarrow> m \<le> length r"
  shows "neighbor_loop adj mk allowed never D queue rows V = Inr (b, R) \<Longrightarrow> never = (\<lambda>_. False) \<Longrightarrow> length rows < m \<Longrightarrow>
     prefix rows R \<and> neighbor_loop adj mk allowed stop D queue rows V
       = (if length R < m then Inr (False, R) else Inr (True, take m R))"
proof (induction adj mk allowed never D queue rows V rule: neighbor_loop.induct)
  case (1 adj mk allowed never D rows V)
  then show ?case by simp
next
  case (2 adj mk allowed never D v k pn pe queue rows V)
  show ?case
  proof (cases "k \<ge> D")
    case True
    with 2 show ?thesis by simp
  next
    case False
    from 2(3) [unfolded 2(4)] False obtain r V' q where visit:
        "visit_steps mk allowed (\<lambda>_. False) (Suc k) pn pe (adj_get adj v) (rows, V, queue) = Inr (False, r, V', q)"
      and loop: "neighbor_loop adj mk allowed (\<lambda>_. False) D q r V' = Inr (b, R)"
      by (auto split: sum.splits prod.splits bool.splits dest: visit_steps_rows)
    note step = visit_steps_limit [OF 2(5) assms visit]
    show ?thesis
    proof (cases "length r < m")
      case True
      have "prefix r R \<and> neighbor_loop adj mk allowed stop D q r V'
          = (if length R < m then Inr (False, R) else Inr (True, take m R))"
        by (rule 2(2) [OF False _ refl refl refl refl _ _ True]) (use visit loop 2(4) in simp_all)
      with True show ?thesis using step False by (auto dest: prefix_order.trans)
    next
      case stopped: False
      then obtain W q' where "visit_steps mk allowed stop (Suc k) pn pe (adj_get adj v) (rows, V, queue) = Inr (True, take m r, W, q')"
        using step by auto
      moreover from neighbor_loop_rows [OF loop refl] have "prefix r R" .
      ultimately show ?thesis using step stopped False by (auto simp: prefix_def)
    qed
  qed
qed

text \<open>The entries of the levels.\<close>

definition found :: "'v adjacency \<Rightarrow> int list \<Rightarrow> nat \<Rightarrow> 'v search_entry list" where
  "found adj seeds D = concat (map (front adj seeds) [1..<Suc D])"

lemma next_level_child:
  "p \<in> set (next_level adj ps V) \<Longrightarrow> \<exists>q \<in> set ps. \<exists>e \<in> set (adj_get adj (fst q)). p = child q e"
proof (induction ps arbitrary: V)
  case (Cons q ps)
  show ?case
  proof (cases "p \<in> set (child_entries adj q V)")
    case True
    then show ?thesis using scan_set(2) [of "adj_get adj (fst q)" V] by (auto simp: child_entries_def)
  next
    case False
    with Cons.prems have "p \<in> set (next_level adj ps (V \<union> fst ` set (child_entries adj q V)))" by simp
    with Cons.IH show ?thesis by force
  qed
qed simp

lemma front_walk:
  "(v, d, pn, pe) \<in> set (front adj seeds k) \<Longrightarrow>
     \<exists>s \<in> set seeds. graph_walk adj s pe \<and> walk_end s pe = v \<and> pn = walk_nodes s pe \<and> length pe = k"
proof (induction k arbitrary: v d pn pe)
  case (Suc k)
  from next_level_child [OF Suc.prems [unfolded front.simps]]
  obtain q e where q: "q \<in> set (front adj seeds k)" "e \<in> set (adj_get adj (fst q))" "(v, d, pn, pe) = child q e"
    by blast
  obtain v' d' pn' pe' where "q = (v', d', pn', pe')" by (cases q)
  with q Suc.IH [of v' d' pn' pe'] show ?case by (auto simp: child_def walk_append)
qed (auto simp: walk_nodes_def)

lemma found_nodes:
  "(\<lambda>p. (fst p, fst (snd p))) ` set (found adj seeds D) = {(v, d). distance_is adj (set seeds) v d \<and> 1 \<le> d \<and> d \<le> D}"
proof -
  have "(v, d) \<in> (\<lambda>p. (fst p, fst (snd p))) ` set (found adj seeds D) \<longleftrightarrow> 1 \<le> d \<and> d \<le> D \<and> v \<in> fst ` set (front adj seeds d)"
    (is "?l \<longleftrightarrow> ?r") for v d
  proof
    assume ?l
    then obtain k p where "1 \<le> k" "k \<le> D" "p \<in> set (front adj seeds k)" "fst p = v" "fst (snd p) = d"
      by (auto simp: found_def simp del: upt_Suc)
    then show ?r using front_depth [of p adj seeds k] by auto
  next
    assume ?r
    then obtain p where p: "1 \<le> d" "d \<le> D" "p \<in> set (front adj seeds d)" "fst p = v" by auto
    then have "p \<in> set (found adj seeds D)" by (auto simp: found_def less_Suc_eq_le simp del: upt_Suc)
    with p front_depth [of p adj seeds d] show ?l by (auto intro!: image_eqI [of _ _ p])
  qed
  then show ?thesis by (auto simp: front_nodes layer_def)
qed

lemma distance_unique: "distance_is adj S v d \<Longrightarrow> distance_is adj S v d' \<Longrightarrow> d = d'"
  unfolding distance_is_def by (metis linorder_neqE_nat)

lemma found_distinct: "distinct (map fst (found adj seeds D))"
proof -
  have "distinct (map fst (concat (map (front adj seeds) ks)))" if "distinct ks" "0 \<notin> set ks" for ks
    using that
  proof (induction ks)
    case (Cons k ks)
    then obtain j where "k = Suc j" by (cases k) auto
    then have "distinct (map fst (front adj seeds k))" by (simp add: next_level_nodes)
    moreover have "fst ` set (front adj seeds k) \<inter> fst ` set (front adj seeds i) = {}" if "i \<in> set ks" for i
      using that Cons.prems distance_unique [of adj "set seeds" _ k i] by (auto simp: front_nodes layer_def)
    then have "set (map fst (front adj seeds k)) \<inter> set (map fst (concat (map (front adj seeds) ks))) = {}"
      by (auto simp: image_UN)
    ultimately show ?case
      using Cons unfolding list.map concat.simps map_append distinct_append by simp
  qed simp
  then show ?thesis by (simp add: found_def del: upt_Suc)
qed

lemma found_sorted: "sorted (map (\<lambda>p. fst (snd p)) (found adj seeds D))"
proof -
  have "sorted (map (\<lambda>p. fst (snd p)) (concat (map (front adj seeds) ks)))" if "sorted ks" for ks
    using that
  proof (induction ks)
    case (Cons k ks)
    have "map (\<lambda>p. fst (snd p)) (front adj seeds k) = replicate (length (front adj seeds k)) k"
      by (simp add: map_replicate_const [symmetric] front_depth)
    moreover have "\<forall>i \<in> set (map (\<lambda>p. fst (snd p)) (concat (map (front adj seeds) ks))). k \<le> i"
      using Cons.prems by (auto dest!: front_depth)
    ultimately show ?case using Cons by (simp add: sorted_append)
  qed simp
  then show ?thesis by (simp add: found_def del: upt_Suc)
qed

section \<open>The property of neighbors\<close>

definition plain_row ::
  "('v, 'f) graph_lib \<Rightarrow> (int, 'v node_info) dict \<Rightarrow> bool \<Rightarrow> nat \<Rightarrow> 'v graph_step \<Rightarrow> int list \<Rightarrow> 'v graph_step list
    \<Rightarrow> ('v, 'f) neighbor_row" where
  "plain_row gl lookup return_paths depth s pn pe =
     \<lparr>nr_node_id = ni_node_id (node_info_at lookup (gs_next s)), nr_node_type = ni_node_type (node_info_at lookup (gs_next s)),
      nr_internal_id = gs_next s, nr_depth = depth, nr_via_edge_id = gs_edge_id s, nr_via_edge_type = gs_edge_type s,
      nr_path_score = None,
      nr_path = (if return_paths then Some (path_node_names gl lookup pn, map gs_edge_id pe, map gs_edge_type pe) else None)\<rparr>"

lemma neighbor_result_row_plain:
  "neighbor_result_row gl lookup None property return_paths = (\<lambda>d s pn pe. Inr (plain_row gl lookup return_paths d s pn pe))"
  by (intro ext) (simp add: neighbor_result_row_def plain_row_def path_score_def Let_def)

lemma found_last:
  "(v, d, pn, pe) \<in> set (found adj seeds D) \<Longrightarrow> pe \<noteq> [] \<and> gs_next (last pe) = v \<and> length pe = d
     \<and> (\<exists>s \<in> set seeds. graph_walk adj s pe \<and> walk_end s pe = v \<and> pn = walk_nodes s pe)"
proof -
  assume "(v, d, pn, pe) \<in> set (found adj seeds D)"
  then obtain k where k: "1 \<le> k" "(v, d, pn, pe) \<in> set (front adj seeds k)"
    by (auto simp: found_def simp del: upt_Suc)
  from front_walk [OF k(2)] front_depth [OF k(2)] k(1) show ?thesis
    by (cases pe rule: rev_cases) auto
qed

text \<open>The node passes the filter on node types.\<close>

definition type_allowed :: "(int, 'v node_info) dict \<Rightarrow> string list \<Rightarrow> int \<Rightarrow> bool" where
  "type_allowed lookup filters v \<longleftrightarrow> filters = [] \<or>
     (case ni_node_type (node_info_at lookup v) of None \<Rightarrow> False | Some t \<Rightarrow> t \<in> local_name_of ` set filters)"

lemma rmap_coerce: "rmap coerce_local_name ts = Inr ns \<Longrightarrow> ns = map local_name_of ts"
  by (induction ts arbitrary: ns) (auto simp: rbind_Inr_iff coerce_local_name_def Let_def split: if_splits)

lemma neighbor_loop_found:
  fixes limit :: "int option"
  assumes "\<And>k. limit = Some k \<Longrightarrow> 0 \<le> k"
  shows "neighbor_loop adj (\<lambda>d s pn pe. Inr (f d s pn pe)) allowed
      (\<lambda>rows. case limit of None \<Rightarrow> False | Some k \<Rightarrow> int (length rows) \<ge> k) D
      (map (\<lambda>v. (v, 0, [v], [])) seeds) [] (set seeds) = Inr (b, rows)
    \<Longrightarrow> (let all = entry_rows f allowed (found adj seeds D) in
         (if b then rows else (case limit of None \<Rightarrow> rows | Some k \<Rightarrow> take (nat k) rows))
         = (case limit of None \<Rightarrow> all | Some k \<Rightarrow> if all = [] then [] else take (max 1 (nat k)) all))"
proof -
  let ?all = "entry_rows f allowed (found adj seeds D)"
  assume loop: "neighbor_loop adj (\<lambda>d s pn pe. Inr (f d s pn pe)) allowed
      (\<lambda>rows. case limit of None \<Rightarrow> False | Some k \<Rightarrow> int (length rows) \<ge> k) D
      (map (\<lambda>v. (v, 0, [v], [])) seeds) [] (set seeds) = Inr (b, rows)"
  have free: "neighbor_loop adj (\<lambda>d s pn pe. Inr (f d s pn pe)) allowed (\<lambda>_. False) D
      (map (\<lambda>v. (v, 0, [v], [])) seeds) [] (set seeds) = Inr (False, ?all)"
    using neighbor_loop_fronts [of 0 D adj f allowed seeds "[]"] by (simp add: ball_0 found_def del: upt_Suc)
  show ?thesis
  proof (cases limit)
    case None
    with loop free show ?thesis by (simp add: Let_def)
  next
    case (Some k)
    have "neighbor_loop adj (\<lambda>d s pn pe. Inr (f d s pn pe)) allowed (\<lambda>rows. int (length rows) \<ge> k) D
        (map (\<lambda>v. (v, 0, [v], [])) seeds) [] (set seeds)
      = (if length ?all < max 1 (nat k) then Inr (False, ?all) else Inr (True, take (max 1 (nat k)) ?all))"
      using neighbor_loop_limit [of "\<lambda>rows. int (length rows) \<ge> k" "max 1 (nat k)", OF _ free refl] assms [OF Some]
      by (simp add: Suc_le_eq nat_le_iff)
    with loop Some show ?thesis by (auto simp: Let_def split: if_splits)
  qed
qed


lemma sample_node_lookup: "node_lookup arrow_lists sample_lib sample_db ''node_id'' = (Inr [], sample_db)"
  by (simp add: node_lookup_def sample_db_def)


section \<open>k-hop subgraphs\<close>

definition edge_key :: "'v graph_step \<Rightarrow> int \<times> string" where
  "edge_key s = (gs_edge_id s, gs_edge_type s)"

definition row_key :: "'v k_hop_edge \<Rightarrow> int \<times> string" where
  "row_key e = (ke_edge_id e, ke_edge_type e)"

lemma row_key_row [simp]: "row_key (k_hop_edge_row s lookup d) = edge_key s"
  by (simp add: row_key_def edge_key_def k_hop_edge_row_def)

lemma k_hop_step_cases:
  assumes "k_hop_step mn me lookup d s (er, seen, nd, q) = (er', seen', nd', q')"
  shows "length er \<le> length er' \<and> length nd \<le> length nd'
     \<and> (int (length er) < me \<and> int (length nd) < mn \<longrightarrow>
          er' = (if edge_key s \<in> seen then er else er @ [k_hop_edge_row s lookup (Suc d)])
        \<and> seen' = insert (edge_key s) seen
        \<and> (nd', q') = (if gs_next s \<in> set (dict_keys nd) then (nd, q) else (nd @ [(gs_next s, Suc d)], q @ [(gs_next s, Suc d)])))"
  using assms by (auto simp: k_hop_step_def Let_def edge_key_def update_new insert_absorb split: if_splits)

lemma k_hop_steps_grow:
  "fold (k_hop_step mn me lookup d) ss (er, seen, nd, q) = (er', seen', nd', q') \<Longrightarrow> length er \<le> length er' \<and> length nd \<le> length nd'"
proof (induction ss arbitrary: er seen nd q)
  case (Cons s ss)
  obtain er1 seen1 nd1 q1 where step: "k_hop_step mn me lookup d s (er, seen, nd, q) = (er1, seen1, nd1, q1)"
    by (metis prod_cases4)
  with Cons.prems have "fold (k_hop_step mn me lookup d) ss (er1, seen1, nd1, q1) = (er', seen', nd', q')" by simp
  from Cons.IH [OF this] k_hop_step_cases [OF step] show ?case by linarith
qed simp

lemma k_hop_loop_grow:
  "k_hop_loop adj mn me lookup D (er, seen, nd, q) = (E, N) \<Longrightarrow> length er \<le> length E \<and> length nd \<le> length N"
proof (induction adj mn me lookup D "(er, seen, nd, q)" arbitrary: er seen nd q rule: k_hop_loop.induct)
  case (2 adj mn me lookup D er seen nd v k q)
  show ?case
  proof (cases "int (length nd) \<ge> mn \<or> k \<ge> D")
    case True
    with 2 show ?thesis by (auto split: if_splits)
  next
    case False
    obtain er1 seen1 nd1 q1 where st: "fold (k_hop_step mn me lookup k) (adj_get adj v) (er, seen, nd, q) = (er1, seen1, nd1, q1)"
      by (metis prod_cases4)
    from 2(2) [OF _ _ st] 2(3) False st have "length er1 \<le> length E \<and> length nd1 \<le> length N" by simp
    with k_hop_steps_grow [OF st] show ?thesis by linarith
  qed
qed simp

text \<open>Below the limits: the nodes and edges that the steps of one node, and of a list of nodes, add.\<close>

definition added ::
  "(int, 'v node_info) dict \<Rightarrow> nat \<Rightarrow> 'v graph_step set \<Rightarrow> (int, nat) dict \<Rightarrow> (int \<times> string) set \<Rightarrow> int list \<Rightarrow> 'v k_hop_edge list \<Rightarrow> bool" where
  "added lookup d T nd seen ws es \<longleftrightarrow> distinct ws \<and> set ws = gs_next ` T - set (dict_keys nd)
     \<and> distinct (map row_key es) \<and> row_key ` set es = edge_key ` T - seen
     \<and> (\<forall>e \<in> set es. \<exists>s \<in> T. e = k_hop_edge_row s lookup (Suc d))"

abbreviation at_depth :: "nat \<Rightarrow> int list \<Rightarrow> (int \<times> nat) list" where
  "at_depth d ws \<equiv> map (\<lambda>w. (w, d)) ws"

lemma added_append:
  assumes "added lookup d T nd seen ws es"
    and "added lookup d T' (nd @ at_depth (Suc d) ws) (seen \<union> edge_key ` T) ws' es'"
  shows "added lookup d (T \<union> T') nd seen (ws @ ws') (es @ es')"
proof -
  have "set ws \<inter> set ws' = {}" "set (map row_key es) \<inter> set (map row_key es') = {}"
    using assms unfolding added_def by auto
  moreover have "set (ws @ ws') = gs_next ` (T \<union> T') - set (dict_keys nd)"
    using assms unfolding added_def by (auto simp: comp_def)
  moreover have "row_key ` set (es @ es') = edge_key ` (T \<union> T') - seen"
  proof -
    have R: "row_key ` set es = edge_key ` T - seen" "row_key ` set es' = edge_key ` T' - (seen \<union> edge_key ` T)"
      using assms unfolding added_def by simp_all
    show ?thesis unfolding set_append image_Un R by blast
  qed
  moreover have "\<forall>e \<in> set (es @ es'). \<exists>s \<in> T \<union> T'. e = k_hop_edge_row s lookup (Suc d)"
    using assms unfolding added_def by auto
  ultimately show ?thesis
    using assms unfolding added_def by simp
qed

lemma k_hop_step_added:
  assumes "k_hop_step mn me lookup d s (er, seen, nd, q) = (er', seen', nd', q')"
    and "int (length er') < me" "int (length nd') < mn"
  shows "\<exists>ws es. added lookup d {s} nd seen ws es \<and> er' = er @ es \<and> seen' = seen \<union> edge_key ` {s}
     \<and> nd' = nd @ at_depth (Suc d) ws \<and> q' = q @ at_depth (Suc d) ws"
proof -
  have c: "er' = (if edge_key s \<in> seen then er else er @ [k_hop_edge_row s lookup (Suc d)])"
    "seen' = insert (edge_key s) seen"
    "(nd', q') = (if gs_next s \<in> set (dict_keys nd) then (nd, q) else (nd @ [(gs_next s, Suc d)], q @ [(gs_next s, Suc d)]))"
    using k_hop_step_cases [OF assms(1)] assms(2,3) by auto
  show ?thesis
    by (intro exI [of _ "if gs_next s \<in> set (dict_keys nd) then [] else [gs_next s]"]
        exI [of _ "if edge_key s \<in> seen then [] else [k_hop_edge_row s lookup (Suc d)]"])
      (use c in \<open>auto simp: added_def split: if_splits\<close>)
qed

lemma k_hop_steps_added:
  "fold (k_hop_step mn me lookup d) ss (er, seen, nd, q) = (er', seen', nd', q') \<Longrightarrow>
     int (length er') < me \<Longrightarrow> int (length nd') < mn \<Longrightarrow>
     \<exists>ws es. added lookup d (set ss) nd seen ws es \<and> er' = er @ es \<and> seen' = seen \<union> edge_key ` set ss
       \<and> nd' = nd @ at_depth (Suc d) ws \<and> q' = q @ at_depth (Suc d) ws"
proof (induction ss arbitrary: er seen nd q)
  case Nil
  then show ?case by (simp add: added_def)
next
  case (Cons s ss)
  obtain er1 seen1 nd1 q1 where step: "k_hop_step mn me lookup d s (er, seen, nd, q) = (er1, seen1, nd1, q1)"
    by (metis prod_cases4)
  with Cons.prems have rest: "fold (k_hop_step mn me lookup d) ss (er1, seen1, nd1, q1) = (er', seen', nd', q')" by simp
  from k_hop_steps_grow [OF rest] Cons.prems(2,3) have "int (length er1) < me" "int (length nd1) < mn" by linarith+
  from k_hop_step_added [OF step this] obtain ws es where 1: "added lookup d {s} nd seen ws es"
      "er1 = er @ es" "seen1 = seen \<union> edge_key ` {s}" "nd1 = nd @ at_depth (Suc d) ws" "q1 = q @ at_depth (Suc d) ws" by blast
  from Cons.IH [OF rest Cons.prems(2,3)] obtain ws' es' where 2: "added lookup d (set ss) nd1 seen1 ws' es'"
      "er' = er1 @ es'" "seen' = seen1 \<union> edge_key ` set ss" "nd' = nd1 @ at_depth (Suc d) ws'" "q' = q1 @ at_depth (Suc d) ws'"
    by blast
  from added_append [OF 1(1) 2(1) [unfolded 1]] have "added lookup d (set (s # ss)) nd seen (ws @ ws') (es @ es')" by simp
  then show ?case
    by (intro exI [of _ "ws @ ws'"] exI [of _ "es @ es'"]) (use 1 2 in auto)
qed

text \<open>All steps out of a set of nodes.\<close>

definition steps_from :: "'v adjacency \<Rightarrow> int set \<Rightarrow> 'v graph_step set" where
  "steps_from adj U = (\<Union>u \<in> U. set (adj_get adj u))"

lemma steps_from_next: "gs_next ` steps_from adj U = successors adj U"
  by (auto simp: steps_from_def successors_def)

lemma k_hop_level:
  assumes "int (length E) < me" "int (length N) < mn" "k < D"
  shows "k_hop_loop adj mn me lookup D (er, seen, nd, at_depth k A @ q) = (E, N) \<Longrightarrow>
     \<exists>ws es. added lookup k (steps_from adj (set A)) nd seen ws es
       \<and> k_hop_loop adj mn me lookup D (er @ es, seen \<union> edge_key ` steps_from adj (set A), nd @ at_depth (Suc k) ws,
            q @ at_depth (Suc k) ws) = (E, N)"
proof (induction A arbitrary: er seen nd q)
  case Nil
  then show ?case by (intro exI [of _ "[]"]) (simp add: added_def steps_from_def)
next
  case (Cons v A)
  from k_hop_loop_grow [OF Cons.prems] assms(2) have nd: "int (length nd) < mn" by linarith
  obtain er1 seen1 nd1 q1 where st: "fold (k_hop_step mn me lookup k) (adj_get adj v) (er, seen, nd, at_depth k A @ q)
      = (er1, seen1, nd1, q1)" by (metis prod_cases4)
  with Cons.prems nd assms(3) have loop: "k_hop_loop adj mn me lookup D (er1, seen1, nd1, q1) = (E, N)" by simp
  from k_hop_loop_grow [OF loop] assms(1,2) have "int (length er1) < me" "int (length nd1) < mn" by linarith+
  from k_hop_steps_added [OF st this] obtain ws es where 1: "added lookup k (set (adj_get adj v)) nd seen ws es"
      "er1 = er @ es" "seen1 = seen \<union> edge_key ` set (adj_get adj v)" "nd1 = nd @ at_depth (Suc k) ws"
      "q1 = (at_depth k A @ q) @ at_depth (Suc k) ws" by blast
  have "k_hop_loop adj mn me lookup D (er1, seen1, nd1, at_depth k A @ q @ at_depth (Suc k) ws) = (E, N)"
    using loop by (simp add: 1)
  from Cons.IH [OF this] obtain ws' es' where 2: "added lookup k (steps_from adj (set A)) nd1 seen1 ws' es'"
      "k_hop_loop adj mn me lookup D (er1 @ es', seen1 \<union> edge_key ` steps_from adj (set A), nd1 @ at_depth (Suc k) ws',
         (q @ at_depth (Suc k) ws) @ at_depth (Suc k) ws') = (E, N)" by blast
  have T: "steps_from adj (set (v # A)) = set (adj_get adj v) \<union> steps_from adj (set A)" by (simp add: steps_from_def)
  show ?case
    unfolding T
    by (rule exI [of _ "ws @ ws'"], rule exI [of _ "es @ es'"])
      (use added_append [OF 1(1) 2(1) [unfolded 1]] 2(2) in \<open>simp add: 1 image_Un Un_assoc\<close>)
qed

text \<open>The state when the nodes at distance \<open>k\<close> are in the queue.\<close>

definition level_state :: "'v adjacency \<Rightarrow> int set \<Rightarrow> (int, 'v node_info) dict \<Rightarrow> nat \<Rightarrow> nat
    \<Rightarrow> 'v k_hop_edge list \<Rightarrow> (int, nat) dict \<Rightarrow> bool" where
  "level_state adj S lookup k j er nd \<longleftrightarrow> distinct (dict_keys nd) \<and> set nd = {(v, d). distance_is adj S v d \<and> d \<le> k}
     \<and> distinct (map row_key er) \<and> row_key ` set er = edge_key ` {s. \<exists>v d. distance_is adj S v d \<and> d < j \<and> s \<in> set (adj_get adj v)}
     \<and> (\<forall>e \<in> set er. \<exists>v d. \<exists>s \<in> set (adj_get adj v). distance_is adj S v d \<and> d < j \<and> e = k_hop_edge_row s lookup (Suc d))"

lemma k_hop_levels:
  assumes "int (length E) < me" "int (length N) < mn" "k \<le> D"
  shows "k_hop_loop adj mn me lookup D (er, row_key ` set er, nd, at_depth k A) = (E, N) \<Longrightarrow> set A = layer adj S k \<Longrightarrow>
     level_state adj S lookup k k er nd \<Longrightarrow> level_state adj S lookup D D E N"
  using assms(3)
proof (induction "D - k" arbitrary: k er nd A)
  case 0
  have "k_hop_loop adj mn me lookup D (er, X, nd, at_depth D A) = (er, nd)" for X
    by (induction A) simp_all
  with 0 show ?case by simp
next
  case (Suc m)
  then have k: "k < D" by simp
  let ?T = "steps_from adj (layer adj S k)"
  from k_hop_level [OF assms(1,2) k, of adj lookup er "row_key ` set er" nd A "[]"] Suc.prems(1,2)
  obtain ws es where a: "added lookup k ?T nd (row_key ` set er) ws es"
    and loop: "k_hop_loop adj mn me lookup D (er @ es, row_key ` set er \<union> edge_key ` ?T, nd @ at_depth (Suc k) ws, at_depth (Suc k) ws) = (E, N)"
    by auto
  have rk: "row_key ` set er \<union> edge_key ` ?T = row_key ` set (er @ es)"
    using a unfolding added_def by auto
  have keys: "set (dict_keys nd) = ball adj S k"
  proof -
    have "set nd = {(v, d). distance_is adj S v d \<and> d \<le> k}" using Suc.prems(3) by (simp add: level_state_def)
    then have "v \<in> set (dict_keys nd) \<longleftrightarrow> (\<exists>d \<le> k. distance_is adj S v d)" for v by (auto simp: image_iff)
    then show ?thesis unfolding set_eq_iff ball_layer by blast
  qed
  have ws: "set ws = layer adj S (Suc k)"
    using a keys successors_ball [of adj S k] by (simp add: added_def steps_from_next)
  have T: "s \<in> ?T \<longleftrightarrow> (\<exists>v. distance_is adj S v k \<and> s \<in> set (adj_get adj v))" for s
    by (auto simp: steps_from_def layer_def)
  have "level_state adj S lookup (Suc k) (Suc k) (er @ es) (nd @ at_depth (Suc k) ws)"
  proof -
    note old = Suc.prems(3) [unfolded level_state_def]
    have "distinct (dict_keys (nd @ at_depth (Suc k) ws))"
      using old a by (auto simp: added_def comp_def)
    moreover have "set (nd @ at_depth (Suc k) ws) = {(v, d). distance_is adj S v d \<and> d \<le> Suc k}"
      using old ws by (auto simp: layer_def le_Suc_eq)
    moreover have "distinct (map row_key (er @ es))"
      using old a by (auto simp: added_def)
    moreover have "row_key ` set (er @ es) = edge_key ` {s. \<exists>v d. distance_is adj S v d \<and> d < Suc k \<and> s \<in> set (adj_get adj v)}"
    proof -
      have "{s. \<exists>v d. distance_is adj S v d \<and> d < Suc k \<and> s \<in> set (adj_get adj v)}
          = {s. \<exists>v d. distance_is adj S v d \<and> d < k \<and> s \<in> set (adj_get adj v)} \<union> ?T"
        unfolding set_eq_iff Un_iff mem_Collect_eq T by (metis less_Suc_eq)
      then show ?thesis unfolding rk [symmetric] using old by (simp add: image_Un)
    qed
    moreover have "\<forall>e \<in> set (er @ es). \<exists>v d. \<exists>s \<in> set (adj_get adj v). distance_is adj S v d \<and> d < Suc k \<and> e = k_hop_edge_row s lookup (Suc d)"
    proof
      fix e assume "e \<in> set (er @ es)"
      then consider "e \<in> set er" | "e \<in> set es" by auto
      then show "\<exists>v d. \<exists>s \<in> set (adj_get adj v). distance_is adj S v d \<and> d < Suc k \<and> e = k_hop_edge_row s lookup (Suc d)"
      proof cases
        case 1
        with old show ?thesis by (metis less_SucI)
      next
        case 2
        with a obtain s where "s \<in> ?T" "e = k_hop_edge_row s lookup (Suc k)" unfolding added_def by blast
        then show ?thesis by (auto simp: T)
      qed
    qed
    ultimately show ?thesis unfolding level_state_def by blast
  qed
  moreover have "m = D - Suc k" "Suc k \<le> D" using Suc.hyps(2) k by simp_all
  ultimately show ?case
    using Suc.hyps(1) [of "Suc k" "er @ es" "nd @ at_depth (Suc k) ws" ws] loop ws unfolding rk by blast
qed

lemma start_nodes:
  "dict_ok d \<Longrightarrow> dict_ok (fold (\<lambda>v. AList.update v k) vs d)
     \<and> map_of (fold (\<lambda>v. AList.update v k) vs d) v = (if v \<in> set vs then Some k else map_of d v)"
  by (induction vs arbitrary: d) (auto simp: dict_lookup_update)

lemma start_set: "set (fold (\<lambda>v. AList.update v k) vs []) = (\<lambda>v. (v, k)) ` set vs"
proof -
  let ?d = "fold (\<lambda>v. AList.update v k) vs []"
  have "distinct (map fst ?d)" using start_nodes [of "[]" k vs] by (simp add: dict_ok_def)
  then have "(v, j) \<in> set ?d \<longleftrightarrow> map_of ?d v = Some j" for v j by (simp only: map_of_eq_Some_iff)
  then show ?thesis using start_nodes [of "[]" k vs] by (auto simp: dict_ok_def split: if_splits)
qed

lemma start_state: "level_state adj (set vs) lookup 0 0 [] (fold (\<lambda>v. AList.update v 0) vs [])"
  using start_nodes [of "[]" 0 vs]
  by (auto simp: level_state_def start_set dict_ok_def distance_is_def reach_in_0)

text \<open>
  C35: a k-hop subgraph below its limits is complete. If the result has fewer nodes than \<open>max_nodes\<close>
  and fewer edges than \<open>max_edges\<close>, its nodes are the nodes at most \<open>depth\<close> edges from the seeds, each once
  and with its distance, sorted by distance and identifier; its edges are the edges that leave a node
  nearer than \<open>depth\<close>, each once, and each with the depth behind the node it was found at.
\<close>

theorem k_hop_complete:
  assumes "resolve_graph_node_ids ar gl db seeds key = (Inr S, db1)"
    and "node_lookup ar gl db1 key = (Inr lookup, db2)"
    and "typed_adjacency ar gl db2 types dir [] None None = (Inr adj, db3)"
    and "k_hop ar gl db seeds depth types dir max_nodes max_edges key = (Inr (nodes, edges), db')"
    and "int (length nodes) < max_nodes" "int (length edges) < max_edges"
  shows "distinct (map kn_internal_id nodes) \<and> sorted (map (\<lambda>r. (kn_depth r, kn_internal_id r)) nodes)
     \<and> (\<lambda>r. (kn_internal_id r, kn_depth r)) ` set nodes = {(v, d). distance_is adj (set S) v d \<and> int d \<le> depth}
     \<and> distinct (map row_key edges)
     \<and> row_key ` set edges = edge_key ` {s. \<exists>v d. distance_is adj (set S) v d \<and> int d < depth \<and> s \<in> set (adj_get adj v)}
     \<and> (\<forall>e \<in> set edges. \<exists>v d. \<exists>s \<in> set (adj_get adj v).
          distance_is adj (set S) v d \<and> int d < depth \<and> e = k_hop_edge_row s lookup (Suc d))"
proof -
  let ?start = "fold (\<lambda>v. AList.update v 0) S ([] :: (int, nat) dict)"
  from assms(4) have depth: "0 \<le> depth" by (auto simp: k_hop_def split: if_splits sum.splits)
  obtain E N where loop: "k_hop_loop adj max_nodes max_edges lookup (nat depth) ([], {}, ?start, at_depth 0 S) = (E, N)"
    by (cases "k_hop_loop adj max_nodes max_edges lookup (nat depth) ([], {}, ?start, at_depth 0 S)")
  with assms have res: "edges = E" "nodes = map (\<lambda>(gid, d). k_hop_node_row (node_info_at lookup gid) gid d) (sort_key (\<lambda>(gid, d). (d, gid)) N)"
    by (auto simp: k_hop_def split: if_splits sum.splits)
  have start: "k_hop_loop adj max_nodes max_edges lookup (nat depth) ([], row_key ` set [], ?start, at_depth 0 S) = (E, N)"
    using loop by simp
  from assms(5,6) res have lim: "int (length E) < max_edges" "int (length N) < max_nodes" by simp_all
  from k_hop_levels [OF lim le0 start _ start_state]
  have final: "level_state adj (set S) lookup (nat depth) (nat depth) E N" by (simp add: layer_0)
  have ids: "map kn_internal_id nodes = map fst (sort_key (\<lambda>(gid, d). (d, gid)) N)"
    "map (\<lambda>r. (kn_depth r, kn_internal_id r)) nodes = map (\<lambda>(gid, d). (d, gid)) (sort_key (\<lambda>(gid, d). (d, gid)) N)"
    "(\<lambda>r. (kn_internal_id r, kn_depth r)) ` set nodes = set N"
    by (auto simp: res k_hop_node_row_def image_image case_prod_unfold)
  have "distinct (map fst (sort_key (\<lambda>(gid, d). (d, gid)) N))"
    using final mset_eq_imp_distinct_iff [of "map fst (sort_key (\<lambda>(gid, d). (d, gid)) N)" "map fst N"]
    by (simp add: level_state_def)
  then show ?thesis
    unfolding ids using final depth by (simp add: level_state_def res le_nat_iff zless_nat_eq_int_zless)
qed

text \<open>The limits, and what holds with or without them.\<close>

definition sound_state :: "'v adjacency \<Rightarrow> int set \<Rightarrow> (int, 'v node_info) dict \<Rightarrow> nat \<Rightarrow> int \<Rightarrow> int \<Rightarrow> nat
    \<Rightarrow> 'v k_hop_edge list \<Rightarrow> (int, nat) dict \<Rightarrow> (int \<times> nat) list \<Rightarrow> bool" where
  "sound_state adj S lookup D mn me n er nd q \<longleftrightarrow> int (length er) \<le> me \<and> int (length nd) \<le> max mn (int n)
     \<and> (\<forall>(v, d) \<in> set nd \<union> set q. reach_in adj S d v \<and> d \<le> D)
     \<and> (\<forall>e \<in> set er. \<exists>v d. \<exists>s \<in> set (adj_get adj v). reach_in adj S d v \<and> d < D \<and> e = k_hop_edge_row s lookup (Suc d))"

lemma k_hop_step_sound:
  assumes "k_hop_step mn me lookup d s (er, seen, nd, q) = (er', seen', nd', q')"
    and "sound_state adj S lookup D mn me n er nd q" "reach_in adj S d v" "d < D" "s \<in> set (adj_get adj v)"
  shows "sound_state adj S lookup D mn me n er' nd' q'"
proof -
  obtain P where "P = (\<lambda>e. \<exists>v d. \<exists>s \<in> set (adj_get adj v). reach_in adj S d v \<and> d < D \<and> e = k_hop_edge_row s lookup (Suc d))"
    by blast
  then have P: "(\<exists>v d. \<exists>s \<in> set (adj_get adj v). reach_in adj S d v \<and> d < D \<and> e = k_hop_edge_row s lookup (Suc d)) = P e" for e
    by simp
  have "reach_in adj S (Suc d) (gs_next s)"
    unfolding reach_in_Suc successors_def using assms(3,5) by blast
  moreover have "\<exists>v' d'. \<exists>s' \<in> set (adj_get adj v'). reach_in adj S d' v' \<and> d' < D
      \<and> k_hop_edge_row s lookup (Suc d) = k_hop_edge_row s' lookup (Suc d')"
    using assms(3-5) by blast
  then have "P (k_hop_edge_row s lookup (Suc d))" unfolding P .
  ultimately show ?thesis
    using assms(1,2,4) unfolding sound_state_def P
    by (auto simp: k_hop_step_def Let_def update_new split: if_splits)
qed

lemma k_hop_steps_sound:
  "fold (k_hop_step mn me lookup d) ss (er, seen, nd, q) = (er', seen', nd', q') \<Longrightarrow>
     sound_state adj S lookup D mn me n er nd q \<Longrightarrow> reach_in adj S d v \<Longrightarrow> d < D \<Longrightarrow> set ss \<subseteq> set (adj_get adj v) \<Longrightarrow>
     sound_state adj S lookup D mn me n er' nd' q'"
proof (induction ss arbitrary: er seen nd q)
  case (Cons s ss)
  obtain er1 seen1 nd1 q1 where step: "k_hop_step mn me lookup d s (er, seen, nd, q) = (er1, seen1, nd1, q1)"
    by (metis prod_cases4)
  have "s \<in> set (adj_get adj v)" using Cons.prems(5) by simp
  from k_hop_step_sound [OF step Cons.prems(2-4) this] Cons.IH [of er1 seen1 nd1 q1] Cons.prems step show ?case by simp
qed simp

lemma k_hop_loop_sound:
  "k_hop_loop adj mn me lookup D (er, seen, nd, q) = (E, N) \<Longrightarrow> sound_state adj S lookup D mn me n er nd q \<Longrightarrow>
     \<exists>q'. sound_state adj S lookup D mn me n E N q'"
proof (induction adj mn me lookup D "(er, seen, nd, q)" arbitrary: er seen nd q rule: k_hop_loop.induct)
  case (1 adj mn me lookup D er seen nd)
  then show ?case by auto
next
  case (2 adj mn me lookup D er seen nd v k q)
  have tail: "sound_state adj S lookup D mn me n er nd q" and v: "reach_in adj S k v"
    using 2(4) unfolding sound_state_def by auto
  show ?case
  proof (cases "int (length nd) \<ge> mn \<or> k \<ge> D")
    case True
    then show ?thesis
    proof (cases "int (length nd) \<ge> mn")
      case False
      with True 2(1) [OF _ _ _ tail] 2(3) show ?thesis by simp
    qed (use 2(3,4) in auto)
  next
    case False
    obtain er1 seen1 nd1 q1 where st: "fold (k_hop_step mn me lookup k) (adj_get adj v) (er, seen, nd, q) = (er1, seen1, nd1, q1)"
      by (metis prod_cases4)
    from k_hop_steps_sound [OF st tail v] False have "sound_state adj S lookup D mn me n er1 nd1 q1" by simp
    from 2(2) [OF _ _ st _ this] 2(3) False st show ?thesis by simp
  qed
qed

text \<open>
  C36: the limits of a k-hop query. There are never more than \<open>max_edges\<close> edges, nor more nodes than
  \<open>max_nodes\<close> or the number of distinct seeds, whichever is larger. Every node is the end of a walk from a
  seed with as many steps as its depth says, which is at most \<open>depth\<close>, and every edge leaves such a node.
\<close>

theorem k_hop_bounded:
  assumes "resolve_graph_node_ids ar gl db seeds key = (Inr S, db1)"
    and "node_lookup ar gl db1 key = (Inr lookup, db2)"
    and "typed_adjacency ar gl db2 types dir [] None None = (Inr adj, db3)"
    and "k_hop ar gl db seeds depth types dir max_nodes max_edges key = (Inr (nodes, edges), db')"
  shows "int (length edges) \<le> max_edges \<and> int (length nodes) \<le> max max_nodes (int (card (set S)))
     \<and> (\<forall>r \<in> set nodes. reach_in adj (set S) (kn_depth r) (kn_internal_id r) \<and> int (kn_depth r) \<le> depth)
     \<and> (\<forall>e \<in> set edges. \<exists>v d. \<exists>s \<in> set (adj_get adj v).
          reach_in adj (set S) d v \<and> int d < depth \<and> e = k_hop_edge_row s lookup (Suc d))"
proof -
  let ?start = "fold (\<lambda>v. AList.update v 0) S ([] :: (int, nat) dict)"
  from assms(4) have args: "0 \<le> depth" "0 \<le> max_edges" by (auto simp: k_hop_def split: if_splits sum.splits)
  obtain E N where loop: "k_hop_loop adj max_nodes max_edges lookup (nat depth) ([], {}, ?start, at_depth 0 S) = (E, N)"
    by (cases "k_hop_loop adj max_nodes max_edges lookup (nat depth) ([], {}, ?start, at_depth 0 S)")
  with assms have res: "edges = E" "nodes = map (\<lambda>(gid, d). k_hop_node_row (node_info_at lookup gid) gid d) (sort_key (\<lambda>(gid, d). (d, gid)) N)"
    by (auto simp: k_hop_def split: if_splits sum.splits)
  have "length ?start = card (set S)"
  proof -
    have "distinct (map fst ?start)" using start_nodes [of "[]" "0 :: nat" S] by (simp add: dict_ok_def)
    from distinct_card [OF this] show ?thesis by (simp add: start_set image_image)
  qed
  then have "sound_state adj (set S) lookup (nat depth) max_nodes max_edges (card (set S)) [] ?start (at_depth 0 S)"
    using args by (auto simp: sound_state_def start_set reach_in_0)
  from k_hop_loop_sound [OF loop this] obtain q' where
    final: "sound_state adj (set S) lookup (nat depth) max_nodes max_edges (card (set S)) E N q'" by blast
  then have "\<forall>(v, d) \<in> set N. reach_in adj (set S) d v \<and> d \<le> nat depth" unfolding sound_state_def by blast
  with final args show ?thesis
    by (auto simp: sound_state_def res k_hop_node_row_def le_nat_iff zless_nat_eq_int_zless)
qed

theorem k_hop_complete_witness:
  "\<exists>nodes edges. fst (k_hop arrow_lists sample_lib sample_db [RefId 0] 1 [''knows''] ''out'' 5 5 ''node_id'') = Inr (nodes, edges)
     \<and> (\<lambda>r. (kn_internal_id r, kn_depth r)) ` set nodes = {(v, d). distance_is sample_adjacency {0} v d \<and> int d \<le> 1}"
proof -
  let ?p = "k_hop arrow_lists sample_lib sample_db [RefId 0] 1 [''knows''] ''out'' 5 5 ''node_id''"
  have "case fst ?p of Inr (nodes, edges) \<Rightarrow> length nodes = 3 \<and> length edges = 2 | Inl _ \<Rightarrow> False" by code_simp
  then obtain nodes edges where r: "fst ?p = Inr (nodes, edges)" "length nodes = 3" "length edges = 2"
    by (auto split: sum.splits)
  then have p: "?p = (Inr (nodes, edges), snd ?p)" by (simp add: prod_eq_iff)
  from k_hop_complete [OF sample_resolved sample_node_lookup sample_typed p] r show ?thesis by simp
qed

theorem k_hop_bounded_witness:
  "\<exists>nodes edges. fst (k_hop arrow_lists sample_lib sample_db [RefId 0] 3 [''knows''] ''out'' 2 5 ''node_id'') = Inr (nodes, edges)
     \<and> length nodes = 2 \<and> int (length nodes) \<le> max 2 (int (card {0 :: int}))"
proof -
  let ?p = "k_hop arrow_lists sample_lib sample_db [RefId 0] 3 [''knows''] ''out'' 2 5 ''node_id''"
  have "case fst ?p of Inr (nodes, edges) \<Rightarrow> length nodes = 2 | Inl _ \<Rightarrow> False" by code_simp
  then obtain nodes edges where r: "fst ?p = Inr (nodes, edges)" "length nodes = 2" by (auto split: sum.splits)
  then have p: "?p = (Inr (nodes, edges), snd ?p)" by (simp add: prod_eq_iff)
  from k_hop_bounded [OF sample_resolved sample_node_lookup sample_typed p] r show ?thesis by auto
qed

end
