(* ===== verification/Relational.thy ===== *)
theory Relational
  imports Operator Node_Store Graph_Data Class_Closure
begin

text \<open>
  The relational operators of the executor (\<open>exec/operators\<close>): scans of node stores, triples and
  subclass closures, filters, projections, column renaming and dropping, unions, sorting with a limit,
  grouping and hash joins. Each is a set of hooks over any child operator.
\<close>

section \<open>Parameters\<close>

text \<open>
  The functions of Arrow tables the operators call, beside those of \<^typ>\<open>'v arrow\<close>: \<open>Table.take\<close>,
  \<open>Table.slice\<close>, \<open>Table.to_batches\<close>, \<open>append_column\<close>, \<open>group_by(...).aggregate(...)\<close>, \<open>rename_columns\<close>,
  \<open>pyarrow.compute.sort_indices\<close> (the flag says descending), the kernel \<open>equal\<close> with a constant,
  \<open>if_else\<close> with a null for the positions of a mask, and \<open>pa.array\<close> of constants.
\<close>

record 'v table_lib =
  tl_take :: "'v table \<Rightarrow> nat list \<Rightarrow> 'v table result"
  tl_slice :: "'v table \<Rightarrow> int \<Rightarrow> int option \<Rightarrow> 'v table"
  tl_to_batches :: "'v table \<Rightarrow> 'v batch list"
  tl_append_column :: "'v table \<Rightarrow> string \<Rightarrow> 'v array \<Rightarrow> 'v table result"
  tl_aggregate :: "'v table \<Rightarrow> string list \<Rightarrow> (string \<times> string) list \<Rightarrow> 'v table result"
  tl_rename :: "'v table \<Rightarrow> string list \<Rightarrow> 'v table result"
  tl_sort_indices :: "'v table \<Rightarrow> (string \<times> bool) list \<Rightarrow> nat list result"
  tl_equal :: "'v array \<Rightarrow> int \<Rightarrow> mask result"
  tl_null_where :: "bool list \<Rightarrow> 'v array \<Rightarrow> 'v array"
  tl_ones :: "nat \<Rightarrow> 'v array"
  tl_trues :: "nat \<Rightarrow> 'v array"
  tl_strings :: "string \<Rightarrow> nat \<Rightarrow> 'v array"

text \<open>The columns of a table, each as one array.\<close>

definition table_arrays :: "'v table \<Rightarrow> 'v array list" where
  "table_arrays t =
     map (\<lambda>i. \<lparr>arr_type = fld_type (tschema t ! i), cells = concat (map (\<lambda>b. cells (bcols b ! i)) (tbatches t))\<rparr>)
       [0..<length (tschema t)]"

section \<open>Operators that pass batches through\<close>

text \<open>
  The loop that asks for the next item until one gives a batch; \<open>step\<close> is the child or the
  iterator, \<open>f\<close> the work on a batch, whose result may be no batch.
\<close>

partial_function (option) skip_next ::
  "('b \<Rightarrow> 'c option result) \<Rightarrow> ('i \<Rightarrow> ('b option result \<times> 'i) option) \<Rightarrow> 'i \<Rightarrow> ('c option result \<times> 'i) option" where
  "skip_next f step it =
     Option.bind (step it) (\<lambda>(r, it').
       (case r of
          Inl e \<Rightarrow> Some (Inl e, it')
        | Inr None \<Rightarrow> Some (Inr None, it')
        | Inr (Some b) \<Rightarrow>
            (case f b of
               Inl e \<Rightarrow> Some (Inl e, it')
             | Inr None \<Rightarrow> skip_next f step it'
             | Inr (Some x) \<Rightarrow> Some (Inr (Some x), it'))))"

text \<open>An operator that works on the batches of one child.\<close>

definition pass_hooks :: "('b \<Rightarrow> 'b option result) \<Rightarrow> ('s, 'b) hooks \<Rightarrow> ('s op_state, 'b) hooks" where
  "pass_hooks f h = \<lparr>hook_open = op_open h, hook_next = skip_next f (op_next h), hook_close = op_close h\<rparr>"

definition filter_batch :: "'v arrow \<Rightarrow> ('v batch \<Rightarrow> mask result) \<Rightarrow> 'v batch \<Rightarrow> 'v batch option result" where
  "filter_batch ar predicate batch =
     rbind (predicate batch) (\<lambda>mask.
     rbind (pa_filter ar batch mask) (\<lambda>filtered.
     Inr (if brows filtered > 0 then Some filtered else None)))"

definition filter_hooks ::
  "'v arrow \<Rightarrow> ('v batch \<Rightarrow> mask result) \<Rightarrow> ('s, 'v batch) hooks \<Rightarrow> ('s op_state, 'v batch) hooks" where
  "filter_hooks ar predicate h = pass_hooks (filter_batch ar predicate) h"

definition project_batch ::
  "'v arrow \<Rightarrow> (('v batch \<Rightarrow> 'v array result) \<times> string) list \<Rightarrow> 'v batch \<Rightarrow> 'v batch option result" where
  "project_batch ar projections batch =
     rbind (rmap (\<lambda>(fn, _). fn batch) projections) (\<lambda>arrays.
     rbind (pa_from_arrays ar arrays (map snd projections)) (\<lambda>b. Inr (Some b)))"

definition project_hooks ::
  "'v arrow \<Rightarrow> (('v batch \<Rightarrow> 'v array result) \<times> string) list \<Rightarrow> ('s, 'v batch) hooks \<Rightarrow> ('s op_state, 'v batch) hooks" where
  "project_hooks ar projections h = pass_hooks (project_batch ar projections) h"

definition rename_batch :: "'v arrow \<Rightarrow> (string, string) dict \<Rightarrow> 'v batch \<Rightarrow> 'v batch option result" where
  "rename_batch ar mapping batch =
     rbind (pa_from_arrays ar (bcols batch)
              (map (\<lambda>n. case map_of mapping n of None \<Rightarrow> n | Some n' \<Rightarrow> n') (names (bschema batch)))) (\<lambda>b. Inr (Some b))"

definition rename_hooks ::
  "'v arrow \<Rightarrow> (string, string) dict \<Rightarrow> ('s, 'v batch) hooks \<Rightarrow> ('s op_state, 'v batch) hooks" where
  "rename_hooks ar mapping h = pass_hooks (rename_batch ar mapping) h"

subsection \<open>Dropping columns\<close>

definition count_drops :: "string list \<Rightarrow> (string, nat) dict" where
  "count_drops drop_names = fold (\<lambda>n d. AList.update n (dict_at 0 d n + 1) d) drop_names []"

text \<open>
  The loop over the columns: whether each is kept, how many drops of a name are left, and where a
  name to drop was first seen.
\<close>

fun mark_columns ::
  "string list \<Rightarrow> nat \<Rightarrow> (string, nat) dict \<Rightarrow> (string, nat) dict \<Rightarrow> bool list \<times> (string, nat) dict \<times> (string, nat) dict" where
  "mark_columns [] i counts seen = ([], counts, seen)"
| "mark_columns (n # ns) i counts seen =
     (if n \<in> fst ` set counts \<and> dict_at 0 counts n > 0 then
        if n \<notin> fst ` set seen then
          (case mark_columns ns (Suc i) counts (AList.update n i seen) of (m, c, s) \<Rightarrow> (True # m, c, s))
        else
          (case mark_columns ns (Suc i) (AList.update n (dict_at 0 counts n - 1) counts) seen of (m, c, s) \<Rightarrow> (False # m, c, s))
      else
        (case mark_columns ns (Suc i) counts seen of (m, c, s) \<Rightarrow> (True # m, c, s)))"

definition keep_mask :: "string list \<Rightarrow> string list \<Rightarrow> bool list" where
  "keep_mask drop_names ns =
     (case mark_columns ns 0 (count_drops drop_names) [] of (m, counts, seen) \<Rightarrow>
        fold (\<lambda>(n, remaining) m. if remaining > 0 \<and> n \<in> fst ` set seen then m[dict_at 0 seen n := False] else m) counts m)"

definition drop_batch :: "'v arrow \<Rightarrow> string list \<Rightarrow> 'v batch \<Rightarrow> 'v batch option result" where
  "drop_batch ar drop_names batch =
     (let ns = names (bschema batch); m = keep_mask drop_names ns in
      rbind (pa_from_arrays ar (map snd (filter fst (zip m (bcols batch)))) (map snd (filter fst (zip m ns)))) (\<lambda>b.
      Inr (Some b)))"

definition drop_hooks :: "'v arrow \<Rightarrow> string list \<Rightarrow> ('s, 'v batch) hooks \<Rightarrow> ('s op_state, 'v batch) hooks" where
  "drop_hooks ar drop_names h = pass_hooks (drop_batch ar drop_names) h"

subsection \<open>Unions\<close>

text \<open>The state is the list of children and the index of the current one.\<close>

definition union_init :: "'s op_state list \<Rightarrow> ('s op_state list \<times> nat) result" where
  "union_init children = (if children = [] then Inl ValueError else Inr (children, 0))"

fun open_all ::
  "('s, 'b) hooks list \<Rightarrow> exec_ctx \<Rightarrow> 's op_state list \<Rightarrow> (unit result \<times> 's op_state list) option" where
  "open_all (h # hs) ctx (c # cs) =
     (case op_open h ctx c of
        None \<Rightarrow> None
      | Some (Inl e, c') \<Rightarrow> Some (Inl e, c' # cs)
      | Some (Inr _, c') \<Rightarrow> map_option (\<lambda>(r, cs'). (r, c' # cs')) (open_all hs ctx cs))"
| "open_all hs ctx cs = Some (Inr (), cs)"

fun close_all :: "('s, 'b) hooks list \<Rightarrow> 's op_state list \<Rightarrow> unit result \<times> 's op_state list" where
  "close_all (h # hs) (c # cs) =
     (case op_close h c of
        (Inl e, c') \<Rightarrow> (Inl e, c' # cs)
      | (Inr _, c') \<Rightarrow> (case close_all hs cs of (r, cs') \<Rightarrow> (r, c' # cs')))"
| "close_all hs cs = (Inr (), cs)"

function union_next ::
  "('s, 'b) hooks list \<Rightarrow> 's op_state list \<times> nat \<Rightarrow> ('b option result \<times> 's op_state list \<times> nat) option" where
  "union_next hs (cs, cursor) =
     (if cursor < length cs then
        (case op_next (hs ! cursor) (cs ! cursor) of
           None \<Rightarrow> None
         | Some (Inl e, c) \<Rightarrow> Some (Inl e, cs[cursor := c], cursor)
         | Some (Inr (Some b), c) \<Rightarrow> Some (Inr (Some b), cs[cursor := c], cursor)
         | Some (Inr None, c) \<Rightarrow> union_next hs (cs[cursor := c], Suc cursor))
      else Some (Inr None, cs, cursor))"
  by pat_completeness auto
termination by (relation "measure (\<lambda>(hs, cs, cursor). length cs - cursor)") auto

definition union_hooks :: "('s, 'b) hooks list \<Rightarrow> ('s op_state list \<times> nat, 'b) hooks" where
  "union_hooks hs = \<lparr>
     hook_open = (\<lambda>ctx (cs, k). map_option (\<lambda>(r, cs'). (r, cs', k)) (open_all hs ctx cs)),
     hook_next = union_next hs,
     hook_close = (\<lambda>(cs, k). case close_all hs cs of (r, cs') \<Rightarrow> (r, cs', k))\<rparr>"

section \<open>Scans\<close>

text \<open>
  The generator \<open>scan\<close> of a store: the batches of the current chunk that were not visited yet, and the
  chunks to come. After an exception a generator is exhausted.
\<close>

type_synonym 'v scan_iter = "'v batch list \<times> chunk_ref list"

fun scan_iter_next ::
  "'v arrow \<Rightarrow> fs \<Rightarrow> path \<Rightarrow> string list option \<Rightarrow> int option \<Rightarrow> 'v scan_iter \<Rightarrow> 'v batch option result \<times> 'v scan_iter" where
  "scan_iter_next ar fs root columns snapshot_lsn ([], []) = (Inr None, ([], []))"
| "scan_iter_next ar fs root columns snapshot_lsn ([], c # cs) =
     (case record_batches ar fs (join_path root (ch_path c)) of
        Inl e \<Rightarrow> (Inl e, ([], []))
      | Inr bs \<Rightarrow> scan_iter_next ar fs root columns snapshot_lsn (bs, cs))"
| "scan_iter_next ar fs root columns snapshot_lsn (b # bs, cs) =
     (case scan_batch ar columns snapshot_lsn b of
        Inl e \<Rightarrow> (Inl e, ([], []))
      | Inr b' \<Rightarrow> (Inr (Some b'), (bs, cs)))"

text \<open>The snapshot of the execution context: \<open>int\<close> of the metadata entry, if there is one.\<close>

definition metadata_lsn :: "exec_ctx \<Rightarrow> int option result" where
  "metadata_lsn ctx =
     (case map_of (ctx_metadata ctx) ''snapshot_lsn'' of
        None \<Rightarrow> Inr None
      | Some JNull \<Rightarrow> Inr None
      | Some v \<Rightarrow> rbind (json_int v) (\<lambda>i. Inr (Some i)))"

text \<open>The state of a node scan: the snapshot of its iterator and the iterator, none before \<open>open\<close>.\<close>

type_synonym 'v scan_state = "(int option \<times> 'v scan_iter) option"

definition node_scan_open :: "node_store \<Rightarrow> exec_ctx \<Rightarrow> 'v scan_state \<Rightarrow> (unit result \<times> 'v scan_state) option" where
  "node_scan_open store ctx st =
     (case metadata_lsn ctx of
        Inl e \<Rightarrow> Some (Inl e, st)
      | Inr lsn \<Rightarrow> Some (Inr (), Some (lsn, ([], nm_chunks (ns_manifest store)))))"

definition node_scan_batch :: "'v arrow \<Rightarrow> ('v batch \<Rightarrow> mask result) option \<Rightarrow> 'v batch \<Rightarrow> 'v batch option result" where
  "node_scan_batch ar predicate batch =
     (case predicate of None \<Rightarrow> Inr (Some batch) | Some p \<Rightarrow> filter_batch ar p batch)"

definition node_scan_next ::
  "'v arrow \<Rightarrow> fs \<Rightarrow> node_store \<Rightarrow> string list option \<Rightarrow> ('v batch \<Rightarrow> mask result) option \<Rightarrow> 'v scan_state
    \<Rightarrow> ('v batch option result \<times> 'v scan_state) option" where
  "node_scan_next ar fs store columns predicate st =
     (case st of
        None \<Rightarrow> Some (Inl AssertionError, None)
      | Some (lsn, it) \<Rightarrow>
          map_option (\<lambda>(r, it'). (r, Some (lsn, it')))
            (skip_next (node_scan_batch ar predicate)
               (\<lambda>it. Some (scan_iter_next ar fs (ns_root store) columns lsn it)) it))"

definition node_scan_hooks ::
  "'v arrow \<Rightarrow> fs \<Rightarrow> node_store \<Rightarrow> string list option \<Rightarrow> ('v batch \<Rightarrow> mask result) option \<Rightarrow> ('v scan_state, 'v batch) hooks" where
  "node_scan_hooks ar fs store columns predicate = \<lparr>
     hook_open = node_scan_open store, hook_next = node_scan_next ar fs store columns predicate,
     hook_close = (\<lambda>st. (Inr (), st))\<rparr>"

subsection \<open>Triples\<close>

record triple_step =
  ts_subject_var :: "string option"
  ts_subject_const :: "int option"
  ts_predicate_iri :: string
  ts_object_var :: "string option"
  ts_object_const :: "int option"

definition triple_init :: "triple_step \<Rightarrow> unit result" where
  "triple_init s =
     (if ts_subject_var s = None \<and> ts_subject_const s = None then raise_code ''CDB-6080''
      else if ts_object_var s = None \<and> ts_object_const s = None then raise_code ''CDB-6080''
      else if ts_subject_var s = ts_object_var s \<and> ts_subject_var s \<noteq> None then raise_code ''CDB-6080''
      else Inr ())"

definition keep_equal :: "'v arrow \<Rightarrow> 'v table_lib \<Rightarrow> string \<Rightarrow> int \<Rightarrow> 'v batch \<Rightarrow> 'v batch result" where
  "keep_equal ar tb name c batch =
     rbind (pa_column ar batch name) (\<lambda>a. rbind (tl_equal tb a c) (pa_filter ar batch))"

definition apply_constants :: "'v arrow \<Rightarrow> 'v table_lib \<Rightarrow> triple_step \<Rightarrow> 'v batch \<Rightarrow> 'v batch result" where
  "apply_constants ar tb s batch =
     rbind (case ts_subject_const s of None \<Rightarrow> Inr batch | Some c \<Rightarrow> keep_equal ar tb SRC_COLUMN c batch) (\<lambda>b.
     case ts_object_const s of
       None \<Rightarrow> Inr b
     | Some c \<Rightarrow> if brows b > 0 then keep_equal ar tb DST_COLUMN c b else Inr b)"

definition triple_project :: "'v arrow \<Rightarrow> 'v table_lib \<Rightarrow> triple_step \<Rightarrow> 'v batch \<Rightarrow> 'v batch result" where
  "triple_project ar tb s batch =
     rbind (case ts_subject_var s of None \<Rightarrow> Inr [] | Some v \<Rightarrow> rbind (pa_column ar batch SRC_COLUMN) (\<lambda>a. Inr [(v, a)])) (\<lambda>subj.
     rbind (case ts_object_var s of None \<Rightarrow> Inr [] | Some v \<Rightarrow> rbind (pa_column ar batch DST_COLUMN) (\<lambda>a. Inr [(v, a)])) (\<lambda>obj.
     let columns = (if subj @ obj = [] then [(''found'', tl_trues tb (brows batch))] else subj @ obj)
     in pa_from_arrays ar (map snd columns) (map fst columns)))"

definition triple_batch :: "'v arrow \<Rightarrow> 'v table_lib \<Rightarrow> triple_step \<Rightarrow> 'v batch \<Rightarrow> 'v batch option result" where
  "triple_batch ar tb s batch =
     rbind (apply_constants ar tb s batch) (\<lambda>filtered.
     if brows filtered = 0 then Inr None else rbind (triple_project ar tb s filtered) (\<lambda>b. Inr (Some b)))"

definition triple_hooks ::
  "'v arrow \<Rightarrow> 'v table_lib \<Rightarrow> fs \<Rightarrow> edge_store \<Rightarrow> triple_step \<Rightarrow> ('v scan_iter option, 'v batch) hooks" where
  "triple_hooks ar tb fs store s = \<lparr>
     hook_open = (\<lambda>ctx _. Some (Inr (), Some ([], em_chunks (es_manifest store)))),
     hook_next = (\<lambda>st. case st of
         None \<Rightarrow> Some (Inl AssertionError, None)
       | Some it \<Rightarrow>
           map_option (apsnd Some)
             (skip_next (triple_batch ar tb s)
                (\<lambda>it. Some (scan_iter_next ar fs (es_root store) (Some [SRC_COLUMN, DST_COLUMN]) None it)) it)),
     hook_close = (\<lambda>st. (Inr (), st))\<rparr>"

subsection \<open>Subclass closures\<close>

definition closure_scan_init :: "'b class_closure \<Rightarrow> string \<Rightarrow> unit result" where
  "closure_scan_init cc base_iri =
     (if base_iri \<notin> fst ` set (cc_id_by_iri cc) then raise_code ''CDB-6070'' else Inr ())"

text \<open>The batches of every class that has a store; a class without one is skipped.\<close>

definition class_batches ::
  "'v arrow \<Rightarrow> fs \<Rightarrow> crcl_bundle \<Rightarrow> string \<Rightarrow> (string \<times> 'v batch list) list \<Rightarrow> (string \<times> 'v batch list) list result" where
  "class_batches ar fs bnd iri acc =
     (case fst (open_node_store fs bnd iri (local_name_of iri) False ''none'') of
        Inl e \<Rightarrow> if e = CaracalError ''CDB-7012'' then Inr acc else Inl e
      | Inr store \<Rightarrow>
          rbind (node_scan ar fs store None None) (\<lambda>batches.
          Inr (if batches \<noteq> [] then acc @ [(iri, batches)] else acc)))"

definition shared_names :: "string list option \<Rightarrow> (string \<times> 'v batch list) list \<Rightarrow> string list" where
  "shared_names columns per_class =
     (let batch_names = (\<lambda>(_, bs). names (bschema (hd bs)));
          common = fold (\<lambda>p ns. filter (\<lambda>n. n \<in> set (batch_names p)) ns) (tl per_class) (batch_names (hd per_class))
      in case columns of None \<Rightarrow> common | Some cs \<Rightarrow> filter (\<lambda>n. n \<in> set cs) common)"

definition with_class_column ::
  "'v arrow \<Rightarrow> 'v table_lib \<Rightarrow> string list \<Rightarrow> string \<Rightarrow> 'v batch \<Rightarrow> 'v batch result" where
  "with_class_column ar tb ns iri batch =
     rbind (pa_select ar batch ns) (\<lambda>projected.
     pa_from_arrays ar (bcols projected @ [tl_strings tb iri (brows projected)]) (ns @ [''class_iri'']))"

definition collect_batches ::
  "'v arrow \<Rightarrow> 'v table_lib \<Rightarrow> 'b bitmaps \<Rightarrow> fs \<Rightarrow> crcl_bundle \<Rightarrow> string \<Rightarrow> bool \<Rightarrow> string list option \<Rightarrow> 'b class_closure
    \<Rightarrow> ('v batch list result \<times> 'b class_closure) option" where
  "collect_batches ar tb bm fs bnd base_iri include_self columns cc =
     (case descendant_iris bm cc base_iri include_self of
        (Inl e, cc') \<Rightarrow> Some (Inl e, cc')
      | (Inr None, cc') \<Rightarrow> None
      | (Inr (Some iris), cc') \<Rightarrow>
          Some (rbind (rfold (class_batches ar fs bnd) iris []) (\<lambda>per_class.
           if per_class = [] then Inr []
           else
             let ns = shared_names columns per_class in
             rbind (rmap (\<lambda>(iri, bs). rmap (with_class_column ar tb ns iri) bs) per_class) (\<lambda>bss.
             Inr (concat bss))), cc'))"

definition closure_scan_hooks ::
  "'v arrow \<Rightarrow> 'v table_lib \<Rightarrow> 'b bitmaps \<Rightarrow> fs \<Rightarrow> crcl_bundle \<Rightarrow> string \<Rightarrow> bool \<Rightarrow> string list option
    \<Rightarrow> ('v batch list option \<times> 'b class_closure, 'v batch) hooks" where
  "closure_scan_hooks ar tb bm fs bnd base_iri include_self columns = \<lparr>
     hook_open = (\<lambda>ctx (it, cc).
       map_option (\<lambda>(r, cc'). case r of Inl e \<Rightarrow> (Inl e, it, cc') | Inr bs \<Rightarrow> (Inr (), Some bs, cc'))
         (collect_batches ar tb bm fs bnd base_iri include_self columns cc)),
     hook_next = (\<lambda>(it, cc). case it of
         None \<Rightarrow> Some (Inl AssertionError, it, cc)
       | Some [] \<Rightarrow> Some (Inr None, Some [], cc)
       | Some (b # bs) \<Rightarrow> Some (Inr (Some b), Some bs, cc)),
     hook_close = (\<lambda>st. (Inr (), st))\<rparr>"

end
