(* ===== verification/Blocking.thy ===== *)
theory Blocking
  imports Relational
begin

text \<open>
  The operators that read a child to its end when they are opened: sorting with a limit
  (\<open>exec/operators/topk.py\<close>), grouping (\<open>exec/operators/hash_agg.py\<close>) and the build side of a hash join
  (\<open>exec/operators/hash_join.py\<close>). An opening that waits for a child that never ends does not
  return.
\<close>

section \<open>Reading a child to its end\<close>

text \<open>Open, drain and close a child; an exception of the closing replaces that of the draining.\<close>

definition collect_child ::
  "('s, 'b) hooks \<Rightarrow> exec_ctx \<Rightarrow> 's op_state \<Rightarrow> ('b list result \<times> 's op_state) option" where
  "collect_child h ctx child =
     (case op_open h ctx child of
        None \<Rightarrow> None
      | Some (Inl e, c) \<Rightarrow> Some (Inl e, c)
      | Some (Inr _, c) \<Rightarrow>
          map_option (\<lambda>(bs, r, c').
            (case op_close h c' of
               (Inl e, c'') \<Rightarrow> (Inl e, c'')
             | (Inr _, c'') \<Rightarrow> (case r of Inl e \<Rightarrow> (Inl e, c'') | Inr _ \<Rightarrow> (Inr bs, c''))))
            (pull_all h c []))"

section \<open>Sorting with a limit\<close>

record topk_config =
  tk_keys :: "(string \<times> bool) list"
  tk_limit :: "int option"
  tk_offset :: int

definition topk_init :: "(string \<times> bool) list \<Rightarrow> int option \<Rightarrow> int \<Rightarrow> topk_config result" where
  "topk_init ks limit offset =
     (if (case limit of None \<Rightarrow> False | Some k \<Rightarrow> k < 0) then raise_code ''CDB-6042''
      else if offset < 0 then raise_code ''CDB-6042''
      else Inr \<lparr>tk_keys = ks, tk_limit = limit, tk_offset = offset\<rparr>)"

definition topk_batches :: "'v arrow \<Rightarrow> 'v table_lib \<Rightarrow> topk_config \<Rightarrow> 'v batch list \<Rightarrow> 'v batch list result" where
  "topk_batches ar tb cfg collected =
     (if collected = [] then Inr []
      else
        rbind (pa_from_batches ar collected None) (\<lambda>t.
        if \<exists>k \<in> set (tk_keys cfg). fst k \<notin> set (names (tschema t)) then raise_code ''CDB-6042''
        else
          rbind (tl_sort_indices tb t (tk_keys cfg)) (\<lambda>sorted_indices.
          rbind (tl_take tb t sorted_indices) (\<lambda>sorted_table.
          let t1 = (if tk_offset cfg \<noteq> 0 then tl_slice tb sorted_table (tk_offset cfg) None else sorted_table);
              t2 = (case tk_limit cfg of None \<Rightarrow> t1 | Some k \<Rightarrow> tl_slice tb t1 0 (Some k))
          in Inr (tl_to_batches tb t2)))))"

text \<open>The state: the child, the batches to come, and whether the last one was given out.\<close>

definition topk_hooks ::
  "'v arrow \<Rightarrow> 'v table_lib \<Rightarrow> topk_config \<Rightarrow> ('s, 'v batch) hooks \<Rightarrow> ('s op_state \<times> 'v batch list \<times> bool, 'v batch) hooks" where
  "topk_hooks ar tb cfg h = \<lparr>
     hook_open = (\<lambda>ctx (child, batches, consumed).
       map_option (\<lambda>(r, c).
         (case rbind r (topk_batches ar tb cfg) of
            Inl e \<Rightarrow> (Inl e, c, batches, consumed)
          | Inr bs \<Rightarrow> (Inr (), c, bs, consumed))) (collect_child h ctx child)),
     hook_next = (\<lambda>(child, batches, consumed).
       if consumed then Some (Inr None, child, batches, consumed)
       else (case batches of
               [] \<Rightarrow> Some (Inr None, child, batches, consumed)
             | b # bs \<Rightarrow> Some (Inr (Some b), child, bs, bs = []))),
     hook_close = (\<lambda>st. (Inr (), st))\<rparr>"

section \<open>Grouping\<close>

definition ARROW_KERNEL_MAP :: "(string, string) dict" where
  "ARROW_KERNEL_MAP =
     [(''count'', ''count''), (''sum'', ''sum''), (''min'', ''min''), (''max'', ''max''), (''mean'', ''mean''),
      (''avg'', ''mean''), (''list'', ''list''), (''collect'', ''list'')]"

text \<open>The column, if any, the kernel and the name of the output.\<close>

type_synonym agg_spec = "string option \<times> string \<times> string"

text \<open>One round of the loop over the aggregates: the Arrow kernels and the names of their results.\<close>

definition agg_step ::
  "string list \<Rightarrow> agg_spec \<Rightarrow> (string \<times> string) list \<times> (string, string) dict
    \<Rightarrow> ((string \<times> string) list \<times> (string, string) dict) result" where
  "agg_step column_names spec st =
     (case (spec, st) of ((column, kern, out_name), (kernels, rename)) \<Rightarrow>
        if kern = ''count_star'' then
          Inr (kernels @ [(''__one__'', ''count'')], AList.update ''__one___count'' out_name rename)
        else
          (case map_of ARROW_KERNEL_MAP kern of
             None \<Rightarrow> raise_code ''CDB-6041''
           | Some arrow_kernel \<Rightarrow>
               (case column of
                  None \<Rightarrow> raise_code ''CDB-6041''
                | Some c \<Rightarrow>
                    if c \<notin> set column_names then raise_code ''CDB-6041''
                    else Inr (kernels @ [(c, arrow_kernel)], AList.update (c @ ''_'' @ arrow_kernel) out_name rename))))"

definition aggregate_batches ::
  "'v arrow \<Rightarrow> 'v table_lib \<Rightarrow> string list \<Rightarrow> agg_spec list \<Rightarrow> 'v batch list \<Rightarrow> 'v batch list result" where
  "aggregate_batches ar tb group_keys specs batches =
     (if batches = [] then Inr []
      else
        rbind (pa_from_batches ar batches None) (\<lambda>t0.
        rbind (if \<exists>s \<in> set specs. fst (snd s) = ''count_star''
               then tl_append_column tb t0 ''__one__'' (tl_ones tb (table_rows t0)) else Inr t0) (\<lambda>t.
        rbind (rfold (agg_step (names (tschema t))) specs ([], [])) (\<lambda>(kernels, rename).
        rbind (tl_aggregate tb t group_keys kernels) (\<lambda>grouped.
        rbind (tl_rename tb grouped
                 (map (\<lambda>n. case map_of rename n of None \<Rightarrow> n | Some m \<Rightarrow> m) (names (tschema grouped)))) (\<lambda>renamed.
        Inr (tl_to_batches tb renamed)))))))"

definition aggregate_hooks ::
  "'v arrow \<Rightarrow> 'v table_lib \<Rightarrow> string list \<Rightarrow> agg_spec list \<Rightarrow> ('s, 'v batch) hooks \<Rightarrow> ('s op_state \<times> 'v batch list, 'v batch) hooks" where
  "aggregate_hooks ar tb group_keys specs h = \<lparr>
     hook_open = (\<lambda>ctx (child, batches).
       map_option (\<lambda>(r, c).
         (case rbind r (aggregate_batches ar tb group_keys specs) of
            Inl e \<Rightarrow> (Inl e, c, batches)
          | Inr bs \<Rightarrow> (Inr (), c, bs))) (collect_child h ctx child)),
     hook_next = (\<lambda>(child, batches). case batches of
         [] \<Rightarrow> Some (Inr None, child, [])
       | b # bs \<Rightarrow> Some (Inr (Some b), child, bs)),
     hook_close = (\<lambda>st. (Inr (), st))\<rparr>"

section \<open>Hash joins\<close>

datatype hash_join_kind = Inner | LeftOuter

record join_config =
  jc_build_key :: string
  jc_probe_key :: string
  jc_kind :: hash_join_kind
  jc_build_prefix :: "string option"
  jc_probe_prefix :: "string option"

definition join_init :: "string \<Rightarrow> string \<Rightarrow> string \<Rightarrow> string option \<Rightarrow> string option \<Rightarrow> join_config result" where
  "join_init build_key probe_key kind build_prefix probe_prefix =
     (let cfg = (\<lambda>k. \<lparr>jc_build_key = build_key, jc_probe_key = probe_key, jc_kind = k,
                     jc_build_prefix = build_prefix, jc_probe_prefix = probe_prefix\<rparr>)
      in if kind = ''inner'' then Inr (cfg Inner)
         else if kind = ''left'' then Inr (cfg LeftOuter)
         else raise_code ''CDB-6040'')"

text \<open>The dictionary from join keys to the rows of the build side, in their order. Keys are hashable.\<close>

type_synonym 'v join_index = "('v cell, nat list) dict"

definition index_at :: "'v join_index \<Rightarrow> 'v cell \<Rightarrow> nat list" where
  "index_at ix k = (case map_of ix k of None \<Rightarrow> [] | Some is \<Rightarrow> is)"

definition index_rows :: "'v cell list \<Rightarrow> 'v join_index" where
  "index_rows ks = fold (\<lambda>(i, k) d. AList.update k (index_at d k @ [i]) d) (zip [0..<length ks] ks) []"

definition build_side :: "'v arrow \<Rightarrow> join_config \<Rightarrow> 'v batch list \<Rightarrow> ('v table \<times> 'v join_index) result" where
  "build_side ar cfg batches =
     rbind (if batches \<noteq> [] then pa_from_batches ar batches (Some (bschema (hd batches)))
            else Inr \<lparr>tschema = [\<lparr>fld_name = jc_build_key cfg, fld_type = uint64, fld_nullable = True\<rparr>], tbatches = []\<rparr>) (\<lambda>t.
     if jc_build_key cfg \<notin> set (names (tschema t)) then raise_code ''CDB-6040''
     else rbind (table_column t (jc_build_key cfg)) (\<lambda>ks. Inr (t, index_rows ks)))"

text \<open>The pairs of a build row, none for a row without a match, and a probe row.\<close>

definition match_rows :: "hash_join_kind \<Rightarrow> 'v join_index \<Rightarrow> 'v cell list \<Rightarrow> (nat option \<times> nat) list" where
  "match_rows kind ix ks =
     concat (map (\<lambda>(pi, key).
       (case index_at ix key of
          [] \<Rightarrow> if kind = LeftOuter then [(None, pi)] else []
        | bis \<Rightarrow> map (\<lambda>bi. (Some bi, pi)) bis)) (zip [0..<length ks] ks))"

definition take_build :: "'v table_lib \<Rightarrow> 'v table \<Rightarrow> hash_join_kind \<Rightarrow> nat option list \<Rightarrow> (string list \<times> 'v array list) result" where
  "take_build tb t kind bis =
     (if kind = LeftOuter \<and> None \<in> set bis then
        rbind (tl_take tb t (map (\<lambda>bi. case bi of None \<Rightarrow> 0 | Some i \<Rightarrow> i) bis)) (\<lambda>taken.
        Inr (names (tschema taken), map (tl_null_where tb (map (\<lambda>bi. bi = None) bis)) (table_arrays taken)))
      else
        rbind (tl_take tb t (map the bis)) (\<lambda>taken. Inr (names (tschema taken), table_arrays taken)))"

text \<open>An empty prefix counts as none.\<close>

definition prefix_names :: "string option \<Rightarrow> string list \<Rightarrow> string list" where
  "prefix_names pfx ns = (case pfx of Some (c # cs) \<Rightarrow> map (\<lambda>n. (c # cs) @ ''.'' @ n) ns | _ \<Rightarrow> ns)"

definition join_one ::
  "'v arrow \<Rightarrow> 'v table_lib \<Rightarrow> join_config \<Rightarrow> 'v table \<Rightarrow> 'v join_index \<Rightarrow> 'v batch \<Rightarrow> 'v batch option result" where
  "join_one ar tb cfg t ix probe =
     (if jc_probe_key cfg \<notin> set (names (bschema probe)) then raise_code ''CDB-6040''
      else
        rbind (pa_column ar probe (jc_probe_key cfg)) (\<lambda>key_column.
        let pairs = match_rows (jc_kind cfg) ix (cells key_column) in
        if pairs = [] then Inr None
        else
          rbind (take_build tb t (jc_kind cfg) (map fst pairs)) (\<lambda>(build_names, build_arrays).
          rbind (pa_from_batches ar [probe] None) (\<lambda>probe_table.
          rbind (tl_take tb probe_table (map snd pairs)) (\<lambda>probe_take.
          rbind (pa_from_arrays ar (build_arrays @ table_arrays probe_take)
                   (prefix_names (jc_build_prefix cfg) build_names
                    @ prefix_names (jc_probe_prefix cfg) (names (tschema probe_take)))) (\<lambda>b.
          Inr (if brows b > 0 then Some b else None)))))))"

text \<open>The state: both children, and the table and the index of the build side once it was read.\<close>

type_synonym ('s, 'p, 'v) join_state = "'s op_state \<times> 'p op_state \<times> ('v table \<times> 'v join_index) option"

definition join_open ::
  "'v arrow \<Rightarrow> join_config \<Rightarrow> ('s, 'v batch) hooks \<Rightarrow> ('p, 'v batch) hooks \<Rightarrow> exec_ctx \<Rightarrow> ('s, 'p, 'v) join_state
    \<Rightarrow> (unit result \<times> ('s, 'p, 'v) join_state) option" where
  "join_open ar cfg hb hp ctx st =
     (case st of (build, probe, side) \<Rightarrow>
        (case collect_child hb ctx build of
           None \<Rightarrow> None
         | Some (r, build') \<Rightarrow>
             (case rbind r (build_side ar cfg) of
                Inl e \<Rightarrow> Some (Inl e, build', probe, side)
              | Inr s \<Rightarrow> map_option (\<lambda>(r', probe'). (r', build', probe', Some s)) (op_open hp ctx probe))))"

definition join_next ::
  "'v arrow \<Rightarrow> 'v table_lib \<Rightarrow> join_config \<Rightarrow> ('p, 'v batch) hooks \<Rightarrow> ('s, 'p, 'v) join_state
    \<Rightarrow> ('v batch option result \<times> ('s, 'p, 'v) join_state) option" where
  "join_next ar tb cfg hp st =
     (case st of (build, probe, side) \<Rightarrow>
        (case side of
           None \<Rightarrow> Some (Inl AssertionError, st)
         | Some (t, ix) \<Rightarrow>
             map_option (\<lambda>(r, probe'). (r, build, probe', side)) (skip_next (join_one ar tb cfg t ix) (op_next hp) probe)))"

definition join_hooks ::
  "'v arrow \<Rightarrow> 'v table_lib \<Rightarrow> join_config \<Rightarrow> ('s, 'v batch) hooks \<Rightarrow> ('p, 'v batch) hooks
    \<Rightarrow> (('s, 'p, 'v) join_state, 'v batch) hooks" where
  "join_hooks ar tb cfg hb hp = \<lparr>
     hook_open = join_open ar cfg hb hp,
     hook_next = join_next ar tb cfg hp,
     hook_close = (\<lambda>(build, probe, side). case op_close hp probe of (r, probe') \<Rightarrow> (r, build, probe', side))\<rparr>"

end
