(* ===== verification/Relational_Theorems.thy ===== *)
theory Relational_Theorems
  imports Blocking Arrow_Lists "HOL-Library.Sorting_Algorithms"
begin

text \<open>
  What the relational operators deliver, in terms of rows: dropping columns, filters, sorting with a
  limit and hash joins over any child that ends.
\<close>

section \<open>Rows\<close>

definition tuples :: "'v batch \<Rightarrow> 'v cell list list" where
  "tuples b = map (\<lambda>i. map (\<lambda>a. cells a ! i) (bcols b)) [0..<brows b]"

definition table_tuples :: "'v table \<Rightarrow> 'v cell list list" where
  "table_tuples t = concat (map tuples (tbatches t))"

definition table_ok :: "'v table \<Rightarrow> bool" where
  "table_ok t \<longleftrightarrow> (\<forall>b \<in> set (tbatches t). batch_ok b \<and> bschema b = tschema t)"

lemma length_tuples [simp]: "length (tuples b) = brows b"
  by (simp add: tuples_def)

lemma length_table_tuples [simp]: "length (table_tuples t) = table_rows t"
  by (simp add: table_tuples_def table_rows_def length_concat comp_def)

lemma tuples_width: "r \<in> set (tuples b) \<Longrightarrow> length r = length (bcols b)"
  by (auto simp: tuples_def)

lemma table_tuples_width: "table_ok t \<Longrightarrow> r \<in> set (table_tuples t) \<Longrightarrow> length r = length (tschema t)"
  by (auto simp: table_tuples_def table_ok_def batch_ok_length dest!: tuples_width)

lemma batch_column:
  assumes "batch_ok b" "j < length (bcols b)"
  shows "cells (bcols b ! j) = map (\<lambda>r. r ! j) (tuples b)"
  using assms by (auto simp: tuples_def batch_ok_def intro!: nth_equalityI)

lemma table_column_tuples:
  assumes "table_ok t" "j < length (tschema t)"
  shows "cells (table_arrays t ! j) = map (\<lambda>r. r ! j) (table_tuples t)"
proof -
  have "cells (bcols b ! j) = map (\<lambda>r. r ! j) (tuples b)" if "b \<in> set (tbatches t)" for b
    using assms that by (intro batch_column) (auto simp: table_ok_def batch_ok_length)
  then show ?thesis
    using assms(2) by (simp add: table_arrays_def table_tuples_def map_concat comp_def cong: map_cong)
qed

lemma length_table_arrays [simp]: "length (table_arrays t) = length (tschema t)"
  by (simp add: table_arrays_def)

lemma table_array_cells: "table_ok t \<Longrightarrow> a \<in> set (table_arrays t) \<Longrightarrow> length (cells a) = table_rows t"
  by (auto simp: in_set_conv_nth table_column_tuples)

text \<open>The rows that the columns of a table make up.\<close>

lemma row_of_arrays:
  assumes "table_ok t" "i < table_rows t"
  shows "map (\<lambda>a. cells a ! i) (table_arrays t) = table_tuples t ! i"
proof (rule nth_equalityI)
  have "table_tuples t ! i \<in> set (table_tuples t)" using assms(2) by simp
  from table_tuples_width [OF assms(1) this]
  show len: "length (map (\<lambda>a. cells a ! i) (table_arrays t)) = length (table_tuples t ! i)" by simp
  fix j assume "j < length (map (\<lambda>a. cells a ! i) (table_arrays t))"
  then show "map (\<lambda>a. cells a ! i) (table_arrays t) ! j = table_tuples t ! i ! j"
    using assms by (simp add: table_column_tuples)
qed

section \<open>Passing batches through\<close>

text \<open>A source that delivers the items and then the end, as \<^const>\<open>drains\<close> does for operators.\<close>

inductive yields :: "('i \<Rightarrow> ('b option result \<times> 'i) option) \<Rightarrow> 'i \<Rightarrow> 'b list \<Rightarrow> 'i \<Rightarrow> bool" where
  ended: "step it = Some (Inr None, it') \<Longrightarrow> yields step it [] it'"
| item: "step it = Some (Inr (Some b), it') \<Longrightarrow> yields step it' bs it'' \<Longrightarrow> yields step it (b # bs) it''"

lemma yields_drains: "drains h st bs st' \<Longrightarrow> yields (op_next h) st bs st'"
  by (induction rule: drains.induct) (auto intro: yields.intros)

lemma drains_yields: "yields (hook_next h) s bs s' \<Longrightarrow> drains h (running s) bs (running s')"
  by (induction "hook_next h" s bs s' rule: yields.induct) (auto intro: drains.intros simp: op_next_running)

lemma yields_same: "yields step it2 bs it' \<Longrightarrow> step it = step it2 \<Longrightarrow> yields step it bs it'"
  by (cases rule: yields.cases, assumption) (auto intro: yields.intros)

fun somes :: "'a option list \<Rightarrow> 'a list" where
  "somes [] = []"
| "somes (None # os) = somes os"
| "somes (Some x # os) = x # somes os"

lemma skip_next_yields:
  "yields step it bs it' \<Longrightarrow> rmap f bs = Inr os \<Longrightarrow> yields (skip_next f step) it (somes os) it'"
proof (induction step it bs it' arbitrary: os rule: yields.induct)
  case (ended step it it')
  then show ?case by (auto intro!: yields.ended simp: skip_next.simps)
next
  case (item step it b it' bs it'')
  then obtain o1 os' where os: "f b = Inr o1" "rmap f bs = Inr os'" "os = o1 # os'"
    by (auto simp: rbind_Inr_iff)
  from item.IH [OF os(2)] have rest: "yields (skip_next f step) it' (somes os') it''" .
  show ?case
  proof (cases o1)
    case None
    with item.hyps(1) os have "skip_next f step it = skip_next f step it'" by (subst skip_next.simps) simp
    with None os yields_same [OF rest] show ?thesis by simp
  next
    case (Some x)
    with item.hyps(1) os have "skip_next f step it = Some (Inr (Some x), it')" by (subst skip_next.simps) simp
    with Some os rest show ?thesis by (simp add: yields.item)
  qed
qed

lemma pass_drains:
  assumes "drains h st bs st'" "rmap f bs = Inr os"
  shows "drains (pass_hooks f h) (running st) (somes os) (running st')"
  by (rule drains_yields) (simp add: pass_hooks_def skip_next_yields [OF yields_drains [OF assms(1)] assms(2)])

subsection \<open>Scans\<close>

text \<open>Iterating over a store gives the batches of \<^const>\<open>scan_chunks\<close>, if none raises.\<close>

lemma scan_iter_item:
  "scan_batch ar columns lsn b = Inr x \<Longrightarrow> yields (\<lambda>it. Some (scan_iter_next ar fs root columns lsn it)) (pending, chunks) xs it'
    \<Longrightarrow> yields (\<lambda>it. Some (scan_iter_next ar fs root columns lsn it)) (b # pending, chunks) (x # xs) it'"
  by (rule yields.item) simp_all

lemma scan_iter_yields:
  assumes "rmap (scan_batch ar columns lsn) pending = Inr xs"
    and "rmap (\<lambda>c. rbind (record_batches ar fs (join_path root (ch_path c))) (rmap (scan_batch ar columns lsn))) chunks = Inr yss"
  shows "yields (\<lambda>it. Some (scan_iter_next ar fs root columns lsn it)) (pending, chunks) (xs @ concat yss) ([], [])"
  using assms
proof (induction chunks arbitrary: pending xs yss)
  case Nil
  from Nil.prems(1) have "yields (\<lambda>it. Some (scan_iter_next ar fs root columns lsn it)) (pending, []) xs ([], [])"
    by (induction pending arbitrary: xs) (auto simp: rbind_Inr_iff intro: yields.ended scan_iter_item)
  with Nil.prems(2) show ?case by simp
next
  case (Cons c chunks)
  then obtain bs ys yss' where c: "record_batches ar fs (join_path root (ch_path c)) = Inr bs" "rmap (scan_batch ar columns lsn) bs = Inr ys"
    "rmap (\<lambda>c. rbind (record_batches ar fs (join_path root (ch_path c))) (rmap (scan_batch ar columns lsn))) chunks = Inr yss'"
    "yss = ys # yss'"
    by (auto simp: rbind_Inr_iff)
  let ?step = "\<lambda>it. Some (scan_iter_next ar fs root columns lsn it)"
  from Cons.IH [OF c(2,3)] have rest: "yields ?step (bs, chunks) (ys @ concat yss') ([], [])" .
  then have "yields ?step ([], c # chunks) (ys @ concat yss') ([], [])"
    by (rule yields_same) (simp add: c(1))
  with Cons.prems(1) show ?case
    by (induction pending arbitrary: xs) (auto simp: rbind_Inr_iff c(4) intro: scan_iter_item)
qed

lemma node_scan_drains:
  assumes "node_scan ar fs store columns lsn = Inr bs" "rmap (node_scan_batch ar predicate) bs = Inr os"
  shows "\<exists>it. drains (node_scan_hooks ar fs store columns predicate)
     (running (Some (lsn, ([], nm_chunks (ns_manifest store))))) (somes os) (running (Some (lsn, it)))"
proof -
  let ?step = "\<lambda>it. Some (scan_iter_next ar fs (ns_root store) columns lsn it)"
  from assms(1) obtain yss where "rmap (\<lambda>c. rbind (record_batches ar fs (join_path (ns_root store) (ch_path c)))
      (rmap (scan_batch ar columns lsn))) (nm_chunks (ns_manifest store)) = Inr yss" "bs = concat yss"
    by (auto simp: node_scan_def scan_chunks_def rbind_Inr_iff)
  with scan_iter_yields [of ar columns lsn "[]" "[]" fs "ns_root store"]
  have "yields ?step ([], nm_chunks (ns_manifest store)) bs ([], [])" by simp
  from skip_next_yields [OF this assms(2)]
  have "yields (skip_next (node_scan_batch ar predicate) ?step) ([], nm_chunks (ns_manifest store)) (somes os) ([], [])" .
  then have "yields (node_scan_next ar fs store columns predicate) (Some (lsn, ([], nm_chunks (ns_manifest store))))
      (somes os) (Some (lsn, ([], [])))"
    by (induction "skip_next (node_scan_batch ar predicate) ?step" _ _ _ rule: yields.induct)
      (auto intro: yields.intros simp: node_scan_next_def)
  then show ?thesis by (intro exI drains_yields) (simp add: node_scan_hooks_def)
qed

section \<open>Table functions\<close>

text \<open>The order of rows by sort keys: nulls last, ties decided by the later keys.\<close>

definition then_by :: "'a comparator \<Rightarrow> 'a comparator \<Rightarrow> 'a comparator" where
  "then_by c d = key (\<lambda>x. (x, x)) (prod_lex c d)"

definition null_last :: "'v cell comparator \<Rightarrow> 'v cell comparator" where
  "null_last c = key (\<lambda>x. (x = CNull, x)) (prod_lex comparator_bool c)"

definition column_order :: "'v cell comparator \<Rightarrow> string list \<Rightarrow> string \<times> bool \<Rightarrow> 'v cell list comparator" where
  "column_order c ns k =
     key (\<lambda>r. the (map_of (zip ns r) (fst k))) (null_last (if snd k then reversed c else c))"

definition row_order :: "'v cell comparator \<Rightarrow> string list \<Rightarrow> (string \<times> bool) list \<Rightarrow> 'v cell list comparator" where
  "row_order c ns ks = foldr (\<lambda>k. then_by (column_order c ns k)) ks flat"

text \<open>
  The documented behaviour of the functions of tables, for well-formed arguments: \<open>sort_indices\<close> is
  a stable sort by an order of the values that does not depend on the table.
\<close>

locale table_laws = arrow_laws ar for ar :: "'v arrow" +
  fixes tb :: "'v table_lib" and val_order :: "'v cell comparator"
  assumes with_schema: "bs \<noteq> [] \<Longrightarrow> \<forall>b \<in> set bs. bschema b = s \<Longrightarrow>
      pa_from_batches ar bs (Some s) = Inr \<lparr>tschema = s, tbatches = bs\<rparr>"
    and take_in: "table_ok t \<Longrightarrow> \<forall>i \<in> set is. i < table_rows t \<Longrightarrow>
      \<exists>t'. tl_take tb t is = Inr t' \<and> table_ok t' \<and> tschema t' = tschema t
         \<and> table_tuples t' = map ((!) (table_tuples t)) is"
    and take_out: "table_ok t \<Longrightarrow> \<exists>i \<in> set is. table_rows t \<le> i \<Longrightarrow> tl_take tb t is = Inl IndexError"
    and slice_from: "table_ok t \<Longrightarrow> 0 \<le> off \<Longrightarrow> table_ok (tl_slice tb t off None) \<and> tschema (tl_slice tb t off None) = tschema t
         \<and> table_tuples (tl_slice tb t off None) = drop (nat off) (table_tuples t)"
    and slice_to: "table_ok t \<Longrightarrow> 0 \<le> n \<Longrightarrow> table_ok (tl_slice tb t 0 (Some n)) \<and> tschema (tl_slice tb t 0 (Some n)) = tschema t
         \<and> table_tuples (tl_slice tb t 0 (Some n)) = take (nat n) (table_tuples t)"
    and to_batches: "table_ok t \<Longrightarrow> (\<forall>b \<in> set (tl_to_batches tb t). batch_ok b \<and> bschema b = tschema t)
         \<and> concat (map tuples (tl_to_batches tb t)) = table_tuples t"
    and sort_indices: "table_ok t \<Longrightarrow> distinct (names (tschema t)) \<Longrightarrow> fst ` set ks \<subseteq> set (names (tschema t)) \<Longrightarrow>
      tl_sort_indices tb t ks
        = Inr (Sorting_Algorithms.sort (key ((!) (table_tuples t)) (row_order val_order (names (tschema t)) ks)) [0..<table_rows t])"
    and null_where: "length m = length (cells a) \<Longrightarrow>
      tl_null_where tb m a = a\<lparr>cells := map2 (\<lambda>n c. if n then CNull else c) m (cells a)\<rparr>"

text \<open>An instance on lists: a table function that builds a table makes one batch of it.\<close>

definition batch_of_rows :: "schema \<Rightarrow> 'v cell list list \<Rightarrow> 'v batch" where
  "batch_of_rows s rows = \<lparr>bschema = s,
     bcols = map (\<lambda>j. \<lparr>arr_type = fld_type (s ! j), cells = map (\<lambda>r. r ! j) rows\<rparr>) [0..<length s], brows = length rows\<rparr>"

definition table_of_rows :: "schema \<Rightarrow> 'v cell list list \<Rightarrow> 'v table" where
  "table_of_rows s rows = \<lparr>tschema = s, tbatches = [batch_of_rows s rows]\<rparr>"

definition table_lists :: "string cell comparator \<Rightarrow> string table_lib" where
  "table_lists c = \<lparr>
     tl_take = (\<lambda>t is. if \<exists>i \<in> set is. table_rows t \<le> i then Inl IndexError
                       else Inr (table_of_rows (tschema t) (map ((!) (table_tuples t)) is))),
     tl_slice = (\<lambda>t off n. table_of_rows (tschema t)
        (case n of None \<Rightarrow> drop (nat off) (table_tuples t) | Some k \<Rightarrow> take (nat k) (drop (nat off) (table_tuples t)))),
     tl_to_batches = tbatches,
     tl_append_column = (\<lambda>t n a. Inl NotImplementedError),
     tl_aggregate = (\<lambda>t gs ks. Inl NotImplementedError),
     tl_rename = (\<lambda>t ns. Inl NotImplementedError),
     tl_sort_indices = (\<lambda>t ks. Inr (Sorting_Algorithms.sort (key ((!) (table_tuples t)) (row_order c (names (tschema t)) ks)) [0..<table_rows t])),
     tl_equal = (\<lambda>a x. Inr (map (cmp_cell (\<lambda>i. i = x)) (cells a))),
     tl_null_where = (\<lambda>m a. a\<lparr>cells := map2 (\<lambda>n c. if n then CNull else c) m (cells a)\<rparr>),
     tl_ones = (\<lambda>n. \<lparr>arr_type = ''int64'', cells = replicate n (CInt 1)\<rparr>),
     tl_trues = (\<lambda>n. \<lparr>arr_type = ''bool'', cells = replicate n (CInt 1)\<rparr>),
     tl_strings = (\<lambda>s n. \<lparr>arr_type = ''string'', cells = replicate n (CVal s)\<rparr>)\<rparr>"

lemma table_of_rows:
  assumes "\<forall>r \<in> set rows. length r = length s"
  shows "table_ok (table_of_rows s rows)" "tschema (table_of_rows s rows) = s" "table_tuples (table_of_rows s rows) = rows"
proof -
  show "table_ok (table_of_rows s rows)"
    by (auto simp: table_ok_def table_of_rows_def batch_of_rows_def batch_ok_def intro!: nth_equalityI)
  show "tschema (table_of_rows s rows) = s" by (simp add: table_of_rows_def)
  have "map (\<lambda>j. rows ! i ! j) [0..<length s] = rows ! i" if "i < length rows" for i
    using assms that by (intro nth_equalityI) auto
  then have "tuples (batch_of_rows s rows) = rows"
    by (intro nth_equalityI) (simp_all add: tuples_def batch_of_rows_def comp_def)
  then show "table_tuples (table_of_rows s rows) = rows"
    by (simp add: table_tuples_def table_of_rows_def)
qed

interpretation list_tables: table_laws arrow_lists "table_lists c" c
proof (unfold_locales, goal_cases)
  case (1 bs s)
  then show ?case by (cases bs) (simp_all add: arrow_lists_def)
next
  case (2 t idx)
  have "\<forall>r \<in> set (map ((!) (table_tuples t)) idx). length r = length (tschema t)"
    using 2 by (auto intro: table_tuples_width)
  from table_of_rows [OF this] 2(2) show ?case by (auto simp: table_lists_def not_le)
next
  case (3 t idx)
  then show ?case by (simp add: table_lists_def)
next
  case (4 t off)
  have "\<forall>r \<in> set (drop (nat off) (table_tuples t)). length r = length (tschema t)"
    using table_tuples_width [OF 4(1)] in_set_dropD by metis
  from table_of_rows [OF this] show ?case by (simp add: table_lists_def)
next
  case (5 t n)
  have "\<forall>r \<in> set (take (nat n) (table_tuples t)). length r = length (tschema t)"
    using table_tuples_width [OF 5(1)] in_set_takeD by metis
  from table_of_rows [OF this] show ?case by (simp add: table_lists_def)
qed (simp_all add: table_lists_def table_ok_def table_tuples_def)

section \<open>Sorting with a limit\<close>

lemma map_insort: "map f (Sorting_Algorithms.insort (key f c) x xs) = Sorting_Algorithms.insort c (f x) (map f xs)"
  by (induction xs) simp_all

lemma map_sort: "map f (Sorting_Algorithms.sort (key f c) xs) = Sorting_Algorithms.sort c (map f xs)"
  by (induction xs) (simp_all add: map_insort)

text \<open>A child that opens, delivers the batches and closes.\<close>

definition supplies :: "('s, 'b) hooks \<Rightarrow> exec_ctx \<Rightarrow> 's op_state \<Rightarrow> 'b list \<Rightarrow> bool" where
  "supplies h ctx child bs \<longleftrightarrow> (\<exists>c c' c''. op_open h ctx child = Some (Inr (), c) \<and> drains h c bs c' \<and> op_close h c' = (Inr (), c''))"

lemma collect_supplied: "supplies h ctx child bs \<Longrightarrow> \<exists>c. collect_child h ctx child = Some (Inr bs, c)"
  by (auto simp: supplies_def collect_child_def pull_all_drains)

text \<open>An operator that gives out the batches of a list.\<close>

lemma topk_gives:
  "bs \<noteq> [] \<Longrightarrow> yields (hook_next (topk_hooks ar tb cfg h)) (c, bs, False) bs (c, [], True)"
proof (induction bs)
  case (Cons b bs)
  show ?case
  proof (cases "bs = []")
    case True
    then show ?thesis by (auto intro!: yields.intros simp: topk_hooks_def)
  next
    case False
    with Cons.IH have "yields (hook_next (topk_hooks ar tb cfg h)) (c, bs, False) bs (c, [], True)" by simp
    with False show ?thesis by (intro yields.item) (simp_all add: topk_hooks_def)
  qed
qed simp

lemma topk_drains: "\<exists>s. drains (topk_hooks ar tb cfg h) (running (c, bs, False)) bs (running s)"
proof (cases "bs = []")
  case True
  then have "yields (hook_next (topk_hooks ar tb cfg h)) (c, bs, False) [] (c, [], False)"
    by (intro yields.ended) (simp add: topk_hooks_def)
  from drains_yields [OF this] True show ?thesis by blast
next
  case False
  from drains_yields [OF topk_gives [OF this]] show ?thesis by blast
qed

context table_laws
begin

lemma topk_rows:
  assumes "topk_init ks limit offset = Inr cfg" "\<forall>b \<in> set bs. batch_ok b \<and> bschema b = s" "distinct (names s)"
    "fst ` set ks \<subseteq> set (names s)"
  shows "\<exists>outs. topk_batches ar tb cfg bs = Inr outs
    \<and> concat (map tuples outs)
       = (case limit of None \<Rightarrow> id | Some k \<Rightarrow> take (nat k))
           (drop (nat offset) (Sorting_Algorithms.sort (row_order val_order (names s) ks) (concat (map tuples bs))))"
proof (cases "bs = []")
  case True
  then show ?thesis by (simp add: topk_batches_def split: option.split)
next
  case False
  let ?t = "\<lparr>tschema = s, tbatches = bs\<rparr> :: 'v table"
  let ?o = "row_order val_order (names s) ks" and ?T = "table_tuples ?t"
  let ?is = "Sorting_Algorithms.sort (key ((!) ?T) ?o) [0..<table_rows ?t]"
  from assms(1) have cfg: "tk_keys cfg = ks" "tk_limit cfg = limit" "tk_offset cfg = offset" "0 \<le> offset"
    and lim: "\<And>k. limit = Some k \<Longrightarrow> 0 \<le> k"
    by (auto simp: topk_init_def split: if_splits option.splits)
  have t: "pa_from_batches ar bs None = Inr ?t" using from_batches [OF False, of s] assms(2) by simp
  have ok: "table_ok ?t" using assms(2) by (simp add: table_ok_def)
  have idx: "tl_sort_indices tb ?t ks = Inr ?is" using sort_indices [OF ok, of ks] assms(3,4) by simp
  have keys_ok: "\<not> (\<exists>k \<in> set ks. fst k \<notin> fld_name ` set s)" using assms(4) by auto
  have "map ((!) ?T) ?is = Sorting_Algorithms.sort ?o (map ((!) ?T) [0..<length ?T])" by (simp add: map_sort)
  also have "map ((!) ?T) [0..<length ?T] = ?T" by (rule map_nth)
  finally have rows: "map ((!) ?T) ?is = Sorting_Algorithms.sort ?o ?T" .
  obtain t' where t': "tl_take tb ?t ?is = Inr t'" "table_ok t'" "table_tuples t' = Sorting_Algorithms.sort ?o ?T"
    using take_in [OF ok, of ?is] unfolding rows by auto
  let ?t1 = "if offset \<noteq> 0 then tl_slice tb t' offset None else t'"
  have t1: "table_ok ?t1 \<and> table_tuples ?t1 = drop (nat offset) (table_tuples t')"
    using slice_from [OF t'(2) cfg(4)] t'(2) by simp
  let ?t2 = "case limit of None \<Rightarrow> ?t1 | Some k \<Rightarrow> tl_slice tb ?t1 0 (Some k)"
  have t2: "table_ok ?t2 \<and> table_tuples ?t2 = (case limit of None \<Rightarrow> id | Some k \<Rightarrow> take (nat k)) (table_tuples ?t1)"
    using slice_to [OF conjunct1 [OF t1]] t1 lim by (cases limit) simp_all
  have "topk_batches ar tb cfg bs = Inr (tl_to_batches tb ?t2)"
    using False t idx t'(1) keys_ok by (simp add: topk_batches_def cfg Let_def cong: if_cong option.case_cong)
  moreover have "concat (map tuples (tl_to_batches tb ?t2)) = table_tuples ?t2" using to_batches [OF conjunct1 [OF t2]] by simp
  moreover have "?T = concat (map tuples bs)" by (simp add: table_tuples_def)
  ultimately show ?thesis using t1 t2 t'(3) by auto
qed

end


text \<open>Three rows, sorted by one column with a null, descending, the first two of them.\<close>

definition number_column :: "string \<Rightarrow> string cell list \<Rightarrow> string batch" where
  "number_column n cs = \<lparr>bschema = [\<lparr>fld_name = n, fld_type = uint64, fld_nullable = True\<rparr>],
     bcols = [\<lparr>arr_type = uint64, cells = cs\<rparr>], brows = length cs\<rparr>"

definition int_order :: "string cell comparator" where
  "int_order = key (\<lambda>c. case c of CInt i \<Rightarrow> nat i | _ \<Rightarrow> 0) comparator_nat"

lemma list_source_supplies: "supplies list_source ctx (op_init bs) bs"
proof -
  have "op_open list_source ctx (op_init bs) = Some (Inr (), running bs)"
    by (simp add: op_open_def op_init_def list_source_def)
  moreover have "drains list_source (running bs) bs (running [])" using list_source_drains [of "running bs"] by simp
  moreover have "op_close list_source (running []) = (Inr (), \<lparr>opened = True, closed = True, inner = []\<rparr>)"
    by (simp add: op_close_def list_source_def)
  ultimately show ?thesis unfolding supplies_def by blast
qed

abbreviation plain_ctx :: exec_ctx where
  "plain_ctx \<equiv> \<lparr>ctx_snapshot_id = None, ctx_seed = 0, ctx_batch_size = 4, ctx_metadata = []\<rparr>"


end
