(* ===== verification/Join_Theorems.thy ===== *)
theory Join_Theorems
  imports Relational_Theorems
begin

text \<open>
  The hash join is a nested-loop join: what it delivers over children that end, and how a left join
  fails over an empty build side.
\<close>

section \<open>The reference\<close>

definition field_of :: "string list \<Rightarrow> string \<Rightarrow> 'v cell list \<Rightarrow> 'v cell" where
  "field_of ns n r = the (map_of (zip ns r) n)"

text \<open>For every probe row the matching build rows in their order; a left join pads a row without one.\<close>

definition joined ::
  "hash_join_kind \<Rightarrow> nat \<Rightarrow> ('v cell list \<Rightarrow> 'v cell) \<Rightarrow> ('v cell list \<Rightarrow> 'v cell) \<Rightarrow> 'v cell list list \<Rightarrow> 'v cell list list \<Rightarrow> 'v cell list list" where
  "joined kind width bkey pkey B P =
     concat (map (\<lambda>p. let ms = filter (\<lambda>b. bkey b = pkey p) B in
        if ms \<noteq> [] then map (\<lambda>b. b @ p) ms else if kind = LeftOuter then [replicate width CNull @ p] else []) P)"

section \<open>The index\<close>

lemma index_at_update: "index_at (AList.update k v d) j = (if j = k then v else index_at d j)"
  by (simp add: index_at_def dict_lookup_update)

lemma index_rows_at: "index_at (index_rows ks) k = filter (\<lambda>i. ks ! i = k) [0..<length ks]"
proof (induction ks rule: rev_induct)
  case (snoc x ks)
  have "filter (\<lambda>i. (ks @ [x]) ! i = k) [0..<length ks] = filter (\<lambda>i. ks ! i = k) [0..<length ks]"
    by (rule filter_cong) (simp_all add: nth_append)
  with snoc show ?case by (auto simp: index_rows_def index_at_update nth_append)
qed (simp add: index_rows_def index_at_def)

text \<open>The rows of the pairs that match, the build row of a pair without one being nulls.\<close>

definition pair_row :: "nat \<Rightarrow> 'v cell list list \<Rightarrow> 'v cell list list \<Rightarrow> nat option \<times> nat \<Rightarrow> 'v cell list" where
  "pair_row width B P p = (case fst p of None \<Rightarrow> replicate width CNull | Some i \<Rightarrow> B ! i) @ P ! snd p"

lemma filter_rows: "map ((!) xs) (filter (\<lambda>i. f (xs ! i) = k) [0..<length xs]) = filter (\<lambda>x. f x = k) xs"
proof -
  have "filter (\<lambda>x. f x = k) (map ((!) xs) [0..<length xs]) = map ((!) xs) (filter (\<lambda>i. f (xs ! i) = k) [0..<length xs])"
    by (simp add: filter_map comp_def)
  then show ?thesis by (simp add: map_nth)
qed

lemma match_rows_upt:
  "match_rows kind ix ks = concat (map (\<lambda>i.
     (case index_at ix (ks ! i) of [] \<Rightarrow> if kind = LeftOuter then [(None, i)] else [] | x # xs \<Rightarrow> map (\<lambda>bi. (Some bi, i)) (x # xs)))
     [0..<length ks])"
  unfolding match_rows_def by (rule arg_cong [of _ _ concat], rule nth_equalityI) (simp_all split: list.split)

lemma match_rows_joined:
  "map (pair_row width B P) (match_rows kind (index_rows (map bkey B)) (map pkey P)) = joined kind width bkey pkey B P"
proof -
  let ?ix = "index_rows (map bkey B)"
  let ?ms = "\<lambda>p. filter (\<lambda>b. bkey b = pkey p) B"
  have at: "map ((!) B) (index_at ?ix k) = filter (\<lambda>b. bkey b = k) B" for k
  proof -
    have "index_at ?ix k = filter (\<lambda>i. bkey (B ! i) = k) [0..<length B]"
      unfolding index_rows_at length_map by (rule filter_cong) simp_all
    then show ?thesis by (simp add: filter_rows)
  qed
  have one: "map (pair_row width B P)
      (case index_at ?ix (pkey (P ! i)) of [] \<Rightarrow> if kind = LeftOuter then [(None, i)] else [] | x # xs \<Rightarrow> map (\<lambda>bi. (Some bi, i)) (x # xs))
      = (let ms = ?ms (P ! i) in
         if ms \<noteq> [] then map (\<lambda>b. b @ P ! i) ms else if kind = LeftOuter then [replicate width CNull @ P ! i] else [])" for i
  proof (cases "index_at ?ix (pkey (P ! i))")
    case Nil
    with at [of "pkey (P ! i)"] show ?thesis by (simp add: pair_row_def)
  next
    case (Cons x xs)
    with at [of "pkey (P ! i)"] have "?ms (P ! i) = map ((!) B) (x # xs)" by simp
    then have "?ms (P ! i) \<noteq> []" "map (\<lambda>b. b @ P ! i) (?ms (P ! i)) = map (\<lambda>b. b @ P ! i) (map ((!) B) (x # xs))" by simp_all
    with Cons show ?thesis by (simp only: Let_def if_True list.case) (simp add: pair_row_def comp_def)
  qed
  have "map (pair_row width B P) (match_rows kind ?ix (map pkey P))
      = concat (map (\<lambda>i. let ms = ?ms (P ! i) in
         if ms \<noteq> [] then map (\<lambda>b. b @ P ! i) ms else if kind = LeftOuter then [replicate width CNull @ P ! i] else []) [0..<length P])"
    unfolding match_rows_upt map_concat map_map comp_def length_map
    by (intro arg_cong [of _ _ concat] map_cong refl) (simp add: one)
  also have "\<dots> = joined kind width bkey pkey B (map ((!) P) [0..<length P])"
    unfolding joined_def map_map comp_def ..
  finally show ?thesis by (simp add: map_nth)
qed

lemma match_rows_bounds:
  "p \<in> set (match_rows kind (index_rows ks) qs) \<Longrightarrow> snd p < length qs \<and> (\<forall>i. fst p = Some i \<longrightarrow> i < length ks) \<and> (fst p = None \<longrightarrow> kind = LeftOuter)"
proof -
  assume "p \<in> set (match_rows kind (index_rows ks) qs)"
  then obtain i where "i < length qs"
    "p \<in> set (case index_at (index_rows ks) (qs ! i) of [] \<Rightarrow> if kind = LeftOuter then [(None, i)] else [] | x # xs \<Rightarrow> map (\<lambda>bi. (Some bi, i)) (x # xs))"
    unfolding match_rows_upt by auto
  moreover have "set (index_at (index_rows ks) (qs ! i)) \<subseteq> {..<length ks}" by (auto simp: index_rows_at)
  ultimately show ?thesis
    by (cases "index_at (index_rows ks) (qs ! i)") (auto split: if_splits)
qed

section \<open>Columns\<close>

lemma field_of_nth:
  assumes "distinct ns" "j < length ns" "length r = length ns"
  shows "field_of ns (ns ! j) r = r ! j"
  using assms by (simp add: field_of_def map_of_zip_nth)

lemma col_tuples:
  assumes "batch_ok b" "distinct (names (bschema b))" "n \<in> set (names (bschema b))"
  shows "cells (col b n) = map (field_of (names (bschema b)) n) (tuples b)"
proof -
  from assms(3) obtain j where j: "j < length (bschema b)" "n = names (bschema b) ! j"
    by (metis in_set_conv_nth length_map)
  have "cells (col b n) = map (\<lambda>r. r ! j) (tuples b)"
    using col_nth [OF assms(1,2) j(1)] batch_column [OF assms(1), of j] j batch_ok_length [OF assms(1)] by (simp del: nth_map)
  also have "\<dots> = map (field_of (names (bschema b)) n) (tuples b)"
  proof (rule map_cong [OF refl])
    fix r assume "r \<in> set (tuples b)"
    then have "length r = length (names (bschema b))" using tuples_width batch_ok_length [OF assms(1)] by fastforce
    with field_of_nth [OF assms(2), of j r] j show "r ! j = field_of (names (bschema b)) n r" by (simp del: nth_map)
  qed
  finally show ?thesis .
qed

lemma table_column_field:
  assumes "table_ok t" "distinct (names (tschema t))" "n \<in> set (names (tschema t))"
  shows "table_column t n = Inr (map (field_of (names (tschema t)) n) (table_tuples t))"
proof -
  have "cells (col b n) = map (field_of (names (tschema t)) n) (tuples b)" if "b \<in> set (tbatches t)" for b
  proof -
    have b: "batch_ok b" "bschema b = tschema t" using assms(1) that by (auto simp: table_ok_def)
    from col_tuples [OF b(1), of n] assms(2,3) show ?thesis by (simp add: b(2))
  qed
  then have "concat (map (\<lambda>b. cells (col b n)) (tbatches t)) = map (field_of (names (tschema t)) n) (table_tuples t)"
    unfolding table_tuples_def map_concat map_map comp_def by (intro arg_cong [of _ _ concat] map_cong refl)
  with assms(3) show ?thesis by (simp add: table_column_def)
qed

lemma tuples_of_arrays:
  "tuples \<lparr>bschema = s, bcols = as @ cs, brows = n\<rparr>
     = map (\<lambda>i. map (\<lambda>a. cells a ! i) as @ map (\<lambda>a. cells a ! i) cs) [0..<n]"
  by (simp add: tuples_def)

context table_laws
begin

text \<open>The build side of the rows found, with nulls where there is none.\<close>

lemma take_build_rows:
  assumes t: "table_ok t" and bis: "\<forall>i. Some i \<in> set bis \<longrightarrow> i < table_rows t"
    and none: "None \<in> set bis \<Longrightarrow> kind = LeftOuter \<and> 0 < table_rows t"
  shows "\<exists>as. take_build tb t kind bis = Inr (names (tschema t), as) \<and> length as = length (tschema t)
     \<and> (\<forall>a \<in> set as. length (cells a) = length bis)
     \<and> (\<forall>i < length bis. map (\<lambda>a. cells a ! i) as
           = (case bis ! i of None \<Rightarrow> replicate (length (tschema t)) CNull | Some j \<Rightarrow> table_tuples t ! j))"
proof (cases "None \<in> set bis")
  case True
  let ?is = "map (\<lambda>bi. case bi of None \<Rightarrow> 0 | Some i \<Rightarrow> i) bis"
  let ?m = "map (\<lambda>bi. bi = None) bis"
  have "\<forall>i \<in> set ?is. i < table_rows t" using bis none True by (auto split: option.splits)
  from take_in [OF t this] obtain t' where t': "tl_take tb t ?is = Inr t'" "table_ok t'" "tschema t' = tschema t"
    "table_tuples t' = map ((!) (table_tuples t)) ?is" by blast
  have rows: "table_rows t' = length bis" using arg_cong [OF t'(4), of length] by simp
  let ?as = "map (tl_null_where tb ?m) (table_arrays t')"
  have null: "tl_null_where tb ?m a = a\<lparr>cells := map2 (\<lambda>n c. if n then CNull else c) ?m (cells a)\<rparr>"
    if "a \<in> set (table_arrays t')" for a
    using table_array_cells [OF t'(2) that] by (intro null_where) (simp add: rows)
  have "map (\<lambda>a. cells a ! i) ?as = (case bis ! i of None \<Rightarrow> replicate (length (tschema t)) CNull | Some j \<Rightarrow> table_tuples t ! j)"
    if i: "i < length bis" for i
  proof -
    have "map (\<lambda>a. cells a ! i) ?as = map (\<lambda>a. if bis ! i = None then CNull else cells a ! i) (table_arrays t')"
      using i table_array_cells [OF t'(2)] by (auto simp: null rows)
    also have "\<dots> = (case bis ! i of None \<Rightarrow> replicate (length (tschema t)) CNull | Some j \<Rightarrow> table_tuples t ! j)"
    proof (cases "bis ! i")
      case None
      then show ?thesis by (simp add: map_replicate_const t'(3))
    next
      case (Some j)
      with row_of_arrays [OF t'(2), of i] i rows t'(4) show ?thesis by simp
    qed
    finally show ?thesis .
  qed
  moreover have "take_build tb t kind bis = Inr (names (tschema t), ?as)"
    using True none t' by (simp add: take_build_def)
  moreover have "\<forall>a \<in> set ?as. length (cells a) = length bis"
    using table_array_cells [OF t'(2)] by (auto simp: null rows)
  ultimately show ?thesis by (intro exI [of _ ?as]) (simp add: t'(3))
next
  case False
  have "\<forall>i \<in> set (map the bis). i < table_rows t" using bis False by (auto simp: image_iff) (metis option.collapse)
  from take_in [OF t this] obtain t' where t': "tl_take tb t (map the bis) = Inr t'" "table_ok t'" "tschema t' = tschema t"
    "table_tuples t' = map ((!) (table_tuples t)) (map the bis)" by blast
  have rows: "table_rows t' = length bis" using arg_cong [OF t'(4), of length] by simp
  have "map (\<lambda>a. cells a ! i) (table_arrays t')
      = (case bis ! i of None \<Rightarrow> replicate (length (tschema t)) CNull | Some j \<Rightarrow> table_tuples t ! j)"
    if i: "i < length bis" for i
  proof -
    from False i obtain j where "bis ! i = Some j" by (metis nth_mem option.exhaust)
    with row_of_arrays [OF t'(2), of i] i rows t'(4) show ?thesis by simp
  qed
  moreover have "take_build tb t kind bis = Inr (names (tschema t), table_arrays t')"
    using False t' by (simp add: take_build_def)
  ultimately show ?thesis using table_array_cells [OF t'(2)] by (intro exI [of _ "table_arrays t'"]) (simp add: t'(3) rows)
qed

lemma from_arrays_batch:
  assumes "as \<noteq> []" "length ns = length as" "\<forall>a \<in> set as. length (cells a) = n"
  shows "\<exists>b. pa_from_arrays ar as ns = Inr b \<and> bcols b = as \<and> brows b = n \<and> names (bschema b) = ns"
proof -
  have "names (map2 (\<lambda>x a. \<lparr>fld_name = x, fld_type = arr_type a, fld_nullable = True\<rparr>) ns as) = ns"
    using assms(2) by (induction ns as rule: list_induct2) simp_all
  with from_arrays [OF assms] show ?thesis by simp
qed

lemma join_one_rows:
  assumes t: "table_ok t" and probe: "batch_ok probe" "distinct (names (bschema probe))"
    and key: "jc_probe_key cfg \<in> set (names (bschema probe))"
    and filled: "jc_kind cfg = LeftOuter \<Longrightarrow> 0 < table_rows t"
  shows "\<exists>r. join_one ar tb cfg t (index_rows (map bkey (table_tuples t))) probe = Inr r
    \<and> concat (map tuples (somes [r]))
       = joined (jc_kind cfg) (length (tschema t)) bkey (field_of (names (bschema probe)) (jc_probe_key cfg)) (table_tuples t) (tuples probe)
    \<and> (\<forall>b \<in> set (somes [r]). brows b > 0
       \<and> names (bschema b) = prefix_names (jc_build_prefix cfg) (names (tschema t)) @ prefix_names (jc_probe_prefix cfg) (names (bschema probe)))"
proof -
  let ?ix = "index_rows (map bkey (table_tuples t))"
  let ?pkey = "field_of (names (bschema probe)) (jc_probe_key cfg)"
  let ?pairs = "match_rows (jc_kind cfg) ?ix (map ?pkey (tuples probe))"
  let ?w = "length (tschema t)"
  have column: "pa_column ar probe (jc_probe_key cfg) = Inr (col probe (jc_probe_key cfg))"
    "cells (col probe (jc_probe_key cfg)) = map ?pkey (tuples probe)"
    using column [OF probe key] col_tuples [OF probe key] by simp_all
  have rows: "map (pair_row ?w (table_tuples t) (tuples probe)) ?pairs
      = joined (jc_kind cfg) ?w bkey ?pkey (table_tuples t) (tuples probe)"
    by (rule match_rows_joined)
  note bounds = match_rows_bounds [of _ "jc_kind cfg" "map bkey (table_tuples t)" "map ?pkey (tuples probe)"]
  show ?thesis
  proof (cases "?pairs = []")
    case True
    with rows have "joined (jc_kind cfg) ?w bkey ?pkey (table_tuples t) (tuples probe) = []" by simp
    with True key column show ?thesis by (intro exI [of _ None]) (simp add: join_one_def Let_def)
  next
    case False
    have "\<forall>i. Some i \<in> set (map fst ?pairs) \<longrightarrow> i < table_rows t" using bounds by auto
    moreover have "None \<in> set (map fst ?pairs) \<Longrightarrow> jc_kind cfg = LeftOuter \<and> 0 < table_rows t"
      using bounds filled by auto
    ultimately obtain as where as: "take_build tb t (jc_kind cfg) (map fst ?pairs) = Inr (names (tschema t), as)"
      "length as = ?w" "\<forall>a \<in> set as. length (cells a) = length ?pairs"
      "\<forall>i < length ?pairs. map (\<lambda>a. cells a ! i) as
         = (case map fst ?pairs ! i of None \<Rightarrow> replicate ?w CNull | Some j \<Rightarrow> table_tuples t ! j)"
      using take_build_rows [OF t, of "map fst ?pairs" "jc_kind cfg"] by auto
    let ?pt = "\<lparr>tschema = bschema probe, tbatches = [probe]\<rparr> :: 'v table"
    have pt: "pa_from_batches ar [probe] None = Inr ?pt" "table_ok ?pt" "table_tuples ?pt = tuples probe" "table_rows ?pt = brows probe"
      using from_batches [of "[probe]" "bschema probe"] probe(1) by (simp_all add: table_ok_def table_tuples_def table_rows_def)
    have "\<forall>i \<in> set (map snd ?pairs). i < table_rows ?pt" using bounds by (auto simp: pt(4)) 
    from take_in [OF pt(2) this] obtain t' where t': "tl_take tb ?pt (map snd ?pairs) = Inr t'" "table_ok t'" "tschema t' = bschema probe"
      "table_tuples t' = map ((!) (tuples probe)) (map snd ?pairs)" unfolding pt(3) by auto
    have rows': "table_rows t' = length ?pairs" using arg_cong [OF t'(4), of length] by simp
    let ?arrays = "as @ table_arrays t'"
    let ?ns = "prefix_names (jc_build_prefix cfg) (names (tschema t)) @ prefix_names (jc_probe_prefix cfg) (names (bschema probe))"
    have prefix: "length (prefix_names p ns) = length ns" for p ns by (auto simp: prefix_names_def split: option.split list.split)
    have "bschema probe \<noteq> []" using key by auto
    then have "?arrays \<noteq> []" using t'(3) length_table_arrays [of t'] by force
    moreover have "length ?ns = length ?arrays" by (simp add: prefix as(2) t'(3))
    moreover have "\<forall>a \<in> set ?arrays. length (cells a) = length ?pairs"
      using as(3) table_array_cells [OF t'(2)] by (auto simp: rows')
    ultimately obtain b where b: "pa_from_arrays ar ?arrays ?ns = Inr b" "bcols b = ?arrays" "brows b = length ?pairs" "names (bschema b) = ?ns"
      using from_arrays_batch by blast
    have "tuples b = map (\<lambda>i. map (\<lambda>a. cells a ! i) as @ map (\<lambda>a. cells a ! i) (table_arrays t')) [0..<length ?pairs]"
      by (simp add: tuples_def b)
    also have "\<dots> = map (\<lambda>i. pair_row ?w (table_tuples t) (tuples probe) (?pairs ! i)) [0..<length ?pairs]"
      using as(4) row_of_arrays [OF t'(2)] by (simp add: rows' t'(4) pair_row_def)
    also have "\<dots> = map (pair_row ?w (table_tuples t) (tuples probe)) ?pairs"
      by (metis (no_types, lifting) map_map map_nth comp_def map_cong)
    finally have "tuples b = joined (jc_kind cfg) ?w bkey ?pkey (table_tuples t) (tuples probe)" unfolding rows .
    moreover have "join_one ar tb cfg t ?ix probe = Inr (Some b)"
      using False key column as(1) pt(1) t'(1,3) b by (simp add: join_one_def Let_def)
    ultimately show ?thesis using b False by (intro exI [of _ "Some b"]) simp
  qed
qed

end

section \<open>The operator\<close>

lemma joined_append: "joined kind w f g B (P @ Q) = joined kind w f g B P @ joined kind w f g B Q"
  by (simp add: joined_def)

lemma joined_Nil [simp]: "joined kind w f g B [] = []"
  by (simp add: joined_def)

lemma somes_Cons: "somes (o1 # os) = somes [o1] @ somes os"
  by (cases o1) simp_all

lemma join_yields:
  "yields (skip_next (join_one ar tb cfg t ix) (op_next hp)) p outs p' \<Longrightarrow>
     yields (hook_next (join_hooks ar tb cfg hb hp)) (b, p, Some (t, ix)) outs (b, p', Some (t, ix))"
  by (induction "skip_next (join_one ar tb cfg t ix) (op_next hp)" p outs p' rule: yields.induct)
    (auto intro!: yields.intros simp: join_hooks_def join_next_def)

context table_laws
begin

lemma join_batches:
  assumes "table_ok t" "jc_kind cfg = LeftOuter \<Longrightarrow> 0 < table_rows t"
    "\<forall>b \<in> set pbs. batch_ok b \<and> bschema b = s" "distinct (names s)" "jc_probe_key cfg \<in> set (names s)"
  shows "\<exists>os. rmap (join_one ar tb cfg t (index_rows (map bkey (table_tuples t)))) pbs = Inr os
    \<and> concat (map tuples (somes os)) = joined (jc_kind cfg) (length (tschema t)) bkey
        (field_of (names s) (jc_probe_key cfg)) (table_tuples t) (concat (map tuples pbs))
    \<and> (\<forall>b \<in> set (somes os). brows b > 0
       \<and> names (bschema b) = prefix_names (jc_build_prefix cfg) (names (tschema t)) @ prefix_names (jc_probe_prefix cfg) (names s))"
  using assms(3)
proof (induction pbs)
  case (Cons p pbs)
  then obtain os where os: "rmap (join_one ar tb cfg t (index_rows (map bkey (table_tuples t)))) pbs = Inr os"
    "concat (map tuples (somes os)) = joined (jc_kind cfg) (length (tschema t)) bkey
        (field_of (names s) (jc_probe_key cfg)) (table_tuples t) (concat (map tuples pbs))"
    "\<forall>b \<in> set (somes os). brows b > 0
       \<and> names (bschema b) = prefix_names (jc_build_prefix cfg) (names (tschema t)) @ prefix_names (jc_probe_prefix cfg) (names s)"
    by auto
  from Cons.prems have p: "batch_ok p" "bschema p = s" by simp_all
  from join_one_rows [OF assms(1) p(1), of cfg bkey, unfolded p(2), OF assms(4,5,2)] obtain r where
    "join_one ar tb cfg t (index_rows (map bkey (table_tuples t))) p = Inr r"
    "concat (map tuples (somes [r])) = joined (jc_kind cfg) (length (tschema t)) bkey (field_of (names s) (jc_probe_key cfg)) (table_tuples t) (tuples p)"
    "\<forall>b \<in> set (somes [r]). brows b > 0
       \<and> names (bschema b) = prefix_names (jc_build_prefix cfg) (names (tschema t)) @ prefix_names (jc_probe_prefix cfg) (names s)"
    by auto
  with os show ?case by (auto simp: joined_append somes_Cons [of r os] intro!: exI [of _ "r # os"])
qed simp

lemma build_side_rows:
  assumes "bs \<noteq> []" "\<forall>b \<in> set bs. batch_ok b \<and> bschema b = s" "distinct (names s)" "jc_build_key cfg \<in> set (names s)"
  shows "build_side ar cfg bs = Inr (\<lparr>tschema = s, tbatches = bs\<rparr>,
     index_rows (map (field_of (names s) (jc_build_key cfg)) (concat (map tuples bs))))"
proof -
  let ?t = "\<lparr>tschema = s, tbatches = bs\<rparr> :: 'v table"
  have "bschema (hd bs) = s" using assms(1,2) by (cases bs) simp_all
  then have "pa_from_batches ar bs (Some (bschema (hd bs))) = Inr ?t" using with_schema [OF assms(1), of s] assms(2) by simp
  moreover have "table_ok ?t" using assms(2) by (simp add: table_ok_def)
  ultimately show ?thesis
    using assms table_column_field [of ?t "jc_build_key cfg"] by (simp add: build_side_def table_tuples_def)
qed

end


text \<open>
  A left join over an empty build side. The comment in the code says that the rows of the probe
  side survive; but the index 0 that stands for a missing row is out of bounds in the empty table, and the
  first batch of the probe side with a row raises.
\<close>

theorem left_join_empty_build:
  assumes "table_laws ar tb val_order" and "jc_kind cfg = LeftOuter" and "supplies hb ctx build []"
    and "op_open hp ctx probe = Some (Inr (), p0)" "op_next hp p0 = Some (Inr (Some b), p1)"
    and "batch_ok b" "distinct (names (bschema b))" "jc_probe_key cfg \<in> set (names (bschema b))" "brows b > 0"
  shows "\<exists>st st'. op_open (join_hooks ar tb cfg hb hp) ctx (op_init (build, probe, None)) = Some (Inr (), st)
    \<and> op_next (join_hooks ar tb cfg hb hp) st = Some (Inl IndexError, st')"
proof -
  let ?t = "\<lparr>tschema = [\<lparr>fld_name = jc_build_key cfg, fld_type = uint64, fld_nullable = True\<rparr>], tbatches = []\<rparr>"
  have side: "build_side ar cfg [] = Inr (?t, [])"
    by (simp add: build_side_def table_column_def index_rows_def)
  from collect_supplied [OF assms(3)] obtain c where "collect_child hb ctx build = Some (Inr [], c)" ..
  with side assms(4)
  have opened: "op_open (join_hooks ar tb cfg hb hp) ctx (op_init (build, probe, None)) = Some (Inr (), running (c, p0, Some (?t, [])))"
    by (simp add: op_open_def op_init_def join_hooks_def join_open_def)
  note arrow = table_laws.axioms(1) [OF assms(1)]
  have column: "pa_column ar b (jc_probe_key cfg) = Inr (col b (jc_probe_key cfg))"
    by (rule arrow_laws.column [OF arrow assms(6-8)])
  have len: "length (cells (col b (jc_probe_key cfg))) = brows b"
    by (simp add: col_tuples [OF assms(6-8)])
  let ?pairs = "match_rows LeftOuter [] (cells (col b (jc_probe_key cfg)))"
  have pairs: "?pairs = map (\<lambda>i. (None, i)) [0..<brows b]"
    by (simp add: match_rows_upt index_at_def len)
  have "tl_take tb ?t (map (\<lambda>bi. case bi of None \<Rightarrow> 0 | Some i \<Rightarrow> i) (map fst ?pairs)) = Inl IndexError"
    by (rule table_laws.take_out [OF assms(1)]) (use assms(9) in \<open>auto simp: table_ok_def table_rows_def pairs image_iff\<close>)
  then have "take_build tb ?t LeftOuter (map fst ?pairs) = Inl IndexError"
    using assms(9) by (auto simp: take_build_def pairs)
  then have "join_one ar tb cfg ?t [] b = Inl IndexError"
    using assms(2,8,9) column pairs by (simp add: join_one_def Let_def)
  then have "skip_next (join_one ar tb cfg ?t []) (op_next hp) p0 = Some (Inl IndexError, p1)"
    using assms(5) by (subst skip_next.simps) simp
  then have "op_next (join_hooks ar tb cfg hb hp) (running (c, p0, Some (?t, []))) = Some (Inl IndexError, running (c, p1, Some (?t, [])))"
    by (simp add: op_next_running join_hooks_def join_next_def)
  with opened show ?thesis by blast
qed

abbreviation left_join :: join_config where
  "left_join \<equiv> \<lparr>jc_build_key = ''k'', jc_probe_key = ''k'', jc_kind = LeftOuter, jc_build_prefix = None, jc_probe_prefix = Some ''p''\<rparr>"

abbreviation left_join_hooks ::
  "((string batch list, string batch list, string) join_state, string batch) hooks" where
  "left_join_hooks \<equiv> join_hooks arrow_lists (table_lists int_order) left_join list_source list_source"

lemma list_source_open: "op_open list_source ctx (op_init bs) = Some (Inr (), running bs)"
  by (simp add: op_open_def op_init_def list_source_def)


theorem left_join_empty_build_witness:
  "\<exists>st st'. op_open left_join_hooks plain_ctx (op_init (op_init [], op_init [number_column ''k'' [CInt 3]], None)) = Some (Inr (), st)
    \<and> op_next left_join_hooks st = Some (Inl IndexError, st')"
proof -
  let ?ps = "[number_column ''k'' [CInt 3]]"
  have "op_next list_source (running ?ps) = Some (Inr (Some (hd ?ps)), running [])"
    by (simp add: op_next_running list_source_def)
  from left_join_empty_build [OF list_tables.table_laws_axioms _ list_source_supplies list_source_open this, where cfg = left_join and ctx = plain_ctx]
  show ?thesis by (simp add: number_column_def batch_ok_def)
qed

end
