(* ===== verification/Drop_Columns.thy ===== *)
theory Drop_Columns
  imports Relational
begin

text \<open>Which columns \<open>DropColumnsOperator\<close> keeps (\<open>exec/operators/transform.py\<close>).\<close>

section \<open>Counting\<close>

definition has_key :: "(string, 'v) dict \<Rightarrow> string \<Rightarrow> bool" where
  "has_key d n \<longleftrightarrow> n \<in> fst ` set d"

lemma has_key_update [simp]: "has_key (AList.update n v d) k \<longleftrightarrow> k = n \<or> has_key d k"
  unfolding has_key_def by (induction d) auto

lemma has_key_Nil [simp]: "\<not> has_key [] n"
  by (simp add: has_key_def)

lemma dict_at_pos: "dict_at 0 d n > (0 :: nat) \<Longrightarrow> has_key d n"
  by (force simp: dict_at_def has_key_def split: option.splits dest!: map_of_SomeD)

lemma count_drops_at: "dict_at 0 (count_drops xs) n = count_list xs n"
proof -
  have "dict_at 0 (fold (\<lambda>n d. AList.update n (dict_at 0 d n + 1) d) xs d) n = dict_at 0 d n + count_list xs n" for d
    by (induction xs arbitrary: d) auto
  from this [of "[]"] show ?thesis by (simp add: count_drops_def dict_at_def)
qed

lemma count_drops_ok: "dict_ok (count_drops xs)"
proof -
  have step: "dict_ok d \<Longrightarrow> dict_ok (fold (\<lambda>n d. AList.update n (dict_at 0 d n + 1) d) xs d)" for d
    by (induction xs arbitrary: d) auto
  show ?thesis unfolding count_drops_def by (rule step) simp
qed

section \<open>The marks\<close>

declare mark_columns.simps(2) [simp del]

lemma mark_Cons:
  "mark_columns (n # ns) i counts seen =
     (if dict_at 0 counts n > 0 then
        if \<not> has_key seen n then apfst (Cons True) (mark_columns ns (Suc i) counts (AList.update n i seen))
        else apfst (Cons False) (mark_columns ns (Suc i) (AList.update n (dict_at 0 counts n - 1) counts) seen)
      else apfst (Cons True) (mark_columns ns (Suc i) counts seen))"
proof (cases "dict_at 0 counts n > 0")
  case True
  with dict_at_pos show ?thesis by (simp add: mark_columns.simps has_key_def apfst_def map_prod_def split: prod.split)
next
  case False
  then show ?thesis by (simp add: mark_columns.simps apfst_def map_prod_def split: prod.split)
qed

lemma mark_induct [case_names Nil new old other]:
  assumes "\<And>i counts seen. P [] i counts seen"
    and "\<And>n ns i counts seen. dict_at 0 counts n > 0 \<Longrightarrow> \<not> has_key seen n \<Longrightarrow>
      P ns (Suc i) counts (AList.update n i seen) \<Longrightarrow> P (n # ns) i counts seen"
    and "\<And>n ns i counts seen. dict_at 0 counts n > 0 \<Longrightarrow> has_key seen n \<Longrightarrow>
      P ns (Suc i) (AList.update n (dict_at 0 counts n - 1) counts) seen \<Longrightarrow> P (n # ns) i counts seen"
    and "\<And>n ns i counts seen. dict_at 0 counts n = 0 \<Longrightarrow> P ns (Suc i) counts seen \<Longrightarrow> P (n # ns) i counts seen"
  shows "P ns i (counts :: (string, nat) dict) (seen :: (string, nat) dict)"
proof (induction ns arbitrary: i counts seen)
  case (Cons n ns i counts seen)
  show ?case
  proof (cases "dict_at 0 counts n > 0")
    case True
    show ?thesis
      by (cases "has_key seen n") (auto intro: assms(2) [OF True _ Cons.IH] assms(3) [OF True _ Cons.IH])
  next
    case False
    then show ?thesis by (intro assms(4) Cons.IH) simp
  qed
qed (rule assms(1))

text \<open>The column at \<open>j\<close> is marked unless it repeats a name that has drops left for this repetition.\<close>

definition marked :: "string list \<Rightarrow> (string, nat) dict \<Rightarrow> (string, nat) dict \<Rightarrow> nat \<Rightarrow> bool" where
  "marked ns counts seen j \<longleftrightarrow>
     (let p = count_list (take j ns) (ns ! j) in
      if has_key seen (ns ! j) then dict_at 0 counts (ns ! j) \<le> p else p = 0 \<or> dict_at 0 counts (ns ! j) < p)"

lemma marked_0: "marked (n # ns) counts seen 0 \<longleftrightarrow> \<not> (dict_at 0 counts n > 0 \<and> has_key seen n)"
  by (simp add: marked_def)

lemma marked_new:
  "dict_at 0 counts n > 0 \<Longrightarrow> \<not> has_key seen n \<Longrightarrow> marked (n # ns) counts seen (Suc j) \<longleftrightarrow> marked ns counts (AList.update n i seen) j"
  by (cases "ns ! j = n") (auto simp: marked_def Let_def less_Suc_eq_le)

lemma marked_old:
  "dict_at 0 counts n > 0 \<Longrightarrow> has_key seen n \<Longrightarrow>
     marked (n # ns) counts seen (Suc j) \<longleftrightarrow> marked ns (AList.update n (dict_at 0 counts n - 1) counts) seen j"
  by (cases "ns ! j = n") (auto simp: marked_def Let_def)

lemma marked_other: "dict_at 0 counts n = 0 \<Longrightarrow> marked (n # ns) counts seen (Suc j) \<longleftrightarrow> marked ns counts seen j"
  by (cases "ns ! j = n") (auto simp: marked_def Let_def)

lemma mark_columns_marks:
  "length (fst (mark_columns ns i counts seen)) = length ns
   \<and> (\<forall>j < length ns. fst (mark_columns ns i counts seen) ! j \<longleftrightarrow> marked ns counts seen j)"
proof (induction ns i counts seen rule: mark_induct)
  case (new n ns i counts seen)
  then show ?case by (simp add: mark_Cons All_less_Suc2 marked_0 marked_new [where i = i])
next
  case (old n ns i counts seen)
  then show ?case by (simp add: mark_Cons All_less_Suc2 marked_0 marked_old del: One_nat_def)
next
  case (other n ns i counts seen)
  then show ?case by (simp add: mark_Cons All_less_Suc2 marked_0 marked_other)
qed simp

text \<open>The drops left at the end, and the first position of every name with drops.\<close>

lemma mark_columns_left:
  "dict_ok counts \<Longrightarrow> dict_ok (fst (snd (mark_columns ns i counts seen)))
     \<and> dict_at 0 (fst (snd (mark_columns ns i counts seen))) n
       = dict_at 0 counts n - (count_list ns n - (if has_key seen n then 0 else 1))"
proof (induction ns i counts seen rule: mark_induct)
  case (new n' ns i counts seen)
  then show ?case by (cases "n = n'") (auto simp: mark_Cons)
next
  case (old n' ns i counts seen)
  then show ?case by (cases "n = n'") (auto simp: mark_Cons)
next
  case (other n' ns i counts seen)
  then show ?case by (cases "n = n'") (auto simp: mark_Cons)
qed simp

lemma mark_columns_seen:
  "(has_key (snd (snd (mark_columns ns i counts seen))) n \<longleftrightarrow> has_key seen n \<or> n \<in> set ns \<and> dict_at 0 counts n > 0)
   \<and> (has_key (snd (snd (mark_columns ns i counts seen))) n \<longrightarrow>
        (if has_key seen n then dict_at 0 (snd (snd (mark_columns ns i counts seen))) n = dict_at 0 seen n
         else \<exists>j < length ns. dict_at 0 (snd (snd (mark_columns ns i counts seen))) n = i + j \<and> ns ! j = n \<and> n \<notin> set (take j ns)))"
proof (induction ns i counts seen rule: mark_induct)
  case (new n' ns i counts seen)
  then show ?case
    by (cases "n = n'") (auto simp: mark_Cons intro: exI [of _ "0 :: nat"] exI [of _ "Suc _"] split: if_splits)
next
  case (old n' ns i counts seen)
  then show ?case
    by (cases "n = n'") (auto simp: mark_Cons intro: exI [of _ "Suc _"] split: if_splits)
next
  case (other n' ns i counts seen)
  then show ?case
    by (cases "n = n'") (auto simp: mark_Cons intro: exI [of _ "Suc _"] split: if_splits)
qed simp

section \<open>The mask\<close>

text \<open>The final loop clears the first position of every name that has drops left.\<close>

definition clear_first :: "(string, nat) dict \<Rightarrow> string \<times> nat \<Rightarrow> bool list \<Rightarrow> bool list" where
  "clear_first seen = (\<lambda>(n, remaining) m. if remaining > 0 \<and> n \<in> fst ` set seen then m[dict_at 0 seen n := False] else m)"

lemma nth_update: "j < length xs \<Longrightarrow> xs[i := x] ! j = (if i = j then x else xs ! j)"
  by (cases "i = j") simp_all

lemma clear_firsts:
  "dict_ok counts \<Longrightarrow> length (fold (clear_first seen) counts m) = length m
    \<and> (\<forall>j < length m. fold (clear_first seen) counts m ! j
        \<longleftrightarrow> m ! j \<and> \<not> (\<exists>n. dict_at 0 counts n > (0 :: nat) \<and> has_key seen n \<and> dict_at 0 seen n = j))"
proof (induction counts arbitrary: m)
  case (Cons c counts)
  obtain n r where c: "c = (n, r)" by (cases c)
  let ?m = "clear_first seen c m"
  have "n \<notin> fst ` set counts" and ok: "dict_ok counts" using Cons.prems by (auto simp: dict_ok_def c)
  then have at: "dict_at 0 (c # counts) k = (if k = n then r else dict_at 0 counts k)"
    and zero: "dict_at 0 counts n = 0" for k
    using dict_at_pos [of counts n] by (auto simp: dict_at_def c has_key_def)
  have ex: "(\<exists>k. dict_at 0 (c # counts) k > 0 \<and> has_key seen k \<and> dict_at 0 seen k = j)
      \<longleftrightarrow> r > 0 \<and> has_key seen n \<and> dict_at 0 seen n = j \<or> (\<exists>k. dict_at 0 counts k > 0 \<and> has_key seen k \<and> dict_at 0 seen k = j)" for j
  proof -
    have pos: "dict_at 0 (c # counts) k > 0 \<longleftrightarrow> k = n \<and> r > 0 \<or> dict_at 0 counts k > 0" for k
      by (cases "k = n") (simp_all add: at zero)
    show ?thesis unfolding pos by blast
  qed
  have m: "length ?m = length m" "j < length m \<Longrightarrow> ?m ! j \<longleftrightarrow> m ! j \<and> \<not> (r > 0 \<and> has_key seen n \<and> dict_at 0 seen n = j)" for j
    by (auto simp: clear_first_def c has_key_def nth_update)
  note IH = Cons.IH [OF ok, of ?m, unfolded m(1)]
  show ?case
  proof (intro conjI allI impI)
    show "length (fold (clear_first seen) (c # counts) m) = length m" using IH by simp
    fix j assume j: "j < length m"
    have "fold (clear_first seen) (c # counts) m ! j
        \<longleftrightarrow> ?m ! j \<and> \<not> (\<exists>k. dict_at 0 counts k > 0 \<and> has_key seen k \<and> dict_at 0 seen k = j)"
      using IH j by simp
    then show "fold (clear_first seen) (c # counts) m ! j
        \<longleftrightarrow> m ! j \<and> \<not> (\<exists>k. dict_at 0 (c # counts) k > 0 \<and> has_key seen k \<and> dict_at 0 seen k = j)"
      unfolding ex using m(2) [OF j] by blast
  qed
qed (simp add: dict_at_def)

text \<open>
  Dropping columns. Of the columns of one name as many are removed as the list of names to drop asks
  for: the repetitions directly after the first, and the first itself only when all columns of
  that name go.
\<close>

theorem keep_mask_correct:
  "length (keep_mask drop_names ns) = length ns
   \<and> (\<forall>j < length ns. keep_mask drop_names ns ! j \<longleftrightarrow>
       (let asked = count_list drop_names (ns ! j); before = count_list (take j ns) (ns ! j) in
        if before = 0 then asked < count_list ns (ns ! j) else asked < before))"
proof -
  let ?r = "mark_columns ns 0 (count_drops drop_names) []"
  let ?m = "fst ?r" and ?c = "fst (snd ?r)" and ?s = "snd (snd ?r)"
  have mask: "keep_mask drop_names ns = fold (clear_first ?s) ?c ?m"
    by (simp add: keep_mask_def clear_first_def case_prod_unfold)
  note marks = mark_columns_marks [of ns 0 "count_drops drop_names" "[]"]
  note left = mark_columns_left [OF count_drops_ok [of drop_names], where ns = ns and i = 0 and seen = "[]"]
  note clear = clear_firsts [of ?c ?s ?m, OF conjunct1 [OF left]]
  have first: "(\<exists>n. dict_at 0 ?c n > 0 \<and> has_key ?s n \<and> dict_at 0 ?s n = j)
      \<longleftrightarrow> count_list (take j ns) (ns ! j) = 0 \<and> count_list ns (ns ! j) \<le> count_list drop_names (ns ! j)" (is "?l \<longleftrightarrow> ?r")
    if j: "j < length ns" for j
  proof
    assume ?l
    then obtain n where n: "dict_at 0 ?c n > 0" "has_key ?s n" "dict_at 0 ?s n = j" by blast
    with mark_columns_seen [of ns 0 "count_drops drop_names" "[]" n] have at: "ns ! j = n" "n \<notin> set (take j ns)" by auto
    moreover from j at(1) have "count_list ns n > 0" by (metis count_list_0_iff gr0I nth_mem)
    ultimately show ?r using n(1) left [of n] by (simp add: count_drops_at count_list_0_iff)
  next
    assume r: ?r
    let ?n = "ns ! j"
    have pos: "count_list ns ?n > 0" using j by (metis count_list_0_iff gr0I nth_mem)
    then have "dict_at 0 ?c ?n > 0" using r left [of ?n] by (simp add: count_drops_at)
    moreover have key: "has_key ?s ?n"
      using mark_columns_seen [of ns 0 "count_drops drop_names" "[]" ?n] r pos j by (simp add: count_drops_at)
    moreover obtain k where k: "k < length ns" "dict_at 0 ?s ?n = k" "ns ! k = ?n" "?n \<notin> set (take k ns)"
      using mark_columns_seen [of ns 0 "count_drops drop_names" "[]" ?n] key by auto
    have "?n \<notin> set (take j ns)" using r by (simp add: count_list_0_iff)
    with k j have "k = j" by (metis in_set_conv_nth length_take min_less_iff_conj nth_take linorder_neqE_nat)
    ultimately show ?l using k(2) by blast
  qed
  have "keep_mask drop_names ns ! j \<longleftrightarrow>
       (let asked = count_list drop_names (ns ! j); before = count_list (take j ns) (ns ! j) in
        if before = 0 then asked < count_list ns (ns ! j) else asked < before)" if j: "j < length ns" for j
    using marks clear j unfolding mask by (auto simp: first marked_def Let_def count_drops_at)
  with marks clear show ?thesis unfolding mask by simp
qed

theorem keep_mask_correct_witness:
  "length (keep_mask [''k''] [''k'', ''a'', ''k'']) = 3 \<and> keep_mask [''k''] [''k'', ''a'', ''k''] ! 0
   \<and> keep_mask [''k''] [''k'', ''a'', ''k''] ! 1 \<and> \<not> keep_mask [''k''] [''k'', ''a'', ''k''] ! 2"
  using keep_mask_correct [of "[''k'']" "[''k'', ''a'', ''k'']"] by (simp add: All_less_Suc numeral_2_eq_2 numeral_3_eq_3)

end
