(* ===== verification/Bundle_Diff.thy ===== *)
theory Bundle_Diff
  imports Graph_Data Arrow_Lists
begin

text \<open>
  The comparison of two bundles (\<open>storage/diff.py\<close>): the classes and properties their catalogues name,
  and for the names and stores both have, the identifiers of the nodes and the endpoints of the edges.
  Both bundles lie in the same file system and are only read.
\<close>

section \<open>The result\<close>

record class_diff =
  cdf_local_name :: string
  cdf_only_in_a :: nat
  cdf_only_in_b :: nat
  cdf_in_both :: nat
  cdf_schema_changed :: bool
  cdf_a_columns :: "string list"
  cdf_b_columns :: "string list"

record relation_diff =
  rdf_local_name :: string
  rdf_only_in_a :: nat
  rdf_only_in_b :: nat
  rdf_in_both :: nat

record bundle_diff =
  bdf_classes_added :: "string list"
  bdf_classes_removed :: "string list"
  bdf_properties_added :: "string list"
  bdf_properties_removed :: "string list"
  bdf_class_changes :: "class_diff list"
  bdf_relation_changes :: "relation_diff list"
  bdf_a_path :: string
  bdf_b_path :: string

definition diff_is_empty :: "bundle_diff \<Rightarrow> bool" where
  "diff_is_empty d \<longleftrightarrow>
     bdf_classes_added d = [] \<and> bdf_classes_removed d = []
     \<and> bdf_properties_added d = [] \<and> bdf_properties_removed d = []
     \<and> list_all (\<lambda>c. cdf_only_in_a c = 0 \<and> cdf_only_in_b c = 0 \<and> \<not> cdf_schema_changed c) (bdf_class_changes d)
     \<and> list_all (\<lambda>r. rdf_only_in_a r = 0 \<and> rdf_only_in_b r = 0) (bdf_relation_changes d)"

definition class_diff_to_dict :: "class_diff \<Rightarrow> json" where
  "class_diff_to_dict c =
     JObj [(''local_name'', JStr (cdf_local_name c)), (''only_in_a'', JInt (int (cdf_only_in_a c))),
           (''only_in_b'', JInt (int (cdf_only_in_b c))), (''in_both'', JInt (int (cdf_in_both c))),
           (''schema_changed'', JBool (cdf_schema_changed c)), (''a_columns'', JArr (map JStr (cdf_a_columns c))),
           (''b_columns'', JArr (map JStr (cdf_b_columns c)))]"

definition relation_diff_to_dict :: "relation_diff \<Rightarrow> json" where
  "relation_diff_to_dict r =
     JObj [(''local_name'', JStr (rdf_local_name r)), (''only_in_a'', JInt (int (rdf_only_in_a r))),
           (''only_in_b'', JInt (int (rdf_only_in_b r))), (''in_both'', JInt (int (rdf_in_both r)))]"

definition bundle_diff_to_dict :: "bundle_diff \<Rightarrow> json" where
  "bundle_diff_to_dict d =
     JObj [(''a'', JStr (bdf_a_path d)), (''b'', JStr (bdf_b_path d)),
           (''classes_added'', JArr (map JStr (bdf_classes_added d))),
           (''classes_removed'', JArr (map JStr (bdf_classes_removed d))),
           (''properties_added'', JArr (map JStr (bdf_properties_added d))),
           (''properties_removed'', JArr (map JStr (bdf_properties_removed d))),
           (''class_changes'', JArr (map class_diff_to_dict (bdf_class_changes d))),
           (''relation_changes'', JArr (map relation_diff_to_dict (bdf_relation_changes d)))]"

section \<open>Reading a bundle\<close>

definition id_column :: "schema \<Rightarrow> string" where
  "id_column s = (if INTERNAL_GID_COLUMN \<in> set (names s) then INTERNAL_GID_COLUMN else NID_COLUMN)"

text \<open>\<open>local_name or ""\<close>.\<close>

definition name_or_empty :: "string option \<Rightarrow> string" where
  "name_or_empty n = (case n of None \<Rightarrow> [] | Some s \<Rightarrow> s)"

definition non_null_ids :: "'v cell list \<Rightarrow> int set result" where
  "non_null_ids cs = rbind (rmap int_of_cell (filter (\<lambda>c. c \<noteq> CNull) cs)) (\<lambda>is. Inr (set is))"

definition node_id_set ::
  "string \<Rightarrow> 'v arrow \<Rightarrow> fs \<Rightarrow> crcl_bundle \<Rightarrow> string \<Rightarrow> (int set \<times> schema) result" where
  "node_id_set now ar fs bnd local_name =
     rbind (load_catalog now fs bnd) (\<lambda>catalog.
     case find (\<lambda>c. name_or_empty (cd_local_name c) = local_name) (c_classes catalog) of
       None \<Rightarrow> Inr ({}, [])
     | Some cls \<Rightarrow>
         rbind (fst (open_node_store fs bnd (cd_iri cls) local_name False ''none'')) (\<lambda>store.
         rbind (node_schema ar fs store) (\<lambda>schema.
         let id_col = id_column schema in
         if node_num_rows store = 0 then Inr ({}, schema)
         else if id_col \<notin> set (names schema) then Inr ({}, schema)
         else
           rbind (node_to_table ar fs store (Some [id_col]) None) (\<lambda>t.
           rbind (table_column t id_col) (\<lambda>arr.
           rbind (non_null_ids arr) (\<lambda>ids. Inr (ids, schema)))))))"

definition edge_pair_set ::
  "string \<Rightarrow> 'v arrow \<Rightarrow> fs \<Rightarrow> crcl_bundle \<Rightarrow> string \<Rightarrow> (int \<times> int) set result" where
  "edge_pair_set now ar fs bnd local_name =
     rbind (load_catalog now fs bnd) (\<lambda>catalog.
     case find (\<lambda>p. name_or_empty (pd_local_name p) = local_name) (c_properties catalog) of
       None \<Rightarrow> Inr {}
     | Some prop \<Rightarrow>
         rbind (fst (open_edge_store fs bnd (pd_iri prop) local_name None None False ''none'')) (\<lambda>store.
         if edge_num_rows store = 0 then Inr {}
         else
           rbind (edge_to_table ar fs store (Some [SRC_COLUMN, DST_COLUMN]) None) (\<lambda>t.
           rbind (table_column t SRC_COLUMN) (\<lambda>src.
           rbind (table_column t DST_COLUMN) (\<lambda>dst.
           rbind (rmap (\<lambda>(s, d). rbind (int_of_cell s) (\<lambda>i. rbind (int_of_cell d) (\<lambda>j. Inr (i, j)))) (zip src dst))
             (\<lambda>ps. Inr (set ps)))))))"

section \<open>The comparison\<close>

definition sorted_diff :: "string list \<Rightarrow> string list \<Rightarrow> string list" where
  "sorted_diff xs ys = sort (remdups (filter (\<lambda>x. x \<notin> set ys) xs))"

definition sorted_shared :: "string list \<Rightarrow> string list \<Rightarrow> string list" where
  "sorted_shared xs ys = sort (remdups (filter (\<lambda>x. x \<in> set ys) xs))"

text \<open>The names both bundles have a store for, the empty name left out: the two \<open>continue\<close>s of the loops.\<close>

definition compared_names ::
  "('v, 'f) graph_lib \<Rightarrow> fs \<Rightarrow> string \<Rightarrow> crcl_bundle \<Rightarrow> crcl_bundle \<Rightarrow> string list \<Rightarrow> string list" where
  "compared_names gl fs kind a b shared =
     filter (\<lambda>n. n \<noteq> [] \<and> n \<in> set (list_stores gl fs a kind) \<and> n \<in> set (list_stores gl fs b kind)) shared"

definition class_change ::
  "string \<Rightarrow> 'v arrow \<Rightarrow> fs \<Rightarrow> crcl_bundle \<Rightarrow> crcl_bundle \<Rightarrow> string \<Rightarrow> class_diff result" where
  "class_change now ar fs a b nm =
     rbind (node_id_set now ar fs a nm) (\<lambda>(a_ids, a_schema).
     rbind (node_id_set now ar fs b nm) (\<lambda>(b_ids, b_schema).
     Inr \<lparr>cdf_local_name = nm, cdf_only_in_a = card (a_ids - b_ids), cdf_only_in_b = card (b_ids - a_ids),
          cdf_in_both = card (a_ids \<inter> b_ids), cdf_schema_changed = (names a_schema \<noteq> names b_schema),
          cdf_a_columns = names a_schema, cdf_b_columns = names b_schema\<rparr>))"

definition relation_change ::
  "string \<Rightarrow> 'v arrow \<Rightarrow> fs \<Rightarrow> crcl_bundle \<Rightarrow> crcl_bundle \<Rightarrow> string \<Rightarrow> relation_diff result" where
  "relation_change now ar fs a b nm =
     rbind (edge_pair_set now ar fs a nm) (\<lambda>a_edges.
     rbind (edge_pair_set now ar fs b nm) (\<lambda>b_edges.
     Inr \<lparr>rdf_local_name = nm, rdf_only_in_a = card (a_edges - b_edges), rdf_only_in_b = card (b_edges - a_edges),
          rdf_in_both = card (a_edges \<inter> b_edges)\<rparr>))"

definition path_str :: "path \<Rightarrow> string" where
  "path_str p = py_join ''/'' p"

definition class_names :: "catalog \<Rightarrow> string list" where
  "class_names c = map (name_or_empty \<circ> cd_local_name) (c_classes c)"

definition property_names :: "catalog \<Rightarrow> string list" where
  "property_names c = map (name_or_empty \<circ> pd_local_name) (c_properties c)"

definition diff_bundles ::
  "string \<Rightarrow> 'v arrow \<Rightarrow> ('v, 'f) graph_lib \<Rightarrow> fs \<Rightarrow> path \<Rightarrow> path \<Rightarrow> bundle_diff result" where
  "diff_bundles now ar gl fs a_at b_at =
     rbind (open_bundle_at fs a_at) (\<lambda>a.
     rbind (open_bundle_at fs b_at) (\<lambda>b.
     rbind (load_catalog now fs a) (\<lambda>a_cat.
     rbind (load_catalog now fs b) (\<lambda>b_cat.
     let a_classes = class_names a_cat; b_classes = class_names b_cat;
         a_props = property_names a_cat; b_props = property_names b_cat
     in
     rbind (rmap (class_change now ar fs a b)
              (compared_names gl fs ''nodes'' a b (sorted_shared a_classes b_classes))) (\<lambda>class_changes.
     rbind (rmap (relation_change now ar fs a b)
              (compared_names gl fs ''edges'' a b (sorted_shared a_props b_props))) (\<lambda>relation_changes.
     Inr \<lparr>bdf_classes_added = sorted_diff b_classes a_classes, bdf_classes_removed = sorted_diff a_classes b_classes,
          bdf_properties_added = sorted_diff b_props a_props, bdf_properties_removed = sorted_diff a_props b_props,
          bdf_class_changes = class_changes, bdf_relation_changes = relation_changes,
          bdf_a_path = path_str (b_path a), bdf_b_path = path_str (b_path b)\<rparr>))))))"

section \<open>Rendering\<close>

definition section_lines :: "string \<Rightarrow> string list \<Rightarrow> string list \<Rightarrow> string list" where
  "section_lines title removed added =
     (if removed \<noteq> [] \<or> added \<noteq> [] then
        [[], title] @ map (\<lambda>n. ''- '' @ n) removed @ map (\<lambda>n. ''+ '' @ n) added
      else [])"

definition counts_line :: "string \<Rightarrow> nat \<Rightarrow> nat \<Rightarrow> nat \<Rightarrow> string" where
  "counts_line nm a b both =
     ''  '' @ nm @ '': -'' @ int_str (int a) @ '' +'' @ int_str (int b) @ '' ='' @ int_str (int both)"

definition render_diff :: "bundle_diff \<Rightarrow> string" where
  "render_diff d =
     (let head = [''--- '' @ bdf_a_path d, ''+++ '' @ bdf_b_path d] in
      if diff_is_empty d then py_join [CHR 0x0A] (head @ [''(no differences)''])
      else
        let changed_classes =
              filter (\<lambda>c. cdf_only_in_a c \<noteq> 0 \<or> cdf_only_in_b c \<noteq> 0 \<or> cdf_schema_changed c) (bdf_class_changes d);
            changed_rels = filter (\<lambda>r. rdf_only_in_a r \<noteq> 0 \<or> rdf_only_in_b r \<noteq> 0) (bdf_relation_changes d)
        in py_join [CHR 0x0A]
             (head
              @ section_lines ''# Catalog: classes'' (bdf_classes_removed d) (bdf_classes_added d)
              @ section_lines ''# Catalog: properties'' (bdf_properties_removed d) (bdf_properties_added d)
              @ (if changed_classes = [] then []
                 else [[], ''# Node sets'']
                      @ map (\<lambda>c. counts_line (cdf_local_name c) (cdf_only_in_a c) (cdf_only_in_b c) (cdf_in_both c)
                                 @ (if cdf_schema_changed c then '' (schema changed)'' else [])) changed_classes)
              @ (if changed_rels = [] then []
                 else [[], ''# Edge sets'']
                      @ map (\<lambda>r. counts_line (rdf_local_name r) (rdf_only_in_a r) (rdf_only_in_b r) (rdf_in_both r))
                          changed_rels)))"

section \<open>What a difference means\<close>

text \<open>A diff read from the other side.\<close>

definition class_diff_swap :: "class_diff \<Rightarrow> class_diff" where
  "class_diff_swap c = c\<lparr>cdf_only_in_a := cdf_only_in_b c, cdf_only_in_b := cdf_only_in_a c,
                          cdf_a_columns := cdf_b_columns c, cdf_b_columns := cdf_a_columns c\<rparr>"

definition relation_diff_swap :: "relation_diff \<Rightarrow> relation_diff" where
  "relation_diff_swap r = r\<lparr>rdf_only_in_a := rdf_only_in_b r, rdf_only_in_b := rdf_only_in_a r\<rparr>"

definition diff_swap :: "bundle_diff \<Rightarrow> bundle_diff" where
  "diff_swap d = \<lparr>bdf_classes_added = bdf_classes_removed d, bdf_classes_removed = bdf_classes_added d,
     bdf_properties_added = bdf_properties_removed d, bdf_properties_removed = bdf_properties_added d,
     bdf_class_changes = map class_diff_swap (bdf_class_changes d),
     bdf_relation_changes = map relation_diff_swap (bdf_relation_changes d),
     bdf_a_path = bdf_b_path d, bdf_b_path = bdf_a_path d\<rparr>"

lemma sorted_shared_commute: "sorted_shared xs ys = sorted_shared ys xs"
  unfolding sorted_shared_def by (rule sorted_distinct_set_unique) auto

lemma set_sorted_shared [simp]: "set (sorted_shared xs ys) = set xs \<inter> set ys"
  by (auto simp: sorted_shared_def)

lemma sorted_diff_empty [simp]: "sorted_diff xs ys = [] \<longleftrightarrow> set xs \<subseteq> set ys"
  by (auto simp: sorted_diff_def filter_empty_conv simp flip: set_empty)

lemma compared_names_swap: "compared_names gl fs kind b a (sorted_shared ys xs) = compared_names gl fs kind a b (sorted_shared xs ys)"
  by (auto simp: compared_names_def sorted_shared_commute intro: filter_cong)

lemma rmap_swap:
  "rmap f xs = Inr ys \<Longrightarrow> (\<And>x y. f x = Inr y \<Longrightarrow> g x = Inr (h y)) \<Longrightarrow> rmap g xs = Inr (map h ys)"
  by (induction xs arbitrary: ys) (auto simp: rbind_def split: sum.splits)

lemma rmap_all: "rmap f xs = Inr ys \<Longrightarrow> list_all2 (\<lambda>x y. f x = Inr y) xs ys"
  by (induction xs arbitrary: ys) (auto simp: rbind_def split: sum.splits)

lemma rmap_list_all:
  assumes "rmap f xs = Inr ys" "\<And>x y. f x = Inr y \<Longrightarrow> P y \<longleftrightarrow> Q x"
  shows "list_all P ys \<longleftrightarrow> (\<forall>x \<in> set xs. Q x)"
  using rmap_all [OF assms(1)] by (induction rule: list_all2_induct) (simp_all add: assms(2))

lemma non_null_ids_finite: "non_null_ids cs = Inr I \<Longrightarrow> finite I"
  by (auto simp: non_null_ids_def rbind_def split: sum.splits)

lemma node_id_set_finite: "node_id_set now ar fs b nm = Inr (I, s) \<Longrightarrow> finite I"
  by (auto simp: node_id_set_def rbind_def Let_def non_null_ids_finite split: sum.splits option.splits if_splits prod.splits)

lemma edge_pair_set_finite: "edge_pair_set now ar fs b nm = Inr E \<Longrightarrow> finite E"
  by (auto simp: edge_pair_set_def rbind_def Let_def split: sum.splits option.splits if_splits)

lemma class_change_swap:
  "class_change now ar fs a b nm = Inr c \<Longrightarrow> class_change now ar fs b a nm = Inr (class_diff_swap c)"
  by (auto simp: class_change_def class_diff_swap_def rbind_def Int_commute split: sum.splits)

lemma relation_change_swap:
  "relation_change now ar fs a b nm = Inr r \<Longrightarrow> relation_change now ar fs b a nm = Inr (relation_diff_swap r)"
  by (auto simp: relation_change_def relation_diff_swap_def rbind_def Int_commute split: sum.splits)

text \<open>The node set of a class as the comparison sees it: the identifiers and the column names.\<close>

definition node_view :: "string \<Rightarrow> 'v arrow \<Rightarrow> fs \<Rightarrow> crcl_bundle \<Rightarrow> string \<Rightarrow> (int set \<times> string list) result" where
  "node_view now ar fs b nm = rbind (node_id_set now ar fs b nm) (\<lambda>(ids, s). Inr (ids, names s))"

lemma class_change_empty:
  assumes "class_change now ar fs a b nm = Inr c"
  shows "(cdf_only_in_a c = 0 \<and> cdf_only_in_b c = 0 \<and> \<not> cdf_schema_changed c)
    \<longleftrightarrow> node_view now ar fs a nm = node_view now ar fs b nm"
proof -
  obtain I s J t where n: "node_id_set now ar fs a nm = Inr (I, s)" "node_id_set now ar fs b nm = Inr (J, t)"
    and c: "c = \<lparr>cdf_local_name = nm, cdf_only_in_a = card (I - J), cdf_only_in_b = card (J - I),
          cdf_in_both = card (I \<inter> J), cdf_schema_changed = (names s \<noteq> names t),
          cdf_a_columns = names s, cdf_b_columns = names t\<rparr>"
    using assms by (auto simp: class_change_def rbind_def split: sum.splits)
  have "finite I" "finite J" using n by (auto dest: node_id_set_finite)
  then show ?thesis by (auto simp: c node_view_def n)
qed

lemma relation_change_empty:
  assumes "relation_change now ar fs a b nm = Inr r"
  shows "(rdf_only_in_a r = 0 \<and> rdf_only_in_b r = 0) \<longleftrightarrow> edge_pair_set now ar fs a nm = edge_pair_set now ar fs b nm"
proof -
  obtain E F where n: "edge_pair_set now ar fs a nm = Inr E" "edge_pair_set now ar fs b nm = Inr F"
    and r: "r = \<lparr>rdf_local_name = nm, rdf_only_in_a = card (E - F), rdf_only_in_b = card (F - E), rdf_in_both = card (E \<inter> F)\<rparr>"
    using assms by (auto simp: relation_change_def rbind_def split: sum.splits)
  have "finite E" "finite F" using n by (auto dest: edge_pair_set_finite)
  then show ?thesis by (auto simp: r n)
qed

text \<open>What two bundles must agree on to have no differences.\<close>

definition same_content ::
  "string \<Rightarrow> 'v arrow \<Rightarrow> ('v, 'f) graph_lib \<Rightarrow> fs \<Rightarrow> crcl_bundle \<Rightarrow> catalog \<Rightarrow> crcl_bundle \<Rightarrow> catalog \<Rightarrow> bool" where
  "same_content now ar gl fs a ca b cb \<longleftrightarrow>
     set (class_names ca) = set (class_names cb) \<and> set (property_names ca) = set (property_names cb)
     \<and> (\<forall>n \<in> set (compared_names gl fs ''nodes'' a b (class_names ca)). node_view now ar fs a n = node_view now ar fs b n)
     \<and> (\<forall>n \<in> set (compared_names gl fs ''edges'' a b (property_names ca)).
          edge_pair_set now ar fs a n = edge_pair_set now ar fs b n)"

lemma set_compared_names:
  "set ys = set xs \<Longrightarrow> set (compared_names gl fs kind a b (sorted_shared xs ys)) = set (compared_names gl fs kind a b xs)"
  by (simp add: compared_names_def)


lemma not_isl_ex: "\<not> isl x \<longleftrightarrow> (\<exists>y. x = Inr y)"
  by (cases x) auto

text \<open>Two bundles with a store of the class \<open>Person\<close>; the catalogue of the first names another class.\<close>

definition diff_lib :: "(string, int) graph_lib" where
  "diff_lib = \<lparr>gl_compare = (\<lambda>op cs v. Inr (map (\<lambda>c. Some (c = v)) cs)), gl_mtime = (\<lambda>_. 0), gl_iterdir = (\<lambda>_ _. [''Person'']),
     gl_str = (\<lambda>_. []), gl_dumps = (\<lambda>_. []), gl_float = (\<lambda>c. case c of CInt i \<Rightarrow> Inr i | _ \<Rightarrow> Inl TypeError),
     gl_zero = 0, gl_one = 1, gl_neg = uminus, gl_sum = sum_list, gl_mult = times, gl_div_int = (\<lambda>x n. x div int n)\<rparr>"

definition add_bundle :: "string \<Rightarrow> string list \<Rightarrow> fs \<Rightarrow> fs" where
  "add_bundle nm cls fs =
     (case create_bundle fs ''t'' [nm] False of
        (Inl _, fs1) \<Rightarrow> fs1
      | (Inr b, fs1) \<Rightarrow>
          snd (open_node_store
                 (snd (save_catalog (fold (\<lambda>c k. snd (register_class k ''t'' c None [] [] None)) cls (catalog_empty ''t'' None)) fs1 b))
                 b ''Person'' ''Person'' True ''none''))"

definition two_bundles :: fs where
  "two_bundles = add_bundle ''b'' [''Person''] (add_bundle ''a'' [''Person'', ''City''] (\<lambda>_. None))"

lemma two_bundles_open:
  "\<not> isl (rbind (open_bundle_at two_bundles [''a'']) (load_catalog ''t'' two_bundles))"
  "\<not> isl (rbind (open_bundle_at two_bundles [''b'']) (load_catalog ''t'' two_bundles))"
  by code_simp+

lemma two_bundles_diff:
  "diff_bundles ''t'' arrow_lists diff_lib two_bundles [''a''] [''b''] =
     Inr \<lparr>bdf_classes_added = [], bdf_classes_removed = [''City''], bdf_properties_added = [], bdf_properties_removed = [],
          bdf_class_changes = [\<lparr>cdf_local_name = ''Person'', cdf_only_in_a = 0, cdf_only_in_b = 0, cdf_in_both = 0,
            cdf_schema_changed = False, cdf_a_columns = [''nid''], cdf_b_columns = [''nid'']\<rparr>],
          bdf_relation_changes = [], bdf_a_path = ''a.crcl'', bdf_b_path = ''b.crcl''\<rparr>"
  by code_simp


end
