(* ===== verification/Property_Index.thy ===== *)
theory Property_Index
  imports Graph_Search Expr_Eval
begin

text \<open>
  The property indexes of a database (\<open>api.py\<close>): the file with their metadata, building an index from
  the table of its class or relation, looking a value up in it, and marking indexes as stale when
  rows are written. The metadata files of the vector and text indexes have the same form and are
  marked the same way; the data of those indexes are not modelled.
\<close>

section \<open>Parameters\<close>

text \<open>
  \<open>json.dumps\<close> of a value of another kind than null, a boolean, an integer or a string: of a cell, of the
  text of a float literal and of any other constant.
\<close>

record 'v index_lib =
  ix_cell :: "'v \<Rightarrow> string"
  ix_float :: "string \<Rightarrow> string"
  ix_other :: "py_obj \<Rightarrow> string"

text \<open>\<open>_index_value_key\<close>, of a cell of a row and of a constant of a query.\<close>

definition cell_key :: "'v arrow \<Rightarrow> 'v index_lib \<Rightarrow> 'v cell \<Rightarrow> string" where
  "cell_key ar ix c =
     (case c of CNull \<Rightarrow> json_dumps ar JNull | CInt i \<Rightarrow> json_dumps ar (JInt i) | CVal v \<Rightarrow> ix_cell ix v)"

definition literal_key :: "'v arrow \<Rightarrow> 'v index_lib \<Rightarrow> py_obj \<Rightarrow> string" where
  "literal_key ar ix v =
     (case v of
        PyNone \<Rightarrow> json_dumps ar JNull
      | PyBool b \<Rightarrow> json_dumps ar (JBool b)
      | PyInt i \<Rightarrow> json_dumps ar (JInt i)
      | PyStr s \<Rightarrow> json_dumps ar (JStr s)
      | PyFloat t \<Rightarrow> ix_float ix t
      | _ \<Rightarrow> ix_other ix v)"

section \<open>Metadata\<close>

text \<open>The dictionary of one index, and the dictionary of all by their names.\<close>

type_synonym index_meta = "(string, json) dict"
type_synonym index_metadata = "(string, index_meta) dict"

definition PROPERTY_INDEX_MANIFEST :: string where "PROPERTY_INDEX_MANIFEST = ''property_indexes.json''"
definition VECTOR_INDEX_MANIFEST :: string where "VECTOR_INDEX_MANIFEST = ''indexes.json''"
definition TEXT_INDEX_MANIFEST :: string where "TEXT_INDEX_MANIFEST = ''text_indexes.json''"
definition PROPERTY_INDEX_DIR :: string where "PROPERTY_INDEX_DIR = ''property''"

text \<open>\<open>meta.get(key)\<close>, and a value as a condition.\<close>

definition meta_get :: "index_meta \<Rightarrow> string \<Rightarrow> json" where
  "meta_get m k = (case map_of m k of None \<Rightarrow> JNull | Some v \<Rightarrow> v)"

definition meta_item :: "index_meta \<Rightarrow> string \<Rightarrow> json result" where
  "meta_item m k = (case map_of m k of None \<Rightarrow> Inl KeyError | Some v \<Rightarrow> Inr v)"

definition json_dict :: "json \<Rightarrow> (string, json) dict result" where
  "json_dict v = (case v of JObj kvs \<Rightarrow> Inr kvs | _ \<Rightarrow> Inl TypeError)"

definition metadata_entry :: "json \<Rightarrow> (string \<times> index_meta) result" where
  "metadata_entry item =
     rbind (json_item item ''name'') (\<lambda>n. rbind (json_dict item) (\<lambda>m. Inr (json_str n, m)))"

definition load_index_metadata :: "string \<Rightarrow> fs \<Rightarrow> path \<Rightarrow> index_metadata result" where
  "load_index_metadata code fs p =
     (if \<not> is_file fs p then Inr []
      else
        (case read_json fs p of
           Inl e \<Rightarrow> if e = ValueError then raise_code code else Inl e
         | Inr payload \<Rightarrow>
             rbind (get_list metadata_entry payload ''indexes'') (\<lambda>items.
             Inr (fold (\<lambda>(n, m). AList.update n m) items []))))"

definition metadata_json :: "index_metadata \<Rightarrow> json" where
  "metadata_json d = JObj [(''indexes'', JArr (map (\<lambda>n. JObj (the (map_of d n))) (sort (dict_keys d))))]"

definition property_manifest_path :: "crcl_bundle \<Rightarrow> path" where
  "property_manifest_path b = bundle_child b [''indexes'', PROPERTY_INDEX_MANIFEST]"

definition vector_manifest_path :: "crcl_bundle \<Rightarrow> path" where
  "vector_manifest_path b = bundle_child b [''vec'', VECTOR_INDEX_MANIFEST]"

definition text_manifest_path :: "crcl_bundle \<Rightarrow> path" where
  "text_manifest_path b = bundle_child b [''indexes'', TEXT_INDEX_MANIFEST]"

definition load_property_index_manifest :: "fs \<Rightarrow> crcl_bundle \<Rightarrow> index_metadata result" where
  "load_property_index_manifest fs b = load_index_metadata ''CDB-7093'' fs (property_manifest_path b)"

definition load_vector_index_manifest :: "fs \<Rightarrow> crcl_bundle \<Rightarrow> index_metadata result" where
  "load_vector_index_manifest fs b = load_index_metadata ''CDB-7092'' fs (vector_manifest_path b)"

definition load_text_index_manifest :: "fs \<Rightarrow> crcl_bundle \<Rightarrow> index_metadata result" where
  "load_text_index_manifest fs b = load_index_metadata ''CDB-7094'' fs (text_manifest_path b)"

definition write_property_index_manifest :: "index_metadata \<Rightarrow> fs \<Rightarrow> crcl_bundle \<Rightarrow> unit result \<times> fs" where
  "write_property_index_manifest d fs b = write_json_atomic (metadata_json d) fs (property_manifest_path b)"

definition write_vector_index_manifest :: "index_metadata \<Rightarrow> fs \<Rightarrow> crcl_bundle \<Rightarrow> unit result \<times> fs" where
  "write_vector_index_manifest d fs b = write_json_atomic (metadata_json d) fs (vector_manifest_path b)"

definition write_text_index_manifest :: "index_metadata \<Rightarrow> fs \<Rightarrow> crcl_bundle \<Rightarrow> unit result \<times> fs" where
  "write_text_index_manifest d fs b = write_json_atomic (metadata_json d) fs (text_manifest_path b)"

section \<open>Building\<close>

definition property_index_file :: "string \<Rightarrow> string" where
  "property_index_file nm = ''indexes/'' @ PROPERTY_INDEX_DIR @ ''/'' @ nm @ ''.json''"

definition find_property :: "catalog \<Rightarrow> string \<Rightarrow> property_def result" where
  "find_property c iri =
     (case property_by_iri c iri of
        Some d \<Rightarrow> Inr d
      | None \<Rightarrow>
          (case find (\<lambda>d. local_or (pd_local_name d) (pd_iri d) = iri) (c_properties c) of
             Some d \<Rightarrow> Inr d
           | None \<Rightarrow> raise_code ''CDB-6021''))"

definition api_edge_table :: "'v arrow \<Rightarrow> 'v graph_db \<Rightarrow> string \<Rightarrow> 'v table result" where
  "api_edge_table ar db property_name =
     rbind (find_property (db_catalog db) property_name) (\<lambda>p.
     rbind (fst (open_edge_store (db_fs db) (db_bundle db) (pd_iri p) (local_or (pd_local_name p) (pd_iri p))
                   None None False ''none'')) (\<lambda>st.
     edge_to_table ar (db_fs db) st None None))"

definition vector_id_column :: "'v table \<Rightarrow> string" where
  "vector_id_column t = (if INTERNAL_GID_COLUMN \<in> set (names (tschema t)) then INTERNAL_GID_COLUMN else ''nid'')"

definition property_index_id_column :: "index_meta \<Rightarrow> 'v table \<Rightarrow> string" where
  "property_index_id_column meta t = (if meta_get meta ''kind'' = JStr ''node'' then vector_id_column t else ''eid'')"

definition property_index_source_table :: "'v arrow \<Rightarrow> 'v graph_db \<Rightarrow> index_meta \<Rightarrow> 'v table result" where
  "property_index_source_table ar db meta =
     (if meta_get meta ''kind'' = JStr ''node''
      then rbind (meta_item meta ''node_type'') (\<lambda>v. node_table_for_local ar db (json_str v))
      else rbind (meta_item meta ''edge_type'') (\<lambda>v. api_edge_table ar db (json_str v)))"

text \<open>\<open>lookup.setdefault(key, []).append(id)\<close>, row by row.\<close>

definition ids_at :: "(string, int list) dict \<Rightarrow> string \<Rightarrow> int list" where
  "ids_at d k = (case map_of d k of None \<Rightarrow> [] | Some is \<Rightarrow> is)"

definition index_row ::
  "'v arrow \<Rightarrow> 'v index_lib \<Rightarrow> string \<Rightarrow> string \<Rightarrow> 'v row \<Rightarrow> (string, int list) dict \<Rightarrow> (string, int list) dict result" where
  "index_row ar ix value_column id_column row d =
     (let key = cell_key ar ix (row_get row value_column) in
      rbind (row_int row id_column) (\<lambda>i. Inr (AList.update key (ids_at d key @ [i]) d)))"

definition index_lookup_table ::
  "'v arrow \<Rightarrow> 'v index_lib \<Rightarrow> string \<Rightarrow> string \<Rightarrow> 'v table \<Rightarrow> (string, int list) dict result" where
  "index_lookup_table ar ix value_column id_column t =
     rbind (rfold (index_row ar ix value_column id_column) (table_pylist t) []) (\<lambda>d.
     Inr (map (\<lambda>(k, ids). (k, sort ids)) d))"

text \<open>\<open>meta.get("node_type") or meta.get("edge_type")\<close>.\<close>

definition meta_owner :: "index_meta \<Rightarrow> json" where
  "meta_owner meta = (if json_bool (meta_get meta ''node_type'') then meta_get meta ''node_type'' else meta_get meta ''edge_type'')"

definition index_payload :: "index_meta \<Rightarrow> json \<Rightarrow> json \<Rightarrow> json \<Rightarrow> string \<Rightarrow> (string, int list) dict \<Rightarrow> json" where
  "index_payload meta nm kind prop id_column d =
     JObj [(''name'', nm), (''kind'', kind), (''owner'', meta_owner meta), (''property'', prop),
           (''id_column'', JStr id_column), (''lookup'', JObj (map (\<lambda>(k, ids). (k, JArr (map JInt ids))) d))]"

definition meta_index_file :: "index_meta \<Rightarrow> string \<Rightarrow> string" where
  "meta_index_file meta nm =
     (if json_bool (meta_get meta ''index_file'') then json_str (meta_get meta ''index_file'') else property_index_file nm)"

text \<open>The path of an index file, and its text relative to the bundle.\<close>

definition index_path :: "crcl_bundle \<Rightarrow> string \<Rightarrow> path" where
  "index_path b s = join_path (b_path b) s"

definition relative_str :: "crcl_bundle \<Rightarrow> path \<Rightarrow> string result" where
  "relative_str b p =
     (if take (length (b_path b)) p = b_path b then Inr (py_join ''/'' (drop (length (b_path b)) p)) else Inl ValueError)"

definition build_property_index ::
  "'v arrow \<Rightarrow> 'v index_lib \<Rightarrow> string \<Rightarrow> 'v graph_db \<Rightarrow> index_meta \<Rightarrow> index_meta result \<times> 'v graph_db" where
  "build_property_index ar ix now db meta =
     (case
        rbind (property_index_source_table ar db meta) (\<lambda>t.
        rbind (meta_item meta ''property'') (\<lambda>prop.
        let id_column = property_index_id_column meta t in
        rbind (index_lookup_table ar ix (json_str prop) id_column t) (\<lambda>d.
        rbind (meta_item meta ''name'') (\<lambda>nm.
        rbind (meta_item meta ''kind'') (\<lambda>kind.
        Inr (t, json_str nm, index_payload meta nm kind prop id_column d))))))
      of
        Inl e \<Rightarrow> (Inl e, db)
      | Inr (t, nm, payload) \<Rightarrow>
          let p = index_path (db_bundle db) (meta_index_file meta nm) in
          (case write_json_atomic payload (db_fs db) p of
             (Inl e, fs1) \<Rightarrow> (Inl e, db\<lparr>db_fs := fs1\<rparr>)
           | (Inr _, fs1) \<Rightarrow>
               (case rbind (relative_str (db_bundle db) p) (\<lambda>rel.
                     rbind (load_property_index_manifest fs1 (db_bundle db)) (\<lambda>metadata. Inr (rel, metadata)))
                of
                  Inl e \<Rightarrow> (Inl e, db\<lparr>db_fs := fs1\<rparr>)
                | Inr (rel, metadata) \<Rightarrow>
                    let meta' = fold (\<lambda>(k, v). AList.update k v)
                          [(''index_file'', JStr rel), (''status'', JStr ''ready''),
                           (''count'', JInt (int (table_rows t))), (''updated_at'', JStr now)] meta
                    in
                    (case write_property_index_manifest (AList.update nm meta' metadata) fs1 (db_bundle db) of
                       (Inl e, fs2) \<Rightarrow> (Inl e, db\<lparr>db_fs := fs2\<rparr>)
                     | (Inr _, fs2) \<Rightarrow> (Inr meta', db\<lparr>db_fs := fs2\<rparr>)))))"

section \<open>Creating\<close>

text \<open>\<open>re.match\<close> of the pattern of index names; a newline at the end is accepted.\<close>

definition index_name_ok :: "string \<Rightarrow> bool" where
  "index_name_ok s =
     (let t = (if s \<noteq> [] \<and> last s = CHR 0x0A then butlast s else s) in
      case t of [] \<Rightarrow> False | c # cs \<Rightarrow> name_start c \<and> list_all (\<lambda>c. name_char c \<or> c = CHR ''.'' \<or> c = CHR ''-'') cs)"

text \<open>The checks, and the kind, the owner and the table of the new index.\<close>

definition index_target ::
  "'v arrow \<Rightarrow> 'v graph_db \<Rightarrow> string \<Rightarrow> string option \<Rightarrow> string \<Rightarrow> string option \<Rightarrow> (string \<times> string) result" where
  "index_target ar db nm node_type property_name edge_type =
     (if \<not> index_name_ok nm then raise_code ''CDB-7090''
      else if (node_type = None) = (edge_type = None) then raise_code ''CDB-7093''
      else
        rbind (case node_type of
                 Some nt \<Rightarrow>
                   rbind (find_class (db_catalog db) nt) (\<lambda>cls.
                   let owner = local_or (cd_local_name cls) (cd_iri cls) in
                   rbind (node_table_for_local ar db owner) (\<lambda>t. Inr (''node'', owner, t)))
               | None \<Rightarrow>
                   rbind (find_property (db_catalog db) (case edge_type of Some et \<Rightarrow> et | None \<Rightarrow> [])) (\<lambda>p.
                   let owner = local_or (pd_local_name p) (pd_iri p) in
                   rbind (api_edge_table ar db owner) (\<lambda>t. Inr (''edge'', owner, t)))) (\<lambda>(kind, owner, t).
        if property_name \<notin> set (names (tschema t)) then raise_code ''CDB-7093''
        else Inr (kind, owner)))"

definition new_index_meta :: "string \<Rightarrow> string \<Rightarrow> string \<Rightarrow> string \<Rightarrow> string \<Rightarrow> index_meta" where
  "new_index_meta now nm kind owner property_name =
     [(''name'', JStr nm), (''kind'', JStr kind),
      (''node_type'', if kind = ''node'' then JStr owner else JNull),
      (''edge_type'', if kind = ''edge'' then JStr owner else JNull),
      (''property'', JStr property_name), (''status'', JStr ''building''),
      (''index_file'', JStr (property_index_file nm)), (''count'', JInt 0),
      (''created_at'', JStr now), (''updated_at'', JStr now)]"

definition index_definition :: "index_meta \<Rightarrow> json list" where
  "index_definition m = map (meta_get m) [''kind'', ''node_type'', ''edge_type'', ''property'']"

definition create_property_index ::
  "'v arrow \<Rightarrow> 'v index_lib \<Rightarrow> string \<Rightarrow> 'v graph_db \<Rightarrow> string \<Rightarrow> string option \<Rightarrow> string \<Rightarrow> string option
    \<Rightarrow> index_meta result \<times> 'v graph_db" where
  "create_property_index ar ix now db nm node_type property_name edge_type =
     (case rbind (index_target ar db nm node_type property_name edge_type) (\<lambda>(kind, owner).
           rbind (load_property_index_manifest (db_fs db) (db_bundle db)) (\<lambda>metadata. Inr (kind, owner, metadata)))
      of
        Inl e \<Rightarrow> (Inl e, db)
      | Inr (kind, owner, metadata) \<Rightarrow>
          let meta = new_index_meta now nm kind owner property_name in
          (case map_of metadata nm of
             Some existing \<Rightarrow>
               if index_definition existing \<noteq> index_definition meta then (raise_code ''CDB-7093'', db)
               else if meta_get existing ''status'' = JStr ''ready'' \<and> json_bool (meta_get existing ''index_file'')
                  \<and> is_file (db_fs db) (index_path (db_bundle db) (json_str (meta_get existing ''index_file'')))
               then (Inr existing, db)
               else build_property_index ar ix now db existing
           | None \<Rightarrow>
               (case write_property_index_manifest (AList.update nm meta metadata) (db_fs db) (db_bundle db) of
                  (Inl e, fs1) \<Rightarrow> (Inl e, db\<lparr>db_fs := fs1\<rparr>)
                | (Inr _, fs1) \<Rightarrow> build_property_index ar ix now (db\<lparr>db_fs := fs1\<rparr>) meta)))"

definition list_property_indexes :: "'v graph_db \<Rightarrow> index_meta list result" where
  "list_property_indexes db =
     rbind (load_property_index_manifest (db_fs db) (db_bundle db)) (\<lambda>metadata.
     Inr (map (\<lambda>n. the (map_of metadata n)) (sort (dict_keys metadata))))"

section \<open>Looking up\<close>

text \<open>The identifiers under a key in a payload.\<close>

definition payload_ids :: "json \<Rightarrow> string \<Rightarrow> int list result" where
  "payload_ids payload key =
     rbind (json_get payload ''lookup'' (JObj [])) (\<lambda>d.
     rbind (json_get d key (JArr [])) (\<lambda>ids. rbind (json_iter ids) (rmap json_int)))"

definition read_index_ids :: "fs \<Rightarrow> path \<Rightarrow> string \<Rightarrow> int list result" where
  "read_index_ids fs p key =
     (case read_json fs p of
        Inl e \<Rightarrow> if e = ValueError then raise_code ''CDB-7093'' else Inl e
      | Inr payload \<Rightarrow> payload_ids payload key)"

definition property_index_lookup_ids ::
  "'v arrow \<Rightarrow> 'v index_lib \<Rightarrow> string \<Rightarrow> 'v graph_db \<Rightarrow> index_meta \<Rightarrow> py_obj \<Rightarrow> int list result \<times> 'v graph_db" where
  "property_index_lookup_ids ar ix now db meta v =
     (case (if meta_get meta ''status'' \<noteq> JStr ''ready'' \<or> \<not> json_bool (meta_get meta ''index_file'')
            then build_property_index ar ix now db meta else (Inr meta, db))
      of
        (Inl e, db1) \<Rightarrow> (Inl e, db1)
      | (Inr ready, db1) \<Rightarrow>
          let p = index_path (db_bundle db1) (json_str (meta_get ready ''index_file'')) in
          if is_file (db_fs db1) p then (read_index_ids (db_fs db1) p (literal_key ar ix v), db1)
          else
            (case build_property_index ar ix now db1 ready of
               (Inl e, db2) \<Rightarrow> (Inl e, db2)
             | (Inr ready', db2) \<Rightarrow>
                 (read_index_ids (db_fs db2) (index_path (db_bundle db2) (json_str (meta_get ready' ''index_file'')))
                    (literal_key ar ix v), db2)))"

section \<open>Staleness\<close>

definition mark_stale :: "string \<Rightarrow> (index_meta \<Rightarrow> bool) \<Rightarrow> index_metadata \<Rightarrow> bool \<times> index_metadata" where
  "mark_stale now hit d =
     (let stale = (\<lambda>m. hit m \<and> meta_get m ''status'' = JStr ''ready'') in
      (list_ex (stale \<circ> snd) d,
       map (\<lambda>(n, m). (n, if stale m then AList.update ''updated_at'' (JStr now) (AList.update ''status'' (JStr ''stale'') m) else m)) d))"

text \<open>Load, mark and, when something changed, write one of the metadata files.\<close>

definition mark_file ::
  "string \<Rightarrow> (index_meta \<Rightarrow> bool) \<Rightarrow> (fs \<Rightarrow> crcl_bundle \<Rightarrow> index_metadata result)
    \<Rightarrow> (index_metadata \<Rightarrow> fs \<Rightarrow> crcl_bundle \<Rightarrow> unit result \<times> fs) \<Rightarrow> crcl_bundle \<Rightarrow> fs \<Rightarrow> unit result \<times> fs" where
  "mark_file now hit load write b fs =
     (case load fs b of
        Inl e \<Rightarrow> (Inl e, fs)
      | Inr d \<Rightarrow> (case mark_stale now hit d of (changed, d') \<Rightarrow> if changed then write d' fs b else (Inr (), fs)))"

definition node_index_of :: "string \<Rightarrow> index_meta \<Rightarrow> bool" where
  "node_index_of nm m \<longleftrightarrow> meta_get m ''kind'' = JStr ''node'' \<and> meta_get m ''node_type'' = JStr nm"

definition edge_index_of :: "string \<Rightarrow> index_meta \<Rightarrow> bool" where
  "edge_index_of nm m \<longleftrightarrow> meta_get m ''kind'' = JStr ''edge'' \<and> meta_get m ''edge_type'' = JStr nm"

definition mark_node_indexes_stale :: "string \<Rightarrow> 'v graph_db \<Rightarrow> string \<Rightarrow> unit result \<times> 'v graph_db" where
  "mark_node_indexes_stale now db0 node_type =
     (let db = db0\<lparr>db_node_lookups := []\<rparr>; b = db_bundle db; of_type = (\<lambda>nm m. meta_get m ''node_type'' = JStr nm) in
      case coerce_local_name node_type of
        Inl e \<Rightarrow> (Inl e, db)
      | Inr nm \<Rightarrow>
          (case mark_file now (of_type nm) load_vector_index_manifest write_vector_index_manifest b (db_fs db) of
             (Inl e, fs1) \<Rightarrow> (Inl e, db\<lparr>db_fs := fs1\<rparr>)
           | (Inr _, fs1) \<Rightarrow>
               (case mark_file now (node_index_of nm) load_property_index_manifest write_property_index_manifest b fs1 of
                  (Inl e, fs2) \<Rightarrow> (Inl e, db\<lparr>db_fs := fs2\<rparr>)
                | (Inr _, fs2) \<Rightarrow>
                    (case mark_file now (of_type nm) load_text_index_manifest write_text_index_manifest b fs2 of
                       (r, fs3) \<Rightarrow> (r, db\<lparr>db_fs := fs3\<rparr>)))))"

definition mark_edge_indexes_stale :: "string \<Rightarrow> 'v graph_db \<Rightarrow> string \<Rightarrow> unit result \<times> 'v graph_db" where
  "mark_edge_indexes_stale now db edge_type =
     (case coerce_local_name edge_type of
        Inl e \<Rightarrow> (Inl e, db)
      | Inr nm \<Rightarrow>
          (case mark_file now (edge_index_of nm) load_property_index_manifest write_property_index_manifest (db_bundle db) (db_fs db) of
             (r, fs1) \<Rightarrow> (r, db\<lparr>db_fs := fs1\<rparr>)))"

end
