(* ===== verification/Query_Compile.thy ===== *)
theory Query_Compile
  imports Property_Index
begin

text \<open>
  The compilation of a query with one node pattern (\<open>_compile_query\<close> of \<open>api.py\<close> and its helpers): the
  translation of expressions to the tuples of the evaluator, the \<open>SUBCLASSOF*\<close> conjunct, the columns a
  scan has to read, and the choice of a property index.
\<close>

section \<open>Names\<close>

definition resolve_class :: "catalog \<Rightarrow> string \<Rightarrow> class_def result" where
  "resolve_class c iri_or_local =
     (case class_by_iri c iri_or_local of
        Some d \<Rightarrow> Inr d
      | None \<Rightarrow>
          (case find (\<lambda>d. local_or (cd_local_name d) (cd_iri d) = iri_or_local) (c_classes c) of
             Some d \<Rightarrow> Inr d
           | None \<Rightarrow> raise_code ''CDB-6021''))"

definition expand_name :: "name_ref \<Rightarrow> 'e query \<Rightarrow> string" where
  "expand_name n q =
     (case n of
        Iri v \<Rightarrow> v
      | QName v \<Rightarrow>
          if has_colon v then
            (case split_colon v of (pfx, local) \<Rightarrow>
               (case find (\<lambda>d. pfx_prefix d = pfx) (q_prefixes q) of
                  Some d \<Rightarrow> ref_value (pfx_iri d) @ local
                | None \<Rightarrow> v))
          else v)"

definition fn_name :: "name_ref option \<Rightarrow> string result" where
  "fn_name n =
     (case n of
        Some (QName v) \<Rightarrow> Inr (after_last (CHR '':'') v)
      | Some (Iri v) \<Rightarrow> Inr (local_name_of v)
      | None \<Rightarrow> raise_code ''CDB-6020'')"

section \<open>Expressions\<close>

fun literal_obj :: "literal_value \<Rightarrow> py_obj" where
  "literal_obj ValNone = PyNone"
| "literal_obj (ValBool b) = PyBool b"
| "literal_obj (ValInt i) = PyInt i"
| "literal_obj (ValFloat t) = PyFloat t"
| "literal_obj (ValStr s) = PyStr s"

fun literal_expr_value :: "expr \<Rightarrow> py_obj result" where
  "literal_expr_value (Literal k v dt lang) = Inr (literal_obj v)"
| "literal_expr_value (ListExpr items) = rbind (rmap literal_expr_value items) (\<lambda>vs. Inr (PyList vs))"
| "literal_expr_value _ = raise_code ''CDB-6020''"

abbreviation col_expr :: "string \<Rightarrow> py_obj" where
  "col_expr n \<equiv> PyTuple [PyStr ''col'', PyStr n]"

abbreviation lit_expr :: "py_obj \<Rightarrow> py_obj" where
  "lit_expr v \<equiv> PyTuple [PyStr ''lit'', v]"

text \<open>The functions of vectors a query may call; a callable is its place in this list.\<close>

definition SCALAR_FUNCTIONS :: "string list" where
  "SCALAR_FUNCTIONS = [''cosine_similarity'', ''cosine_distance'', ''dot_product'', ''l2_distance'']"

fun scalar_fn_arg :: "string list \<Rightarrow> expr \<Rightarrow> py_obj result" where
  "scalar_fn_arg aliases (PathExpr (Some r) [s]) =
     (if id_name r \<in> set aliases then Inr (col_expr (id_name s)) else raise_code ''CDB-6020'')"
| "scalar_fn_arg aliases (Literal k v dt lang) = Inr (lit_expr (literal_obj v))"
| "scalar_fn_arg aliases (ListExpr items) = rbind (rmap literal_expr_value items) (\<lambda>vs. Inr (lit_expr (PyList vs)))"
| "scalar_fn_arg aliases _ = raise_code ''CDB-6020''"

definition compile_scalar_fncall :: "name_ref option \<Rightarrow> expr list \<Rightarrow> string list \<Rightarrow> py_obj result" where
  "compile_scalar_fncall n args aliases =
     rbind (fn_name n) (\<lambda>nm.
     if nm \<notin> set SCALAR_FUNCTIONS then raise_code ''CDB-6020''
     else
       (case args of
          [a, b] \<Rightarrow>
            rbind (scalar_fn_arg aliases a) (\<lambda>x.
            rbind (scalar_fn_arg aliases b) (\<lambda>y.
            Inr (PyTuple [PyStr ''py_binary'', PyFn (int (length (takeWhile (\<lambda>f. f \<noteq> nm) SCALAR_FUNCTIONS))), x, y])))
        | _ \<Rightarrow> raise_code ''CDB-6020''))"

definition BIN_OP_TO_TUPLE :: "(string, string) dict" where
  "BIN_OP_TO_TUPLE =
     [(''='', ''eq''), (''=='', ''eq''), (''!='', ''ne''), (''<>'', ''ne''), (''<'', ''lt''), (''<='', ''le''),
      (''>'', ''gt''), (''>='', ''ge''), (''AND'', ''and''), (''and'', ''and''), (''&&'', ''and''),
      (''OR'', ''or''), (''or'', ''or''), (''||'', ''or'')]"

fun translate_expr :: "string \<Rightarrow> expr \<Rightarrow> py_obj result" where
  "translate_expr alias (PathExpr root steps) =
     (case (root, steps) of
        (Some r, [s]) \<Rightarrow> if id_name r \<noteq> alias then raise_code ''CDB-6020'' else Inr (col_expr (id_name s))
      | _ \<Rightarrow> raise_code ''CDB-6020'')"
| "translate_expr alias (Var n) =
     (case n of
        None \<Rightarrow> raise_code ''CDB-6020''
      | Some i \<Rightarrow> Inr (col_expr (if id_name i = alias then ''nid'' else id_name i)))"
| "translate_expr alias (Literal k v dt lang) = Inr (lit_expr (literal_obj v))"
| "translate_expr alias (ListExpr items) = rbind (rmap literal_expr_value items) (\<lambda>vs. Inr (lit_expr (PyList vs)))"
| "translate_expr alias (FnCall n args) = compile_scalar_fncall n args [alias]"
| "translate_expr alias (BinOp bop l r) =
     (case map_of BIN_OP_TO_TUPLE bop of
        None \<Rightarrow> raise_code ''CDB-6020''
      | Some h \<Rightarrow>
          rbind (case l of Some e \<Rightarrow> translate_expr alias e | None \<Rightarrow> raise_code ''CDB-6020'') (\<lambda>x.
          rbind (case r of ExprOperand e \<Rightarrow> translate_expr alias e | _ \<Rightarrow> raise_code ''CDB-6020'') (\<lambda>y.
          Inr (PyTuple [PyStr h, x, y]))))"
| "translate_expr alias (UnaryOp uop e) =
     (if str_lower uop \<in> {''not'', ''!''} then
        rbind (case e of Some x \<Rightarrow> translate_expr alias x | None \<Rightarrow> raise_code ''CDB-6020'') (\<lambda>y.
        Inr (PyTuple [PyStr ''not'', y]))
      else raise_code ''CDB-6020'')"
| "translate_expr alias _ = raise_code ''CDB-6020''"

text \<open>The columns of a translated expression.\<close>

fun collect_cols :: "py_obj \<Rightarrow> string list" where
  "collect_cols (PyTuple (PyStr h # rest)) =
     (case rest of
        PyStr n # _ \<Rightarrow> if h = ''col'' then [n] else concat (map collect_cols rest)
      | _ \<Rightarrow> concat (map collect_cols rest))"
| "collect_cols (PyTuple items) = concat (map collect_cols items)"
| "collect_cols _ = []"

definition eval_int_literal :: "expr \<Rightarrow> int result" where
  "eval_int_literal e =
     (case e of
        Literal _ (ValInt i) _ _ \<Rightarrow> Inr i
      | Literal _ (ValBool b) _ _ \<Rightarrow> Inr (if b then 1 else 0)
      | _ \<Rightarrow> raise_code ''CDB-6020'')"

definition default_alias :: "expr \<Rightarrow> string" where
  "default_alias e =
     (case e of
        PathExpr (Some _) [s] \<Rightarrow> id_name s
      | Var (Some n) \<Rightarrow> id_name n
      | _ \<Rightarrow> ''expr'')"

section \<open>Subclass predicates\<close>

definition is_alias_class_path :: "expr option \<Rightarrow> string \<Rightarrow> bool" where
  "is_alias_class_path e alias \<longleftrightarrow>
     (case e of Some (PathExpr (Some r) [s]) \<Rightarrow> id_name r = alias \<and> id_name s = ''class'' | _ \<Rightarrow> False)"

text \<open>
  What remains of a predicate is an operand: an expression, a name that stands where an expression is
  expected, or nothing. A name to the left of a rebuilt conjunction has no place in the tree; like
  a missing operand it cannot be translated.
\<close>

definition left_of :: "expr operand \<Rightarrow> expr option" where
  "left_of x = (case x of ExprOperand e \<Rightarrow> Some e | _ \<Rightarrow> None)"

definition or_str :: "string option \<Rightarrow> string option \<Rightarrow> string option" where
  "or_str a b = (case a of Some (c # cs) \<Rightarrow> Some (c # cs) | _ \<Rightarrow> b)"

fun extract_subclassof :: "'q query \<Rightarrow> string \<Rightarrow> expr \<Rightarrow> (string option \<times> expr operand) result" where
  "extract_subclassof q alias (BinOp bop l r) =
     (if str_lower bop = ''and'' then
        rbind (case l of Some e \<Rightarrow> extract_subclassof q alias e | None \<Rightarrow> Inr (None, NoOperand)) (\<lambda>(left_base, left_remaining).
        rbind (case r of ExprOperand e \<Rightarrow> extract_subclassof q alias e | _ \<Rightarrow> Inr (None, r)) (\<lambda>(right_base, right_remaining).
        if left_base \<noteq> None \<and> right_base \<noteq> None then raise_code ''CDB-6020''
        else
          let base = or_str left_base right_base in
          Inr (case (left_remaining, right_remaining) of
                 (NoOperand, x) \<Rightarrow> (base, x)
               | (x, NoOperand) \<Rightarrow> (base, x)
               | (x, y) \<Rightarrow> (base, ExprOperand (BinOp ''AND'' (left_of x) y)))))
      else if bop = ''SUBCLASSOF*'' then
        if \<not> is_alias_class_path l alias then raise_code ''CDB-6020''
        else (case r of
                NameOperand n \<Rightarrow> Inr (Some (case n of Iri v \<Rightarrow> v | QName _ \<Rightarrow> expand_name n q), NoOperand)
              | _ \<Rightarrow> raise_code ''CDB-6020'')
      else Inr (None, ExprOperand (BinOp bop l r)))"
| "extract_subclassof q alias e = Inr (None, ExprOperand e)"

section \<open>Property indexes\<close>

record index_lookup =
  il_name :: string
  il_property_name :: string
  il_value :: py_obj

fun is_col_expr :: "py_obj \<Rightarrow> bool" where
  "is_col_expr (PyTuple [h, _]) = (h = PyStr ''col'')"
| "is_col_expr _ = False"

fun is_lit_expr :: "py_obj \<Rightarrow> bool" where
  "is_lit_expr (PyTuple [h, _]) = (h = PyStr ''lit'')"
| "is_lit_expr _ = False"

definition second :: "py_obj \<Rightarrow> py_obj" where
  "second e = (case e of PyTuple (_ # x # _) \<Rightarrow> x | _ \<Rightarrow> PyNone)"

text \<open>\<open>str\<close> of the name in a column reference, which the translation makes a string.\<close>

definition col_name :: "py_obj \<Rightarrow> string" where
  "col_name e = (case second e of PyStr n \<Rightarrow> n | _ \<Rightarrow> [])"

fun first_equality_predicate :: "py_obj \<Rightarrow> (string \<times> py_obj) option" where
  "first_equality_predicate (PyTuple (h # l # r # rest)) =
     (if h = PyStr ''eq'' \<and> is_col_expr l \<and> is_lit_expr r then Some (col_name l, second r)
      else if h = PyStr ''eq'' \<and> is_lit_expr l \<and> is_col_expr r then Some (col_name r, second l)
      else if h = PyStr ''and'' then
        (case first_equality_predicate l of Some p \<Rightarrow> Some p | None \<Rightarrow> first_equality_predicate r)
      else None)"
| "first_equality_predicate _ = None"

definition indexed_lookup_for_predicate ::
  "fs \<Rightarrow> crcl_bundle \<Rightarrow> string \<Rightarrow> py_obj option \<Rightarrow> index_lookup option result" where
  "indexed_lookup_for_predicate fs b node_type predicate =
     (case Option.bind predicate first_equality_predicate of
        None \<Rightarrow> Inr None
      | Some (property_name, v) \<Rightarrow>
          rbind (load_property_index_manifest fs b) (\<lambda>metadata.
          case find (\<lambda>m. meta_get m ''kind'' = JStr ''node'' \<and> meta_get m ''node_type'' = JStr node_type
                         \<and> meta_get m ''property'' = JStr property_name) (map snd metadata) of
            None \<Rightarrow> Inr None
          | Some m \<Rightarrow>
              rbind (meta_item m ''name'') (\<lambda>n.
              Inr (Some \<lparr>il_name = json_str n, il_property_name = property_name, il_value = v\<rparr>))))"

section \<open>Queries\<close>

record compiled_query =
  cq_class_iri :: string
  cq_local_name :: string
  cq_alias :: string
  cq_columns :: "string list"
  cq_predicate :: "py_obj option"
  cq_projections :: "(py_obj \<times> string) list"
  cq_limit :: "int option"
  cq_closure_base_iri :: "string option"
  cq_snapshot :: "snapshot_id option"
  cq_indexes_used :: "string list"
  cq_index_lookup :: "index_lookup option"

text \<open>The first clause of a kind.\<close>

fun match_clause_of :: "'e clause list \<Rightarrow> ('e pattern list \<times> as_of option) option" where
  "match_clause_of [] = None"
| "match_clause_of (MatchClause ps opt ao # cs) = Some (ps, ao)"
| "match_clause_of (c # cs) = match_clause_of cs"

fun return_clause_of :: "'e clause list \<Rightarrow> 'e projection list option" where
  "return_clause_of [] = None"
| "return_clause_of (ReturnClause ps d # cs) = Some ps"
| "return_clause_of (c # cs) = return_clause_of cs"

fun where_clause_of :: "'e clause list \<Rightarrow> 'e option" where
  "where_clause_of [] = None"
| "where_clause_of (WhereClause p # cs) = p"
| "where_clause_of (c # cs) = where_clause_of cs"

text \<open>The label and the alias of the only node pattern.\<close>

definition single_node :: "expr query \<Rightarrow> (name_ref \<times> string) result" where
  "single_node q =
     (case (match_clause_of (q_clauses q), return_clause_of (q_clauses q)) of
        (Some ([p], _), Some _) \<Rightarrow>
          (case pat_elements p of
             [NodePattern var (label # _) _] \<Rightarrow> Inr (label, case var of Some v \<Rightarrow> id_name v | None \<Rightarrow> ''n'')
           | _ \<Rightarrow> raise_code ''CDB-6020'')
      | _ \<Rightarrow> raise_code ''CDB-6020'')"

text \<open>The base class of a subclass predicate and the translated rest of the predicate.\<close>

definition compile_where :: "expr query \<Rightarrow> string \<Rightarrow> (string option \<times> py_obj option) result" where
  "compile_where q alias =
     (case where_clause_of (q_clauses q) of
        None \<Rightarrow> Inr (None, None)
      | Some e \<Rightarrow>
          rbind (extract_subclassof q alias e) (\<lambda>(base, remaining).
          case remaining of
            NoOperand \<Rightarrow> Inr (base, None)
          | ExprOperand r \<Rightarrow> rbind (translate_expr alias r) (\<lambda>p. Inr (base, Some p))
          | NameOperand _ \<Rightarrow> raise_code ''CDB-6020''))"

definition compile_projection :: "string \<Rightarrow> expr projection \<Rightarrow> (py_obj \<times> string) result" where
  "compile_projection alias pj =
     rbind (translate_expr alias (pj_expr pj)) (\<lambda>e.
     Inr (e, case pj_alias pj of Some a \<Rightarrow> id_name a | None \<Rightarrow> default_alias (pj_expr pj)))"

definition query_columns :: "(py_obj \<times> string) list \<Rightarrow> py_obj option \<Rightarrow> string list" where
  "query_columns projections predicate =
     (let referenced = concat (map (collect_cols \<circ> fst) projections)
                       @ (case predicate of Some p \<Rightarrow> collect_cols p | None \<Rightarrow> [])
      in if referenced = [] then [''nid''] else sort (remdups referenced))"

definition query_modifiers :: "'e query \<Rightarrow> 'e order_item list \<times> 'e option \<times> 'e option" where
  "query_modifiers q = (case q_modifiers q of Modifiers order_by skip limit \<Rightarrow> (order_by, skip, limit))"

definition compile_query :: "expr query \<Rightarrow> 'v graph_db \<Rightarrow> compiled_query result" where
  "compile_query q db =
     rbind (single_node q) (\<lambda>(label, alias).
     rbind (resolve_class (db_catalog db) (case label of Iri v \<Rightarrow> v | QName _ \<Rightarrow> expand_name label q)) (\<lambda>cls.
     rbind (compile_where q alias) (\<lambda>(closure_base_iri, predicate).
     rbind (rmap (compile_projection alias) (the (return_clause_of (q_clauses q)))) (\<lambda>projections.
     rbind (case snd (snd (query_modifiers q)) of
              None \<Rightarrow> Inr None
            | Some e \<Rightarrow> rbind (eval_int_literal e) (\<lambda>i. Inr (Some i))) (\<lambda>limit.
     rbind (resolve_as_of (db_fs db) (db_bundle db) (snd (the (match_clause_of (q_clauses q))))) (\<lambda>snapshot.
     let local_name = local_or (cd_local_name cls) (cd_iri cls) in
     rbind (indexed_lookup_for_predicate (db_fs db) (db_bundle db) local_name predicate) (\<lambda>index_lookup.
     Inr \<lparr>cq_class_iri = cd_iri cls, cq_local_name = local_name, cq_alias = alias,
          cq_columns = query_columns projections predicate, cq_predicate = predicate, cq_projections = projections,
          cq_limit = limit, cq_closure_base_iri = closure_base_iri, cq_snapshot = snapshot,
          cq_indexes_used = (case index_lookup of Some l \<Rightarrow> [il_name l] | None \<Rightarrow> []),
          cq_index_lookup = index_lookup\<rparr>)))))))"

section \<open>Lemmas\<close>

text \<open>The compiler finds the columns the rewrite rules and the evaluator see.\<close>

lemma set_collect_cols: "set (collect_cols e) = columns_used e"
  by (induction e rule: collect_cols.induct) (auto split: list.splits py_obj.splits)

end
