(* ===== verification/Query_Run.thy ===== *)
theory Query_Run
  imports Query_Compile Blocking
begin

text \<open>
  Running a compiled query (\<open>_build_pipeline\<close>, \<open>_IndexedNodeLookupOperator\<close> and \<open>_apply_modifiers\<close> of
  \<open>api.py\<close>): the source of rows, the filter and the projection over it, and the ordering, skipping and
  limiting of the result.
\<close>

section \<open>Parameters\<close>

text \<open>
  The kernels of the expression evaluator over batches, \<open>filter\<close> with a column as mask, the comparison
  \<open><\<close> of two cells as Python values, and functions of Arrow tables: \<open>is_in\<close> over a column with integers
  of the type of the column, \<open>Table.filter\<close>, \<open>Table.select\<close>, \<open>Table.from_pylist\<close> with a schema.
\<close>

record 'v query_lib =
  ql_kernels :: "('v batch, 'v array) expr_kernels"
  ql_mask :: "'v array \<Rightarrow> mask result"
  ql_less :: "'v cell \<Rightarrow> 'v cell \<Rightarrow> bool result"
  ql_is_in :: "'v cell list \<Rightarrow> int list \<Rightarrow> mask result"
  ql_filter :: "'v table \<Rightarrow> mask \<Rightarrow> 'v table result"
  ql_select :: "'v table \<Rightarrow> string list \<Rightarrow> 'v table result"
  ql_from_pylist :: "'v row list \<Rightarrow> schema \<Rightarrow> 'v table result"

definition table_to_batches :: "'v arrow \<Rightarrow> 'v table \<Rightarrow> 'v batch list result" where
  "table_to_batches ar t =
     (if table_rows t \<noteq> 0 then pa_combine ar t
      else Inr [\<lparr>bschema = tschema t, bcols = map (\<lambda>f. \<lparr>arr_type = fld_type f, cells = []\<rparr>) (tschema t), brows = 0\<rparr>])"

section \<open>Sorting rows\<close>

text \<open>
  \<open>list.sort\<close> with a key: stable, by the comparison of keys, which may raise; \<open>reverse\<close> keeps the order of
  equal keys.
\<close>

fun insert_by :: "('k \<Rightarrow> 'k \<Rightarrow> bool result) \<Rightarrow> ('a \<Rightarrow> 'k) \<Rightarrow> 'a \<Rightarrow> 'a list \<Rightarrow> 'a list result" where
  "insert_by lt key x [] = Inr [x]"
| "insert_by lt key x (y # ys) =
     rbind (lt (key x) (key y)) (\<lambda>b.
     if b then Inr (x # y # ys) else rbind (insert_by lt key x ys) (\<lambda>zs. Inr (y # zs)))"

definition sort_by :: "('k \<Rightarrow> 'k \<Rightarrow> bool result) \<Rightarrow> ('a \<Rightarrow> 'k) \<Rightarrow> 'a list \<Rightarrow> 'a list result" where
  "sort_by lt key xs = rfold (insert_by lt key) xs []"

definition py_sort :: "('k \<Rightarrow> 'k \<Rightarrow> bool result) \<Rightarrow> ('a \<Rightarrow> 'k) \<Rightarrow> bool \<Rightarrow> 'a list \<Rightarrow> 'a list result" where
  "py_sort lt key reverse xs =
     (if reverse then rbind (sort_by lt key (rev xs)) (\<lambda>ys. Inr (rev ys)) else sort_by lt key xs)"

section \<open>Sources\<close>

datatype 'b source =
    NoSource
  | ClosureSource "'b class_closure"
  | ScanSource node_store
  | IndexSource node_store "int list" string

definition empty_hooks :: "(unit, 'v batch) hooks" where
  "empty_hooks = \<lparr>hook_open = (\<lambda>ctx s. Some (Inr (), s)), hook_next = (\<lambda>s. Some (Inr None, s)), hook_close = (\<lambda>s. (Inr (), s))\<rparr>"

text \<open>The rows of the index lookup in the order of their identifiers; the state says whether it is done.\<close>

definition indexed_rows ::
  "'v table_lib \<Rightarrow> 'v query_lib \<Rightarrow> int list \<Rightarrow> string \<Rightarrow> 'v table \<Rightarrow> 'v table result" where
  "indexed_rows tb ql ids id_column t =
     (if ids = [] \<or> id_column \<notin> set (names (tschema t)) then Inr (tl_slice tb t 0 (Some 0))
      else
        rbind (table_column t id_column) (\<lambda>cs.
        rbind (ql_is_in ql cs ids) (\<lambda>mask.
        rbind (ql_filter ql t mask) (\<lambda>u.
        rbind (rmap (\<lambda>row. rbind (row_int row id_column) (\<lambda>i.
                 if i \<in> set ids then Inr (length (takeWhile (\<lambda>j. j \<noteq> i) ids), row) else Inl ValueError)) (table_pylist u)) (\<lambda>keyed.
        if keyed \<noteq> [] then ql_from_pylist ql (map snd (sort_key fst keyed)) (tschema u) else Inr (tl_slice tb u 0 (Some 0)))))))"

definition indexed_batch ::
  "'v arrow \<Rightarrow> 'v table_lib \<Rightarrow> 'v query_lib \<Rightarrow> fs \<Rightarrow> node_store \<Rightarrow> int list \<Rightarrow> string \<Rightarrow> string list \<Rightarrow> 'v batch result" where
  "indexed_batch ar tb ql fs store ids id_column columns =
     rbind (node_to_table ar fs store (Some (sort (remdups (id_column # columns)))) None) (\<lambda>t.
     rbind (indexed_rows tb ql (sort (remdups ids)) id_column t) (\<lambda>u.
     rbind (ql_select ql u columns) (\<lambda>w.
     rbind (table_to_batches ar w) (\<lambda>bs.
     case bs of [] \<Rightarrow> Inl IndexError | b # _ \<Rightarrow> Inr b))))"

definition indexed_hooks ::
  "'v arrow \<Rightarrow> 'v table_lib \<Rightarrow> 'v query_lib \<Rightarrow> fs \<Rightarrow> node_store \<Rightarrow> int list \<Rightarrow> string \<Rightarrow> string list \<Rightarrow> (bool, 'v batch) hooks" where
  "indexed_hooks ar tb ql fs store ids id_column columns = \<lparr>
     hook_open = (\<lambda>ctx s. Some (Inr (), s)),
     hook_next = (\<lambda>finished.
       if finished then Some (Inr None, True)
       else Some (rbind (indexed_batch ar tb ql fs store ids id_column columns) (\<lambda>b. Inr (Some b)), True)),
     hook_close = (\<lambda>s. (Inr (), s))\<rparr>"

text \<open>
  The source a plan asks for; the outer option is a subclass test that does not return. Looking a value up
  in an index may rebuild the index, which changes the files.
\<close>

definition build_source ::
  "'v arrow \<Rightarrow> ('v, 'f) graph_lib \<Rightarrow> 'v index_lib \<Rightarrow> 'b bitmaps \<Rightarrow> string \<Rightarrow> 'v graph_db \<Rightarrow> compiled_query
    \<Rightarrow> ('b source result \<times> 'v graph_db) option" where
  "build_source ar gl ix bm now db plan =
     (case cq_closure_base_iri plan of
        Some base \<Rightarrow>
          (case closure_from_catalog (db_catalog db) of
             Inl e \<Rightarrow> Some (Inl e, db)
           | Inr closure \<Rightarrow>
               (case is_subclass bm closure (cq_class_iri plan) base True of
                  (Inl e, _) \<Rightarrow> Some (Inl e, db)
                | (Inr None, _) \<Rightarrow> None
                | (Inr (Some b), closure') \<Rightarrow>
                    if \<not> b then Some (Inr NoSource, db)
                    else Some (rbind (closure_scan_init closure' (cq_class_iri plan)) (\<lambda>_. Inr (ClosureSource closure')), db)))
      | None \<Rightarrow>
          if cq_local_name plan \<notin> set (list_stores gl (db_fs db) (db_bundle db) ''nodes'') then Some (raise_code ''CDB-6023'', db)
          else
            (case fst (open_node_store (db_fs db) (db_bundle db) (cq_class_iri plan) (cq_local_name plan) False ''none'') of
               Inl e \<Rightarrow> Some (Inl e, db)
             | Inr store \<Rightarrow>
                 (case cq_index_lookup plan of
                    None \<Rightarrow> Some (Inr (ScanSource store), db)
                  | Some l \<Rightarrow>
                      (case rbind (load_property_index_manifest (db_fs db) (db_bundle db)) (\<lambda>metadata.
                            case map_of metadata (il_name l) of None \<Rightarrow> Inl KeyError | Some m \<Rightarrow> Inr m)
                       of
                         Inl e \<Rightarrow> Some (Inl e, db)
                       | Inr meta \<Rightarrow>
                           (case property_index_lookup_ids ar ix now db meta (il_value l) of
                              (Inl e, db1) \<Rightarrow> Some (Inl e, db1)
                            | (Inr ids, db1) \<Rightarrow>
                                Some (rbind (node_to_table ar (db_fs db1) store None None) (\<lambda>t.
                                  Inr (IndexSource store ids (property_index_id_column meta t))), db1))))))"

section \<open>The pipeline\<close>

definition column_predicate :: "'v query_lib \<Rightarrow> ('v batch, 'v array) expr_fn \<Rightarrow> 'v batch \<Rightarrow> mask result" where
  "column_predicate ql f b = rbind (f b) (ql_mask ql)"

text \<open>\<open>list(run_pipeline(op, ctx))\<close>: the batches, or the exception, when the pipeline ends.\<close>

definition collect_pipeline :: "('s, 'b) hooks \<Rightarrow> exec_ctx \<Rightarrow> 's \<Rightarrow> 'b list result option" where
  "collect_pipeline h ctx s = map_option (\<lambda>(bs, r, _). rbind r (\<lambda>_. Inr bs)) (run_pipeline h ctx (op_init s))"

text \<open>The filter and the projection a plan puts over a source, as far as it has them.\<close>

definition run_stages ::
  "'v arrow \<Rightarrow> 'v query_lib \<Rightarrow> ('v batch, 'v array) expr_fn option \<Rightarrow> (('v batch, 'v array) expr_fn \<times> string) list
    \<Rightarrow> exec_ctx \<Rightarrow> ('s, 'v batch) hooks \<Rightarrow> 's \<Rightarrow> 'v batch list result option" where
  "run_stages ar ql pred projections ctx h s =
     (case (pred, projections) of
        (None, []) \<Rightarrow> collect_pipeline h ctx s
      | (None, ps) \<Rightarrow> collect_pipeline (project_hooks ar ps h) ctx (op_init s)
      | (Some p, []) \<Rightarrow> collect_pipeline (filter_hooks ar (column_predicate ql p) h) ctx (op_init s)
      | (Some p, ps) \<Rightarrow>
          collect_pipeline (project_hooks ar ps (filter_hooks ar (column_predicate ql p) h)) ctx (op_init (op_init s)))"

definition run_source ::
  "'v arrow \<Rightarrow> 'v table_lib \<Rightarrow> 'v query_lib \<Rightarrow> 'b bitmaps \<Rightarrow> 'v graph_db \<Rightarrow> compiled_query \<Rightarrow> 'b source
    \<Rightarrow> ('v batch, 'v array) expr_fn option \<Rightarrow> (('v batch, 'v array) expr_fn \<times> string) list \<Rightarrow> exec_ctx
    \<Rightarrow> 'v batch list result option" where
  "run_source ar tb ql bm db plan src pred projections ctx =
     (case src of
        NoSource \<Rightarrow> collect_pipeline empty_hooks ctx ()
      | ClosureSource closure \<Rightarrow>
          run_stages ar ql pred projections ctx
            (closure_scan_hooks ar tb bm (db_fs db) (db_bundle db) (cq_class_iri plan) True (Some (cq_columns plan)))
            (None, closure)
      | ScanSource store \<Rightarrow>
          run_stages ar ql pred projections ctx (node_scan_hooks ar (db_fs db) store (Some (cq_columns plan)) None) None
      | IndexSource store ids id_column \<Rightarrow>
          run_stages ar ql pred projections ctx
            (indexed_hooks ar tb ql (db_fs db) store ids id_column (cq_columns plan)) False)"

text \<open>\<open>compile_expr\<close> of the predicate and of the projections; a source that is empty has neither.\<close>

definition compile_stages ::
  "'v query_lib \<Rightarrow> compiled_query \<Rightarrow> 'b source
    \<Rightarrow> (('v batch, 'v array) expr_fn option \<times> (('v batch, 'v array) expr_fn \<times> string) list) result" where
  "compile_stages ql plan src =
     (case src of
        NoSource \<Rightarrow> Inr (None, [])
      | _ \<Rightarrow>
          rbind (case cq_predicate plan of
                   None \<Rightarrow> Inr None
                 | Some e \<Rightarrow> rbind (compile_expr (ql_kernels ql) e) (\<lambda>f. Inr (Some f))) (\<lambda>pred.
          rbind (rmap (\<lambda>(e, n). rbind (compile_expr (ql_kernels ql) e) (\<lambda>f. Inr (f, n))) (cq_projections plan)) (\<lambda>ps.
          Inr (pred, ps))))"

definition apply_as_of :: "exec_ctx \<Rightarrow> snapshot_id option \<Rightarrow> exec_ctx" where
  "apply_as_of ctx snap =
     (case snap of
        None \<Rightarrow> ctx
      | Some s \<Rightarrow> ctx\<lparr>ctx_snapshot_id := Some (snapshot_str s),
                      ctx_metadata := AList.update ''snapshot_lsn'' (JInt (lsn_high s)) (ctx_metadata ctx)\<rparr>)"

definition default_ctx :: exec_ctx where
  "default_ctx = \<lparr>ctx_snapshot_id = None, ctx_seed = 0, ctx_batch_size = 65536, ctx_metadata = []\<rparr>"

definition run_plan ::
  "'v arrow \<Rightarrow> ('v, 'f) graph_lib \<Rightarrow> 'v table_lib \<Rightarrow> 'v query_lib \<Rightarrow> 'v index_lib \<Rightarrow> 'b bitmaps \<Rightarrow> string \<Rightarrow> 'v graph_db
    \<Rightarrow> compiled_query \<Rightarrow> ('v batch list result \<times> 'v graph_db) option" where
  "run_plan ar gl tb ql ix bm now db plan =
     (case build_source ar gl ix bm now db plan of
        None \<Rightarrow> None
      | Some (Inl e, db1) \<Rightarrow> Some (Inl e, db1)
      | Some (Inr src, db1) \<Rightarrow>
          (case compile_stages ql plan src of
             Inl e \<Rightarrow> Some (Inl e, db1)
           | Inr (pred, ps) \<Rightarrow>
               map_option (\<lambda>r. (r, db1))
                 (run_source ar tb ql bm db1 plan src pred ps (apply_as_of default_ctx (cq_snapshot plan)))))"

section \<open>Modifiers\<close>

definition order_column_name :: "expr \<Rightarrow> 'v table \<Rightarrow> string result" where
  "order_column_name e t =
     (let nm = (case e of
          Var (Some n) \<Rightarrow> id_name n
        | PathExpr (Some r) [s] \<Rightarrow>
            (let dotted = id_name r @ ''.'' @ id_name s in if dotted \<in> set (names (tschema t)) then dotted else id_name s)
        | _ \<Rightarrow> default_alias e)
      in if nm \<notin> set (names (tschema t)) then raise_code ''CDB-6020'' else Inr nm)"

text \<open>One round of the loop over the sort keys, from the last to the first.\<close>

definition order_rows :: "'v query_lib \<Rightarrow> 'v table \<Rightarrow> expr order_item \<Rightarrow> 'v row list \<Rightarrow> 'v row list result" where
  "order_rows ql t item rows =
     rbind (order_column_name (oi_expr item) t) (\<lambda>column.
     py_sort (ql_less ql) (\<lambda>row. row_get row column) (oi_descending item) rows)"

definition apply_modifiers ::
  "'v arrow \<Rightarrow> 'v table_lib \<Rightarrow> 'v query_lib \<Rightarrow> 'v batch list \<Rightarrow> expr order_item list \<times> expr option \<times> expr option
    \<Rightarrow> 'v batch list result" where
  "apply_modifiers ar tb ql batches mods =
     (if batches = [] then Inr batches
      else
        (case mods of (order_by, skip, limit) \<Rightarrow>
           rbind (pa_from_batches ar batches None) (\<lambda>t.
           rbind (if order_by = [] then Inr t
                  else rbind (rfold (order_rows ql t) (rev order_by) (table_pylist t)) (\<lambda>rows.
                       if rows \<noteq> [] then ql_from_pylist ql rows (tschema t) else Inr (tl_slice tb t 0 (Some 0)))) (\<lambda>t1.
           rbind (case skip of None \<Rightarrow> Inr t1 | Some e \<Rightarrow> rbind (eval_int_literal e) (\<lambda>k. Inr (tl_slice tb t1 k None))) (\<lambda>t2.
           rbind (case limit of None \<Rightarrow> Inr t2 | Some e \<Rightarrow> rbind (eval_int_literal e) (\<lambda>k. Inr (tl_slice tb t2 0 (Some k)))) (\<lambda>t3.
           table_to_batches ar t3))))))"

definition run_query ::
  "'v arrow \<Rightarrow> ('v, 'f) graph_lib \<Rightarrow> 'v table_lib \<Rightarrow> 'v query_lib \<Rightarrow> 'v index_lib \<Rightarrow> 'b bitmaps \<Rightarrow> string \<Rightarrow> 'v graph_db
    \<Rightarrow> expr query \<Rightarrow> ('v batch list result \<times> 'v graph_db) option" where
  "run_query ar gl tb ql ix bm now db q =
     (case compile_query q db of
        Inl e \<Rightarrow> Some (Inl e, db)
      | Inr plan \<Rightarrow>
          map_option (\<lambda>(r, db1). (rbind r (\<lambda>bs. apply_modifiers ar tb ql bs (query_modifiers q)), db1))
            (run_plan ar gl tb ql ix bm now db plan))"

end
