(* ===== verification/Query_Eval.thy ===== *)
theory Query_Eval
  imports Query_Run Relational_Theorems
begin

text \<open>
  Expressions row by row: a reference evaluator, the documented behaviour of the kernels the compiled
  expressions call (each works on every row by itself), and the agreement of both.
\<close>

section \<open>The reference evaluator\<close>

text \<open>What the kernels do with the cells of one row, and which cells a mask selects.\<close>

record 'v cell_ops =
  co_literal :: "py_obj \<Rightarrow> 'v cell"
  co_compare :: "string \<Rightarrow> 'v cell \<Rightarrow> 'v cell \<Rightarrow> 'v cell"
  co_logic :: "string \<Rightarrow> 'v cell \<Rightarrow> 'v cell \<Rightarrow> 'v cell"
  co_invert :: "'v cell \<Rightarrow> 'v cell"
  co_is_in :: "py_obj list \<Rightarrow> 'v cell \<Rightarrow> 'v cell"
  co_call1 :: "int \<Rightarrow> 'v cell \<Rightarrow> 'v cell"
  co_call2 :: "int \<Rightarrow> 'v cell \<Rightarrow> 'v cell \<Rightarrow> 'v cell"
  co_truth :: "'v cell \<Rightarrow> bool option"

type_synonym 'v env = "string \<rightharpoonup> 'v cell"

fun eval_row :: "'v cell_ops \<Rightarrow> 'v env \<Rightarrow> py_obj \<Rightarrow> 'v cell" where
  "eval_row co env (PyTuple (PyStr h # args)) =
     (if h = ''col'' then (case args of [PyStr n] \<Rightarrow> the (env n) | _ \<Rightarrow> CNull)
      else if h = ''lit'' then (case args of [v] \<Rightarrow> co_literal co v | _ \<Rightarrow> CNull)
      else if h \<in> set bin_ops then
        (case args of [l, r] \<Rightarrow> co_compare co h (eval_row co env l) (eval_row co env r) | _ \<Rightarrow> CNull)
      else if h \<in> {''and'', ''or''} then
        (case args of [l, r] \<Rightarrow> co_logic co h (eval_row co env l) (eval_row co env r) | _ \<Rightarrow> CNull)
      else if h = ''not'' then (case args of [e] \<Rightarrow> co_invert co (eval_row co env e) | _ \<Rightarrow> CNull)
      else if h = ''py_unary'' then (case args of [PyFn k, e] \<Rightarrow> co_call1 co k (eval_row co env e) | _ \<Rightarrow> CNull)
      else if h = ''py_binary'' then
        (case args of [PyFn k, l, r] \<Rightarrow> co_call2 co k (eval_row co env l) (eval_row co env r) | _ \<Rightarrow> CNull)
      else if h = ''in'' then
        (case args of
           [l, s] \<Rightarrow> (case member_set s of Inr vs \<Rightarrow> co_is_in co vs (eval_row co env l) | Inl _ \<Rightarrow> CNull)
         | _ \<Rightarrow> CNull)
      else CNull)"
| "eval_row co env _ = CNull"

definition holds :: "'v cell_ops \<Rightarrow> 'v env \<Rightarrow> py_obj \<Rightarrow> bool" where
  "holds co env e \<longleftrightarrow> co_truth co (eval_row co env e) = Some True"

text \<open>The rows of a batch by the names of its columns.\<close>

definition batch_rows :: "'v batch \<Rightarrow> 'v env list" where
  "batch_rows b = map (\<lambda>r. map_of (zip (names (bschema b)) r)) (tuples b)"

lemma length_batch_rows [simp]: "length (batch_rows b) = brows b"
  by (simp add: batch_rows_def)

section \<open>Kernels\<close>

text \<open>
  A kernel that returns works on every row by itself; it may raise, on types it does not support. A
  table combined to one batch, or made of rows, has the same rows.
\<close>

locale query_laws = table_laws ar tb val_order for ar :: "'v arrow" and tb val_order +
  fixes ql :: "'v query_lib" and co :: "'v cell_ops"
  assumes kernel_column: "ar_column (ql_kernels ql) b n = Inr a \<Longrightarrow> batch_ok b \<Longrightarrow> distinct (names (bschema b)) \<Longrightarrow>
      n \<in> set (names (bschema b)) \<and> a = col b n"
    and kernel_rows: "ar_num_rows (ql_kernels ql) b = brows b"
    and kernel_repeat: "ar_scalar (ql_kernels ql) v = Inr s \<Longrightarrow> ar_repeat (ql_kernels ql) s len = Inr a \<Longrightarrow>
      cells a = replicate len (co_literal co v)"
    and kernel_compare: "ar_compare (ql_kernels ql) h x y = Inr a \<Longrightarrow> length (cells x) = length (cells y) \<Longrightarrow>
      cells a = map2 (co_compare co h) (cells x) (cells y)"
    and kernel_logic: "ar_logic (ql_kernels ql) h x y = Inr a \<Longrightarrow> length (cells x) = length (cells y) \<Longrightarrow>
      cells a = map2 (co_logic co h) (cells x) (cells y)"
    and kernel_invert: "ar_invert (ql_kernels ql) x = Inr a \<Longrightarrow> cells a = map (co_invert co) (cells x)"
    and kernel_is_in: "ar_is_in (ql_kernels ql) vs = Inr f \<Longrightarrow> f x = Inr a \<Longrightarrow> cells a = map (co_is_in co vs) (cells x)"
    and kernel_call1: "ar_call1 (ql_kernels ql) k x = Inr a \<Longrightarrow> cells a = map (co_call1 co k) (cells x)"
    and kernel_call2: "ar_call2 (ql_kernels ql) k x y = Inr a \<Longrightarrow> length (cells x) = length (cells y) \<Longrightarrow>
      cells a = map2 (co_call2 co k) (cells x) (cells y)"
    and mask_cells: "ql_mask ql a = Inr m \<Longrightarrow> m = map (co_truth co) (cells a)"
    and combine_rows: "table_ok t \<Longrightarrow> 0 < table_rows t \<Longrightarrow>
      \<exists>b. pa_combine ar t = Inr [b] \<and> batch_ok b \<and> bschema b = tschema t \<and> tuples b = table_tuples t"
    and from_rows: "distinct (names sch) \<Longrightarrow> \<forall>r \<in> set rs. length r = length sch \<Longrightarrow>
      \<exists>t. ql_from_pylist ql (map (zip (names sch)) rs) sch = Inr t \<and> table_ok t \<and> tschema t = sch \<and> table_tuples t = rs"
begin

lemma batch_rows_col:
  assumes "batch_ok b" "distinct (names (bschema b))" "n \<in> set (names (bschema b))"
  shows "map (\<lambda>env. the (env n)) (batch_rows b) = cells (col b n)"
proof -
  obtain j where j: "j < length (bschema b)" "n = names (bschema b) ! j"
    using assms(3) by (auto simp: in_set_conv_nth)
  have len: "length (bcols b) = length (bschema b)" by (rule batch_ok_length [OF assms(1)])
  have at: "the (map_of (zip (names (bschema b)) r) n) = r ! j" if "r \<in> set (tuples b)" for r
    using map_of_zip_nth [of "names (bschema b)" r j] tuples_width [OF that] len j assms(2) by (simp del: nth_map)
  have "map (\<lambda>env. the (env n)) (batch_rows b) = map (\<lambda>r. r ! j) (tuples b)"
    by (simp add: batch_rows_def at comp_def)
  also have "\<dots> = cells (bcols b ! j)" using batch_column [OF assms(1)] j len by simp
  also have "bcols b ! j = col b n" using col_nth [OF assms(1,2) j(1)] j(2) by simp
  finally show ?thesis .
qed

lemma map2_rows: "map2 f (map g xs) (map h xs) = map (\<lambda>x. f (g x) (h x)) xs"
  by (induction xs) simp_all

lemma apply1_cells:
  assumes "apply1 f1 f b = Inr a" "\<And>x. f1 x = Inr a \<Longrightarrow> cells a = map g (cells x)"
    "\<And>x. f b = Inr x \<Longrightarrow> cells x = map u rows"
  shows "cells a = map (\<lambda>r. g (u r)) rows"
  using assms by (auto simp: apply1_def rbind_Inr_iff)

lemma apply2_cells:
  assumes "apply2 f2 f g b = Inr a"
    "\<And>x y. f2 x y = Inr a \<Longrightarrow> length (cells x) = length (cells y) \<Longrightarrow> cells a = map2 k (cells x) (cells y)"
    "\<And>x. f b = Inr x \<Longrightarrow> cells x = map u rows" "\<And>y. g b = Inr y \<Longrightarrow> cells y = map v rows"
  shows "cells a = map (\<lambda>r. k (u r) (v r)) rows"
proof -
  obtain x y where xy: "f b = Inr x" "g b = Inr y" "f2 x y = Inr a"
    using assms(1) by (auto simp: apply2_def rbind_Inr_iff)
  then have "cells x = map u rows" "cells y = map v rows" using assms(3,4) by simp_all
  with assms(2) [OF xy(3)] show ?thesis by (simp add: map2_rows)
qed

text \<open>The evaluator of the code on a batch is the reference evaluator on its rows.\<close>

lemma compile_expr_rows:
  assumes "compile_expr (ql_kernels ql) e = Inr f" "f b = Inr a" "batch_ok b" "distinct (names (bschema b))"
  shows "cells a = map (\<lambda>env. eval_row co env e) (batch_rows b)"
  using assms(1,2)
proof (induction "size e" arbitrary: e f a rule: less_induct)
  case less
  let ?rows = "batch_rows b"
  from less.prems(1) obtain h args where e: "e = PyTuple (PyStr h # args)"
    by (cases "(ql_kernels ql, e)" rule: compile_expr.cases) (auto split: if_splits)
  have sub: "cells x = map (\<lambda>env. eval_row co env y) ?rows"
    if "compile_expr (ql_kernels ql) y = Inr g" "y \<in> set args" "g b = Inr x" for g x y
  proof (rule less.hyps [OF _ that(1,3)])
    have "size y < Suc (size_list size args)"
      using size_list_estimation' [OF that(2), of "size y" size] by simp
    then show "size y < size e" by (simp add: e)
  qed
  consider "h = ''col''" | "h = ''lit''" | "h \<in> set bin_ops" "h \<noteq> ''col''" "h \<noteq> ''lit''" | "h \<in> {''and'', ''or''}"
    | "h = ''not''" | "h = ''py_unary''" | "h = ''py_binary''" | "h = ''in''"
    using less.prems(1) e by (auto split: if_splits)
  then show ?case
  proof cases
    case 1
    with less.prems e obtain n where "args = [PyStr n]" "ar_column (ql_kernels ql) b n = Inr a"
      by (auto split: list.splits py_obj.splits)
    with 1 kernel_column [OF this(2) assms(3,4)] show ?thesis
      by (simp add: e batch_rows_col [OF assms(3,4), symmetric])
  next
    case 2
    with less.prems e show ?thesis
      by (auto simp: rbind_Inr_iff kernel_rows map_replicate_const dest!: kernel_repeat split: list.splits)
  next
    case 3
    with less.prems obtain l r f1 f2 where c: "args = [l, r]" "compile_expr (ql_kernels ql) l = Inr f1"
      "compile_expr (ql_kernels ql) r = Inr f2" "apply2 (ar_compare (ql_kernels ql) h) f1 f2 b = Inr a"
      by (auto simp: e rbind_Inr_iff split: list.splits)
    from apply2_cells [OF c(4) kernel_compare sub [OF c(2)] sub [OF c(3)]] 3 show ?thesis by (simp add: e c(1))
  next
    case 4
    with less.prems obtain l r f1 f2 where c: "args = [l, r]" "compile_expr (ql_kernels ql) l = Inr f1"
      "compile_expr (ql_kernels ql) r = Inr f2" "apply2 (ar_logic (ql_kernels ql) h) f1 f2 b = Inr a"
      by (auto simp: e rbind_Inr_iff bin_ops_def split: list.splits)
    from apply2_cells [OF c(4) kernel_logic sub [OF c(2)] sub [OF c(3)]] 4 show ?thesis
      by (auto simp: e c(1) bin_ops_def)
  next
    case 5
    with less.prems obtain x f1 where c: "args = [x]" "compile_expr (ql_kernels ql) x = Inr f1"
      "apply1 (ar_invert (ql_kernels ql)) f1 b = Inr a"
      by (auto simp: e rbind_Inr_iff bin_ops_def split: list.splits)
    from apply1_cells [OF c(3) kernel_invert sub [OF c(2)]] 5 show ?thesis by (simp add: e c(1) bin_ops_def)
  next
    case 6
    with less.prems obtain k x f1 where c: "args = [PyFn k, x]" "compile_expr (ql_kernels ql) x = Inr f1"
      "apply1 (ar_call1 (ql_kernels ql) k) f1 b = Inr a"
      by (auto simp: e rbind_Inr_iff bin_ops_def split: list.splits py_obj.splits)
    from apply1_cells [OF c(3) kernel_call1 sub [OF c(2)]] 6 show ?thesis by (simp add: e c(1) bin_ops_def)
  next
    case 7
    with less.prems obtain k l r f1 f2 where c: "args = [PyFn k, l, r]" "compile_expr (ql_kernels ql) l = Inr f1"
      "compile_expr (ql_kernels ql) r = Inr f2" "apply2 (ar_call2 (ql_kernels ql) k) f1 f2 b = Inr a"
      by (auto simp: e rbind_Inr_iff bin_ops_def split: list.splits py_obj.splits)
    from apply2_cells [OF c(4) kernel_call2 sub [OF c(2)] sub [OF c(3)]] 7 show ?thesis
      by (simp add: e c(1) bin_ops_def)
  next
    case 8
    with less.prems obtain x s f1 vs g where c: "args = [x, s]" "compile_expr (ql_kernels ql) x = Inr f1"
      "member_set s = Inr vs" "ar_is_in (ql_kernels ql) vs = Inr g" "apply1 g f1 b = Inr a"
      by (auto simp: e rbind_Inr_iff bin_ops_def split: list.splits)
    from apply1_cells [OF c(5) kernel_is_in [OF c(4)] sub [OF c(2)]] 8 c(3) show ?thesis
      by (simp add: e c(1) bin_ops_def)
  qed
qed

end

end
