(* ===== verification/Query_Theorems.thy ===== *)
theory Query_Theorems
  imports Query_Eval
begin

text \<open>
  What a query with one node pattern returns: the pipeline over a scan delivers the rows a reference
  evaluation selects and projects, and the modifiers order and cut them.
\<close>

section \<open>The reference\<close>

definition query_rows ::
  "'v cell_ops \<Rightarrow> py_obj option \<Rightarrow> (py_obj \<times> string) list \<Rightarrow> 'v env list \<Rightarrow> 'v cell list list" where
  "query_rows co pred projs rows =
     map (\<lambda>env. map (\<lambda>(e, n). eval_row co env e) projs)
       (filter (\<lambda>env. case pred of None \<Rightarrow> True | Some p \<Rightarrow> holds co env p) rows)"

text \<open>Filtering and projecting one batch; the kernels may raise.\<close>

definition query_batch ::
  "'v arrow \<Rightarrow> 'v query_lib \<Rightarrow> ('v batch, 'v array) expr_fn option \<Rightarrow> (('v batch, 'v array) expr_fn \<times> string) list
    \<Rightarrow> 'v batch \<Rightarrow> 'v batch option result" where
  "query_batch ar ql pred ps b =
     rbind (case pred of None \<Rightarrow> Inr (Some b) | Some f \<Rightarrow> filter_batch ar (column_predicate ql f) b) (\<lambda>r.
     case r of None \<Rightarrow> Inr None | Some b' \<Rightarrow> project_batch ar ps b')"

text \<open>The order, and what \<open>SKIP\<close> and \<open>LIMIT\<close> leave.\<close>

definition order_step :: "'v query_lib \<Rightarrow> schema \<Rightarrow> expr order_item \<Rightarrow> 'v cell list list \<Rightarrow> 'v cell list list result" where
  "order_step ql s item rs =
     rbind (order_column_name (oi_expr item) (\<lparr>tschema = s, tbatches = []\<rparr> :: 'v table)) (\<lambda>column.
     py_sort (ql_less ql) (\<lambda>r. the (map_of (zip (names s) r) column)) (oi_descending item) rs)"

definition order_tuples ::
  "'v query_lib \<Rightarrow> schema \<Rightarrow> expr order_item list \<Rightarrow> 'v cell list list \<Rightarrow> 'v cell list list result" where
  "order_tuples ql s order_by rows =
     rfold (order_step ql s) (rev order_by) rows"

definition skip_rows :: "expr option \<Rightarrow> 'a list \<Rightarrow> 'a list result" where
  "skip_rows e rows = (case e of None \<Rightarrow> Inr rows | Some x \<Rightarrow> rbind (eval_int_literal x) (\<lambda>k. Inr (drop (nat k) rows)))"

definition limit_rows :: "expr option \<Rightarrow> 'a list \<Rightarrow> 'a list result" where
  "limit_rows e rows = (case e of None \<Rightarrow> Inr rows | Some x \<Rightarrow> rbind (eval_int_literal x) (\<lambda>k. Inr (take (nat k) rows)))"

definition modified_rows ::
  "'v query_lib \<Rightarrow> schema \<Rightarrow> expr order_item list \<times> expr option \<times> expr option \<Rightarrow> 'v cell list list
    \<Rightarrow> 'v cell list list result" where
  "modified_rows ql s mods rows =
     (case mods of (order_by, skip, limit) \<Rightarrow>
        rbind (order_tuples ql s order_by rows) (\<lambda>rs. rbind (skip_rows skip rs) (limit_rows limit)))"

text \<open>The grammar has no negative literals.\<close>

definition counts_ok :: "expr order_item list \<times> expr option \<times> expr option \<Rightarrow> bool" where
  "counts_ok mods \<longleftrightarrow>
     (\<forall>e \<in> {fst (snd mods), snd (snd mods)}. \<forall>x k. e = Some x \<longrightarrow> eval_int_literal x = Inr k \<longrightarrow> 0 \<le> k)"

lemma query_rows_append: "query_rows co pred projs (xs @ ys) = query_rows co pred projs xs @ query_rows co pred projs ys"
  by (simp add: query_rows_def)

section \<open>The pipeline\<close>

lemma tuples_keep_rows:
  assumes "batch_ok b" "length m = brows b"
  shows "tuples (keep_rows b m) = keep m (tuples b)"
proof (rule nth_equalityI)
  show len: "length (tuples (keep_rows b m)) = length (keep m (tuples b))"
    using assms(2) by (simp add: keep_rows_def length_keep)
  fix i assume i: "i < length (tuples (keep_rows b m))"
  have "cells (bcols (keep_rows b m) ! j) ! i = keep m (tuples b) ! i ! j" if "j < length (bcols b)" for j
  proof -
    have "cells (bcols (keep_rows b m) ! j) = keep m (map (\<lambda>r. r ! j) (tuples b))"
      using that batch_column [OF assms(1) that] by (simp add: keep_rows_def)
    then show ?thesis using i len by (simp add: keep_map)
  qed
  moreover have "length (keep m (tuples b) ! i) = length (bcols b)"
  proof -
    have "keep m (tuples b) ! i \<in> set (keep m (tuples b))" using i len by simp
    then have "keep m (tuples b) ! i \<in> set (tuples b)" by (auto simp: keep_def dest: set_zip_rightD)
    then show ?thesis by (rule tuples_width)
  qed
  ultimately show "tuples (keep_rows b m) ! i = keep m (tuples b) ! i"
    using i by (intro nth_equalityI) (simp_all add: tuples_def keep_rows_def)
qed

lemma batch_rows_keep:
  "batch_ok b \<Longrightarrow> length m = brows b \<Longrightarrow> batch_rows (keep_rows b m) = keep m (batch_rows b)"
  using tuples_keep_rows [of b m] by (simp add: batch_rows_def keep_map) (simp add: keep_rows_def)

lemma keep_truth: "keep (map g xs) xs = filter (\<lambda>x. g x = Some True) xs"
  by (induction xs) (auto simp: keep_def)

context query_laws
begin

lemma filter_batch_rows:
  assumes e: "compile_expr (ql_kernels ql) e = Inr f" and b: "batch_ok b" "distinct (names (bschema b))"
    and r: "filter_batch ar (column_predicate ql f) b = Inr r"
  shows "case r of
      None \<Rightarrow> filter (\<lambda>env. holds co env e) (batch_rows b) = []
    | Some b' \<Rightarrow> batch_ok b' \<and> bschema b' = bschema b \<and> batch_rows b' = filter (\<lambda>env. holds co env e) (batch_rows b)"
proof -
  obtain a m u where am: "f b = Inr a" "ql_mask ql a = Inr m" "pa_filter ar b m = Inr u"
    and r': "r = (if brows u > 0 then Some u else None)"
    using r by (auto simp: filter_batch_def column_predicate_def rbind_Inr_iff)
  have m: "m = map (\<lambda>env. co_truth co (eval_row co env e)) (batch_rows b)"
    using mask_cells [OF am(2)] compile_expr_rows [OF e am(1) b] by simp
  then have len: "length m = brows b" by simp
  have u: "u = keep_rows b m" using filter_rows [OF b(1) len] am(3) by simp
  have rows: "batch_rows u = filter (\<lambda>env. holds co env e) (batch_rows b)"
    by (simp add: u batch_rows_keep [OF b(1) len]) (simp add: m keep_truth holds_def)
  moreover have "batch_rows u = [] \<longleftrightarrow> brows u = 0" by (metis length_batch_rows length_0_conv)
  ultimately show ?thesis
    using keep_rows_ok [OF b(1) len] by (auto simp: r' u keep_rows_def)
qed

lemma project_batch_rows:
  assumes ps: "rmap (\<lambda>(e, n). rbind (compile_expr (ql_kernels ql) e) (\<lambda>f. Inr (f, n))) projs = Inr ps" and ne: "projs \<noteq> []"
    and b: "batch_ok b" "distinct (names (bschema b))" and r: "project_batch ar ps b = Inr r"
  shows "\<exists>b'. r = Some b' \<and> batch_ok b' \<and> names (bschema b') = map snd projs
    \<and> tuples b' = map (\<lambda>env. map (\<lambda>(e, n). eval_row co env e) projs) (batch_rows b)"
proof -
  obtain as b' where as: "rmap (\<lambda>(fn, _). fn b) ps = Inr as" "pa_from_arrays ar as (map snd ps) = Inr b'" "r = Some b'"
    using r by (auto simp: project_batch_def rbind_Inr_iff)
  have cols: "map snd ps = map snd projs \<and> list_all2 (\<lambda>(e, n) a. cells a = map (\<lambda>env. eval_row co env e) (batch_rows b)) projs as"
    using ps as(1)
  proof (induction projs arbitrary: ps as)
    case (Cons p projs)
    then show ?case
      by (auto simp: rbind_Inr_iff case_prod_unfold dest: compile_expr_rows [OF _ _ b])
  qed simp
  then have len: "length as = length projs" by (auto dest: list_all2_lengthD)
  have cell: "cells (as ! j) = map (\<lambda>env. eval_row co env (fst (projs ! j))) (batch_rows b)" if "j < length projs" for j
    using cols that by (auto dest: list_all2_nthD simp: case_prod_unfold)
  then have all: "\<forall>a \<in> set as. length (cells a) = brows b" by (auto simp: in_set_conv_nth len)
  have "as \<noteq> []" using ne len by auto
  from from_arrays [OF this _ all, of "map snd ps"] as(2) cols len
  have b': "b' = \<lparr>bschema = map2 (\<lambda>x a. \<lparr>fld_name = x, fld_type = arr_type a, fld_nullable = True\<rparr>) (map snd projs) as,
        bcols = as, brows = brows b\<rparr>" by simp
  have "batch_ok b'" using all by (auto simp: b' batch_ok_def len intro!: nth_equalityI)
  moreover have "names (bschema b') = map snd projs" by (auto simp: b' len intro!: nth_equalityI)
  moreover have "tuples b' = map (\<lambda>env. map (\<lambda>(e, n). eval_row co env e) projs) (batch_rows b)"
    using cell by (auto simp: b' tuples_def len case_prod_unfold intro!: nth_equalityI)
  ultimately show ?thesis using as(3) by blast
qed

lemma query_batch_rows:
  assumes ps: "rmap (\<lambda>(e, n). rbind (compile_expr (ql_kernels ql) e) (\<lambda>f. Inr (f, n))) projs = Inr ps" and ne: "projs \<noteq> []"
    and f: "case pred of None \<Rightarrow> pf = None | Some e \<Rightarrow> \<exists>f. pf = Some f \<and> compile_expr (ql_kernels ql) e = Inr f"
    and b: "batch_ok b" "distinct (names (bschema b))" and r: "query_batch ar ql pf ps b = Inr r"
  shows "concat (map tuples (somes [r])) = query_rows co pred projs (batch_rows b)
    \<and> (\<forall>b' \<in> set (somes [r]). batch_ok b' \<and> names (bschema b') = map snd projs)"
proof (cases pred)
  case None
  with f r project_batch_rows [OF ps ne b] show ?thesis by (auto simp: query_batch_def query_rows_def)
next
  case (Some e)
  with f obtain g where g: "pf = Some g" "compile_expr (ql_kernels ql) e = Inr g" by auto
  with r obtain u where u: "filter_batch ar (column_predicate ql g) b = Inr u"
    "(case u of None \<Rightarrow> Inr None | Some b' \<Rightarrow> project_batch ar ps b') = Inr r"
    by (auto simp: query_batch_def rbind_Inr_iff)
  note fil = filter_batch_rows [OF g(2) b u(1)]
  show ?thesis
  proof (cases u)
    case None
    with u(2) fil show ?thesis by (simp add: query_rows_def Some)
  next
    case (Some b')
    with fil have b': "batch_ok b'" "bschema b' = bschema b" "batch_rows b' = filter (\<lambda>env. holds co env e) (batch_rows b)"
      by simp_all
    then have "distinct (names (bschema b'))" using b(2) by simp
    from project_batch_rows [OF ps ne b'(1) this] u(2) Some \<open>pred = Some e\<close> b'(3) show ?thesis
      by (auto simp: query_rows_def)
  qed
qed

lemma query_batches_rows:
  assumes "rmap (\<lambda>(e, n). rbind (compile_expr (ql_kernels ql) e) (\<lambda>f. Inr (f, n))) projs = Inr ps" "projs \<noteq> []"
    "case pred of None \<Rightarrow> pf = None | Some e \<Rightarrow> \<exists>f. pf = Some f \<and> compile_expr (ql_kernels ql) e = Inr f"
    "\<forall>b \<in> set bs. batch_ok b \<and> distinct (names (bschema b))" "rmap (query_batch ar ql pf ps) bs = Inr outs"
  shows "concat (map tuples (somes outs)) = query_rows co pred projs (concat (map batch_rows bs))
    \<and> (\<forall>b' \<in> set (somes outs). batch_ok b' \<and> names (bschema b') = map snd projs)"
  using assms(4,5)
proof (induction bs arbitrary: outs)
  case (Cons b bs)
  then obtain r outs' where o: "query_batch ar ql pf ps b = Inr r" "rmap (query_batch ar ql pf ps) bs = Inr outs'" "outs = r # outs'"
    by (auto simp: rbind_Inr_iff)
  have "somes outs = somes [r] @ somes outs'" by (cases r) (simp_all add: o(3))
  moreover from Cons.prems(1) have "batch_ok b" "distinct (names (bschema b))" by simp_all
  note query_batch_rows [OF assms(1-3) this o(1)]
  moreover from Cons.prems(1) have "\<forall>b \<in> set bs. batch_ok b \<and> distinct (names (bschema b))" by simp
  note Cons.IH [OF this o(2)]
  ultimately show ?case by (auto simp: query_rows_append)
qed (simp add: query_rows_def)

end

section \<open>Running\<close>

lemma rmap_split:
  assumes "rmap (\<lambda>b. rbind (f b) (\<lambda>r. case r of None \<Rightarrow> Inr None | Some b' \<Rightarrow> g b')) bs = Inr outs"
  shows "\<exists>os qs. rmap f bs = Inr os \<and> rmap g (somes os) = Inr qs \<and> somes qs = somes outs"
  using assms
proof (induction bs arbitrary: outs)
  case (Cons b bs)
  then obtain r q outs' where o: "f b = Inr r" "(case r of None \<Rightarrow> Inr None | Some b' \<Rightarrow> g b') = Inr q"
    "rmap (\<lambda>b. rbind (f b) (\<lambda>r. case r of None \<Rightarrow> Inr None | Some b' \<Rightarrow> g b')) bs = Inr outs'" "outs = q # outs'"
    by (auto simp: rbind_Inr_iff)
  from Cons.IH [OF o(3)] obtain os qs where I: "rmap f bs = Inr os" "rmap g (somes os) = Inr qs" "somes qs = somes outs'"
    by blast
  show ?case
  proof (cases r)
    case None
    then show ?thesis using o I by (intro exI [of _ "r # os"] exI [of _ qs]) simp
  next
    case (Some b')
    then show ?thesis using o I
      by (intro exI [of _ "r # os"] exI [of _ "q # qs"]) (cases q; simp)
  qed
qed simp

lemma somes_map_Some: "somes (map Some xs) = xs"
  by (induction xs) simp_all

lemma open_pass:
  "op_open h ctx (op_init s) = Some (Inr (), running s1) \<Longrightarrow>
     op_open (pass_hooks f h) ctx (op_init (op_init s)) = Some (Inr (), running (running s1))"
  unfolding op_open_def [of "pass_hooks f h"] by (simp add: pass_hooks_def) (simp add: op_init_def)

lemma close_pass:
  "op_close h st = (Inr (), z) \<Longrightarrow> op_close (pass_hooks f h) (running st) = (Inr (), (running z)\<lparr>closed := True\<rparr>)"
  unfolding op_close_def [of "pass_hooks f h"] by (simp add: pass_hooks_def)

text \<open>Over a source that ends, the stages deliver batch by batch what \<^const>\<open>query_batch\<close> says.\<close>

lemma run_stages_delivers:
  assumes h: "op_open h ctx (op_init s) = Some (Inr (), running s1)" "drains h (running s1) bs (running s2)"
    "op_close h (running s2) = (Inr (), z)"
    and outs: "rmap (query_batch ar ql pf ps) bs = Inr outs" and ne: "ps \<noteq> []"
  shows "run_stages ar ql pf ps ctx h s = Some (Inr (somes outs))"
proof (cases pf)
  case None
  then have "query_batch ar ql pf ps = project_batch ar ps" by (auto simp: query_batch_def)
  with outs have r: "rmap (project_batch ar ps) bs = Inr outs" by simp
  from run_pipeline_drains [OF open_pass [OF h(1)] pass_drains [OF h(2) r] close_pass [OF h(3)]] None ne show ?thesis
    by (auto simp: run_stages_def collect_pipeline_def project_hooks_def split: list.splits)
next
  case (Some f)
  with outs have "rmap (\<lambda>b. rbind (filter_batch ar (column_predicate ql f) b)
      (\<lambda>r. case r of None \<Rightarrow> Inr None | Some b' \<Rightarrow> project_batch ar ps b')) bs = Inr outs"
    by (simp add: query_batch_def [abs_def])
  from rmap_split [OF this] obtain os qs where
    r: "rmap (filter_batch ar (column_predicate ql f)) bs = Inr os" "rmap (project_batch ar ps) (somes os) = Inr qs"
    "somes qs = somes outs" by blast
  from run_pipeline_drains [OF open_pass [OF open_pass [OF h(1)]] pass_drains [OF pass_drains [OF h(2) r(1)] r(2)]
      close_pass [OF close_pass [OF h(3)]]] Some ne r(3) show ?thesis
    by (auto simp: run_stages_def collect_pipeline_def project_hooks_def filter_hooks_def split: list.splits)
qed

lemma as_of_lsn: "metadata_lsn (apply_as_of default_ctx snap) = Inr (map_option lsn_high snap)"
  by (cases snap) (simp_all add: metadata_lsn_def apply_as_of_def default_ctx_def)

lemma run_stages_scan:
  assumes "node_scan ar fs store columns (map_option lsn_high snap) = Inr bs" "rmap (query_batch ar ql pf ps) bs = Inr outs" "ps \<noteq> []"
  shows "run_stages ar ql pf ps (apply_as_of default_ctx snap) (node_scan_hooks ar fs store columns None) None
    = Some (Inr (somes outs))"
proof -
  let ?h = "node_scan_hooks ar fs store columns None" and ?lsn = "map_option lsn_high snap"
  have "rmap (node_scan_batch ar None) bs = Inr (map Some bs)"
    using rmap_Inr_all [of bs "node_scan_batch ar None" "\<lambda>b. b" Some] by (simp add: node_scan_batch_def)
  from node_scan_drains [OF assms(1) this] obtain it where
    d: "drains ?h (running (Some (?lsn, ([], nm_chunks (ns_manifest store))))) bs (running (Some (?lsn, it)))"
    by (auto simp: somes_map_Some)
  have o: "op_open ?h (apply_as_of default_ctx snap) (op_init None)
      = Some (Inr (), running (Some (?lsn, ([], nm_chunks (ns_manifest store)))))"
    by (simp add: op_open_def op_init_def node_scan_hooks_def node_scan_open_def as_of_lsn)
  show ?thesis
    by (rule run_stages_delivers [OF o d _ assms(2,3)]) (simp add: op_close_def node_scan_hooks_def)
qed

section \<open>Modifiers\<close>

lemma insert_by_map:
  "insert_by lt g (f x) (map f ys) = rbind (insert_by lt (\<lambda>y. g (f y)) x ys) (\<lambda>zs. Inr (map f zs))"
  by (induction ys) (auto simp: rbind_def split: sum.splits)

lemma rfold_insert_map:
  "rfold (insert_by lt g) (map f xs) (map f ys) = rbind (rfold (insert_by lt (\<lambda>y. g (f y))) xs ys) (\<lambda>zs. Inr (map f zs))"
proof (induction xs arbitrary: ys)
  case (Cons x xs)
  show ?case
    by (cases "insert_by lt (\<lambda>y. g (f y)) x ys") (simp_all add: insert_by_map Cons.IH)
qed simp

lemma py_sort_map:
  "py_sort lt g d (map f xs) = rbind (py_sort lt (\<lambda>y. g (f y)) d xs) (\<lambda>zs. Inr (map f zs))"
proof -
  have "sort_by lt g (map f ys) = rbind (sort_by lt (\<lambda>y. g (f y)) ys) (\<lambda>zs. Inr (map f zs))" for ys
    using rfold_insert_map [where ys = "[]" and xs = ys] by (simp add: sort_by_def)
  from this [of xs] this [of "rev xs"] show ?thesis
    by (cases "sort_by lt (\<lambda>y. g (f y)) (rev xs)") (auto simp: py_sort_def rev_map)
qed

lemma insert_by_set: "insert_by lt g x ys = Inr zs \<Longrightarrow> set zs = insert x (set ys)"
  by (induction ys arbitrary: zs) (auto simp: rbind_Inr_iff split: if_splits)

lemma sort_by_set: "rfold (insert_by lt g) xs ys = Inr zs \<Longrightarrow> set zs = set xs \<union> set ys"
  by (induction xs arbitrary: ys) (auto simp: rbind_Inr_iff dest!: insert_by_set)

lemma py_sort_set: "py_sort lt g d xs = Inr zs \<Longrightarrow> set zs = set xs"
  by (auto simp: py_sort_def sort_by_def rbind_Inr_iff dest!: sort_by_set split: if_splits)

lemma insert_by_cong: "\<forall>y \<in> set (x # ys). g y = h y \<Longrightarrow> insert_by lt g x ys = insert_by lt h x ys"
  by (induction ys) (auto intro!: arg_cong [of _ _ "rbind _"] ext)

lemma sort_by_cong:
  "\<forall>y \<in> set (xs @ ys). g y = h y \<Longrightarrow> rfold (insert_by lt g) xs ys = rfold (insert_by lt h) xs ys"
proof (induction xs arbitrary: ys)
  case (Cons x xs)
  have e: "insert_by lt g x ys = insert_by lt h x ys" by (rule insert_by_cong) (use Cons.prems in simp)
  show ?case
  proof (cases "insert_by lt h x ys")
    case (Inr us)
    from insert_by_set [OF this] Cons.prems have "\<forall>y \<in> set (xs @ us). g y = h y" by auto
    from Cons.IH [OF this] e Inr show ?thesis by simp
  qed (use e in simp)
qed simp

lemma py_sort_cong: "\<forall>x \<in> set xs. g x = h x \<Longrightarrow> py_sort lt g d xs = py_sort lt h d xs"
  using sort_by_cong [of xs "[]" g h lt] sort_by_cong [of "rev xs" "[]" g h lt] by (simp add: py_sort_def sort_by_def)

text \<open>
  Python does not order \<open>None\<close>: a sort of two or more rows raises \<open>TypeError\<close> when one of the keys
  is null.
\<close>

definition nulls_unordered :: "('v cell \<Rightarrow> 'v cell \<Rightarrow> bool result) \<Rightarrow> bool" where
  "nulls_unordered lt \<longleftrightarrow> (\<forall>x y. if x = CNull \<or> y = CNull then lt x y = Inl TypeError else \<not> isl (lt x y))"

lemma insert_by_null:
  "nulls_unordered lt \<Longrightarrow> ys \<noteq> [] \<Longrightarrow> g x = CNull \<or> g (hd ys) = CNull \<Longrightarrow> insert_by lt g x ys = Inl TypeError"
  by (cases ys) (auto simp: nulls_unordered_def)

lemma insert_by_no_null:
  "nulls_unordered lt \<Longrightarrow> \<forall>y \<in> set (x # ys). g y \<noteq> CNull \<Longrightarrow> \<exists>zs. insert_by lt g x ys = Inr zs \<and> set zs = insert x (set ys)"
proof (induction ys)
  case (Cons y ys)
  have "\<not> isl (lt (g x) (g y))" using Cons.prems by (simp add: nulls_unordered_def)
  then obtain b where "lt (g x) (g y) = Inr b" by (cases "lt (g x) (g y)") simp_all
  with Cons.IH Cons.prems show ?case by auto
qed simp

lemma sort_loop_null:
  "nulls_unordered lt \<Longrightarrow> ys \<noteq> [] \<Longrightarrow> \<forall>y \<in> set ys. g y \<noteq> CNull \<Longrightarrow> \<exists>x \<in> set xs. g x = CNull \<Longrightarrow>
     rfold (insert_by lt g) xs ys = Inl TypeError"
proof (induction xs arbitrary: ys)
  case (Cons x xs)
  show ?case
  proof (cases "g x = CNull")
    case True
    with Cons.prems insert_by_null [of lt ys g x] show ?thesis by simp
  next
    case False
    with Cons.prems insert_by_no_null [of lt x ys g] obtain zs
      where zs: "insert_by lt g x ys = Inr zs" "set zs = insert x (set ys)" by auto
    then have "zs \<noteq> []" by auto
    with False Cons.prems zs show ?thesis using Cons.IH [of zs] by auto
  qed
qed simp

lemma py_sort_null:
  assumes "nulls_unordered lt" "2 \<le> length xs" "\<exists>x \<in> set xs. g x = CNull"
  shows "py_sort lt g d xs = Inl TypeError"
proof -
  have "sort_by lt g ys = Inl TypeError" if len: "2 \<le> length ys" and null: "\<exists>x \<in> set ys. g x = CNull" for ys
  proof -
    obtain x y zs where ys: "ys = x # y # zs" using len by (cases ys; cases "tl ys") auto
    show ?thesis
    proof (cases "g x = CNull")
      case True
      with insert_by_null [OF assms(1), of "[x]" g y] show ?thesis by (simp add: sort_by_def ys)
    next
      case False
      with sort_loop_null [OF assms(1), of "[x]" g "y # zs"] null show ?thesis by (auto simp: sort_by_def ys)
    qed
  qed
  from this [of xs] this [of "rev xs"] assms(2,3) show ?thesis by (simp add: py_sort_def)
qed

theorem order_null_raises:
  assumes "nulls_unordered (ql_less ql)" "order_column_name (oi_expr item) t = Inr c"
    and "2 \<le> length rows" "\<exists>row \<in> set rows. row_get row c = CNull"
  shows "order_rows ql t item rows = Inl TypeError"
  using py_sort_null [OF assms(1,3,4)] assms(2) by (simp add: order_rows_def)

text \<open>The rows of a table as dictionaries.\<close>

lemma fold_update_zip:
  "distinct ns \<Longrightarrow> length ns = length vs \<Longrightarrow> set ns \<inter> fst ` set d = {} \<Longrightarrow>
     fold (\<lambda>(n, v). AList.update n v) (zip ns vs) d = d @ zip ns vs"
proof (induction ns arbitrary: vs d)
  case (Cons n ns)
  then obtain v vs' where vs: "vs = v # vs'" by (cases vs) auto
  have "AList.update n v d = d @ [(n, v)]"
    using Cons.prems(3) by (induction d) auto
  with Cons.prems vs Cons.IH [of vs' "d @ [(n, v)]"] show ?case by auto
qed simp

lemma batch_pylist_rows:
  assumes "batch_ok b" "distinct (names (bschema b))"
  shows "batch_pylist b = map (zip (names (bschema b))) (tuples b)"
proof -
  have "fold (\<lambda>(n, a). AList.update n (cells a ! i)) (zip (names (bschema b)) (bcols b)) []
      = zip (names (bschema b)) (map (\<lambda>a. cells a ! i) (bcols b))" for i
    using fold_update_zip [of "names (bschema b)" "map (\<lambda>a. cells a ! i) (bcols b)" "[]"] assms(2) batch_ok_length [OF assms(1)]
    by (simp add: zip_map2 fold_map comp_def case_prod_unfold)
  then show ?thesis by (simp add: batch_pylist_def tuples_def comp_def)
qed

lemma table_pylist_rows:
  assumes "table_ok t" "distinct (names (tschema t))"
  shows "table_pylist t = map (zip (names (tschema t))) (table_tuples t)"
  using assms by (auto simp: table_pylist_def table_tuples_def map_concat comp_def table_ok_def batch_pylist_rows intro!: arg_cong [of _ _ concat])

lemma order_column_name_schema: "order_column_name e \<lparr>tschema = tschema t, tbatches = []\<rparr> = order_column_name e t"
  unfolding order_column_name_def by (simp only: table.simps)

lemma order_column_name_in: "order_column_name e t = Inr c \<Longrightarrow> c \<in> set (names (tschema t))"
  by (auto simp: order_column_name_def Let_def split: if_splits)

lemma row_get_zip: "length r = length ns \<Longrightarrow> c \<in> set ns \<Longrightarrow> row_get (zip ns r) c = the (map_of (zip ns r) c)"
  by (auto simp: row_get_def map_of_zip_is_Some [symmetric] split: option.splits)

lemma order_rows_step:
  assumes "\<forall>r \<in> set rows. length r = length (tschema t)"
  shows "order_rows ql t item (map (zip (names (tschema t))) rows)
    = rbind (order_step ql (tschema t) item rows) (\<lambda>rs. Inr (map (zip (names (tschema t))) rs))"
proof (cases "order_column_name (oi_expr item) t")
  case (Inr c)
  then have "\<forall>r \<in> set rows. row_get (zip (names (tschema t)) r) c = the (map_of (zip (names (tschema t)) r) c)"
    using assms order_column_name_in [OF Inr] by (auto intro!: row_get_zip)
  note py_sort_cong [OF this]
  with Inr show ?thesis by (simp add: order_rows_def order_step_def py_sort_map order_column_name_schema)
qed (simp add: order_rows_def order_step_def order_column_name_schema)

lemma order_step_set: "order_step ql s item rows = Inr rs \<Longrightarrow> set rs = set rows"
  by (auto simp: order_step_def rbind_Inr_iff dest: py_sort_set)

lemma order_loop:
  "\<forall>r \<in> set rows. length r = length (tschema t) \<Longrightarrow>
     rfold (order_rows ql t) items (map (zip (names (tschema t))) rows)
       = rbind (rfold (order_step ql (tschema t)) items rows) (\<lambda>rs. Inr (map (zip (names (tschema t))) rs))"
proof (induction items arbitrary: rows)
  case (Cons item items)
  show ?case
  proof (cases "order_step ql (tschema t) item rows")
    case (Inr rs)
    with Cons.prems order_step_set [OF Inr] show ?thesis by (simp add: order_rows_step [OF Cons.prems] Cons.IH)
  qed (simp add: order_rows_step [OF Cons.prems])
qed simp

lemma order_loop_set: "rfold (order_step ql s) items rows = Inr rs \<Longrightarrow> set rs = set rows"
  by (induction items arbitrary: rows) (auto simp: rbind_Inr_iff dest!: order_step_set)

text \<open>The stages of \<^const>\<open>apply_modifiers\<close>.\<close>

definition order_stage ::
  "'v arrow \<Rightarrow> 'v table_lib \<Rightarrow> 'v query_lib \<Rightarrow> expr order_item list \<Rightarrow> 'v table \<Rightarrow> 'v table result" where
  "order_stage ar tb ql order_by t =
     (if order_by = [] then Inr t
      else rbind (rfold (order_rows ql t) (rev order_by) (table_pylist t)) (\<lambda>rows.
             if rows \<noteq> [] then ql_from_pylist ql rows (tschema t) else Inr (tl_slice tb t 0 (Some 0))))"

definition skip_stage :: "'v table_lib \<Rightarrow> expr option \<Rightarrow> 'v table \<Rightarrow> 'v table result" where
  "skip_stage tb skip t =
     (case skip of None \<Rightarrow> Inr t | Some e \<Rightarrow> rbind (eval_int_literal e) (\<lambda>k. Inr (tl_slice tb t k None)))"

definition limit_stage :: "'v table_lib \<Rightarrow> expr option \<Rightarrow> 'v table \<Rightarrow> 'v table result" where
  "limit_stage tb limit t =
     (case limit of None \<Rightarrow> Inr t | Some e \<Rightarrow> rbind (eval_int_literal e) (\<lambda>k. Inr (tl_slice tb t 0 (Some k))))"

lemma apply_modifiers_stages:
  "batches \<noteq> [] \<Longrightarrow> pa_from_batches ar batches None = Inr t \<Longrightarrow>
     apply_modifiers ar tb ql batches (order_by, skip, limit) =
       rbind (order_stage ar tb ql order_by t) (\<lambda>t1.
       rbind (skip_stage tb skip t1) (\<lambda>t2.
       rbind (limit_stage tb limit t2) (table_to_batches ar)))"
  by (simp add: apply_modifiers_def order_stage_def skip_stage_def limit_stage_def)

context query_laws
begin

lemma table_to_batches_rows:
  assumes "table_ok t"
  shows "\<exists>outs. table_to_batches ar t = Inr outs \<and> concat (map tuples outs) = table_tuples t
    \<and> (\<forall>b \<in> set outs. batch_ok b \<and> bschema b = tschema t)"
proof (cases "table_rows t = 0")
  case True
  then have "table_tuples t = []" by (metis length_table_tuples length_0_conv)
  with True show ?thesis by (auto simp: table_to_batches_def tuples_def batch_ok_def)
next
  case False
  with combine_rows [OF assms] show ?thesis by (auto simp: table_to_batches_def)
qed

lemma ordered_table:
  assumes t: "table_ok t" "distinct (names (tschema t))"
    and r: "rfold (order_step ql (tschema t)) items (table_tuples t) = Inr rs"
  shows "\<exists>u. (if map (zip (names (tschema t))) rs \<noteq> [] then ql_from_pylist ql (map (zip (names (tschema t))) rs) (tschema t)
      else Inr (tl_slice tb t 0 (Some 0))) = Inr u \<and> table_ok u \<and> tschema u = tschema t \<and> table_tuples u = rs"
proof (cases "rs = []")
  case True
  with slice_to [OF t(1), of 0] show ?thesis by simp
next
  case False
  have "\<forall>r \<in> set rs. length r = length (tschema t)"
    using order_loop_set [OF r] table_tuples_width [OF t(1)] by simp
  with False from_rows [OF t(2)] show ?thesis by auto
qed

lemma order_stage:
  assumes t: "table_ok t" "distinct (names (tschema t))"
  shows "case order_tuples ql (tschema t) order_by (table_tuples t) of
      Inl e \<Rightarrow> order_stage ar tb ql order_by t = Inl e
    | Inr rs \<Rightarrow> \<exists>u. order_stage ar tb ql order_by t = Inr u \<and> table_ok u \<and> tschema u = tschema t \<and> table_tuples u = rs"
proof (cases "order_by = []")
  case True
  then show ?thesis by (simp add: order_tuples_def order_stage_def t)
next
  case False
  have w: "\<forall>r \<in> set (table_tuples t). length r = length (tschema t)" using table_tuples_width [OF t(1)] by blast
  show ?thesis
  proof (cases "rfold (order_step ql (tschema t)) (rev order_by) (table_tuples t)")
    case (Inr rs)
    with False ordered_table [OF t Inr] show ?thesis
      by (simp add: order_tuples_def order_stage_def table_pylist_rows [OF t] order_loop [OF w])
  qed (use False in \<open>simp add: order_tuples_def order_stage_def table_pylist_rows [OF t] order_loop [OF w]\<close>)
qed

lemma skip_stage:
  assumes "table_ok u" "\<forall>x k. skip = Some x \<longrightarrow> eval_int_literal x = Inr k \<longrightarrow> 0 \<le> k"
  shows "case skip_rows skip (table_tuples u) of
      Inl e \<Rightarrow> skip_stage tb skip u = Inl e
    | Inr rs \<Rightarrow> \<exists>v. skip_stage tb skip u = Inr v \<and> table_ok v \<and> tschema v = tschema u \<and> table_tuples v = rs"
  using assms(2) slice_from [OF assms(1)]
  by (auto simp: assms(1) skip_rows_def skip_stage_def rbind_def split: option.splits sum.splits)

lemma limit_stage:
  assumes "table_ok u" "\<forall>x k. limit = Some x \<longrightarrow> eval_int_literal x = Inr k \<longrightarrow> 0 \<le> k"
  shows "case limit_rows limit (table_tuples u) of
      Inl e \<Rightarrow> limit_stage tb limit u = Inl e
    | Inr rs \<Rightarrow> \<exists>v. limit_stage tb limit u = Inr v \<and> table_ok v \<and> tschema v = tschema u \<and> table_tuples v = rs"
  using assms(2) slice_to [OF assms(1)]
  by (auto simp: assms(1) limit_rows_def limit_stage_def rbind_def split: option.splits sum.splits)

lemma apply_modifiers_rows:
  assumes ne: "batches \<noteq> []" and ok: "\<forall>b \<in> set batches. batch_ok b \<and> bschema b = s"
    and dist: "distinct (names s)" and counts: "counts_ok mods"
  shows "case modified_rows ql s mods (concat (map tuples batches)) of
      Inl e \<Rightarrow> apply_modifiers ar tb ql batches mods = Inl e
    | Inr rows \<Rightarrow> \<exists>outs. apply_modifiers ar tb ql batches mods = Inr outs
        \<and> concat (map tuples outs) = rows \<and> (\<forall>b \<in> set outs. batch_ok b \<and> bschema b = s)"
proof -
  obtain order_by skip limit where m: "mods = (order_by, skip, limit)" by (cases mods)
  define t where "t = \<lparr>tschema = s, tbatches = batches\<rparr>"
  have t: "table_ok t" "tschema t = s" "table_tuples t = concat (map tuples batches)"
    using ok by (simp_all add: t_def table_ok_def table_tuples_def)
  have "pa_from_batches ar batches None = Inr t" using from_batches [OF ne, of s] ok by (simp add: t_def)
  note run = apply_modifiers_stages [OF ne this, of tb ql order_by skip limit]
  note spec = modified_rows_def m t(3) [symmetric]
  show ?thesis
  proof (cases "order_tuples ql s order_by (table_tuples t)")
    case (Inl e)
    with order_stage [OF t(1), of order_by] dist t(2) show ?thesis by (simp add: spec run)
  next
    case (Inr rs)
    with order_stage [OF t(1), of order_by] dist t(2) obtain u
      where u: "order_stage ar tb ql order_by t = Inr u" "table_ok u" "tschema u = s" "table_tuples u = rs" by fastforce
    note skips = skip_stage [OF u(2), of skip]
    show ?thesis
    proof (cases "skip_rows skip rs")
      case (Inl e)
      with skips counts u(1,4) \<open>order_tuples _ _ _ _ = Inr rs\<close> show ?thesis by (simp add: spec run counts_ok_def)
    next
      case (Inr rs')
      with skips counts u(3,4) obtain v
        where v: "skip_stage tb skip u = Inr v" "table_ok v" "tschema v = s" "table_tuples v = rs'"
        by (auto simp: counts_ok_def m)
      with limit_stage [OF v(2), of limit] counts u(1) Inr \<open>order_tuples _ _ _ _ = Inr rs\<close> show ?thesis
        by (auto simp: spec run counts_ok_def dest!: table_to_batches_rows split: sum.splits)
    qed
  qed
qed

end

section \<open>Queries\<close>

text \<open>A plan over the nodes of one class, read by a scan.\<close>

definition scans :: "('v, 'f) graph_lib \<Rightarrow> 'v graph_db \<Rightarrow> compiled_query \<Rightarrow> node_store \<Rightarrow> bool" where
  "scans gl db plan store \<longleftrightarrow>
     cq_closure_base_iri plan = None \<and> cq_index_lookup plan = None
     \<and> cq_local_name plan \<in> set (list_stores gl (db_fs db) (db_bundle db) ''nodes'')
     \<and> fst (open_node_store (db_fs db) (db_bundle db) (cq_class_iri plan) (cq_local_name plan) False ''none'') = Inr store"

lemma build_source_scan:
  "scans gl db plan store \<Longrightarrow> build_source ar gl ix bm now db plan = Some (Inr (ScanSource store), db)"
  by (simp add: build_source_def scans_def)

lemma compiled_stages:
  assumes "compile_stages ql plan (ScanSource store) = Inr (pf, ps)"
  shows "case cq_predicate plan of None \<Rightarrow> pf = None | Some e \<Rightarrow> \<exists>f. pf = Some f \<and> compile_expr (ql_kernels ql) e = Inr f"
    "rmap (\<lambda>(e, n). rbind (compile_expr (ql_kernels ql) e) (\<lambda>f. Inr (f, n))) (cq_projections plan) = Inr ps"
  using assms by (auto simp: compile_stages_def rbind_Inr_iff split: option.splits)

text \<open>
  A query over one class returns the rows of the scan that satisfy its predicate, projected,
  ordered, skipped and limited, whatever the batches they come in; an error of the modifiers is the
  error of the query. When no batch is left the modifiers are not looked at: a sort key
  that is no column is then no error.
\<close>

lemma query_delivers:
  fixes bm :: "'b bitmaps"
  assumes laws: "query_laws ar tb val_order ql co"
    and plan: "compile_query q db = Inr plan" "scans gl db plan store" "cq_projections plan \<noteq> []"
      "compile_stages ql plan (ScanSource store :: 'b source) = Inr (pf, ps)"
    and scan: "node_scan ar (db_fs db) store (Some (cq_columns plan)) (map_option lsn_high (cq_snapshot plan)) = Inr bs"
      "\<forall>b \<in> set bs. batch_ok b \<and> distinct (names (bschema b))"
    and eval: "rmap (query_batch ar ql pf ps) bs = Inr outs" "\<forall>b \<in> set (somes outs). bschema b = s" "distinct (names s)"
    and counts: "counts_ok (query_modifiers q)"
  shows "\<exists>r. run_query ar gl tb ql ix bm now db q = Some (r, db)
    \<and> (let rows = query_rows co (cq_predicate plan) (cq_projections plan) (concat (map batch_rows bs)) in
       if somes outs = [] then r = Inr [] \<and> rows = []
       else case modified_rows ql s (query_modifiers q) rows of
           Inl e \<Rightarrow> r = Inl e
         | Inr rs \<Rightarrow> \<exists>res. r = Inr res \<and> concat (map tuples res) = rs \<and> (\<forall>b \<in> set res. batch_ok b \<and> bschema b = s))"
proof -
  note stages = compiled_stages [OF plan(4)]
  have ne: "ps \<noteq> []" using stages(2) plan(3) by (cases "cq_projections plan") (auto simp: rbind_Inr_iff)
  have rows: "concat (map tuples (somes outs)) = query_rows co (cq_predicate plan) (cq_projections plan) (concat (map batch_rows bs))"
    and ok: "\<forall>b \<in> set (somes outs). batch_ok b"
    using query_laws.query_batches_rows [OF laws stages(2) plan(3) stages(1) scan(2) eval(1)] by auto
  have "run_query ar gl tb ql ix bm now db q
      = Some (apply_modifiers ar tb ql (somes outs) (query_modifiers q), db)"
    using run_stages_scan [OF scan(1) eval(1) ne] build_source_scan [OF plan(2), of ar ix bm now] plan(4)
    by (simp add: run_query_def plan(1) run_plan_def run_source_def)
  with query_laws.apply_modifiers_rows [OF laws _ _ eval(3) counts, of "somes outs"] ok eval(2) rows show ?thesis
    by (auto simp: Let_def apply_modifiers_def split: sum.splits)
qed

end
