(* ===== verification/Query_History.thy ===== *)
theory Query_History
  imports Query_Theorems
begin

text \<open>
  Queries over a node store with a known history: the scan reads the columns the query names,
  and the rows are those of the batches appended up to the snapshot.
\<close>

section \<open>Columns a query does not name\<close>

lemma eval_row_cong:
  assumes "\<And>n. n \<in> columns_used e \<Longrightarrow> env n = env' n"
  shows "eval_row co env e = eval_row co env' e"
  using assms
proof (induction "size e" arbitrary: e rule: less_induct)
  case less
  show ?case
  proof (cases "\<exists>h args. e = PyTuple (PyStr h # args)")
    case True
    then obtain h args where e: "e = PyTuple (PyStr h # args)" by blast
    have IH: "eval_row co env x = eval_row co env' x" if "h \<noteq> ''col''" "x \<in> set args" for x
    proof (rule less.hyps)
      have "size x < Suc (size_list size args)"
        using size_list_estimation' [OF that(2), of "size x" size] by simp
      then show "size x < size e" by (simp add: e)
      show "env n = env' n" if "n \<in> columns_used x" for n
        using that less.prems columns_used_arg [OF \<open>h \<noteq> ''col''\<close> \<open>x \<in> set args\<close>] by (auto simp: e)
    qed
    show ?thesis
    proof (cases "h = ''col''")
      case True
      with less.prems show ?thesis by (auto simp: e split: list.splits py_obj.splits)
    next
      case False
      then show ?thesis by (auto simp: e IH split: list.splits py_obj.splits sum.splits)
    qed
  next
    case False
    then show ?thesis by (cases "(co, env, e)" rule: eval_row.cases) auto
  qed
qed

lemma query_rows_cong:
  assumes "list_all2 (\<lambda>env env'. \<forall>n \<in> N. env n = env' n) rows rows'"
    "\<forall>(e, n) \<in> set projs. columns_used e \<subseteq> N" "\<And>p. pred = Some p \<Longrightarrow> columns_used p \<subseteq> N"
  shows "query_rows co pred projs rows = query_rows co pred projs rows'"
  using assms(1)
proof (induction rule: list_all2_induct)
  case (Cons env rows env' rows')
  then have e: "eval_row co env e = eval_row co env' e" if "columns_used e \<subseteq> N" for e
    using that by (intro eval_row_cong) auto
  have "map (\<lambda>(e, n). eval_row co env e) projs = map (\<lambda>(e, n). eval_row co env' e) projs"
    using assms(2) by (intro map_cong refl) (auto intro!: e)
  moreover have "(case pred of None \<Rightarrow> True | Some p \<Rightarrow> holds co env p) = (case pred of None \<Rightarrow> True | Some p \<Rightarrow> holds co env' p)"
    using assms(3) e by (auto simp: holds_def split: option.splits)
  ultimately show ?case using Cons.IH by (simp add: query_rows_def)
qed (simp add: query_rows_def)

text \<open>The columns of a plan are those its expressions use.\<close>

lemma compiled_columns:
  assumes "compile_query q db = Inr plan"
  shows "\<forall>(e, n) \<in> set (cq_projections plan). columns_used e \<subseteq> set (cq_columns plan)"
    "cq_predicate plan = Some p \<Longrightarrow> columns_used p \<subseteq> set (cq_columns plan)" "distinct (cq_columns plan)"
proof -
  have c: "cq_columns plan = query_columns (cq_projections plan) (cq_predicate plan)"
    using assms by (auto simp: compile_query_def rbind_Inr_iff Let_def case_prod_unfold)
  have cols: "set (collect_cols e) \<subseteq> set (cq_columns plan)"
    if "e \<in> fst ` set (cq_projections plan) \<or> cq_predicate plan = Some e" for e
    using that unfolding c query_columns_def Let_def by (cases "collect_cols e = []") (auto split: option.splits)
  then show "\<forall>(e, n) \<in> set (cq_projections plan). columns_used e \<subseteq> set (cq_columns plan)"
    unfolding set_collect_cols by force
  show "columns_used p \<subseteq> set (cq_columns plan)" if "cq_predicate plan = Some p"
    using cols [of p] that by (simp add: set_collect_cols)
  show "distinct (cq_columns plan)" by (simp add: c query_columns_def Let_def)
qed

lemma name_index:
  assumes "set cs \<subseteq> set (names s)" "n \<in> set cs"
  obtains j where "j < length s" "n = names s ! j"
proof -
  have "n \<in> set (names s)" using assms by blast
  then obtain j where "j < length (names s)" "names s ! j = n" unfolding in_set_conv_nth by blast
  with that show thesis by simp
qed

lemma names_sub_batch:
  assumes "batch_ok b" "distinct (names (bschema b))" "set cs \<subseteq> set (names (bschema b))"
  shows "names (bschema (sub_batch b cs)) = cs"
proof -
  have "fld_name (the (map_of (map (\<lambda>f. (fld_name f, f)) (bschema b)) n)) = n" if n: "n \<in> set cs" for n
  proof -
    obtain f where "f \<in> set (bschema b)" "fld_name f = n" using assms(3) n by auto
    then have "map_of (map (\<lambda>f. (fld_name f, f)) (bschema b)) n = Some f"
      using assms(2) by (auto intro!: map_of_is_SomeI simp: comp_def)
    then show ?thesis using \<open>fld_name f = n\<close> by simp
  qed
  then show ?thesis by (auto simp: sub_batch_def sub_schema_def intro!: map_idI)
qed

lemma sub_batch_ok:
  assumes "batch_ok b" "distinct (names (bschema b))" "set cs \<subseteq> set (names (bschema b))"
  shows "batch_ok (sub_batch b cs)"
proof -
  have "fld_type (the (map_of (map (\<lambda>f. (fld_name f, f)) (bschema b)) n)) = arr_type (col b n) \<and> length (cells (col b n)) = brows b"
    if n: "n \<in> set cs" for n
  proof -
    obtain j where j: "j < length (bschema b)" "n = names (bschema b) ! j"
      using name_index [OF assms(3) n] by blast
    have "map_of (map (\<lambda>f. (fld_name f, f)) (bschema b)) n = Some (bschema b ! j)"
      using assms(2) j by (auto intro!: map_of_is_SomeI simp: comp_def)
    moreover have "col b n = bcols b ! j" using col_nth [OF assms(1,2) j(1)] j(2) by simp
    moreover have "arr_type (bcols b ! j) = fld_type (bschema b ! j)"
    proof -
      have "map fld_type (bschema b) ! j = map arr_type (bcols b) ! j" using assms(1) unfolding batch_ok_def by simp
      then show ?thesis using j(1) batch_ok_length [OF assms(1)] by simp
    qed
    ultimately show ?thesis using assms(1) j(1) batch_ok_length [OF assms(1)] by (simp add: batch_ok_def)
  qed
  then show ?thesis by (auto simp: batch_ok_def sub_batch_def sub_schema_def)
qed

lemma batch_rows_sub:
  assumes "batch_ok b" "distinct (names (bschema b))" "set cs \<subseteq> set (names (bschema b))" "distinct cs"
  shows "list_all2 (\<lambda>env env'. \<forall>n \<in> set cs. env n = env' n) (batch_rows (sub_batch b cs)) (batch_rows b)"
proof (rule list_all2_all_nthI)
  fix i assume "i < length (batch_rows (sub_batch b cs))"
  then have i: "i < brows b" by (simp add: sub_batch_def)
  show "\<forall>n \<in> set cs. (batch_rows (sub_batch b cs) ! i) n = (batch_rows b ! i) n"
  proof
    fix n assume n: "n \<in> set cs"
    then obtain k where k: "k < length cs" "n = cs ! k" by (auto simp: in_set_conv_nth)
    obtain j where j: "j < length (bschema b)" "n = names (bschema b) ! j"
      using name_index [OF assms(3) n] by blast
    have len: "length (bcols b) = length (bschema b)" by (rule batch_ok_length [OF assms(1)])
    have "(batch_rows (sub_batch b cs) ! i) n = Some (cells (col b n) ! i)"
      using i k map_of_zip_nth [of cs "map (\<lambda>a. cells a ! i) (map (col b) cs)" k] assms(4)
      by (simp add: batch_rows_def names_sub_batch [OF assms(1-3)] del: map_map) (simp add: tuples_def sub_batch_def)
    moreover have "(batch_rows b ! i) n = Some (cells (col b n) ! i)"
      using i j len map_of_zip_nth [of "names (bschema b)" "map (\<lambda>a. cells a ! i) (bcols b)" j] assms(2) col_nth [OF assms(1,2) j(1)]
      by (simp add: batch_rows_def tuples_def)
    ultimately show "(batch_rows (sub_batch b cs) ! i) n = (batch_rows b ! i) n" by simp
  qed
qed (simp add: sub_batch_def)

section \<open>Scanning a history\<close>

text \<open>The stored batches a scan sees at a sequence number.\<close>

definition history_seen :: "int option \<Rightarrow> 'v history \<Rightarrow> 'v batch list" where
  "history_seen lsn us =
     map (\<lambda>i. case lsn of None \<Rightarrow> history_chunks NID_COLUMN us ! i
                        | Some snap \<Rightarrow> seen_at snap (snd (us ! i)) (history_chunks NID_COLUMN us ! i)) [0..<length us]"

definition lsn_ok :: "int \<Rightarrow> bool" where
  "lsn_ok l \<longleftrightarrow> 0 \<le> l \<and> l < 2 ^ 64"

definition history_columns :: "'v history \<Rightarrow> string list \<Rightarrow> bool" where
  "history_columns us cs \<longleftrightarrow> (\<forall>v \<in> set us. set cs \<subseteq> set (NID_COLUMN # names (bschema (fst v)) @ MVCC_COLUMNS))"

lemma history_seen_ok:
  assumes "\<forall>v \<in> set us. user_batch NID_COLUMN (fst v)" "history_columns us cs" "b \<in> set (history_seen lsn us)"
  shows "batch_ok b \<and> distinct (names (bschema b)) \<and> set cs \<subseteq> set (names (bschema b))"
proof -
  obtain i where i: "i < length us" and b: "b = (case lsn of None \<Rightarrow> history_chunks NID_COLUMN us ! i
      | Some snap \<Rightarrow> seen_at snap (snd (us ! i)) (history_chunks NID_COLUMN us ! i))"
    using assms(3) by (auto simp: history_seen_def)
  let ?s = "stamped NID_COLUMN (history_rows us i) (snd (us ! i)) (fst (us ! i))"
  have u: "user_batch NID_COLUMN (fst (us ! i))" using assms(1) i by simp
  then have "batch_ok (fst (us ! i))" by (simp add: user_batch_def)
  note ok = batch_ok_stamped [OF this, of NID_COLUMN "history_rows us i" "snd (us ! i)"]
  have "b = ?s \<or> b = rows_at ?s []"
    using i by (auto simp: b history_chunks_def seen_at_def split: option.splits)
  moreover have "bschema (rows_at ?s []) = bschema ?s" by (simp add: rows_at_def)
  moreover have "set cs \<subseteq> set (names (bschema ?s))" using assms(2) i by (auto simp: history_columns_def ok(2))
  ultimately show ?thesis
    using ok(1) distinct_stamped [OF u nid_not_mvcc] batch_ok_take_rows [OF ok(1)] by metis
qed

context arrow_laws
begin

lemma visible_stamped:
  assumes u: "user_batch NID_COLUMN u" and l: "lsn_ok l" "lsn_ok snap"
  shows "filter_visible ar (stamped NID_COLUMN start l u) snap = Inr (seen_at snap l (stamped NID_COLUMN start l u))"
proof -
  let ?b = "stamped NID_COLUMN start l u"
  have bounds: "0 \<le> l" "l < 2 ^ 64" "0 \<le> snap" "snap < 2 ^ 64" using l by (simp_all add: lsn_ok_def)
  have ok: "batch_ok ?b" using u batch_ok_stamped by (auto simp: user_batch_def)
  have "filter (\<lambda>i. visible_to (row_version_of ?b i) \<lparr>lsn_high = snap, snap_name = None\<rparr>) [0..<brows u]
      = filter (\<lambda>i. l \<le> snap) [0..<brows u]"
    by (rule filter_cong [OF refl]) (simp add: stamped_version(2) [OF u nid_not_mvcc bounds(1,2)] visible_to_window)
  with filter_visible_rows [OF stamped_version(1) [OF u nid_not_mvcc bounds(1,2)] bounds(3,4)] take_rows_all [OF ok]
  show ?thesis by (simp add: seen_at_def)
qed

lemma node_scan_columns:
  assumes ok: "node_ok ar bnd codec fs st us" and cs: "history_columns us cs"
    and l: "\<forall>v \<in> set us. lsn_ok (snd v)" "\<forall>s. lsn = Some s \<longrightarrow> lsn_ok s"
  shows "node_scan ar fs st (Some cs) lsn = Inr (map (\<lambda>b. sub_batch b cs) (history_seen lsn us))"
proof -
  have cstore: "chunk_store ar fs (ns_root st) (nm_next_nid (ns_manifest st)) (nm_chunks (ns_manifest st)) (history_chunks NID_COLUMN us)"
    and us: "\<forall>v \<in> set us. user_batch NID_COLUMN (fst v)"
    using ok unfolding node_ok_def Let_def by blast+
  have "scan_batch ar (Some cs) lsn (history_chunks NID_COLUMN us ! i) = Inr (sub_batch (history_seen lsn us ! i) cs)"
    if "i < length (history_chunks NID_COLUMN us)" for i
  proof -
    have i: "i < length us" using that by simp
    then have "history_seen lsn us ! i \<in> set (history_seen lsn us)" by (simp add: history_seen_def)
    from history_seen_ok [OF us cs this] have "pa_select ar (history_seen lsn us ! i) cs = Inr (sub_batch (history_seen lsn us ! i) cs)"
      by (intro select) simp_all
    moreover have "(case lsn of None \<Rightarrow> Inr (history_chunks NID_COLUMN us ! i)
        | Some s \<Rightarrow> filter_visible ar (history_chunks NID_COLUMN us ! i) s) = Inr (history_seen lsn us ! i)"
      using i us l by (auto simp: history_seen_def history_chunks_def visible_stamped split: option.splits)
    ultimately show ?thesis by (simp add: scan_batch_def)
  qed
  from scan_chunk_store [OF cstore this] show ?thesis
    by (simp add: node_scan_def) (auto simp: history_seen_def intro!: nth_equalityI split: option.splits)
qed

end

lemma history_rows_sub:
  assumes "\<forall>v \<in> set us. user_batch NID_COLUMN (fst v)" "history_columns us cs" "distinct cs"
  shows "list_all2 (\<lambda>env env'. \<forall>n \<in> set cs. env n = env' n)
    (concat (map batch_rows (map (\<lambda>b. sub_batch b cs) (history_seen lsn us)))) (concat (map batch_rows (history_seen lsn us)))"
proof -
  have "list_all2 (\<lambda>env env'. \<forall>n \<in> set cs. env n = env' n)
      (concat (map batch_rows (map (\<lambda>b. sub_batch b cs) bs))) (concat (map batch_rows bs))"
    if "set bs \<subseteq> set (history_seen lsn us)" for bs
    using that
  proof (induction bs)
    case (Cons b bs)
    then have "b \<in> set (history_seen lsn us)" by simp
    from history_seen_ok [OF assms(1,2) this] batch_rows_sub [of b cs] assms(3)
    have "list_all2 (\<lambda>env env'. \<forall>n \<in> set cs. env n = env' n) (batch_rows (sub_batch b cs)) (batch_rows b)" by blast
    moreover have "set bs \<subseteq> set (history_seen lsn us)" using Cons.prems by simp
    note Cons.IH [OF this]
    ultimately show ?case by (simp add: list_all2_appendI)
  qed simp
  then show ?thesis by blast
qed

section \<open>Queries\<close>


end
