(* ===== verification/Query_Lists.thy ===== *)
theory Query_Lists
  imports Query_History
begin

text \<open>
  An instance of the query library on lists, and a query run on a stored class.
\<close>

section \<open>The library on lists\<close>

definition truth_cell :: "bool option \<Rightarrow> 'v cell" where
  "truth_cell m = (case m of None \<Rightarrow> CNull | Some b \<Rightarrow> CInt (of_bool b))"

definition cell_truth :: "'v cell \<Rightarrow> bool option" where
  "cell_truth c = (case c of CInt i \<Rightarrow> Some (i \<noteq> 0) | _ \<Rightarrow> None)"

definition literal_cell :: "py_obj \<Rightarrow> string cell" where
  "literal_cell v =
     (case v of PyInt i \<Rightarrow> CInt i | PyBool b \<Rightarrow> CInt (of_bool b) | PyStr s \<Rightarrow> CVal s | _ \<Rightarrow> CNull)"

definition compare_cells :: "string \<Rightarrow> string cell \<Rightarrow> string cell \<Rightarrow> string cell" where
  "compare_cells h x y =
     (case (x, y) of
        (CInt i, CInt j) \<Rightarrow>
          truth_cell (Some (if h = ''eq'' then i = j else if h = ''ne'' then i \<noteq> j else if h = ''lt'' then i < j
                            else if h = ''le'' then i \<le> j else if h = ''gt'' then i > j else i \<ge> j))
      | (CVal s, CVal t) \<Rightarrow> truth_cell (Some (if h = ''ne'' then s \<noteq> t else s = t))
      | _ \<Rightarrow> CNull)"

definition query_cells :: "string cell_ops" where
  "query_cells = \<lparr>
     co_literal = literal_cell,
     co_compare = compare_cells,
     co_logic = (\<lambda>h x y. truth_cell ((if h = ''and'' then null_and else null_or) (cell_truth x) (cell_truth y))),
     co_invert = (\<lambda>x. truth_cell (map_option Not (cell_truth x))),
     co_is_in = (\<lambda>vs x. CInt (of_bool (x \<in> set (map literal_cell vs)))),
     co_call1 = (\<lambda>k x. CNull),
     co_call2 = (\<lambda>k x y. CNull),
     co_truth = cell_truth\<rparr>"

definition map_array :: "(string cell \<Rightarrow> string cell) \<Rightarrow> string array \<Rightarrow> string array result" where
  "map_array f x = Inr \<lparr>arr_type = ''bool'', cells = map f (cells x)\<rparr>"

definition zip_array :: "(string cell \<Rightarrow> string cell \<Rightarrow> string cell) \<Rightarrow> string array \<Rightarrow> string array \<Rightarrow> string array result" where
  "zip_array f x y =
     (if length (cells x) = length (cells y) then Inr \<lparr>arr_type = ''bool'', cells = map2 f (cells x) (cells y)\<rparr>
      else Inl ValueError)"

definition literal_type :: "py_obj \<Rightarrow> string" where
  "literal_type v = (case v of PyInt _ \<Rightarrow> ''int64'' | PyBool _ \<Rightarrow> ''bool'' | PyStr _ \<Rightarrow> ''string'' | _ \<Rightarrow> ''null'')"

definition query_lists :: "string query_lib" where
  "query_lists = \<lparr>
     ql_kernels = \<lparr>
       ar_column = pa_column arrow_lists,
       ar_num_rows = brows,
       ar_scalar = Inr,
       ar_repeat = (\<lambda>v n. Inr \<lparr>arr_type = literal_type v, cells = replicate n (literal_cell v)\<rparr>),
       ar_compare = (\<lambda>h. zip_array (co_compare query_cells h)),
       ar_logic = (\<lambda>h. zip_array (co_logic query_cells h)),
       ar_invert = map_array (co_invert query_cells),
       ar_is_in = (\<lambda>vs. Inr (map_array (co_is_in query_cells vs))),
       ar_call1 = (\<lambda>k x. Inl NotImplementedError),
       ar_call2 = (\<lambda>k x y. Inl NotImplementedError)\<rparr>,
     ql_mask = (\<lambda>a. Inr (map cell_truth (cells a))),
     ql_less = (\<lambda>x y. case (x, y) of (CInt i, CInt j) \<Rightarrow> Inr (i < j) | _ \<Rightarrow> Inl TypeError),
     ql_is_in = (\<lambda>cs ids. Inr (map (\<lambda>c. Some (c \<in> set (map CInt ids))) cs)),
     ql_filter = (\<lambda>t m. Inr (table_of_rows (tschema t) (keep m (table_tuples t)))),
     ql_select = (\<lambda>t ns. rbind (rmap (\<lambda>b. pa_select arrow_lists b ns) (tbatches t)) (\<lambda>bs. pa_from_batches arrow_lists bs None)),
     ql_from_pylist = (\<lambda>rows s. Inr (table_of_rows s (map (\<lambda>row. map (row_get row) (names s)) rows)))\<rparr>"

lemma combine_lists_rows:
  assumes "table_ok t" "0 < table_rows t"
  shows "\<exists>b. pa_combine arrow_lists t = Inr [b] \<and> batch_ok b \<and> bschema b = tschema t \<and> tuples b = table_tuples t"
proof -
  let ?b = "\<lparr>bschema = tschema t, bcols = table_arrays t, brows = table_rows t\<rparr>"
  have "pa_combine arrow_lists t = Inr [?b]" using assms(2) by (simp add: arrow_lists_def table_arrays_def)
  moreover have "batch_ok ?b"
    using table_array_cells [OF assms(1)] by (auto simp: batch_ok_def intro!: nth_equalityI [of "map fld_type _"]) (simp add: table_arrays_def)
  moreover have "tuples ?b = table_tuples t"
    using row_of_arrays [OF assms(1)] by (auto simp: tuples_def intro!: nth_equalityI)
  ultimately show ?thesis by simp
qed

lemma row_get_all:
  assumes "distinct ns" "length r = length ns"
  shows "map (row_get (zip ns r)) ns = r"
  using assms by (auto simp: row_get_def map_of_zip_nth intro!: nth_equalityI)

interpretation list_queries: query_laws arrow_lists "table_lists c" c query_lists query_cells
proof (unfold_locales, goal_cases)
  case (1 b n a)
  then have "n \<in> set (names (bschema b))"
    by (auto simp: query_lists_def arrow_lists_def pick_def split: option.splits dest!: map_of_SomeD set_zip_leftD)
  with 1 ar_lists.column [of b n] show ?case by (simp add: query_lists_def)
next
  case (11 t)
  then show ?case by (rule combine_lists_rows)
next
  case (12 sch rs)
  let ?row = "\<lambda>row. map (row_get row) (names sch)"
  have "?row (zip (names sch) r) = r" if "r \<in> set rs" for r by (rule row_get_all) (use 12 that in simp_all)
  then have "map ?row (map (zip (names sch)) rs) = rs" unfolding map_map comp_def by (rule map_idI)
  with table_of_rows [of rs sch] 12(2) show ?case by (simp add: query_lists_def)
qed (auto simp: query_lists_def query_cells_def map_array_def zip_array_def split: if_splits)

section \<open>A query\<close>

definition person_batch :: "string batch" where
  "person_batch = \<lparr>bschema = [\<lparr>fld_name = ''a'', fld_type = ''i'', fld_nullable = True\<rparr>],
     bcols = [\<lparr>arr_type = ''i'', cells = [CInt 3, CInt 1, CNull, CInt 5, CInt 2]\<rparr>], brows = 5\<rparr>"

definition person_bundle :: crcl_bundle where
  "person_bundle = \<lparr>b_path = [''b.crcl''], b_manifest = manifest_empty []\<rparr>"

definition person_db :: "fs \<Rightarrow> string graph_db" where
  "person_db fs = \<lparr>db_bundle = person_bundle,
     db_catalog = (catalog_empty [] None)\<lparr>c_classes := [\<lparr>cd_cid = 1, cd_iri = ''P'', cd_local_name = Some ''P'',
       cd_superclass_iris = [], cd_fields = [], cd_doc = None\<rparr>]\<rparr>,
     db_fs = fs, db_edge_tables = [], db_node_lookups = [], db_id_maps = []\<rparr>"

definition person_query :: "expr query" where
  "person_query =
     (let n = Ident ''n'' False; a = PathExpr (Some n) [Ident ''a'' False] in
      Query [MatchClause [Pattern [NodePattern (Some n) [QName ''P''] None] None] False None,
             WhereClause (Some (BinOp ''>'' (Some a) (ExprOperand (Literal LK_INT (ValInt 1) None None)))),
             ReturnClause [Projection a None] False] []
        (Modifiers [OrderItem a True] (Some (Literal LK_INT (ValInt 1) None None)) (Some (Literal LK_INT (ValInt 1) None None))))"

definition person_lib :: "(string, int) graph_lib" where
  "person_lib = \<lparr>gl_compare = (\<lambda>op cs v. Inr (map (\<lambda>c. Some (c = v)) cs)), gl_mtime = (\<lambda>_. 0), gl_iterdir = (\<lambda>_ _. [''P'']),
     gl_str = (\<lambda>_. []), gl_dumps = (\<lambda>_. []), gl_float = (\<lambda>c. case c of CInt i \<Rightarrow> Inr i | _ \<Rightarrow> Inl TypeError),
     gl_zero = 0, gl_one = 1, gl_neg = uminus, gl_sum = sum_list, gl_mult = times, gl_div_int = (\<lambda>x n. x div int n)\<rparr>"

definition person_pred :: py_obj where
  "person_pred = PyTuple [PyStr ''gt'', PyTuple [PyStr ''col'', PyStr ''a''], PyTuple [PyStr ''lit'', PyInt 1]]"

definition person_plan :: compiled_query where
  "person_plan = \<lparr>cq_class_iri = ''P'', cq_local_name = ''P'', cq_alias = ''n'', cq_columns = [''a''],
     cq_predicate = Some person_pred, cq_projections = [(PyTuple [PyStr ''col'', PyStr ''a''], ''a'')],
     cq_limit = Some 1, cq_closure_base_iri = None, cq_snapshot = None, cq_indexes_used = [], cq_index_lookup = None\<rparr>"

lemma person_compiled: "compile_query person_query (person_db fs) = Inr person_plan"
proof -
  have "str_lower ''>'' \<noteq> ''and''" by code_simp
  then show ?thesis
    by (simp add: compile_query_def person_query_def person_db_def person_plan_def Let_def single_node_def
      resolve_class_def class_by_iri_def expand_name_def has_colon_def compile_where_def compile_projection_def query_modifiers_def
      eval_int_literal_def resolve_as_of_def indexed_lookup_for_predicate_def query_columns_def local_or_def
      BIN_OP_TO_TUPLE_def default_alias_def person_pred_def catalog_empty_def)
qed

text \<open>The database after the batch was appended.\<close>

lemma person_accepts: "node_accepts arrow_lists ''none'' [] person_batch 1"
proof -
  have r: "replicate 5 x = [x, x, x, x, x]" for x by (simp add: numeral_eq_Suc)
  have "user_batch NID_COLUMN person_batch"
    by (simp add: user_batch_def person_batch_def batch_ok_def NID_COLUMN_def MVCC_COLUMNS_def
        CREATED_LSN_COLUMN_def DELETED_LSN_COLUMN_def)
  moreover have "payload_fits arrow_lists [stamped NID_COLUMN 0 1 person_batch] ''none''"
    by (simp add: payload_fits_def segment_payload_def segment_compress_def arrow_lists_def person_batch_def
        stamped_def ids_array_def uint64_array_of_def fields_of_def Let_def batch_flat_def length_tokens_bytes
        put_batches_def put_list_def put_pair_def put_char_def put_int_def HEADER_SIZE_def upt_rec r
        NID_COLUMN_def MVCC_COLUMNS_def CREATED_LSN_COLUMN_def DELETED_LSN_COLUMN_def)
  ultimately show ?thesis
    by (simp add: node_accepts_def history_shape_def history_rows_def rows_before_def) (simp add: person_batch_def)
qed

lemma node_append_iri:
  "node_append ar fs st arg lsn = (Inr ref, st', fs') \<Longrightarrow>
     nm_class_iri (ns_manifest st') = nm_class_iri (ns_manifest st) \<and> nm_local_name (ns_manifest st') = nm_local_name (ns_manifest st)"
  by (auto simp: node_append_def Let_def split: sum.splits prod.splits)

lemma person_store:
  "\<exists>fs st. node_ok arrow_lists person_bundle ''none'' fs st [(person_batch, 1)] \<and> scans person_lib (person_db fs) person_plan st"
proof -
  have "dir_free (\<lambda>_. None) (bundle_child person_bundle [''nodes'', ''P''])"
    by (simp add: dir_free_def bundle_child_def person_bundle_def CHUNKS_DIRNAME_def)
  moreover have c: "codec_ready arrow_lists ''none''" "local_name_match ''P''"
    by (simp_all add: codec_ready_def local_name_match_def name_start_def name_char_def ascii_between_def)
  ultimately obtain st fs where st: "open_node_store (\<lambda>_. None) person_bundle ''P'' ''P'' True ''none'' = (Inr st, fs)"
    "node_ok arrow_lists person_bundle ''none'' fs st []"
    using node_create_ok by blast
  have nm: "nm_class_iri (ns_manifest st) = ''P''" "nm_local_name (ns_manifest st) = ''P''"
    using st(1) by (auto simp: open_node_store_def Let_def is_file_def split: sum.splits prod.splits if_splits)
  from ar_lists.node_append_ok [OF st(2)] person_accepts obtain ref st' fs' where
    app: "node_append arrow_lists fs st (ABatch person_batch) 1 = (Inr ref, st', fs')"
    "node_ok arrow_lists person_bundle ''none'' fs' st' [(person_batch, 1)]" by fastforce
  from node_append_iri [OF app(1)] nm have nm': "nm_class_iri (ns_manifest st') = ''P''" "nm_local_name (ns_manifest st') = ''P''"
    by simp_all
  have ok: "ns_root st' = bundle_child person_bundle [''nodes'', nm_local_name (ns_manifest st')]" "ns_codec st' = ''none''"
    "dirs_exist fs' (ns_root st' @ [CHUNKS_DIRNAME])"
    using app(2) unfolding node_ok_def Let_def chunk_store_def by blast+
  then have root: "ns_root st' = [''b.crcl'', ''nodes'', ''P'']" by (simp add: nm' bundle_child_def person_bundle_def)
  have "is_dir fs' [''b.crcl'', ''nodes'']" "is_dir fs' [''b.crcl'', ''nodes'', ''P'']"
    using ok(3) unfolding root dirs_exist_def is_dir_def by (metis append_Cons append_Nil list.distinct(1) prefixI)+
  then have "scans person_lib (person_db fs') person_plan st'"
    using ar_lists.node_open_ok [OF app(2)] nm' ok(2)
    by (simp add: scans_def person_plan_def person_db_def person_lib_def list_stores_def Let_def bundle_child_def
        person_bundle_def node_reopen_def)
  with app(2) show ?thesis by blast
qed

lemma person_stages:
  "compile_stages query_lists person_plan (ScanSource st) =
     Inr (Some (apply2 (zip_array (compare_cells ''gt'')) (\<lambda>b. pa_column arrow_lists b ''a'')
                  (\<lambda>b. Inr \<lparr>arr_type = ''int64'', cells = replicate (brows b) (CInt 1)\<rparr>)),
          [(\<lambda>b. pa_column arrow_lists b ''a'', ''a'')])"
  by (simp add: compile_stages_def person_plan_def person_pred_def query_lists_def query_cells_def bin_ops_def literal_type_def literal_cell_def)

definition person_rows :: "string cell list \<Rightarrow> string batch" where
  "person_rows cs = \<lparr>bschema = [\<lparr>fld_name = ''a'', fld_type = ''i'', fld_nullable = True\<rparr>],
     bcols = [\<lparr>arr_type = ''i'', cells = cs\<rparr>], brows = length cs\<rparr>"

lemma person_seen:
  "map (\<lambda>b. sub_batch b [''a'']) (history_seen None [(person_batch, 1)]) = [person_batch]"
  by (simp add: history_seen_def history_chunks_def stamped_def Let_def sub_batch_def sub_schema_def fields_of_def
      person_batch_def col_def NID_COLUMN_def MVCC_COLUMNS_def CREATED_LSN_COLUMN_def DELETED_LSN_COLUMN_def)

lemma person_eval:
  "rmap (query_batch arrow_lists query_lists
      (Some (apply2 (zip_array (compare_cells ''gt'')) (\<lambda>b. pa_column arrow_lists b ''a'')
        (\<lambda>b. Inr \<lparr>arr_type = ''int64'', cells = replicate (brows b) (CInt 1)\<rparr>)))
      [(\<lambda>b. pa_column arrow_lists b ''a'', ''a'')]) [person_batch]
    = Inr [Some (person_rows [CInt 3, CInt 5, CInt 2])]"
  by code_simp

lemma person_reference:
  "modified_rows query_lists (bschema (person_rows [])) (query_modifiers person_query)
     (query_rows query_cells (cq_predicate person_plan) (cq_projections person_plan)
       (concat (map batch_rows (history_seen None [(person_batch, 1)])))) = Inr [[CInt 3]]"
  by code_simp


end
