(* ===== verification/Spec2Isabelle.thy ===== *)
theory Spec2Isabelle
  imports Wal_Theorems Recovery_Theorems Tx Snapshot Buffer_Pool Dict_Store Hierarchy_Theorems
    Typing_Theorems Plan_Theorems Expr_Eval Expand_Theorems Node_Store Reasoner_Theorems
    Class_Closure_Theorems Procedure Edge_Cache Graph_Search_Theorems Join_Theorems Drop_Columns
    Bundle_Diff Query_Lists
begin

text \<open>
  CaracalDB is an embedded graph database in Python. This development models its storage engine,
  its catalogue and reasoner, the semantic passes and the planning of its query language Tuft, the
  operators of its executor, and the graph queries, property indexes and single-pattern queries of its
  programming interface, from the sources under \<open>src/caracaldb\<close>. It is a library of theories; this
  one only collects them.

  \<^bold>\<open>The program.\<close> A database is a bundle directory with a manifest, a catalogue, a write-ahead log
  and binary column and adjacency files. Writers append records to the log; a checkpoint marks a
  position in it in the manifest; after a crash, recovery replays what the log has above the
  mark. Transactions put their begin and commit records into the log and detect write conflicts
  by log sequence numbers; named snapshots pin such numbers, and a row is visible to a snapshot by
  comparing them. The catalogue holds classes, properties, graphs and indexes; the hierarchies of
  classes and properties are built from it. A query is parsed to a syntax tree (not modelled),
  names are bound against the catalogue, types are checked, graph patterns are lowered to logical
  plans, plans are rewritten, and operators pull record batches through the plan; expansion and
  path operators follow adjacency files built from edge tables. Rows of classes and relations are kept
  in stores of column segments; the programming interface compiles a query with one node pattern
  directly to a pipeline of operators over such a store, a subclass closure or a property index, and
  answers neighbour, path and k-hop queries from cached edge tables.

  \<^bold>\<open>Conventions.\<close> A Python exception is a value: a result is \<open>Inl\<close> of an error or \<open>Inr\<close> of a value
  (\<open>Prelude\<close>); an error of the database carries its code, the message text is left out. An
  operation that changes state takes it and returns it, also when it raises. Bytes are 8-bit
  words, NumPy arrays are lists of 64-bit words with their wrap-around, Python integers are \<open>int\<close>
  or, where the code keeps them non-negative, \<open>nat\<close>. A dictionary is an association list in
  insertion order, a string the list of its UTF-8 bytes as characters. The file system is a map from paths to
  directories and files; a JSON file is its value (\<open>Manifest\<close>). Concurrency is the interleaving of
  whole operations where the code holds a lock (\<open>Tx\<close>); a crash is explicit where durability
  matters (\<open>crash\<close>, \<open>write_states\<close>).

  \<^bold>\<open>Storage.\<close>
  \<open>Prelude\<close>: errors, \<open>struct\<close> codes, UTF-8, CRC-32, dictionaries. \<open>Header\<close>: \<open>storage/header.py\<close>.
  \<open>Wal\<close>: \<open>storage/wal.py\<close>, with the record codec, segments, append, flush, truncation, reopening
  and the effect of a crash; \<open>Wal_Codec\<close>, \<open>Wal_Log\<close>, \<open>Wal_Inv\<close>, \<open>Wal_Ops\<close>, \<open>Wal_Durability\<close> and
  \<open>Wal_Theorems\<close> show that a well-formed log is the list of its records, that each operation
  changes that list as it should, and what survives a crash. \<open>Json\<close>, \<open>Manifest\<close>, \<open>Bundle\<close>: the JSON
  accesses of the codecs, \<open>storage/manifest.py\<close> with atomic replacement, and \<open>storage/bundle.py\<close>.
  \<open>Recovery\<close>, \<open>Recovery_Theorems\<close>: \<open>storage/checkpoint.py\<close> and \<open>storage/recovery.py\<close>; which handlers
  recovery runs after any crash, and that a checkpoint leaves nothing to replay. \<open>Mvcc\<close>,
  \<open>Snapshot\<close>: \<open>storage/mvcc.py\<close>, \<open>storage/snapshot.py\<close>, \<open>exec/as_of.py\<close>; the registry on disk refines a map
  of reference-counted names. \<open>Tx\<close>: \<open>tx/manager.py\<close>; no lost updates, durable commits.
  \<open>Buffer_Pool\<close>: \<open>storage/buffer_pool.py\<close>; eviction is transparent. \<open>Dict_Store\<close>:
  \<open>storage/dict_store.py\<close>; lookups, merges and the file format. \<open>Column_Store\<close>: \<open>storage/column_store.py\<close>;
  a segment reads back as it was written. \<open>Chunk_Files\<close>, \<open>Chunk_Theorems\<close>, \<open>Append_Store\<close>, \<open>Edge_Store\<close>,
  \<open>Edge_Theorems\<close>, \<open>Node_Store\<close>: \<open>storage/edge_store.py\<close> and \<open>storage/node_store.py\<close>; what the two stores
  share is a locale, a store on disk refines the list of the batches appended to it, and scans at a
  snapshot are stable. \<open>Bundle_Diff\<close>: \<open>storage/diff.py\<close>; what an empty diff means, and its symmetry.

  \<^bold>\<open>Catalogue.\<close>
  \<open>Catalog_Defs\<close>, \<open>Catalog\<close>: \<open>onto/catalog.py\<close>; codecs of all definitions, registration, lookups.
  \<open>Hierarchy\<close>, \<open>Hierarchy_Theorems\<close>: \<open>onto/hierarchy.py\<close>; topological order, rejection of cycles,
  reachability. \<open>Class_Closure\<close>, \<open>Class_Closure_Theorems\<close>: \<open>onto/closure.py\<close>; the cached bitmaps agree with
  the hierarchy. \<open>Reasoner\<close>, \<open>Reasoner_Theorems\<close>: \<open>onto/reasoner.py\<close>; the transitive rule stores exactly
  the missing edges of the transitive closure, and what its budget does.

  \<^bold>\<open>Queries.\<close>
  \<open>Tuft_Ast\<close>: \<open>lang/tuft/ast.py\<close>. \<open>Binding\<close>: \<open>lang/tuft/binder.py\<close>. \<open>Typing\<close>, \<open>Typing_Theorems\<close>:
  \<open>lang/tuft/typer.py\<close>; every reference of a bound program is known, property maps of a checked
  program conform to their classes, and where the two passes disagree. \<open>Logical_Plan\<close>,
  \<open>Plan_Theorems\<close>: \<open>plan/logical.py\<close>, \<open>plan/rules.py\<close>, \<open>plan/pattern_compiler.py\<close>,
  \<open>plan/with_pipeline.py\<close>; the rewriting loop reaches a fixpoint and keeps every column that is
  read. \<open>Expr_Eval\<close>: \<open>exec/expr.py\<close> over Arrow kernels. \<open>Procedure\<close>: \<open>lang/proc.py\<close>; the executor of steps
  refines their meaning as runs. \<open>Property_Index\<close>, \<open>Query_Compile\<close>, \<open>Query_Run\<close>: the property indexes of
  \<open>api.py\<close>, the compilation of a query with one node pattern, its pipeline and the modifiers of its
  result; \<open>Query_Eval\<close>, \<open>Query_Theorems\<close> and \<open>Query_History\<close> show that a query that scans a store
  returns what a row-wise evaluation of its expressions, order and limits gives for the history of the
  store, and \<open>Query_Lists\<close> runs one.

  \<^bold>\<open>Graphs.\<close>
  \<open>Numpy\<close>: the array functions the graph code calls. \<open>Csr\<close>, \<open>Csr_Theorems\<close>, \<open>Fan_Out\<close>:
  \<open>graph/csr_format.py\<close>, \<open>graph/csr_builder.py\<close>, \<open>graph/csc_builder.py\<close>, \<open>graph/csr_reader.py\<close>; a file
  reads back with the neighbours of every vertex in table order, and the index arithmetic of the
  fan-out selects exactly the rows of the seeds. \<open>Operator\<close>: \<open>exec/operator.py\<close>, the lifecycle of an
  operator. \<open>Expand\<close>, \<open>Expand_Theorems\<close>: \<open>exec/operators/expand.py\<close> and
  \<open>exec/operators/var_path.py\<close> over any child operator. \<open>Relational\<close>, \<open>Blocking\<close>: the operators of
  \<open>exec/operators\<close> for filters, projections, renaming, dropping, unions and scans, and those that read a
  child to its end (\<open>topk.py\<close>, \<open>hash_agg.py\<close>, \<open>hash_join.py\<close>); \<open>Relational_Theorems\<close>, \<open>Join_Theorems\<close> and
  \<open>Drop_Columns\<close> show what sorting, joins and dropping deliver. \<open>Graph_Data\<close>, \<open>Path_Search\<close>,
  \<open>Graph_Search\<close>: the edge table cache, the typed adjacency, node references, path, neighbour and k-hop
  queries of \<open>api.py\<close>; \<open>Path_Theorems\<close>, \<open>Graph_Search_Theorems\<close> and \<open>Edge_Cache\<close> show that they
  enumerate exactly the walks and layers asked for, their limits, and that the cache goes stale.

  \<^bold>\<open>Parameters.\<close> Third-party code is an argument of the definitions that call it, and what is relied
  on is a hypothesis: \<open>numpy_laws\<close>, \<open>batch_laws\<close>, \<open>arrow_laws\<close> (\<open>Arrow\<close>), \<open>table_laws\<close>
  (\<open>Relational_Theorems\<close>), \<open>query_laws\<close> (\<open>Query_Eval\<close>) and \<open>bitmap_laws\<close> (\<open>Class_Closure\<close>) state the documented results of NumPy
  functions, Arrow batches, tables and kernels and of the bitmap library, each with an instance on lists
  that the witnesses use (\<open>Arrow_Lists\<close>, \<open>Query_Lists\<close>). The records \<open>graph_lib\<close>, \<open>index_lib\<close> and \<open>query_lib\<close> hold further
  functions: comparison kernels, file times, directory listings, the text of values, arithmetic on
  floats, which are a linear order without NaN. The order in which Python iterates over a set, the
  clock, the redo handlers, the page callbacks and the success of an fsync are parameters as well.

  \<^bold>\<open>Interfaces.\<close> The locales state what a client may rely on: the log for its users, the
  traces of binding, the array and batch functions. Each is interpreted on the model's own definitions
  or on the instance on lists.

  \<^bold>\<open>Bounds.\<close> Sizes are bounded only by the field that stores them (a record's lengths fit 32 bits, a
  segment number six digits for the order of names, array sizes 63 bits). Loops of the source
  are structural recursion or have a termination proof; the loop of the rewriter has the fuel of
  its own iteration limit; a loop that waits for a child operator is a partial function, and the
  theorems give its value over any child that ends.

  \<^bold>\<open>Not modelled.\<close> The parser, the tree transformer, the formatter and the diagnostics of Tuft (text
  processing over a grammar library) and the built-in functions (NumPy and Arrow kernels by name). Of
  \<open>api.py\<close>: insertion and upserts, the statements of \<open>exec\<close>, queries with several pattern elements, the
  vector and text indexes beyond their staleness, entity linking and retrieval (scores in floating
  point), resource import and export, and sampling for graph networks. The operators for neighbour
  sampling, random walks, nearest neighbours and export; the cost model, the vector index and the
  vector functions (floating point); packing (an archive library), ingestion, machine-learning adapters,
  user functions, feature views, observability, the viewer, the command line and the benchmarks (input,
  output and glue); the choice of the engine and the Rust core under \<open>crates\<close>.
\<close>

end
